(* ===== verification/Prelude.thy ===== *)
theory Prelude
  imports Main "HOL-Library.Multiset" "HOL-Library.Word"
begin

text \<open>
  Shared material: the parts of the C++ standard library that the modelled code calls
  (\<open>std::getline\<close>, \<open>std::string::find\<close>, truncating integer division), and generic lemmas on
  lists and maps.  Collections: \<open>text_simps\<close> holds the rewrite rules about text scanning.
\<close>

named_theorems text_simps

type_synonym byte = "8 word"

section \<open>Results\<close>

text \<open>\<open>MIOPEN_THROW\<close> raises a \<open>miopen::Exception\<close>; a throwing operation returns a sum,
  \<open>Inl\<close> with the exception and \<open>Inr\<close> with the result.\<close>

datatype miopen_status =
    miopenStatusUnknownError
  | miopenStatusBadParm
  | miopenStatusInvalidValue
  | miopenStatusInternalError
  | miopenStatusNotImplemented
  | miopenStatusGpuOperationsSkipped

datatype exn = Exn (exn_status: miopen_status) (exn_msg: string)

type_synonym 'a result = "exn + 'a"

abbreviation throw :: "string \<Rightarrow> 'a result" where
  "throw msg \<equiv> Inl (Exn miopenStatusUnknownError msg)"

abbreviation throw_st :: "miopen_status \<Rightarrow> string \<Rightarrow> 'a result" where
  "throw_st st msg \<equiv> Inl (Exn st msg)"

section \<open>Scanning text\<close>

text \<open>\<open>s.find(c)\<close>: \<open>None\<close> is \<open>std::string::npos\<close>.\<close>

fun find_char :: "char \<Rightarrow> string \<Rightarrow> nat option" where
  "find_char c [] = None"
| "find_char c (x # xs) = (if x = c then Some 0 else map_option Suc (find_char c xs))"

lemma find_char_None [text_simps]: "find_char c s = None \<longleftrightarrow> c \<notin> set s"
  by (induction s) auto

lemma find_char_append [text_simps]:
  "c \<notin> set p \<Longrightarrow> find_char c (p @ c # s) = Some (length p)"
  by (induction p) auto

lemma find_char_Some:
  "find_char c s = Some n \<Longrightarrow> n < length s \<and> s ! n = c \<and> c \<notin> set (take n s)
     \<and> s = take n s @ c # drop (Suc n) s"
  by (induction s arbitrary: n) (auto split: if_splits)

text \<open>The sequence of strings a loop \<open>while(std::getline(stream, x, delim))\<close> reads from a
  stream over \<open>s\<close>: the delimiter is consumed and dropped; an empty rest reads nothing.\<close>

function getlines :: "char \<Rightarrow> string \<Rightarrow> string list" where
  "getlines d s =
     (if s = [] then []
      else takeWhile (\<lambda>c. c \<noteq> d) s # getlines d (drop 1 (dropWhile (\<lambda>c. c \<noteq> d) s)))"
  by pat_completeness auto
termination
proof (relation "measure (\<lambda>(d, s). length s)", goal_cases)
  case (2 d s)
  have "length (dropWhile (\<lambda>c. c \<noteq> d) s) \<le> length s"
    by (rule length_dropWhile_le)
  with 2 show ?case by (cases s) (auto simp: less_Suc_eq_le le_diff_conv)
qed simp

declare getlines.simps [simp del]

lemma getlines_Nil [simp]: "getlines d [] = []"
  by (simp add: getlines.simps)

text \<open>The text up to a delimiter, and from it on.\<close>

lemma until_found [text_simps]:
  assumes "d \<notin> set p"
  shows "takeWhile (\<lambda>c. c \<noteq> d) (p @ d # s) = p" "dropWhile (\<lambda>c. c \<noteq> d) (p @ d # s) = d # s"
  using assms by (induction p) auto

lemma until_end:
  assumes "d \<notin> set p"
  shows "takeWhile (\<lambda>c. c \<noteq> d) p = p" "dropWhile (\<lambda>c. c \<noteq> d) p = []"
  using assms by (auto simp: takeWhile_eq_all_conv dropWhile_eq_Nil_conv)

lemma getlines_last [text_simps]:
  "d \<notin> set p \<Longrightarrow> p \<noteq> [] \<Longrightarrow> getlines d p = [p]"
  by (simp add: getlines.simps [of d p] until_end del: dropWhile_eq_Nil_conv takeWhile_eq_all_conv)

lemma getlines_Cons [text_simps]:
  "d \<notin> set p \<Longrightarrow> getlines d (p @ d # s) = p # getlines d s"
  by (subst getlines.simps) (simp add: until_found)

text \<open>Pieces joined with the delimiter, and read back.\<close>

fun join_with :: "'a list \<Rightarrow> 'a list list \<Rightarrow> 'a list" where
  "join_with d [] = []"
| "join_with d [x] = x"
| "join_with d (x # y # xs) = x @ d @ join_with d (y # xs)"

lemma join_with_Cons: "xs \<noteq> [] \<Longrightarrow> join_with d (x # xs) = x @ d @ join_with d xs"
  by (cases xs) auto

lemma join_with_concat: "join_with d (x # xs) = x @ concat (map (\<lambda>y. d @ y) xs)"
  by (induction xs arbitrary: x) auto

lemma getlines_join:
  "(\<forall>x \<in> set xs. d \<notin> set x \<and> x \<noteq> []) \<Longrightarrow> getlines d (join_with [d] xs) = xs"
proof (induction "[d]" xs rule: join_with.induct)
  case (3 x y xs)
  then show ?case by (simp add: getlines_Cons)
qed (simp_all add: getlines_last)

text \<open>Lines of a text in which every line is ended by the delimiter.\<close>

definition unlines :: "char \<Rightarrow> string list \<Rightarrow> string" where
  "unlines d ls = concat (map (\<lambda>l. l @ [d]) ls)"

lemma unlines_Nil [simp]: "unlines d [] = []"
  by (simp add: unlines_def)

lemma unlines_Cons [simp]: "unlines d (l # ls) = l @ d # unlines d ls"
  by (simp add: unlines_def)

lemma unlines_append [simp]: "unlines d (ls @ ms) = unlines d ls @ unlines d ms"
  by (simp add: unlines_def)

lemma unlines_eq_Nil [simp]: "unlines d ls = [] \<longleftrightarrow> ls = []"
  by (cases ls) auto

lemma getlines_unlines [text_simps]:
  "(\<forall>l \<in> set ls. d \<notin> set l) \<Longrightarrow> getlines d (unlines d ls) = ls"
  by (induction ls) (auto simp: getlines_Cons)

lemma getlines_pieces: "x \<in> set (getlines d s) \<Longrightarrow> d \<notin> set x \<and> set x \<subseteq> set s"
proof (induction d s rule: getlines.induct)
  case (1 d s)
  show ?case
  proof (cases "s = []")
    case False
    let ?p = "takeWhile (\<lambda>c. c \<noteq> d) s" and ?r = "dropWhile (\<lambda>c. c \<noteq> d) s"
    have "x = ?p \<or> x \<in> set (getlines d (drop 1 ?r))"
      using 1(2) False by (subst (asm) getlines.simps) simp
    moreover have "set (drop 1 ?r) \<subseteq> set s"
      by (meson set_drop_subset set_dropWhileD subset_iff)
    moreover have "d \<notin> set ?p \<and> set ?p \<subseteq> set s"
      by (auto dest: set_takeWhileD)
    ultimately show ?thesis
      using 1(1) [OF False] by blast
  qed (use 1 in simp)
qed

section \<open>C integer division\<close>

text \<open>C++ integer division truncates towards zero; \<open>cmod\<close> takes the sign of the dividend.\<close>

definition cdiv :: "int \<Rightarrow> int \<Rightarrow> int" where
  "cdiv a b = sgn a * sgn b * (\<bar>a\<bar> div \<bar>b\<bar>)"

definition cmod :: "int \<Rightarrow> int \<Rightarrow> int" where
  "cmod a b = a - cdiv a b * b"

lemma cdiv_nonneg [simp]: "0 \<le> a \<Longrightarrow> 0 \<le> b \<Longrightarrow> cdiv a b = a div b"
  by (cases "a = 0"; cases "b = 0") (auto simp: cdiv_def sgn_if)

lemma cmod_nonneg [simp]: "0 \<le> a \<Longrightarrow> 0 \<le> b \<Longrightarrow> cmod a b = a mod b"
  by (simp add: cmod_def minus_div_mult_eq_mod)

section \<open>Association lists\<close>

lemma map_of_mset_eq:
  assumes "mset xs = mset ys" "distinct (map fst xs)"
  shows "map_of xs = map_of ys"
proof -
  have "mset (map fst xs) = mset (map fst ys)"
    using assms(1) by simp
  then have "distinct (map fst ys)"
    using assms(2) mset_eq_imp_distinct_iff by blast
  moreover have "set xs = set ys"
    using assms(1) by (metis set_mset_mset)
  ultimately show ?thesis
    using assms(2) map_of_inject_set by blast
qed

lemma distinct_fst_mset:
  "mset xs = mset ys \<Longrightarrow> distinct (map fst ys) \<Longrightarrow> distinct (map fst xs)"
  by (metis mset_eq_imp_distinct_iff mset_map)

end
