(* ===== verification/Db_Record.thy ===== *)
theory Db_Record
  imports Prelude "HOL-Library.AList"
begin

text \<open>
  \<open>DbRecord\<close> (\<open>src/include/miopen/db_record.hpp\<close>, \<open>src/db_record.cpp\<close>): one record of the
  text databases, \<open>KEY=ID:VALUES{;ID:VALUES}\<close>.

  The record's \<open>std::unordered_map\<close> is the list of its elements, a new element at the end.
  The order in which an \<open>unordered_map\<close> is iterated is unspecified: an operation that
  iterates takes a parameter \<open>ord\<close> that permutes the elements, and what is proved holds for
  every such parameter (\<open>hash_order\<close>).  Logging is not modelled.
\<close>

record db_record =
  rec_key :: string
  rec_map :: "(string \<times> string) list"

type_synonym order = "(string \<times> string) list \<Rightarrow> (string \<times> string) list"

definition hash_order :: "order \<Rightarrow> bool" where
  "hash_order ord \<longleftrightarrow> (\<forall>xs. mset (ord xs) = mset xs)"

abbreviation rec_lookup :: "db_record \<Rightarrow> string \<rightharpoonup> string" where
  "rec_lookup r \<equiv> map_of (rec_map r)"

section \<open>Operations\<close>

definition DbRecord_of_key :: "string \<Rightarrow> db_record" where
  "DbRecord_of_key k = \<lparr>rec_key = k, rec_map = []\<rparr>"

definition DbRecord_SetValues :: "db_record \<Rightarrow> string \<Rightarrow> string \<Rightarrow> db_record \<times> bool" where
  "DbRecord_SetValues r i values =
     (if rec_lookup r i = None \<or> rec_lookup r i \<noteq> Some values
      then (r\<lparr>rec_map := AList.update i values (rec_map r)\<rparr>, True)
      else (r, False))"

definition DbRecord_GetValues :: "db_record \<Rightarrow> string \<Rightarrow> string option" where
  "DbRecord_GetValues r i = rec_lookup r i"

definition DbRecord_EraseValues :: "db_record \<Rightarrow> string \<Rightarrow> db_record \<times> bool" where
  "DbRecord_EraseValues r i =
     (if rec_lookup r i \<noteq> None then (r\<lparr>rec_map := AList.delete i (rec_map r)\<rparr>, True)
      else (r, False))"

text \<open>One turn of the loop of \<open>ParseContents\<close>: the map so far and the number found.\<close>

definition parse_step ::
  "(string \<times> string) list \<times> nat \<Rightarrow> string \<Rightarrow> (string \<times> string) list \<times> nat" where
  "parse_step st id_and_values =
     (case st of (m, found) \<Rightarrow>
       (case find_char CHR '':'' id_and_values of
          None \<Rightarrow> (m, found)
        | Some id_size \<Rightarrow>
            (let i = take id_size id_and_values; values = drop (id_size + 1) id_and_values in
             if map_of m i \<noteq> None then (m, found)
             else (m @ [(i, values)], found + 1))))"

definition DbRecord_ParseContents :: "db_record \<Rightarrow> string \<Rightarrow> db_record \<times> bool" where
  "DbRecord_ParseContents r contents =
     (case foldl parse_step ([], 0) (getlines CHR '';'' contents) of
        (m, found) \<Rightarrow> (r\<lparr>rec_map := m\<rparr>, found > 0))"

definition pairs_joiner :: "string \<Rightarrow> string \<times> string \<Rightarrow> string" where
  "pairs_joiner acc p =
     (let pair_str = fst p @ '':'' @ snd p in
      if acc = [] then pair_str else acc @ '';'' @ pair_str)"

abbreviation endl :: string where "endl \<equiv> [CHR 0x0A]"

definition DbRecord_WriteIdsAndValues :: "order \<Rightarrow> db_record \<Rightarrow> string" where
  "DbRecord_WriteIdsAndValues ord r =
     (if rec_map r = [] then [] else foldl pairs_joiner [] (ord (rec_map r)) @ endl)"

definition DbRecord_WriteContents :: "order \<Rightarrow> db_record \<Rightarrow> string" where
  "DbRecord_WriteContents ord r =
     (if rec_map r = [] then []
      else rec_key r @ ''='' @ DbRecord_WriteIdsAndValues ord r)"

definition merge_step :: "(string \<times> string) list \<Rightarrow> string \<times> string \<Rightarrow> (string \<times> string) list" where
  "merge_step m p = (if map_of m (fst p) \<noteq> None then m else m @ [p])"

definition DbRecord_Merge :: "order \<Rightarrow> db_record \<Rightarrow> db_record \<Rightarrow> db_record" where
  "DbRecord_Merge ord r that =
     (if rec_key r \<noteq> rec_key that then r
      else r\<lparr>rec_map := foldl merge_step (rec_map r) (ord (rec_map that))\<rparr>)"

text \<open>The templates over a value type: \<open>ser\<close> is the type's \<open>Serialize\<close>, \<open>deser\<close> its
  \<open>Deserialize\<close> on a default-constructed value (\<open>None\<close> for \<open>false\<close>).\<close>

definition DbRecord_SetValuesT ::
  "('v \<Rightarrow> string) \<Rightarrow> db_record \<Rightarrow> string \<Rightarrow> 'v \<Rightarrow> db_record \<times> bool" where
  "DbRecord_SetValuesT ser r i v = DbRecord_SetValues r i (ser v)"

definition DbRecord_GetValuesT ::
  "(string \<Rightarrow> 'v option) \<Rightarrow> db_record \<Rightarrow> string \<Rightarrow> 'v option" where
  "DbRecord_GetValuesT deser r i =
     (case DbRecord_GetValues r i of None \<Rightarrow> None | Some s \<Rightarrow> deser s)"

text \<open>The elements a loop over \<open>As<TValue>()\<close> sees: the result of \<open>Deserialize\<close> is not
  looked at, so a value that fails to parse is the default one.\<close>

definition DbRecord_As ::
  "order \<Rightarrow> (string \<Rightarrow> 'v option) \<Rightarrow> 'v \<Rightarrow> db_record \<Rightarrow> (string \<times> 'v) list" where
  "DbRecord_As ord deser dflt r =
     map (\<lambda>(i, s). (i, case deser s of Some v \<Rightarrow> v | None \<Rightarrow> dflt)) (ord (rec_map r))"

section \<open>Well-formed records\<close>

text \<open>What the header asks of a record: unique IDs, and no separator inside the parts.
  (A \<open>':'\<close> inside VALUES is harmless: only the first one is looked for.)\<close>

definition id_ok :: "string \<Rightarrow> bool" where
  "id_ok i \<longleftrightarrow> CHR '':'' \<notin> set i \<and> CHR '';'' \<notin> set i \<and> CHR 0x0A \<notin> set i"

definition values_ok :: "string \<Rightarrow> bool" where
  "values_ok v \<longleftrightarrow> CHR '';'' \<notin> set v \<and> CHR 0x0A \<notin> set v"

definition rec_wf :: "db_record \<Rightarrow> bool" where
  "rec_wf r \<longleftrightarrow> distinct (map fst (rec_map r))
     \<and> (\<forall>(i, v) \<in> set (rec_map r). id_ok i \<and> values_ok v)"

definition key_ok :: "string \<Rightarrow> bool" where
  "key_ok k \<longleftrightarrow> k \<noteq> [] \<and> CHR ''='' \<notin> set k \<and> CHR 0x0A \<notin> set k"

section \<open>Lookup after each operation\<close>

lemma rec_lookup_SetValues [simp]:
  "rec_lookup (fst (DbRecord_SetValues r i v)) = (rec_lookup r)(i \<mapsto> v)"
  by (auto simp: DbRecord_SetValues_def update_conv' fun_upd_idem_iff)

lemma rec_lookup_EraseValues [simp]:
  "rec_lookup (fst (DbRecord_EraseValues r i)) = (rec_lookup r)(i := None)"
  by (auto simp: DbRecord_EraseValues_def delete_conv' fun_upd_idem_iff)

lemma rec_key_ops [simp]:
  "rec_key (fst (DbRecord_SetValues r i v)) = rec_key r"
  "rec_key (fst (DbRecord_EraseValues r i)) = rec_key r"
  "rec_key (fst (DbRecord_ParseContents r s)) = rec_key r"
  "rec_key (DbRecord_Merge ord r that) = rec_key r"
  "rec_key (DbRecord_of_key k) = k"
  by (auto simp: DbRecord_SetValues_def DbRecord_EraseValues_def DbRecord_ParseContents_def
      DbRecord_Merge_def DbRecord_of_key_def split: prod.splits)

lemma set_AList_update: "set (AList.update k v xs) \<subseteq> insert (k, v) (set xs)"
  by (induction xs) auto

lemma set_AList_delete: "set (AList.delete k xs) \<subseteq> set xs"
  by (simp add: AList.delete_eq)

lemma rec_wf_SetValues:
  assumes "rec_wf r" "id_ok i" "values_ok v"
  shows "rec_wf (fst (DbRecord_SetValues r i v))"
  using assms set_AList_update [of i v "rec_map r"]
  by (auto simp: rec_wf_def DbRecord_SetValues_def distinct_update)

lemma rec_wf_EraseValues: "rec_wf r \<Longrightarrow> rec_wf (fst (DbRecord_EraseValues r i))"
  using set_AList_delete [of i "rec_map r"]
  by (auto simp: rec_wf_def DbRecord_EraseValues_def distinct_delete)

lemma rec_wf_of_key [simp]: "rec_wf (DbRecord_of_key k)"
  by (simp add: rec_wf_def DbRecord_of_key_def)

lemma hash_orderD: "hash_order ord \<Longrightarrow> mset (ord xs) = mset xs"
  by (simp add: hash_order_def)

lemma hash_order_set: "hash_order ord \<Longrightarrow> set (ord xs) = set xs"
  by (metis hash_orderD set_mset_mset)

lemma hash_order_Nil [simp]: "hash_order ord \<Longrightarrow> ord xs = [] \<longleftrightarrow> xs = []"
  by (metis hash_orderD mset_zero_iff)

lemma hash_order_map_of:
  "hash_order ord \<Longrightarrow> distinct (map fst xs) \<Longrightarrow> map_of (ord xs) = map_of xs"
  by (metis distinct_fst_mset hash_orderD map_of_mset_eq)

lemma hash_order_distinct:
  "hash_order ord \<Longrightarrow> distinct (map fst xs) \<Longrightarrow> distinct (map fst (ord xs))"
  by (metis distinct_fst_mset hash_orderD)

lemma hash_order_id [simp]: "hash_order (\<lambda>xs. xs)"
  by (simp add: hash_order_def)

lemma hash_order_rev [simp]: "hash_order rev"
  by (simp add: hash_order_def)

lemma foldl_merge_step:
  "map_of (foldl merge_step m xs) = map_of xs ++ map_of m \<and>
   (distinct (map fst m) \<longrightarrow> distinct (map fst (foldl merge_step m xs)))"
proof (induction xs arbitrary: m)
  case (Cons p xs)
  have "map_of (merge_step m p) = map_of [p] ++ map_of m"
    by (cases p) (auto simp: merge_step_def fun_eq_iff map_add_def split: option.splits)
  moreover have "distinct (map fst m) \<Longrightarrow> distinct (map fst (merge_step m p))"
    by (auto simp: merge_step_def map_of_eq_None_iff)
  ultimately show ?case
    using Cons.IH [of "merge_step m p"]
    by (cases p) (auto simp: fun_eq_iff map_add_def split: option.splits)
qed simp

lemma rec_lookup_Merge:
  assumes "hash_order ord" "distinct (map fst (rec_map that))" "rec_key r = rec_key that"
  shows "rec_lookup (DbRecord_Merge ord r that) = rec_lookup that ++ rec_lookup r"
  using assms by (simp add: DbRecord_Merge_def foldl_merge_step hash_order_map_of)

section \<open>Writing and parsing back\<close>

lemma foldl_pairs_joiner:
  "acc \<noteq> [] \<Longrightarrow> foldl pairs_joiner acc xs
     = acc @ concat (map (\<lambda>p. '';'' @ fst p @ '':'' @ snd p) xs)"
  by (induction xs arbitrary: acc) (simp_all add: pairs_joiner_def Let_def)

lemma foldl_pairs_joiner_Nil:
  "foldl pairs_joiner [] xs = join_with '';'' (map (\<lambda>p. fst p @ '':'' @ snd p) xs)"
  by (cases xs)
    (simp_all add: pairs_joiner_def Let_def foldl_pairs_joiner join_with_concat o_def)

lemma getlines_written:
  assumes "\<forall>(i, v) \<in> set xs. id_ok i \<and> values_ok v"
  shows "getlines CHR '';'' (foldl pairs_joiner [] xs) = map (\<lambda>p. fst p @ '':'' @ snd p) xs"
  unfolding foldl_pairs_joiner_Nil
  by (rule getlines_join) (use assms in \<open>auto simp: id_ok_def values_ok_def\<close>)

lemma parse_step_pair:
  "id_ok i \<Longrightarrow> parse_step (m, n) (i @ '':'' @ v)
     = (if map_of m i \<noteq> None then (m, n) else (m @ [(i, v)], n + 1))"
  by (simp add: parse_step_def find_char_append id_ok_def)

lemma foldl_parse_step:
  assumes "\<forall>(i, v) \<in> set xs. id_ok i" "distinct (map fst (m @ xs))"
  shows "foldl parse_step (m, n) (map (\<lambda>p. fst p @ '':'' @ snd p) xs)
    = (m @ xs, n + length xs)"
  using assms
proof (induction xs arbitrary: m n)
  case (Cons p xs)
  obtain i v where p: "p = (i, v)" by (cases p)
  have "map_of m i = None"
    using Cons.prems(2) p by (auto simp: map_of_eq_None_iff)
  then have "parse_step (m, n) (i @ '':'' @ v) = (m @ [(i, v)], n + 1)"
    using Cons.prems(1) p by (subst parse_step_pair) auto
  with Cons.IH [of "m @ [(i, v)]" "n + 1"] Cons.prems p show ?case by simp
qed simp

lemma ParseContents_written:
  assumes "rec_wf r" "hash_order ord" "rec_map r \<noteq> []"
  shows "DbRecord_ParseContents r0 (foldl pairs_joiner [] (ord (rec_map r)))
    = (r0\<lparr>rec_map := ord (rec_map r)\<rparr>, True)"
proof -
  let ?xs = "ord (rec_map r)"
  have ok: "\<forall>(i, v) \<in> set ?xs. id_ok i \<and> values_ok v"
    using assms by (auto simp: rec_wf_def hash_order_set)
  have d: "distinct (map fst ([] @ ?xs))"
    using assms by (simp add: rec_wf_def hash_order_distinct)
  have "foldl parse_step ([], 0) (getlines CHR '';'' (foldl pairs_joiner [] ?xs))
      = ([] @ ?xs, 0 + length ?xs)"
    unfolding getlines_written [OF ok]
    by (rule foldl_parse_step) (use ok d in auto)
  moreover have "0 < length ?xs"
    using assms by simp
  ultimately show ?thesis
    by (simp add: DbRecord_ParseContents_def)
qed

text \<open>Parsing never produces duplicate IDs, and never an ID with a separator.\<close>

lemma parse_step_inv:
  assumes "distinct (map fst m)" "\<forall>(i, v) \<in> set m. id_ok i \<and> values_ok v"
    and "CHR '';'' \<notin> set s" "CHR 0x0A \<notin> set s"
  shows "distinct (map fst (fst (parse_step (m, n) s)))
    \<and> (\<forall>(i, v) \<in> set (fst (parse_step (m, n) s)). id_ok i \<and> values_ok v)"
  using assms
  by (auto simp: parse_step_def Let_def map_of_eq_None_iff id_ok_def values_ok_def
      dest: find_char_Some in_set_takeD in_set_dropD split: option.splits)

lemma foldl_parse_step_inv:
  "distinct (map fst m) \<Longrightarrow> \<forall>(i, v) \<in> set m. id_ok i \<and> values_ok v \<Longrightarrow>
   \<forall>s \<in> set ss. CHR '';'' \<notin> set s \<and> CHR 0x0A \<notin> set s \<Longrightarrow>
   distinct (map fst (fst (foldl parse_step (m, n) ss)))
    \<and> (\<forall>(i, v) \<in> set (fst (foldl parse_step (m, n) ss)). id_ok i \<and> values_ok v)"
proof (induction ss arbitrary: m n)
  case (Cons s ss)
  obtain m' n' where st: "parse_step (m, n) s = (m', n')" by fastforce
  with parse_step_inv [OF Cons.prems(1,2), of s n] Cons.IH [of m' n'] Cons.prems(3)
  show ?case by simp
qed simp

lemma rec_wf_ParseContents:
  assumes "CHR 0x0A \<notin> set s"
  shows "rec_wf (fst (DbRecord_ParseContents r s))"
proof -
  have "\<forall>x \<in> set (getlines CHR '';'' s). CHR '';'' \<notin> set x \<and> CHR 0x0A \<notin> set x"
    using assms getlines_pieces by blast
  from foldl_parse_step_inv [OF _ _ this, of "[]" 0] show ?thesis
    by (auto simp: DbRecord_ParseContents_def rec_wf_def split: prod.splits)
qed

lemma rec_wf_Merge:
  assumes "rec_wf r" "rec_wf that" "hash_order ord"
  shows "rec_wf (DbRecord_Merge ord r that)"
proof -
  have "set (foldl merge_step m xs) \<subseteq> set m \<union> set xs" for m xs
  proof (induction xs arbitrary: m)
    case (Cons p xs)
    show ?case using Cons.IH [of "merge_step m p"] by (auto simp: merge_step_def)
  qed simp
  moreover have "distinct (map fst (foldl merge_step (rec_map r) (ord (rec_map that))))"
    using assms by (simp add: foldl_merge_step rec_wf_def)
  ultimately show ?thesis
    using assms by (fastforce simp: DbRecord_Merge_def rec_wf_def hash_order_set)
qed

text \<open>C12: Round trip of a record's text.  For a record whose IDs are distinct and free of
  \<open>:\<close>, \<open>;\<close> and newlines and whose VALUES are free of \<open>;\<close> and newlines, parsing the
  text \<open>WriteIdsAndValues\<close> prints, up to its final newline, succeeds and yields a record
  with exactly the same ID to VALUES mapping, whatever order the hash map is iterated in.\<close>

theorem DbRecord_roundtrip:
  assumes "rec_wf r" "hash_order ord" "rec_map r \<noteq> []"
  shows "\<exists>r'. DbRecord_ParseContents (DbRecord_of_key (rec_key r))
      (butlast (DbRecord_WriteIdsAndValues ord r)) = (r', True)
    \<and> rec_key r' = rec_key r \<and> rec_lookup r' = rec_lookup r \<and> rec_wf r'"
proof -
  have w: "butlast (DbRecord_WriteIdsAndValues ord r) = foldl pairs_joiner [] (ord (rec_map r))"
    using assms(3) by (simp add: DbRecord_WriteIdsAndValues_def butlast_append)
  have "rec_lookup (r\<lparr>rec_map := ord (rec_map r)\<rparr>) = rec_lookup r"
    using assms by (simp add: hash_order_map_of rec_wf_def)
  moreover have "rec_wf (DbRecord_of_key k\<lparr>rec_map := ord (rec_map r)\<rparr>)" for k
    using assms by (auto simp: rec_wf_def hash_order_distinct hash_order_set)
  ultimately show ?thesis
    unfolding w ParseContents_written [OF assms] by (simp add: DbRecord_of_key_def)
qed

theorem DbRecord_roundtrip_witness:
  "\<exists>r'. DbRecord_ParseContents (DbRecord_of_key ''k'')
      (butlast (DbRecord_WriteIdsAndValues rev
         \<lparr>rec_key = ''k'', rec_map = [(''a'', ''1,2''), (''b'', [])]\<rparr>)) = (r', True)
    \<and> rec_key r' = ''k'' \<and> rec_lookup r' = [''a'' \<mapsto> ''1,2'', ''b'' \<mapsto> []] \<and> rec_wf r'"
proof -
  let ?r = "\<lparr>rec_key = ''k'', rec_map = [(''a'', ''1,2''), (''b'', [])]\<rparr>"
  have "rec_wf ?r" by (simp add: rec_wf_def id_ok_def values_ok_def)
  from DbRecord_roundtrip [OF this hash_order_rev] show ?thesis
    by (simp add: fun_upd_twist)
qed

end
