(* ===== verification/Db_Interface.thy ===== *)
theory Db_Interface
  imports Db_Record
begin

text \<open>
  What a database class of records promises its clients (\<open>FindDbRecord_t\<close>, \<open>MultiFileDb\<close>),
  as locales over an abstract view: a map from keys to ID to VALUES maps.  The plain text
  database and the cached database interpret them on their models; the lemmas here are the
  clients' view, proved once.
\<close>

text \<open>The abstract effect of storing a mapping: an empty record removes the key.\<close>

definition put_view ::
  "string \<Rightarrow> (string \<rightharpoonup> string) \<Rightarrow> (string \<rightharpoonup> (string \<rightharpoonup> string)) \<Rightarrow> (string \<rightharpoonup> (string \<rightharpoonup> string))" where
  "put_view k m v = v(k := (if m = Map.empty then None else Some m))"

lemma put_view_same [simp]: "m \<noteq> Map.empty \<Longrightarrow> put_view k m v k = Some m"
  by (simp add: put_view_def)

lemma put_view_other [simp]: "k' \<noteq> k \<Longrightarrow> put_view k m v k' = v k'"
  by (simp add: put_view_def)

lemma put_view_empty [simp]: "put_view k Map.empty v = v(k := None)"
  by (simp add: put_view_def)

locale read_db =
  fixes view :: "'s \<Rightarrow> string \<rightharpoonup> (string \<rightharpoonup> string)"
    and inv :: "'s \<Rightarrow> bool"
    and find :: "'s \<Rightarrow> string \<Rightarrow> 's \<times> db_record option"
  assumes find_inv: "inv s \<Longrightarrow> inv (fst (find s k))"
    and find_frame: "inv s \<Longrightarrow> view (fst (find s k)) = view s"
    and find_view: "inv s \<Longrightarrow> map_option rec_lookup (snd (find s k)) = view s k"
    and find_record: "inv s \<Longrightarrow> snd (find s k) = Some r \<Longrightarrow> rec_key r = k \<and> rec_wf r"
begin

lemma find_None: "inv s \<Longrightarrow> snd (find s k) = None \<longleftrightarrow> view s k = None"
  by (metis find_view option.map_disc_iff)

lemma find_Some: "inv s \<Longrightarrow> snd (find s k) = Some r \<Longrightarrow> view s k = Some (rec_lookup r)"
  using find_view [of s k] by simp

lemma find_again: "inv s \<Longrightarrow>
    map_option rec_lookup (snd (find (fst (find s k)) k')) = view s k'"
  by (simp add: find_frame find_inv find_view)

end

locale record_db = read_db +
  fixes store :: "'a \<Rightarrow> db_record \<Rightarrow> 'a \<times> bool"
    and update :: "'a \<Rightarrow> db_record \<Rightarrow> ('a \<times> bool) \<times> db_record"
    and remove :: "'a \<Rightarrow> string \<Rightarrow> 'a \<times> bool"
  assumes store_ok: "inv s \<Longrightarrow> rec_wf r \<Longrightarrow> key_ok (rec_key r) \<Longrightarrow> store s r = (s', True) \<Longrightarrow>
      inv s' \<and> view s' = put_view (rec_key r) (rec_lookup r) (view s)"
    and update_ok: "inv s \<Longrightarrow> rec_wf r \<Longrightarrow> key_ok (rec_key r) \<Longrightarrow> update s r = ((s', True), r') \<Longrightarrow>
      inv s' \<and> rec_wf r' \<and> rec_key r' = rec_key r
      \<and> rec_lookup r' = (case view s (rec_key r) of None \<Rightarrow> Map.empty | Some m \<Rightarrow> m) ++ rec_lookup r
      \<and> view s' = put_view (rec_key r) (rec_lookup r') (view s)"
    and remove_ok: "inv s \<Longrightarrow> key_ok k \<Longrightarrow> remove s k = (s', True) \<Longrightarrow>
      inv s' \<and> view s' = (view s)(k := None)"
begin

text \<open>Reading back what was stored, and not disturbing other keys.\<close>

lemma find_after_store:
  assumes "inv s" "rec_wf r" "key_ok (rec_key r)" "store s r = (s', True)" "rec_map r \<noteq> []"
  shows "map_option rec_lookup (snd (find s' (rec_key r))) = Some (rec_lookup r)"
    and "k \<noteq> rec_key r \<Longrightarrow>
      map_option rec_lookup (snd (find s' k)) = map_option rec_lookup (snd (find s k))"
  using store_ok [OF assms(1-4)] assms(1,5) by (auto simp: find_view map_of_eq_empty_iff)

lemma find_after_remove:
  assumes "inv s" "key_ok k" "remove s k = (s', True)"
  shows "snd (find s' k) = None"
    and "k' \<noteq> k \<Longrightarrow>
      map_option rec_lookup (snd (find s' k')) = map_option rec_lookup (snd (find s k'))"
  using remove_ok [OF assms] assms(1) by (auto simp: find_view find_None)

text \<open>An update keeps what the database had under other IDs of the key.\<close>

lemma values_after_update:
  assumes "inv s" "rec_wf r" "key_ok (rec_key r)" "update s r = ((s', True), r')"
    and "snd (find s' (rec_key r)) = Some q"
  shows "rec_lookup r i = Some v \<Longrightarrow> rec_lookup q i = Some v"
    and "rec_lookup r i = None \<Longrightarrow> snd (find s (rec_key r)) = Some p \<Longrightarrow>
           rec_lookup q i = rec_lookup p i"
proof -
  note up = update_ok [OF assms(1-4)]
  then have "view s' (rec_key r) = Some (rec_lookup q)"
    using assms(5) find_Some by blast
  with up have q: "rec_lookup q
      = (case view s (rec_key r) of None \<Rightarrow> Map.empty | Some m \<Rightarrow> m) ++ rec_lookup r"
    by (auto simp: put_view_def split: if_splits)
  show "rec_lookup r i = Some v \<Longrightarrow> rec_lookup q i = Some v"
    using q by simp
  show "rec_lookup r i = None \<Longrightarrow> snd (find s (rec_key r)) = Some p \<Longrightarrow>
      rec_lookup q i = rec_lookup p i"
    using q find_Some [OF assms(1)] by (simp add: map_add_def)
qed

end

text \<open>A value type that can be stored: what \<open>Serialize\<close> prints is read back by \<open>Deserialize\<close>
  and holds none of the separators.\<close>

locale value_codec =
  fixes ser :: "'v \<Rightarrow> string"
    and deser :: "string \<Rightarrow> 'v option"
    and valid :: "'v \<Rightarrow> bool"
  assumes deser_ser: "valid v \<Longrightarrow> deser (ser v) = Some v"
    and ser_clean: "valid v \<Longrightarrow> values_ok (ser v)"
begin

lemma get_after_set:
  "valid v \<Longrightarrow> DbRecord_GetValuesT deser (fst (DbRecord_SetValuesT ser r i v)) i = Some v"
  by (simp add: DbRecord_GetValuesT_def DbRecord_SetValuesT_def DbRecord_GetValues_def deser_ser)

lemma set_keeps_others:
  "i' \<noteq> i \<Longrightarrow> DbRecord_GetValuesT deser (fst (DbRecord_SetValuesT ser r i v)) i'
    = DbRecord_GetValuesT deser r i'"
  by (simp add: DbRecord_GetValuesT_def DbRecord_SetValuesT_def DbRecord_GetValues_def)

lemma set_wf:
  assumes "valid v" "rec_wf r" "id_ok i"
  shows "rec_wf (fst (DbRecord_SetValuesT ser r i v))"
  using assms by (simp add: DbRecord_SetValuesT_def rec_wf_SetValues ser_clean)

end

end
