(* ===== verification/Plain_Text_Db.thy ===== *)
theory Plain_Text_Db
  imports Db_Interface
begin

text \<open>
  \<open>PlainTextDb\<close> (\<open>src/include/miopen/db.hpp\<close>, \<open>src/db.cpp\<close>): a file of records, one per
  line, searched line by line and rewritten through a temporary file.

  The file system is a map from paths to contents with two predicates for the paths that can
  be opened for reading and for writing; an output stream that was opened does not fail, and
  \<open>rename\<close> succeeds (the code has the same assumption as a \<open>\todo\<close>), and so does setting the
  permissions of the file, which the code calls without a guard.  Stream positions are
  integers, -1 as in the code.  The lock of the public operations is their parameter \<open>locked\<close>
  (whether the lock file could be locked in time) and \<open>no_io\<close> is the build constant
  \<open>DisableUserDbFileIO\<close>.
\<close>

record filesys =
  fs_files :: "string \<rightharpoonup> string"
  fs_readable :: "string \<Rightarrow> bool"
  fs_writable :: "string \<Rightarrow> bool"

record record_positions =
  pos_begin :: int
  pos_end :: int

definition no_positions :: record_positions where
  "no_positions = \<lparr>pos_begin = -1, pos_end = -1\<rparr>"

abbreviation nl :: char where "nl \<equiv> CHR 0x0A"

text \<open>\<open>std::ifstream file(name)\<close>: the text, if it can be opened.\<close>

definition ifstream :: "filesys \<Rightarrow> string \<Rightarrow> string option" where
  "ifstream fs name = (if fs_readable fs name then fs_files fs name else None)"

section \<open>Operations\<close>

lemma drop_line_shorter:
  "s \<noteq> [] \<Longrightarrow> length (drop 1 (dropWhile P s)) < length s"
proof -
  assume s: "s \<noteq> []"
  have "length (dropWhile P s) \<le> length s" by (rule length_dropWhile_le)
  with s show ?thesis by (cases s) auto
qed

text \<open>The scan of \<open>FindRecordUnsafe\<close> from stream position \<open>pos\<close>, with \<open>s\<close> left to read.
  When a line is ended by the end of the file, \<open>getline\<close> sets \<open>eofbit\<close> and the following
  \<open>tellg()\<close> returns -1.\<close>

function find_scan :: "string \<Rightarrow> int \<Rightarrow> string \<Rightarrow> (db_record \<times> record_positions) option" where
  "find_scan key pos s =
     (if s = [] then None
      else
        let line = takeWhile (\<lambda>c. c \<noteq> nl) s;
            rest = dropWhile (\<lambda>c. c \<noteq> nl) s;
            next_line_begin = (if rest = [] then -1 else pos + int (length line) + 1);
            continue = find_scan key next_line_begin (drop 1 rest)
        in case find_char CHR ''='' line of
             None \<Rightarrow> continue
           | Some key_size \<Rightarrow>
               if key_size = 0 then continue
               else
                 let current_key = take key_size line; contents = drop (key_size + 1) line in
                 if current_key \<noteq> key then continue
                 else if contents = [] then continue
                 else Some (fst (DbRecord_ParseContents (DbRecord_of_key key) contents),
                            \<lparr>pos_begin = pos, pos_end = next_line_begin\<rparr>))"
  by pat_completeness auto

termination
  by (relation "measure (\<lambda>(k, p, s). length s)") (simp_all add: drop_line_shorter [simplified])

declare find_scan.simps [simp del]

definition PlainTextDb_FindRecordUnsafe ::
  "filesys \<Rightarrow> string \<Rightarrow> string \<Rightarrow> db_record option \<times> record_positions" where
  "PlainTextDb_FindRecordUnsafe fs filename key =
     (case ifstream fs filename of
        None \<Rightarrow> (None, no_positions)
      | Some file \<Rightarrow>
          (case find_scan key 0 file of
             None \<Rightarrow> (None, no_positions)
           | Some (r, pos) \<Rightarrow> (Some r, pos)))"

text \<open>The loop of \<open>Copy\<close>: it is entered only for a positive count, and the buffer then
  holds at least one character, \<open>Suc b\<close> of them.  \<open>istream::read\<close> sets \<open>eofbit\<close> when it
  gets fewer characters than asked.\<close>

function copy_loop :: "nat \<Rightarrow> string \<Rightarrow> string \<Rightarrow> nat \<Rightarrow> bool \<Rightarrow> string \<times> string" where
  "copy_loop b from to left eof =
     (if left > 0 \<and> \<not> eof then
        let to_read = min left (Suc b); buffer = take to_read from; n = length buffer in
        copy_loop b (drop to_read from) (to @ buffer) (left - n) (n < to_read)
      else (from, to))"
  by pat_completeness auto
termination
  by (relation "measures [\<lambda>(b, f, t, l, e). l, \<lambda>(b, f, t, l, e). if e then 0 else 1]")
    (auto simp: min_def)

declare copy_loop.simps [simp del]

definition Copy :: "string \<Rightarrow> string \<Rightarrow> nat \<Rightarrow> string \<times> string" where
  "Copy from to cnt =
     (let buffer_size_limit = 4 * 1024 * 1024; buffer_size = min buffer_size_limit cnt in
      if cnt > 0 then copy_loop (buffer_size - 1) from to cnt False else (from, to))"

definition PlainTextDb_FlushUnsafe ::
  "order \<Rightarrow> filesys \<Rightarrow> string \<Rightarrow> db_record \<Rightarrow> record_positions \<Rightarrow> filesys \<times> bool" where
  "PlainTextDb_FlushUnsafe ord fs filename r pos =
     (if pos_begin pos < 0 \<or> pos_end pos < 0 then
        (if \<not> fs_writable fs filename then (fs, False)
         else
           let old = (case fs_files fs filename of None \<Rightarrow> [] | Some t \<Rightarrow> t) in
           (fs\<lparr>fs_files := (fs_files fs)(filename \<mapsto> old @ DbRecord_WriteContents ord r)\<rparr>, True))
      else
        (case ifstream fs filename of
           None \<Rightarrow> (fs, False)
         | Some from \<Rightarrow>
             let temp_name = filename @ ''.temp'' in
             if \<not> fs_writable fs temp_name then (fs, False)
             else
               let from_size = length from;
                   to = snd (Copy from [] (nat (pos_begin pos)));
                   to = to @ DbRecord_WriteContents ord r;
                   to = snd (Copy (drop (nat (pos_end pos)) from) to
                               (from_size - nat (pos_end pos)))
               in (fs\<lparr>fs_files := (fs_files fs)(temp_name := None, filename \<mapsto> to)\<rparr>, True)))"

definition PlainTextDb_StoreRecordUnsafe ::
  "order \<Rightarrow> filesys \<Rightarrow> string \<Rightarrow> db_record \<Rightarrow> filesys \<times> bool" where
  "PlainTextDb_StoreRecordUnsafe ord fs filename r =
     (let pos = snd (PlainTextDb_FindRecordUnsafe fs filename (rec_key r)) in
      PlainTextDb_FlushUnsafe ord fs filename r pos)"

text \<open>\<open>UpdateRecordUnsafe\<close> replaces its argument by the merged record when it succeeds.\<close>

definition PlainTextDb_UpdateRecordUnsafe ::
  "order \<Rightarrow> filesys \<Rightarrow> string \<Rightarrow> db_record \<Rightarrow> (filesys \<times> bool) \<times> db_record" where
  "PlainTextDb_UpdateRecordUnsafe ord fs filename r =
     (case PlainTextDb_FindRecordUnsafe fs filename (rec_key r) of
        (old_record, pos) \<Rightarrow>
          (let new_record = (case old_record of None \<Rightarrow> r
                             | Some old \<Rightarrow> DbRecord_Merge ord r old);
               res = PlainTextDb_FlushUnsafe ord fs filename new_record pos
           in (res, if snd res then new_record else r)))"

definition PlainTextDb_RemoveRecordUnsafe ::
  "order \<Rightarrow> filesys \<Rightarrow> string \<Rightarrow> string \<Rightarrow> filesys \<times> bool" where
  "PlainTextDb_RemoveRecordUnsafe ord fs filename key =
     (let pos = snd (PlainTextDb_FindRecordUnsafe fs filename key);
          empty_record = DbRecord_of_key key
      in PlainTextDb_FlushUnsafe ord fs filename empty_record pos)"

text \<open>The public operations, under the lock.\<close>

abbreviation lock_failed :: "'a result" where
  "lock_failed \<equiv> throw ''Db lock has failed to lock.''"

definition PlainTextDb_FindRecord ::
  "bool \<Rightarrow> bool \<Rightarrow> filesys \<Rightarrow> string \<Rightarrow> string \<Rightarrow> (db_record option) result" where
  "PlainTextDb_FindRecord no_io locked fs filename key =
     (if no_io then Inr None
      else if \<not> locked then lock_failed
      else Inr (fst (PlainTextDb_FindRecordUnsafe fs filename key)))"

definition PlainTextDb_StoreRecord ::
  "bool \<Rightarrow> bool \<Rightarrow> order \<Rightarrow> filesys \<Rightarrow> string \<Rightarrow> db_record \<Rightarrow> (filesys \<times> bool) result" where
  "PlainTextDb_StoreRecord no_io locked ord fs filename r =
     (if no_io then Inr (fs, True)
      else if \<not> locked then lock_failed
      else Inr (PlainTextDb_StoreRecordUnsafe ord fs filename r))"

definition PlainTextDb_UpdateRecord ::
  "bool \<Rightarrow> bool \<Rightarrow> order \<Rightarrow> filesys \<Rightarrow> string \<Rightarrow> db_record
     \<Rightarrow> ((filesys \<times> bool) \<times> db_record) result" where
  "PlainTextDb_UpdateRecord no_io locked ord fs filename r =
     (if no_io then Inr ((fs, True), r)
      else if \<not> locked then lock_failed
      else Inr (PlainTextDb_UpdateRecordUnsafe ord fs filename r))"

definition PlainTextDb_RemoveRecord ::
  "bool \<Rightarrow> bool \<Rightarrow> order \<Rightarrow> filesys \<Rightarrow> string \<Rightarrow> string \<Rightarrow> (filesys \<times> bool) result" where
  "PlainTextDb_RemoveRecord no_io locked ord fs filename key =
     (if no_io then Inr (fs, True)
      else if \<not> locked then lock_failed
      else Inr (PlainTextDb_RemoveRecordUnsafe ord fs filename key))"

definition PlainTextDb_Remove ::
  "bool \<Rightarrow> bool \<Rightarrow> order \<Rightarrow> filesys \<Rightarrow> string \<Rightarrow> string \<Rightarrow> string \<Rightarrow> (filesys \<times> bool) result" where
  "PlainTextDb_Remove no_io locked ord fs filename key i =
     (if no_io then Inr (fs, True)
      else if \<not> locked then lock_failed
      else
        (case fst (PlainTextDb_FindRecordUnsafe fs filename key) of
           None \<Rightarrow> Inr (fs, False)
         | Some r \<Rightarrow>
             (case DbRecord_EraseValues r i of
                (r', erased) \<Rightarrow>
                  if \<not> erased then Inr (fs, False)
                  else Inr (PlainTextDb_StoreRecordUnsafe ord fs filename r'))))"

text \<open>\<open>Update\<close> and \<open>Load\<close> over a key \<open>key\<close> (the serialized problem) and a value type.\<close>

definition PlainTextDb_Update ::
  "bool \<Rightarrow> bool \<Rightarrow> order \<Rightarrow> filesys \<Rightarrow> string \<Rightarrow> string \<Rightarrow> string \<Rightarrow> ('v \<Rightarrow> string) \<Rightarrow> 'v
     \<Rightarrow> (filesys \<times> db_record option) result" where
  "PlainTextDb_Update no_io locked ord fs filename key i ser v =
     (let r = fst (DbRecord_SetValuesT ser (DbRecord_of_key key) i v) in
      (case PlainTextDb_UpdateRecord no_io locked ord fs filename r of
         Inl e \<Rightarrow> Inl e
       | Inr ((fs', ok), r') \<Rightarrow> Inr (fs', if ok then Some r' else None)))"

definition PlainTextDb_Load ::
  "bool \<Rightarrow> bool \<Rightarrow> filesys \<Rightarrow> string \<Rightarrow> string \<Rightarrow> string \<Rightarrow> (string \<Rightarrow> 'v option)
     \<Rightarrow> ('v option) result" where
  "PlainTextDb_Load no_io locked fs filename key i deser =
     (case PlainTextDb_FindRecord no_io locked fs filename key of
        Inl e \<Rightarrow> Inl e
      | Inr None \<Rightarrow> Inr None
      | Inr (Some r) \<Rightarrow> Inr (DbRecord_GetValuesT deser r i))"

section \<open>Copying and scanning\<close>

lemma copy_loop_eq:
  "(eof \<longrightarrow> from = []) \<Longrightarrow>
   copy_loop b from to left eof = (drop left from, to @ take left from)"
proof (induction b "from" to left eof rule: copy_loop.induct)
  case (1 b "from" to left eof)
  show ?case
  proof (cases "left > 0 \<and> \<not> eof")
    case True
    define r where "r = min left (Suc b)"
    have "copy_loop b from to left eof
        = copy_loop b (drop r from) (to @ take r from) (left - length (take r from))
            (length (take r from) < r)"
      using True by (subst copy_loop.simps) (simp add: Let_def r_def)
    also have "\<dots> = (drop (left - length (take r from)) (drop r from),
        (to @ take r from) @ take (left - length (take r from)) (drop r from))"
      by (rule 1(1)) (use True in \<open>auto simp: r_def\<close>)
    also have "\<dots> = (drop left from, to @ take left from)"
    proof (cases "r \<le> length from")
      case True
      then have "take left from = take (r + (left - r)) from" "r \<le> left"
        by (auto simp: r_def)
      with True show ?thesis
        by (simp add: min_absorb2) (metis \<open>take left from = take (r + (left - r)) from\<close> take_add)
    qed (auto simp: r_def)
    finally show ?thesis .
  qed (use 1(2) in \<open>auto simp: copy_loop.simps\<close>)
qed

lemma Copy_eq [simp]: "Copy from to cnt = (drop cnt from, to @ take cnt from)"
  by (simp add: Copy_def Let_def copy_loop_eq)

text \<open>What the scan sees in a line: the key, when the line is a record with contents.\<close>

definition line_key :: "string \<Rightarrow> string option" where
  "line_key l = (case find_char CHR ''='' l of
      None \<Rightarrow> None
    | Some n \<Rightarrow> if n = 0 \<or> drop (n + 1) l = [] then None else Some (take n l))"

definition line_record :: "string \<Rightarrow> string \<Rightarrow> db_record" where
  "line_record key l = (case find_char CHR ''='' l of
      None \<Rightarrow> DbRecord_of_key key
    | Some n \<Rightarrow> fst (DbRecord_ParseContents (DbRecord_of_key key) (drop (n + 1) l)))"

lemma find_scan_Nil [simp]: "find_scan key pos [] = None"
  by (simp add: find_scan.simps)

lemma find_scan_line:
  assumes "nl \<notin> set l"
  shows "find_scan key pos (l @ nl # s)
    = (if line_key l = Some key
       then Some (line_record key l, \<lparr>pos_begin = pos, pos_end = pos + int (length l) + 1\<rparr>)
       else find_scan key (pos + int (length l) + 1) s)"
proof -
  have "takeWhile (\<lambda>c. c \<noteq> nl) (l @ nl # s) = l" "dropWhile (\<lambda>c. c \<noteq> nl) (l @ nl # s) = nl # s"
    using assms by (induction l) auto
  then show ?thesis
    by (subst find_scan.simps)
      (auto simp: Let_def line_key_def line_record_def split: option.splits)
qed

lemma find_scan_absent:
  "\<forall>l \<in> set ls. nl \<notin> set l \<and> line_key l \<noteq> Some key \<Longrightarrow> find_scan key pos (unlines nl ls) = None"
  by (induction ls arbitrary: pos) (auto simp: find_scan_line)

lemma find_scan_present:
  "\<forall>l \<in> set as. nl \<notin> set l \<and> line_key l \<noteq> Some key \<Longrightarrow> nl \<notin> set l \<Longrightarrow> line_key l = Some key \<Longrightarrow>
   find_scan key pos (unlines nl (as @ l # bs))
     = Some (line_record key l,
         \<lparr>pos_begin = pos + int (length (unlines nl as)),
          pos_end = pos + int (length (unlines nl (as @ [l])))\<rparr>)"
  by (induction as arbitrary: pos) (auto simp: find_scan_line add.assoc)

section \<open>The abstract database of a file\<close>

definition db_lines :: "filesys \<Rightarrow> string \<Rightarrow> string list" where
  "db_lines fs filename = (case fs_files fs filename of None \<Rightarrow> [] | Some t \<Rightarrow> getlines nl t)"

definition lines_view :: "string list \<Rightarrow> string \<rightharpoonup> (string \<rightharpoonup> string)" where
  "lines_view ls k = map_option (\<lambda>l. rec_lookup (line_record k l))
     (List.find (\<lambda>l. line_key l = Some k) ls)"

definition db_view :: "string \<Rightarrow> filesys \<Rightarrow> string \<rightharpoonup> (string \<rightharpoonup> string)" where
  "db_view filename fs = lines_view (db_lines fs filename)"

text \<open>The file can be read, its last line is ended, and no key has two records.\<close>

definition db_inv :: "string \<Rightarrow> filesys \<Rightarrow> bool" where
  "db_inv filename fs \<longleftrightarrow> fs_readable fs filename
     \<and> (case fs_files fs filename of None \<Rightarrow> True | Some t \<Rightarrow> t = [] \<or> last t = nl)
     \<and> distinct (List.map_filter line_key (db_lines fs filename))"

lemma unlines_getlines: "t = [] \<or> last t = d \<Longrightarrow> unlines d (getlines d t) = t"
proof (induction d t rule: getlines.induct)
  case (1 d s)
  show ?case
  proof (cases "s = []")
    case False
    let ?p = "takeWhile (\<lambda>c. c \<noteq> d) s" and ?r = "dropWhile (\<lambda>c. c \<noteq> d) s"
    have "last s = d" using 1(2) False by simp
    then have r: "?r \<noteq> []"
      using False last_in_set by fastforce
    then have "hd ?r = d"
      using hd_dropWhile by blast
    with r obtain q where q: "?r = d # q" by (metis list.collapse)
    have "s = ?p @ d # q"
      using q takeWhile_dropWhile_id [of "\<lambda>c. c \<noteq> d" s] by simp
    then have "q = [] \<or> last q = d"
      using \<open>last s = d\<close> by (metis last_ConsR last_appendR list.discI)
    then have "unlines d (getlines d q) = q"
      using 1(1) [OF False] q by simp
    with \<open>s = ?p @ d # q\<close> False q show ?thesis
      by (subst getlines.simps) simp
  qed simp
qed

lemma db_lines_clean: "l \<in> set (db_lines fs filename) \<Longrightarrow> nl \<notin> set l"
  using getlines_pieces by (auto simp: db_lines_def split: option.splits)

lemma db_inv_file:
  "db_inv filename fs \<Longrightarrow> fs_files fs filename = Some t \<Longrightarrow> t = unlines nl (db_lines fs filename)"
  by (auto simp: db_inv_def db_lines_def unlines_getlines)

lemma line_record_wf: "nl \<notin> set l \<Longrightarrow> rec_wf (line_record k l) \<and> rec_key (line_record k l) = k"
  by (auto simp: line_record_def intro!: rec_wf_ParseContents dest: in_set_dropD split: option.splits)

section \<open>Flushing replaces the lines of a key\<close>

definition record_lines :: "order \<Rightarrow> db_record \<Rightarrow> string list" where
  "record_lines ord r =
     (if rec_map r = [] then []
      else [rec_key r @ CHR ''='' # foldl pairs_joiner [] (ord (rec_map r))])"

lemma WriteContents_lines: "DbRecord_WriteContents ord r = unlines nl (record_lines ord r)"
  by (simp add: DbRecord_WriteContents_def DbRecord_WriteIdsAndValues_def record_lines_def)

definition replace_key :: "string \<Rightarrow> string list \<Rightarrow> string list \<Rightarrow> string list" where
  "replace_key k new ls =
     (let as = takeWhile (\<lambda>l. line_key l \<noteq> Some k) ls;
          bs = dropWhile (\<lambda>l. line_key l \<noteq> Some k) ls
      in as @ new @ drop 1 bs)"

lemma lines_split:
  obtains "\<forall>l \<in> set ls. line_key l \<noteq> Some k"
  | as l bs where "ls = as @ l # bs" "\<forall>l \<in> set as. line_key l \<noteq> Some k" "line_key l = Some k"
proof (cases "\<exists>l \<in> set ls. line_key l = Some k")
  case True
  from split_list_first_prop [OF True] that(2) show ?thesis by metis
qed (use that(1) in blast)

lemma replace_key_simps:
  "\<forall>l \<in> set ls. line_key l \<noteq> Some k \<Longrightarrow> replace_key k new ls = ls @ new"
  "\<forall>l \<in> set as. line_key l \<noteq> Some k \<Longrightarrow> line_key l = Some k \<Longrightarrow>
     replace_key k new (as @ l # bs) = as @ new @ bs"
proof -
  assume "\<forall>l \<in> set ls. line_key l \<noteq> Some k"
  then have "takeWhile (\<lambda>l. line_key l \<noteq> Some k) ls = ls" "dropWhile (\<lambda>l. line_key l \<noteq> Some k) ls = []"
    by (simp_all add: takeWhile_eq_all_conv dropWhile_eq_Nil_conv)
  then show "replace_key k new ls = ls @ new"
    by (simp add: replace_key_def del: takeWhile_eq_all_conv dropWhile_eq_Nil_conv)
next
  assume "\<forall>l \<in> set as. line_key l \<noteq> Some k" "line_key l = Some k"
  then have "takeWhile (\<lambda>l. line_key l \<noteq> Some k) (as @ l # bs) = as"
    "dropWhile (\<lambda>l. line_key l \<noteq> Some k) (as @ l # bs) = l # bs"
    by (simp_all add: takeWhile_append2 dropWhile_append2)
  then show "replace_key k new (as @ l # bs) = as @ new @ bs"
    by (simp add: replace_key_def)
qed

lemma db_file_Some: "db_inv filename fs \<Longrightarrow> fs_files fs filename = Some t \<Longrightarrow>
    ifstream fs filename = Some (unlines nl (db_lines fs filename))"
  using db_inv_file by (auto simp: ifstream_def db_inv_def)

lemma FindRecordUnsafe_absent:
  assumes "db_inv filename fs" "\<forall>l \<in> set (db_lines fs filename). line_key l \<noteq> Some k"
  shows "PlainTextDb_FindRecordUnsafe fs filename k = (None, no_positions)"
proof (cases "fs_files fs filename")
  case (Some t)
  have "find_scan k 0 (unlines nl (db_lines fs filename)) = None"
    by (rule find_scan_absent) (use assms db_lines_clean in blast)
  with db_file_Some [OF assms(1) Some] show ?thesis
    by (simp add: PlainTextDb_FindRecordUnsafe_def)
qed (simp add: PlainTextDb_FindRecordUnsafe_def ifstream_def)

lemma FindRecordUnsafe_present:
  assumes "db_inv filename fs" "db_lines fs filename = as @ l # bs"
    and "\<forall>l \<in> set as. line_key l \<noteq> Some k" "line_key l = Some k"
  shows "PlainTextDb_FindRecordUnsafe fs filename k
    = (Some (line_record k l),
       \<lparr>pos_begin = int (length (unlines nl as)), pos_end = int (length (unlines nl (as @ [l])))\<rparr>)"
proof -
  obtain t where t: "fs_files fs filename = Some t"
    using assms(2) by (cases "fs_files fs filename") (auto simp: db_lines_def)
  have c: "\<forall>l \<in> set (as @ l # bs). nl \<notin> set l"
    using db_lines_clean [of _ fs filename] assms(2) by metis
  have "find_scan k 0 (unlines nl (as @ l # bs))
    = Some (line_record k l, \<lparr>pos_begin = 0 + int (length (unlines nl as)),
         pos_end = 0 + int (length (unlines nl (as @ [l])))\<rparr>)"
    by (rule find_scan_present) (use assms(3,4) c in auto)
  with db_file_Some [OF assms(1) t] assms(2) show ?thesis
    by (simp add: PlainTextDb_FindRecordUnsafe_def)
qed

lemma FlushUnsafe_lines:
  assumes "db_inv filename fs"
    and "PlainTextDb_FlushUnsafe ord fs filename r
       (snd (PlainTextDb_FindRecordUnsafe fs filename k)) = (fs', True)"
  shows "fs_files fs' filename
      = Some (unlines nl (replace_key k (record_lines ord r) (db_lines fs filename)))
    \<and> fs_readable fs' = fs_readable fs"
proof (cases rule: lines_split [of "db_lines fs filename" k])
  case 1
  have "(case fs_files fs filename of None \<Rightarrow> [] | Some t \<Rightarrow> t) = unlines nl (db_lines fs filename)"
    using db_inv_file [OF assms(1)] by (auto simp: db_lines_def split: option.splits)
  with assms(2) 1 show ?thesis
    by (auto simp: FindRecordUnsafe_absent [OF assms(1) 1] PlainTextDb_FlushUnsafe_def no_positions_def
        replace_key_simps WriteContents_lines split: if_splits)
next
  case (2 as l bs)
  then obtain t where t: "fs_files fs filename = Some t"
    by (cases "fs_files fs filename") (auto simp: db_lines_def)
  have [simp]: "nat (1 + (int m + int n)) = Suc (m + n)" for m n by simp
  from assms(2) 2 show ?thesis
    using db_file_Some [OF assms(1) t]
    by (auto simp: FindRecordUnsafe_present [OF assms(1) 2] PlainTextDb_FlushUnsafe_def
        replace_key_simps WriteContents_lines Let_def split: if_splits)
qed

section \<open>The operations on the abstract database\<close>

lemma find_append:
  "List.find P (xs @ ys) = (case List.find P xs of None \<Rightarrow> List.find P ys | Some x \<Rightarrow> Some x)"
  by (induction xs) auto

lemma set_map_filter: "set (List.map_filter f xs) = {y. \<exists>x \<in> set xs. f x = Some y}"
  by (force simp: List.map_filter_def)

lemma map_filter_app:
  "List.map_filter f (xs @ ys) = List.map_filter f xs @ List.map_filter f ys"
  by (simp add: List.map_filter_def)

lemma map_filter_cons:
  "List.map_filter f (x # xs)
    = (case f x of None \<Rightarrow> List.map_filter f xs | Some y \<Rightarrow> y # List.map_filter f xs)"
  by (simp add: List.map_filter_def split: option.splits)

lemma find_char_key:
  "key_ok k \<Longrightarrow> find_char CHR ''='' (k @ CHR ''='' # s) = Some (length k)"
  by (simp add: key_ok_def find_char_append)

lemma record_lines_spec:
  assumes "rec_wf r" "hash_order ord" "key_ok (rec_key r)" "l \<in> set (record_lines ord r)"
  shows "nl \<notin> set l" "line_key l = Some (rec_key r)" "rec_lookup (line_record k l) = rec_lookup r"
proof -
  let ?w = "foldl pairs_joiner [] (ord (rec_map r))"
  have l: "l = rec_key r @ CHR ''='' # ?w" and ne: "rec_map r \<noteq> []"
    using assms(4) by (auto simp: record_lines_def split: if_splits)
  have "?w \<noteq> []"
  proof
    assume "?w = []"
    with ParseContents_written [OF assms(1,2) ne, of r] show False
      by (simp add: DbRecord_ParseContents_def)
  qed
  with l assms(3) show "line_key l = Some (rec_key r)"
    by (auto simp: line_key_def find_char_key key_ok_def)
  have "rec_lookup (line_record k l) = map_of (ord (rec_map r))"
    using l assms(3) ParseContents_written [OF assms(1,2) ne]
    by (simp add: line_record_def find_char_key)
  then show "rec_lookup (line_record k l) = rec_lookup r"
    using assms(1,2) by (simp add: hash_order_map_of rec_wf_def)
  have "nl \<notin> set (foldl pairs_joiner acc xs)"
    if "\<forall>(i, v) \<in> set xs. id_ok i \<and> values_ok v" "nl \<notin> set acc" for acc xs
    using that
    by (induction xs arbitrary: acc) (auto simp: pairs_joiner_def Let_def id_ok_def values_ok_def)
  moreover have "\<forall>(i, v) \<in> set (ord (rec_map r)). id_ok i \<and> values_ok v"
    using assms(1,2) by (auto simp: rec_wf_def hash_order_set)
  ultimately show "nl \<notin> set l"
    using l assms(3) by (auto simp: key_ok_def)
qed

lemma lines_view_absent:
  "\<forall>l \<in> set ls. line_key l \<noteq> Some k \<Longrightarrow> lines_view ls k = None"
  by (simp add: lines_view_def find_None_iff)

lemma lines_view_app:
  "lines_view (as @ bs) k = (case lines_view as k of None \<Rightarrow> lines_view bs k | Some m \<Rightarrow> Some m)"
  by (simp add: lines_view_def find_append split: option.splits)

lemma lines_view_cons:
  "lines_view (l # bs) k = (if line_key l = Some k then Some (rec_lookup (line_record k l)) else lines_view bs k)"
  by (simp add: lines_view_def)

lemma lines_view_record_lines:
  assumes "rec_wf r" "hash_order ord" "key_ok (rec_key r)"
  shows "lines_view (record_lines ord r) k
    = (if k = rec_key r \<and> rec_map r \<noteq> [] then Some (rec_lookup r) else None)"
proof (cases "rec_map r = []")
  case False
  then obtain l where l: "record_lines ord r = [l]" by (auto simp: record_lines_def)
  with record_lines_spec(2,3) [OF assms, of l] show ?thesis
    using False by (auto simp: lines_view_def)
qed (simp add: record_lines_def lines_view_def)

lemma replace_key_view:
  assumes "distinct (List.map_filter line_key ls)"
    and "rec_wf r" "hash_order ord" "key_ok (rec_key r)"
  shows "lines_view (replace_key (rec_key r) (record_lines ord r) ls)
      = put_view (rec_key r) (rec_lookup r) (lines_view ls)"
    and "distinct (List.map_filter line_key (replace_key (rec_key r) (record_lines ord r) ls))"
proof -
  let ?n = "record_lines ord r" and ?k = "rec_key r"
  note new = lines_view_record_lines [OF assms(2-4)]
  have put: "put_view ?k (rec_lookup r) v
      = v(?k := (if rec_map r = [] then None else Some (rec_lookup r)))" for v
    by (auto simp: put_view_def map_of_eq_empty_iff)
  have keys: "set (List.map_filter line_key ?n) \<subseteq> {?k} \<and> distinct (List.map_filter line_key ?n)"
    using record_lines_spec(2) [OF assms(2-4)]
    by (auto simp: record_lines_def List.map_filter_def)
  show "lines_view (replace_key ?k ?n ls) = put_view ?k (rec_lookup r) (lines_view ls)"
  proof (cases rule: lines_split [of ls ?k])
    case 1
    then show ?thesis
      by (auto simp: replace_key_simps fun_eq_iff lines_view_app new put
          lines_view_absent split: option.splits)
  next
    case (2 as l bs)
    have "\<forall>l \<in> set bs. line_key l \<noteq> Some ?k"
      using assms(1) 2 by (auto simp: map_filter_app map_filter_cons set_map_filter)
    with 2 show ?thesis
      by (auto simp: replace_key_simps fun_eq_iff lines_view_app lines_view_cons new put
          lines_view_absent split: option.splits)
  qed
  show "distinct (List.map_filter line_key (replace_key ?k ?n ls))"
  proof (cases rule: lines_split [of ls ?k])
    case 1
    with assms(1) keys show ?thesis
      by (auto simp: replace_key_simps map_filter_app set_map_filter)
  next
    case (2 as l bs)
    with assms(1) keys show ?thesis
      by (auto simp: replace_key_simps map_filter_app map_filter_cons set_map_filter)
  qed
qed

lemma replace_key_clean:
  assumes "\<forall>l \<in> set ls. nl \<notin> set l" "rec_wf r" "hash_order ord" "key_ok (rec_key r)"
  shows "\<forall>l \<in> set (replace_key k (record_lines ord r) ls). nl \<notin> set l"
  using assms(1) record_lines_spec(1) [OF assms(2-4)]
  by (auto simp: replace_key_def Let_def dest: set_takeWhileD set_dropWhileD in_set_dropD)

lemma FlushUnsafe_db_lines:
  assumes "db_inv filename fs" "rec_wf r" "hash_order ord" "key_ok (rec_key r)"
    and "PlainTextDb_FlushUnsafe ord fs filename r
       (snd (PlainTextDb_FindRecordUnsafe fs filename (rec_key r))) = (fs', True)"
  shows "db_lines fs' filename = replace_key (rec_key r) (record_lines ord r) (db_lines fs filename)"
proof -
  let ?ls = "replace_key (rec_key r) (record_lines ord r) (db_lines fs filename)"
  have "\<forall>l \<in> set (db_lines fs filename). nl \<notin> set l"
    using db_lines_clean by blast
  then have "getlines nl (unlines nl ?ls) = ?ls"
    by (intro getlines_unlines replace_key_clean [OF _ assms(2-4)])
  with FlushUnsafe_lines [OF assms(1,5)] show ?thesis
    by (simp only: db_lines_def option.case)
qed

lemma FlushUnsafe_view:
  assumes "db_inv filename fs" "rec_wf r" "hash_order ord" "key_ok (rec_key r)"
    and "PlainTextDb_FlushUnsafe ord fs filename r
       (snd (PlainTextDb_FindRecordUnsafe fs filename (rec_key r))) = (fs', True)"
  shows "db_inv filename fs'
    \<and> db_view filename fs' = put_view (rec_key r) (rec_lookup r) (db_view filename fs)"
proof -
  have "unlines nl ms = [] \<or> last (unlines nl ms) = nl" for ms
    by (induction ms) auto
  then show ?thesis
    using replace_key_view [OF _ assms(2-4), of "db_lines fs filename"] assms(1)
      FlushUnsafe_lines [OF assms(1,5)] FlushUnsafe_db_lines [OF assms]
    by (simp add: db_inv_def db_view_def)
qed

lemma FlushUnsafe_fail:
  "PlainTextDb_FlushUnsafe ord fs filename r pos = (fs', False) \<Longrightarrow> fs' = fs"
  by (auto simp: PlainTextDb_FlushUnsafe_def Let_def split: if_splits option.splits)

lemma FindRecordUnsafe_view:
  assumes "db_inv filename fs"
  shows "map_option rec_lookup (fst (PlainTextDb_FindRecordUnsafe fs filename k))
      = db_view filename fs k"
    and "fst (PlainTextDb_FindRecordUnsafe fs filename k) = Some r \<Longrightarrow> rec_key r = k \<and> rec_wf r"
proof -
  have "map_option rec_lookup (fst (PlainTextDb_FindRecordUnsafe fs filename k)) = db_view filename fs k
    \<and> (fst (PlainTextDb_FindRecordUnsafe fs filename k) = Some r \<longrightarrow> rec_key r = k \<and> rec_wf r)"
  proof (cases rule: lines_split [of "db_lines fs filename" k])
    case 1
    then show ?thesis
      by (simp add: FindRecordUnsafe_absent [OF assms 1] db_view_def lines_view_absent)
  next
    case (2 as l bs)
    then have "nl \<notin> set l"
      using db_lines_clean [of l fs filename] by simp
    with 2 show ?thesis
      using line_record_wf [of l k]
      by (auto simp: FindRecordUnsafe_present [OF assms 2] db_view_def lines_view_app
          lines_view_cons lines_view_absent)
  qed
  then show "map_option rec_lookup (fst (PlainTextDb_FindRecordUnsafe fs filename k))
      = db_view filename fs k"
    and "fst (PlainTextDb_FindRecordUnsafe fs filename k) = Some r \<Longrightarrow> rec_key r = k \<and> rec_wf r"
    by auto
qed

text \<open>The interpretation: under the invariant, the unsafe operations implement the abstract
  database, for every iteration order.\<close>

lemma StoreRecordUnsafe_ok:
  "db_inv filename fs \<Longrightarrow> rec_wf r \<Longrightarrow> hash_order ord \<Longrightarrow> key_ok (rec_key r) \<Longrightarrow>
   PlainTextDb_StoreRecordUnsafe ord fs filename r = (fs', True) \<Longrightarrow>
   db_inv filename fs'
     \<and> db_view filename fs' = put_view (rec_key r) (rec_lookup r) (db_view filename fs)"
  by (rule FlushUnsafe_view) (auto simp: PlainTextDb_StoreRecordUnsafe_def)

lemma RemoveRecordUnsafe_ok:
  assumes "db_inv filename fs" "hash_order ord" "key_ok k"
    and "PlainTextDb_RemoveRecordUnsafe ord fs filename k = (fs', True)"
  shows "db_inv filename fs' \<and> db_view filename fs' = (db_view filename fs)(k := None)"
  using FlushUnsafe_view [OF assms(1), of "DbRecord_of_key k" ord fs'] assms(2-4)
  by (simp add: PlainTextDb_RemoveRecordUnsafe_def) (simp add: DbRecord_of_key_def)

lemma UpdateRecordUnsafe_ok:
  assumes "db_inv filename fs" "rec_wf r" "hash_order ord" "key_ok (rec_key r)"
    and "PlainTextDb_UpdateRecordUnsafe ord fs filename r = ((fs', True), r')"
  shows "db_inv filename fs' \<and> rec_wf r' \<and> rec_key r' = rec_key r
    \<and> rec_lookup r' = (case db_view filename fs (rec_key r) of None \<Rightarrow> Map.empty | Some m \<Rightarrow> m)
        ++ rec_lookup r
    \<and> db_view filename fs' = put_view (rec_key r) (rec_lookup r') (db_view filename fs)"
proof -
  note fv = FindRecordUnsafe_view [OF assms(1), of "rec_key r"]
  let ?old = "fst (PlainTextDb_FindRecordUnsafe fs filename (rec_key r))"
  define n where "n = (case ?old of None \<Rightarrow> r | Some old \<Rightarrow> DbRecord_Merge ord r old)"
  have r': "r' = n" and fl: "PlainTextDb_FlushUnsafe ord fs filename n
      (snd (PlainTextDb_FindRecordUnsafe fs filename (rec_key r))) = (fs', True)"
    using assms(5) by (auto simp: PlainTextDb_UpdateRecordUnsafe_def n_def Let_def split: prod.splits)
  have n: "rec_wf n \<and> rec_key n = rec_key r \<and> rec_lookup n
      = (case db_view filename fs (rec_key r) of None \<Rightarrow> Map.empty | Some m \<Rightarrow> m) ++ rec_lookup r"
  proof (cases ?old)
    case (Some old)
    with fv(2) have old: "rec_key old = rec_key r" "rec_wf old" by auto
    moreover from Some fv(1) have "db_view filename fs (rec_key r) = Some (rec_lookup old)" by simp
    moreover have "distinct (map fst (rec_map old))" using old(2) by (simp add: rec_wf_def)
    ultimately show ?thesis
      using Some assms(2,3) by (simp add: n_def rec_wf_Merge rec_lookup_Merge)
  qed (use fv(1) assms(2) in \<open>simp add: n_def\<close>)
  then have "PlainTextDb_FlushUnsafe ord fs filename n
      (snd (PlainTextDb_FindRecordUnsafe fs filename (rec_key n))) = (fs', True)"
    using fl by simp
  from FlushUnsafe_view [OF assms(1) _ assms(3) _ this] n assms(4) show ?thesis
    by (simp add: r')
qed

definition find_unsafe :: "string \<Rightarrow> filesys \<Rightarrow> string \<Rightarrow> filesys \<times> db_record option" where
  "find_unsafe filename fs key = (fs, fst (PlainTextDb_FindRecordUnsafe fs filename key))"

text \<open>The iteration order is a parameter of the writing operations: the instance's invariant
  says that it permutes.\<close>

interpretation text_db: record_db "db_view filename" "\<lambda>fs. hash_order ord \<and> db_inv filename fs"
  "find_unsafe filename"
  "\<lambda>fs r. PlainTextDb_StoreRecordUnsafe ord fs filename r"
  "\<lambda>fs r. PlainTextDb_UpdateRecordUnsafe ord fs filename r"
  "\<lambda>fs k. PlainTextDb_RemoveRecordUnsafe ord fs filename k"
  for filename ord
proof (unfold_locales, goal_cases)
  case (3 s k)
  then show ?case using FindRecordUnsafe_view(1) by (simp add: find_unsafe_def)
next
  case (4 s k r)
  then show ?case by (auto simp: find_unsafe_def dest: FindRecordUnsafe_view(2))
next
  case (5 s r s')
  then show ?case using StoreRecordUnsafe_ok [of filename s r ord s'] by simp
next
  case (6 s r s' r')
  then show ?case using UpdateRecordUnsafe_ok [of filename s r ord s' r'] by simp
next
  case (7 s k s')
  then show ?case using RemoveRecordUnsafe_ok [of filename s ord k s'] by simp
qed (simp_all add: find_unsafe_def)

section \<open>Properties\<close>

definition can_write :: "filesys \<Rightarrow> string \<Rightarrow> bool" where
  "can_write fs filename \<longleftrightarrow> fs_writable fs filename \<and> fs_writable fs (filename @ ''.temp'')"

lemma FlushUnsafe_succeeds:
  assumes "db_inv filename fs" "can_write fs filename"
  shows "snd (PlainTextDb_FlushUnsafe ord fs filename r
      (snd (PlainTextDb_FindRecordUnsafe fs filename k)))"
proof (cases rule: lines_split [of "db_lines fs filename" k])
  case 1
  then show ?thesis
    using assms by (simp add: FindRecordUnsafe_absent [OF assms(1) 1] PlainTextDb_FlushUnsafe_def
        no_positions_def can_write_def)
next
  case (2 as l bs)
  then obtain t where t: "fs_files fs filename = Some t"
    by (cases "fs_files fs filename") (auto simp: db_lines_def)
  with assms(2) db_file_Some [OF assms(1) t] show ?thesis
    by (simp add: FindRecordUnsafe_present [OF assms(1) 2] PlainTextDb_FlushUnsafe_def
        can_write_def Let_def)
qed

lemma UpdateRecordUnsafe_succeeds:
  assumes "db_inv filename fs" "can_write fs filename"
  shows "snd (fst (PlainTextDb_UpdateRecordUnsafe ord fs filename r))"
  using FlushUnsafe_succeeds [OF assms, of ord _ "rec_key r"]
  by (auto simp: PlainTextDb_UpdateRecordUnsafe_def Let_def split: prod.splits)

lemma StoreRecord_view:
  assumes "db_inv filename fs" "can_write fs filename" "hash_order ord"
    and "rec_wf r" "key_ok (rec_key r)"
  shows "\<exists>fs'. PlainTextDb_StoreRecord False True ord fs filename r = Inr (fs', True)
    \<and> db_inv filename fs'
    \<and> (\<forall>k. \<exists>found before.
          PlainTextDb_FindRecord False True fs' filename k = Inr found
        \<and> PlainTextDb_FindRecord False True fs filename k = Inr before
        \<and> map_option rec_lookup found
            = put_view (rec_key r) (rec_lookup r) (\<lambda>_. map_option rec_lookup before) k)"
proof -
  have "snd (PlainTextDb_StoreRecordUnsafe ord fs filename r)"
    using FlushUnsafe_succeeds [OF assms(1,2)]
    by (simp add: PlainTextDb_StoreRecordUnsafe_def Let_def)
  then obtain fs' where fs': "PlainTextDb_StoreRecordUnsafe ord fs filename r = (fs', True)"
    by (metis prod.collapse)
  note ok = StoreRecordUnsafe_ok [OF assms(1,4,3,5) fs']
  show ?thesis
    by (rule exI [of _ fs'])
      (use ok fs' in \<open>simp add: PlainTextDb_StoreRecord_def PlainTextDb_FindRecord_def
         FindRecordUnsafe_view(1) assms(1) put_view_def\<close>)
qed

text \<open>C7: Storing a record under the lock in a writable database succeeds, keeps the file well
  formed, and afterwards \<open>FindRecord\<close> finds under its key exactly the stored mapping (nothing,
  when the record is empty) and under every other key exactly what it found before.\<close>

theorem PlainTextDb_store_find:
  assumes "db_inv filename fs" "can_write fs filename" "hash_order ord"
    and "rec_wf r" "key_ok (rec_key r)"
  shows "\<exists>fs'. PlainTextDb_StoreRecord False True ord fs filename r = Inr (fs', True)
    \<and> db_inv filename fs'
    \<and> (\<forall>k. \<exists>found before.
          PlainTextDb_FindRecord False True fs' filename k = Inr found
        \<and> PlainTextDb_FindRecord False True fs filename k = Inr before
        \<and> map_option rec_lookup found
            = put_view (rec_key r) (rec_lookup r) (\<lambda>_. map_option rec_lookup before) k)"
  by (rule StoreRecord_view [OF assms])

theorem PlainTextDb_store_find_witness:
  "let fs = \<lparr>fs_files = [''db'' \<mapsto> ''k=a:1;b:2'' @ endl @ ''m=a:3'' @ endl],
       fs_readable = (\<lambda>_. True), fs_writable = (\<lambda>_. True)\<rparr>;
     r = \<lparr>rec_key = ''k'', rec_map = [(''c'', ''4'')]\<rparr> in
   db_inv ''db'' fs \<and> (\<exists>fs'. PlainTextDb_StoreRecord False True rev fs ''db'' r = Inr (fs', True)
     \<and> db_inv ''db'' fs')"
proof -
  let ?fs = "\<lparr>fs_files = [''db'' \<mapsto> ''k=a:1;b:2'' @ endl @ ''m=a:3'' @ endl],
       fs_readable = (\<lambda>_. True), fs_writable = (\<lambda>_. True)\<rparr>"
  let ?r = "\<lparr>rec_key = ''k'', rec_map = [(''c'', ''4'')]\<rparr>"
  have inv: "db_inv ''db'' ?fs"
    by (simp add: db_inv_def db_lines_def getlines.simps line_key_def List.map_filter_def)
  have "can_write ?fs ''db''" "rec_wf ?r" "key_ok (rec_key ?r)"
    by (simp_all add: can_write_def rec_wf_def id_ok_def values_ok_def key_ok_def)
  with PlainTextDb_store_find [of "''db''" ?fs rev ?r] inv show ?thesis
    by (auto simp: Let_def)
qed

text \<open>C8: Updating merges: after a successful \<open>UpdateRecord\<close> the key holds the new record's
  values, and for IDs the new record does not have, the values it held before; the caller's
  record is replaced by the merged one, and the other keys keep their records.\<close>

theorem PlainTextDb_update_find:
  assumes "db_inv filename fs" "hash_order ord" "rec_wf r" "key_ok (rec_key r)"
    and "PlainTextDb_UpdateRecord False True ord fs filename r = Inr ((fs', True), r')"
  shows "db_inv filename fs' \<and> rec_wf r'
    \<and> rec_lookup r' = (case fst (PlainTextDb_FindRecordUnsafe fs filename (rec_key r)) of
          None \<Rightarrow> rec_lookup r | Some old \<Rightarrow> rec_lookup old ++ rec_lookup r)
    \<and> (\<forall>k. map_option rec_lookup (fst (PlainTextDb_FindRecordUnsafe fs' filename k))
        = (if k = rec_key r then (if rec_map r' = [] then None else Some (rec_lookup r'))
           else map_option rec_lookup (fst (PlainTextDb_FindRecordUnsafe fs filename k))))"
proof -
  have "PlainTextDb_UpdateRecordUnsafe ord fs filename r = ((fs', True), r')"
    using assms(5) by (simp add: PlainTextDb_UpdateRecord_def)
  note up = UpdateRecordUnsafe_ok [OF assms(1,3,2,4) this]
  then have "rec_lookup r' = (case fst (PlainTextDb_FindRecordUnsafe fs filename (rec_key r)) of
          None \<Rightarrow> rec_lookup r | Some old \<Rightarrow> rec_lookup old ++ rec_lookup r)"
    by (simp add: FindRecordUnsafe_view(1) [OF assms(1), symmetric] split: option.splits)
  moreover have "db_view filename fs' k = (if k = rec_key r
      then (if rec_map r' = [] then None else Some (rec_lookup r')) else db_view filename fs k)" for k
    using up map_of_eq_empty_iff [of "rec_map r'"] by (auto simp: put_view_def)
  ultimately show ?thesis
    using up by (simp add: FindRecordUnsafe_view(1) assms(1))
qed

theorem PlainTextDb_update_find_witness:
  "let fs = \<lparr>fs_files = [''db'' \<mapsto> ''k=a:1;b:2'' @ endl], fs_readable = (\<lambda>_. True),
       fs_writable = (\<lambda>_. True)\<rparr>;
     r = \<lparr>rec_key = ''k'', rec_map = [(''b'', ''4'')]\<rparr> in
   \<exists>fs' r'. PlainTextDb_UpdateRecord False True rev fs ''db'' r = Inr ((fs', True), r')
     \<and> rec_lookup r' = [''a'' \<mapsto> ''1'', ''b'' \<mapsto> ''4'']"
proof -
  let ?fs = "\<lparr>fs_files = [''db'' \<mapsto> ''k=a:1;b:2'' @ endl], fs_readable = (\<lambda>_. True),
       fs_writable = (\<lambda>_. True)\<rparr>"
  let ?r = "\<lparr>rec_key = ''k'', rec_map = [(''b'', ''4'')]\<rparr>"
  have inv: "db_inv ''db'' ?fs"
    by (simp add: db_inv_def db_lines_def getlines.simps line_key_def List.map_filter_def)
  have wf: "rec_wf ?r" "key_ok (rec_key ?r)" "can_write ?fs ''db''"
    by (simp_all add: rec_wf_def id_ok_def values_ok_def key_ok_def can_write_def)
  have old: "fst (PlainTextDb_FindRecordUnsafe ?fs ''db'' ''k'')
      = Some \<lparr>rec_key = ''k'', rec_map = [(''a'', ''1''), (''b'', ''2'')]\<rparr>"
    by (simp add: PlainTextDb_FindRecordUnsafe_def ifstream_def find_scan.simps
        DbRecord_ParseContents_def getlines.simps parse_step_def DbRecord_of_key_def)
  define q where "q = PlainTextDb_UpdateRecordUnsafe rev ?fs ''db'' ?r"
  have "q = ((fst (fst q), True), snd q)"
    using UpdateRecordUnsafe_succeeds [OF inv wf(3), of rev ?r] by (simp add: q_def prod_eq_iff)
  then obtain fs' r' where up: "PlainTextDb_UpdateRecord False True rev ?fs ''db'' ?r = Inr ((fs', True), r')"
    by (simp add: PlainTextDb_UpdateRecord_def q_def)
  from PlainTextDb_update_find [OF inv hash_order_rev wf(1,2) up] old
  have "rec_lookup r' = [''a'' \<mapsto> ''1'', ''b'' \<mapsto> ''4'']"
    by (auto simp: fun_eq_iff map_add_def)
  with up show ?thesis by (auto simp: Let_def)
qed

text \<open>\<open>Remove(key, id)\<close> removes exactly one ID: it reports success iff the key has the ID,
  and then the record keeps all its other IDs (the record itself goes with its last ID) and no
  other key changes; otherwise the file is left as it was.\<close>

theorem PlainTextDb_remove_id:
  assumes "db_inv filename fs" "can_write fs filename" "hash_order ord" "key_ok k"
  shows "\<exists>fs' ok. PlainTextDb_Remove False True ord fs filename k i = Inr (fs', ok)
    \<and> (ok \<longleftrightarrow> (\<exists>m v. db_view filename fs k = Some m \<and> m i = Some v))
    \<and> (\<not> ok \<longrightarrow> fs' = fs)
    \<and> (ok \<longrightarrow> db_inv filename fs'
        \<and> db_view filename fs' = put_view k ((the (db_view filename fs k))(i := None)) (db_view filename fs))"
proof (cases "fst (PlainTextDb_FindRecordUnsafe fs filename k)")
  case None
  with FindRecordUnsafe_view(1) [OF assms(1), of k] have "db_view filename fs k = None" by simp
  with None show ?thesis
    by (auto simp: PlainTextDb_Remove_def)
next
  case (Some r)
  note fv = FindRecordUnsafe_view [OF assms(1), of k]
  have r: "db_view filename fs k = Some (rec_lookup r)" "rec_key r = k" "rec_wf r"
    using Some fv by auto
  show ?thesis
  proof (cases "rec_lookup r i")
    case None
    with Some r show ?thesis
      by (auto simp: PlainTextDb_Remove_def DbRecord_EraseValues_def)
  next
    case (Some v)
    let ?r' = "fst (DbRecord_EraseValues r i)"
    have "snd (PlainTextDb_StoreRecordUnsafe ord fs filename ?r')"
      using FlushUnsafe_succeeds [OF assms(1,2)]
      by (simp add: PlainTextDb_StoreRecordUnsafe_def Let_def)
    then obtain fs' where fs': "PlainTextDb_StoreRecordUnsafe ord fs filename ?r' = (fs', True)"
      by (metis prod.collapse)
    have "PlainTextDb_Remove False True ord fs filename k i = Inr (fs', True)"
      using fs' Some \<open>fst (PlainTextDb_FindRecordUnsafe fs filename k) = Some r\<close>
      by (simp add: PlainTextDb_Remove_def DbRecord_EraseValues_def)
    moreover have "db_inv filename fs' \<and> db_view filename fs'
        = put_view k ((rec_lookup r)(i := None)) (db_view filename fs)"
      using StoreRecordUnsafe_ok [OF assms(1) _ assms(3) _ fs'] r assms(4)
      by (simp add: rec_wf_EraseValues)
    ultimately show ?thesis using r Some by auto
  qed
qed

theorem PlainTextDb_remove_id_witness:
  "let fs = \<lparr>fs_files = [''db'' \<mapsto> ''k=a:1;b:2'' @ endl], fs_readable = (\<lambda>_. True),
       fs_writable = (\<lambda>_. True)\<rparr> in
   \<exists>fs'. PlainTextDb_Remove False True rev fs ''db'' ''k'' ''b'' = Inr (fs', True)
     \<and> db_view ''db'' fs' ''k'' = Some [''a'' \<mapsto> ''1'']"
proof -
  let ?fs = "\<lparr>fs_files = [''db'' \<mapsto> ''k=a:1;b:2'' @ endl], fs_readable = (\<lambda>_. True),
       fs_writable = (\<lambda>_. True)\<rparr>"
  have inv: "db_inv ''db'' ?fs" "can_write ?fs ''db''" "key_ok ''k''"
    by (simp_all add: db_inv_def db_lines_def getlines.simps line_key_def List.map_filter_def
        can_write_def key_ok_def)
  have v: "db_view ''db'' ?fs ''k'' = Some [''a'' \<mapsto> ''1'', ''b'' \<mapsto> ''2'']"
    by (auto simp: db_view_def lines_view_def db_lines_def line_key_def line_record_def
        DbRecord_ParseContents_def getlines.simps parse_step_def fun_eq_iff)
  have "[''a'' \<mapsto> ''1'', ''b'' \<mapsto> ''2''](''b'' := None) = [''a'' \<mapsto> ''1'']"
    by (simp add: fun_upd_twist)
  with PlainTextDb_remove_id [OF inv(1,2) hash_order_rev inv(3), of "''b''"] v show ?thesis
    by (auto simp: Let_def put_view_def dest: fun_cong [where x = "''a''"])
qed

text \<open>A file whose last line is not ended.  The scan reports position -1 for a record on
  that line, so a store under its key appends instead of replacing: the new text is glued to
  the old line, and the old line's values are still what a lookup reads first.\<close>

theorem PlainTextDb_store_unterminated:
  assumes "fs_readable fs filename" "fs_writable fs filename"
    and "fs_files fs filename = Some (unlines nl ls @ l)"
    and "\<forall>l' \<in> set ls. nl \<notin> set l' \<and> line_key l' \<noteq> Some (rec_key r)"
    and "nl \<notin> set l" "line_key l = Some (rec_key r)"
  shows "PlainTextDb_StoreRecord False True ord fs filename r
    = Inr (fs\<lparr>fs_files := (fs_files fs)(filename \<mapsto>
        unlines nl ls @ l @ DbRecord_WriteContents ord r)\<rparr>, True)"
proof -
  have "find_scan k pos (unlines nl ls @ l) = Some (line_record k l,
      \<lparr>pos_begin = pos + int (length (unlines nl ls)), pos_end = -1\<rparr>)"
    if "\<forall>l' \<in> set ls. nl \<notin> set l' \<and> line_key l' \<noteq> Some k" "line_key l = Some k" for k pos
    using that
  proof (induction ls arbitrary: pos)
    case Nil
    have "takeWhile (\<lambda>c. c \<noteq> nl) l = l" "dropWhile (\<lambda>c. c \<noteq> nl) l = []"
      using assms(5) by (auto simp: takeWhile_eq_all_conv dropWhile_eq_Nil_conv)
    moreover have "l \<noteq> []" using Nil(2) by (auto simp: line_key_def)
    ultimately show ?case
      using Nil(2) by (subst find_scan.simps)
        (auto simp: Let_def line_key_def line_record_def split: option.splits if_splits
          simp del: takeWhile_eq_all_conv dropWhile_eq_Nil_conv)
  qed (auto simp: find_scan_line add.assoc)
  from this [OF assms(4,6), of 0] show ?thesis
    using assms(1-3)
    by (simp add: PlainTextDb_StoreRecord_def PlainTextDb_StoreRecordUnsafe_def
        PlainTextDb_FindRecordUnsafe_def ifstream_def PlainTextDb_FlushUnsafe_def)
qed

theorem PlainTextDb_store_unterminated_witness:
  "let fs = \<lparr>fs_files = [''db'' \<mapsto> ''k=a:1''], fs_readable = (\<lambda>_. True),
       fs_writable = (\<lambda>_. True)\<rparr>;
     r = \<lparr>rec_key = ''k'', rec_map = [(''a'', ''2'')]\<rparr> in
   \<exists>fs'. PlainTextDb_StoreRecord False True rev fs ''db'' r = Inr (fs', True)
     \<and> fs_files fs' ''db'' = Some (''k=a:1k=a:2'' @ endl)
     \<and> db_view ''db'' fs' ''k'' = Some [''a'' \<mapsto> ''1k=a:2'']"
proof -
  let ?fs = "\<lparr>fs_files = [''db'' \<mapsto> ''k=a:1''], fs_readable = (\<lambda>_. True),
       fs_writable = (\<lambda>_. True)\<rparr>"
  let ?r = "\<lparr>rec_key = ''k'', rec_map = [(''a'', ''2'')]\<rparr>"
  show ?thesis
    using PlainTextDb_store_unterminated [of ?fs "''db''" "[]" "''k=a:1''" ?r rev]
    by (simp add: line_key_def DbRecord_WriteContents_def DbRecord_WriteIdsAndValues_def
        pairs_joiner_def db_view_def db_lines_def getlines.simps lines_view_def line_record_def
        DbRecord_ParseContents_def parse_step_def)
qed

end
