(* ===== verification/Ram_Db.thy ===== *)
theory Ram_Db
  imports Plain_Text_Db
begin

text \<open>
  \<open>RamDb\<close> (\<open>src/include/miopen/ramdb.hpp\<close>, \<open>src/ramdb.cpp\<close>): a plain text database with a
  cache of its lines, shared by the processes of a machine.  A time file beside the database
  holds the time of its last modification; a cache is valid while it was read strictly later.

  The \<open>std::map\<close> of the cache is an association list (its order is not used).  The time
  files are a map from database paths to the number they hold (0 is what the code takes for a
  file it cannot read).  The steady clock is part of the world; reading it makes it advance by
  the parameter \<open>env_adv\<close>.  \<open>env_logging\<close> is \<open>IsLogging(LoggingLevel::Info)\<close>, \<open>env_no_io\<close> is
  \<open>DisableUserDbFileIO\<close>, \<open>env_locked\<close> tells whether the lock file was locked in time, and
  \<open>env_ord\<close> is the iteration order of a record's hash map.  \<open>MIOPEN_DB_CACHE_WRITE_THROUGH\<close>
  is 1, as the header defines it.
\<close>

record env =
  env_no_io :: bool
  env_locked :: bool
  env_logging :: bool
  env_ord :: order
  env_adv :: "int \<Rightarrow> int"

record world =
  w_fs :: filesys
  w_times :: "string \<rightharpoonup> int"
  w_time_writable :: "string \<Rightarrow> bool"
  w_clock :: int

record cache_item =
  item_line :: int
  item_content :: string

type_synonym cache = "(string \<times> cache_item) list"

record ram_db =
  ram_path :: string
  ram_read_time :: int
  ram_cache :: cache

section \<open>Operations\<close>

definition clock_now :: "env \<Rightarrow> world \<Rightarrow> int \<times> world" where
  "clock_now e w = (w_clock w, w\<lparr>w_clock := env_adv e (w_clock w)\<rparr>)"

definition GetDbModificationTime :: "world \<Rightarrow> string \<Rightarrow> int" where
  "GetDbModificationTime w path = (case w_times w path of None \<Rightarrow> 0 | Some t \<Rightarrow> t)"

definition UpdateDbModificationTime :: "env \<Rightarrow> world \<Rightarrow> string \<Rightarrow> world" where
  "UpdateDbModificationTime e w path =
     (case clock_now e w of (t, w1) \<Rightarrow>
        if \<not> w_time_writable w1 path then w1
        else w1\<lparr>w_times := (w_times w1)(path \<mapsto> t)\<rparr>)"

text \<open>One line of the loop that loads a database, with the line count and the cache so far;
  \<open>emplace\<close> keeps an element that is already there.\<close>

definition load_line :: "nat \<times> cache \<Rightarrow> string \<Rightarrow> nat \<times> cache" where
  "load_line st line =
     (case st of (n, c) \<Rightarrow>
       let n_line = n + 1 in
       if line = [] then (n_line, c)
       else (case find_char CHR ''='' line of
               None \<Rightarrow> (n_line, c)
             | Some key_size \<Rightarrow>
                 if key_size = 0 then (n_line, c)
                 else
                   let key = take key_size line; contents = drop (key_size + 1) line in
                   if map_of c key \<noteq> None then (n_line, c)
                   else (n_line, c @ [(key, \<lparr>item_line = int n_line, item_content = contents\<rparr>)])))"

definition prefetch_once :: "env \<Rightarrow> world \<Rightarrow> ram_db \<Rightarrow> world \<times> ram_db" where
  "prefetch_once e w db =
     (case ifstream (w_fs w) (ram_path db) of
        None \<Rightarrow> (w, db)
      | Some file \<Rightarrow>
          (let c = snd (foldl load_line (0, []) (getlines nl file)) in
           case clock_now e w of (t, w') \<Rightarrow> (w', db\<lparr>ram_cache := c, ram_read_time := t\<rparr>)))"

text \<open>\<open>Measure\<close> calls its argument, and when it does not log it calls it once more.\<close>

definition Measure :: "env \<Rightarrow> (world \<times> ram_db \<Rightarrow> world \<times> ram_db) \<Rightarrow> world \<times> ram_db \<Rightarrow> world \<times> ram_db" where
  "Measure e func s = (let s1 = (if \<not> env_logging e then func s else s) in func s1)"

definition RamDb_Prefetch :: "env \<Rightarrow> world \<times> ram_db \<Rightarrow> (world \<times> ram_db) result" where
  "RamDb_Prefetch e s =
     (if env_no_io e then throw ''Prefetch should never happen with disabled File IO''
      else Inr (Measure e (\<lambda>(w, db). prefetch_once e w db) s))"

definition RamDb_ValidateUnsafe :: "env \<Rightarrow> world \<Rightarrow> ram_db \<Rightarrow> bool" where
  "RamDb_ValidateUnsafe e w db =
     (if env_no_io e then True
      else if fs_files (w_fs w) (ram_path db) = None then ram_cache db = []
      else GetDbModificationTime w (ram_path db) < ram_read_time db)"

definition RamDb_FindRecordUnsafe :: "ram_db \<Rightarrow> string \<Rightarrow> db_record option" where
  "RamDb_FindRecordUnsafe db problem =
     (case map_of (ram_cache db) problem of
        None \<Rightarrow> None
      | Some item \<Rightarrow>
          (case DbRecord_ParseContents (DbRecord_of_key problem) (item_content item) of
             (r, ok) \<Rightarrow> if \<not> ok then None else Some r))"

definition RamDb_FindRecord ::
  "env \<Rightarrow> world \<times> ram_db \<Rightarrow> string \<Rightarrow> ((world \<times> ram_db) \<times> db_record option) result" where
  "RamDb_FindRecord e s problem =
     (if \<not> env_locked e then lock_failed
      else
        (case (if \<not> RamDb_ValidateUnsafe e (fst s) (snd s) then RamDb_Prefetch e s else Inr s) of
           Inl ex \<Rightarrow> Inl ex
         | Inr s' \<Rightarrow> Inr (s', RamDb_FindRecordUnsafe (snd s') problem)))"

definition RamDb_UpdateCacheEntryUnsafe ::
  "env \<Rightarrow> world \<times> ram_db \<Rightarrow> db_record \<Rightarrow> world \<times> ram_db" where
  "RamDb_UpdateCacheEntryUnsafe e s r =
     (case s of (w, db) \<Rightarrow>
       let is_valid = RamDb_ValidateUnsafe e w db;
           w1 = (if \<not> env_no_io e then UpdateDbModificationTime e w (ram_path db) else w)
       in if is_valid then
            let ss = DbRecord_WriteIdsAndValues (env_ord e) r;
                c = (case map_of (ram_cache db) (rec_key r) of
                       Some item \<Rightarrow> AList.update (rec_key r) (item\<lparr>item_content := ss\<rparr>) (ram_cache db)
                     | None \<Rightarrow> ram_cache db @ [(rec_key r, \<lparr>item_line = -1, item_content = ss\<rparr>)])
            in (case clock_now e w1 of (t, w2) \<Rightarrow> (w2, db\<lparr>ram_cache := c, ram_read_time := t\<rparr>))
          else (w1, db))"

text \<open>The file part of the writing operations: the unsafe operation of the base class on the
  file system, then the time file.\<close>

definition write_file :: "env \<Rightarrow> world \<Rightarrow> string \<Rightarrow> filesys \<times> bool \<Rightarrow> world \<times> bool" where
  "write_file e w path res =
     (case res of (fs', ok) \<Rightarrow>
       let w1 = w\<lparr>w_fs := fs'\<rparr> in
       if \<not> ok then (w1, False) else (UpdateDbModificationTime e w1 path, True))"

definition RamDb_StoreRecord ::
  "env \<Rightarrow> world \<times> ram_db \<Rightarrow> db_record \<Rightarrow> ((world \<times> ram_db) \<times> bool) result" where
  "RamDb_StoreRecord e s r =
     (if \<not> env_locked e then lock_failed
      else
        (case s of (w, db) \<Rightarrow>
          let (w1, ok) =
            (if \<not> env_no_io e
             then write_file e w (ram_path db)
                    (PlainTextDb_StoreRecordUnsafe (env_ord e) (w_fs w) (ram_path db) r)
             else (w, True))
          in if \<not> ok then Inr ((w1, db), False)
             else Inr (RamDb_UpdateCacheEntryUnsafe e (w1, db) r, True)))"

text \<open>\<open>UpdateRecord\<close> also returns its argument, which the base class may have replaced.\<close>

definition RamDb_UpdateRecord ::
  "env \<Rightarrow> world \<times> ram_db \<Rightarrow> db_record \<Rightarrow> (((world \<times> ram_db) \<times> bool) \<times> db_record) result" where
  "RamDb_UpdateRecord e s r =
     (if \<not> env_locked e then lock_failed
      else
        (case s of (w, db) \<Rightarrow>
          let ((w1, ok), r1) =
            (if \<not> env_no_io e
             then (case PlainTextDb_UpdateRecordUnsafe (env_ord e) (w_fs w) (ram_path db) r of
                     (res, r') \<Rightarrow> (write_file e w (ram_path db) res, r'))
             else ((w, True), r))
          in if \<not> ok then Inr (((w1, db), False), r1)
             else Inr ((RamDb_UpdateCacheEntryUnsafe e (w1, db) r1, True), r1)))"

definition RamDb_RemoveRecord ::
  "env \<Rightarrow> world \<times> ram_db \<Rightarrow> string \<Rightarrow> ((world \<times> ram_db) \<times> bool) result" where
  "RamDb_RemoveRecord e s key =
     (if \<not> env_locked e then lock_failed
      else
        (case s of (w, db) \<Rightarrow>
          let is_valid = RamDb_ValidateUnsafe e w db;
              (w1, ok) =
                (if \<not> env_no_io e
                 then write_file e w (ram_path db)
                        (PlainTextDb_RemoveRecordUnsafe (env_ord e) (w_fs w) (ram_path db) key)
                 else (w, True))
          in if \<not> ok then Inr ((w1, db), False)
             else if is_valid then
               (case clock_now e w1 of (t, w2) \<Rightarrow>
                  Inr ((w2, db\<lparr>ram_cache := AList.delete key (ram_cache db), ram_read_time := t\<rparr>), True))
             else Inr ((w1, db), True)))"

definition RamDb_Remove ::
  "env \<Rightarrow> world \<times> ram_db \<Rightarrow> string \<Rightarrow> string \<Rightarrow> ((world \<times> ram_db) \<times> bool) result" where
  "RamDb_Remove e s key i =
     (if \<not> env_locked e then lock_failed
      else
        (case s of (w, db) \<Rightarrow>
          let is_valid = RamDb_ValidateUnsafe e w db in
          (case RamDb_FindRecordUnsafe db key of
             None \<Rightarrow> Inr ((w, db), False)
           | Some r0 \<Rightarrow>
               let (r, erased) = DbRecord_EraseValues r0 i in
               if \<not> erased then Inr ((w, db), False)
               else
                 let (w1, ok) =
                   (if \<not> env_no_io e
                    then write_file e w (ram_path db)
                           (PlainTextDb_StoreRecordUnsafe (env_ord e) (w_fs w) (ram_path db) r)
                    else (w, True))
                 in if \<not> ok then Inr ((w1, db), False)
                    else if is_valid then
                      let c = (if rec_map r = [] then AList.delete key (ram_cache db)
                               else AList.update key
                                 ((the (map_of (ram_cache db) key))
                                    \<lparr>item_content := DbRecord_WriteIdsAndValues (env_ord e) r\<rparr>)
                                 (ram_cache db))
                      in (case clock_now e w1 of (t, w2) \<Rightarrow>
                            Inr ((w2, db\<lparr>ram_cache := c, ram_read_time := t\<rparr>), True))
                    else Inr ((w1, db), True))))"

text \<open>\<open>GetCached\<close>: the instances by path; a new instance is in the map before it is loaded.
  A \<open>RamDb\<close> cannot be a system database (the constructor of \<open>PlainTextDb\<close> throws).\<close>

definition RamDb_new :: "string \<Rightarrow> bool \<Rightarrow> ram_db result" where
  "RamDb_new path is_system =
     (if is_system
      then throw ''PlainTextDb class is not supported as system database. Use the ReadOnlyRamDb class instead.''
      else Inr \<lparr>ram_path = path, ram_read_time = 0, ram_cache = []\<rparr>)"

definition RamDb_GetCached ::
  "env \<Rightarrow> world \<times> (string \<times> ram_db) list \<Rightarrow> string \<Rightarrow> bool
     \<Rightarrow> (world \<times> (string \<times> ram_db) list) \<times> ram_db result" where
  "RamDb_GetCached e s path is_system =
     (case s of (w, instances) \<Rightarrow>
       (case map_of instances path of
          Some db \<Rightarrow> (s, Inr db)
        | None \<Rightarrow>
            (case RamDb_new path is_system of
               Inl ex \<Rightarrow> (s, Inl ex)
             | Inr db \<Rightarrow>
                 let instances' = instances @ [(path, db)] in
                 if env_no_io e then ((w, instances'), Inr db)
                 else if \<not> env_locked e then ((w, instances'), lock_failed)
                 else
                   (case RamDb_Prefetch e (w, db) of
                      Inl ex \<Rightarrow> ((w, instances'), Inl ex)
                    | Inr (w', db') \<Rightarrow> ((w', instances @ [(path, db')]), Inr db')))))"

definition RamDb_Update ::
  "env \<Rightarrow> world \<times> ram_db \<Rightarrow> string \<Rightarrow> string \<Rightarrow> ('v \<Rightarrow> string) \<Rightarrow> 'v
     \<Rightarrow> ((world \<times> ram_db) \<times> db_record option) result" where
  "RamDb_Update e s key i ser v =
     (let r = fst (DbRecord_SetValuesT ser (DbRecord_of_key key) i v) in
      (case RamDb_UpdateRecord e s r of
         Inl ex \<Rightarrow> Inl ex
       | Inr ((s', ok), r') \<Rightarrow> Inr (s', if ok then Some r' else None)))"

definition RamDb_Load ::
  "env \<Rightarrow> world \<times> ram_db \<Rightarrow> string \<Rightarrow> string \<Rightarrow> (string \<Rightarrow> 'v option)
     \<Rightarrow> ((world \<times> ram_db) \<times> 'v option) result" where
  "RamDb_Load e s key i deser =
     (case RamDb_FindRecord e s key of
        Inl ex \<Rightarrow> Inl ex
      | Inr (s', None) \<Rightarrow> Inr (s', None)
      | Inr (s', Some r) \<Rightarrow> Inr (s', DbRecord_GetValuesT deser r i))"

section \<open>Loading a file\<close>

text \<open>A line of a well-formed database: no record at all, or one that parses.\<close>

definition parse_ok :: "string \<Rightarrow> bool" where
  "parse_ok s = (snd (foldl parse_step ([], 0) (getlines CHR '';'' s)) > 0)"

lemma snd_ParseContents [simp]: "snd (DbRecord_ParseContents r s) = parse_ok s"
  by (simp add: DbRecord_ParseContents_def parse_ok_def split: prod.splits)

lemma not_parse_ok_Nil [simp]: "\<not> parse_ok []"
  by (simp add: parse_ok_def)

definition proper_line :: "string \<Rightarrow> bool" where
  "proper_line l = (case find_char CHR ''='' l of
      None \<Rightarrow> True
    | Some n \<Rightarrow> n = 0 \<or> parse_ok (drop (n + 1) l))"

definition line_contents :: "string \<Rightarrow> string" where
  "line_contents l = (case find_char CHR ''='' l of None \<Rightarrow> [] | Some n \<Rightarrow> drop (n + 1) l)"

definition cached_key :: "string \<Rightarrow> string option" where
  "cached_key l = (case find_char CHR ''='' l of
      None \<Rightarrow> None | Some n \<Rightarrow> if n = 0 then None else Some (take n l))"

lemma proper_key: "proper_line l \<Longrightarrow> cached_key l = line_key l"
  by (auto simp: proper_line_def cached_key_def line_key_def split: option.splits)

lemma load_line_lookup:
  "map_option item_content (map_of (snd (load_line (n, c) l)) k)
    = (case map_option item_content (map_of c k) of
         Some x \<Rightarrow> Some x
       | None \<Rightarrow> if cached_key l = Some k then Some (line_contents l) else None)"
  by (auto simp: load_line_def Let_def cached_key_def line_contents_def map_add_def
      split: option.splits)

lemma load_lines_lookup:
  "map_option item_content (map_of (snd (foldl load_line (n, c) ls)) k)
    = (case map_option item_content (map_of c k) of
         Some x \<Rightarrow> Some x
       | None \<Rightarrow> map_option line_contents (List.find (\<lambda>l. cached_key l = Some k) ls))"
proof (induction ls arbitrary: n c)
  case (Cons l ls)
  obtain n' c' where st: "load_line (n, c) l = (n', c')" by fastforce
  then show ?case
    using load_line_lookup [of n c l k] Cons.IH [of n' c']
    by (auto split: option.splits if_splits)
qed (simp split: option.splits)

definition ram_view :: "ram_db \<Rightarrow> string \<rightharpoonup> (string \<rightharpoonup> string)" where
  "ram_view db k = map_option rec_lookup (RamDb_FindRecordUnsafe db k)"

lemma find_key_cong:
  "\<forall>l \<in> set ls. proper_line l \<Longrightarrow>
   List.find (\<lambda>l. cached_key l = Some k) ls = List.find (\<lambda>l. line_key l = Some k) ls"
  by (induction ls) (auto simp: proper_key)

lemma loaded_view:
  assumes "\<forall>l \<in> set ls. proper_line l"
  shows "ram_view (db\<lparr>ram_cache := snd (foldl load_line (0, []) ls), ram_read_time := t\<rparr>) k
    = lines_view ls k"
proof -
  let ?c = "snd (foldl load_line (0, []) ls)"
  have c: "map_option item_content (map_of ?c k)
      = map_option line_contents (List.find (\<lambda>l. line_key l = Some k) ls)"
    using load_lines_lookup [of 0 "[]" ls k] find_key_cong [OF assms] by simp
  show ?thesis
  proof (cases "List.find (\<lambda>l. line_key l = Some k) ls")
    case None
    with c show ?thesis
      by (auto simp: ram_view_def RamDb_FindRecordUnsafe_def lines_view_def)
  next
    case (Some l)
    then have l: "line_key l = Some k" "proper_line l"
      using assms by (auto simp: find_Some_iff)
    with Some c obtain item where "map_of ?c k = Some item" "item_content item = line_contents l"
      by auto
    moreover have "parse_ok (line_contents l)"
      using l by (auto simp: line_contents_def proper_line_def line_key_def split: option.splits if_splits)
    moreover have "line_record k l = fst (DbRecord_ParseContents (DbRecord_of_key k) (line_contents l))"
      using l by (auto simp: line_contents_def line_record_def line_key_def split: option.splits)
    ultimately show ?thesis
      using Some by (simp add: ram_view_def RamDb_FindRecordUnsafe_def lines_view_def case_prod_unfold)
  qed
qed

section \<open>Coherence of a cache\<close>

definition env_ok :: "env \<Rightarrow> bool" where
  "env_ok e \<longleftrightarrow> \<not> env_no_io e \<and> env_locked e \<and> hash_order (env_ord e) \<and> (\<forall>t. t \<le> env_adv e t)"

definition world_ok :: "string \<Rightarrow> world \<Rightarrow> bool" where
  "world_ok path w \<longleftrightarrow> db_inv path (w_fs w) \<and> w_time_writable w path
     \<and> (\<forall>l \<in> set (db_lines (w_fs w) path). proper_line l)"

definition cache_valid :: "world \<Rightarrow> ram_db \<Rightarrow> bool" where
  "cache_valid w db \<longleftrightarrow>
     (if fs_files (w_fs w) (ram_path db) = None then ram_cache db = []
      else GetDbModificationTime w (ram_path db) < ram_read_time db)"

lemma ValidateUnsafe_eq: "\<not> env_no_io e \<Longrightarrow> RamDb_ValidateUnsafe e w db = cache_valid w db"
  by (simp add: RamDb_ValidateUnsafe_def cache_valid_def)

text \<open>What holds of every process: a cache that would be taken for valid holds what the file
  holds.\<close>

definition proc_ok :: "string \<Rightarrow> world \<Rightarrow> ram_db \<Rightarrow> bool" where
  "proc_ok path w db \<longleftrightarrow> ram_path db = path \<and> ram_read_time db \<le> w_clock w
     \<and> (\<forall>(k, item) \<in> set (ram_cache db). nl \<notin> set (item_content item))
     \<and> (cache_valid w db \<longrightarrow> ram_view db = db_view path (w_fs w))"

lemma proc_ok_idle:
  assumes "proc_ok path w db" "w_fs w' = w_fs w" "w_times w' = w_times w" "w_clock w \<le> w_clock w'"
  shows "proc_ok path w' db"
  using assms by (auto simp: proc_ok_def cache_valid_def GetDbModificationTime_def)

lemma find_cached_record:
  "proc_ok path w db \<Longrightarrow> RamDb_FindRecordUnsafe db k = Some r \<Longrightarrow> rec_key r = k \<and> rec_wf r"
  by (auto simp: RamDb_FindRecordUnsafe_def proc_ok_def split: option.splits prod.splits if_splits
      dest!: map_of_SomeD)
    (metis (no_types, lifting) rec_key_ops(3,5) rec_wf_ParseContents fst_conv case_prodD)+

lemma load_lines_clean:
  "\<forall>l \<in> set ls. nl \<notin> set l \<Longrightarrow> \<forall>(k, item) \<in> set c. nl \<notin> set (item_content item) \<Longrightarrow>
   \<forall>(k, item) \<in> set (snd (foldl load_line (n, c) ls)). nl \<notin> set (item_content item)"
proof (induction ls arbitrary: n c)
  case (Cons l ls)
  obtain n' c' where st: "load_line (n, c) l = (n', c')" by fastforce
  then have "c' = c \<or> (\<exists>k i m. c' = c @ [(k, \<lparr>item_line = i, item_content = drop m l\<rparr>)])"
    by (auto simp: load_line_def Let_def split: option.splits if_splits)
  moreover have "nl \<notin> set (drop m l)" for m
    using Cons.prems(1) by (meson in_set_dropD list.set_intros(1))
  ultimately have "\<forall>(k, item) \<in> set c'. nl \<notin> set (item_content item)"
    using Cons.prems(2) by auto
  with Cons st show ?case by simp
qed simp

text \<open>A prefetch, run once or twice, makes the cache coherent.\<close>

lemma prefetch_once_spec:
  assumes "env_ok e" "world_ok path w" "ram_path db = path" "fs_files (w_fs w) path \<noteq> None"
    and "prefetch_once e w db = (w', db')"
  shows "w_fs w' = w_fs w \<and> w_times w' = w_times w \<and> w_time_writable w' = w_time_writable w
    \<and> w_clock w \<le> w_clock w' \<and> ram_path db' = path \<and> ram_read_time db' = w_clock w
    \<and> ram_view db' = db_view path (w_fs w)
    \<and> (\<forall>(k, item) \<in> set (ram_cache db'). nl \<notin> set (item_content item))"
proof -
  obtain t where t: "fs_files (w_fs w) path = Some t" using assms(4) by blast
  then have f: "ifstream (w_fs w) path = Some t" and ls: "getlines nl t = db_lines (w_fs w) path"
    using assms(2) by (simp_all add: world_ok_def db_inv_def ifstream_def db_lines_def)
  have "\<forall>l \<in> set (db_lines (w_fs w) path). proper_line l \<and> nl \<notin> set l"
    using assms(2) db_lines_clean by (auto simp: world_ok_def)
  then have "ram_view db' = db_view path (w_fs w)"
    and "\<forall>(k, item) \<in> set (ram_cache db'). nl \<notin> set (item_content item)"
    using assms(3,5) f ls load_lines_clean [of "db_lines (w_fs w) path" "[]" 0]
      loaded_view [of "db_lines (w_fs w) path", where db = db]
    by (auto simp: prefetch_once_def clock_now_def db_view_def fun_eq_iff Let_def)
  with assms f show ?thesis
    by (auto simp: prefetch_once_def clock_now_def env_ok_def Let_def)
qed

lemma Prefetch_spec:
  assumes "env_ok e" "world_ok path w" "ram_path db = path" "fs_files (w_fs w) path \<noteq> None"
  shows "\<exists>w' db'. RamDb_Prefetch e (w, db) = Inr (w', db')
    \<and> w_fs w' = w_fs w \<and> w_times w' = w_times w \<and> w_time_writable w' = w_time_writable w
    \<and> w_clock w \<le> w_clock w' \<and> world_ok path w' \<and> proc_ok path w' db'
    \<and> ram_view db' = db_view path (w_fs w)"
proof -
  obtain w1 db1 where 1: "prefetch_once e w db = (w1, db1)" by fastforce
  obtain w2 db2 where 2: "prefetch_once e w1 db1 = (w2, db2)" by fastforce
  note s1 = prefetch_once_spec [OF assms 1]
  have ok1: "world_ok path w1" "fs_files (w_fs w1) path \<noteq> None"
    using s1 assms(2,4) by (simp_all add: world_ok_def)
  have "ram_path db1 = path" using s1 by simp
  note s2 = prefetch_once_spec [OF assms(1) ok1(1) this ok1(2) 2]
  have "proc_ok path w1 db1" "proc_ok path w2 db2" "world_ok path w2"
    using s1 s2 ok1(1) assms(1) 1 2 by (auto simp: proc_ok_def world_ok_def)
  then show ?thesis
    using s1 s2 ok1 assms(1) 1 2
    by (cases "env_logging e") (auto simp: RamDb_Prefetch_def Measure_def env_ok_def)
qed

lemma Prefetch_no_file:
  assumes "env_ok e" "fs_files (w_fs w) (ram_path db) = None"
  shows "RamDb_Prefetch e (w, db) = Inr (w, db)"
  using assms by (auto simp: RamDb_Prefetch_def Measure_def prefetch_once_def ifstream_def env_ok_def)

text \<open>\<open>FindRecord\<close> returns what the file holds, from the cache if it is valid.  (A process that
  cached records of a file that no longer exists is excluded by the invariant.)\<close>

definition no_ghost :: "string \<Rightarrow> world \<Rightarrow> ram_db \<Rightarrow> bool" where
  "no_ghost path w db \<longleftrightarrow> (fs_files (w_fs w) path = None \<longrightarrow> ram_cache db = [])"

lemma FindRecord_spec:
  assumes "env_ok e" "world_ok path w" "proc_ok path w db" "no_ghost path w db"
  shows "\<exists>w' db' found. RamDb_FindRecord e (w, db) k = Inr ((w', db'), found)
    \<and> w_fs w' = w_fs w \<and> w_times w' = w_times w \<and> w_time_writable w' = w_time_writable w
    \<and> w_clock w \<le> w_clock w' \<and> world_ok path w' \<and> proc_ok path w' db' \<and> no_ghost path w' db'
    \<and> map_option rec_lookup found = db_view path (w_fs w) k
    \<and> (\<forall>r. found = Some r \<longrightarrow> rec_key r = k \<and> rec_wf r)"
proof (cases "cache_valid w db")
  case True
  then have "ram_view db = db_view path (w_fs w)" using assms(3) by (simp add: proc_ok_def)
  then have "map_option rec_lookup (RamDb_FindRecordUnsafe db k) = db_view path (w_fs w) k"
    by (simp add: ram_view_def fun_eq_iff)
  with True assms show ?thesis
    using find_cached_record [OF assms(3)]
    by (auto simp: RamDb_FindRecord_def env_ok_def ValidateUnsafe_eq)
next
  case False
  have path: "ram_path db = path" using assms(3) by (simp add: proc_ok_def)
  with False assms(4) have f: "fs_files (w_fs w) path \<noteq> None"
    by (auto simp: cache_valid_def no_ghost_def split: if_splits)
  from Prefetch_spec [OF assms(1,2) path f] obtain w' db' where
    p: "RamDb_Prefetch e (w, db) = Inr (w', db')" "w_fs w' = w_fs w" "w_times w' = w_times w"
      "w_time_writable w' = w_time_writable w" "w_clock w \<le> w_clock w'" "world_ok path w'"
      "proc_ok path w' db'" and v: "ram_view db' = db_view path (w_fs w)"
    by blast
  have "no_ghost path w' db'" using f p(2) by (auto simp: no_ghost_def)
  moreover have "map_option rec_lookup (RamDb_FindRecordUnsafe db' k) = db_view path (w_fs w) k"
    using v by (simp add: ram_view_def fun_eq_iff)
  ultimately show ?thesis
    using False assms(1) p find_cached_record [OF p(7)]
    by (auto simp: RamDb_FindRecord_def env_ok_def ValidateUnsafe_eq)
qed

section \<open>Writing invalidates every cache\<close>

definition written :: "string \<Rightarrow> world \<Rightarrow> world \<Rightarrow> bool" where
  "written path w w' \<longleftrightarrow> fs_files (w_fs w') path \<noteq> None
     \<and> (\<exists>t. w_times w' path = Some t \<and> w_clock w \<le> t \<and> t \<le> w_clock w')"

lemma written_stale:
  assumes "proc_ok path w db" "written path w w'"
  shows "proc_ok path w' db" "\<not> cache_valid w' db" "no_ghost path w' db"
  using assms by (auto simp: proc_ok_def written_def cache_valid_def no_ghost_def
      GetDbModificationTime_def)

lemma UpdateDbModificationTime_spec:
  assumes "env_ok e" "w_time_writable w path"
  shows "w_fs (UpdateDbModificationTime e w path) = w_fs w"
    and "w_times (UpdateDbModificationTime e w path) = (w_times w)(path \<mapsto> w_clock w)"
    and "w_clock w \<le> w_clock (UpdateDbModificationTime e w path)"
    and "w_time_writable (UpdateDbModificationTime e w path) = w_time_writable w"
  using assms by (simp_all add: UpdateDbModificationTime_def clock_now_def env_ok_def)

lemma record_line_proper:
  assumes "rec_wf r" "hash_order ord" "key_ok (rec_key r)" "l \<in> set (record_lines ord r)"
  shows "proper_line l"
proof -
  have ne: "rec_map r \<noteq> []" and l: "l = rec_key r @ CHR ''='' # foldl pairs_joiner [] (ord (rec_map r))"
    using assms(4) by (auto simp: record_lines_def split: if_splits)
  have "parse_ok (foldl pairs_joiner [] (ord (rec_map r)))"
    using ParseContents_written [OF assms(1,2) ne, of r] by (metis snd_ParseContents snd_conv)
  with l assms(3) show ?thesis by (simp add: proper_line_def find_char_key)
qed

lemma flush_world:
  assumes "env_ok e" "world_ok path w" "rec_wf r" "hash_order ord" "key_ok (rec_key r)"
    and "PlainTextDb_FlushUnsafe ord (w_fs w) path r
       (snd (PlainTextDb_FindRecordUnsafe (w_fs w) path (rec_key r))) = res"
    and "write_file e w path res = (w1, True)"
  shows "world_ok path w1 \<and> written path w w1
    \<and> db_view path (w_fs w1) = put_view (rec_key r) (rec_lookup r) (db_view path (w_fs w))"
proof -
  obtain fs' where res: "res = (fs', True)" and w1: "w1 = UpdateDbModificationTime e (w\<lparr>w_fs := fs'\<rparr>) path"
    using assms(7) by (cases res) (auto simp: write_file_def Let_def split: if_splits)
  have inv: "db_inv path (w_fs w)" and tw: "w_time_writable w path"
    using assms(2) by (simp_all add: world_ok_def)
  note fl = assms(6) [unfolded res]
  note ls = FlushUnsafe_db_lines [OF inv assms(3-5) fl]
  have "\<forall>l \<in> set (db_lines fs' path). proper_line l"
    unfolding ls using assms(2) record_line_proper [OF assms(3-5)]
    by (auto simp: replace_key_def Let_def world_ok_def
        dest: set_takeWhileD set_dropWhileD in_set_dropD)
  moreover have "fs_files fs' path \<noteq> None"
    using FlushUnsafe_lines [OF inv fl] by simp
  ultimately show ?thesis
    using FlushUnsafe_view [OF inv assms(3-5) fl] tw assms(1)
      UpdateDbModificationTime_spec [of e "w\<lparr>w_fs := fs'\<rparr>" path]
    by (simp add: w1 world_ok_def written_def)
qed

lemma flush_failed:
  assumes "PlainTextDb_FlushUnsafe ord (w_fs w) path r pos = res"
    and "write_file e w path res = (w1, False)"
  shows "w1 = w"
  using assms FlushUnsafe_fail [of ord "w_fs w" path r pos]
  by (cases res) (auto simp: write_file_def Let_def split: if_splits)

lemma UpdateCacheEntry_stale:
  assumes "env_ok e" "world_ok path w1" "written path w w1" "proc_ok path w db"
  shows "\<exists>w2. RamDb_UpdateCacheEntryUnsafe e (w1, db) r = (w2, db) \<and> world_ok path w2
    \<and> written path w w2 \<and> w_fs w2 = w_fs w1"
proof -
  let ?w2 = "UpdateDbModificationTime e w1 path"
  have tw: "w_time_writable w1 path" using assms(2) by (simp add: world_ok_def)
  note sp = UpdateDbModificationTime_spec [OF assms(1) tw]
  have "\<not> RamDb_ValidateUnsafe e w1 db"
    using written_stale(2) [OF assms(4,3)] assms(1) by (simp add: ValidateUnsafe_eq env_ok_def)
  then have "RamDb_UpdateCacheEntryUnsafe e (w1, db) r = (?w2, db)"
    using assms(1,4) by (simp add: RamDb_UpdateCacheEntryUnsafe_def Let_def env_ok_def proc_ok_def)
  moreover have "written path w ?w2"
    using assms(3) sp by (auto simp: written_def)
  ultimately show ?thesis
    using assms(2) sp by (simp add: world_ok_def)
qed

text \<open>The effect of a writing operation on the shared world, seen by any process.\<close>

definition world_step :: "string \<Rightarrow> world \<Rightarrow> world \<Rightarrow> bool" where
  "world_step path w w' \<longleftrightarrow> world_ok path w'
     \<and> (written path w w' \<or> w_fs w' = w_fs w \<and> w_times w' = w_times w \<and> w_clock w \<le> w_clock w')"

lemma world_step_proc:
  assumes "world_step path w w'" "proc_ok path w db" "no_ghost path w db"
  shows "proc_ok path w' db" "no_ghost path w' db"
  using assms written_stale [OF assms(2)] proc_ok_idle [OF assms(2)]
  by (auto simp: world_step_def no_ghost_def)

lemma StoreRecord_spec:
  assumes "env_ok e" "world_ok path w" "proc_ok path w db" "rec_wf r" "key_ok (rec_key r)"
    and "RamDb_StoreRecord e (w, db) r = Inr ((w', db'), ok)"
  shows "db' = db \<and> world_step path w w' \<and> db_view path (w_fs w')
    = (if ok then put_view (rec_key r) (rec_lookup r) (db_view path (w_fs w)) else db_view path (w_fs w))"
proof -
  have path: "ram_path db = path" and ho: "hash_order (env_ord e)"
    using assms(1,3) by (simp_all add: proc_ok_def env_ok_def)
  let ?res = "PlainTextDb_StoreRecordUnsafe (env_ord e) (w_fs w) path r"
  obtain w1 ok1 where wf: "write_file e w path ?res = (w1, ok1)" by fastforce
  have fl: "PlainTextDb_FlushUnsafe (env_ord e) (w_fs w) path r
      (snd (PlainTextDb_FindRecordUnsafe (w_fs w) path (rec_key r))) = ?res"
    by (simp add: PlainTextDb_StoreRecordUnsafe_def Let_def)
  show ?thesis
  proof (cases ok1)
    case True
    with wf have wf': "write_file e w path ?res = (w1, True)" by simp
    note fw = flush_world [OF assms(1,2,4) ho assms(5) fl wf']
    from UpdateCacheEntry_stale [OF assms(1) _ _ assms(3), of w1 r] fw
    obtain w2 where "RamDb_UpdateCacheEntryUnsafe e (w1, db) r = (w2, db)" "world_ok path w2"
      "written path w w2" "w_fs w2 = w_fs w1" by blast
    with fw wf' assms(1,6) path show ?thesis
      by (auto simp: RamDb_StoreRecord_def env_ok_def world_step_def)
  next
    case False
    with wf have "w1 = w" using flush_failed [OF fl] by simp
    with False wf assms(1,2,6) path show ?thesis
      by (auto simp: RamDb_StoreRecord_def env_ok_def world_step_def)
  qed
qed

lemma UpdateRecord_spec:
  assumes "env_ok e" "world_ok path w" "proc_ok path w db" "rec_wf r" "key_ok (rec_key r)"
    and "RamDb_UpdateRecord e (w, db) r = Inr (((w', db'), ok), r')"
  shows "db' = db \<and> world_step path w w' \<and> rec_wf r' \<and> rec_key r' = rec_key r
    \<and> (if ok then rec_lookup r'
          = (case db_view path (w_fs w) (rec_key r) of None \<Rightarrow> Map.empty | Some m \<Rightarrow> m) ++ rec_lookup r
        \<and> db_view path (w_fs w') = put_view (rec_key r) (rec_lookup r') (db_view path (w_fs w))
       else r' = r \<and> db_view path (w_fs w') = db_view path (w_fs w))"
proof -
  have path: "ram_path db = path" and ho: "hash_order (env_ord e)" and inv: "db_inv path (w_fs w)"
    using assms(1-3) by (simp_all add: proc_ok_def env_ok_def world_ok_def)
  obtain res n where up: "PlainTextDb_UpdateRecordUnsafe (env_ord e) (w_fs w) path r = (res, n)"
    by fastforce
  obtain w1 ok1 where wf: "write_file e w path res = (w1, ok1)" by fastforce
  have ok1: "snd res = ok1"
    using wf by (auto simp: write_file_def Let_def split: prod.splits if_splits)
  obtain m where fl: "PlainTextDb_FlushUnsafe (env_ord e) (w_fs w) path m
      (snd (PlainTextDb_FindRecordUnsafe (w_fs w) path (rec_key r))) = res"
    and nm: "n = (if ok1 then m else r)"
    using up ok1 by (auto simp: PlainTextDb_UpdateRecordUnsafe_def Let_def split: prod.splits)
  show ?thesis
  proof (cases ok1)
    case True
    with wf have wf': "write_file e w path res = (w1, True)" by simp
    from True ok1 have "PlainTextDb_UpdateRecordUnsafe (env_ord e) (w_fs w) path r = ((fst res, True), n)"
      by (simp add: up prod_eq_iff)
    note n = UpdateRecordUnsafe_ok [OF inv assms(4) ho assms(5) this]
    have fl': "PlainTextDb_FlushUnsafe (env_ord e) (w_fs w) path n
      (snd (PlainTextDb_FindRecordUnsafe (w_fs w) path (rec_key n))) = res"
      using fl nm True n by simp
    have "rec_wf n" "key_ok (rec_key n)" using n assms(5) by simp_all
    note fw = flush_world [OF assms(1,2) this(1) ho this(2) fl' wf']
    from UpdateCacheEntry_stale [OF assms(1) _ _ assms(3), of w1 n] fw
    obtain w2 where "RamDb_UpdateCacheEntryUnsafe e (w1, db) n = (w2, db)" "world_ok path w2"
      "written path w w2" "w_fs w2 = w_fs w1" by blast
    with fw wf' assms(1,6) path up n show ?thesis
      by (auto simp: RamDb_UpdateRecord_def env_ok_def world_step_def)
  next
    case False
    with wf have "w1 = w" using flush_failed [OF fl] by simp
    with False wf assms(1,2,4,6) path up nm show ?thesis
      by (auto simp: RamDb_UpdateRecord_def env_ok_def world_step_def)
  qed
qed

lemma ram_view_erase:
  "ram_view (db\<lparr>ram_cache := AList.delete k (ram_cache db), ram_read_time := t\<rparr>) = (ram_view db)(k := None)"
  by (auto simp: fun_eq_iff ram_view_def RamDb_FindRecordUnsafe_def delete_conv')

lemma RemoveRecord_spec:
  assumes "env_ok e" "world_ok path w" "proc_ok path w db" "key_ok k"
    and "RamDb_RemoveRecord e (w, db) k = Inr ((w', db'), ok)"
  shows "world_step path w w' \<and> proc_ok path w' db' \<and> (written path w w' \<or> db' = db)
    \<and> db_view path (w_fs w') = (if ok then (db_view path (w_fs w))(k := None) else db_view path (w_fs w))"
proof -
  have path: "ram_path db = path" and ho: "hash_order (env_ord e)"
    using assms(1,3) by (simp_all add: proc_ok_def env_ok_def)
  let ?res = "PlainTextDb_RemoveRecordUnsafe (env_ord e) (w_fs w) path k"
  obtain w1 ok1 where wf: "write_file e w path ?res = (w1, ok1)" by fastforce
  have fl: "PlainTextDb_FlushUnsafe (env_ord e) (w_fs w) path (DbRecord_of_key k)
      (snd (PlainTextDb_FindRecordUnsafe (w_fs w) path (rec_key (DbRecord_of_key k)))) = ?res"
    by (simp add: PlainTextDb_RemoveRecordUnsafe_def Let_def)
  show ?thesis
  proof (cases ok1)
    case False
    with wf have "w1 = w" using flush_failed [OF fl] by simp
    with False wf assms(1,2,3,5) path show ?thesis
      by (auto simp: RamDb_RemoveRecord_def env_ok_def world_step_def)
  next
    case True
    with wf have wf': "write_file e w path ?res = (w1, True)" by simp
    have "key_ok (rec_key (DbRecord_of_key k))" using assms(4) by simp
    note fw = flush_world [OF assms(1,2) rec_wf_of_key ho this fl wf']
    then have v1: "db_view path (w_fs w1) = (db_view path (w_fs w))(k := None)"
      by (simp add: DbRecord_of_key_def)
    show ?thesis
    proof (cases "cache_valid w db")
      case False
      with wf' v1 fw assms(1,3,5) path have "w' = w1" "db' = db" ok
        by (auto simp: RamDb_RemoveRecord_def env_ok_def ValidateUnsafe_eq)
      with fw v1 written_stale(1) [OF assms(3)] show ?thesis by (simp add: world_step_def)
    next
      case True
      let ?db = "db\<lparr>ram_cache := AList.delete k (ram_cache db), ram_read_time := w_clock w1\<rparr>"
      have eq: "w' = w1\<lparr>w_clock := env_adv e (w_clock w1)\<rparr>" "db' = ?db" ok
        using True wf' assms(1,5) path
        by (auto simp: RamDb_RemoveRecord_def env_ok_def ValidateUnsafe_eq clock_now_def)
      have "ram_view ?db = db_view path (w_fs w1)"
        using True assms(3) v1 by (simp add: ram_view_erase proc_ok_def)
      moreover have "w_clock w1 \<le> env_adv e (w_clock w1)"
        using assms(1) by (simp add: env_ok_def)
      then have "written path w w'" "world_ok path w'"
        using fw order_trans by (auto simp: eq written_def world_ok_def)
      moreover have "\<forall>(k, item) \<in> set (ram_cache ?db). nl \<notin> set (item_content item)"
        using assms(3) set_AList_delete [of k "ram_cache db"] by (auto simp: proc_ok_def)
      ultimately show ?thesis
        using v1 path assms(1) by (simp add: eq world_step_def proc_ok_def env_ok_def)
    qed
  qed
qed

section \<open>The system of processes\<close>

text \<open>Processes \<open>p\<close> share a world; each step is one operation of one process, run under the
  exclusive lock with the environment of that call, or time passing.\<close>

type_synonym system = "world \<times> (nat \<Rightarrow> ram_db)"

datatype ram_label =
    Find nat env string "db_record option"
  | Store nat env db_record bool
  | Upd nat env db_record bool
  | Rem nat env string bool
  | Tick int

inductive ram_step :: "system \<Rightarrow> ram_label \<Rightarrow> system \<Rightarrow> bool" where
  find: "RamDb_FindRecord e (w, dbs p) k = Inr ((w', db'), found) \<Longrightarrow>
    env_ok e \<Longrightarrow> ram_step (w, dbs) (Find p e k found) (w', dbs(p := db'))"
| store: "RamDb_StoreRecord e (w, dbs p) r = Inr ((w', db'), ok) \<Longrightarrow>
    env_ok e \<Longrightarrow> rec_wf r \<Longrightarrow> key_ok (rec_key r) \<Longrightarrow>
    ram_step (w, dbs) (Store p e r ok) (w', dbs(p := db'))"
| update: "RamDb_UpdateRecord e (w, dbs p) r = Inr (((w', db'), ok), r') \<Longrightarrow>
    env_ok e \<Longrightarrow> rec_wf r \<Longrightarrow> key_ok (rec_key r) \<Longrightarrow>
    ram_step (w, dbs) (Upd p e r ok) (w', dbs(p := db'))"
| remove: "RamDb_RemoveRecord e (w, dbs p) k = Inr ((w', db'), ok) \<Longrightarrow>
    env_ok e \<Longrightarrow> key_ok k \<Longrightarrow>
    ram_step (w, dbs) (Rem p e k ok) (w', dbs(p := db'))"
| tick: "w_clock w \<le> t \<Longrightarrow> ram_step (w, dbs) (Tick t) (w\<lparr>w_clock := t\<rparr>, dbs)"

inductive_cases ram_stepE: "ram_step s l s'"

inductive ram_run :: "system \<Rightarrow> ram_label list \<Rightarrow> system \<Rightarrow> bool" where
  start: "ram_run s [] s"
| step: "ram_run s ls s' \<Longrightarrow> ram_step s' l s'' \<Longrightarrow> ram_run s (ls @ [l]) s''"

text \<open>The abstract database the labels act on.\<close>

fun label_effect :: "ram_label \<Rightarrow> (string \<rightharpoonup> (string \<rightharpoonup> string)) \<Rightarrow> (string \<rightharpoonup> (string \<rightharpoonup> string))" where
  "label_effect (Store p e r True) v = put_view (rec_key r) (rec_lookup r) v"
| "label_effect (Upd p e r True) v
    = put_view (rec_key r) ((case v (rec_key r) of None \<Rightarrow> Map.empty | Some m \<Rightarrow> m) ++ rec_lookup r) v"
| "label_effect (Rem p e k True) v = v(k := None)"
| "label_effect l v = v"

fun label_correct :: "ram_label \<Rightarrow> (string \<rightharpoonup> (string \<rightharpoonup> string)) \<Rightarrow> bool" where
  "label_correct (Find p e k found) v \<longleftrightarrow> map_option rec_lookup found = v k"
| "label_correct l v \<longleftrightarrow> True"

fun run_correct :: "ram_label list \<Rightarrow> (string \<rightharpoonup> (string \<rightharpoonup> string)) \<Rightarrow> bool" where
  "run_correct [] v \<longleftrightarrow> True"
| "run_correct (l # ls) v \<longleftrightarrow> label_correct l v \<and> run_correct ls (label_effect l v)"

definition sys_inv :: "string \<Rightarrow> system \<Rightarrow> bool" where
  "sys_inv path s \<longleftrightarrow> world_ok path (fst s)
     \<and> (\<forall>p. proc_ok path (fst s) (snd s p) \<and> no_ghost path (fst s) (snd s p))"

definition sys_init :: "string \<Rightarrow> world \<Rightarrow> bool" where
  "sys_init path w \<longleftrightarrow> world_ok path w \<and> 0 \<le> GetDbModificationTime w path \<and> 0 \<le> w_clock w"

definition new_db :: "string \<Rightarrow> ram_db" where
  "new_db path = \<lparr>ram_path = path, ram_read_time = 0, ram_cache = []\<rparr>"

lemma sys_inv_init:
  assumes "sys_init path w"
  shows "sys_inv path (w, \<lambda>p. new_db path)"
proof -
  have "db_view path (w_fs w) = Map.empty" if "fs_files (w_fs w) path = None"
    using that by (auto simp: db_view_def db_lines_def lines_view_def)
  with assms show ?thesis
    by (auto simp: sys_inv_def sys_init_def proc_ok_def no_ghost_def cache_valid_def new_db_def
        ram_view_def RamDb_FindRecordUnsafe_def)
qed

lemma sys_inv_update:
  assumes "sys_inv path (w, dbs)" "world_step path w w'" "proc_ok path w' db'" "no_ghost path w' db'"
  shows "sys_inv path (w', dbs(p := db'))"
  using assms world_step_proc [OF assms(2)] by (auto simp: sys_inv_def world_step_def)

text \<open>One step keeps the invariant and acts on the file as its label says.\<close>

lemma ram_step_spec:
  assumes "ram_step s l s'" "sys_inv path s"
  shows "sys_inv path s' \<and> label_correct l (db_view path (w_fs (fst s)))
    \<and> db_view path (w_fs (fst s')) = label_effect l (db_view path (w_fs (fst s)))"
  using assms
proof (cases rule: ram_step.cases)
  case (find e w dbs p k w' db' found)
  have inv: "world_ok path w" "proc_ok path w (dbs p)" "no_ghost path w (dbs p)"
    using find assms(2) by (auto simp: sys_inv_def)
  from FindRecord_spec [OF find(5) inv, of k] find(4) have
    "world_step path w w'" "proc_ok path w' db'" "no_ghost path w' db'" "w_fs w' = w_fs w"
    "map_option rec_lookup found = db_view path (w_fs w) k"
    by (auto simp: world_step_def)
  with find assms(2) sys_inv_update show ?thesis by auto
next
  case (store e w dbs p r w' db' ok)
  have inv: "world_ok path w" "proc_ok path w (dbs p)" "no_ghost path w (dbs p)"
    using store assms(2) by (auto simp: sys_inv_def)
  note st = StoreRecord_spec [OF store(5) inv(1,2) store(6,7,4)]
  then have "sys_inv path (w', dbs(p := db'))"
    by (intro sys_inv_update [of path w]) (use store assms(2) world_step_proc [OF _ inv(2,3)] in auto)
  with st store show ?thesis by (cases ok) auto
next
  case (update e w dbs p r w' db' ok r')
  have inv: "world_ok path w" "proc_ok path w (dbs p)" "no_ghost path w (dbs p)"
    using update assms(2) by (auto simp: sys_inv_def)
  note st = UpdateRecord_spec [OF update(5) inv(1,2) update(6,7,4)]
  then have "sys_inv path (w', dbs(p := db'))"
    by (intro sys_inv_update [of path w]) (use update assms(2) world_step_proc [OF _ inv(2,3)] in auto)
  with st update show ?thesis by (cases ok) auto
next
  case (remove e w dbs p k w' db' ok)
  have inv: "world_ok path w" "proc_ok path w (dbs p)" "no_ghost path w (dbs p)"
    using remove assms(2) by (auto simp: sys_inv_def)
  note st = RemoveRecord_spec [OF remove(5) inv(1,2) remove(6,4)]
  have "no_ghost path w' db'"
    using st world_step_proc [OF _ inv(2,3), of w'] by (auto simp: no_ghost_def written_def)
  with st have "sys_inv path (w', dbs(p := db'))"
    using remove assms(2) by (auto intro: sys_inv_update)
  with st remove show ?thesis by (cases ok) auto
next
  case (tick w t dbs)
  with assms(2) proc_ok_idle [where w = w and w' = "w\<lparr>w_clock := t\<rparr>" and path = path] show ?thesis
    by (auto simp: sys_inv_def world_ok_def no_ghost_def)
qed

lemma ram_run_spec:
  "ram_run s ls s' \<Longrightarrow> sys_inv path s \<Longrightarrow> sys_inv path s'
    \<and> run_correct ls (db_view path (w_fs (fst s)))
    \<and> db_view path (w_fs (fst s')) = fold label_effect ls (db_view path (w_fs (fst s)))"
proof (induction rule: ram_run.induct)
  case (step s ls s' l s'')
  have "run_correct (ls @ [l]) v \<longleftrightarrow> run_correct ls v \<and> label_correct l (fold label_effect ls v)" for v
    by (induction ls arbitrary: v) auto
  with step ram_step_spec [OF step(2), of path] show ?case by auto
qed simp

section \<open>Interpretation and properties\<close>

definition drop_error :: "'s \<Rightarrow> 'x \<Rightarrow> ('s \<times> 'x) result \<Rightarrow> 's \<times> 'x" where
  "drop_error s x res = (case res of Inl _ \<Rightarrow> (s, x) | Inr y \<Rightarrow> y)"

definition ram_inv :: "env \<Rightarrow> string \<Rightarrow> world \<times> ram_db \<Rightarrow> bool" where
  "ram_inv e path s \<longleftrightarrow> env_ok e \<and> world_ok path (fst s) \<and> proc_ok path (fst s) (snd s)
     \<and> no_ghost path (fst s) (snd s)"

lemma ram_find:
  assumes "ram_inv e path s"
  shows "\<exists>s' found. RamDb_FindRecord e s k = Inr (s', found) \<and> ram_inv e path s'
    \<and> w_fs (fst s') = w_fs (fst s) \<and> map_option rec_lookup found = db_view path (w_fs (fst s)) k
    \<and> (\<forall>r. found = Some r \<longrightarrow> rec_key r = k \<and> rec_wf r)"
  using assms FindRecord_spec [of e path "fst s" "snd s" k] by (fastforce simp: ram_inv_def)

interpretation ram: record_db "\<lambda>s. db_view path (w_fs (fst s))" "ram_inv e path"
  "\<lambda>s k. drop_error s None (RamDb_FindRecord e s k)"
  "\<lambda>s r. drop_error s False (RamDb_StoreRecord e s r)"
  "\<lambda>s r. drop_error (s, False) r (RamDb_UpdateRecord e s r)"
  "\<lambda>s k. drop_error s False (RamDb_RemoveRecord e s k)"
  for path e
proof (unfold_locales, goal_cases)
  case (1 s k)
  from ram_find [OF 1, of k] show ?case by (auto simp: drop_error_def)
next
  case (2 s k)
  from ram_find [OF 2, of k] show ?case by (auto simp: drop_error_def)
next
  case (3 s k)
  from ram_find [OF 3, of k] show ?case by (auto simp: drop_error_def)
next
  case (4 s k r)
  from ram_find [OF 4(1), of k] 4(2) show ?case by (auto simp: drop_error_def)
next
  case (5 s r s')
  obtain w db w' db' where s: "s = (w, db)" "s' = (w', db')" by (metis prod.collapse)
  have "RamDb_StoreRecord e (w, db) r = Inr ((w', db'), True)"
    using 5(4) s by (auto simp: drop_error_def split: sum.splits)
  from StoreRecord_spec [OF _ _ _ 5(2,3) this, of path] 5(1) s world_step_proc [of path w w' db] show ?case
    by (auto simp: ram_inv_def world_step_def)
next
  case (6 s r s' r')
  obtain w db w' db' where s: "s = (w, db)" "s' = (w', db')" by (metis prod.collapse)
  have "RamDb_UpdateRecord e (w, db) r = Inr (((w', db'), True), r')"
    using 6(4) s by (auto simp: drop_error_def split: sum.splits)
  from UpdateRecord_spec [OF _ _ _ 6(2,3) this, of path] 6(1) s world_step_proc [of path w w' db] show ?case
    by (auto simp: ram_inv_def world_step_def)
next
  case (7 s k s')
  obtain w db w' db' where s: "s = (w, db)" "s' = (w', db')" by (metis prod.collapse)
  have "RamDb_RemoveRecord e (w, db) k = Inr ((w', db'), True)"
    using 7(3) s by (auto simp: drop_error_def split: sum.splits)
  from RemoveRecord_spec [OF _ _ _ 7(2) this, of path] 7(1) s world_step_proc [of path w w' db]
  show ?case by (auto simp: ram_inv_def world_step_def no_ghost_def written_def)
qed

lemma StoreRecord_succeeds:
  assumes "env_ok e" "world_ok path w" "proc_ok path w db" "can_write (w_fs w) path"
  shows "\<exists>s'. RamDb_StoreRecord e (w, db) r = Inr (s', True)"
proof -
  let ?res = "PlainTextDb_StoreRecordUnsafe (env_ord e) (w_fs w) path r"
  have "snd ?res"
    using FlushUnsafe_succeeds [OF _ assms(4)] assms(2)
    by (simp add: PlainTextDb_StoreRecordUnsafe_def Let_def world_ok_def)
  then have "snd (write_file e w path ?res)"
    by (simp add: write_file_def case_prod_unfold Let_def)
  with assms(1,3) show ?thesis
    by (simp add: RamDb_StoreRecord_def env_ok_def proc_ok_def case_prod_unfold Let_def)
qed

text \<open>A concrete world for the witnesses.\<close>

definition env0 :: env where
  "env0 = \<lparr>env_no_io = False, env_locked = True, env_logging = False, env_ord = rev,
     env_adv = (\<lambda>t. t + 1)\<rparr>"

definition world0 :: world where
  "world0 = \<lparr>w_fs = \<lparr>fs_files = [''db'' \<mapsto> ''m=a:1'' @ endl], fs_readable = (\<lambda>_. True),
       fs_writable = (\<lambda>_. True)\<rparr>,
     w_times = Map.empty, w_time_writable = (\<lambda>_. True), w_clock = 5\<rparr>"

definition rec0 :: db_record where
  "rec0 = \<lparr>rec_key = ''k'', rec_map = [(''c'', ''4'')]\<rparr>"

lemma concrete_ok:
  "env_ok env0" "sys_init ''db'' world0" "can_write (w_fs world0) ''db''"
  "rec_wf rec0" "key_ok (rec_key rec0)" "rec_lookup rec0 = [''c'' \<mapsto> ''4'']" "rec_key rec0 = ''k''"
  by (simp_all add: env_ok_def env0_def world0_def sys_init_def world_ok_def db_inv_def db_lines_def
      getlines.simps line_key_def List.map_filter_def GetDbModificationTime_def proper_line_def
      parse_ok_def parse_step_def can_write_def rec0_def rec_wf_def id_ok_def values_ok_def key_ok_def)

lemma concrete_run:
  "\<exists>w' dbs found. ram_run (world0, \<lambda>p. new_db ''db'') [Store 0 env0 rec0 True, Find 1 env0 ''k'' found] (w', dbs)"
proof -
  let ?s0 = "(world0, \<lambda>p. new_db ''db'')"
  have i0: "sys_inv ''db'' ?s0" by (rule sys_inv_init) (rule concrete_ok)
  obtain w1 d1 where st: "RamDb_StoreRecord env0 (world0, new_db ''db'') rec0 = Inr ((w1, d1), True)"
    using StoreRecord_succeeds [of env0 "''db''" world0 "new_db ''db''" rec0] concrete_ok i0
    by (auto simp: sys_inv_def)
  let ?d = "(\<lambda>p::nat. new_db ''db'')(0 := d1)"
  let ?s1 = "(w1, ?d)"
  have s1: "ram_step ?s0 (Store 0 env0 rec0 True) ?s1"
    by (rule ram_step.store) (use st concrete_ok in auto)
  have i1: "sys_inv ''db'' ?s1" using ram_step_spec [OF s1 i0] by simp
  have "world_ok ''db'' w1" using i1 by (simp add: sys_inv_def)
  moreover have "\<forall>p. proc_ok ''db'' w1 (?d p) \<and> no_ghost ''db'' w1 (?d p)"
    using i1 unfolding sys_inv_def fst_conv snd_conv by (rule conjunct2)
  ultimately have "world_ok ''db'' w1" "proc_ok ''db'' w1 (?d 1)" "no_ghost ''db'' w1 (?d 1)"
    using spec [where x = 1] by blast+
  from FindRecord_spec [OF concrete_ok(1) this, of "''k''"] obtain w2 d2 found where
    "RamDb_FindRecord env0 (w1, ?d 1) ''k'' = Inr ((w2, d2), found)" by blast
  then have "ram_step ?s1 (Find 1 env0 ''k'' found) (w2, ?d(1 := d2))"
    by (intro ram_step.find) (use concrete_ok in auto)
  with s1 show ?thesis
    by (metis append_Cons append_Nil ram_run.start ram_run.step)
qed

text \<open>C1: Cache coherence across processes. From a start where every process has an empty cache, in every run of
  \<open>FindRecord\<close>, \<open>StoreRecord\<close>, \<open>UpdateRecord\<close> and
  \<open>RemoveRecord\<close> calls of any processes with time passing in between, each lookup returns what the
  last writes of all processes left under its key, and the file at the end holds the effect of exactly the
  successful writes, in order. The calls of a run obtain the file lock, with input and output enabled
  (\<open>env_ok\<close>), and the file of the modification time is writable.\<close>

theorem RamDb_coherent:
  assumes "sys_init path w" "ram_run (w, \<lambda>p. new_db path) ls (w', dbs)"
  shows "run_correct ls (db_view path (w_fs w))
    \<and> db_view path (w_fs w') = fold label_effect ls (db_view path (w_fs w))"
  using ram_run_spec [OF assms(2) sys_inv_init [OF assms(1)]] by simp

theorem RamDb_coherent_witness:
  "\<exists>found w' dbs. ram_run (world0, \<lambda>p. new_db ''db'')
       [Store 0 env0 rec0 True, Find 1 env0 ''k'' found] (w', dbs)
     \<and> map_option rec_lookup found = Some [''c'' \<mapsto> ''4'']"
proof -
  obtain w' dbs found where r: "ram_run (world0, \<lambda>p. new_db ''db'')
      [Store 0 env0 rec0 True, Find 1 env0 ''k'' found] (w', dbs)"
    using concrete_run by blast
  from RamDb_coherent [OF concrete_ok(2) r] have "map_option rec_lookup found = Some [''c'' \<mapsto> ''4'']"
    by (simp add: concrete_ok put_view_def)
  with r show ?thesis by blast
qed

text \<open>\<open>Remove(key, id)\<close> looks in the cache without refreshing it.  After a successful write
  of any process the cache of every process is invalid, so \<open>Remove\<close> acts on the old record: if
  the stale cache does not hold the key, it reports failure and changes nothing; if it does,
  the file's record is replaced by the stale one less the ID, whatever the file held.\<close>

theorem RamDb_Remove_stale:
  assumes "env_ok e" "world_ok path w" "proc_ok path w db" "\<not> cache_valid w db" "key_ok k"
    and "can_write (w_fs w) path"
  shows "case RamDb_FindRecordUnsafe db k of
      None \<Rightarrow> RamDb_Remove e (w, db) k i = Inr ((w, db), False)
    | Some stale \<Rightarrow>
        (if rec_lookup stale i = None then RamDb_Remove e (w, db) k i = Inr ((w, db), False)
         else \<exists>w'. RamDb_Remove e (w, db) k i = Inr ((w', db), True)
           \<and> db_view path (w_fs w') = put_view k ((rec_lookup stale)(i := None)) (db_view path (w_fs w)))"
proof (cases "RamDb_FindRecordUnsafe db k")
  case None
  with assms(1) show ?thesis by (simp add: RamDb_Remove_def env_ok_def)
next
  case (Some stale)
  have st: "rec_key stale = k" "rec_wf stale"
    using find_cached_record [OF assms(3) Some] by auto
  have path: "ram_path db = path" and ho: "hash_order (env_ord e)" and inv: "db_inv path (w_fs w)"
    using assms(1-3) by (simp_all add: proc_ok_def env_ok_def world_ok_def)
  show ?thesis
  proof (cases "rec_lookup stale i")
    case None
    with Some assms(1) show ?thesis
      by (simp add: RamDb_Remove_def env_ok_def DbRecord_EraseValues_def)
  next
    case (Some v)
    then obtain r where er: "DbRecord_EraseValues stale i = (r, True)"
      by (simp add: DbRecord_EraseValues_def)
    with rec_lookup_EraseValues [of stale i] rec_key_ops(2) [of stale i] rec_wf_EraseValues [OF st(2), of i]
    have r: "rec_lookup r = (rec_lookup stale)(i := None)" "rec_key r = k" "rec_wf r"
      using st(1) by simp_all
    let ?res = "PlainTextDb_StoreRecordUnsafe (env_ord e) (w_fs w) path r"
    have "snd ?res"
      using FlushUnsafe_succeeds [OF inv assms(6)]
      by (simp add: PlainTextDb_StoreRecordUnsafe_def Let_def)
    then obtain w1 where wf: "write_file e w path ?res = (w1, True)"
      by (cases ?res) (auto simp: write_file_def Let_def)
    have fl: "PlainTextDb_FlushUnsafe (env_ord e) (w_fs w) path r
        (snd (PlainTextDb_FindRecordUnsafe (w_fs w) path (rec_key r))) = ?res"
      by (simp add: PlainTextDb_StoreRecordUnsafe_def Let_def)
    have "key_ok (rec_key r)" using r assms(5) by simp
    note fw = flush_world [OF assms(1,2) r(3) ho this fl wf]
    have "RamDb_Remove e (w, db) k i = Inr ((w1, db), True)"
      using \<open>RamDb_FindRecordUnsafe db k = Some stale\<close> er wf assms(1,4) path
      by (simp add: RamDb_Remove_def env_ok_def ValidateUnsafe_eq Let_def)
    with fw r Some \<open>RamDb_FindRecordUnsafe db k = Some stale\<close> show ?thesis by simp
  qed
qed

theorem RamDb_Remove_stale_witness:
  "\<exists>w'. RamDb_Remove env0 (world0, \<lparr>ram_path = ''db'', ram_read_time = 0,
        ram_cache = [(''m'', \<lparr>item_line = 1, item_content = ''a:0;b:1''\<rparr>)]\<rparr>) ''m'' ''b''
      = Inr ((w', \<lparr>ram_path = ''db'', ram_read_time = 0,
          ram_cache = [(''m'', \<lparr>item_line = 1, item_content = ''a:0;b:1''\<rparr>)]\<rparr>), True)
    \<and> db_view ''db'' (w_fs world0) ''m'' = Some [''a'' \<mapsto> ''1'']
    \<and> db_view ''db'' (w_fs w') ''m'' = Some [''a'' \<mapsto> ''0'']"
proof -
  let ?db = "\<lparr>ram_path = ''db'', ram_read_time = 0,
        ram_cache = [(''m'', \<lparr>item_line = 1, item_content = ''a:0;b:1''\<rparr>)]\<rparr>"
  have inv: "\<not> cache_valid world0 ?db" "proc_ok ''db'' world0 ?db"
    by (auto simp: proc_ok_def cache_valid_def world0_def GetDbModificationTime_def)
  have f: "RamDb_FindRecordUnsafe ?db ''m''
      = Some \<lparr>rec_key = ''m'', rec_map = [(''a'', ''0''), (''b'', ''1'')]\<rparr>"
    by (simp add: RamDb_FindRecordUnsafe_def DbRecord_ParseContents_def getlines.simps parse_step_def
        DbRecord_of_key_def)
  have v: "db_view ''db'' (w_fs world0) ''m'' = Some [''a'' \<mapsto> ''1'']"
    by (auto simp: db_view_def lines_view_def db_lines_def line_key_def line_record_def world0_def
        DbRecord_ParseContents_def getlines.simps parse_step_def)
  have w: "world_ok ''db'' world0" "key_ok ''m''"
    using concrete_ok(2) by (simp_all add: sys_init_def key_ok_def)
  have m: "(map_of [(''a'', ''0''), (''b'', ''1'')])(''b'' := None) = [''a'' \<mapsto> ''0'']"
    by (auto simp: fun_eq_iff)
  have ne: "[''a'' \<mapsto> ''0''] \<noteq> Map.empty" by simp
  from RamDb_Remove_stale [OF concrete_ok(1) w(1) inv(2,1) w(2) concrete_ok(3), of "''b''"] obtain w' where
    "RamDb_Remove env0 (world0, ?db) ''m'' ''b'' = Inr ((w', ?db), True)"
    "db_view ''db'' (w_fs w') = put_view ''m'' [''a'' \<mapsto> ''0''] (db_view ''db'' (w_fs world0))"
    unfolding f option.case db_record.select_convs m by (auto split: if_splits)
  with v put_view_same [OF ne] show ?thesis by auto
qed

text \<open>Write-through text keeps the newline.  In a build without user database files, a record
  with one ID that is stored in the cache is read back with a newline at the end of its
  value, because the cache holds the text of \<open>WriteIdsAndValues\<close> with its \<open>std::endl\<close>.\<close>

theorem RamDb_cached_newline:
  assumes "env_no_io e" "env_locked e" "env_ord e [(i, v)] = [(i, v)]" "id_ok i" "values_ok v"
  shows "\<exists>s'. RamDb_StoreRecord e s \<lparr>rec_key = k, rec_map = [(i, v)]\<rparr> = Inr (s', True)
    \<and> RamDb_FindRecord e s' k = Inr (s', Some \<lparr>rec_key = k, rec_map = [(i, v @ endl)]\<rparr>)"
proof -
  obtain w db where s: "s = (w, db)" by fastforce
  let ?r = "\<lparr>rec_key = k, rec_map = [(i, v)]\<rparr>"
  let ?text = "i @ CHR '':'' # v @ endl"
  have wr: "DbRecord_WriteIdsAndValues (env_ord e) ?r = ?text"
    using assms(3) by (simp add: DbRecord_WriteIdsAndValues_def pairs_joiner_def)
  have "getlines CHR '';'' ?text = [?text]"
    by (rule getlines_last) (use assms(4,5) in \<open>auto simp: id_ok_def values_ok_def\<close>)
  then have parse: "DbRecord_ParseContents (DbRecord_of_key k) ?text
      = (\<lparr>rec_key = k, rec_map = [(i, v @ endl)]\<rparr>, True)"
    using assms(4) by (simp add: DbRecord_ParseContents_def parse_step_def find_char_append
        id_ok_def DbRecord_of_key_def)
  obtain w' db' where up: "RamDb_UpdateCacheEntryUnsafe e (w, db) ?r = (w', db')" by fastforce
  then have "\<exists>item. map_of (ram_cache db') k = Some item \<and> item_content item = ?text"
    using assms(1) wr by (auto simp: RamDb_UpdateCacheEntryUnsafe_def RamDb_ValidateUnsafe_def
        clock_now_def Let_def update_conv' map_add_def split: option.splits)
  then have "RamDb_FindRecordUnsafe db' k = Some \<lparr>rec_key = k, rec_map = [(i, v @ endl)]\<rparr>"
    using parse by (auto simp: RamDb_FindRecordUnsafe_def)
  with up s assms(1,2) show ?thesis
    by (simp add: RamDb_StoreRecord_def RamDb_FindRecord_def RamDb_ValidateUnsafe_def)
qed

theorem RamDb_cached_newline_witness:
  "\<exists>s'. RamDb_StoreRecord (env0\<lparr>env_no_io := True\<rparr>) (world0, new_db ''db'')
        \<lparr>rec_key = ''k'', rec_map = [(''a'', ''1'')]\<rparr> = Inr (s', True)
    \<and> RamDb_FindRecord (env0\<lparr>env_no_io := True\<rparr>) s' ''k''
        = Inr (s', Some \<lparr>rec_key = ''k'', rec_map = [(''a'', ''1'' @ endl)]\<rparr>)"
  by (rule RamDb_cached_newline) (simp_all add: env0_def id_ok_def values_ok_def)

end
