(* ===== verification/Multi_File_Db.thy ===== *)
theory Multi_File_Db
  imports Ram_Db
begin

text \<open>
  \<open>ReadonlyRamDb\<close> (\<open>src/include/miopen/readonlyramdb.hpp\<close>, \<open>src/readonlyramdb.cpp\<close>), the
  database installed with the library, loaded once per path; and \<open>MultiFileDb\<close>
  (\<open>src/include/miopen/db.hpp\<close>), which looks in the user's database first and then in the
  installed one.  The build without embedded databases is modelled (\<open>MIOPEN_EMBED_DB\<close> off),
  and the build with a user database (\<open>MIOPEN_DISABLE_USERDB\<close> off).
\<close>

section \<open>The installed database\<close>

record readonly_db =
  ro_path :: string
  ro_cache :: cache

definition ReadonlyRamDb_ParseAndLoadDb :: "string option \<Rightarrow> readonly_db \<Rightarrow> readonly_db" where
  "ReadonlyRamDb_ParseAndLoadDb input_stream db =
     (case input_stream of
        None \<Rightarrow> db
      | Some s \<Rightarrow> db\<lparr>ro_cache := snd (foldl load_line (0, ro_cache db) (getlines nl s))\<rparr>)"

text \<open>Here \<open>Measure\<close> returns the first call when it does not log.\<close>

definition ReadonlyRamDb_Prefetch :: "filesys \<Rightarrow> readonly_db \<Rightarrow> readonly_db" where
  "ReadonlyRamDb_Prefetch fs db =
     (if ro_path db = [] then db
      else ReadonlyRamDb_ParseAndLoadDb (ifstream fs (ro_path db)) db)"

definition ReadonlyRamDb_GetCached ::
  "filesys \<Rightarrow> (string \<times> readonly_db) list \<Rightarrow> string \<Rightarrow> (string \<times> readonly_db) list \<times> readonly_db" where
  "ReadonlyRamDb_GetCached fs instances path =
     (case map_of instances path of
        Some db \<Rightarrow> (instances, db)
      | None \<Rightarrow>
          (let db = ReadonlyRamDb_Prefetch fs \<lparr>ro_path = path, ro_cache = []\<rparr>
           in (instances @ [(path, db)], db)))"

definition ReadonlyRamDb_FindRecord :: "readonly_db \<Rightarrow> string \<Rightarrow> db_record option" where
  "ReadonlyRamDb_FindRecord db problem =
     (case map_of (ro_cache db) problem of
        None \<Rightarrow> None
      | Some item \<Rightarrow>
          (case DbRecord_ParseContents (DbRecord_of_key problem) (item_content item) of
             (r, ok) \<Rightarrow> if \<not> ok then None else Some r))"

definition ReadonlyRamDb_Load ::
  "readonly_db \<Rightarrow> string \<Rightarrow> string \<Rightarrow> (string \<Rightarrow> 'v option) \<Rightarrow> 'v option" where
  "ReadonlyRamDb_Load db problem i deser =
     (case ReadonlyRamDb_FindRecord db problem of
        None \<Rightarrow> None | Some r \<Rightarrow> DbRecord_GetValuesT deser r i)"

lemma ro_find_ram: "ReadonlyRamDb_FindRecord db k
    = RamDb_FindRecordUnsafe \<lparr>ram_path = p, ram_read_time = t, ram_cache = ro_cache db\<rparr> k"
  by (simp add: ReadonlyRamDb_FindRecord_def RamDb_FindRecordUnsafe_def)

definition ro_view :: "readonly_db \<Rightarrow> string \<rightharpoonup> (string \<rightharpoonup> string)" where
  "ro_view db k = map_option rec_lookup (ReadonlyRamDb_FindRecord db k)"

definition ro_clean :: "readonly_db \<Rightarrow> bool" where
  "ro_clean db \<longleftrightarrow> (\<forall>(k, item) \<in> set (ro_cache db). nl \<notin> set (item_content item))"

lemma ro_find_record:
  assumes "ro_clean db" "ReadonlyRamDb_FindRecord db k = Some r"
  shows "rec_key r = k \<and> rec_wf r"
proof -
  let ?w = "world0\<lparr>w_times := [[] \<mapsto> 5], w_fs := w_fs world0\<lparr>fs_files := [[] \<mapsto> []]\<rparr>\<rparr>"
  let ?db = "\<lparr>ram_path = [], ram_read_time = 0, ram_cache = ro_cache db\<rparr>"
  have "proc_ok [] ?w ?db"
    using assms(1) by (auto simp: proc_ok_def ro_clean_def cache_valid_def GetDbModificationTime_def world0_def)
  from find_cached_record [OF this] assms(2) show ?thesis
    by (simp add: ro_find_ram [of db k "[]" 0])
qed

text \<open>Loading a readable, well-formed file gives the database of its lines; loading a file that
  cannot be read gives the empty one.\<close>

lemma ro_loaded:
  assumes "\<forall>l \<in> set (db_lines fs path). proper_line l" "path \<noteq> []"
    and "fs_readable fs path \<or> fs_files fs path = None"
  shows "ro_view (ReadonlyRamDb_Prefetch fs \<lparr>ro_path = path, ro_cache = []\<rparr>) = db_view path fs"
    and "ro_clean (ReadonlyRamDb_Prefetch fs \<lparr>ro_path = path, ro_cache = []\<rparr>)"
proof -
  let ?db = "ReadonlyRamDb_Prefetch fs \<lparr>ro_path = path, ro_cache = []\<rparr>"
  have "ro_view ?db = db_view path fs \<and> ro_clean ?db"
  proof (cases "fs_files fs path")
    case None
    then show ?thesis
      using assms(2) by (auto simp: ReadonlyRamDb_Prefetch_def ReadonlyRamDb_ParseAndLoadDb_def
          ifstream_def db_view_def db_lines_def lines_view_def ro_view_def fun_eq_iff
          ReadonlyRamDb_FindRecord_def ro_clean_def)
  next
    case (Some t)
    then have ls: "getlines nl t = db_lines fs path" by (simp add: db_lines_def)
    have "ifstream fs path = Some t" using Some assms(3) by (simp add: ifstream_def)
    then have db: "?db = \<lparr>ro_path = path, ro_cache = snd (foldl load_line (0, []) (db_lines fs path))\<rparr>"
      using assms(2) ls by (simp add: ReadonlyRamDb_Prefetch_def ReadonlyRamDb_ParseAndLoadDb_def)
    have "ro_view ?db k = db_view path fs k" for k
      using loaded_view [OF assms(1), where db = "new_db path" and t = 0 and k = k]
      by (simp add: db ro_view_def ro_find_ram [of _ k path 0] new_db_def ram_view_def db_view_def)
    moreover have "\<forall>l \<in> set (db_lines fs path). nl \<notin> set l" using db_lines_clean by blast
    ultimately show ?thesis
      using load_lines_clean [of "db_lines fs path" "[]" 0] by (auto simp: db ro_clean_def)
  qed
  then show "ro_view ?db = db_view path fs" "ro_clean ?db" by auto
qed

interpretation readonly: read_db ro_view ro_clean "\<lambda>db k. (db, ReadonlyRamDb_FindRecord db k)"
  by unfold_locales (auto simp: ro_view_def dest: ro_find_record)

section \<open>Two databases\<close>

text \<open>The operations of \<open>MultiFileDb\<close> over those of the two classes it is instantiated with;
  \<open>'u\<close> and \<open>'i\<close> are their states.  A lookup of the user's database may throw.\<close>

definition MultiFileDb_FindRecord_merge ::
  "order \<Rightarrow> ('u \<Rightarrow> string \<Rightarrow> ('u \<times> db_record option) result) \<Rightarrow> ('i \<Rightarrow> string \<Rightarrow> db_record option)
    \<Rightarrow> 'u \<Rightarrow> 'i \<Rightarrow> string \<Rightarrow> ('u \<times> db_record option) result" where
  "MultiFileDb_FindRecord_merge ord user_find inst_find u i key =
     (case user_find u key of
        Inl ex \<Rightarrow> Inl ex
      | Inr (u', users) \<Rightarrow>
          (let installed = inst_find i key in
           case (users, installed) of
             (Some usr, Some ins) \<Rightarrow> Inr (u', Some (DbRecord_Merge ord usr ins))
           | (Some usr, None) \<Rightarrow> Inr (u', Some usr)
           | (None, _) \<Rightarrow> Inr (u', installed)))"

definition MultiFileDb_FindRecord ::
  "('u \<Rightarrow> string \<Rightarrow> ('u \<times> db_record option) result) \<Rightarrow> ('i \<Rightarrow> string \<Rightarrow> db_record option)
    \<Rightarrow> 'u \<Rightarrow> 'i \<Rightarrow> string \<Rightarrow> ('u \<times> db_record option) result" where
  "MultiFileDb_FindRecord user_find inst_find u i key =
     (case user_find u key of
        Inl ex \<Rightarrow> Inl ex
      | Inr (u', users) \<Rightarrow> Inr (u', if users \<noteq> None then users else inst_find i key))"

definition MultiFileDb_Load ::
  "('u \<Rightarrow> string \<Rightarrow> string \<Rightarrow> ('u \<times> 'v option) result) \<Rightarrow> ('i \<Rightarrow> string \<Rightarrow> string \<Rightarrow> 'v option)
    \<Rightarrow> 'u \<Rightarrow> 'i \<Rightarrow> string \<Rightarrow> string \<Rightarrow> ('u \<times> 'v option) result" where
  "MultiFileDb_Load user_load inst_load u i key i0 =
     (case user_load u key i0 of
        Inl ex \<Rightarrow> Inl ex
      | Inr (u', Some v) \<Rightarrow> Inr (u', Some v)
      | Inr (u', None) \<Rightarrow> Inr (u', inst_load i key i0))"

text \<open>The text performance database, \<open>MultiFileDb<ReadonlyRamDb, RamDb, true>\<close>, and the
  find-db, \<open>MultiFileDb<ReadonlyRamDb, RamDb, false>\<close>.\<close>

definition PerformanceDb_FindRecord ::
  "env \<Rightarrow> world \<times> ram_db \<Rightarrow> readonly_db \<Rightarrow> string \<Rightarrow> ((world \<times> ram_db) \<times> db_record option) result" where
  "PerformanceDb_FindRecord e =
     MultiFileDb_FindRecord_merge (env_ord e) (RamDb_FindRecord e) ReadonlyRamDb_FindRecord"

definition FindDb_FindRecord ::
  "env \<Rightarrow> world \<times> ram_db \<Rightarrow> readonly_db \<Rightarrow> string \<Rightarrow> ((world \<times> ram_db) \<times> db_record option) result" where
  "FindDb_FindRecord e = MultiFileDb_FindRecord (RamDb_FindRecord e) ReadonlyRamDb_FindRecord"

text \<open>What a client may rely on: two databases, and the merged view.\<close>

locale two_dbs =
  user: read_db uview uinv ufind + inst: read_db iview iinv ifind
  for uview :: "'u \<Rightarrow> string \<rightharpoonup> (string \<rightharpoonup> string)" and uinv and ufind
    and iview :: "'i \<Rightarrow> string \<rightharpoonup> (string \<rightharpoonup> string)" and iinv and ifind +
  fixes throwing :: "'u \<Rightarrow> string \<Rightarrow> ('u \<times> db_record option) result"
  assumes total: "uinv u \<Longrightarrow> throwing u k = Inr (ufind u k)"
begin

lemma merged_find:
  assumes "uinv u" "iinv i" "hash_order ord"
  shows "\<exists>u' found. MultiFileDb_FindRecord_merge ord throwing (\<lambda>i k. snd (ifind i k)) u i k = Inr (u', found)
    \<and> uinv u' \<and> uview u' = uview u
    \<and> map_option rec_lookup found
      = (case (uview u k, iview i k) of
           (Some m, Some n) \<Rightarrow> Some (n ++ m) | (Some m, None) \<Rightarrow> Some m | (None, x) \<Rightarrow> x)"
proof -
  obtain u' users where f: "ufind u k = (u', users)" by fastforce
  note u = user.find_inv [OF assms(1), of k] user.find_frame [OF assms(1), of k]
    user.find_view [OF assms(1), of k] user.find_record [OF assms(1), of k]
  note i = inst.find_view [OF assms(2), of k] inst.find_record [OF assms(2), of k]
  show ?thesis
  proof (cases users)
    case None
    with f u i assms show ?thesis
      by (auto simp: MultiFileDb_FindRecord_merge_def total split: option.splits)
  next
    case (Some usr)
    show ?thesis
    proof (cases "snd (ifind i k)")
      case None
      with f u i Some assms show ?thesis
        by (auto simp: MultiFileDb_FindRecord_merge_def total split: option.splits)
    next
      case ins: (Some ins)
      have "rec_lookup (DbRecord_Merge ord usr ins) = rec_lookup ins ++ rec_lookup usr"
        by (rule rec_lookup_Merge) (use assms(3) u(4) i(2) Some ins f in \<open>auto simp: rec_wf_def\<close>)
      moreover have "uview u k = Some (rec_lookup usr)" "iview i k = Some (rec_lookup ins)"
        using u(3) i(1) f Some ins by simp_all
      ultimately show ?thesis
        using f u Some ins assms by (auto simp: MultiFileDb_FindRecord_merge_def total)
    qed
  qed
qed

lemma first_find:
  assumes "uinv u" "iinv i"
  shows "\<exists>u' found. MultiFileDb_FindRecord throwing (\<lambda>i k. snd (ifind i k)) u i k = Inr (u', found)
    \<and> uinv u' \<and> uview u' = uview u
    \<and> map_option rec_lookup found = (case uview u k of Some m \<Rightarrow> Some m | None \<Rightarrow> iview i k)"
proof -
  obtain u' users where f: "ufind u k = (u', users)" by fastforce
  with user.find_inv [OF assms(1), of k] user.find_frame [OF assms(1), of k]
    user.find_view [OF assms(1), of k] inst.find_view [OF assms(2), of k] assms(1)
  show ?thesis
    by (cases users) (auto simp: MultiFileDb_FindRecord_def total split: option.splits)
qed

end

interpretation find_dbs: two_dbs "\<lambda>s. db_view path (w_fs (fst s))" "ram_inv e path"
  "\<lambda>s k. drop_error s None (RamDb_FindRecord e s k)" ro_view ro_clean
  "\<lambda>db k. (db, ReadonlyRamDb_FindRecord db k)" "RamDb_FindRecord e"
  for path e
proof
  fix u :: "world \<times> ram_db" and k
  assume "ram_inv e path u"
  from ram_find [OF this, of k] show "RamDb_FindRecord e u k = Inr (drop_error u None (RamDb_FindRecord e u k))"
    by (auto simp: drop_error_def)
qed

text \<open>C9: The text performance database's lookup merges the user's record over the installed one: for a key in both
  files each ID has the user's values where the user's record has them and the installed
  values elsewhere; a key in one file has that file's record.  The installed database is the
  contents of its file, and the user's file is not changed.\<close>

theorem PerformanceDb_lookup_merges:
  assumes "ram_inv e upath u" "ipath \<noteq> []" "fs_readable fs ipath \<or> fs_files fs ipath = None"
    and "\<forall>l \<in> set (db_lines fs ipath). proper_line l"
  shows "\<exists>u' found. PerformanceDb_FindRecord e u (ReadonlyRamDb_Prefetch fs \<lparr>ro_path = ipath, ro_cache = []\<rparr>) k
      = Inr (u', found)
    \<and> db_view upath (w_fs (fst u')) = db_view upath (w_fs (fst u))
    \<and> map_option rec_lookup found
      = (case (db_view upath (w_fs (fst u)) k, db_view ipath fs k) of
           (Some m, Some n) \<Rightarrow> Some (n ++ m) | (Some m, None) \<Rightarrow> Some m | (None, x) \<Rightarrow> x)"
  using find_dbs.merged_find [OF assms(1) ro_loaded(2) [OF assms(4,2,3)], of "env_ord e" k]
    ro_loaded(1) [OF assms(4,2,3)] assms(1)
  by (auto simp: ram_inv_def env_ok_def PerformanceDb_FindRecord_def)

theorem PerformanceDb_lookup_merges_witness:
  "let fs = \<lparr>fs_files = [''sys'' \<mapsto> ''m=a:7;b:8'' @ endl], fs_readable = (\<lambda>_. True),
      fs_writable = (\<lambda>_. False)\<rparr> in
   \<exists>u' found. PerformanceDb_FindRecord env0 (world0, new_db ''db'')
        (ReadonlyRamDb_Prefetch fs \<lparr>ro_path = ''sys'', ro_cache = []\<rparr>) ''m'' = Inr (u', found)
     \<and> map_option rec_lookup found = Some [''a'' \<mapsto> ''1'', ''b'' \<mapsto> ''8'']"
proof -
  let ?fs = "\<lparr>fs_files = [''sys'' \<mapsto> ''m=a:7;b:8'' @ endl], fs_readable = (\<lambda>_. True),
      fs_writable = (\<lambda>_. False)\<rparr>"
  have i: "ram_inv env0 ''db'' (world0, new_db ''db'')"
    using concrete_ok sys_inv_init [OF concrete_ok(2)] by (simp add: ram_inv_def sys_inv_def)
  have p: "\<forall>l \<in> set (db_lines ?fs ''sys''). proper_line l"
    by (simp add: db_lines_def getlines.simps proper_line_def parse_ok_def parse_step_def)
  have v: "db_view ''sys'' ?fs ''m'' = Some [''a'' \<mapsto> ''7'', ''b'' \<mapsto> ''8'']"
    "db_view ''db'' (w_fs world0) ''m'' = Some [''a'' \<mapsto> ''1'']"
    by (auto simp: db_view_def lines_view_def db_lines_def line_key_def line_record_def world0_def
        DbRecord_ParseContents_def getlines.simps parse_step_def fun_eq_iff)
  have "[''a'' \<mapsto> ''7'', ''b'' \<mapsto> ''8''] ++ [''a'' \<mapsto> ''1''] = [''a'' \<mapsto> ''1'', ''b'' \<mapsto> ''8'']"
    by (auto simp: fun_eq_iff map_add_def)
  with PerformanceDb_lookup_merges [OF i _ _ p, of "''m''"] v show ?thesis
    by (auto simp: Let_def)
qed

text \<open>The find-db's lookup does not merge: the user's record hides the installed record of
  the same key altogether.\<close>

theorem FindDb_lookup_first:
  assumes "ram_inv e upath u" "ipath \<noteq> []" "fs_readable fs ipath \<or> fs_files fs ipath = None"
    and "\<forall>l \<in> set (db_lines fs ipath). proper_line l"
  shows "\<exists>u' found. FindDb_FindRecord e u (ReadonlyRamDb_Prefetch fs \<lparr>ro_path = ipath, ro_cache = []\<rparr>) k
      = Inr (u', found)
    \<and> ram_inv e upath u' \<and> db_view upath (w_fs (fst u')) = db_view upath (w_fs (fst u))
    \<and> map_option rec_lookup found
      = (case db_view upath (w_fs (fst u)) k of Some m \<Rightarrow> Some m | None \<Rightarrow> db_view ipath fs k)"
  using find_dbs.first_find [OF assms(1) ro_loaded(2) [OF assms(4,2,3)], of k]
  unfolding ro_loaded(1) [OF assms(4,2,3)] FindDb_FindRecord_def by simp

theorem FindDb_lookup_first_witness:
  "let fs = \<lparr>fs_files = [''sys'' \<mapsto> ''m=a:7;b:8'' @ endl], fs_readable = (\<lambda>_. True),
      fs_writable = (\<lambda>_. False)\<rparr> in
   \<exists>u' found. FindDb_FindRecord env0 (world0, new_db ''db'')
        (ReadonlyRamDb_Prefetch fs \<lparr>ro_path = ''sys'', ro_cache = []\<rparr>) ''m'' = Inr (u', found)
     \<and> map_option rec_lookup found = Some [''a'' \<mapsto> ''1'']"
proof -
  let ?fs = "\<lparr>fs_files = [''sys'' \<mapsto> ''m=a:7;b:8'' @ endl], fs_readable = (\<lambda>_. True),
      fs_writable = (\<lambda>_. False)\<rparr>"
  have i: "ram_inv env0 ''db'' (world0, new_db ''db'')"
    using concrete_ok sys_inv_init [OF concrete_ok(2)] by (simp add: ram_inv_def sys_inv_def)
  have p: "\<forall>l \<in> set (db_lines ?fs ''sys''). proper_line l"
    by (simp add: db_lines_def getlines.simps proper_line_def parse_ok_def parse_step_def)
  have v: "db_view ''db'' (w_fs world0) ''m'' = Some [''a'' \<mapsto> ''1'']"
    by (auto simp: db_view_def lines_view_def db_lines_def line_key_def line_record_def world0_def
        DbRecord_ParseContents_def getlines.simps parse_step_def)
  from FindDb_lookup_first [OF i _ _ p, of "''m''"] v show ?thesis
    by (auto simp: Let_def)
qed

end
