(* ===== verification/Lock_File.thy ===== *)
theory Lock_File
  imports Prelude
begin

text \<open>
  \<open>LockFile\<close> (\<open>src/include/miopen/lock_file.hpp\<close>, \<open>src/lock_file.cpp\<close>): the lock of a database
  file, a \<open>std::shared_timed_mutex\<close> among the threads of a process together with a file lock
  among processes.

  The state of a lock object is the mutex and what its process holds of the file lock.  The
  file lock belongs to the process and is not counted, as \<open>boost::interprocess::file_lock\<close>
  and POSIX document it: a second acquisition changes nothing and one release gives it up.
  What the operating system answers is an argument: whether the mutex was obtained in time,
  and the outcome of the file lock operation.  Releasing a mutex in a mode in which it is not
  held is undefined behaviour of C++, the result \<open>None\<close>.
\<close>

datatype mutex = Free | Excl | Shared nat

datatype flock = F_none | F_shared | F_excl

datatype flock_outcome = Acquired | Timed_out | Threw

record lock_file =
  access_mutex :: mutex
  lock_flock :: flock

section \<open>The mutex\<close>

fun mutex_can_lock :: "mutex \<Rightarrow> bool" where
  "mutex_can_lock Free = True"
| "mutex_can_lock _ = False"

fun mutex_can_share :: "mutex \<Rightarrow> bool" where
  "mutex_can_share Excl = False"
| "mutex_can_share _ = True"

fun mutex_share :: "mutex \<Rightarrow> mutex" where
  "mutex_share (Shared n) = Shared (n + 1)"
| "mutex_share _ = Shared 1"

fun mutex_unlock :: "mutex \<Rightarrow> mutex option" where
  "mutex_unlock Excl = Some Free"
| "mutex_unlock _ = None"

fun mutex_unlock_shared :: "mutex \<Rightarrow> mutex option" where
  "mutex_unlock_shared (Shared n) = Some (if n \<le> 1 then Free else Shared (n - 1))"
| "mutex_unlock_shared _ = None"

section \<open>Operations\<close>

text \<open>\<open>LockOperation\<close> logs and rethrows, \<open>TryLockOperation\<close> logs and returns \<open>false\<close>: a lock
  operation either succeeds or throws, a try operation is true iff it acquired.\<close>

definition LockOperation :: "flock_outcome \<Rightarrow> bool result" where
  "LockOperation os = (if os = Acquired then Inr True else throw ''interprocess_exception'')"

definition TryLockOperation :: "flock_outcome \<Rightarrow> bool" where
  "TryLockOperation os = (case os of Acquired \<Rightarrow> True | Timed_out \<Rightarrow> False | Threw \<Rightarrow> False)"

text \<open>The result of an operation: the new state and what it returns or throws.\<close>

type_synonym lock_result = "(lock_file \<times> bool result) option"

definition LockFile_timed_lock :: "flock_outcome \<Rightarrow> lock_file \<Rightarrow> lock_result" where
  "LockFile_timed_lock os l =
     (let l1 = l\<lparr>access_mutex := Excl\<rparr> in
      case os of
        Acquired \<Rightarrow> Some (l1\<lparr>lock_flock := F_excl\<rparr>, Inr True)
      | Timed_out \<Rightarrow> Some (l1, Inr False)
      | Threw \<Rightarrow> Some (l1, throw ''interprocess_exception''))"

definition LockFile_timed_lock_shared :: "flock_outcome \<Rightarrow> lock_file \<Rightarrow> lock_result" where
  "LockFile_timed_lock_shared os l =
     (let l1 = l\<lparr>access_mutex := mutex_share (access_mutex l)\<rparr> in
      case os of
        Acquired \<Rightarrow> Some (l1\<lparr>lock_flock := F_shared\<rparr>, Inr True)
      | Timed_out \<Rightarrow> Some (l1, Inr False)
      | Threw \<Rightarrow> Some (l1, throw ''interprocess_exception''))"

text \<open>\<open>std::lock\<close> takes both or, when one of them throws, none.\<close>

definition LockFile_lock :: "flock_outcome \<Rightarrow> lock_file \<Rightarrow> lock_result" where
  "LockFile_lock os l =
     (case LockOperation os of
        Inr _ \<Rightarrow> Some (l\<lparr>access_mutex := Excl, lock_flock := F_excl\<rparr>, Inr True)
      | Inl ex \<Rightarrow> Some (l, Inl ex))"

text \<open>\<open>lock_shared\<close> catches the exception of the file lock and returns normally.\<close>

definition LockFile_lock_shared :: "flock_outcome \<Rightarrow> lock_file \<Rightarrow> lock_result" where
  "LockFile_lock_shared os l =
     (let l1 = l\<lparr>access_mutex := mutex_share (access_mutex l)\<rparr> in
      case LockOperation os of
        Inr _ \<Rightarrow> Some (l1\<lparr>lock_flock := F_shared\<rparr>, Inr True)
      | Inl ex \<Rightarrow>
          (case mutex_unlock (access_mutex l1) of
             None \<Rightarrow> None
           | Some m \<Rightarrow> Some (l1\<lparr>access_mutex := m\<rparr>, Inr True)))"

text \<open>\<open>std::try_lock(access_mutex, flock)\<close> returns -1 when it has both, and otherwise the index
  of the first that failed, with none of them held; an exception of the file lock releases
  the mutex and ends in \<open>false\<close>.\<close>

definition std_try_lock :: "flock_outcome \<Rightarrow> lock_file \<Rightarrow> lock_file \<times> int" where
  "std_try_lock os l =
     (if \<not> mutex_can_lock (access_mutex l) then (l, 0)
      else if os = Acquired then (l\<lparr>access_mutex := Excl, lock_flock := F_excl\<rparr>, -1)
      else (l, 1))"

definition LockFile_try_lock :: "flock_outcome \<Rightarrow> lock_file \<Rightarrow> lock_result" where
  "LockFile_try_lock os l =
     (if mutex_can_lock (access_mutex l) \<and> os = Threw then Some (l, Inr False)
      else (case std_try_lock os l of (l1, r) \<Rightarrow> Some (l1, Inr (r \<noteq> 0))))"

definition LockFile_try_lock_shared :: "flock_outcome \<Rightarrow> lock_file \<Rightarrow> lock_result" where
  "LockFile_try_lock_shared os l =
     (if \<not> mutex_can_share (access_mutex l) then Some (l, Inr False)
      else
        let l1 = l\<lparr>access_mutex := mutex_share (access_mutex l)\<rparr> in
        if TryLockOperation os then Some (l1\<lparr>lock_flock := F_shared\<rparr>, Inr True)
        else
          (case mutex_unlock (access_mutex l1) of
             None \<Rightarrow> None
           | Some m \<Rightarrow> Some (l1\<lparr>access_mutex := m\<rparr>, Inr False)))"

definition LockFile_unlock :: "flock_outcome \<Rightarrow> lock_file \<Rightarrow> lock_result" where
  "LockFile_unlock os l =
     (case LockOperation os of
        Inl ex \<Rightarrow> Some (l, Inl ex)
      | Inr _ \<Rightarrow>
          (case mutex_unlock (access_mutex l) of
             None \<Rightarrow> None
           | Some m \<Rightarrow> Some (l\<lparr>access_mutex := m, lock_flock := F_none\<rparr>, Inr True)))"

definition LockFile_unlock_shared :: "flock_outcome \<Rightarrow> lock_file \<Rightarrow> lock_result" where
  "LockFile_unlock_shared os l =
     (case LockOperation os of
        Inl ex \<Rightarrow> Some (l, Inl ex)
      | Inr _ \<Rightarrow>
          (case mutex_unlock_shared (access_mutex l) of
             None \<Rightarrow> None
           | Some m \<Rightarrow> Some (l\<lparr>access_mutex := m, lock_flock := F_none\<rparr>, Inr True)))"

text \<open>The timed operations; \<open>got\<close> is whether the mutex was free at some time before the
  deadline.\<close>

definition LockFile_try_lock_for :: "bool \<Rightarrow> flock_outcome \<Rightarrow> lock_file \<Rightarrow> lock_result" where
  "LockFile_try_lock_for got os l =
     (if \<not> (got \<and> mutex_can_lock (access_mutex l)) then Some (l, Inr False)
      else
        let l1 = l\<lparr>access_mutex := Excl\<rparr> in
        if TryLockOperation os then Some (l1\<lparr>lock_flock := F_excl\<rparr>, Inr True)
        else
          (case mutex_unlock (access_mutex l1) of
             None \<Rightarrow> None
           | Some m \<Rightarrow> Some (l1\<lparr>access_mutex := m\<rparr>, Inr False)))"

definition LockFile_try_lock_shared_for :: "bool \<Rightarrow> flock_outcome \<Rightarrow> lock_file \<Rightarrow> lock_result" where
  "LockFile_try_lock_shared_for got os l =
     (if \<not> (got \<and> mutex_can_share (access_mutex l)) then Some (l, Inr False)
      else
        let l1 = l\<lparr>access_mutex := mutex_share (access_mutex l)\<rparr> in
        if TryLockOperation os then Some (l1\<lparr>lock_flock := F_shared\<rparr>, Inr True)
        else
          (case mutex_unlock (access_mutex l1) of
             None \<Rightarrow> None
           | Some m \<Rightarrow> Some (l1\<lparr>access_mutex := m\<rparr>, Inr False)))"

text \<open>\<open>LockFile::Get\<close>: one lock object per path and process; constructing one creates the
  lock file when it does not exist (\<open>can_create\<close>).\<close>

definition LockFile_new :: "bool \<Rightarrow> bool \<Rightarrow> string \<Rightarrow> lock_file result" where
  "LockFile_new exists can_create path =
     (if \<not> exists \<and> \<not> can_create
      then throw (''Error creating file <'' @ path @ ''> for locking.'')
      else Inr \<lparr>access_mutex = Free, lock_flock = F_none\<rparr>)"

definition LockFile_Get ::
  "bool \<Rightarrow> bool \<Rightarrow> (string \<times> lock_file) list \<Rightarrow> string \<Rightarrow> (string \<times> lock_file) list \<times> lock_file result" where
  "LockFile_Get exists can_create lock_files path =
     (case map_of lock_files path of
        Some l \<Rightarrow> (lock_files, Inr l)
      | None \<Rightarrow>
          (case LockFile_new exists can_create path of
             Inl ex \<Rightarrow> (lock_files, Inl ex)
           | Inr l \<Rightarrow> (lock_files @ [(path, l)], Inr l)))"

section \<open>Threads and processes\<close>

text \<open>What a thread of a process may do while it follows the protocol of \<open>std::unique_lock\<close> and
  \<open>std::shared_lock\<close> with a timeout, as the databases use it: try to lock, and unlock what it
  holds.  A file lock can be acquired when no other process holds it in a conflicting mode;
  it may time out or fail at any time.\<close>

type_synonym agent = "nat \<times> nat"

record lock_sys =
  sys_locks :: "nat \<Rightarrow> lock_file"
  sys_excl :: "agent set"
  sys_shared :: "agent set"

definition flock_free :: "(nat \<Rightarrow> lock_file) \<Rightarrow> nat \<Rightarrow> bool" where
  "flock_free locks p \<longleftrightarrow> (\<forall>q. q \<noteq> p \<longrightarrow> lock_flock (locks q) = F_none)"

definition flock_shareable :: "(nat \<Rightarrow> lock_file) \<Rightarrow> nat \<Rightarrow> bool" where
  "flock_shareable locks p \<longleftrightarrow> (\<forall>q. q \<noteq> p \<longrightarrow> lock_flock (locks q) \<noteq> F_excl)"

datatype lock_label = Try_excl nat nat bool | Try_shared nat nat bool | Un_excl nat nat | Un_shared nat nat

inductive lock_step :: "lock_sys \<Rightarrow> lock_label \<Rightarrow> lock_sys \<Rightarrow> bool" where
  try_excl: "LockFile_try_lock_for got os (sys_locks s p) = Some (l, Inr ok) \<Longrightarrow>
     (os = Acquired \<longrightarrow> flock_free (sys_locks s) p) \<Longrightarrow> (p, t) \<notin> sys_excl s \<union> sys_shared s \<Longrightarrow>
     lock_step s (Try_excl p t ok)
       (s\<lparr>sys_locks := (sys_locks s)(p := l),
          sys_excl := (if ok then insert (p, t) (sys_excl s) else sys_excl s)\<rparr>)"
| try_shared: "LockFile_try_lock_shared_for got os (sys_locks s p) = Some (l, Inr ok) \<Longrightarrow>
     (os = Acquired \<longrightarrow> flock_shareable (sys_locks s) p) \<Longrightarrow> (p, t) \<notin> sys_excl s \<union> sys_shared s \<Longrightarrow>
     lock_step s (Try_shared p t ok)
       (s\<lparr>sys_locks := (sys_locks s)(p := l),
          sys_shared := (if ok then insert (p, t) (sys_shared s) else sys_shared s)\<rparr>)"
| un_excl: "LockFile_unlock Acquired (sys_locks s p) = Some (l, Inr ok) \<Longrightarrow> (p, t) \<in> sys_excl s \<Longrightarrow>
     lock_step s (Un_excl p t)
       (s\<lparr>sys_locks := (sys_locks s)(p := l), sys_excl := sys_excl s - {(p, t)}\<rparr>)"
| un_shared: "LockFile_unlock_shared Acquired (sys_locks s p) = Some (l, Inr ok) \<Longrightarrow> (p, t) \<in> sys_shared s \<Longrightarrow>
     lock_step s (Un_shared p t)
       (s\<lparr>sys_locks := (sys_locks s)(p := l), sys_shared := sys_shared s - {(p, t)}\<rparr>)"

inductive_cases lock_stepE: "lock_step s l s'"

inductive lock_run :: "lock_sys \<Rightarrow> lock_label list \<Rightarrow> lock_sys \<Rightarrow> bool" where
  start: "lock_run s [] s"
| step: "lock_run s ls s' \<Longrightarrow> lock_step s' l s'' \<Longrightarrow> lock_run s (ls @ [l]) s''"

definition lock_init :: lock_sys where
  "lock_init = \<lparr>sys_locks = (\<lambda>p. \<lparr>access_mutex = Free, lock_flock = F_none\<rparr>),
     sys_excl = {}, sys_shared = {}\<rparr>"

fun is_shared_label :: "lock_label \<Rightarrow> bool" where
  "is_shared_label (Try_shared _ _ _) = True"
| "is_shared_label (Un_shared _ _) = True"
| "is_shared_label _ = False"

text \<open>With exclusive locks only: a held lock is one agent, its process has the mutex and the
  file lock, and everything else is free.\<close>

definition excl_inv :: "lock_sys \<Rightarrow> bool" where
  "excl_inv s \<longleftrightarrow> sys_shared s = {}
     \<and> (sys_excl s = {} \<and> (\<forall>p. sys_locks s p = \<lparr>access_mutex = Free, lock_flock = F_none\<rparr>)
       \<or> (\<exists>p t. sys_excl s = {(p, t)}
           \<and> sys_locks s p = \<lparr>access_mutex = Excl, lock_flock = F_excl\<rparr>
           \<and> (\<forall>q. q \<noteq> p \<longrightarrow> sys_locks s q = \<lparr>access_mutex = Free, lock_flock = F_none\<rparr>)))"

lemma try_lock_for_cases:
  "LockFile_try_lock_for got os l = Some (l', Inr ok) \<Longrightarrow>
     (if ok then mutex_can_lock (access_mutex l) \<and> os = Acquired
        \<and> l' = l\<lparr>access_mutex := Excl, lock_flock := F_excl\<rparr>
      else l' = l)"
  by (cases os; cases "access_mutex l"; cases l)
    (auto simp: LockFile_try_lock_for_def TryLockOperation_def Let_def split: if_splits)

lemma excl_inv_step:
  assumes "lock_step s l s'" "excl_inv s" "\<not> is_shared_label l"
  shows "excl_inv s'"
  using assms(1)
proof (cases rule: lock_step.cases)
  case (try_excl got os p l' ok t)
  note tl = try_lock_for_cases [OF try_excl(3)]
  show ?thesis
  proof (cases ok)
    case False
    with tl have "s' = s" using try_excl(2) by simp
    with assms(2) show ?thesis by simp
  next
    case True
    with tl have "mutex_can_lock (access_mutex (sys_locks s p))" "flock_free (sys_locks s) p"
      using try_excl(4) by auto
    with assms(2) have "sys_excl s = {}" "sys_shared s = {}"
      "\<forall>p. sys_locks s p = \<lparr>access_mutex = Free, lock_flock = F_none\<rparr>"
      by (auto simp: excl_inv_def flock_free_def) (metis flock.distinct(3) lock_file.select_convs mutex_can_lock.simps(2))+
    with True tl try_excl(2) show ?thesis by (auto simp: excl_inv_def)
  qed
next
  case (un_excl p l' ok t)
  with assms(2) show ?thesis
    by (auto simp: excl_inv_def LockFile_unlock_def LockOperation_def split: option.splits)
qed (use assms(3) in auto)


lemma excl_run: "\<exists>s. lock_run lock_init [Try_excl 1 5 True, Try_excl 2 6 False, Un_excl 1 5, Try_excl 2 6 True] s
    \<and> sys_excl s = {(2, 6)}"
proof -
  let ?f = "\<lparr>access_mutex = Free, lock_flock = F_none\<rparr>" and ?e = "\<lparr>access_mutex = Excl, lock_flock = F_excl\<rparr>"
  have s1: "lock_step lock_init (Try_excl 1 5 True) \<lparr>sys_locks = (\<lambda>p. ?f)(1 := ?e), sys_excl = {(1, 5)}, sys_shared = {}\<rparr>"
    using lock_step.try_excl [of True Acquired lock_init 1 ?e True 5]
    by (simp add: lock_init_def LockFile_try_lock_for_def TryLockOperation_def flock_free_def)
  have s2: "lock_step \<lparr>sys_locks = (\<lambda>p. ?f)(1 := ?e), sys_excl = {(1, 5)}, sys_shared = {}\<rparr> (Try_excl 2 6 False)
      \<lparr>sys_locks = (\<lambda>p. ?f)(1 := ?e), sys_excl = {(1, 5)}, sys_shared = {}\<rparr>"
    using lock_step.try_excl [of True Timed_out "\<lparr>sys_locks = (\<lambda>p. ?f)(1 := ?e), sys_excl = {(1, 5)}, sys_shared = {}\<rparr>" 2 ?f False 6]
    by (simp add: LockFile_try_lock_for_def TryLockOperation_def fun_upd_idem)
  have s3: "lock_step \<lparr>sys_locks = (\<lambda>p. ?f)(1 := ?e), sys_excl = {(1, 5)}, sys_shared = {}\<rparr> (Un_excl 1 5)
      \<lparr>sys_locks = (\<lambda>p. ?f), sys_excl = {}, sys_shared = {}\<rparr>"
    using lock_step.un_excl [of "\<lparr>sys_locks = (\<lambda>p. ?f)(1 := ?e), sys_excl = {(1, 5)}, sys_shared = {}\<rparr>" 1 ?f True 5]
    by (simp add: LockFile_unlock_def LockOperation_def fun_upd_idem)
  have s4: "lock_step \<lparr>sys_locks = (\<lambda>p. ?f), sys_excl = {}, sys_shared = {}\<rparr> (Try_excl 2 6 True)
      \<lparr>sys_locks = (\<lambda>p. ?f)(2 := ?e), sys_excl = {(2, 6)}, sys_shared = {}\<rparr>"
    using lock_step.try_excl [of True Acquired "\<lparr>sys_locks = (\<lambda>p. ?f), sys_excl = {}, sys_shared = {}\<rparr>" 2 ?e True 6]
    by (simp add: LockFile_try_lock_for_def TryLockOperation_def flock_free_def)
  from lock_run.step [OF lock_run.step [OF lock_run.step [OF lock_run.step [OF lock_run.start s1] s2] s3] s4]
  show ?thesis by force
qed


text \<open>With readers as well.  The mutex of a process counts its holders; the file lock of a process with readers may
  be lost, and then another reader of the process has released it.\<close>

definition held_by :: "agent set \<Rightarrow> nat \<Rightarrow> nat set" where
  "held_by X p = {t. (p, t) \<in> X}"

definition process_inv :: "lock_label list \<Rightarrow> nat \<Rightarrow> lock_file \<Rightarrow> nat set \<Rightarrow> nat set \<Rightarrow> bool" where
  "process_inv ls p l E S =
     (case access_mutex l of
        Free \<Rightarrow> E = {} \<and> S = {} \<and> lock_flock l = F_none
      | Excl \<Rightarrow> (\<exists>t. E = {t}) \<and> S = {} \<and> lock_flock l = F_excl
      | Shared n \<Rightarrow> E = {} \<and> finite S \<and> card S = n \<and> 0 < n \<and> lock_flock l \<noteq> F_excl
          \<and> (lock_flock l = F_none \<longrightarrow> (\<forall>u \<in> S. \<exists>u'. u' \<noteq> u \<and> Un_shared p u' \<in> set ls)))"

definition readers_inv :: "lock_label list \<Rightarrow> lock_sys \<Rightarrow> bool" where
  "readers_inv ls s \<longleftrightarrow>
     (\<forall>p. process_inv ls p (sys_locks s p) (held_by (sys_excl s) p) (held_by (sys_shared s) p))
     \<and> (\<forall>p. lock_flock (sys_locks s p) = F_excl \<longrightarrow> flock_free (sys_locks s) p)"

lemma held_by_simps [simp]:
  "held_by {} p = {}"
  "held_by (insert (q, t) X) p = (if p = q then insert t (held_by X p) else held_by X p)"
  "held_by (X - {(q, t)}) p = (if p = q then held_by X p - {t} else held_by X p)"
  by (auto simp: held_by_def)

lemma process_inv_mono: "process_inv ls p l E S \<Longrightarrow> process_inv (ls @ [x]) p l E S"
  by (auto simp: process_inv_def split: mutex.splits)

lemma try_lock_shared_for_cases:
  "LockFile_try_lock_shared_for got os l = Some (l', Inr ok) \<Longrightarrow>
     (if ok then mutex_can_share (access_mutex l) \<and> os = Acquired
        \<and> l' = l\<lparr>access_mutex := mutex_share (access_mutex l), lock_flock := F_shared\<rparr>
      else l' = l)"
  by (cases os; cases "access_mutex l"; cases l)
    (auto simp: LockFile_try_lock_shared_for_def TryLockOperation_def Let_def split: if_splits)

lemma unlock_cases:
  "LockFile_unlock Acquired l = Some (l', Inr ok) \<Longrightarrow>
     access_mutex l = Excl \<and> l' = l\<lparr>access_mutex := Free, lock_flock := F_none\<rparr>"
  by (cases "access_mutex l") (auto simp: LockFile_unlock_def LockOperation_def)

lemma unlock_shared_cases:
  "LockFile_unlock_shared Acquired l = Some (l', Inr ok) \<Longrightarrow>
     \<exists>n. access_mutex l = Shared n
       \<and> l' = l\<lparr>access_mutex := (if n \<le> 1 then Free else Shared (n - 1)), lock_flock := F_none\<rparr>"
  by (cases "access_mutex l") (auto simp: LockFile_unlock_shared_def LockOperation_def)

lemma process_inv_share:
  assumes "process_inv ls p l E S" "mutex_can_share (access_mutex l)" "t \<notin> S"
  shows "process_inv ls' p (l\<lparr>access_mutex := mutex_share (access_mutex l), lock_flock := F_shared\<rparr>) E (insert t S)"
  using assms by (cases "access_mutex l") (auto simp: process_inv_def)

lemma process_inv_unshare:
  assumes "process_inv ls p l E S" "access_mutex l = Shared n" "t \<in> S"
  shows "process_inv (ls @ [Un_shared p t]) p
    (l\<lparr>access_mutex := (if n \<le> 1 then Free else Shared (n - 1)), lock_flock := F_none\<rparr>) E (S - {t})"
proof -
  have "E = {}" "finite S" "card S = n" using assms by (auto simp: process_inv_def)
  moreover from this have "card (S - {t}) = n - 1" using assms(3) by simp
  moreover from calculation have "n \<le> 1 \<Longrightarrow> S - {t} = {}" using assms(3) by (metis card_0_eq diff_is_0_eq finite_Diff)
  moreover have "\<forall>u \<in> S - {t}. \<exists>u'. u' \<noteq> u \<and> Un_shared p u' \<in> set (ls @ [Un_shared p t])"
    by (intro ballI exI [of _ t]) auto
  ultimately show ?thesis by (cases "n \<le> 1") (simp_all add: process_inv_def del: set_append)
qed

lemma readers_inv_update:
  assumes "readers_inv ls s"
    and "process_inv (ls @ [x]) p l (held_by E p) (held_by S p)"
    and "\<And>q. q \<noteq> p \<Longrightarrow> held_by E q = held_by (sys_excl s) q \<and> held_by S q = held_by (sys_shared s) q"
    and "\<And>q. q \<noteq> p \<Longrightarrow> lock_flock l \<noteq> F_none \<Longrightarrow> lock_flock (sys_locks s q) \<noteq> F_excl"
    and "lock_flock l = F_excl \<Longrightarrow> flock_free (sys_locks s) p"
  shows "readers_inv (ls @ [x]) (s\<lparr>sys_locks := (sys_locks s)(p := l), sys_excl := E, sys_shared := S\<rparr>)"
  using assms by (auto simp: readers_inv_def flock_free_def intro: process_inv_mono) metis

lemma readers_inv_step:
  assumes "lock_step s x s'" "readers_inv ls s"
  shows "readers_inv (ls @ [x]) s'"
  using assms(1)
proof (cases rule: lock_step.cases)
  case (try_excl got os p l ok t)
  let ?l = "sys_locks s p"
  have P: "process_inv ls p ?l (held_by (sys_excl s) p) (held_by (sys_shared s) p)"
    using assms(2) by (simp add: readers_inv_def)
  note tl = try_lock_for_cases [OF try_excl(3)]
  show ?thesis
  proof (cases ok)
    case False
    with tl try_excl(2) have "s' = s" by simp
    with assms(2) show ?thesis by (auto simp: readers_inv_def intro: process_inv_mono)
  next
    case True
    with tl try_excl(4) have l: "mutex_can_lock (access_mutex ?l)" "l = ?l\<lparr>access_mutex := Excl, lock_flock := F_excl\<rparr>"
      and free: "flock_free (sys_locks s) p" by auto
    from l(1) P have "held_by (sys_excl s) p = {}" "held_by (sys_shared s) p = {}"
      by (cases "access_mutex ?l"; auto simp: process_inv_def)+
    with l have "process_inv (ls @ [x]) p l (held_by (insert (p, t) (sys_excl s)) p) (held_by (sys_shared s) p)"
      by (simp add: process_inv_def)
    from readers_inv_update [OF assms(2) this] True free try_excl(2) show ?thesis
      by (auto simp: flock_free_def)
  qed
next
  case (try_shared got os p l ok t)
  let ?l = "sys_locks s p"
  have P: "process_inv ls p ?l (held_by (sys_excl s) p) (held_by (sys_shared s) p)"
    using assms(2) by (simp add: readers_inv_def)
  note tl = try_lock_shared_for_cases [OF try_shared(3)]
  show ?thesis
  proof (cases ok)
    case False
    with tl try_shared(2) have "s' = s" by simp
    with assms(2) show ?thesis by (auto simp: readers_inv_def intro: process_inv_mono)
  next
    case True
    with tl try_shared(4) have l: "mutex_can_share (access_mutex ?l)"
        "l = ?l\<lparr>access_mutex := mutex_share (access_mutex ?l), lock_flock := F_shared\<rparr>"
      and free: "flock_shareable (sys_locks s) p" by auto
    have "t \<notin> held_by (sys_shared s) p" using try_shared(5) by (auto simp: held_by_def)
    from process_inv_share [OF P l(1) this]
    have "process_inv (ls @ [x]) p l (held_by (sys_excl s) p) (held_by (insert (p, t) (sys_shared s)) p)"
      by (simp add: l(2))
    from readers_inv_update [OF assms(2) this] True l(2) free try_shared(2) show ?thesis
      by (auto simp: flock_shareable_def)
  qed
next
  case (un_excl p l ok t)
  let ?l = "sys_locks s p"
  have P: "process_inv ls p ?l (held_by (sys_excl s) p) (held_by (sys_shared s) p)"
    using assms(2) by (simp add: readers_inv_def)
  have l: "access_mutex ?l = Excl" "l = ?l\<lparr>access_mutex := Free, lock_flock := F_none\<rparr>"
    using unlock_cases [OF un_excl(3)] by blast+
  have "t \<in> held_by (sys_excl s) p" using un_excl(4) by (simp add: held_by_def)
  with P l have "process_inv (ls @ [x]) p l (held_by (sys_excl s - {(p, t)}) p) (held_by (sys_shared s) p)"
    by (auto simp: process_inv_def)
  from readers_inv_update [OF assms(2) this] l(2) un_excl(2) show ?thesis by simp
next
  case (un_shared p l ok t)
  let ?l = "sys_locks s p"
  have P: "process_inv ls p ?l (held_by (sys_excl s) p) (held_by (sys_shared s) p)"
    using assms(2) by (simp add: readers_inv_def)
  obtain n where l: "access_mutex ?l = Shared n"
      "l = ?l\<lparr>access_mutex := (if n \<le> 1 then Free else Shared (n - 1)), lock_flock := F_none\<rparr>"
    using unlock_shared_cases [OF un_shared(3)] by blast
  have "t \<in> held_by (sys_shared s) p" using un_shared(4) by (simp add: held_by_def)
  from process_inv_unshare [OF P l(1) this]
  have "process_inv (ls @ [x]) p l (held_by (sys_excl s) p) (held_by (sys_shared s - {(p, t)}) p)"
    by (simp add: l(2) un_shared(1))
  from readers_inv_update [OF assms(2) this] l(2) un_shared(2) show ?thesis by simp
qed

lemma readers_inv_run: "lock_run s0 ls s \<Longrightarrow> s0 = lock_init \<Longrightarrow> readers_inv ls s"
proof (induction rule: lock_run.induct)
  case (start s)
  then show ?case by (simp add: readers_inv_def lock_init_def process_inv_def)
next
  case (step s ls s' l s'')
  then show ?case using readers_inv_step by blast
qed

text \<open>C14: Readers and writers. In every run of any number of threads and processes that lock and unlock in both
  modes, the agent that has the lock exclusively is the only one, no thread of its process has it shared, and its
  process is the only one with the file lock. A thread of another process can have it shared at that time only
  when another thread of that process has given up a shared lock before, since that releases the file lock of its
  whole process; so there is none when each process reads from one thread.\<close>

theorem LockFile_readers_writers:
  assumes "lock_run lock_init ls s" "(p, t) \<in> sys_excl s"
  shows "sys_excl s = {(p, t)} \<and> lock_flock (sys_locks s p) = F_excl \<and> flock_free (sys_locks s) p
    \<and> (\<forall>q u. (q, u) \<in> sys_shared s \<longrightarrow> q \<noteq> p \<and> (\<exists>u'. u' \<noteq> u \<and> Un_shared q u' \<in> set ls))"
proof -
  have inv: "process_inv ls q (sys_locks s q) (held_by (sys_excl s) q) (held_by (sys_shared s) q)"
      "lock_flock (sys_locks s q) = F_excl \<Longrightarrow> flock_free (sys_locks s) q" for q
    using readers_inv_run [OF assms(1)] by (auto simp: readers_inv_def)
  have held: "access_mutex (sys_locks s q) = Excl \<and> lock_flock (sys_locks s q) = F_excl
      \<and> held_by (sys_excl s) q = {u} \<and> held_by (sys_shared s) q = {}" if "(q, u) \<in> sys_excl s" for q u
  proof -
    have "u \<in> held_by (sys_excl s) q" using that by (simp add: held_by_def)
    with inv(1) [of q] show ?thesis by (auto simp: process_inv_def split: mutex.splits)
  qed
  have p: "lock_flock (sys_locks s p) = F_excl" "held_by (sys_shared s) p = {}" "held_by (sys_excl s) p = {t}"
    using held [OF assms(2)] by blast+
  note free = inv(2) [OF p(1)]
  have only: "q = p \<and> u = t" if "(q, u) \<in> sys_excl s" for q u
    using held [OF that] free p(3) that by (auto simp: flock_free_def held_by_def)
  have readers: "q \<noteq> p \<and> (\<exists>u'. u' \<noteq> u \<and> Un_shared q u' \<in> set ls)" if u: "(q, u) \<in> sys_shared s" for q u
  proof -
    from u p(2) have q: "q \<noteq> p" by (auto simp: held_by_def)
    with free have "lock_flock (sys_locks s q) = F_none" by (simp add: flock_free_def)
    moreover have "u \<in> held_by (sys_shared s) q" using u by (simp add: held_by_def)
    ultimately have "\<exists>u'. u' \<noteq> u \<and> Un_shared q u' \<in> set ls"
      using inv(1) [of q] unfolding process_inv_def by (cases "access_mutex (sys_locks s q)") auto
    with q show ?thesis by blast
  qed
  have "x = (p, t)" if "x \<in> sys_excl s" for x
    using only [of "fst x" "snd x"] that by (cases x) simp
  with assms(2) have "sys_excl s = {(p, t)}" by blast
  with p(1) free readers show ?thesis by blast
qed

text \<open>The overlap does happen: with two readers in a process, one of them unlocks and a thread of any other process
  then gets the lock exclusively while the other reader still has it, after every run that leaves the other processes idle.\<close>

lemma LockFile_reader_writer_overlap:
  assumes "lock_run lock_init ls s" "(p, t) \<in> sys_shared s" "(p, u) \<in> sys_shared s" "t \<noteq> u" "q \<noteq> p"
    and "\<forall>r. r \<noteq> p \<longrightarrow> sys_locks s r = \<lparr>access_mutex = Free, lock_flock = F_none\<rparr>"
  shows "\<exists>s'. lock_run lock_init (ls @ [Un_shared p t, Try_excl q v True]) s'
    \<and> (p, u) \<in> sys_shared s' \<and> (q, v) \<in> sys_excl s'"
proof -
  let ?l = "sys_locks s p" and ?e = "\<lparr>access_mutex = Excl, lock_flock = F_excl\<rparr>"
  have inv: "process_inv ls r (sys_locks s r) (held_by (sys_excl s) r) (held_by (sys_shared s) r)" for r
    using readers_inv_run [OF assms(1)] by (simp add: readers_inv_def)
  from inv [of p] assms(2) obtain n where n: "access_mutex ?l = Shared n"
    by (auto simp: process_inv_def held_by_def split: mutex.splits)
  let ?m = "if n \<le> 1 then Free else Shared (n - 1)"
  let ?s1 = "s\<lparr>sys_locks := (sys_locks s)(p := ?l\<lparr>access_mutex := ?m, lock_flock := F_none\<rparr>),
    sys_shared := sys_shared s - {(p, t)}\<rparr>"
  have s1: "lock_step s (Un_shared p t) ?s1"
    using assms(2) n by (intro lock_step.un_shared) (simp_all add: LockFile_unlock_shared_def LockOperation_def)
  have nobody: "(q, v) \<notin> sys_excl s \<union> sys_shared s"
    using inv [of q] assms(5,6) by (auto simp: process_inv_def held_by_def)
  have "lock_step ?s1 (Try_excl q v True)
      (?s1\<lparr>sys_locks := (sys_locks ?s1)(q := ?e), sys_excl := insert (q, v) (sys_excl ?s1)\<rparr>)"
    using lock_step.try_excl [of True Acquired ?s1 q ?e True v] assms(5,6) nobody
    by (simp add: LockFile_try_lock_for_def TryLockOperation_def flock_free_def)
  with lock_run.step [OF lock_run.step [OF assms(1) s1]] assms(3,4) show ?thesis by force
qed

lemma two_readers: "\<exists>s. lock_run lock_init [Try_shared 1 5 True, Try_shared 1 6 True] s \<and> sys_shared s = {(1, 6), (1, 5)}
    \<and> (\<forall>r. r \<noteq> 1 \<longrightarrow> sys_locks s r = \<lparr>access_mutex = Free, lock_flock = F_none\<rparr>)"
proof -
  let ?f = "\<lparr>access_mutex = Free, lock_flock = F_none\<rparr>"
  let ?s = "\<lambda>m fl X. \<lparr>sys_locks = (\<lambda>p. ?f)(1 := \<lparr>access_mutex = m, lock_flock = fl\<rparr>), sys_excl = {}, sys_shared = X\<rparr>"
  have s1: "lock_step lock_init (Try_shared 1 5 True) (?s (Shared 1) F_shared {(1, 5)})"
    using lock_step.try_shared [of True Acquired lock_init 1 "\<lparr>access_mutex = Shared 1, lock_flock = F_shared\<rparr>" True 5]
    by (simp add: lock_init_def LockFile_try_lock_shared_for_def TryLockOperation_def flock_shareable_def)
  have s2: "lock_step (?s (Shared 1) F_shared {(1, 5)}) (Try_shared 1 6 True) (?s (Shared 2) F_shared {(1, 6), (1, 5)})"
    using lock_step.try_shared [of True Acquired "?s (Shared 1) F_shared {(1, 5)}" 1
        "\<lparr>access_mutex = Shared 2, lock_flock = F_shared\<rparr>" True 6]
    by (simp add: LockFile_try_lock_shared_for_def TryLockOperation_def flock_shareable_def)
  from lock_run.step [OF lock_run.step [OF lock_run.start s1] s2] show ?thesis by force
qed

theorem LockFile_readers_writers_witness:
  "\<exists>s. lock_run lock_init [Try_shared 1 5 True, Try_shared 1 6 True, Un_shared 1 5, Try_excl 2 7 True] s
    \<and> (1, 6) \<in> sys_shared s \<and> sys_excl s = {(2, 7)} \<and> flock_free (sys_locks s) 2"
proof -
  obtain s where "lock_run lock_init [Try_shared 1 5 True, Try_shared 1 6 True] s" "sys_shared s = {(1, 6), (1, 5)}"
    "\<forall>r. r \<noteq> 1 \<longrightarrow> sys_locks s r = \<lparr>access_mutex = Free, lock_flock = F_none\<rparr>" using two_readers by blast
  with LockFile_reader_writer_overlap [of "[Try_shared 1 5 True, Try_shared 1 6 True]" s 1 5 6 2 7]
  obtain s' where s': "lock_run lock_init [Try_shared 1 5 True, Try_shared 1 6 True, Un_shared 1 5, Try_excl 2 7 True] s'"
    "(1, 6) \<in> sys_shared s'" "(2, 7) \<in> sys_excl s'" by auto
  with LockFile_readers_writers [OF s'(1,3)] show ?thesis by blast
qed

text \<open>Failed attempts.  When the file lock is not obtained: \<open>try_lock\<close> reports success while
  it holds nothing (it tests \<open>std::try_lock(...) != 0\<close>), \<open>try_lock_for\<close> gives the mutex back and
  reports failure, the shared attempts release a mutex held in shared mode as if it were held
  exclusively, which is undefined, and \<open>timed_lock\<close> returns \<open>false\<close> with the mutex still
  locked.\<close>

theorem LockFile_failed_attempts:
  assumes "access_mutex l = Free"
  shows "LockFile_try_lock Timed_out l = Some (l, Inr True)
    \<and> LockFile_try_lock_for True Timed_out l = Some (l, Inr False)
    \<and> LockFile_try_lock_shared_for True Timed_out l = None
    \<and> LockFile_try_lock_shared Timed_out l = None
    \<and> LockFile_lock_shared Threw l = None
    \<and> LockFile_timed_lock Timed_out l = Some (l\<lparr>access_mutex := Excl\<rparr>, Inr False)"
  using assms
  by (cases l; simp add: LockFile_try_lock_def std_try_lock_def LockFile_try_lock_for_def TryLockOperation_def
      LockFile_try_lock_shared_for_def LockFile_try_lock_shared_def LockFile_timed_lock_def
      LockFile_lock_shared_def LockOperation_def)

theorem LockFile_failed_attempts_witness:
  "LockFile_try_lock Timed_out \<lparr>access_mutex = Free, lock_flock = F_none\<rparr>
     = Some (\<lparr>access_mutex = Free, lock_flock = F_none\<rparr>, Inr True)"
  using LockFile_failed_attempts [of "\<lparr>access_mutex = Free, lock_flock = F_none\<rparr>"] by simp

end
