(* ===== verification/Tensor.thy ===== *)
theory Tensor
  imports Prelude "HOL-Library.Product_Lexorder"
begin

text \<open>
  \<open>TensorDescriptor\<close> (\<open>src/include/miopen/tensor.hpp\<close>, \<open>src/tensor.cpp\<close>) and
  \<open>tensor_layout_to_strides\<close> (\<open>src/include/miopen/tensor_layout.hpp\<close>).  \<open>std::size_t\<close> is a
  64-bit word and \<open>int\<close> a 32-bit word where it takes part in the arithmetic, so every
  product and sum wraps as in the code.
\<close>

type_synonym size_t = "64 word"

datatype data_type =
    miopenHalf | miopenFloat | miopenInt32 | miopenInt8 | miopenInt8x4 | miopenBFloat16 | miopenDouble

datatype tensor_layout =
    miopenTensorNCHW | miopenTensorNHWC | miopenTensorCHWN
  | miopenTensorNCHWc4 | miopenTensorNCHWc8 | miopenTensorCHWNc4 | miopenTensorCHWNc8
  | miopenTensorNCDHW | miopenTensorNDHWC

record tensor =
  t_lens :: "size_t list"
  t_strides :: "size_t list"
  t_packed :: bool
  t_vector_length :: size_t
  t_type :: data_type
  t_layout :: tensor_layout

section \<open>Operations\<close>

definition GetTypeSize :: "data_type \<Rightarrow> size_t" where
  "GetTypeSize d = (case d of
      miopenInt32 \<Rightarrow> 4 | miopenFloat \<Rightarrow> 4 | miopenHalf \<Rightarrow> 2 | miopenBFloat16 \<Rightarrow> 2
    | miopenInt8x4 \<Rightarrow> 1 | miopenInt8 \<Rightarrow> 1 | miopenDouble \<Rightarrow> 8)"

definition integer_division_ceil :: "int \<Rightarrow> int \<Rightarrow> int result" where
  "integer_division_ceil tx ty =
     (if ty < 1 then throw ''integer_division_ceil: y < 1''
      else Inr (cdiv (tx + ty - 1) ty))"

definition CalculateVectorLength :: "tensor \<Rightarrow> tensor" where
  "CalculateVectorLength t = t\<lparr>t_vector_length :=
     (if t_layout t = miopenTensorCHWNc8 \<or> t_layout t = miopenTensorNCHWc8 then 8
      else if t_layout t = miopenTensorCHWNc4 \<or> t_layout t = miopenTensorNCHWc4 then 4
      else 1)\<rparr>"

text \<open>\<open>std::partial_sum\<close> with multiplication, after its first element.\<close>

fun partial_products :: "size_t \<Rightarrow> size_t list \<Rightarrow> size_t list" where
  "partial_products acc [] = []"
| "partial_products acc (x # xs) = (acc * x) # partial_products (acc * x) xs"

definition partial_sum_multiplies :: "size_t list \<Rightarrow> size_t list" where
  "partial_sum_multiplies xs = (case xs of [] \<Rightarrow> [] | x # ys \<Rightarrow> x # partial_products x ys)"

definition CalculateStrides :: "tensor \<Rightarrow> tensor" where
  "CalculateStrides t =
     (if t_lens t = [] then t\<lparr>t_strides := []\<rparr>
      else
        let v = t_vector_length t;
            ls = (if t_layout t = miopenTensorNCHWc4 \<or> t_layout t = miopenTensorNCHWc8
                  then (t_lens t)[1 := (t_lens t ! 1) div v]
                  else if t_layout t = miopenTensorCHWNc4 \<or> t_layout t = miopenTensorCHWNc8
                  then (t_lens t)[0 := (t_lens t ! 0) div v]
                  else t_lens t);
            strides = rev (v # partial_sum_multiplies (butlast (rev ls)))
        in t\<lparr>t_lens := ls, t_strides := map (\<lambda>s. s * v) (butlast strides) @ [last strides]\<rparr>)"

definition IsVectorized :: "tensor \<Rightarrow> bool" where
  "IsVectorized t \<longleftrightarrow> t_vector_length t > 1"

definition GetElementSize :: "tensor \<Rightarrow> size_t" where
  "GetElementSize t = foldl (*) (t_vector_length t) (t_lens t)"

definition inner_product :: "size_t list \<Rightarrow> size_t list \<Rightarrow> size_t \<Rightarrow> size_t" where
  "inner_product xs ys init = foldl (\<lambda>acc (x, y). acc + x * y) init (zip xs ys)"

definition GetElementSpace :: "tensor \<Rightarrow> size_t" where
  "GetElementSpace t =
     inner_product (map (\<lambda>l. l - 1) (t_lens t)) (t_strides t) 0 + t_vector_length t"

definition GetNumBytes :: "tensor \<Rightarrow> size_t" where
  "GetNumBytes t =
     (let typesize = (case t_type t of
          miopenInt8x4 \<Rightarrow> 1 | miopenInt8 \<Rightarrow> 1 | miopenBFloat16 \<Rightarrow> 2 | miopenHalf \<Rightarrow> 2
        | miopenInt32 \<Rightarrow> 4 | miopenFloat \<Rightarrow> 4 | miopenDouble \<Rightarrow> 8)
      in typesize * GetElementSpace t)"

definition GetLayout_str :: "tensor \<Rightarrow> string" where
  "GetLayout_str t = (case t_layout t of
      miopenTensorNCHW \<Rightarrow> ''NCHW'' | miopenTensorNHWC \<Rightarrow> ''NHWC''
    | miopenTensorNCHWc4 \<Rightarrow> ''NCHWc'' | miopenTensorNCHWc8 \<Rightarrow> ''NCHWc''
    | miopenTensorCHWN \<Rightarrow> ''CHWN''
    | miopenTensorCHWNc4 \<Rightarrow> ''CHWNc'' | miopenTensorCHWNc8 \<Rightarrow> ''CHWNc''
    | miopenTensorNCDHW \<Rightarrow> ''NCDHW'' | miopenTensorNDHWC \<Rightarrow> ''NDHWC'')"

text \<open>The index list holds \<open>int\<close>s, converted to \<open>std::size_t\<close> in the products.\<close>

definition GetIndex :: "tensor \<Rightarrow> int list \<Rightarrow> size_t" where
  "GetIndex t l =
     (if GetLayout_str t = ''CHWNc'' then
        let l_chwn = [l ! 0, l ! 2, l ! 3, l ! 4, l ! 1]
        in inner_product (map of_int (tl l_chwn)) (t_strides t) (of_int (hd l_chwn))
      else if \<not> IsVectorized t then inner_product (map of_int l) (t_strides t) 0
      else inner_product (map of_int (tl l)) (t_strides t) (of_int (hd l)))"

text \<open>The constructors: from lengths, from lengths and strides, and from C arrays of \<open>int\<close>.\<close>

definition TensorDescriptor_lens :: "data_type \<Rightarrow> tensor_layout \<Rightarrow> size_t list \<Rightarrow> tensor" where
  "TensorDescriptor_lens ty playout plens =
     CalculateStrides (CalculateVectorLength
       \<lparr>t_lens = plens, t_strides = [], t_packed = True, t_vector_length = 1, t_type = ty,
        t_layout = playout\<rparr>)"

definition TensorDescriptor_strides ::
  "data_type \<Rightarrow> tensor_layout \<Rightarrow> size_t list \<Rightarrow> size_t list \<Rightarrow> tensor" where
  "TensorDescriptor_strides ty playout lens_in strides_in =
     (let t = CalculateVectorLength
       \<lparr>t_lens = lens_in, t_strides = strides_in, t_packed = False, t_vector_length = 1, t_type = ty,
        t_layout = playout\<rparr>
      in t\<lparr>t_packed := (GetElementSize t = GetElementSpace t)\<rparr>)"

definition TensorDescriptor_ints :: "data_type \<Rightarrow> tensor_layout \<Rightarrow> int list \<Rightarrow> tensor result" where
  "TensorDescriptor_ints ty playout plens =
     (if \<not> list_all (\<lambda>x. x \<ge> 0) plens
      then throw ''Invalid length. Length must be greater than 0.''
      else Inr (TensorDescriptor_lens ty playout (map of_int plens)))"

definition TensorDescriptor_int_strides :: "data_type \<Rightarrow> int list \<Rightarrow> int list \<Rightarrow> tensor result" where
  "TensorDescriptor_int_strides ty plens pstrides =
     (if \<not> list_all (\<lambda>x. x \<ge> 0) plens
      then throw ''Invalid length. Length must be greater than 0.''
      else if \<not> list_all (\<lambda>x. x \<ge> 0) pstrides
      then throw ''Invalid strides. Strides must be greater than 0.''
      else Inr (TensorDescriptor_strides ty miopenTensorNCHW (map of_int plens) (map of_int pstrides)))"

definition tensor_eq :: "tensor \<Rightarrow> tensor \<Rightarrow> bool" where
  "tensor_eq t rhs \<longleftrightarrow> t_type t = t_type rhs \<and> t_lens t = t_lens rhs \<and> t_strides t = t_strides rhs"

text \<open>\<open>std::vector\<close> compares lexicographically.\<close>

fun vec_less :: "size_t list \<Rightarrow> size_t list \<Rightarrow> bool" where
  "vec_less [] [] = False"
| "vec_less [] (y # ys) = True"
| "vec_less (x # xs) [] = False"
| "vec_less (x # xs) (y # ys) = (x < y \<or> (\<not> y < x \<and> vec_less xs ys))"

definition tensor_less :: "tensor \<Rightarrow> tensor \<Rightarrow> bool" where
  "tensor_less t rhs \<longleftrightarrow> vec_less (t_lens t) (t_lens rhs)
     \<or> (\<not> vec_less (t_lens rhs) (t_lens t) \<and> vec_less (t_strides t) (t_strides rhs))"

text \<open>\<open>tensor_layout_to_strides\<close>: the accumulator of \<open>std::accumulate\<close> has the type of its
  initial value, \<open>int\<close>; each product is computed in \<open>std::size_t\<close> and truncated.\<close>

definition dim_to_len :: "string \<Rightarrow> size_t list \<Rightarrow> char \<Rightarrow> size_t" where
  "dim_to_len len_layout len c = (case map_of (zip len_layout len) c of None \<Rightarrow> 0 | Some l \<Rightarrow> l)"

definition accumulate_int :: "(char \<Rightarrow> size_t) \<Rightarrow> 32 word \<Rightarrow> string \<Rightarrow> 32 word" where
  "accumulate_int dims init cs =
     foldl (\<lambda>acc c. ucast ((scast acc :: size_t) * dims c)) init cs"

definition stride_of :: "string \<Rightarrow> (char \<Rightarrow> size_t) \<Rightarrow> 32 word \<Rightarrow> char \<Rightarrow> size_t result" where
  "stride_of layout dims init c =
     (case find_char c layout of
        None \<Rightarrow> throw (''mismatched layout string - '' @ layout)
      | Some pos \<Rightarrow> Inr (scast (accumulate_int dims init (drop (pos + 1) layout))))"

fun map_result :: "('a \<Rightarrow> 'b result) \<Rightarrow> 'a list \<Rightarrow> 'b list result" where
  "map_result f [] = Inr []"
| "map_result f (x # xs) =
     (case f x of Inl ex \<Rightarrow> Inl ex
      | Inr y \<Rightarrow> (case map_result f xs of Inl ex \<Rightarrow> Inl ex | Inr ys \<Rightarrow> Inr (y # ys)))"

definition tensor_layout_to_strides :: "size_t list \<Rightarrow> string \<Rightarrow> string \<Rightarrow> size_t list result" where
  "tensor_layout_to_strides len len_layout layout =
     map_result (stride_of layout (dim_to_len len_layout len) 1) len_layout"

definition tensor_layout_to_strides_vector ::
  "size_t list \<Rightarrow> string \<Rightarrow> string \<Rightarrow> 32 word \<Rightarrow> size_t list result" where
  "tensor_layout_to_strides_vector len len_layout layout vector =
     (let base_layout = take (length len) layout in
      map_result (stride_of base_layout (dim_to_len len_layout len) vector) len_layout)"

definition tensor_layout_get_default :: "int \<Rightarrow> string" where
  "tensor_layout_get_default n =
     (if n = 4 then ''NCHW'' else if n = 5 then ''NCDHW'' else '''')"

definition IsPossibleLayout :: "tensor \<Rightarrow> string \<Rightarrow> string \<Rightarrow> bool result" where
  "IsPossibleLayout t labels layout =
     (case tensor_layout_to_strides (t_lens t) labels layout of
        Inl ex \<Rightarrow> Inl ex
      | Inr derived_strides \<Rightarrow> Inr (derived_strides = t_strides t))"

text \<open>\<open>std::stable_sort\<close> by descending (stride, length).\<close>

definition find_permutation :: "size_t list \<Rightarrow> size_t list \<Rightarrow> nat list" where
  "find_permutation lens strides =
     sort_key (\<lambda>x. (- uint (strides ! x), - uint (lens ! x))) [0..<length lens]"

definition GetLayout :: "tensor \<Rightarrow> string \<Rightarrow> string result" where
  "GetLayout t labels =
     (if last labels \<noteq> CHR ''c'' then
        (if length labels \<noteq> length (t_strides t)
         then throw ''Invalid labels size. Layout labels size must be equavalent to stride size''
         else Inr (map (\<lambda>i. labels ! i) (find_permutation (t_lens t) (t_strides t))))
      else
        let base_label = butlast labels in
        if length base_label \<noteq> length (t_strides t)
        then throw ''Invalid labels size. Layout labels size must be equavalent to stride size''
        else Inr (map (\<lambda>i. labels ! i) (find_permutation (t_lens t) (t_strides t)) @ ''c''))"

section \<open>Packed strides\<close>

fun packed_strides :: "'a::comm_monoid_mult \<Rightarrow> 'a list \<Rightarrow> 'a list" where
  "packed_strides v [] = []"
| "packed_strides v (l # ls) = (prod_list ls * v) # packed_strides v ls"

lemma length_packed_strides [simp]: "length (packed_strides v ls) = length ls"
  by (induction ls) auto

lemma packed_strides_eq_Nil [simp]: "packed_strides v ls = [] \<longleftrightarrow> ls = []"
  by (cases ls) auto

lemma partial_products_snoc:
  "partial_products acc (xs @ [x]) = partial_products acc xs @ [acc * prod_list xs * x]"
  by (induction xs arbitrary: acc) (simp_all add: ac_simps)

lemma partial_sum_snoc:
  "partial_sum_multiplies (xs @ [x]) = partial_sum_multiplies xs @ [prod_list xs * x]"
  by (cases xs) (simp_all add: partial_sum_multiplies_def partial_products_snoc)

lemma prod_list_rev: "prod_list (rev xs) = prod_list (xs :: size_t list)"
  by (induction xs) (simp_all add: ac_simps)

lemma raw_strides_Cons:
  "ls \<noteq> [] \<Longrightarrow> rev (v # partial_sum_multiplies (butlast (rev (l # ls))))
    = prod_list ls # rev (v # partial_sum_multiplies (butlast (rev ls)))"
proof -
  assume "ls \<noteq> []"
  then obtain x xs where ls: "ls = x # xs" by (cases ls) auto
  have "butlast (rev (l # ls)) = rev xs @ [x]" "butlast (rev ls) = rev xs"
    by (simp_all add: ls butlast_append)
  then show ?thesis
    by (simp add: partial_sum_snoc ls prod_list_rev ac_simps del: rev.simps)
qed

lemma scaled_strides:
  assumes "ls \<noteq> []"
  shows "(let strides = rev (v # partial_sum_multiplies (butlast (rev ls)))
     in map (\<lambda>s. s * v) (butlast strides) @ [last strides]) = packed_strides v ls"
  using assms
proof (induction ls)
  case (Cons l ls)
  show ?case
  proof (cases "ls = []")
    case True
    then show ?thesis by (simp add: partial_sum_multiplies_def)
  next
    case False
    define S where "S = rev (v # partial_sum_multiplies (butlast (rev ls)))"
    have E: "rev (v # partial_sum_multiplies (butlast (rev (l # ls)))) = prod_list ls # S"
      unfolding S_def by (rule raw_strides_Cons [OF False])
    have "S \<noteq> []" by (simp add: S_def)
    moreover have "map (\<lambda>s. s * v) (butlast S) @ [last S] = packed_strides v ls"
      using Cons.IH [OF False] by (simp only: S_def Let_def)
    ultimately show ?thesis
      unfolding E Let_def by simp
  qed
qed simp

text \<open>The lengths the constructor keeps: the channel dimension of a vectorized layout is divided.\<close>

definition layout_lens :: "tensor_layout \<Rightarrow> size_t \<Rightarrow> size_t list \<Rightarrow> size_t list" where
  "layout_lens la v ls =
     (if la = miopenTensorNCHWc4 \<or> la = miopenTensorNCHWc8 then ls[1 := (ls ! 1) div v]
      else if la = miopenTensorCHWNc4 \<or> la = miopenTensorCHWNc8 then ls[0 := (ls ! 0) div v]
      else ls)"

definition layout_vector :: "tensor_layout \<Rightarrow> size_t" where
  "layout_vector la = (if la = miopenTensorCHWNc8 \<or> la = miopenTensorNCHWc8 then 8
      else if la = miopenTensorCHWNc4 \<or> la = miopenTensorNCHWc4 then 4 else 1)"

lemma CalculateVectorLength_eq:
  "CalculateVectorLength t = t\<lparr>t_vector_length := layout_vector (t_layout t)\<rparr>"
  by (simp add: CalculateVectorLength_def layout_vector_def)

lemma CalculateStrides_eq:
  assumes "t_lens t \<noteq> []"
  shows "CalculateStrides t = t\<lparr>t_lens := layout_lens (t_layout t) (t_vector_length t) (t_lens t),
    t_strides := packed_strides (t_vector_length t)
      (layout_lens (t_layout t) (t_vector_length t) (t_lens t))\<rparr>"
proof -
  have "layout_lens (t_layout t) (t_vector_length t) (t_lens t) \<noteq> []"
    using assms by (simp add: layout_lens_def)
  from scaled_strides [OF this, of "t_vector_length t", unfolded Let_def]
  have "CalculateStrides t = (if t_lens t = [] then t\<lparr>t_strides := []\<rparr> else
    t\<lparr>t_lens := layout_lens (t_layout t) (t_vector_length t) (t_lens t),
      t_strides := packed_strides (t_vector_length t)
        (layout_lens (t_layout t) (t_vector_length t) (t_lens t))\<rparr>)"
    unfolding CalculateStrides_def Let_def layout_lens_def [symmetric] by (simp only:)
  with assms show ?thesis by simp
qed

lemma TensorDescriptor_lens_eq:
  "TensorDescriptor_lens ty la ls =
     \<lparr>t_lens = layout_lens la (layout_vector la) ls,
      t_strides = packed_strides (layout_vector la) (layout_lens la (layout_vector la) ls),
      t_packed = True, t_vector_length = layout_vector la, t_type = ty, t_layout = la\<rparr>"
proof (cases "ls = []")
  case True
  then show ?thesis
    by (simp add: TensorDescriptor_lens_def CalculateVectorLength_eq CalculateStrides_def
        layout_lens_def)
next
  case False
  then show ?thesis
    by (simp add: TensorDescriptor_lens_def CalculateVectorLength_eq CalculateStrides_eq)
qed

lemma foldl_mult: "foldl (*) a (xs :: size_t list) = a * prod_list xs"
  by (induction xs arbitrary: a) (simp_all add: ac_simps)

lemma inner_product_Cons:
  "inner_product (x # xs) (y # ys) init = inner_product xs ys (init + x * y)"
  by (simp add: inner_product_def)

lemma inner_product_init: "inner_product xs ys init = init + inner_product xs ys 0"
proof (induction xs arbitrary: ys init)
  case (Cons x xs)
  show ?case
  proof (cases ys)
    case (Cons y ys')
    then show ?thesis
      using Cons.IH [of ys' "init + x * y"] Cons.IH [of ys' "x * y"]
      by (simp add: inner_product_Cons ac_simps)
  qed (simp add: inner_product_def)
qed (simp add: inner_product_def)

lemma packed_space:
  "inner_product (map (\<lambda>l. l - 1) ls) (packed_strides v ls) 0 + v = prod_list ls * v"
proof (induction ls)
  case (Cons l ls)
  have "inner_product (map (\<lambda>l. l - 1) (l # ls)) (packed_strides v (l # ls)) 0 + v
      = (l - 1) * (prod_list ls * v) + (inner_product (map (\<lambda>l. l - 1) ls) (packed_strides v ls) 0 + v)"
    using inner_product_init [of _ _ "(l - 1) * (prod_list ls * v)"]
    by (simp add: inner_product_Cons ac_simps)
  also have "\<dots> = prod_list (l # ls) * v"
    unfolding Cons.IH by (simp add: algebra_simps)
  finally show ?case .
qed (simp add: inner_product_def)

text \<open>A descriptor made from lengths alone is packed: whatever the lengths and the layout,
  vectorized ones included, the element space computed from the strides equals the number of
  elements, exactly in the 64-bit arithmetic of the code; so a second descriptor built from
  the same lengths and strides would find itself packed.\<close>

theorem TensorDescriptor_lens_packed:
  "GetElementSpace (TensorDescriptor_lens ty la ls) = GetElementSize (TensorDescriptor_lens ty la ls)
   \<and> t_packed (TensorDescriptor_strides ty la (t_lens (TensorDescriptor_lens ty la ls))
        (t_strides (TensorDescriptor_lens ty la ls)))"
  using packed_space [of "layout_lens la (layout_vector la) ls" "layout_vector la"]
  by (simp add: TensorDescriptor_lens_eq GetElementSpace_def GetElementSize_def foldl_mult ac_simps
      TensorDescriptor_strides_def CalculateVectorLength_eq Let_def)

section \<open>Element offsets\<close>

text \<open>The mixed radix number of an index.\<close>

fun mixed :: "nat list \<Rightarrow> nat list \<Rightarrow> nat" where
  "mixed (l # ls) (i # is) = i * prod_list ls + mixed ls is"
| "mixed _ _ = 0"

lemma mixed_less:
  "list_all2 (<) is ls \<Longrightarrow> mixed ls is < prod_list ls"
proof (induction ls "is" rule: mixed.induct)
  case (1 l ls i is')
  then have "mixed ls is' < prod_list ls" "i + 1 \<le> l" by auto
  then have "i * prod_list ls + mixed ls is' < (i + 1) * prod_list ls"
    by simp
  also have "\<dots> \<le> l * prod_list ls"
    using \<open>i + 1 \<le> l\<close> by (rule mult_le_mono1)
  finally show ?case by simp
qed (auto simp: list_all2_Cons1 list_all2_Cons2)

lemma mixed_inj:
  "list_all2 (<) is ls \<Longrightarrow> list_all2 (<) js ls \<Longrightarrow> mixed ls is = mixed ls js \<Longrightarrow> is = js"
proof (induction ls arbitrary: "is" js)
  case (Cons l ls)
  then obtain i is' j js' where eq: "is = i # is'" "js = j # js'"
    "list_all2 (<) is' ls" "list_all2 (<) js' ls"
    by (auto simp: list_all2_Cons2)
  let ?P = "prod_list ls"
  have lt: "mixed ls is' < ?P" "mixed ls js' < ?P"
    using eq mixed_less by blast+
  have m: "i * ?P + mixed ls is' = j * ?P + mixed ls js'"
    using Cons.prems(3) eq by simp
  have "(i * ?P + mixed ls is') div ?P = i" "(j * ?P + mixed ls js') div ?P = j"
    using lt by (simp_all add: div_mult_self3)
  then have "i = j" using m by metis
  with m eq Cons.IH show ?case by auto
qed auto

lemma inner_product_mixed:
  "length is = length ls \<Longrightarrow>
   inner_product (map of_nat is) (packed_strides v (map of_nat ls)) 0 = v * of_nat (mixed ls is)"
proof (induction ls "is" rule: mixed.induct)
  case (1 l ls i is')
  have p: "prod_list (map of_nat ls) = (of_nat (prod_list ls) :: size_t)"
    by (induction ls) simp_all
  show ?case
    using 1 inner_product_init [of _ _ "of_nat i * (prod_list (map of_nat ls) * v)"]
    by (simp add: inner_product_Cons p algebra_simps)
qed (auto simp: inner_product_def)

text \<open>The index argument of \<open>GetIndex\<close> for element \<open>c\<close> of the vector at position \<open>is\<close>.\<close>

definition index_args :: "tensor \<Rightarrow> nat \<Rightarrow> nat list \<Rightarrow> int list" where
  "index_args t c is = (if IsVectorized t then int c # map int is else map int is)"

definition nat_lens :: "tensor \<Rightarrow> nat list" where
  "nat_lens t = map unat (t_lens t)"

lemma prod_list_of_nat: "prod_list (map of_nat ls) = (of_nat (prod_list ls) :: size_t)"
  by (induction ls) simp_all

lemma GetIndex_mixed:
  assumes t: "t = TensorDescriptor_lens ty la ls" "la \<noteq> miopenTensorCHWNc4" "la \<noteq> miopenTensorCHWNc8"
    and i: "list_all2 (<) is (nat_lens t)" "c < unat (t_vector_length t)"
    and fits: "unat (t_vector_length t) * prod_list (nat_lens t) < 2 ^ 64"
  shows "unat (GetIndex t (index_args t c is)) = unat (t_vector_length t) * mixed (nat_lens t) is + c"
    and "unat (t_vector_length t) * mixed (nat_lens t) is + c < unat (t_vector_length t) * prod_list (nat_lens t)"
proof -
  let ?v = "t_vector_length t" and ?ns = "nat_lens t"
  have len: "length is = length ?ns" using i(1) by (rule list_all2_lengthD)
  have ns: "map of_nat ?ns = t_lens t" by (simp add: nat_lens_def o_def)
  have st: "t_strides t = packed_strides ?v (map of_nat ?ns)"
    unfolding ns by (simp add: t(1) TensorDescriptor_lens_eq)
  have m: "map (of_int \<circ> int) is = (map of_nat is :: size_t list)" by simp
  note ip = inner_product_mixed [OF len, of ?v]
  have c0: "\<not> IsVectorized t \<Longrightarrow> c = 0"
    using i(2) by (auto simp: IsVectorized_def word_less_nat_alt not_less)
  have "GetIndex t (index_args t c is) = of_nat c + ?v * of_nat (mixed ?ns is)"
  proof (cases "IsVectorized t")
    case True
    then have "GetIndex t (index_args t c is) = inner_product (map of_nat is) (t_strides t) (of_nat c)"
      using t by (cases la) (simp_all add: GetIndex_def GetLayout_str_def index_args_def
          TensorDescriptor_lens_eq o_def)
    then show ?thesis
      using ip inner_product_init [of _ _ "of_nat c"] by (simp add: st)
  next
    case False
    then have "GetIndex t (index_args t c is) = inner_product (map of_nat is) (t_strides t) 0"
      using t by (cases la) (simp_all add: GetIndex_def GetLayout_str_def index_args_def
          TensorDescriptor_lens_eq o_def)
    then show ?thesis
      using ip c0 [OF False] by (simp add: st)
  qed
  then have w: "GetIndex t (index_args t c is) = of_nat (unat ?v * mixed ?ns is + c)"
    by (simp add: ac_simps)
  have "unat ?v * mixed ?ns is + c < unat ?v * (mixed ?ns is + 1)"
    using i(2) by simp
  also have "\<dots> \<le> unat ?v * prod_list ?ns"
    using mixed_less [OF i(1)] by (intro mult_le_mono2) simp
  finally show lt: "unat ?v * mixed ?ns is + c < unat ?v * prod_list ?ns" .
  have "unat ?v * mixed ?ns is + c < 2 ^ LENGTH(64)"
    using lt fits by simp
  then show "unat (GetIndex t (index_args t c is)) = unat ?v * mixed ?ns is + c"
    unfolding w by (simp only: unat_of_nat mod_less)
qed

text \<open>C15: Element offsets.  In a tensor made from its lengths (any layout but \<open>CHWNc\<close>) whose
  elements fit the address arithmetic, \<open>GetIndex\<close> maps every index within the lengths, and
  every position within a vector, below the element size, and different ones to different
  offsets.\<close>

theorem GetIndex_injective:
  assumes "t = TensorDescriptor_lens ty la ls" "la \<noteq> miopenTensorCHWNc4" "la \<noteq> miopenTensorCHWNc8"
    and "unat (t_vector_length t) * prod_list (nat_lens t) < 2 ^ 64"
    and "list_all2 (<) is (nat_lens t)" "c < unat (t_vector_length t)"
    and "list_all2 (<) js (nat_lens t)" "d < unat (t_vector_length t)"
  shows "GetIndex t (index_args t c is) < GetElementSize t
    \<and> (GetIndex t (index_args t c is) = GetIndex t (index_args t d js) \<longrightarrow> c = d \<and> is = js)"
proof -
  let ?v = "unat (t_vector_length t)" and ?ns = "nat_lens t"
  note gi = GetIndex_mixed [OF assms(1-3,5,6,4)] and gj = GetIndex_mixed [OF assms(1-3,7,8,4)]
  have ns: "map of_nat ?ns = t_lens t" by (simp add: nat_lens_def o_def)
  have w: "GetElementSize t = of_nat (?v * prod_list ?ns)"
    using prod_list_of_nat [of ?ns] by (simp add: GetElementSize_def foldl_mult ns)
  have "?v * prod_list ?ns < 2 ^ LENGTH(64)" using assms(4) by simp
  then have "unat (GetElementSize t) = ?v * prod_list ?ns"
    unfolding w by (simp only: unat_of_nat mod_less)
  then have "GetIndex t (index_args t c is) < GetElementSize t"
    using gi by (simp add: word_less_nat_alt)
  moreover have "c = d \<and> is = js" if "GetIndex t (index_args t c is) = GetIndex t (index_args t d js)"
  proof -
    have e: "?v * mixed ?ns is + c = ?v * mixed ?ns js + d"
      using that gi(1) gj(1) by simp
    have "(?v * mixed ?ns is + c) div ?v = mixed ?ns is" "(?v * mixed ?ns js + d) div ?v = mixed ?ns js"
      using assms(6,8) by simp_all
    with e have "mixed ?ns is = mixed ?ns js" by metis
    with e mixed_inj [OF assms(5,7)] show ?thesis by simp
  qed
  ultimately show ?thesis by blast
qed

theorem GetIndex_injective_witness:
  "GetIndex (TensorDescriptor_lens miopenInt8 miopenTensorNCHWc4 [2, 8, 3, 5]) [3, 1, 1, 2, 4]
     < GetElementSize (TensorDescriptor_lens miopenInt8 miopenTensorNCHWc4 [2, 8, 3, 5])"
proof -
  let ?t = "TensorDescriptor_lens miopenInt8 miopenTensorNCHWc4 [2, 8, 3, 5]"
  have t: "nat_lens ?t = [2, 2, 3, 5]" "unat (t_vector_length ?t) = 4" "IsVectorized ?t"
    by (simp_all add: nat_lens_def TensorDescriptor_lens_eq layout_lens_def layout_vector_def IsVectorized_def)
  have "GetIndex ?t (index_args ?t 3 [1, 1, 2, 4]) < GetElementSize ?t"
    using GetIndex_injective [OF refl, of miopenTensorNCHWc4 miopenInt8 "[2, 8, 3, 5]" "[1, 1, 2, 4]" 3 "[1, 1, 2, 4]" 3]
    unfolding t by simp
  then show ?thesis using t(3) by (simp add: index_args_def)
qed

section \<open>Strides from a layout string\<close>

lemma ucast_word_of_int: "(ucast (word_of_int k :: 64 word) :: 32 word) = word_of_int k"
  by (simp add: unsigned_of_int word_of_int_eq_iff)

lemma truncated_product: "(ucast ((scast (x :: 32 word) :: size_t) * d) :: 32 word) = x * ucast d"
proof -
  have "(scast x :: size_t) = word_of_int (sint x)" by (rule scast_eq)
  then have "(scast x :: size_t) * d = word_of_int (sint x * uint d)"
    by (simp only: of_int_mult word_of_int_uint)
  then have "(ucast ((scast x :: size_t) * d) :: 32 word) = word_of_int (sint x * uint d)"
    by (simp only: ucast_word_of_int)
  also have "\<dots> = word_of_int (sint x) * word_of_int (uint d)" by simp
  also have "\<dots> = x * ucast d" by (simp only: of_int_sint ucast_eq scast_id)
  finally show ?thesis .
qed

lemma accumulate_int_eq:
  "accumulate_int dims init cs = init * prod_list (map (\<lambda>c. ucast (dims c)) cs)"
  unfolding accumulate_int_def truncated_product
  by (induction cs arbitrary: init) (simp_all add: ac_simps)

lemma scast_small: "n < 2 ^ 31 \<Longrightarrow> (scast (of_nat n :: 32 word) :: size_t) = of_nat n"
  by (simp add: scast_eq signed_of_nat signed_take_bit_int_eq_self)

lemma ucast_of_nat_unat: "(ucast d :: 32 word) = of_nat (unat (d :: size_t))"
  by (simp only: of_nat_unat)

lemma accumulate_int_nat:
  "accumulate_int dims 1 cs = of_nat (prod_list (map (\<lambda>c. unat (dims c)) cs))"
  unfolding accumulate_int_eq
  by (induction cs) (simp_all add: ucast_of_nat_unat del: of_nat_unat)

lemma find_char_nth: "distinct s \<Longrightarrow> k < length s \<Longrightarrow> find_char (s ! k) s = Some k"
proof (induction s arbitrary: k)
  case (Cons a s)
  then show ?case by (cases k) (auto simp: nth_Cons')
qed simp

text \<open>The product of the lengths of the dimensions after position \<open>k\<close> of a layout.\<close>

definition suffix_product :: "(char \<Rightarrow> size_t) \<Rightarrow> string \<Rightarrow> nat \<Rightarrow> nat" where
  "suffix_product dims layout k = prod_list (map (\<lambda>c. unat (dims c)) (drop (k + 1) layout))"

lemma stride_of_nth:
  assumes "distinct layout" "k < length layout"
  shows "stride_of layout dims 1 (layout ! k) = Inr (scast (of_nat (suffix_product dims layout k) :: 32 word))"
  using find_char_nth [OF assms]
  by (simp add: stride_of_def accumulate_int_nat suffix_product_def)

lemma prod_list_ge_1: "\<forall>x \<in> set xs. 1 \<le> (x :: nat) \<Longrightarrow> 1 \<le> prod_list xs"
proof (induction xs)
  case (Cons x xs)
  then show ?case using mult_le_mono [of 1 x 1 "prod_list xs"] by simp
qed simp

lemma suffix_product_le:
  assumes "\<forall>c \<in> set layout. 1 \<le> unat (dims c)"
  shows "suffix_product dims layout k \<le> prod_list (map (\<lambda>c. unat (dims c)) layout)"
proof -
  let ?f = "\<lambda>c. unat (dims c)"
  have "prod_list (map ?f layout) = prod_list (map ?f (take (k + 1) layout)) * suffix_product dims layout k"
    by (metis append_take_drop_id map_append prod_list.append suffix_product_def)
  moreover have "1 \<le> prod_list (map ?f (take (k + 1) layout))"
    by (rule prod_list_ge_1) (use assms in \<open>auto dest: in_set_takeD\<close>)
  ultimately show ?thesis
    using mult_le_mono1 [of 1 "prod_list (map ?f (take (k + 1) layout))" "suffix_product dims layout k"] by simp
qed

lemma map_result_Inr: "\<forall>x \<in> set xs. f x = Inr (g x) \<Longrightarrow> map_result f xs = Inr (map g xs)"
  by (induction xs) auto

text \<open>The position of a label in the layout.\<close>

definition layout_pos :: "string \<Rightarrow> char \<Rightarrow> nat" where
  "layout_pos layout c = the (find_char c layout)"

lemma layout_pos_nth [simp]: "distinct layout \<Longrightarrow> k < length layout \<Longrightarrow> layout_pos layout (layout ! k) = k"
  by (simp add: layout_pos_def find_char_nth)

lemma strides_of_layout:
  assumes "distinct layout" "set len_layout \<subseteq> set layout"
    and "\<forall>c \<in> set layout. 1 \<le> unat (dim_to_len len_layout len c)"
    and "prod_list (map (\<lambda>c. unat (dim_to_len len_layout len c)) layout) < 2 ^ 31"
  shows "tensor_layout_to_strides len len_layout layout
    = Inr (map (\<lambda>c. of_nat (suffix_product (dim_to_len len_layout len) layout (layout_pos layout c))) len_layout)"
  unfolding tensor_layout_to_strides_def
proof (rule map_result_Inr, rule ballI)
  fix c assume "c \<in> set len_layout"
  then obtain k where k: "k < length layout" "c = layout ! k"
    using assms(2) by (metis in_set_conv_nth subsetD)
  have "suffix_product (dim_to_len len_layout len) layout k < 2 ^ 31"
    using suffix_product_le [OF assms(3), of k] assms(4) by linarith
  with k stride_of_nth [OF assms(1) k(1)] assms(1)
  show "stride_of layout (dim_to_len len_layout len) 1 c
      = Inr (of_nat (suffix_product (dim_to_len len_layout len) layout (layout_pos layout c)))"
    by (simp add: scast_small)
qed

lemma suffix_product_step:
  "k + 1 < length layout \<Longrightarrow>
   suffix_product dims layout k = unat (dims (layout ! (k + 1))) * suffix_product dims layout (k + 1)"
  by (simp add: suffix_product_def Cons_nth_drop_Suc [symmetric])

lemma suffix_product_decreasing:
  assumes "\<forall>c \<in> set layout. 2 \<le> unat (dims c)"
  shows "j < k \<Longrightarrow> k < length layout \<Longrightarrow> suffix_product dims layout k < suffix_product dims layout j"
proof (induction k)
  case (Suc k)
  have "1 \<le> suffix_product dims layout (k + 1)"
    unfolding suffix_product_def
    by (rule prod_list_ge_1) (use assms in \<open>fastforce dest: in_set_dropD\<close>)
  moreover have "2 \<le> unat (dims (layout ! (k + 1)))"
    using assms Suc.prems by simp
  ultimately have "suffix_product dims layout (Suc k) < suffix_product dims layout k"
    using suffix_product_step [of k layout dims] Suc.prems by simp
  then show ?case
    using Suc by (cases "j = k") auto
qed simp

text \<open>Strides narrowed to \<open>int\<close>.  For any lengths and layout the stride computed for a label
  is the product of the lengths after it in the layout, reduced modulo \<open>2 ^ 32\<close> and sign
  extended (the accumulator of \<open>std::accumulate\<close> is the \<open>int\<close> literal 1): exact while the
  product is below \<open>2 ^ 31\<close>, wrong above.\<close>

theorem tensor_layout_strides_truncate:
  assumes "distinct layout" "k < length layout"
  shows "\<exists>st. stride_of layout (dim_to_len len_layout len) 1 (layout ! k) = Inr st
    \<and> st = scast (of_nat (suffix_product (dim_to_len len_layout len) layout k) :: 32 word)
    \<and> (suffix_product (dim_to_len len_layout len) layout k < 2 ^ 31 \<longrightarrow>
         unat st = suffix_product (dim_to_len len_layout len) layout k)
    \<and> (2 ^ 32 dvd suffix_product (dim_to_len len_layout len) layout k \<longrightarrow> st = 0)"
proof -
  let ?n = "suffix_product (dim_to_len len_layout len) layout k"
  let ?st = "scast (of_nat ?n :: 32 word) :: size_t"
  have "unat ?st = ?n" if "?n < 2 ^ 31"
    using that scast_small [OF that] by (simp only: unat_of_nat mod_less) simp
  moreover have "?st = 0" if "2 ^ 32 dvd ?n"
  proof -
    have "(of_nat ?n :: 32 word) = 0" using that by (simp add: word_of_nat_eq_0_iff)
    then show ?thesis by simp
  qed
  ultimately show ?thesis using stride_of_nth [OF assms] by blast
qed

theorem tensor_layout_strides_truncate_witness:
  "stride_of ''NCHW'' (dim_to_len ''NCHW'' [2, 65536, 256, 256]) 1 CHR ''N'' = Inr 0"
proof -
  have "suffix_product (dim_to_len ''NCHW'' [2, 65536, 256, 256]) ''NCHW'' 0 = 2 ^ 32"
    by (simp add: suffix_product_def dim_to_len_def)
  then have "2 ^ 32 dvd suffix_product (dim_to_len ''NCHW'' [2, 65536, 256, 256]) ''NCHW'' 0" by simp
  moreover have "distinct ''NCHW''" "0 < length ''NCHW''" "''NCHW'' ! 0 = CHR ''N''" by simp_all
  ultimately show ?thesis
    using tensor_layout_strides_truncate [of "''NCHW''" 0 "''NCHW''" "[2, 65536, 256, 256]"] by metis
qed

text \<open>C16: Layout round trip. For labels whose last one is not the \<open>c\<close> of the vectorized layouts and a
  layout that permutes them, with every length at least 2 and fewer than \<open>2 ^ 31\<close> elements,
  \<open>tensor_layout_to_strides\<close> succeeds and \<open>GetLayout\<close> of the descriptor with those
  lengths and strides recovers the layout string.\<close>

theorem GetLayout_roundtrip:
  assumes "distinct labels" "distinct layout" "set labels = set layout" "length lens = length labels"
    and "\<forall>l \<in> set lens. 2 \<le> unat l" "prod_list (map unat lens) < 2 ^ 31"
    and "labels \<noteq> []" "last labels \<noteq> CHR ''c''"
  shows "\<exists>st. tensor_layout_to_strides lens labels layout = Inr st
    \<and> GetLayout (TensorDescriptor_strides ty la lens st) labels = Inr layout"
proof -
  let ?D = "dim_to_len labels lens" and ?n = "length labels"
  have D: "?D (labels ! i) = lens ! i" if "i < ?n" for i
    using that assms(1,4) map_of_zip_nth [of labels lens i] by (simp add: dim_to_len_def)
  have len: "length layout = ?n"
    using assms(1-3) by (metis distinct_card)
  have D2: "\<forall>c \<in> set layout. 2 \<le> unat (?D c)"
    using assms(3-5) D by (metis in_set_conv_nth)
  then have D1: "\<forall>c \<in> set layout. 1 \<le> unat (?D c)"
    by (meson le_trans one_le_numeral)
  have "map (\<lambda>c. unat (?D c)) labels = map unat lens"
    using D assms(4) by (intro nth_equalityI) auto
  moreover have "mset labels = mset layout"
    using assms(1-3) by (simp add: set_eq_iff_mset_eq_distinct)
  ultimately have "prod_list (map (\<lambda>c. unat (?D c)) layout) = prod_list (map unat lens)"
    by (metis mset_map prod_mset_prod_list)
  then have fits: "prod_list (map (\<lambda>c. unat (?D c)) layout) < 2 ^ 31" using assms(6) by simp
  define st where "st = map (\<lambda>c. of_nat (suffix_product ?D layout (layout_pos layout c)) :: size_t) labels"
  have strides: "tensor_layout_to_strides lens labels layout = Inr st"
    unfolding st_def by (rule strides_of_layout) (use assms(2,3) D1 fits in auto)
  define pm where "pm = map (layout_pos labels) layout"
  have lab: "labels ! layout_pos labels c = c \<and> layout_pos labels c < ?n" if "c \<in> set layout" for c
    using that assms(1,3) by (metis in_set_conv_nth layout_pos_nth)
  have pm_set: "mset pm = mset [0..<?n]"
  proof -
    have "inj_on (layout_pos labels) (set layout)" using lab by (metis inj_onI)
    then have "distinct pm" using assms(2) by (simp add: pm_def distinct_map)
    moreover have "set pm \<subseteq> {0..<?n}" using lab by (auto simp: pm_def)
    moreover have "card (set pm) = ?n" using distinct_card [OF \<open>distinct pm\<close>] len by (simp add: pm_def)
    ultimately have "set pm = set [0..<?n]" by (simp add: card_subset_eq)
    with \<open>distinct pm\<close> show ?thesis
      using set_eq_iff_mset_eq_distinct [of pm "[0..<?n]"] distinct_upt by blast
  qed
  let ?key = "\<lambda>x. (- uint (st ! x), - uint (lens ! x))"
  have key: "uint (st ! (pm ! k)) = int (suffix_product ?D layout k)" if "k < ?n" for k
  proof -
    have c: "layout ! k \<in> set layout" using that len by simp
    have "st ! (pm ! k) = of_nat (suffix_product ?D layout k)"
      using lab [OF c] that len assms(2) by (simp add: st_def pm_def)
    moreover have "suffix_product ?D layout k < 2 ^ LENGTH(64)"
      using suffix_product_le [OF D1, of k] fits by simp
    ultimately show ?thesis by (simp add: uint_nat unat_of_nat)
  qed
  have lenpm: "length pm = ?n" using len by (simp add: pm_def)
  have less: "?key (pm ! j) < ?key (pm ! k)" if "j < k" "k < ?n" for j k
    using suffix_product_decreasing [OF D2 that(1)] that key len by (simp add: less_prod_def)
  then have sorted: "sorted (map ?key pm)"
    unfolding sorted_iff_nth_mono_less using lenpm
    by (auto simp del: less_eq_prod_simp less_prod_simp intro: less_imp_le)
  have "inj_on ?key (set [0..<?n])"
  proof (rule inj_onI)
    fix x y assume xy: "x \<in> set [0..<?n]" "y \<in> set [0..<?n]" "?key x = ?key y"
    have "set pm = set [0..<?n]" using pm_set by (metis set_mset_mset)
    with xy obtain j k where "j < ?n" "x = pm ! j" "k < ?n" "y = pm ! k"
      using lenpm by (metis in_set_conv_nth)
    with xy(3) less show "x = y" by (metis less_irrefl linorder_neqE_nat)
  qed
  then have "find_permutation lens st = pm"
    unfolding find_permutation_def assms(4)
    by (intro sort_key_inj_key_eq) (use pm_set sorted in auto)
  moreover have "map (\<lambda>i. labels ! i) pm = layout"
    using lab by (simp add: pm_def map_idI)
  ultimately show ?thesis
    using strides assms(8)
    by (simp add: GetLayout_def TensorDescriptor_strides_def CalculateVectorLength_eq Let_def st_def)
qed

theorem GetLayout_roundtrip_witness:
  "\<exists>st. tensor_layout_to_strides [2, 16, 7, 9] ''NCHW'' ''NHWC'' = Inr st
    \<and> GetLayout (TensorDescriptor_strides miopenFloat miopenTensorNHWC [2, 16, 7, 9] st) ''NCHW''
      = Inr ''NHWC''"
  by (rule GetLayout_roundtrip) auto

end
