(* ===== verification/Runtime_Caches.thy ===== *)
theory Runtime_Caches
  imports Prelude "HOL-Library.AList"
begin

text \<open>
  The caches a handle keeps at run time: \<open>KernelCache\<close> (\<open>src/kernel_cache.cpp\<close>), programs by
  name and build parameters and lists of kernels by algorithm and network configuration, and
  \<open>InvokerCache\<close> (\<open>src/invoker_cache.cpp\<close>), invokers by network configuration and solver.

  The maps are association lists.  A program is a value of type \<open>'p\<close>, and compiling one is the
  parameter \<open>load\<close>, \<open>Handle::LoadProgram\<close>, which may throw.  Logging is not modelled.
\<close>

section \<open>The kernel cache\<close>

datatype 'p kernel = No_kernel | Kernel (kernel_program: 'p) (kernel_name: string) (kernel_dims: "(nat list \<times> nat list) option")

type_synonym key2 = "string \<times> string"

record 'p kernel_cache =
  kernel_map :: "(key2 \<times> 'p kernel list) list"
  program_map :: "(key2 \<times> 'p) list"

definition KernelCache_GetKernels :: "'p kernel_cache \<Rightarrow> string \<Rightarrow> string \<Rightarrow> 'p kernel list" where
  "KernelCache_GetKernels kc algorithm network_config =
     (case map_of (kernel_map kc) (algorithm, network_config) of Some ks \<Rightarrow> ks | None \<Rightarrow> [])"

definition KernelCache_HasKernels :: "'p kernel_cache \<Rightarrow> string \<Rightarrow> string \<Rightarrow> bool result" where
  "KernelCache_HasKernels kc algorithm network_config =
     (case map_of (kernel_map kc) (algorithm, network_config) of
        None \<Rightarrow> Inr False
      | Some ks \<Rightarrow>
          if ks = []
          then throw ''There should be at least one kernel in kernel cache if an entry exists''
          else Inr True)"

definition KernelCache_HasProgram :: "'p kernel_cache \<Rightarrow> string \<Rightarrow> string \<Rightarrow> bool" where
  "KernelCache_HasProgram kc name params = (map_of (program_map kc) (name, params) \<noteq> None)"

definition KernelCache_ClearProgram :: "'p kernel_cache \<Rightarrow> string \<Rightarrow> string \<Rightarrow> 'p kernel_cache" where
  "KernelCache_ClearProgram kc name params =
     (if KernelCache_HasProgram kc name params
      then kc\<lparr>program_map := AList.delete (name, params) (program_map kc)\<rparr> else kc)"

definition KernelCache_AddProgram :: "'p kernel_cache \<Rightarrow> 'p \<Rightarrow> string \<Rightarrow> string \<Rightarrow> 'p kernel_cache" where
  "KernelCache_AddProgram kc prog name params =
     kc\<lparr>program_map := AList.update (name, params) prog (program_map kc)\<rparr>"

text \<open>\<open>kernel_map[key]\<close> makes an empty entry; the list grows to hold the index.\<close>

definition KernelCache_AddKernel_key :: "'p kernel_cache \<Rightarrow> key2 \<Rightarrow> 'p kernel \<Rightarrow> nat \<Rightarrow> 'p kernel_cache" where
  "KernelCache_AddKernel_key kc key k cache_index =
     (let v = (case map_of (kernel_map kc) key of Some ks \<Rightarrow> ks | None \<Rightarrow> []);
          v' = (if cache_index \<ge> length v
                then v @ replicate (cache_index + 1 - length v) No_kernel else v)
      in kc\<lparr>kernel_map := AList.update key (v'[cache_index := k]) (kernel_map kc)\<rparr>)"

fun find_sub :: "string \<Rightarrow> string \<Rightarrow> bool" where
  "find_sub p [] = (p = [])"
| "find_sub p (c # s) = (take (length p) (c # s) = p \<or> find_sub p s)"

text \<open>The program for a kernel, compiled unless it is in the cache.\<close>

definition acquire_program ::
  "(string \<Rightarrow> string \<Rightarrow> bool \<Rightarrow> string \<Rightarrow> 'p result) \<Rightarrow> 'p kernel_cache \<Rightarrow> string \<Rightarrow> string \<Rightarrow> string
    \<Rightarrow> bool \<Rightarrow> string \<Rightarrow> ('p kernel_cache \<times> 'p) result" where
  "acquire_program load kc algorithm program_name params is_miopengemm kernel_src =
     (case map_of (program_map kc) (program_name, params) of
        Some program \<Rightarrow> Inr (kc, program)
      | None \<Rightarrow>
          (let gemm = (if \<not> is_miopengemm
                       then \<not> find_sub ''ImplicitGEMM'' algorithm \<and> find_sub ''GEMM'' algorithm
                       else is_miopengemm)
           in case load program_name params gemm kernel_src of
                Inl ex \<Rightarrow> Inl ex
              | Inr program \<Rightarrow> Inr (KernelCache_AddProgram kc program program_name params, program)))"

text \<open>\<open>arch\<close> tells whether \<open>MIOPEN_DEVICE_ARCH\<close> is set (to a nonempty text).\<close>

definition KernelCache_AddKernel ::
  "(string \<Rightarrow> string \<Rightarrow> bool \<Rightarrow> string \<Rightarrow> 'p result) \<Rightarrow> bool \<Rightarrow> 'p kernel_cache \<Rightarrow> string \<Rightarrow> string \<Rightarrow> string
    \<Rightarrow> string \<Rightarrow> nat list \<Rightarrow> nat list \<Rightarrow> string \<Rightarrow> nat \<Rightarrow> bool \<Rightarrow> string
    \<Rightarrow> ('p kernel_cache \<times> 'p kernel) result" where
  "KernelCache_AddKernel load arch kc algorithm network_config program_name kname vld vgd params
      cache_index is_miopengemm kernel_src =
     (case acquire_program load kc algorithm program_name params is_miopengemm kernel_src of
        Inl ex \<Rightarrow> Inl ex
      | Inr (kc1, program) \<Rightarrow>
          (let kernel = (if arch then Kernel program kname None else Kernel program kname (Some (vld, vgd)))
           in if network_config \<noteq> [] \<and> algorithm \<noteq> []
              then Inr (KernelCache_AddKernel_key kc1 (algorithm, network_config) kernel cache_index, kernel)
              else Inr (kc1, kernel)))"

definition KernelCache_ClearKernels :: "'p kernel_cache \<Rightarrow> string \<Rightarrow> string \<Rightarrow> 'p kernel_cache result" where
  "KernelCache_ClearKernels kc algorithm network_config =
     (if network_config = [] \<or> algorithm = [] then throw ''Network config or algorithm empty.''
      else Inr (kc\<lparr>kernel_map := AList.update (algorithm, network_config) [] (kernel_map kc)\<rparr>))"

section \<open>Properties of the kernel cache\<close>

text \<open>The invariant \<open>HasKernels\<close> asserts: no entry without a kernel.\<close>

definition kc_inv :: "'p kernel_cache \<Rightarrow> bool" where
  "kc_inv kc \<longleftrightarrow> (\<forall>key ks. map_of (kernel_map kc) key = Some ks \<longrightarrow> ks \<noteq> [])"

lemma kc_inv_empty: "kc_inv \<lparr>kernel_map = [], program_map = ps\<rparr>"
  by (simp add: kc_inv_def)

lemma AddKernel_key_inv: "kc_inv kc \<Longrightarrow> kc_inv (KernelCache_AddKernel_key kc key k i)"
  by (auto simp: kc_inv_def KernelCache_AddKernel_key_def Let_def update_conv' split: if_splits option.splits)

lemma AddKernel_key_lookup:
  "map_of (kernel_map (KernelCache_AddKernel_key kc key k i)) key'
    = (if key' = key
       then Some (let v = (case map_of (kernel_map kc) key of Some ks \<Rightarrow> ks | None \<Rightarrow> [])
                  in (v @ replicate (i + 1 - length v) No_kernel)[i := k])
       else map_of (kernel_map kc) key')"
  by (auto simp: KernelCache_AddKernel_key_def Let_def update_conv')

lemma HasKernels_total: "kc_inv kc \<Longrightarrow> \<exists>b. KernelCache_HasKernels kc a n = Inr b"
  by (auto simp: kc_inv_def KernelCache_HasKernels_def split: option.splits)

lemma acquire_program_cached:
  "map_of (program_map kc) (pn, ps) = Some p \<Longrightarrow> acquire_program load kc a pn ps mg src = Inr (kc, p)"
  by (simp add: acquire_program_def)

lemma acquire_program_spec:
  "acquire_program load kc a pn ps mg src = Inr (kc1, p) \<Longrightarrow>
   kernel_map kc1 = kernel_map kc \<and> map_of (program_map kc1) (pn, ps) = Some p"
  by (auto simp: acquire_program_def KernelCache_AddProgram_def Let_def update_conv'
      split: option.splits sum.splits)

text \<open>Adding a kernel.  When \<open>AddKernel\<close> succeeds for a nonempty key, the returned kernel is
  then at its index under the key and \<open>HasKernels\<close> reports it, the kernels at other indices and
  under other keys are as before, the invariant that no entry is empty is kept, and the program
  is in the cache, so that another \<open>AddKernel\<close> with the same program and parameters does not
  compile again (whatever \<open>LoadProgram\<close> would do).\<close>

theorem KernelCache_AddKernel_spec:
  assumes "kc_inv kc" "algorithm \<noteq> []" "network_config \<noteq> []"
    and "KernelCache_AddKernel load arch kc algorithm network_config pname kname vld vgd params i mg src
      = Inr (kc', k)"
  shows "kc_inv kc' \<and> i < length (KernelCache_GetKernels kc' algorithm network_config)
    \<and> KernelCache_GetKernels kc' algorithm network_config ! i = k
    \<and> KernelCache_HasKernels kc' algorithm network_config = Inr True
    \<and> (\<forall>j < length (KernelCache_GetKernels kc algorithm network_config). j \<noteq> i \<longrightarrow>
         KernelCache_GetKernels kc' algorithm network_config ! j
           = KernelCache_GetKernels kc algorithm network_config ! j)
    \<and> (\<forall>a n. (a, n) \<noteq> (algorithm, network_config) \<longrightarrow>
         KernelCache_GetKernels kc' a n = KernelCache_GetKernels kc a n)
    \<and> KernelCache_HasProgram kc' pname params
    \<and> (\<forall>load' kname' i'. \<exists>kc'' k'. KernelCache_AddKernel load' arch kc' algorithm network_config pname
           kname' vld vgd params i' mg src = Inr (kc'', k') \<and> kernel_program k' = kernel_program k)"
proof -
  let ?key = "(algorithm, network_config)"
  obtain kc1 p where kc1: "kernel_map kc1 = kernel_map kc" "map_of (program_map kc1) (pname, params) = Some p"
    and k: "k = Kernel p kname (if arch then None else Some (vld, vgd))"
    and kc': "kc' = KernelCache_AddKernel_key kc1 ?key k i"
  proof -
    obtain kc1 p where ap: "acquire_program load kc algorithm pname params mg src = Inr (kc1, p)"
      using assms(4) by (auto simp: KernelCache_AddKernel_def split: sum.splits)
    with acquire_program_spec [OF ap] assms(2-4) show ?thesis
      by (intro that [of kc1 p]) (auto simp: KernelCache_AddKernel_def Let_def split: if_splits)
  qed
  have pm: "map_of (program_map kc') (pname, params) = Some p"
    using kc1(2) by (simp add: kc' KernelCache_AddKernel_key_def Let_def)
  define v where "v = (case map_of (kernel_map kc) ?key of Some ks \<Rightarrow> ks | None \<Rightarrow> [])"
  define v' where "v' = (v @ replicate (i + 1 - length v) No_kernel)[i := k]"
  have lk: "map_of (kernel_map kc') key = (if key = ?key then Some v' else map_of (kernel_map kc) key)" for key
    by (simp add: kc' AddKernel_key_lookup kc1(1) v_def v'_def Let_def)
  have gk: "KernelCache_GetKernels kc' algorithm network_config = v'"
    "KernelCache_GetKernels kc algorithm network_config = v"
    by (simp_all add: KernelCache_GetKernels_def lk v_def)
  have "kc_inv kc1" using assms(1) kc1(1) by (simp add: kc_inv_def)
  then have inv: "kc_inv kc'" unfolding kc' by (rule AddKernel_key_inv)
  have "i < length v'" "v' ! i = k" by (simp_all add: v'_def)
  moreover have "v' ! j = v ! j" if "j < length v" "j \<noteq> i" for j
    using that by (simp add: v'_def nth_append)
  moreover have "KernelCache_HasKernels kc' algorithm network_config = Inr True"
    using \<open>i < length v'\<close> by (auto simp: KernelCache_HasKernels_def lk)
  moreover have "KernelCache_GetKernels kc' a n = KernelCache_GetKernels kc a n" if "(a, n) \<noteq> ?key" for a n
    using that by (auto simp: KernelCache_GetKernels_def lk)
  moreover have "\<exists>kc'' k'. KernelCache_AddKernel load' arch kc' algorithm network_config pname
           kname' vld vgd params i' mg src = Inr (kc'', k') \<and> kernel_program k' = kernel_program k" for load' kname' i'
    using acquire_program_cached [OF pm] assms(2,3) by (simp add: KernelCache_AddKernel_def Let_def k)
  ultimately show ?thesis
    using inv pm unfolding gk by (simp add: KernelCache_HasProgram_def)
qed

theorem KernelCache_AddKernel_spec_witness:
  "\<exists>kc' k. KernelCache_AddKernel (\<lambda>n p g s. Inr n) False \<lparr>kernel_map = [], program_map = []\<rparr>
      ''Direct'' ''1x1'' ''prog'' ''kern'' [64] [128] ''-O2'' 1 False [] = Inr (kc', k)
    \<and> KernelCache_GetKernels kc' ''Direct'' ''1x1'' ! 1 = k
    \<and> KernelCache_HasKernels kc' ''Direct'' ''1x1'' = Inr True"
proof -
  obtain kc' k where a: "KernelCache_AddKernel (\<lambda>n p g s. Inr n) False \<lparr>kernel_map = [], program_map = []\<rparr>
      ''Direct'' ''1x1'' ''prog'' ''kern'' [64] [128] ''-O2'' 1 False [] = Inr (kc', k)"
    by (simp add: KernelCache_AddKernel_def acquire_program_def Let_def)
  from KernelCache_AddKernel_spec [OF kc_inv_empty _ _ a] a show ?thesis by blast
qed

text \<open>Clearing kernels leaves an empty entry behind: after \<open>ClearKernels\<close> the key has no
  kernels, but \<open>HasKernels\<close> throws for it instead of answering that there are none.\<close>

theorem KernelCache_ClearKernels_breaks:
  assumes "algorithm \<noteq> []" "network_config \<noteq> []"
  shows "\<exists>kc'. KernelCache_ClearKernels kc algorithm network_config = Inr kc'
    \<and> KernelCache_GetKernels kc' algorithm network_config = []
    \<and> KernelCache_HasKernels kc' algorithm network_config
        = throw ''There should be at least one kernel in kernel cache if an entry exists''"
  using assms
  by (simp add: KernelCache_ClearKernels_def KernelCache_GetKernels_def KernelCache_HasKernels_def
      update_conv')

theorem KernelCache_ClearKernels_breaks_witness:
  "\<exists>kc'. KernelCache_ClearKernels \<lparr>kernel_map = [((''a'', ''n''), [Kernel True ''k'' None])], program_map = []\<rparr>
      ''a'' ''n'' = Inr kc'
    \<and> KernelCache_HasKernels kc' ''a'' ''n''
        = throw ''There should be at least one kernel in kernel cache if an entry exists''"
  using KernelCache_ClearKernels_breaks [of "''a''" "''n''"] by blast

section \<open>The invoker cache\<close>

record 'i invoker_item =
  found_1_0 :: "(string \<times> string) list"
  item_invokers :: "(string \<times> 'i) list"

type_synonym 'i invoker_cache = "(string \<times> 'i invoker_item) list"

definition InvokerCache_get :: "'i invoker_cache \<Rightarrow> string \<times> string \<Rightarrow> 'i option" where
  "InvokerCache_get ic key =
     (case map_of ic (fst key) of
        None \<Rightarrow> None
      | Some item \<Rightarrow> map_of (item_invokers item) (snd key))"

definition InvokerCache_GetFound1_0 :: "'i invoker_cache \<Rightarrow> string \<Rightarrow> string \<Rightarrow> ('i option) result" where
  "InvokerCache_GetFound1_0 ic network_config algorithm =
     (case map_of ic network_config of
        None \<Rightarrow> Inr None
      | Some item \<Rightarrow>
          if found_1_0 item = [] then Inr None
          else
            (case map_of (found_1_0 item) algorithm of
               None \<Rightarrow> Inr None
             | Some solver_id \<Rightarrow>
                 (case map_of (item_invokers item) solver_id of
                    None \<Rightarrow> throw (''No invoker with solver_id of '' @ solver_id @ '' was registered for '' @ network_config)
                  | Some invoker \<Rightarrow> Inr (Some invoker))))"

text \<open>\<open>insert\<close> keeps an element that is there.\<close>

definition insert_new :: "string \<Rightarrow> 'v \<Rightarrow> (string \<times> 'v) list \<Rightarrow> (string \<times> 'v) list" where
  "insert_new k v m = (if map_of m k \<noteq> None then m else m @ [(k, v)])"

definition InvokerCache_Register :: "'i invoker_cache \<Rightarrow> string \<times> string \<Rightarrow> 'i \<Rightarrow> 'i invoker_cache" where
  "InvokerCache_Register ic key invoker =
     (let add = (\<lambda>item. item\<lparr>item_invokers := insert_new (snd key) invoker (item_invokers item)\<rparr>);
          ic1 = (case map_of ic (fst key) of
                   Some item \<Rightarrow> AList.update (fst key) (add item) ic | None \<Rightarrow> ic);
          ic2 = insert_new (fst key) \<lparr>found_1_0 = [], item_invokers = []\<rparr> ic1
      in AList.update (fst key) (add (the (map_of ic2 (fst key)))) ic2)"

definition InvokerCache_SetAsFound1_0 ::
  "'i invoker_cache \<Rightarrow> string \<Rightarrow> string \<Rightarrow> string \<Rightarrow> 'i invoker_cache result" where
  "InvokerCache_SetAsFound1_0 ic network_config algorithm solver_id =
     (case map_of ic network_config of
        None \<Rightarrow> throw (''No invoker was registered for '' @ network_config)
      | Some item \<Rightarrow>
          (case map_of (item_invokers item) solver_id of
             None \<Rightarrow> throw (''No invoker with solver_id of '' @ solver_id @ '' was registered for '' @ network_config)
           | Some _ \<Rightarrow>
               Inr (AList.update network_config
                 (item\<lparr>found_1_0 := AList.update algorithm solver_id (found_1_0 item)\<rparr>) ic)))"

lemma insert_new_lookup [simp]:
  "map_of (insert_new k v m) = (if map_of m k = None then (map_of m)(k \<mapsto> v) else map_of m)"
  by (auto simp: insert_new_def fun_eq_iff map_add_def split: option.splits)

lemma insert_new_again [simp]: "insert_new k v (insert_new k v m) = insert_new k v m"
  by (simp add: insert_new_def)

lemma insert_new_Nil [simp]: "insert_new k v [] = [(k, v)]"
  by (simp add: insert_new_def)

text \<open>Every found solver has an invoker.\<close>

definition ic_inv :: "'i invoker_cache \<Rightarrow> bool" where
  "ic_inv ic \<longleftrightarrow> (\<forall>n item a s. map_of ic n = Some item \<longrightarrow> map_of (found_1_0 item) a = Some s \<longrightarrow>
     map_of (item_invokers item) s \<noteq> None)"

lemma Register_lookup:
  "map_of (InvokerCache_Register ic key invoker)
    = (map_of ic)(fst key \<mapsto>
        (case map_of ic (fst key) of
           None \<Rightarrow> \<lparr>found_1_0 = [], item_invokers = [(snd key, invoker)]\<rparr>
         | Some item \<Rightarrow> item\<lparr>item_invokers := insert_new (snd key) invoker (item_invokers item)\<rparr>))"
  by (cases "map_of ic (fst key)")
    (auto simp: InvokerCache_Register_def Let_def update_conv')

lemma Register_inv: "ic_inv ic \<Longrightarrow> ic_inv (InvokerCache_Register ic key invoker)"
  unfolding ic_inv_def Register_lookup
  by (auto split: if_splits option.splits)

lemma SetAsFound_inv:
  "ic_inv ic \<Longrightarrow> InvokerCache_SetAsFound1_0 ic n a s = Inr ic' \<Longrightarrow> ic_inv ic'"
  by (auto simp: ic_inv_def InvokerCache_SetAsFound1_0_def update_conv' split: option.splits if_splits)

text \<open>The sequences of calls that build an invoker cache.\<close>

inductive ic_reach :: "'i invoker_cache \<Rightarrow> bool" where
  start: "ic_reach []"
| register: "ic_reach ic \<Longrightarrow> ic_reach (InvokerCache_Register ic key invoker)"
| found: "ic_reach ic \<Longrightarrow> InvokerCache_SetAsFound1_0 ic n a s = Inr ic' \<Longrightarrow> ic_reach ic'"

lemma ic_reach_inv: "ic_reach ic \<Longrightarrow> ic_inv ic"
  by (induction rule: ic_reach.induct) (auto intro: Register_inv SetAsFound_inv simp: ic_inv_def [of "[]"])

text \<open>The invoker cache.  In every cache that \<open>Register\<close> and \<open>SetAsFound1_0\<close> build,
  \<open>GetFound1_0\<close> never throws; after a successful \<open>SetAsFound1_0\<close> it returns the invoker
  registered for the solver, and the first registration under a key is the one that counts.\<close>

theorem InvokerCache_found:
  assumes "ic_reach ic"
  shows "(\<exists>r. InvokerCache_GetFound1_0 ic n a = Inr r)
    \<and> (\<forall>ic' s. InvokerCache_SetAsFound1_0 ic n a s = Inr ic' \<longrightarrow>
          InvokerCache_GetFound1_0 ic' n a = Inr (InvokerCache_get ic (n, s))
          \<and> InvokerCache_get ic (n, s) \<noteq> None)
    \<and> (\<forall>key x. InvokerCache_get (InvokerCache_Register ic key x) key
          = (case InvokerCache_get ic key of None \<Rightarrow> Some x | Some y \<Rightarrow> Some y))"
proof -
  have inv: "ic_inv ic" by (rule ic_reach_inv [OF assms])
  have 1: "\<exists>r. InvokerCache_GetFound1_0 ic n a = Inr r"
    using inv by (fastforce simp: ic_inv_def InvokerCache_GetFound1_0_def split: option.splits)
  have ne: "AList.update k v m \<noteq> []" for k v and m :: "(string \<times> string) list"
    by (cases m) auto
  have 2: "InvokerCache_GetFound1_0 ic' n a = Inr (InvokerCache_get ic (n, s))
      \<and> InvokerCache_get ic (n, s) \<noteq> None"
    if "InvokerCache_SetAsFound1_0 ic n a s = Inr ic'" for ic' s
    using that ne
    by (auto simp: InvokerCache_SetAsFound1_0_def InvokerCache_GetFound1_0_def InvokerCache_get_def
        update_conv' split: option.splits)
  have 3: "InvokerCache_get (InvokerCache_Register ic key x) key
      = (case InvokerCache_get ic key of None \<Rightarrow> Some x | Some y \<Rightarrow> Some y)" for key x
    by (auto simp: InvokerCache_get_def Register_lookup split: option.splits)
  from 1 2 3 show ?thesis by blast
qed

theorem InvokerCache_found_witness:
  "let ic = InvokerCache_Register (InvokerCache_Register [] (''cfg'', ''s1'') (7::nat)) (''cfg'', ''s2'') 8 in
   \<exists>ic'. InvokerCache_SetAsFound1_0 ic ''cfg'' ''fwd'' ''s2'' = Inr ic'
     \<and> InvokerCache_GetFound1_0 ic' ''cfg'' ''fwd'' = Inr (Some 8)"
proof -
  let ?ic = "InvokerCache_Register (InvokerCache_Register [] (''cfg'', ''s1'') (7::nat)) (''cfg'', ''s2'') 8"
  have r: "ic_reach ?ic" by (intro ic_reach.intros)
  have g: "InvokerCache_get ?ic (''cfg'', ''s2'') = Some 8"
    by (simp add: InvokerCache_get_def Register_lookup insert_new_def)
  obtain ic' where s: "InvokerCache_SetAsFound1_0 ?ic ''cfg'' ''fwd'' ''s2'' = Inr ic'"
    by (simp add: InvokerCache_SetAsFound1_0_def Register_lookup insert_new_def)
  with InvokerCache_found [OF r, of "''cfg''" "''fwd''"] g show ?thesis by (auto simp: Let_def)
qed

end
