(* ===== verification/Serialize.thy ===== *)
theory Serialize
  imports Db_Interface
begin

text \<open>
  The serialization framework (\<open>src/include/miopen/serializable.hpp\<close>): the fields of a value,
  in the order its \<open>Visit\<close> names them, printed with a separator and read back with
  \<open>std::getline\<close> and \<open>operator>>\<close>.

  A value is the list of its fields.  Field types: \<open>int\<close> (kept in the 32-bit range by
  \<open>operator>>\<close>, which saturates), \<open>std::size_t\<close>, \<open>bool\<close>, \<open>std::string\<close>, and \<open>float\<close>, which
  is the type parameter \<open>'f\<close> with the two functions \<open>fshow\<close> and \<open>fread\<close> that stand for the
  stream operators on it.
\<close>

datatype 'f field = FInt int | FSize nat | FBool bool | FStr string | FFloat 'f

section \<open>Stream operators\<close>

function digits :: "nat \<Rightarrow> string" where
  "digits n = (if n < 10 then [char_of (48 + n)] else digits (n div 10) @ [char_of (48 + n mod 10)])"
  by pat_completeness auto
termination by (relation "measure id") auto

declare digits.simps [simp del]

definition show_int :: "int \<Rightarrow> string" where
  "show_int i = (if i < 0 then CHR ''-'' # digits (nat (- i)) else digits (nat i))"

definition is_digit :: "char \<Rightarrow> bool" where
  "is_digit c \<longleftrightarrow> 48 \<le> (of_char c :: nat) \<and> (of_char c :: nat) \<le> 57"

definition is_space :: "char \<Rightarrow> bool" where
  "is_space c \<longleftrightarrow> c = CHR '' '' \<or> (9 \<le> (of_char c :: nat) \<and> (of_char c :: nat) \<le> 13)"

definition digits_value :: "string \<Rightarrow> nat" where
  "digits_value s = foldl (\<lambda>a c. a * 10 + (of_char c - 48)) 0 s"

text \<open>\<open>stream >> x\<close>: nothing but white space leaves \<open>x\<close> as it was; an integer is the longest
  prefix of digits after an optional sign, saturated (0 when there is no digit); an unsigned
  number with a minus sign is negated modulo \<open>2 ^ 64\<close>.\<close>

definition scan_sign :: "string \<Rightarrow> bool \<times> string" where
  "scan_sign t = (case t of
      [] \<Rightarrow> (False, t)
    | c # t' \<Rightarrow> if c = CHR ''-'' then (True, t') else if c = CHR ''+'' then (False, t') else (False, t))"

definition read_int :: "int \<Rightarrow> string \<Rightarrow> int" where
  "read_int old s =
     (let t = dropWhile is_space s in
      if t = [] then old
      else
        (case scan_sign t of (neg, u) \<Rightarrow>
           let n = int (digits_value (takeWhile is_digit u)); v = (if neg then - n else n)
           in max (- (2 ^ 31)) (min (2 ^ 31 - 1) v)))"

definition read_size :: "nat \<Rightarrow> string \<Rightarrow> nat" where
  "read_size old s =
     (let t = dropWhile is_space s in
      if t = [] then old
      else
        (case scan_sign t of (neg, u) \<Rightarrow>
           let n = digits_value (takeWhile is_digit u)
           in if n \<ge> 2 ^ 64 then 2 ^ 64 - 1
              else if neg then (2 ^ 64 - n) mod 2 ^ 64 else n))"

definition read_bool :: "bool \<Rightarrow> string \<Rightarrow> bool" where
  "read_bool old s =
     (let t = dropWhile is_space s in
      if t = [] then old
      else
        (case scan_sign t of (neg, u) \<Rightarrow> digits_value (takeWhile is_digit u) \<noteq> 0))"

definition read_string :: "string \<Rightarrow> string \<Rightarrow> string" where
  "read_string old s =
     (let t = dropWhile is_space s in if t = [] then old else takeWhile (\<lambda>c. \<not> is_space c) t)"

section \<open>\<open>SerDes\<close>\<close>

fun show_field :: "('f \<Rightarrow> string) \<Rightarrow> 'f field \<Rightarrow> string" where
  "show_field fshow (FInt i) = show_int i"
| "show_field fshow (FSize n) = digits n"
| "show_field fshow (FBool b) = (if b then ''1'' else ''0'')"
| "show_field fshow (FStr s) = s"
| "show_field fshow (FFloat f) = fshow f"

text \<open>\<open>Parse<T>::apply\<close> always reports success.\<close>

fun Parse_apply :: "(string \<Rightarrow> 'f) \<Rightarrow> string \<Rightarrow> 'f field \<Rightarrow> 'f field \<times> bool" where
  "Parse_apply fread s (FInt i) = (FInt (read_int i s), True)"
| "Parse_apply fread s (FSize n) = (FSize (read_size n s), True)"
| "Parse_apply fread s (FBool b) = (FBool (read_bool b s), True)"
| "Parse_apply fread s (FStr t) = (FStr (read_string t s), True)"
| "Parse_apply fread s (FFloat f) = (FFloat (fread s), True)"

definition SerializeField :: "char \<Rightarrow> ('f \<Rightarrow> string) \<Rightarrow> string \<times> bool \<Rightarrow> 'f field \<Rightarrow> string \<times> bool" where
  "SerializeField sep fshow st x =
     (case st of (stream, not_first) \<Rightarrow>
        ((if not_first then stream @ [sep] else stream) @ show_field fshow x, True))"

definition SerDes_Serialize :: "char \<Rightarrow> ('f \<Rightarrow> string) \<Rightarrow> 'f field list \<Rightarrow> string" where
  "SerDes_Serialize sep fshow self = fst (foldl (SerializeField sep fshow) ([], False) self)"

text \<open>The fields of \<open>out\<close> are read in turn; \<open>getline\<close> fails at the end of the stream.\<close>

fun DeserializeFields :: "char \<Rightarrow> (string \<Rightarrow> 'f) \<Rightarrow> bool \<Rightarrow> string \<Rightarrow> 'f field list \<Rightarrow> 'f field list \<times> bool" where
  "DeserializeFields sep fread ok stream [] = ([], ok)"
| "DeserializeFields sep fread ok stream (x # xs) =
     (if \<not> ok then (x # xs, False)
      else if stream = [] then (x # xs, False)
      else
        let part = takeWhile (\<lambda>c. c \<noteq> sep) stream;
            rest = drop 1 (dropWhile (\<lambda>c. c \<noteq> sep) stream);
            (y, ok') = Parse_apply fread part x;
            (ys, ok'') = DeserializeFields sep fread ok' rest xs
        in (y # ys, ok''))"

definition SerDes_Deserialize ::
  "char \<Rightarrow> (string \<Rightarrow> 'f) \<Rightarrow> 'f field list \<Rightarrow> string \<Rightarrow> 'f field list option" where
  "SerDes_Deserialize sep fread self s =
     (case DeserializeFields sep fread True s self of (out, ok) \<Rightarrow> if \<not> ok then None else Some out)"

section \<open>Round trip\<close>

lemma of_char_digit: "n < 10 \<Longrightarrow> of_char (char_of (48 + n) :: char) = 48 + n"
  for n :: nat
  by simp

lemma digits_all: "c \<in> set (digits n) \<Longrightarrow> is_digit c"
proof (induction n rule: digits.induct)
  case (1 n)
  have "is_digit (char_of (48 + m))" if "m < 10" for m :: nat
    using that by (simp add: is_digit_def)
  then have d: "is_digit (char_of (48 + n mod 10))" "n < 10 \<Longrightarrow> is_digit (char_of (48 + n))"
    by simp_all
  show ?case
  proof (cases "n < 10")
    case True
    with 1(2) d(2) show ?thesis
      by (subst (asm) digits.simps) (simp only: if_True list.set, blast)
  next
    case False
    with 1(2) have "c \<in> set (digits (n div 10)) \<or> c = char_of (48 + n mod 10)"
      by (subst (asm) digits.simps) (simp only: if_False set_append list.set, blast)
    with 1(1) [OF False] d(1) show ?thesis by blast
  qed
qed

lemma digits_nonempty [simp]: "digits n \<noteq> []"
  by (subst digits.simps) simp

lemma digits_value_digits [simp]: "digits_value (digits n) = n"
proof (induction n rule: digits.induct)
  case (1 n)
  have m: "n div 10 * 10 + n mod 10 = n" by simp
  show ?case
    by (subst digits.simps) (use 1 m in \<open>simp add: digits_value_def\<close>)
qed

lemma digit_not_special:
  "is_digit c \<Longrightarrow> \<not> is_space c \<and> c \<noteq> CHR ''-'' \<and> c \<noteq> CHR ''+''
     \<and> c \<noteq> CHR '','' \<and> c \<noteq> CHR '';'' \<and> c \<noteq> CHR '':'' \<and> c \<noteq> CHR 0x0A"
  by (auto simp: is_digit_def is_space_def)

lemma takeWhile_digits [simp]: "takeWhile is_digit (digits n) = digits n"
  using digits_all by (simp add: takeWhile_eq_all_conv)

lemma scan_digits [simp]:
  "scan_sign (digits n) = (False, digits n)" "dropWhile is_space (digits n) = digits n"
proof -
  obtain c s where d: "digits n = c # s" by (cases "digits n") auto
  then have "is_digit c" using digits_all by (metis list.set_intros(1))
  then have "\<not> is_space c" "c \<noteq> CHR ''-''" "c \<noteq> CHR ''+''"
    using digit_not_special by blast+
  then show "scan_sign (digits n) = (False, digits n)" "dropWhile is_space (digits n) = digits n"
    unfolding d by (simp_all add: scan_sign_def)
qed

lemma read_show_int: "- (2 ^ 31) \<le> i \<Longrightarrow> i < 2 ^ 31 \<Longrightarrow> read_int old (show_int i) = i"
proof -
  assume i: "- (2 ^ 31) \<le> i" "i < 2 ^ 31"
  have m: "\<not> is_space CHR ''-''" by (simp add: is_space_def)
  then have d: "dropWhile is_space (CHR ''-'' # s) = CHR ''-'' # s"
    "scan_sign (CHR ''-'' # s) = (True, s)" for s
    by (simp_all add: scan_sign_def)
  show ?thesis
  proof (cases "i < 0")
    case True
    then have "show_int i = CHR ''-'' # digits (nat (- i))" by (simp add: show_int_def)
    then show ?thesis
      using i True by (simp add: read_int_def d m)
  next
    case False
    then have "show_int i = digits (nat i)" by (simp add: show_int_def)
    then show ?thesis
      using i False by (simp only: read_int_def scan_digits) simp
  qed
qed

lemma read_show_size: "n < 2 ^ 64 \<Longrightarrow> read_size old (digits n) = n"
  by (simp add: read_size_def Let_def)

lemma read_show_bool: "read_bool old (show_field fshow (FBool b)) = b"
  by (cases b) (simp_all add: read_bool_def scan_sign_def is_space_def is_digit_def digits_value_def)

lemma read_show_string: "s \<noteq> [] \<Longrightarrow> \<forall>c \<in> set s. \<not> is_space c \<Longrightarrow> read_string old s = s"
  by (cases s) (auto simp: read_string_def takeWhile_eq_all_conv)

text \<open>The fields that can be read back, into a field of the same type.\<close>

fun field_ok :: "char \<Rightarrow> ('f \<Rightarrow> string) \<Rightarrow> (string \<Rightarrow> 'f) \<Rightarrow> 'f field \<Rightarrow> bool" where
  "field_ok sep fshow fread (FInt i) \<longleftrightarrow> - (2 ^ 31) \<le> i \<and> i < 2 ^ 31"
| "field_ok sep fshow fread (FSize n) \<longleftrightarrow> n < 2 ^ 64"
| "field_ok sep fshow fread (FBool b) \<longleftrightarrow> True"
| "field_ok sep fshow fread (FStr s) \<longleftrightarrow> s \<noteq> [] \<and> sep \<notin> set s \<and> (\<forall>c \<in> set s. \<not> is_space c)"
| "field_ok sep fshow fread (FFloat f) \<longleftrightarrow> fread (fshow f) = f \<and> fshow f \<noteq> [] \<and> sep \<notin> set (fshow f)"

fun same_type :: "'f field \<Rightarrow> 'f field \<Rightarrow> bool" where
  "same_type (FInt _) (FInt _) \<longleftrightarrow> True"
| "same_type (FSize _) (FSize _) \<longleftrightarrow> True"
| "same_type (FBool _) (FBool _) \<longleftrightarrow> True"
| "same_type (FStr _) (FStr _) \<longleftrightarrow> True"
| "same_type (FFloat _) (FFloat _) \<longleftrightarrow> True"
| "same_type _ _ \<longleftrightarrow> False"

definition sep_ok :: "char \<Rightarrow> bool" where
  "sep_ok sep \<longleftrightarrow> \<not> is_digit sep \<and> sep \<noteq> CHR ''-''"

lemma show_field_clean:
  assumes "field_ok sep fshow fread x" "sep_ok sep"
  shows "show_field fshow x \<noteq> [] \<and> sep \<notin> set (show_field fshow x)"
proof (cases x)
  case (FInt i)
  then show ?thesis
    using assms(2) digits_all by (auto simp: show_int_def sep_ok_def)
next
  case (FSize n)
  then show ?thesis using assms(2) digits_all by (auto simp: sep_ok_def)
next
  case (FBool b)
  then show ?thesis using assms(2) by (auto simp: sep_ok_def is_digit_def)
qed (use assms in auto)

lemma Parse_show:
  assumes "field_ok sep fshow fread x" "same_type x y"
  shows "Parse_apply fread (show_field fshow x) y = (x, True)"
  using assms read_show_bool [of _ fshow]
  by (cases x; cases y) (auto simp: read_show_int read_show_size read_show_string)

lemma foldl_SerializeField:
  "fst (foldl (SerializeField sep fshow) (acc, True) xs)
    = acc @ concat (map (\<lambda>x. sep # show_field fshow x) xs)"
  by (induction xs arbitrary: acc) (simp_all add: SerializeField_def)

lemma SerDes_Serialize_join:
  "SerDes_Serialize sep fshow xs = join_with [sep] (map (show_field fshow) xs)"
  by (cases xs) (simp_all add: SerDes_Serialize_def SerializeField_def foldl_SerializeField
      join_with_concat o_def)

lemma DeserializeFields_join:
  assumes "sep_ok sep"
  shows "\<forall>x \<in> set xs. field_ok sep fshow fread x \<Longrightarrow> list_all2 same_type xs ys \<Longrightarrow>
    DeserializeFields sep fread True (join_with [sep] (map (show_field fshow) xs)) ys = (xs, True)"
proof (induction xs arbitrary: ys)
  case (Cons x xs)
  then obtain y ys' where ys: "ys = y # ys'" "same_type x y" "list_all2 same_type xs ys'"
    by (auto simp: list_all2_Cons1)
  let ?s = "show_field fshow x" and ?r = "join_with [sep] (map (show_field fshow) xs)"
  have s: "?s \<noteq> []" "sep \<notin> set ?s" and p: "Parse_apply fread ?s y = (x, True)"
    using show_field_clean [OF _ assms, of fshow fread x] Parse_show [of sep fshow fread x y] ys Cons.prems(1) by auto
  show ?case
  proof (cases xs)
    case Nil
    with s p ys show ?thesis
      by (simp add: until_end del: takeWhile_eq_all_conv dropWhile_eq_Nil_conv)
  next
    case (Cons x' xs')
    then have j: "join_with [sep] (map (show_field fshow) (x # xs)) = ?s @ sep # ?r"
      by (simp add: join_with_Cons)
    have "DeserializeFields sep fread True ?r ys' = (xs, True)"
      using Cons.IH [OF _ ys(3)] Cons.prems(1) by simp
    then show ?thesis
      unfolding j ys(1) using s p by (simp add: until_found)
  qed
qed simp

lemma set_join_with: "set (join_with d xs) \<subseteq> set d \<union> \<Union> (set ` set xs)"
  by (induction d xs rule: join_with.induct) auto

text \<open>C11: Serialization round trip.  A value whose fields are in range (strings without white
  space or separator and not empty, floats that survive their own printing) is read back
  exactly by \<open>Deserialize\<close> from what \<open>Serialize\<close> printed, whatever the fields held before.\<close>

theorem SerDes_roundtrip:
  assumes "sep_ok sep" "\<forall>x \<in> set xs. field_ok sep fshow fread x" "list_all2 same_type xs ys"
  shows "SerDes_Deserialize sep fread ys (SerDes_Serialize sep fshow xs) = Some xs"
  using DeserializeFields_join [OF assms]
  by (simp add: SerDes_Deserialize_def SerDes_Serialize_join)

theorem SerDes_roundtrip_witness:
  "SerDes_Deserialize CHR '','' (\<lambda>s. ()) [FInt 0, FSize 7, FBool False, FStr ''x'']
     (SerDes_Serialize CHR '','' (\<lambda>f::unit. ''0'') [FInt (-12), FSize 4096, FBool True, FStr ''abc''])
   = Some [FInt (-12), FSize 4096, FBool True, FStr ''abc'']"
  by (rule SerDes_roundtrip) (auto simp: sep_ok_def is_digit_def is_space_def)

end
