(* ===== verification/Controls.thy ===== *)
theory Controls
  imports Serialize Runtime_Caches
begin

text \<open>
  Settings and names: environment variables (\<open>src/include/miopen/env.hpp\<close>), the find controls
  (\<open>src/find_controls.cpp\<close>), algorithm names (\<open>src/conv_algo_name.cpp\<close>), the properties of a
  target and the id that names its databases (\<open>src/target_properties.cpp\<close>), and the build
  parameters of a kernel (\<open>src/kernel_build_params.cpp\<close>).

  An environment variable is \<open>None\<close> when it is not set.  The values cached in function-local
  statics are the values of their first evaluation; logging is not modelled.
\<close>

section \<open>Environment variables\<close>

definition IsEnvvarValueDisabled :: "string option \<Rightarrow> bool" where
  "IsEnvvarValueDisabled v = (case v of None \<Rightarrow> False
     | Some s \<Rightarrow> s \<in> {''disable'', ''disabled'', ''0'', ''no'', ''false''})"

definition IsEnvvarValueEnabled :: "string option \<Rightarrow> bool" where
  "IsEnvvarValueEnabled v = (case v of None \<Rightarrow> False
     | Some s \<Rightarrow> s \<in> {''enable'', ''enabled'', ''1'', ''yes'', ''true''})"

text \<open>\<open>strtoul(s, nullptr, 0)\<close>: white space, a sign, the base from the prefix, the digits of
  that base; saturated at \<open>2 ^ 64 - 1\<close>, negated modulo \<open>2 ^ 64\<close> after a minus sign.\<close>

definition hex_value :: "char \<Rightarrow> nat option" where
  "hex_value c =
     (let n = of_char c :: nat in
      if 48 \<le> n \<and> n \<le> 57 then Some (n - 48)
      else if 97 \<le> n \<and> n \<le> 102 then Some (n - 87)
      else if 65 \<le> n \<and> n \<le> 70 then Some (n - 55) else None)"

fun base_value :: "nat \<Rightarrow> nat \<Rightarrow> string \<Rightarrow> nat" where
  "base_value b acc [] = acc"
| "base_value b acc (c # s) = (case hex_value c of
      Some d \<Rightarrow> if d < b then base_value b (acc * b + d) s else acc
    | None \<Rightarrow> acc)"

definition strtoul :: "string \<Rightarrow> nat" where
  "strtoul s =
     (case scan_sign (dropWhile is_space s) of (neg, u) \<Rightarrow>
        let n = (if take 2 u \<in> {''0x'', ''0X''} then base_value 16 0 (drop 2 u)
                 else if take 1 u = ''0'' then base_value 8 0 u else base_value 10 0 u)
        in if n \<ge> 2 ^ 64 then 2 ^ 64 - 1 else if neg then (2 ^ 64 - n) mod 2 ^ 64 else n)"

definition EnvvarValue :: "string option \<Rightarrow> nat \<Rightarrow> nat" where
  "EnvvarValue v fallback = (case v of None \<Rightarrow> fallback | Some s \<Rightarrow> strtoul s)"

section \<open>Find controls\<close>

text \<open>An enumeration over \<open>int\<close>; a value is cast to it modulo \<open>2 ^ 32\<close>.\<close>

datatype find_enforce = Enforce_None | DbUpdate | Search | SearchDbUpdate | DbClean

definition enforce_value :: "find_enforce \<Rightarrow> int" where
  "enforce_value a = (case a of Enforce_None \<Rightarrow> 1 | DbUpdate \<Rightarrow> 2 | Search \<Rightarrow> 3 | SearchDbUpdate \<Rightarrow> 4
     | DbClean \<Rightarrow> 5)"

definition to_enum :: "nat \<Rightarrow> int" where
  "to_enum n = sint (of_nat n :: 32 word)"

definition ToCString_enforce :: "find_enforce \<Rightarrow> string" where
  "ToCString_enforce mode = (case mode of
      Enforce_None \<Rightarrow> ''NONE'' | DbUpdate \<Rightarrow> ''DB_UPDATE'' | Search \<Rightarrow> ''SEARCH''
    | SearchDbUpdate \<Rightarrow> ''SEARCH_DB_UPDATE'' | DbClean \<Rightarrow> ''CLEAN'')"

definition toupper :: "char \<Rightarrow> char" where
  "toupper c = (let n = of_char c :: nat in if 97 \<le> n \<and> n \<le> 122 then char_of (n - 32) else c)"

definition GetFindEnforceActionImpl :: "string option \<Rightarrow> find_enforce" where
  "GetFindEnforceActionImpl env =
     (case env of
        None \<Rightarrow> Enforce_None
      | Some p_asciz \<Rightarrow>
          (let str = map toupper p_asciz in
           if str = ''NONE'' then Enforce_None
           else if str = ''DB_UPDATE'' then DbUpdate
           else if str = ''SEARCH'' then Search
           else if str = ''SEARCH_DB_UPDATE'' then SearchDbUpdate
           else if str = ''DB_CLEAN'' then DbClean
           else
             let val = to_enum (EnvvarValue env 0) in
             if val = 1 then Enforce_None else if val = 2 then DbUpdate else if val = 3 then Search
             else if val = 4 then SearchDbUpdate else if val = 5 then DbClean
             else Enforce_None))"

text \<open>\<open>disable\<close> is \<open>context.disable_search_enforce || debug::FindEnforceDisable\<close>.\<close>

definition FindEnforce_IsDbClean :: "find_enforce \<Rightarrow> bool \<Rightarrow> bool" where
  "FindEnforce_IsDbClean action disable \<longleftrightarrow> \<not> disable \<and> action = DbClean"

definition FindEnforce_IsSearch :: "find_enforce \<Rightarrow> bool \<Rightarrow> bool" where
  "FindEnforce_IsSearch action disable \<longleftrightarrow> \<not> disable \<and> (action = Search \<or> action = SearchDbUpdate)"

definition FindEnforce_IsDbUpdate :: "find_enforce \<Rightarrow> bool \<Rightarrow> bool" where
  "FindEnforce_IsDbUpdate action disable \<longleftrightarrow> \<not> disable \<and> (action = DbUpdate \<or> action = SearchDbUpdate)"

definition FindEnforce_IsSomethingEnforced :: "find_enforce \<Rightarrow> bool \<Rightarrow> bool" where
  "FindEnforce_IsSomethingEnforced action disable \<longleftrightarrow> \<not> disable
     \<and> enforce_value DbUpdate \<le> enforce_value action \<and> enforce_value action \<le> enforce_value DbClean"

datatype find_mode = Mode_Normal | Mode_Fast | Mode_Hybrid | Mode_DeprecatedFastHybrid | Mode_DynamicHybrid

definition ToCString_mode :: "find_mode \<Rightarrow> string" where
  "ToCString_mode mode = (case mode of
      Mode_Normal \<Rightarrow> ''NORMAL'' | Mode_Fast \<Rightarrow> ''FAST'' | Mode_Hybrid \<Rightarrow> ''HYBRID''
    | Mode_DeprecatedFastHybrid \<Rightarrow> ''<Unknown>'' | Mode_DynamicHybrid \<Rightarrow> ''DYNAMIC_HYBRID'')"

text \<open>\<open>dflt\<close> is the build setting \<open>MIOPEN_DEFAULT_FIND_MODE\<close>.\<close>

definition GetFindModeValueImpl2 :: "find_mode \<Rightarrow> string option \<Rightarrow> find_mode" where
  "GetFindModeValueImpl2 dflt env =
     (case env of
        None \<Rightarrow> dflt
      | Some p_asciz \<Rightarrow>
          (let str = map toupper p_asciz in
           if str = ''NORMAL'' then Mode_Normal
           else if str = ''FAST'' then Mode_Fast
           else if str = ''HYBRID'' then Mode_Hybrid
           else if str = ''DYNAMIC_HYBRID'' then Mode_DynamicHybrid
           else
             let val = to_enum (EnvvarValue env 0) in
             if val = 1 then Mode_Normal else if val = 2 then Mode_Fast else if val = 3 then Mode_Hybrid
             else if val = 4 then Mode_DeprecatedFastHybrid else if val = 5 then Mode_DynamicHybrid
             else dflt))"

definition FindMode_IsFast :: "find_mode \<Rightarrow> find_enforce \<Rightarrow> bool \<Rightarrow> bool" where
  "FindMode_IsFast value action disable \<longleftrightarrow>
     value = Mode_Fast \<and> \<not> FindEnforce_IsSomethingEnforced action disable"

definition FindMode_IsHybrid :: "find_mode \<Rightarrow> find_enforce \<Rightarrow> bool \<Rightarrow> bool" where
  "FindMode_IsHybrid value action disable \<longleftrightarrow>
     (value = Mode_Hybrid \<or> value = Mode_DynamicHybrid) \<and> \<not> FindEnforce_IsSomethingEnforced action disable"

definition FindMode_IsDynamicHybrid :: "find_mode \<Rightarrow> find_enforce \<Rightarrow> bool \<Rightarrow> bool" where
  "FindMode_IsDynamicHybrid value action disable \<longleftrightarrow>
     value = Mode_DynamicHybrid \<and> \<not> FindEnforce_IsSomethingEnforced action disable"

text \<open>The list of solvers of \<open>MIOPEN_DEBUG_FIND_ONLY_SOLVER\<close>.  The registry of solvers is the
  parameter \<open>registry\<close>, from solver names to their nonzero ids; an id is valid when some name
  has it.  \<open>strtoul\<close> in base 10 reports a value out of range through \<open>errno\<close>.\<close>

definition strtoul10 :: "string \<Rightarrow> nat option" where
  "strtoul10 s =
     (case scan_sign (dropWhile is_space s) of (neg, u) \<Rightarrow>
        let n = base_value 10 0 u
        in if n \<ge> 2 ^ 64 then None else Some (if neg then (2 ^ 64 - n) mod 2 ^ 64 else n))"

definition solver_numeric_id :: "(string \<times> nat) list \<Rightarrow> string \<Rightarrow> nat" where
  "solver_numeric_id registry kinder =
     (case strtoul10 kinder of
        Some n \<Rightarrow>
          if n = 0 then (case map_of registry kinder of Some i \<Rightarrow> i | None \<Rightarrow> 0)
          else if n \<in> snd ` set registry then n else 0
      | None \<Rightarrow> (case map_of registry kinder of Some i \<Rightarrow> i | None \<Rightarrow> 0))"

fun find_only_ids :: "(string \<times> nat) list \<Rightarrow> string list \<Rightarrow> nat list result" where
  "find_only_ids registry [] = Inr []"
| "find_only_ids registry (kinder # ks) =
     (let n = solver_numeric_id registry kinder in
      if n = 0 then throw_st miopenStatusBadParm (''Invalid value of MIOPEN_DEBUG_FIND_ONLY_SOLVER: '' @ kinder)
      else (case find_only_ids registry ks of Inl ex \<Rightarrow> Inl ex | Inr ids \<Rightarrow> Inr (n # ids)))"

definition GetEnvFindOnlySolverImpl :: "(string \<times> nat) list \<Rightarrow> string option \<Rightarrow> (nat list option) result" where
  "GetEnvFindOnlySolverImpl registry env =
     (case env of
        None \<Rightarrow> Inr None
      | Some s \<Rightarrow>
          (case find_only_ids registry (getlines CHR '';'' s) of
             Inl ex \<Rightarrow> Inl ex
           | Inr res \<Rightarrow> Inr (if res = [] then None else Some res)))"

text \<open>Reading back a find control.  What \<open>ToCString\<close> prints for an action or a mode is parsed
  back to it, in any mix of upper and lower case, except for the action \<open>DbClean\<close>, printed
  as \<open>CLEAN\<close>, which the parser does not know and replaces by the default, and for the
  deprecated mode, which has no name.\<close>

theorem find_controls_roundtrip:
  assumes "map toupper s = ToCString_enforce a" "map toupper m = ToCString_mode v"
  shows "GetFindEnforceActionImpl (Some s) = (if a = DbClean then Enforce_None else a)
    \<and> GetFindModeValueImpl2 dflt (Some m) = (if v = Mode_DeprecatedFastHybrid then dflt else v)"
proof -
  have up: "toupper c = d \<Longrightarrow> c = d \<or> (97 \<le> (of_char c :: nat) \<and> of_char c \<le> (122 :: nat))" for c d
    by (auto simp: toupper_def Let_def split: if_splits)
  have zero: "to_enum (EnvvarValue (Some (c # t)) 0) = 0"
    if "\<not> is_space c" "c \<noteq> CHR ''-''" "c \<noteq> CHR ''+''" "\<not> is_digit c" for c t
  proof -
    have "c \<noteq> CHR ''0''" using that(4) by (auto simp: is_digit_def)
    moreover have "hex_value c = None \<or> (\<exists>d. hex_value c = Some d \<and> 10 \<le> d)"
      using that(4) by (auto simp: hex_value_def is_digit_def Let_def)
    ultimately show ?thesis
      using that by (auto simp: EnvvarValue_def strtoul_def scan_sign_def to_enum_def numeral_2_eq_2)
  qed
  have "GetFindEnforceActionImpl (Some s) = (if a = DbClean then Enforce_None else a)"
  proof (cases "a = DbClean")
    case True
    then obtain c t where s: "s = c # t" "toupper c = CHR ''C''"
      using assms(1) by (cases s) (auto simp: ToCString_enforce_def)
    then have "\<not> is_space c \<and> c \<noteq> CHR ''-'' \<and> c \<noteq> CHR ''+'' \<and> \<not> is_digit c"
      using up [OF s(2)] by (auto simp: is_space_def is_digit_def)
    with True assms(1) zero [of c t] s(1) show ?thesis
      by (simp add: GetFindEnforceActionImpl_def ToCString_enforce_def Let_def)
  next
    case False
    with assms(1) show ?thesis
      by (cases a) (simp_all add: GetFindEnforceActionImpl_def ToCString_enforce_def Let_def)
  qed
  moreover have "GetFindModeValueImpl2 dflt (Some m) = (if v = Mode_DeprecatedFastHybrid then dflt else v)"
  proof (cases "v = Mode_DeprecatedFastHybrid")
    case True
    then obtain c t where m: "m = c # t" "toupper c = CHR ''<''"
      using assms(2) by (cases m) (auto simp: ToCString_mode_def)
    then have "\<not> is_space c \<and> c \<noteq> CHR ''-'' \<and> c \<noteq> CHR ''+'' \<and> \<not> is_digit c"
      using up [OF m(2)] by (auto simp: is_space_def is_digit_def)
    with True assms(2) zero [of c t] m(1) show ?thesis
      by (simp add: GetFindModeValueImpl2_def ToCString_mode_def Let_def)
  next
    case False
    with assms(2) show ?thesis
      by (cases v) (simp_all add: GetFindModeValueImpl2_def ToCString_mode_def Let_def)
  qed
  ultimately show ?thesis by blast
qed

theorem find_controls_roundtrip_witness:
  "GetFindEnforceActionImpl (Some ''search_Db_update'') = SearchDbUpdate
    \<and> GetFindModeValueImpl2 Mode_DynamicHybrid (Some ''fast'') = Mode_Fast
    \<and> GetFindEnforceActionImpl (Some ''CLEAN'') = Enforce_None"
proof -
  have 1: "map toupper ''search_Db_update'' = ToCString_enforce SearchDbUpdate"
    "map toupper ''fast'' = ToCString_mode Mode_Fast" "map toupper ''CLEAN'' = ToCString_enforce DbClean"
    by (simp_all add: toupper_def ToCString_enforce_def ToCString_mode_def char_of_eq_iff)
  show ?thesis
    using find_controls_roundtrip [OF 1(1,2)] find_controls_roundtrip [OF 1(3,2)] by simp
qed

section \<open>Algorithm names\<close>

datatype conv_algo = Algo_GEMM | Algo_Direct | Algo_FFT | Algo_Winograd | Algo_ImplicitGEMM

datatype direction = Forward | BackwardData | BackwardWeights

text \<open>The values of \<open>miopenConvAlgorithm_t\<close>; the enumerations of the directions agree with them,
  as the \<open>static_assert\<close>s of the file check.\<close>

definition algo_value :: "conv_algo \<Rightarrow> int" where
  "algo_value a = (case a of Algo_GEMM \<Rightarrow> 0 | Algo_Direct \<Rightarrow> 1 | Algo_FFT \<Rightarrow> 2 | Algo_Winograd \<Rightarrow> 3
     | Algo_ImplicitGEMM \<Rightarrow> 5)"

definition at_map :: "(string \<times> int) list \<Rightarrow> string \<Rightarrow> int result" where
  "at_map data s = (case map_of data s of Some v \<Rightarrow> Inr v | None \<Rightarrow> throw ''std::out_of_range'')"

definition StringToConvolutionFwdAlgo :: "string \<Rightarrow> int result" where
  "StringToConvolutionFwdAlgo = at_map
    [(''miopenConvolutionFwdAlgoGEMM'', 0), (''miopenConvolutionFwdAlgoDirect'', 1),
     (''miopenConvolutionFwdAlgoFFT'', 2), (''miopenConvolutionFwdAlgoWinograd'', 3),
     (''miopenConvolutionFwdAlgoImplicitGEMM'', 5)]"

definition StringToConvolutionBwdDataAlgo :: "string \<Rightarrow> int result" where
  "StringToConvolutionBwdDataAlgo = at_map
    [(''miopenConvolutionBwdDataAlgoGEMM'', 0), (''miopenConvolutionBwdDataAlgoDirect'', 1),
     (''miopenConvolutionBwdDataAlgoFFT'', 2), (''miopenConvolutionBwdDataAlgoWinograd'', 3),
     (''miopenTransposeBwdDataAlgoGEMM'', 4), (''miopenConvolutionBwdDataAlgoImplicitGEMM'', 5)]"

definition StringToConvolutionBwdWeightsAlgo :: "string \<Rightarrow> int result" where
  "StringToConvolutionBwdWeightsAlgo = at_map
    [(''miopenConvolutionBwdWeightsAlgoGEMM'', 0), (''miopenConvolutionBwdWeightsAlgoDirect'', 1),
     (''miopenConvolutionBwdWeightsAlgoWinograd'', 3), (''miopenConvolutionBwdWeightsAlgoImplicitGEMM'', 5)]"

definition ConvolutionAlgoToString :: "conv_algo \<Rightarrow> string" where
  "ConvolutionAlgoToString algo = (case algo of
      Algo_GEMM \<Rightarrow> ''miopenConvolutionAlgoGEMM'' | Algo_Direct \<Rightarrow> ''miopenConvolutionAlgoDirect''
    | Algo_FFT \<Rightarrow> ''miopenConvolutionAlgoFFT'' | Algo_Winograd \<Rightarrow> ''miopenConvolutionAlgoWinograd''
    | Algo_ImplicitGEMM \<Rightarrow> ''miopenConvolutionAlgoImplicitGEMM'')"

definition ConvolutionAlgoToDirectionalString :: "conv_algo \<Rightarrow> direction \<Rightarrow> string" where
  "ConvolutionAlgoToDirectionalString algo dir = (case dir of
      Forward \<Rightarrow> (case algo of
          Algo_GEMM \<Rightarrow> ''miopenConvolutionFwdAlgoGEMM'' | Algo_Direct \<Rightarrow> ''miopenConvolutionFwdAlgoDirect''
        | Algo_FFT \<Rightarrow> ''miopenConvolutionFwdAlgoFFT'' | Algo_Winograd \<Rightarrow> ''miopenConvolutionFwdAlgoWinograd''
        | Algo_ImplicitGEMM \<Rightarrow> ''miopenConvolutionFwdAlgoImplicitGEMM'')
    | BackwardData \<Rightarrow> (case algo of
          Algo_GEMM \<Rightarrow> ''miopenConvolutionBwdDataAlgoGEMM'' | Algo_Direct \<Rightarrow> ''miopenConvolutionBwdDataAlgoDirect''
        | Algo_FFT \<Rightarrow> ''miopenConvolutionBwdDataAlgoFFT'' | Algo_Winograd \<Rightarrow> ''miopenConvolutionBwdDataAlgoWinograd''
        | Algo_ImplicitGEMM \<Rightarrow> ''miopenConvolutionBwdDataAlgoImplicitGEMM'')
    | BackwardWeights \<Rightarrow> (case algo of
          Algo_GEMM \<Rightarrow> ''miopenConvolutionBwdWeightsAlgoGEMM'' | Algo_Direct \<Rightarrow> ''miopenConvolutionBwdWeightsAlgoDirect''
        | Algo_FFT \<Rightarrow> ''miopenConvolutionBwdWeightsAlgoFFT'' | Algo_Winograd \<Rightarrow> ''miopenConvolutionBwdWeightsAlgoWinograd''
        | Algo_ImplicitGEMM \<Rightarrow> ''miopenConvolutionBwdWeightsAlgoImplicitGEMM''))"

definition StringToAlgo :: "direction \<Rightarrow> string \<Rightarrow> int result" where
  "StringToAlgo dir = (case dir of Forward \<Rightarrow> StringToConvolutionFwdAlgo
    | BackwardData \<Rightarrow> StringToConvolutionBwdDataAlgo | BackwardWeights \<Rightarrow> StringToConvolutionBwdWeightsAlgo)"

text \<open>Algorithm names.  The name of an algorithm in a direction is parsed back to the
  algorithm's value by the parser of that direction, for every algorithm and direction except
  FFT in the backward weights direction, whose name the parser rejects with an exception; no
  parser accepts a name of another direction.\<close>

theorem conv_algo_names:
  "StringToAlgo dir (ConvolutionAlgoToDirectionalString algo dir)
     = (if dir = BackwardWeights \<and> algo = Algo_FFT then throw ''std::out_of_range''
        else Inr (algo_value algo))
   \<and> (dir' \<noteq> dir \<longrightarrow>
        StringToAlgo dir' (ConvolutionAlgoToDirectionalString algo dir) = throw ''std::out_of_range'')"
  by (cases dir; cases dir'; cases algo)
    (simp_all add: StringToAlgo_def ConvolutionAlgoToDirectionalString_def algo_value_def
      StringToConvolutionFwdAlgo_def StringToConvolutionBwdDataAlgo_def
      StringToConvolutionBwdWeightsAlgo_def at_map_def)

theorem conv_algo_names_witness:
  "StringToAlgo Forward (ConvolutionAlgoToDirectionalString Algo_FFT BackwardData)
     = throw ''std::out_of_range''"
  using conv_algo_names [of BackwardData Algo_FFT Forward] by simp

section \<open>Target properties\<close>

record target =
  tgt_name :: string
  tgt_dbId :: string
  tgt_xnack :: "bool option"
  tgt_sramecc :: "bool option"
  tgt_sramecc_reported :: "bool option"

definition device_name_map :: "(string \<times> string) list" where
  "device_name_map =
    [(''Ellesmere'', ''gfx803''), (''Baffin'', ''gfx803''), (''RacerX'', ''gfx803''),
     (''Polaris10'', ''gfx803''), (''Polaris11'', ''gfx803''), (''Tonga'', ''gfx803''),
     (''Fiji'', ''gfx803''), (''gfx800'', ''gfx803''), (''gfx802'', ''gfx803''),
     (''gfx804'', ''gfx803''), (''Vega10'', ''gfx900''), (''gfx901'', ''gfx900''),
     (''10.3.0 Sienna_Cichlid 18'', ''gfx1030'')]"

text \<open>\<open>enforce\<close> is the variable \<open>MIOPEN_DEBUG_ENFORCE_DEVICE\<close>.\<close>

definition GetDeviceNameFromMap :: "string option \<Rightarrow> string \<Rightarrow> string" where
  "GetDeviceNameFromMap enforce in0 =
     (case enforce of
        Some (c # cs) \<Rightarrow> c # cs
      | _ \<Rightarrow>
          (let name = (case find_char CHR '':'' in0 of Some n \<Rightarrow> take n in0 | None \<Rightarrow> in0)
           in case map_of device_name_map name of Some m \<Rightarrow> m | None \<Rightarrow> name))"

definition TargetProperties_InitDbId :: "target \<Rightarrow> target" where
  "TargetProperties_InitDbId t =
     (let name = tgt_name t;
          id1 = (if name = ''gfx906'' \<or> name = ''gfx908''
                 then (if tgt_sramecc t = None \<or> tgt_sramecc t = Some False
                       then name @ ''_nosramecc'' else name)
                 else (if tgt_sramecc t = Some True then name @ ''_sramecc'' else name))
      in t\<lparr>tgt_dbId := (if tgt_xnack t = Some True then id1 @ ''_xnack'' else id1)\<rparr>)"

text \<open>\<open>arch\<close> is the variable \<open>MIOPEN_DEVICE_ARCH\<close>, \<open>device\<close> the name the driver reports, and
  \<open>wa1204\<close> the build constant \<open>WORKAROUND_ISSUE_1204\<close>.\<close>

definition TargetProperties_Init ::
  "bool \<Rightarrow> string option \<Rightarrow> string option \<Rightarrow> string \<Rightarrow> target" where
  "TargetProperties_Init wa1204 enforce arch device =
     (let rawName = (case arch of Some (c # cs) \<Rightarrow> c # cs | _ \<Rightarrow> device);
          name = GetDeviceNameFromMap enforce rawName;
          sramecc = (if name = ''gfx906'' \<or> name = ''gfx908'' then Some True else None);
          reported = (if wa1204 \<and> name = ''gfx900'' then None
                      else if find_sub '':sramecc+'' rawName then Some True
                      else if find_sub '':sramecc-'' rawName then Some False
                      else sramecc);
          xnack = (if find_sub '':xnack+'' rawName then Some True
                   else if find_sub '':xnack-'' rawName then Some False
                   else None)
      in TargetProperties_InitDbId
           \<lparr>tgt_name = name, tgt_dbId = [], tgt_xnack = xnack, tgt_sramecc = sramecc,
            tgt_sramecc_reported = reported\<rparr>)"

text \<open>What a database id stands for.\<close>

definition sramecc_on :: "target \<Rightarrow> bool" where
  "sramecc_on t \<longleftrightarrow> tgt_sramecc t = Some True"

definition db_suffix :: "target \<Rightarrow> string" where
  "db_suffix t =
     (if tgt_name t = ''gfx906'' \<or> tgt_name t = ''gfx908''
      then (if sramecc_on t then [] else ''_nosramecc'') else (if sramecc_on t then ''_sramecc'' else []))
     @ (if tgt_xnack t = Some True then ''_xnack'' else [])"

lemma InitDbId_id: "tgt_dbId (TargetProperties_InitDbId t) = tgt_name t @ db_suffix t"
  by (cases "tgt_sramecc t") (auto simp: TargetProperties_InitDbId_def Let_def sramecc_on_def db_suffix_def)

lemma until_append:
  assumes "CHR ''_'' \<notin> set a" "CHR ''_'' \<notin> set b" "x = [] \<or> hd x = CHR ''_''" "y = [] \<or> hd y = CHR ''_''"
    and "a @ x = b @ y"
  shows "a = b \<and> x = y"
proof -
  have "takeWhile (\<lambda>c. c \<noteq> CHR ''_'') (a @ x) = a" if "CHR ''_'' \<notin> set a" "x = [] \<or> hd x = CHR ''_''" for a x
    using that by (induction a) (auto simp: takeWhile_eq_Nil_iff)
  from this [OF assms(1,3)] this [OF assms(2,4)] assms(5) show ?thesis by simp
qed

text \<open>Database ids.  Two targets whose names have no underscore get the same database id only
  when they agree on the name, on SRAM ECC being on and on XNACK being on.\<close>

theorem DbId_injective:
  assumes "CHR ''_'' \<notin> set (tgt_name t)" "CHR ''_'' \<notin> set (tgt_name u)"
    and "tgt_dbId (TargetProperties_InitDbId t) = tgt_dbId (TargetProperties_InitDbId u)"
  shows "tgt_name t = tgt_name u \<and> sramecc_on t = sramecc_on u
    \<and> (tgt_xnack t = Some True) = (tgt_xnack u = Some True)"
proof -
  have h: "db_suffix t = [] \<or> hd (db_suffix t) = CHR ''_''" for t by (auto simp: db_suffix_def)
  have "tgt_name t @ db_suffix t = tgt_name u @ db_suffix u"
    using assms(3) by (simp only: InitDbId_id)
  from until_append [OF assms(1,2) h h this] show ?thesis
    by (auto simp: db_suffix_def split: if_splits)
qed

theorem DbId_injective_witness:
  "tgt_dbId (TargetProperties_Init True None None ''gfx90a:sramecc+:xnack-'') = ''gfx90a''
   \<and> tgt_dbId (TargetProperties_Init True None None ''gfx908:sramecc+:xnack+'') = ''gfx908_xnack''
   \<and> tgt_dbId (TargetProperties_Init True None None ''gfx90a:sramecc+:xnack-'')
      \<noteq> tgt_dbId (TargetProperties_Init True None None ''gfx908:sramecc+:xnack+'')"
proof -
  let ?a = "\<lparr>tgt_name = ''gfx90a'', tgt_dbId = [], tgt_xnack = Some False, tgt_sramecc = None, tgt_sramecc_reported = Some True\<rparr>"
  let ?b = "\<lparr>tgt_name = ''gfx908'', tgt_dbId = [], tgt_xnack = Some True, tgt_sramecc = Some True, tgt_sramecc_reported = Some True\<rparr>"
  have a: "TargetProperties_Init True None None ''gfx90a:sramecc+:xnack-'' = TargetProperties_InitDbId ?a"
    by (simp add: TargetProperties_Init_def GetDeviceNameFromMap_def device_name_map_def)
  have b: "TargetProperties_Init True None None ''gfx908:sramecc+:xnack+'' = TargetProperties_InitDbId ?b"
    by (simp add: TargetProperties_Init_def GetDeviceNameFromMap_def device_name_map_def)
  have n: "CHR ''_'' \<notin> set (tgt_name ?a)" "CHR ''_'' \<notin> set (tgt_name ?b)" by simp_all
  show ?thesis
    using DbId_injective [OF n] unfolding a b by (auto simp: InitDbId_id db_suffix_def sramecc_on_def)
qed

section \<open>Build parameters\<close>

datatype parameter_type = Define | Option

record build_parameter =
  bp_type :: parameter_type
  bp_name :: string
  bp_value :: string

definition GenerateDefine :: "string \<Rightarrow> build_parameter \<Rightarrow> string" where
  "GenerateDefine prefix p =
     ''-'' @ (if bp_type p = Define then prefix else []) @ bp_name p
     @ (if bp_value p \<noteq> [] then (case bp_type p of Define \<Rightarrow> ''='' | Option \<Rightarrow> '' '') @ bp_value p else [])"

definition JoinStrings :: "string list \<Rightarrow> string \<Rightarrow> string" where
  "JoinStrings strings delim =
     (case strings of [] \<Rightarrow> [] | x # xs \<Rightarrow> foldl (\<lambda>x y. x @ delim @ y) x xs)"

definition GenerateDefines :: "string \<Rightarrow> build_parameter list \<Rightarrow> string" where
  "GenerateDefines prefix options = JoinStrings (map (GenerateDefine prefix) options) '' ''"

definition OpenCL_Generate :: "build_parameter list \<Rightarrow> string" where
  "OpenCL_Generate options = GenerateDefines ''D'' options"

definition GcnAsm_Generate :: "build_parameter list \<Rightarrow> string" where
  "GcnAsm_Generate options = GenerateDefines ''Wa,-defsym,'' options"

definition ValidateUniqueness :: "build_parameter list \<Rightarrow> string \<Rightarrow> bool" where
  "ValidateUniqueness options name = (List.find (\<lambda>item. bp_name item = name) options = None)"

text \<open>\<open>Define\<close> asserts that the name is new; the result is \<open>None\<close> when the assertion fails.\<close>

definition BuildParameters_Define :: "build_parameter list \<Rightarrow> string \<Rightarrow> string \<Rightarrow> build_parameter list option" where
  "BuildParameters_Define options name value =
     (if \<not> ValidateUniqueness options name then None
      else Some (options @ [\<lparr>bp_type = Define, bp_name = name, bp_value = value\<rparr>]))"

end
