(* ===== verification/Generic_Search.thy ===== *)
theory Generic_Search
  imports Prelude
begin

text \<open>
  The auto-tuning search (\<open>src/include/miopen/generic_search.hpp\<close>): \<open>ComputedIterator\<close> and
  \<open>ComputedContainer\<close>, which enumerate the valid performance configurations of a problem, and
  \<open>GenericSearch\<close>, which measures them and keeps the best.

  A performance configuration is known to them by \<open>SetNextValue\<close> (a new value and whether there
  was one), \<open>IsValid\<close> and its minimal value: the locale \<open>perf_space\<close> states what they rely on,
  and each solver's configuration interprets it.  The do-while loop of the iterator and the
  loops over a container are partial functions: \<open>None\<close> is a loop that does not end.
\<close>

section \<open>Odometers\<close>

text \<open>The fields of a configuration step like the digits of an odometer, the first one fastest,
  each through a list of values.\<close>

definition digit_next :: "'a list \<Rightarrow> 'a \<Rightarrow> 'a \<times> bool" where
  "digit_next d v =
     (case dropWhile (\<lambda>x. x \<noteq> v) d of
        (_ # y # _) \<Rightarrow> (y, False)
      | _ \<Rightarrow> (hd d, True))"

fun odometer :: "'a list list \<Rightarrow> 'a list \<Rightarrow> 'a list \<times> bool" where
  "odometer (d # ds) (v # vs) =
     (case digit_next d v of
        (v', False) \<Rightarrow> (v' # vs, True)
      | (v', True) \<Rightarrow> (case odometer ds vs of (vs', more) \<Rightarrow> (v' # vs', more)))"
| "odometer _ vs = (vs, False)"

fun space :: "'a list list \<Rightarrow> 'a list list" where
  "space [] = [[]]"
| "space (d # ds) = concat (map (\<lambda>vs. map (\<lambda>v. v # vs) d) (space ds))"

text \<open>\<open>links next xs t\<close>: \<open>next\<close> leads through \<open>xs\<close> in order and then to \<open>t\<close>, or to the end.\<close>

fun links :: "('c \<Rightarrow> 'c \<times> bool) \<Rightarrow> 'c list \<Rightarrow> 'c option \<Rightarrow> bool" where
  "links nxt [] t \<longleftrightarrow> True"
| "links nxt [x] None \<longleftrightarrow> \<not> snd (nxt x)"
| "links nxt [x] (Some y) \<longleftrightarrow> nxt x = (y, True)"
| "links nxt (x # y # xs) t \<longleftrightarrow> nxt x = (y, True) \<and> links nxt (y # xs) t"

lemma links_append:
  "ys \<noteq> [] \<Longrightarrow> links nxt xs (Some (hd ys)) \<Longrightarrow> links nxt ys t \<Longrightarrow> links nxt (xs @ ys) t"
proof (induction xs rule: induct_list012)
  case (2 x)
  then show ?case by (cases ys) auto
qed auto

lemma digit_next_middle: "distinct (pre @ v # y # post) \<Longrightarrow> digit_next (pre @ v # y # post) v = (y, False)"
  using until_found(2) [of v pre "y # post"] by (auto simp: digit_next_def)

lemma digit_next_last: "distinct (pre @ [v]) \<Longrightarrow> digit_next (pre @ [v]) v = (hd (pre @ [v]), True)"
  using until_found(2) [of v pre "[]"] by (auto simp: digit_next_def)

lemma links_digit:
  assumes "distinct (pre @ d)" "d \<noteq> []" "pre @ d = full"
    and "case t of None \<Rightarrow> \<not> snd (odometer ds vs) | Some y \<Rightarrow> \<exists>w. odometer ds vs = (w, True) \<and> y = hd full # w"
  shows "links (odometer (full # ds)) (map (\<lambda>v. v # vs) d) t"
  using assms(1,2,3)
proof (induction d arbitrary: pre rule: induct_list012)
  case (2 x)
  then have "digit_next full x = (hd full, True)"
    using digit_next_last [of pre x] by simp
  then show ?case
    using assms(4) by (auto split: option.splits prod.splits)
next
  case (3 x y d)
  have "digit_next full x = (y, False)"
    using digit_next_middle [of pre x y d] 3 by simp
  moreover have "links (odometer (full # ds)) (map (\<lambda>v. v # vs) (y # d)) t"
    using 3(2) [of "pre @ [x]"] 3 by simp
  ultimately show ?case by simp
qed simp

lemma space_nonempty: "\<forall>d \<in> set ds. d \<noteq> [] \<Longrightarrow> space ds \<noteq> []"
proof (induction ds)
  case (Cons d ds)
  then obtain r rs where "space ds = r # rs" by (cases "space ds") auto
  with Cons.prems show ?case by simp
qed simp

lemma hd_space: "\<forall>d \<in> set ds. d \<noteq> [] \<Longrightarrow> hd (space ds) = map hd ds"
proof (induction ds)
  case (Cons d ds)
  then obtain r rs where s: "space ds = r # rs"
    using space_nonempty [of ds] by (cases "space ds") auto
  with Cons show ?case by (simp add: hd_map hd_append)
qed simp

lemma links_blocks:
  assumes "distinct d" "d \<noteq> []" "links (odometer ds) rs None" "rs \<noteq> []"
  shows "links (odometer (d # ds)) (concat (map (\<lambda>vs. map (\<lambda>v. v # vs) d) rs)) None"
  using assms(3,4)
proof (induction rs rule: induct_list012)
  case (2 r)
  then show ?case using links_digit [where pre = "[]" and d = d and full = d and t = None and ds = ds and vs = r] assms(1,2)
    by simp
next
  case (3 r s rs)
  let ?b = "\<lambda>vs. map (\<lambda>v. v # vs) d"
  have rest: "links (odometer (d # ds)) (concat (map ?b (s # rs))) None"
    using 3 by simp
  have hd: "hd (concat (map ?b (s # rs))) = hd d # s" "concat (map ?b (s # rs)) \<noteq> []"
    using assms(2) by (simp_all add: hd_map hd_append)
  have "links (odometer (d # ds)) (?b r) (Some (hd d # s))"
    using links_digit [where pre = "[]" and d = d and full = d and t = "Some (hd d # s)" and ds = ds
        and vs = r] assms(1,2) 3(3) by simp
  with rest hd show ?case
    using links_append [of "concat (map ?b (s # rs))" _ "?b r"] by simp
qed simp

text \<open>An odometer leads through its whole space, once.\<close>

theorem odometer_links:
  "\<forall>d \<in> set ds. distinct d \<and> d \<noteq> [] \<Longrightarrow> links (odometer ds) (space ds) None"
proof (induction ds)
  case (Cons d ds)
  then show ?case using links_blocks [of d ds "space ds"] space_nonempty [of ds] by simp
qed simp

lemma set_space: "set (space ds) = {vs. list_all2 (\<lambda>v d. v \<in> set d) vs ds}"
  by (induction ds) (auto simp: list_all2_Cons2)

lemma distinct_space: "\<forall>d \<in> set ds. distinct d \<Longrightarrow> distinct (space ds)"
proof (induction ds)
  case (Cons d ds)
  then have "distinct (space ds)" and d: "distinct d" by auto
  then have "distinct (concat (map (\<lambda>vs. map (\<lambda>v. v # vs) d) rs))" if "distinct rs" for rs
    using that
  proof (induction rs)
    case (Cons r rs)
    have "distinct (map (\<lambda>v. v # r) d)" using d by (simp add: distinct_map inj_on_def)
    moreover have "set (map (\<lambda>v. v # r) d) \<inter> set (concat (map (\<lambda>vs. map (\<lambda>v. v # vs) d) rs)) = {}"
      using Cons.prems by auto
    ultimately show ?case using Cons by simp
  qed simp
  with \<open>distinct (space ds)\<close> show ?case by simp
qed simp

section \<open>The iterator\<close>

partial_function (option) Next_loop :: "('c \<Rightarrow> 'c \<times> bool) \<Rightarrow> ('c \<Rightarrow> bool) \<Rightarrow> 'c \<Rightarrow> ('c \<times> bool) option" where
  "Next_loop set_next is_valid v =
     (case set_next v of
        (v', more) \<Rightarrow>
          if \<not> more then Some (v', False)
          else if \<not> is_valid v' then Next_loop set_next is_valid v' else Some (v', True))"

text \<open>The iterator's state: the configuration, and whether \<open>p\<close> still points to the problem.\<close>

definition ComputedIterator_Next ::
  "('c \<Rightarrow> 'c \<times> bool) \<Rightarrow> ('c \<Rightarrow> bool) \<Rightarrow> 'c \<times> bool \<Rightarrow> ('c \<times> bool) option" where
  "ComputedIterator_Next set_next is_valid it =
     (if snd it then Next_loop set_next is_valid (fst it) else Some it)"

definition ComputedIterator_begin ::
  "('c \<Rightarrow> 'c \<times> bool) \<Rightarrow> ('c \<Rightarrow> bool) \<Rightarrow> 'c \<Rightarrow> ('c \<times> bool) option" where
  "ComputedIterator_begin set_next is_valid v =
     (if \<not> is_valid v then ComputedIterator_Next set_next is_valid (v, True) else Some (v, True))"

definition ComputedIterator_ne :: "'c \<times> bool \<Rightarrow> 'c \<times> bool \<Rightarrow> bool" where
  "ComputedIterator_ne it other =
     (if snd it = snd other then (if \<not> snd it \<or> fst it = fst other then False else True) else True)"

text \<open>The values a loop \<open>for(c : container)\<close> sees from an iterator on; \<open>end\<close> is the default
  constructed iterator, whose pointer is null.\<close>

partial_function (option) container_from ::
  "('c \<Rightarrow> 'c \<times> bool) \<Rightarrow> ('c \<Rightarrow> bool) \<Rightarrow> 'c \<times> bool \<Rightarrow> 'c list option" where
  "container_from set_next is_valid it =
     (if \<not> ComputedIterator_ne it (fst it, False) then Some []
      else Option.bind (ComputedIterator_Next set_next is_valid it)
             (\<lambda>it'. Option.bind (container_from set_next is_valid it') (\<lambda>cs. Some (fst it # cs))))"

definition ComputedContainer :: "('c \<Rightarrow> 'c \<times> bool) \<Rightarrow> ('c \<Rightarrow> bool) \<Rightarrow> 'c \<Rightarrow> 'c list option" where
  "ComputedContainer set_next is_valid start =
     (case ComputedIterator_begin set_next is_valid start of
        None \<Rightarrow> None
      | Some it \<Rightarrow> container_from set_next is_valid it)"

text \<open>\<open>GetAllConfigs\<close>: the spare set when the primary one is empty.\<close>

definition GetAllConfigs :: "('c \<Rightarrow> 'c \<times> bool) \<Rightarrow> ('c \<Rightarrow> bool) \<Rightarrow> (bool \<Rightarrow> 'c) \<Rightarrow> 'c list option" where
  "GetAllConfigs set_next is_valid ctor =
     (case ComputedContainer set_next is_valid (ctor False) of
        None \<Rightarrow> None
      | Some primary \<Rightarrow>
          (case ComputedContainer set_next is_valid (ctor True) of
             None \<Rightarrow> None
           | Some spare \<Rightarrow> Some (if length primary = 0 then spare else primary)))"

locale perf_space =
  fixes set_next :: "'c \<Rightarrow> 'c \<times> bool"
    and start :: 'c
    and all_configs :: "'c list"
  assumes nonempty: "all_configs \<noteq> []"
    and start: "hd all_configs = start"
    and links: "links set_next all_configs None"
    and distinct: "distinct all_configs"
begin

lemma next_valid:
  "links set_next (v # rest) None \<Longrightarrow>
   \<exists>w. Next_loop set_next is_valid v
     = Some (case filter is_valid rest of [] \<Rightarrow> (w, False) | c # _ \<Rightarrow> (c, True))"
proof (induction rest arbitrary: v)
  case Nil
  then show ?case by (subst Next_loop.simps) (auto simp: case_prod_unfold)
next
  case (Cons y rest)
  then have n: "set_next v = (y, True)" "links set_next (y # rest) None"
    by (cases rest; simp)+
  show ?case
  proof (cases "is_valid y")
    case True
    with n show ?thesis by (subst Next_loop.simps) simp
  next
    case False
    with n Cons.IH [OF n(2)] show ?thesis by (subst Next_loop.simps) simp
  qed
qed

lemma links_tl: "links set_next (xs @ ys) None \<Longrightarrow> links set_next ys None"
proof (induction xs)
  case (Cons x xs)
  then show ?case by (cases "xs @ ys") auto
qed simp

lemma filter_Cons_split:
  "filter is_valid rest = c # cs \<Longrightarrow> \<exists>us vs. rest = us @ c # vs \<and> filter is_valid vs = cs"
  by (auto simp: filter_eq_Cons_iff)

lemma container_valid:
  "links set_next (v # rest) None \<Longrightarrow>
   container_from set_next is_valid (v, True) = Some (v # filter is_valid rest)"
proof (induction "length rest" arbitrary: v rest rule: less_induct)
  case less
  obtain w where nx: "Next_loop set_next is_valid v
      = Some (case filter is_valid rest of [] \<Rightarrow> (w, False) | c # _ \<Rightarrow> (c, True))"
    using next_valid [OF less.prems] by blast
  show ?case
  proof (cases "filter is_valid rest")
    case Nil
    then have "container_from set_next is_valid (w, False) = Some []"
      by (subst container_from.simps) (simp add: ComputedIterator_ne_def)
    with nx Nil show ?thesis
      by (simp add: container_from.simps [of _ _ "(v, True)"] ComputedIterator_ne_def
          ComputedIterator_Next_def)
  next
    case (Cons c cs)
    obtain us vs where r: "rest = us @ c # vs" "filter is_valid vs = cs"
      using filter_Cons_split [OF Cons] by auto
    have "links set_next (c # vs) None"
      using links_tl [of "v # us" "c # vs"] less.prems r(1) by simp
    then have "container_from set_next is_valid (c, True) = Some (c # cs)"
      using less.hyps [of vs c] r by simp
    moreover have "Next_loop set_next is_valid v = Some (c, True)"
      using nx Cons by simp
    ultimately show ?thesis
      unfolding Cons
      by (subst container_from.simps) (simp add: ComputedIterator_ne_def ComputedIterator_Next_def)
  qed
qed

text \<open>The enumeration ends, and it is the valid configurations of the space, in order.\<close>

lemma container: "ComputedContainer set_next is_valid start = Some (filter is_valid all_configs)"
proof -
  obtain rest where a: "all_configs = start # rest"
    using nonempty start by (cases all_configs) auto
  with links have l: "links set_next (start # rest) None" by simp
  show ?thesis
  proof (cases "is_valid start")
    case True
    with container_valid [OF l] a show ?thesis
      by (simp add: ComputedContainer_def ComputedIterator_begin_def)
  next
    case False
    obtain w where nx: "Next_loop set_next is_valid start
      = Some (case filter is_valid rest of [] \<Rightarrow> (w, False) | c # _ \<Rightarrow> (c, True))"
      using next_valid [OF l] by blast
    show ?thesis
    proof (cases "filter is_valid rest")
      case Nil
      have "container_from set_next is_valid (w, False) = Some []"
        by (subst container_from.simps) (simp add: ComputedIterator_ne_def)
      with nx Nil False a show ?thesis
        by (simp add: ComputedContainer_def ComputedIterator_begin_def ComputedIterator_Next_def)
    next
      case (Cons c cs)
      obtain us vs where r: "rest = us @ c # vs" "filter is_valid vs = cs"
      using filter_Cons_split [OF Cons] by auto
      have "links set_next (c # vs) None"
        using links_tl [of "start # us" "c # vs"] l r(1) by simp
      then have "container_from set_next is_valid (c, True) = Some (c # filter is_valid vs)"
        by (rule container_valid)
      moreover have "Next_loop set_next is_valid start = Some (c, True)"
        using nx Cons by simp
      moreover have "filter is_valid all_configs = c # filter is_valid vs"
        using a False Cons r(2) by simp
      ultimately show ?thesis using False
        by (simp add: ComputedContainer_def ComputedIterator_begin_def ComputedIterator_Next_def)
    qed
  qed
qed

end

section \<open>The search\<close>

text \<open>What \<open>GenericSearch\<close> gets from the solver and from the device: \<open>get_solution c\<close> is the
  workspace size of the solution of \<open>c\<close>, \<open>prepare c\<close> tells that its invoker could be made,
  and \<open>run c i\<close> is the kernel time of the \<open>i\<close>-th invocation; \<open>None\<close> and \<open>False\<close> are a throw.
  The arithmetic of \<open>float\<close> is a parameter: the sum of two times, a time divided by 5, the two
  comparisons and the largest number.\<close>

record ('c, 'f) tuning =
  get_solution :: "'c \<Rightarrow> nat option"
  prepare :: "'c \<Rightarrow> bool"
  run :: "'c \<Rightarrow> nat \<Rightarrow> 'f option"
  precompile :: "'c list \<Rightarrow> bool"
  default_run :: "'f option"
  cache_disabled :: bool
  compile_only :: bool

record 'f float_ops =
  fadd :: "'f \<Rightarrow> 'f \<Rightarrow> 'f"
  fdiv5 :: "'f \<Rightarrow> 'f"
  fless :: "'f \<Rightarrow> 'f \<Rightarrow> bool"
  near :: "'f \<Rightarrow> 'f \<Rightarrow> bool"   \<comment> \<open>\<open>a / b < 1.05f\<close>\<close>
  fmax :: 'f
  fzero :: 'f

record ('c, 'f) search_state =
  best_config :: 'c
  is_passed :: bool
  best_time :: 'f
  n_failed :: nat
  n_best :: nat
  n_current :: nat

datatype search_error = SearchFailed | GpuOperationsSkipped | Propagated

text \<open>The first probe of a configuration: the return code and the time.\<close>

definition probe :: "('c, 'f) tuning \<Rightarrow> 'f float_ops \<Rightarrow> nat \<Rightarrow> 'c \<Rightarrow> int \<times> 'f" where
  "probe T F default_ws c =
     (case get_solution T c of
        None \<Rightarrow> (1, fzero F)
      | Some ws \<Rightarrow>
          let ret = (if default_ws \<noteq> ws then -2 else 0) in
          if \<not> prepare T c then (1, fzero F)
          else (case run T c 0 of
                  None \<Rightarrow> (1, fzero F)
                | Some t \<Rightarrow> (ret, t)))"

text \<open>The four further runs, added to the time; a throw ends them.\<close>

fun reruns :: "('c, 'f) tuning \<Rightarrow> 'f float_ops \<Rightarrow> 'c \<Rightarrow> nat list \<Rightarrow> 'f \<Rightarrow> 'f option" where
  "reruns T F c [] t = Some t"
| "reruns T F c (i # is) t =
     (case run T c i of
        None \<Rightarrow> None
      | Some u \<Rightarrow> reruns T F c is (fadd F t u))"

definition search_step ::
  "('c, 'f) tuning \<Rightarrow> 'f float_ops \<Rightarrow> nat \<Rightarrow> 'c \<Rightarrow> ('c, 'f) search_state \<Rightarrow> ('c, 'f) search_state" where
  "search_step T F default_ws c s =
     (case probe T F default_ws c of
        (ret, t) \<Rightarrow>
          let (s', ret') =
            (if ret = 0 \<and> near F t (best_time s) then
               (case reruns T F c [1, 2, 3, 4] t of
                  None \<Rightarrow> (s, 1)
                | Some acc \<Rightarrow>
                    let t' = fdiv5 F acc;
                        s1 = s\<lparr>is_passed := True\<rparr> in
                    (if fless F t' (best_time s1)
                     then s1\<lparr>best_config := c, best_time := t', n_best := n_current s1\<rparr>
                     else s1, 0))
             else (s, ret)) in
          s'\<lparr>n_failed := (if ret' \<noteq> 0 then n_failed s' + 1 else n_failed s'),
             n_current := n_current s' + 1\<rparr>)"

definition search_init :: "'c \<Rightarrow> 'f float_ops \<Rightarrow> ('c, 'f) search_state" where
  "search_init blank F =
     \<lparr>best_config = blank, is_passed = False, best_time = fmax F, n_failed = 0, n_best = 0,
      n_current = 0\<rparr>"

text \<open>The whole function.  \<open>blank\<close> is the default-constructed configuration, \<open>dflt\<close> the default
  performance configuration; the outer \<open>None\<close> is an enumeration that does not end.\<close>

definition GenericSearch ::
  "('c, 'f) tuning \<Rightarrow> 'f float_ops \<Rightarrow> ('c \<Rightarrow> 'c \<times> bool) \<Rightarrow> ('c \<Rightarrow> bool) \<Rightarrow> (bool \<Rightarrow> 'c) \<Rightarrow> 'c \<Rightarrow> 'c
   \<Rightarrow> (search_error + 'c) option" where
  "GenericSearch T F set_next is_valid ctor blank dflt =
     (case get_solution T dflt of
        None \<Rightarrow> Some (Inl Propagated)
      | Some default_ws \<Rightarrow>
          (case GetAllConfigs set_next is_valid ctor of
             None \<Rightarrow> None
           | Some configs \<Rightarrow> Some (
               if \<not> cache_disabled T \<and>
                  \<not> (list_all (\<lambda>c. get_solution T c \<noteq> None) configs \<and> precompile T configs)
               then Inl Propagated
               else if compile_only T then Inl GpuOperationsSkipped
               else
                 let s = fold (search_step T F default_ws) configs (search_init blank F) in
                 if \<not> is_passed s then Inl SearchFailed
                 else if \<not> prepare T dflt \<or> default_run T = None then Inl Propagated
                 else Inr (best_config s))))"

section \<open>What the search returns\<close>

text \<open>The complete measurement of a configuration, when nothing throws.\<close>

definition average :: "('c, 'f) tuning \<Rightarrow> 'f float_ops \<Rightarrow> nat \<Rightarrow> 'c \<Rightarrow> 'f option" where
  "average T F default_ws c =
     (if get_solution T c = Some default_ws \<and> prepare T c then
        (case run T c 0 of
           None \<Rightarrow> None
         | Some t \<Rightarrow> map_option (fdiv5 F) (reruns T F c [1, 2, 3, 4] t))
      else None)"

lemma probe_0: "probe T F ws c = (0, t) \<longleftrightarrow> get_solution T c = Some ws \<and> prepare T c \<and> run T c 0 = Some t"
  by (auto simp: probe_def Let_def split: option.splits)

lemma search_step_cases:
  "search_step T F ws c s =
     (case average T F ws c of
        Some a \<Rightarrow>
          (if near F (the (run T c 0)) (best_time s) then
             (if fless F a (best_time s)
              then s\<lparr>is_passed := True, best_config := c, best_time := a, n_best := n_current s,
                     n_current := n_current s + 1\<rparr>
              else s\<lparr>is_passed := True, n_current := n_current s + 1\<rparr>)
           else s\<lparr>n_current := n_current s + 1\<rparr>)
      | None \<Rightarrow>
          s\<lparr>n_failed :=
              (if get_solution T c = Some ws \<and> prepare T c \<and> run T c 0 \<noteq> None
                  \<and> \<not> near F (the (run T c 0)) (best_time s)
               then n_failed s else n_failed s + 1),
            n_current := n_current s + 1\<rparr>)"
  by (simp add: search_step_def average_def probe_def Let_def split: option.splits)

text \<open>The invariant of the search loop: the best time is the average of the best configuration, and
  every configuration seen has no better average, or was not near enough to the best time
  at its first probe.\<close>

definition search_inv :: "('c, 'f) tuning \<Rightarrow> 'f float_ops \<Rightarrow> nat \<Rightarrow> 'c list \<Rightarrow> ('c, 'f) search_state \<Rightarrow> bool" where
  "search_inv T F ws cs s \<longleftrightarrow>
     (if is_passed s
      then best_config s \<in> set cs \<and> average T F ws (best_config s) = Some (best_time s)
      else best_time s = fmax F)
     \<and> (\<forall>c a. c \<in> set cs \<longrightarrow> average T F ws c = Some a \<longrightarrow> is_passed s \<and>
          (\<not> fless F a (best_time s) \<or> \<not> near F (the (run T c 0)) (best_time s)))"

text \<open>What is assumed of the floating-point comparisons: no time is smaller than itself, and a time
  that is not better (or not near) stays so when the best time improves.  These hold of
  \<open>float\<close> when no time is a NaN.\<close>

definition float_order :: "'f float_ops \<Rightarrow> bool" where
  "float_order F \<longleftrightarrow>
     (\<forall>a. \<not> fless F a a)
     \<and> (\<forall>a b b'. \<not> fless F a b \<longrightarrow> fless F b' b \<longrightarrow> \<not> fless F a b')
     \<and> (\<forall>e b b'. \<not> near F e b \<longrightarrow> fless F b' b \<longrightarrow> \<not> near F e b')"

definition finite_times :: "('c, 'f) tuning \<Rightarrow> 'f float_ops \<Rightarrow> nat \<Rightarrow> 'c list \<Rightarrow> bool" where
  "finite_times T F ws cs \<longleftrightarrow>
     (\<forall>c \<in> set cs. \<forall>a. average T F ws c = Some a \<longrightarrow>
        fless F a (fmax F) \<and> near F (the (run T c 0)) (fmax F))"

lemma search_invD:
  assumes "search_inv T F ws cs s" "c \<in> set cs" "average T F ws c = Some a"
  shows "is_passed s" "\<not> fless F a (best_time s) \<or> \<not> near F (the (run T c 0)) (best_time s)"
  using assms unfolding search_inv_def by blast+

lemma search_inv_step:
  assumes F: "float_order F" and c: "finite_times T F ws [c]" and inv: "search_inv T F ws cs s"
  shows "search_inv T F ws (cs @ [c]) (search_step T F ws c s)"
proof (cases "average T F ws c")
  case None
  with inv show ?thesis by (auto simp: search_inv_def search_step_cases)
next
  case (Some a)
  have n: "is_passed s \<or> fless F a (best_time s) \<and> near F (the (run T c 0)) (best_time s)"
    using c inv Some by (auto simp: finite_times_def search_inv_def)
  show ?thesis
  proof (cases "near F (the (run T c 0)) (best_time s) \<and> fless F a (best_time s)")
    case True
    have keep: "\<not> fless F b a \<or> \<not> near F (the (run T d 0)) a"
      if "d \<in> set cs" "average T F ws d = Some b" for d b
      using search_invD(2) [OF inv that] F True unfolding float_order_def by blast
    have "\<not> fless F a a" using F by (simp add: float_order_def)
    with True keep Some show ?thesis
      by (auto simp: search_inv_def search_step_cases)
  next
    case False
    with n have p: "is_passed s" by blast
    have b: "best_config s \<in> set cs" "average T F ws (best_config s) = Some (best_time s)"
      using inv p by (simp_all add: search_inv_def)
    have s': "is_passed (search_step T F ws c s)" "best_time (search_step T F ws c s) = best_time s"
      "best_config (search_step T F ws c s) = best_config s"
      using False p Some by (auto simp: search_step_cases)
    have "\<not> fless F a' (best_time s) \<or> \<not> near F (the (run T d 0)) (best_time s)"
      if "d \<in> set (cs @ [c])" "average T F ws d = Some a'" for d a'
      using search_invD(2) [OF inv _ that(2)] False that Some by auto
    with s' b show ?thesis unfolding search_inv_def by auto
  qed
qed

lemma search_inv_fold:
  assumes F: "float_order F" and "finite_times T F ws cs" "search_inv T F ws pre s"
  shows "search_inv T F ws (pre @ cs) (fold (search_step T F ws) cs s)"
  using assms(2,3)
proof (induction cs arbitrary: pre s)
  case (Cons c cs)
  then have "finite_times T F ws [c]" "finite_times T F ws cs" by (auto simp: finite_times_def)
  then show ?case
    using search_inv_step [OF F _ Cons.prems(2), of c] Cons.IH [of "pre @ [c]"] by simp
qed simp

lemma search_inv_init: "search_inv T F ws [] (search_init blank F)"
  by (simp add: search_inv_def search_init_def)

lemmas search_inv_all =
  search_inv_fold [OF _ _ search_inv_init, unfolded append_Nil]

lemma GenericSearch_Some:
  assumes "float_order F" "GetAllConfigs set_next is_valid ctor = Some configs"
    and "get_solution T dflt = Some ws" "finite_times T F ws configs"
    and "GenericSearch T F set_next is_valid ctor blank dflt = Some (Inr c)"
  shows "c \<in> set configs \<and> average T F ws c \<noteq> None"
proof -
  define s where "s = fold (search_step T F ws) configs (search_init blank F)"
  have inv: "search_inv T F ws configs s"
    unfolding s_def by (rule search_inv_all [OF assms(1,4)])
  have "is_passed s \<and> c = best_config s"
    using assms(2,3,5) by (auto simp: GenericSearch_def Let_def s_def split: if_splits)
  with inv show ?thesis by (simp add: search_inv_def)
qed

text \<open>C18: The search returns a configuration it enumerated, all five of whose runs succeeded, and no
  other measured configuration has a better average, unless its first probe was not near the
  best time; and when the runs with the default configuration succeed, it returns a configuration
  exactly when one of the enumerated ones can be measured, and "Search failed" otherwise.\<close>

theorem GenericSearch_best:
  assumes "float_order F" "GetAllConfigs set_next is_valid ctor = Some configs"
    and "get_solution T dflt = Some ws" "finite_times T F ws configs"
    and "cache_disabled T \<or> list_all (\<lambda>c. get_solution T c \<noteq> None) configs \<and> precompile T configs"
    and "\<not> compile_only T" "prepare T dflt" "default_run T \<noteq> None"
  shows "if \<exists>c \<in> set configs. average T F ws c \<noteq> None
         then \<exists>c a. GenericSearch T F set_next is_valid ctor blank dflt = Some (Inr c)
                \<and> c \<in> set configs \<and> average T F ws c = Some a
                \<and> (\<forall>d b. d \<in> set configs \<longrightarrow> average T F ws d = Some b \<longrightarrow>
                     \<not> fless F b a \<or> \<not> near F (the (run T d 0)) a)
         else GenericSearch T F set_next is_valid ctor blank dflt = Some (Inl SearchFailed)"
proof -
  define s where "s = fold (search_step T F ws) configs (search_init blank F)"
  have inv: "search_inv T F ws configs s"
    unfolding s_def by (rule search_inv_all [OF assms(1,4)])
  have res: "GenericSearch T F set_next is_valid ctor blank dflt =
      Some (if \<not> is_passed s then Inl SearchFailed else Inr (best_config s))"
    using assms(2,3,5-8) by (auto simp: GenericSearch_def Let_def s_def)
  show ?thesis
  proof (cases "\<exists>c \<in> set configs. average T F ws c \<noteq> None")
    case True
    with inv have "is_passed s" by (auto simp: search_inv_def)
    with inv res True show ?thesis by (auto simp: search_inv_def)
  next
    case False
    with inv have "\<not> is_passed s" by (auto simp: search_inv_def split: if_splits)
    with res False show ?thesis by simp
  qed
qed

text \<open>Four configurations 0 to 3 of which only 1 and 3 are valid; 3 is faster.\<close>

definition example_tuning :: "(nat, nat) tuning" where
  "example_tuning =
     \<lparr>get_solution = (\<lambda>c. Some 0), prepare = (\<lambda>c. True),
      run = (\<lambda>c i. if c = 0 then None else Some (100 - 10 * c)), precompile = (\<lambda>_. True),
      default_run = Some 90, cache_disabled = False, compile_only = False\<rparr>"

definition nat_floats :: "nat float_ops" where
  "nat_floats = \<lparr>fadd = (+), fdiv5 = (\<lambda>t. t div 5), fless = (<), near = (\<lambda>e b. 100 * e < 105 * b),
     fmax = 1000000, fzero = 0\<rparr>"

definition example_next :: "nat \<Rightarrow> nat \<times> bool" where
  "example_next c = (if c < 3 then (c + 1, True) else (0, False))"

interpretation example: perf_space example_next 0 "[0, 1, 2, 3]"
  by unfold_locales (simp_all add: example_next_def)

theorem GenericSearch_best_witness:
  "\<exists>c a. GenericSearch example_tuning nat_floats example_next odd (\<lambda>_. 0) 0 0 = Some (Inr c)
     \<and> c \<in> set [1, 3] \<and> average example_tuning nat_floats 0 c = Some a"
proof -
  have g: "GetAllConfigs example_next odd (\<lambda>_. 0) = Some [1, 3]"
    using example.container [of odd] by (simp add: GetAllConfigs_def)
  have f: "float_order nat_floats" by (auto simp: float_order_def nat_floats_def)
  have t: "finite_times example_tuning nat_floats 0 [1, 3]"
    by (simp add: finite_times_def average_def example_tuning_def nat_floats_def)
  have m: "\<exists>c \<in> set [1, 3]. average example_tuning nat_floats 0 c \<noteq> None"
    by (simp add: average_def example_tuning_def)
  have e: "get_solution example_tuning 0 = Some 0" "\<not> compile_only example_tuning"
    "prepare example_tuning 0" "default_run example_tuning \<noteq> None"
    "cache_disabled example_tuning
      \<or> list_all (\<lambda>c. get_solution example_tuning c \<noteq> None) [1, 3] \<and> precompile example_tuning [1, 3]"
    by (simp_all add: example_tuning_def)
  from GenericSearch_best [OF f g e(1) t e(5) e(2-4), of 0] m show ?thesis
    by (simp only: if_True) blast
qed

end
