(* ===== verification/Sequences.thy ===== *)
theory Sequences
  imports Generic_Search
begin

text \<open>
  The sequences of \<open>src/include/miopen/sequences.hpp\<close>, by which the performance configurations
  declare the values of their fields: \<open>Sequence\<close>, \<open>Span\<close>, \<open>TwoPowersSpan\<close>, \<open>Join\<close> and
  \<open>Multiplied\<close> with their iterators, \<open>SeqNext\<close>, and \<open>RuleSet\<close>.  A sequence type is a value of
  the datatype \<open>seq\<close> here, its template arguments the arguments of the constructor; all uses
  have \<open>int\<close> as the value type, and no iterator leaves the range of its sequence by more than one
  step.
\<close>

unbundle bit_operations_syntax

section \<open>Sequences and their iterators\<close>

datatype seq =
    Sequence "int list"
  | Span int int
  | TwoPowersSpan int int
  | Join "seq list"
  | Multiplied seq int

text \<open>\<open>Pointer\<close> is an index into the array of a \<open>Sequence\<close>; \<open>Joined\<close> has the field \<open>finished\<close>.\<close>

datatype iterator =
    Pointer nat
  | Value int
  | Joined int bool
  | Mult iterator

definition IsTwoPower :: "int \<Rightarrow> bool" where
  "IsTwoPower i \<longleftrightarrow> (i - 1) AND i = 0"

fun iter_deref :: "seq \<Rightarrow> iterator \<Rightarrow> int" where
  "iter_deref (Sequence vs) (Pointer i) = vs ! i"
| "iter_deref (Multiplied s m) (Mult it) = m * iter_deref s it"
| "iter_deref _ (Value v) = v"
| "iter_deref _ (Joined v _) = v"
| "iter_deref _ _ = 0"

fun iter_eq :: "seq \<Rightarrow> iterator \<Rightarrow> iterator \<Rightarrow> bool" where
  "iter_eq (Sequence vs) it it' \<longleftrightarrow> it = it'"
| "iter_eq (Span l h) (Value v) (Value w) \<longleftrightarrow> v = w \<or> (v > h \<and> w > h)"
| "iter_eq (TwoPowersSpan l h) (Value v) (Value w) \<longleftrightarrow> v = w \<or> (v > h \<and> w > h)"
| "iter_eq (Join ss) (Joined v f) (Joined w g) \<longleftrightarrow> (v = w \<and> \<not> f \<and> \<not> g) \<or> (f \<and> g)"
| "iter_eq (Multiplied s m) (Mult it) (Mult it') \<longleftrightarrow> iter_eq s it it'"
| "iter_eq _ _ _ \<longleftrightarrow> False"

fun seq_begin :: "seq \<Rightarrow> iterator" where
  "seq_begin (Sequence vs) = Pointer 0"
| "seq_begin (Span l h) = Value l"
| "seq_begin (TwoPowersSpan l h) = Value l"
| "seq_begin (Join (s # ss)) = Joined (iter_deref s (seq_begin s)) False"
| "seq_begin (Join []) = Joined 0 True"
| "seq_begin (Multiplied s m) = Mult (seq_begin s)"

fun seq_end :: "seq \<Rightarrow> iterator" where
  "seq_end (Sequence vs) = Pointer (length vs)"
| "seq_end (Span l h) = Value (h + 1)"
| "seq_end (TwoPowersSpan l h) = Value (h + 1)"
| "seq_end (Join ss) = Joined 0 True"
| "seq_end (Multiplied s m) = Mult (seq_end s)"

text \<open>\<open>Sequence::Find\<close>: the index of the value, one past the last when it is not there.\<close>

fun sequence_find :: "nat \<Rightarrow> int list \<Rightarrow> int \<Rightarrow> nat" where
  "sequence_find i (cur # cur' # rest) v = (if v = cur then i else sequence_find (i + 1) (cur' # rest) v)"
| "sequence_find i [cur] v = (if v = cur then i else i + 1)"
| "sequence_find i [] v = i"

text \<open>\<open>find\<close> of each sequence type, and \<open>Join::Find\<close> over the joined ones.\<close>

fun seq_find :: "seq \<Rightarrow> int \<Rightarrow> iterator" and join_find :: "seq list \<Rightarrow> int \<Rightarrow> iterator" where
  "seq_find (Sequence vs) v = Pointer (sequence_find 0 vs v)"
| "seq_find (Span l h) v = (if v \<ge> l \<and> v \<le> h then Value v else Value (h + 1))"
| "seq_find (TwoPowersSpan l h) v = (if IsTwoPower v \<and> l \<le> v \<and> v \<le> h then Value v else Value (h + 1))"
| "seq_find (Join ss) v = join_find ss v"
| "seq_find (Multiplied s m) v = Mult (seq_find s (cdiv v m))"
| "join_find [] v = Joined 0 True"
| "join_find (s # ss) v =
     (let it = seq_find s v in
      if \<not> iter_eq s it (seq_end s) then Joined (iter_deref s it) False else join_find ss v)"

text \<open>\<open>operator++\<close>, and \<open>JoinIterator::Next\<close>: the next value and whether there is none.\<close>

fun iter_incr :: "seq \<Rightarrow> iterator \<Rightarrow> iterator" and join_next :: "seq list \<Rightarrow> int \<Rightarrow> int \<times> bool" where
  "iter_incr (Sequence vs) (Pointer i) = Pointer (i + 1)"
| "iter_incr (Span l h) (Value v) = Value (v + 1)"
| "iter_incr (TwoPowersSpan l h) (Value v) = Value (v * 2)"
| "iter_incr (Join ss) (Joined v f) = (case join_next ss v of (v', f') \<Rightarrow> Joined v' f')"
| "iter_incr (Multiplied s m) (Mult it) = Mult (iter_incr s it)"
| "iter_incr _ it = it"
| "join_next [] v = (v, True)"
| "join_next [s] v =
     (let it = iter_incr s (seq_find s v) in
      if iter_eq s it (seq_end s) then (v, True) else (iter_deref s it, False))"
| "join_next (cur # nxt # rest) v =
     (let it = seq_find cur v in
      if iter_eq cur it (seq_end cur) then join_next (nxt # rest) v
      else
        let it' = iter_incr cur it in
        if iter_eq cur it' (seq_end cur) then (iter_deref nxt (seq_begin nxt), False)
        else (iter_deref cur it', False))"

section \<open>Stepping through a sequence\<close>

text \<open>\<open>SeqNextImpl_Sequence\<close>; the last value wraps to the first.\<close>

fun SeqNextImpl_Sequence :: "int \<Rightarrow> int list \<Rightarrow> int \<Rightarrow> int \<times> bool" where
  "SeqNextImpl_Sequence first (cur # nxt # rest) v =
     (if v = cur then (nxt, False) else SeqNextImpl_Sequence first (nxt # rest) v)"
| "SeqNextImpl_Sequence first _ v = (first, True)"

fun SeqNext :: "seq \<Rightarrow> int \<Rightarrow> int \<times> bool" where
  "SeqNext (Sequence (first # vs)) v = SeqNextImpl_Sequence first (first # vs) v"
| "SeqNext s v =
     (let it = iter_incr s (seq_find s v) in
      if iter_eq s it (seq_end s) then (iter_deref s (seq_begin s), True)
      else (iter_deref s it, False))"

definition seq_is_in :: "seq \<Rightarrow> int \<Rightarrow> bool" where
  "seq_is_in s v \<longleftrightarrow> \<not> iter_eq s (seq_find s v) (seq_end s)"

section \<open>The values of a sequence\<close>

text \<open>What a sequence type describes: its values in order.\<close>

function two_powers :: "int \<Rightarrow> int \<Rightarrow> int list" where
  "two_powers l h = (if 0 < l \<and> l \<le> h then l # two_powers (2 * l) h else [])"
  by pat_completeness auto
termination by (relation "measure (\<lambda>(l, h). nat (h + 1 - l))") auto

declare two_powers.simps [simp del]

fun seq_values :: "seq \<Rightarrow> int list" where
  "seq_values (Sequence vs) = vs"
| "seq_values (Span l h) = [l..h]"
| "seq_values (TwoPowersSpan l h) = two_powers l h"
| "seq_values (Join ss) = concat (map seq_values ss)"
| "seq_values (Multiplied s m) = map ((*) m) (seq_values s)"

text \<open>\<open>exact_seq\<close>: \<open>find\<close> finds the values of the sequence and no others, which \<open>Multiplied\<close> does
  not promise.  \<open>wf_seq\<close> is what the static and dynamic assertions of the classes ask for, and
  that only the last sequence of a \<open>Join\<close> may be inexact.\<close>

fun exact_seq :: "seq \<Rightarrow> bool" where
  "exact_seq (Multiplied s m) \<longleftrightarrow> False"
| "exact_seq (Join ss) \<longleftrightarrow> list_all exact_seq ss"
| "exact_seq _ \<longleftrightarrow> True"

fun wf_seq :: "seq \<Rightarrow> bool" where
  "wf_seq (Sequence vs) \<longleftrightarrow> vs \<noteq> [] \<and> distinct vs"
| "wf_seq (Span l h) \<longleftrightarrow> l < h"
| "wf_seq (TwoPowersSpan l h) \<longleftrightarrow> 0 < l \<and> l < h \<and> IsTwoPower l \<and> IsTwoPower h"
| "wf_seq (Join ss) \<longleftrightarrow> ss \<noteq> [] \<and> list_all wf_seq ss \<and> list_all exact_seq (butlast ss)
     \<and> distinct (concat (map seq_values ss))"
| "wf_seq (Multiplied s m) \<longleftrightarrow> wf_seq s \<and> m \<noteq> 0"

lemma IsTwoPower_double: "IsTwoPower (2 * i) \<longleftrightarrow> IsTwoPower i" if "i \<noteq> 0"
proof -
  have "(2 * i - 1) AND (2 * i) = 2 * ((i - 1) AND i)"
  proof -
    have "(2 * i - 1) div 2 = i - 1" by presburger
    then show ?thesis by (subst and_int_rec) simp
  qed
  then show ?thesis by (simp add: IsTwoPower_def)
qed

lemma IsTwoPower_odd: "odd i \<Longrightarrow> IsTwoPower i \<longleftrightarrow> i = 1"
proof -
  assume "odd i"
  then obtain j where i: "i = 2 * j + 1" by (rule oddE)
  have "(i - 1) AND i = 2 * (j AND j)"
    unfolding i by (subst and_int_rec) simp
  with i show "IsTwoPower i \<longleftrightarrow> i = 1" by (simp add: IsTwoPower_def)
qed

lemma IsTwoPower_iff:
  assumes "0 < i"
  shows "IsTwoPower i \<longleftrightarrow> (\<exists>n. i = 2 ^ n)"
  using assms
proof (induction "nat i" arbitrary: i rule: less_induct)
  case less
  show ?case
  proof (cases "odd i")
    case True
    then have "i = 2 ^ n \<longleftrightarrow> n = 0 \<and> i = 1" for n by (cases n) auto
    with True IsTwoPower_odd show ?thesis by auto
  next
    case False
    then obtain j where i: "i = 2 * j" by auto
    with less have "IsTwoPower j \<longleftrightarrow> (\<exists>n. j = 2 ^ n)" by auto
    moreover have "(\<exists>n. i = 2 ^ n) \<longleftrightarrow> (\<exists>n. j = 2 ^ n)"
    proof
      assume "\<exists>n. i = 2 ^ n"
      then obtain n where n: "i = 2 ^ n" by blast
      have "n \<noteq> 0"
      proof
        assume "n = 0"
        with i n have "2 * j = 1" by simp
        then show False by presburger
      qed
      with i n show "\<exists>n. j = 2 ^ n" by (cases n) auto
    next
      assume "\<exists>n. j = 2 ^ n"
      then obtain n where "j = 2 ^ n" by blast
      with i have "i = 2 ^ Suc n" by simp
      then show "\<exists>n. i = 2 ^ n" by blast
    qed
    ultimately show ?thesis using i less.prems by (simp add: IsTwoPower_double)
  qed
qed

lemma set_two_powers: "0 < l \<Longrightarrow> set (two_powers l h) = {v. v \<le> h \<and> (\<exists>n. v = l * 2 ^ n)}"
proof (induction l h rule: two_powers.induct)
  case (1 l h)
  have split: "(\<exists>n. v = l * 2 ^ n) \<longleftrightarrow> v = l \<or> (\<exists>n. v = 2 * l * 2 ^ n)" for v
    by (metis (no_types, opaque_lifting) mult.assoc mult.commute mult.right_neutral not0_implies_Suc power_0 power_Suc)
  show ?case
  proof (cases "l \<le> h")
    case True
    with 1 show ?thesis by (subst two_powers.simps) (auto simp: split)
  next
    case False
    moreover have "l \<le> l * 2 ^ n" for n using 1(2) by (simp add: mult_le_cancel_left1)
    ultimately show ?thesis by (subst two_powers.simps) (fastforce dest: order_trans)
  qed
qed

lemma two_powers_IsTwoPower:
  assumes "0 < l" "IsTwoPower l"
  shows "set (two_powers l h) = {v. IsTwoPower v \<and> l \<le> v \<and> v \<le> h}"
proof -
  obtain a where l: "l = 2 ^ a" using assms IsTwoPower_iff by blast
  have "(\<exists>n. v = l * 2 ^ n) \<longleftrightarrow> IsTwoPower v \<and> l \<le> v" for v
  proof
    assume "\<exists>n. v = l * 2 ^ n"
    then obtain n where n: "v = l * 2 ^ n" by blast
    then have "v = 2 ^ (a + n)" "0 < v" using l by (simp_all add: power_add)
    then show "IsTwoPower v \<and> l \<le> v"
      using IsTwoPower_iff [of v] n assms(1) by (metis int_one_le_iff_zero_less mult.commute
          mult_le_cancel_right1 order_less_imp_not_less zero_less_numeral zero_less_power)
  next
    assume v: "IsTwoPower v \<and> l \<le> v"
    then obtain b where b: "v = 2 ^ b" using IsTwoPower_iff [of v] assms(1) by auto
    with v l have "a \<le> b" by (metis one_less_numeral_iff power_increasing_iff semiring_norm(76))
    then have "v = l * 2 ^ (b - a)" using l b by (simp flip: power_add)
    then show "\<exists>n. v = l * 2 ^ n" by blast
  qed
  with set_two_powers [OF assms(1)] show ?thesis by auto
qed

lemma two_powers_split:
  "two_powers l h = pre @ v # post \<Longrightarrow> 0 < v \<and> v \<le> h \<and> post = two_powers (2 * v) h"
proof (induction l h arbitrary: pre rule: two_powers.induct)
  case (1 l h)
  then show ?case
    by (subst (asm) (2) two_powers.simps) (auto simp: Cons_eq_append_conv split: if_splits)
qed

lemma two_powers_ge: "v \<in> set (two_powers l h) \<Longrightarrow> l \<le> v"
proof (induction l h rule: two_powers.induct)
  case (1 l h)
  then show ?case
    by (subst (asm) (2) two_powers.simps) (fastforce split: if_splits)
qed

lemma distinct_two_powers: "distinct (two_powers l h)"
proof (induction l h rule: two_powers.induct)
  case (1 l h)
  then show ?case
    using two_powers_ge [of l "2 * l" h] by (subst two_powers.simps) auto
qed

lemma seq_values_nonempty: "wf_seq s \<Longrightarrow> seq_values s \<noteq> []"
proof (induction s)
  case (TwoPowersSpan l h)
  then show ?case by (subst seq_values.simps, subst two_powers.simps) simp
next
  case (Join ss)
  then show ?case by (cases ss) auto
qed auto

lemma seq_values_distinct: "wf_seq s \<Longrightarrow> distinct (seq_values s)"
  by (induction s) (auto simp: distinct_two_powers distinct_map inj_on_def)

section \<open>The iterators visit the values in order\<close>

lemma sequence_find:
  "v \<notin> set pre \<Longrightarrow> sequence_find i (pre @ v # post) v = i + length pre"
proof (induction pre arbitrary: i)
  case Nil
  then show ?case by (cases post) auto
next
  case (Cons x pre)
  then have "x \<noteq> v" "sequence_find (i + 1) (pre @ v # post) v = i + 1 + length pre" by auto
  then show ?case by (cases pre) auto
qed

lemma sequence_find_none: "v \<notin> set vs \<Longrightarrow> sequence_find i vs v = i + length vs"
  by (induction vs arbitrary: i rule: induct_list012) auto

text \<open>An iterator found at a value: it points to it, is not the end, and its successor points to the
  next value, or is the end after the last one.\<close>

definition visits :: "seq \<Rightarrow> bool" where
  "visits s \<longleftrightarrow>
     iter_deref s (seq_begin s) = hd (seq_values s)
     \<and> (\<forall>pre v post. seq_values s = pre @ v # post \<longrightarrow>
          \<not> iter_eq s (seq_find s v) (seq_end s) \<and> iter_deref s (seq_find s v) = v
          \<and> (case post of
               [] \<Rightarrow> iter_eq s (iter_incr s (seq_find s v)) (seq_end s)
             | y # _ \<Rightarrow> \<not> iter_eq s (iter_incr s (seq_find s v)) (seq_end s)
                 \<and> iter_deref s (iter_incr s (seq_find s v)) = y))"

lemma visits_found:
  assumes "visits s" "v \<in> set (seq_values s)"
  shows "\<not> iter_eq s (seq_find s v) (seq_end s)" "iter_deref s (seq_find s v) = v"
  using assms split_list [of v "seq_values s"] unfolding visits_def by blast+

lemma visits_last:
  assumes "visits s" "seq_values s = pre @ [v]"
  shows "iter_eq s (iter_incr s (seq_find s v)) (seq_end s)"
  using assms unfolding visits_def by fastforce

lemma visits_next:
  assumes "visits s" "seq_values s = pre @ v # y # post"
  shows "\<not> iter_eq s (iter_incr s (seq_find s v)) (seq_end s)"
    "iter_deref s (iter_incr s (seq_find s v)) = y"
  using assms unfolding visits_def by fastforce+

lemma visitsI:
  assumes "iter_deref s (seq_begin s) = hd (seq_values s)"
    and "\<And>pre v. seq_values s = pre @ [v] \<Longrightarrow>
      \<not> iter_eq s (seq_find s v) (seq_end s) \<and> iter_deref s (seq_find s v) = v
      \<and> iter_eq s (iter_incr s (seq_find s v)) (seq_end s)"
    and "\<And>pre v y post. seq_values s = pre @ v # y # post \<Longrightarrow>
      \<not> iter_eq s (seq_find s v) (seq_end s) \<and> iter_deref s (seq_find s v) = v
      \<and> \<not> iter_eq s (iter_incr s (seq_find s v)) (seq_end s)
      \<and> iter_deref s (iter_incr s (seq_find s v)) = y"
  shows "visits s"
  unfolding visits_def
proof (intro conjI allI impI)
  fix pre v post assume s: "seq_values s = pre @ v # post"
  show "\<not> iter_eq s (seq_find s v) (seq_end s)" "iter_deref s (seq_find s v) = v"
    using assms(2) [of pre v] assms(3) [of pre v] s by (cases post; simp)+
  show "case post of
         [] \<Rightarrow> iter_eq s (iter_incr s (seq_find s v)) (seq_end s)
       | y # _ \<Rightarrow> \<not> iter_eq s (iter_incr s (seq_find s v)) (seq_end s)
           \<and> iter_deref s (iter_incr s (seq_find s v)) = y"
    using assms(2) [of pre v] assms(3) [of pre v] s by (cases post) simp_all
qed (rule assms(1))

definition finds_only :: "seq \<Rightarrow> bool" where
  "finds_only s \<longleftrightarrow> (\<forall>v. v \<notin> set (seq_values s) \<longrightarrow> iter_eq s (seq_find s v) (seq_end s))"

lemma upto_split:
  fixes l h :: int
  assumes "[l..h] = pre @ v # post"
  shows "l \<le> v \<and> v \<le> h \<and> post = [v + 1..h]"
  using assms
proof (induction l h arbitrary: pre rule: upto.induct)
  case (1 l h)
  show ?case
  proof (cases "l \<le> h")
    case True
    then have "l # [l + 1..h] = pre @ v # post" using 1(2) by (simp add: upto_rec1)
    then show ?thesis using 1(1) [OF True] True
      by (cases pre) fastforce+
  next
    case False
    with 1(2) show ?thesis by simp
  qed
qed

lemma visits_Sequence: "wf_seq (Sequence vs) \<Longrightarrow> visits (Sequence vs)"
  by (auto simp: visits_def hd_conv_nth sequence_find nth_append split: list.split)

lemma visits_Span: "wf_seq (Span l h) \<Longrightarrow> visits (Span l h)"
proof -
  assume w: "wf_seq (Span l h)"
  have c: "l \<le> v \<and> v \<le> h \<and> (post = [] \<longrightarrow> v = h) \<and> (\<forall>y ys. post = y # ys \<longrightarrow> y = v + 1 \<and> v + 1 \<le> h)"
    if "[l..h] = pre @ v # post" for pre v post
    using upto_split [OF that] upto.simps [of "v + 1" h] by (auto split: if_splits)
  show ?thesis
  proof (rule visitsI)
    show "iter_deref (Span l h) (seq_begin (Span l h)) = hd (seq_values (Span l h))"
      using w by (simp add: upto_rec1)
  next
    fix pre v assume "seq_values (Span l h) = pre @ [v]"
    then have "l \<le> v" "v = h" using c [of pre v "[]"] by simp_all
    then show "\<not> iter_eq (Span l h) (seq_find (Span l h) v) (seq_end (Span l h))
        \<and> iter_deref (Span l h) (seq_find (Span l h) v) = v
        \<and> iter_eq (Span l h) (iter_incr (Span l h) (seq_find (Span l h) v)) (seq_end (Span l h))"
      by simp
  next
    fix pre v y post assume "seq_values (Span l h) = pre @ v # y # post"
    then have "l \<le> v" "v \<le> h" "y = v + 1" "v + 1 \<le> h" using c [of pre v "y # post"] by simp_all
    then show "\<not> iter_eq (Span l h) (seq_find (Span l h) v) (seq_end (Span l h))
        \<and> iter_deref (Span l h) (seq_find (Span l h) v) = v
        \<and> \<not> iter_eq (Span l h) (iter_incr (Span l h) (seq_find (Span l h) v)) (seq_end (Span l h))
        \<and> iter_deref (Span l h) (iter_incr (Span l h) (seq_find (Span l h) v)) = y"
      by simp
  qed
qed

lemma visits_TwoPowersSpan:
  assumes "wf_seq (TwoPowersSpan l h)"
  shows "visits (TwoPowersSpan l h)"
proof (rule visitsI)
  have "two_powers l h = l # two_powers (2 * l) h"
    using assms by (subst two_powers.simps) simp
  then show "iter_deref (TwoPowersSpan l h) (seq_begin (TwoPowersSpan l h)) = hd (seq_values (TwoPowersSpan l h))"
    by simp
next
  fix pre v assume v: "seq_values (TwoPowersSpan l h) = pre @ [v]"
  then have "0 < v" "v \<le> h" "two_powers (2 * v) h = []"
    using two_powers_split [of l h pre v "[]"] by simp_all
  then have "h < 2 * v" by (subst (asm) two_powers.simps) (simp split: if_splits)
  moreover have "v \<in> set (two_powers l h)" using v by simp
  ultimately show "\<not> iter_eq (TwoPowersSpan l h) (seq_find (TwoPowersSpan l h) v) (seq_end (TwoPowersSpan l h))
      \<and> iter_deref (TwoPowersSpan l h) (seq_find (TwoPowersSpan l h) v) = v
      \<and> iter_eq (TwoPowersSpan l h) (iter_incr (TwoPowersSpan l h) (seq_find (TwoPowersSpan l h) v)) (seq_end (TwoPowersSpan l h))"
    using assms by (simp add: two_powers_IsTwoPower)
next
  fix pre v y post assume v: "seq_values (TwoPowersSpan l h) = pre @ v # y # post"
  then have "two_powers (2 * v) h = y # post"
    using two_powers_split [of l h pre v "y # post"] by simp
  then have "y = 2 * v" "2 * v \<le> h" by (subst (asm) two_powers.simps, simp split: if_splits)+
  moreover have "v \<in> set (two_powers l h)" using v by simp
  ultimately show "\<not> iter_eq (TwoPowersSpan l h) (seq_find (TwoPowersSpan l h) v) (seq_end (TwoPowersSpan l h))
      \<and> iter_deref (TwoPowersSpan l h) (seq_find (TwoPowersSpan l h) v) = v
      \<and> \<not> iter_eq (TwoPowersSpan l h) (iter_incr (TwoPowersSpan l h) (seq_find (TwoPowersSpan l h) v)) (seq_end (TwoPowersSpan l h))
      \<and> iter_deref (TwoPowersSpan l h) (iter_incr (TwoPowersSpan l h) (seq_find (TwoPowersSpan l h) v)) = y"
    using assms by (simp add: two_powers_IsTwoPower)
qed

lemma finds_only_simple:
  "finds_only (Sequence vs)" "finds_only (Span l h)"
  "wf_seq (TwoPowersSpan l h) \<Longrightarrow> finds_only (TwoPowersSpan l h)"
  by (auto simp: finds_only_def sequence_find_none two_powers_IsTwoPower)

lemma join_next:
  assumes "ss \<noteq> []" "\<And>s. s \<in> set ss \<Longrightarrow> visits s \<and> seq_values s \<noteq> []"
    and "\<And>s. s \<in> set (butlast ss) \<Longrightarrow> finds_only s"
    and "distinct (concat (map seq_values ss))" "concat (map seq_values ss) = pre @ v # post"
  shows "join_next ss v = (case post of [] \<Rightarrow> (v, True) | y # _ \<Rightarrow> (y, False))"
  using assms
proof (induction ss arbitrary: pre rule: induct_list012)
  case (2 s)
  then have "visits s" "seq_values s = pre @ v # post" by simp_all
  then show ?case
    using visits_last [of s pre v] visits_next [of s pre v] by (cases post) (simp_all add: Let_def)
next
  case (3 s s' ss)
  let ?rest = "concat (map seq_values (s' # ss))"
  show ?case
  proof (cases "v \<in> set (seq_values s)")
    case True
    then obtain p m where m: "seq_values s = p @ v # m" by (meson split_list)
    have "distinct (pre @ v # post)" using 3(6) by (simp only: 3(7))
    then have "v \<notin> set p" "v \<notin> set (m @ ?rest)" using 3(6) m by auto
    then have post: "post = m @ ?rest"
      using 3(7) m append_Cons_eq_iff [of v p "m @ ?rest" pre post] by simp
    have vis: "visits s" "visits s'" "seq_values s' \<noteq> []" using 3(4) by simp_all
    note found = visits_found [OF vis(1) True]
    show ?thesis
    proof (cases m)
      case Nil
      then have "iter_deref s' (seq_begin s') = hd post" "post \<noteq> []"
        using vis post by (simp_all add: visits_def)
      with found visits_last [OF vis(1), of p v] m Nil show ?thesis
        by (simp add: Let_def list.case_eq_if)
    next
      case (Cons y m')
      with found visits_next [OF vis(1), of p v y m'] m post show ?thesis
        by (simp add: Let_def)
    qed
  next
    case False
    then have "iter_eq s (seq_find s v) (seq_end s)" using 3(5) by (simp add: finds_only_def)
    moreover have "v \<in> set ?rest"
    proof -
      have "v \<in> set (concat (map seq_values (s # s' # ss)))" using 3(7) by simp
      with False show ?thesis by simp
    qed
    then obtain p q where r: "?rest = p @ v # q" by (meson split_list)
    have "distinct ?rest" using 3(6) by simp
    then have "v \<notin> set p" "v \<notin> set q" unfolding r by simp_all
    with False have "v \<notin> set (seq_values s @ p)" "v \<notin> set q" by simp_all
    then have "q = post"
      using append_Cons_eq_iff [of v "seq_values s @ p" q pre post] 3(7) r by simp
    with r have "join_next (s' # ss) v = (case post of [] \<Rightarrow> (v, True) | y # _ \<Rightarrow> (y, False))"
      using 3(2) [of p] 3(4,5,6) by simp
    ultimately show ?thesis by simp
  qed
qed simp

lemma join_find:
  assumes "\<And>s. s \<in> set ss \<Longrightarrow> visits s" "\<And>s. s \<in> set (butlast ss) \<Longrightarrow> finds_only s"
    and "v \<in> set (concat (map seq_values ss))"
  shows "join_find ss v = Joined v False"
  using assms
proof (induction ss)
  case (Cons s ss)
  show ?case
  proof (cases "v \<in> set (seq_values s)")
    case True
    with visits_found [of s v] Cons.prems(1) show ?thesis by simp
  next
    case False
    with Cons.prems have v: "v \<in> set (concat (map seq_values ss))" by simp
    then have "ss \<noteq> []" by auto
    with Cons.prems(2) False have "iter_eq s (seq_find s v) (seq_end s)"
      by (simp add: finds_only_def)
    moreover have "join_find ss v = Joined v False"
      using Cons.IH [OF _ _ v] Cons.prems \<open>ss \<noteq> []\<close> by simp
    ultimately show ?thesis by simp
  qed
qed simp

lemma join_find_none:
  "(\<And>s. s \<in> set ss \<Longrightarrow> finds_only s) \<Longrightarrow> v \<notin> set (concat (map seq_values ss)) \<Longrightarrow>
   join_find ss v = Joined 0 True"
  by (induction ss) (simp_all add: finds_only_def)

lemma visits_Join:
  assumes "wf_seq (Join ss)" "\<And>s. s \<in> set ss \<Longrightarrow> visits s"
    and "\<And>s. s \<in> set (butlast ss) \<Longrightarrow> finds_only s"
  shows "visits (Join ss)"
proof (rule visitsI)
  obtain s ss' where ss: "ss = s # ss'" using assms(1) by (cases ss) auto
  moreover have "seq_values s \<noteq> []" using assms(1) ss seq_values_nonempty by simp
  ultimately show "iter_deref (Join ss) (seq_begin (Join ss)) = hd (seq_values (Join ss))"
    using assms(2) by (simp add: visits_def)
next
  have prem: "ss \<noteq> []" "\<And>s. s \<in> set ss \<Longrightarrow> visits s \<and> seq_values s \<noteq> []"
    "distinct (concat (map seq_values ss))"
    using assms seq_values_nonempty by (auto simp: list_all_iff)
  note step = join_next [OF prem(1) prem(2) assms(3) prem(3)]
  {
    fix pre v assume v: "seq_values (Join ss) = pre @ [v]"
    then have "join_find ss v = Joined v False" by (intro join_find assms) auto
    with step [of pre v "[]"] v
    show "\<not> iter_eq (Join ss) (seq_find (Join ss) v) (seq_end (Join ss))
        \<and> iter_deref (Join ss) (seq_find (Join ss) v) = v
        \<and> iter_eq (Join ss) (iter_incr (Join ss) (seq_find (Join ss) v)) (seq_end (Join ss))"
      by simp
  next
    fix pre v y post assume v: "seq_values (Join ss) = pre @ v # y # post"
    then have "join_find ss v = Joined v False" by (intro join_find assms) auto
    with step [of pre v "y # post"] v
    show "\<not> iter_eq (Join ss) (seq_find (Join ss) v) (seq_end (Join ss))
        \<and> iter_deref (Join ss) (seq_find (Join ss) v) = v
        \<and> \<not> iter_eq (Join ss) (iter_incr (Join ss) (seq_find (Join ss) v)) (seq_end (Join ss))
        \<and> iter_deref (Join ss) (iter_incr (Join ss) (seq_find (Join ss) v)) = y"
      by simp
  }
qed

lemma cdiv_mult: "m \<noteq> 0 \<Longrightarrow> cdiv (m * w) m = w"
  proof -
  assume "m \<noteq> 0"
  then have "\<bar>m * w\<bar> div \<bar>m\<bar> = \<bar>w\<bar>" by (simp add: abs_mult)
  with \<open>m \<noteq> 0\<close> show ?thesis
    by (simp add: cdiv_def sgn_mult) (simp add: sgn_if)
qed

lemma visits_Multiplied:
  assumes "visits s" "m \<noteq> 0" "seq_values s \<noteq> []"
  shows "visits (Multiplied s m)"
proof (rule visitsI)
  show "iter_deref (Multiplied s m) (seq_begin (Multiplied s m)) = hd (seq_values (Multiplied s m))"
    using assms(1,3) by (simp add: visits_def hd_map)
next
  fix pre v assume "seq_values (Multiplied s m) = pre @ [v]"
  then obtain p w where "seq_values s = p @ [w]" "v = m * w"
    by (auto simp: map_eq_append_conv)
  with visits_found [OF assms(1), of w] visits_last [OF assms(1), of p w]
  show "\<not> iter_eq (Multiplied s m) (seq_find (Multiplied s m) v) (seq_end (Multiplied s m))
      \<and> iter_deref (Multiplied s m) (seq_find (Multiplied s m) v) = v
      \<and> iter_eq (Multiplied s m) (iter_incr (Multiplied s m) (seq_find (Multiplied s m) v)) (seq_end (Multiplied s m))"
    using assms(2) by (simp add: cdiv_mult)
next
  fix pre v y post assume "seq_values (Multiplied s m) = pre @ v # y # post"
  then obtain p w x q where "seq_values s = p @ w # x # q" "v = m * w" "y = m * x"
    by (auto simp: map_eq_append_conv map_eq_Cons_conv)
  with visits_found [OF assms(1), of w] visits_next [OF assms(1), of p w x q]
  show "\<not> iter_eq (Multiplied s m) (seq_find (Multiplied s m) v) (seq_end (Multiplied s m))
      \<and> iter_deref (Multiplied s m) (seq_find (Multiplied s m) v) = v
      \<and> \<not> iter_eq (Multiplied s m) (iter_incr (Multiplied s m) (seq_find (Multiplied s m) v)) (seq_end (Multiplied s m))
      \<and> iter_deref (Multiplied s m) (iter_incr (Multiplied s m) (seq_find (Multiplied s m) v)) = y"
    using assms(2) by (simp add: cdiv_mult)
qed

lemma seq_iterates: "wf_seq s \<Longrightarrow> visits s \<and> (exact_seq s \<longrightarrow> finds_only s)"
proof (induction s)
  case (Join ss)
  have "visits (Join ss)"
    using Join by (intro visits_Join) (auto simp: list_all_iff dest: in_set_butlastD)
  moreover have "finds_only (Join ss)" if "exact_seq (Join ss)"
    unfolding finds_only_def using Join that
    by (auto simp: list_all_iff join_find_none)
  ultimately show ?case by blast
next
  case (Multiplied s m)
  then show ?case using visits_Multiplied [of s m] seq_values_nonempty [of s] by simp
qed (simp_all add: visits_Sequence visits_Span visits_TwoPowersSpan finds_only_simple
       del: wf_seq.simps)

section \<open>\<open>SeqNext\<close> is one step of a digit\<close>

lemma SeqNextImpl_Sequence:
  "distinct (pre @ v # post) \<Longrightarrow>
   SeqNextImpl_Sequence first (pre @ v # post) v = (case post of [] \<Rightarrow> (first, True) | y # _ \<Rightarrow> (y, False))"
proof (induction pre)
  case Nil
  then show ?case by (cases post) auto
next
  case (Cons x pre)
  then show ?case by (cases pre) auto
qed

lemma digit_next_split:
  assumes "distinct (pre @ v # post)"
  shows "digit_next (pre @ v # post) v =
    (case post of [] \<Rightarrow> (hd (pre @ v # post), True) | y # _ \<Rightarrow> (y, False))"
  using digit_next_last [of pre v] digit_next_middle [of pre v] assms by (cases post) simp_all

lemma SeqNext_generic:
  assumes "wf_seq s" "seq_values s = pre @ v # post"
  shows "(let it = iter_incr s (seq_find s v) in
          if iter_eq s it (seq_end s) then (iter_deref s (seq_begin s), True) else (iter_deref s it, False))
    = (case post of [] \<Rightarrow> (hd (seq_values s), True) | y # _ \<Rightarrow> (y, False))"
proof -
  have vis: "visits s" using seq_iterates [OF assms(1)] by blast
  have "iter_deref s (seq_begin s) = hd (seq_values s)" using vis by (simp add: visits_def)
  then show ?thesis
    using visits_last [OF vis, of pre v] visits_next [OF vis, of pre v] assms(2)
    by (cases post) simp_all
qed

lemma SeqNext_other:
  assumes "\<nexists>first vs. s = Sequence (first # vs)"
  shows "SeqNext s v = (let it = iter_incr s (seq_find s v) in
    if iter_eq s it (seq_end s) then (iter_deref s (seq_begin s), True) else (iter_deref s it, False))"
proof (cases s)
  case (Sequence vs)
  with assms show ?thesis by (cases vs) (simp_all only: SeqNext.simps, blast)
qed (simp_all only: SeqNext.simps)

lemma SeqNext_split:
  assumes "wf_seq s" "seq_values s = pre @ v # post"
  shows "SeqNext s v = (case post of [] \<Rightarrow> (hd (seq_values s), True) | y # _ \<Rightarrow> (y, False))"
proof (cases "\<exists>first vs. s = Sequence (first # vs)")
  case True
  then obtain first vs where "s = Sequence (first # vs)" by blast
  with assms SeqNextImpl_Sequence [of pre v post first] show ?thesis
    by (cases post; cases pre) auto
next
  case False
  with SeqNext_generic [OF assms] SeqNext_other show ?thesis by simp
qed

text \<open>For every well-formed sequence, joined and multiplied ones included, \<open>SeqNext\<close> takes
  a value of the sequence to the one after it, and the last value to the first one, reporting
  the wrap-around.\<close>

theorem SeqNext_next:
  assumes "wf_seq s" "seq_values s = pre @ v # post"
  shows "SeqNext s v = (case post of [] \<Rightarrow> (hd (seq_values s), True) | y # _ \<Rightarrow> (y, False))"
  using assms by (rule SeqNext_split)

definition k_mult_seq :: seq where
  "k_mult_seq = Join [Sequence [1], Multiplied (Span 1 8) 4]"

theorem SeqNext_next_witness: "SeqNext k_mult_seq 1 = (4, False) \<and> SeqNext k_mult_seq 32 = (1, True)"
  using SeqNext_next [of k_mult_seq "[]" 1 "[4, 8, 12, 16, 20, 24, 28, 32]"]
    SeqNext_next [of k_mult_seq "[1, 4, 8, 12, 16, 20, 24, 28]" 32 "[]"]
  by (simp add: k_mult_seq_def upto_rec1)

lemma SeqNext_digit: "wf_seq s \<Longrightarrow> v \<in> set (seq_values s) \<Longrightarrow> SeqNext s v = digit_next (seq_values s) v"
proof -
  assume s: "wf_seq s" and "v \<in> set (seq_values s)"
  then obtain pre post where v: "seq_values s = pre @ v # post" by (meson split_list)
  have "distinct (pre @ v # post)" using seq_values_distinct [OF s] v by simp
  from SeqNext_split [OF s v] digit_next_split [OF this]
  show "SeqNext s v = digit_next (seq_values s) v" by (simp only: v)
qed

lemma seq_is_in: "wf_seq s \<Longrightarrow> exact_seq s \<Longrightarrow> seq_is_in s v \<longleftrightarrow> v \<in> set (seq_values s)"
  using seq_iterates [of s] visits_found [of s v] by (auto simp: seq_is_in_def finds_only_def)

text \<open>\<open>Multiplied::find\<close> divides before it searches, so it finds numbers that are not values of
  the sequence: for the sequence 1, 4, 8, ..., 32 it accepts 5, and \<open>SeqNext\<close> then steps on as
  from 4.\<close>

theorem Multiplied_find_inexact:
  "wf_seq k_mult_seq \<and> 5 \<notin> set (seq_values k_mult_seq) \<and> seq_is_in k_mult_seq 5
   \<and> SeqNext k_mult_seq 5 = (8, False)"
  by (simp add: k_mult_seq_def upto_rec1 seq_is_in_def cdiv_def)

section \<open>Rule sets\<close>

text \<open>A \<open>Rule\<close> is a member pointer (its \<open>RV\<close> and \<open>LV\<close>) and a sequence.\<close>

record 'c rule =
  RV :: "'c \<Rightarrow> int"
  LV :: "int \<Rightarrow> 'c \<Rightarrow> 'c"
  rule_seq :: seq

definition Rule_IsIn :: "'c rule \<Rightarrow> 'c \<Rightarrow> bool" where
  "Rule_IsIn r c = seq_is_in (rule_seq r) (RV r c)"

definition Rule_Next :: "'c rule \<Rightarrow> 'c \<Rightarrow> 'c \<times> bool" where
  "Rule_Next r c = (case SeqNext (rule_seq r) (RV r c) of (v, wrapped) \<Rightarrow> (LV r v c, wrapped))"

definition Rule_FillBegin :: "'c rule \<Rightarrow> 'c \<Rightarrow> 'c" where
  "Rule_FillBegin r c = LV r (iter_deref (rule_seq r) (seq_begin (rule_seq r))) c"

definition Rule_IsEqualToBegin :: "'c rule \<Rightarrow> 'c \<Rightarrow> bool" where
  "Rule_IsEqualToBegin r c \<longleftrightarrow> RV r c = iter_deref (rule_seq r) (seq_begin (rule_seq r))"

fun RuleSet_IsIn :: "'c rule list \<Rightarrow> 'c \<Rightarrow> bool" where
  "RuleSet_IsIn [] c \<longleftrightarrow> True"
| "RuleSet_IsIn (r # rs) c \<longleftrightarrow> Rule_IsIn r c \<and> RuleSet_IsIn rs c"

fun RuleSet_Next :: "'c rule list \<Rightarrow> 'c \<Rightarrow> 'c \<times> bool" where
  "RuleSet_Next [] c = (c, True)"
| "RuleSet_Next (r # rs) c =
     (case Rule_Next r c of
        (c', wrapped) \<Rightarrow> if \<not> wrapped then (c', False) else RuleSet_Next rs c')"

fun RuleSet_FillBegin :: "'c rule list \<Rightarrow> 'c \<Rightarrow> 'c" where
  "RuleSet_FillBegin [] c = c"
| "RuleSet_FillBegin (r # rs) c = RuleSet_FillBegin rs (Rule_FillBegin r c)"

fun RuleSet_Compare :: "'c rule list \<Rightarrow> 'c \<Rightarrow> 'c \<Rightarrow> bool" where
  "RuleSet_Compare [] a b \<longleftrightarrow> True"
| "RuleSet_Compare (r # rs) a b \<longleftrightarrow> RV r a = RV r b \<and> RuleSet_Compare rs a b"

fun RuleSet_IsEqualToBegin :: "'c rule list \<Rightarrow> 'c \<Rightarrow> bool" where
  "RuleSet_IsEqualToBegin [] c \<longleftrightarrow> True"
| "RuleSet_IsEqualToBegin (r # rs) c \<longleftrightarrow> Rule_IsEqualToBegin r c \<and> RuleSet_IsEqualToBegin rs c"

text \<open>What the member pointers of a rule set promise: a record \<open>of_fields vs\<close> has the members \<open>vs\<close>,
  and assigning through a member pointer changes that member only.\<close>

locale rule_set =
  fixes rules :: "'c rule list"
    and of_fields :: "int list \<Rightarrow> 'c"
  assumes read: "length vs = length rules \<Longrightarrow> i < length rules \<Longrightarrow> RV (rules ! i) (of_fields vs) = vs ! i"
    and assign: "length vs = length rules \<Longrightarrow> i < length rules \<Longrightarrow>
      LV (rules ! i) x (of_fields vs) = of_fields (vs[i := x])"
    and wf: "\<forall>r \<in> set rules. wf_seq (rule_seq r)"
begin

abbreviation digits :: "int list list" where
  "digits \<equiv> map (\<lambda>r. seq_values (rule_seq r)) rules"

lemma Next_from:
  assumes "rules = before @ rs" "length ws = length before" "list_all2 (\<lambda>v r. v \<in> set (seq_values (rule_seq r))) vs rs"
  shows "RuleSet_Next rs (of_fields (ws @ vs))
    = (of_fields (ws @ fst (odometer (map (\<lambda>r. seq_values (rule_seq r)) rs) vs)),
       \<not> snd (odometer (map (\<lambda>r. seq_values (rule_seq r)) rs) vs))"
  using assms
proof (induction rs arbitrary: before ws vs)
  case (Cons r rs)
  then obtain v us where vs: "vs = v # us" "v \<in> set (seq_values (rule_seq r))"
    "list_all2 (\<lambda>v r. v \<in> set (seq_values (rule_seq r))) us rs"
    by (auto simp: list_all2_Cons2)
  have r: "rules ! length before = r" and len: "length before < length rules"
    using Cons.prems(1) by simp_all
  have lenv: "length (ws @ vs) = length rules"
    using Cons.prems list_all2_lengthD [OF vs(3)] vs(1) by simp
  obtain x wrapped where d: "digit_next (seq_values (rule_seq r)) v = (x, wrapped)" by force
  then have "SeqNext (rule_seq r) v = (x, wrapped)"
    using SeqNext_digit [OF _ vs(2)] wf Cons.prems(1) by simp
  then have nxt: "Rule_Next r (of_fields (ws @ vs)) = (of_fields ((ws @ [x]) @ us), wrapped)"
    using read [OF lenv len] assign [OF lenv len, of x] Cons.prems(2) vs(1) r
    by (simp add: Rule_Next_def nth_append list_update_append)
  have "RuleSet_Next rs (of_fields ((ws @ [x]) @ us))
    = (of_fields ((ws @ [x]) @ fst (odometer (map (\<lambda>r. seq_values (rule_seq r)) rs) us)),
       \<not> snd (odometer (map (\<lambda>r. seq_values (rule_seq r)) rs) us))"
    using Cons.IH [of "before @ [r]" "ws @ [x]" us] Cons.prems vs(3) by simp
  with nxt d vs(1) show ?case
    by (cases wrapped) (simp_all add: case_prod_unfold comp_def)
qed simp

lemma Next:
  "vs \<in> set (space digits) \<Longrightarrow>
   RuleSet_Next rules (of_fields vs) = (of_fields (fst (odometer digits vs)), \<not> snd (odometer digits vs))"
  using Next_from [of "[]" rules "[]" vs] by (simp add: set_space list_all2_map2)

lemma IsIn:
  assumes "\<forall>r \<in> set rules. exact_seq (rule_seq r)" "length vs = length rules"
  shows "RuleSet_IsIn rules (of_fields vs) \<longleftrightarrow> vs \<in> set (space digits)"
proof -
  have "RuleSet_IsIn rs (of_fields (ws @ us)) \<longleftrightarrow> list_all2 (\<lambda>v r. v \<in> set (seq_values (rule_seq r))) us rs"
    if "rules = before @ rs" "length ws = length before" "length us = length rs" for before rs ws us
    using that
  proof (induction rs arbitrary: before ws us)
    case (Cons r rs)
    then obtain v us' where us: "us = v # us'" by (cases us) auto
    have "RV r (of_fields (ws @ us)) = v"
      using read [of "ws @ us" "length before"] Cons.prems us by (simp add: nth_append)
    moreover have "RuleSet_IsIn rs (of_fields ((ws @ [v]) @ us')) \<longleftrightarrow>
        list_all2 (\<lambda>v r. v \<in> set (seq_values (rule_seq r))) us' rs"
      using Cons.IH [of "before @ [r]" "ws @ [v]" us'] Cons.prems us by simp
    moreover have "seq_is_in (rule_seq r) v \<longleftrightarrow> v \<in> set (seq_values (rule_seq r))"
      using seq_is_in assms(1) wf Cons.prems(1) by simp
    ultimately show ?case using us by (simp add: Rule_IsIn_def)
  qed simp
  from this [of "[]" rules "[]" vs] show ?thesis
    using assms(2) by (simp add: set_space list_all2_map2)
qed

lemma of_fields_inj:
  assumes "length vs = length rules" "length ws = length rules" "of_fields vs = of_fields ws"
  shows "vs = ws"
  using read [OF assms(1)] read [OF assms(2)] assms by (metis nth_equalityI)

lemma space_length: "vs \<in> set (space digits) \<Longrightarrow> length vs = length rules"
  by (auto simp: set_space dest: list_all2_lengthD)

lemma links_records:
  "links (odometer digits) vss None \<Longrightarrow> set vss \<subseteq> set (space digits) \<Longrightarrow>
   links (\<lambda>c. case RuleSet_Next rules c of (c', wrapped) \<Rightarrow> (c', \<not> wrapped)) (map of_fields vss) None"
  by (induction vss rule: induct_list012) (simp_all add: Next)

lemma digits_wf: "\<forall>d \<in> set digits. distinct d \<and> d \<noteq> []"
  using wf by (auto simp: seq_values_distinct seq_values_nonempty)

text \<open>So a configuration whose \<open>SetNextValue\<close> is \<open>Next\<close> of a rule set is enumerated in full.\<close>

sublocale perf_space "\<lambda>c. case RuleSet_Next rules c of (c', wrapped) \<Rightarrow> (c', \<not> wrapped)"
  "of_fields (map hd digits)" "map of_fields (space digits)"
proof
  have d: "\<forall>d \<in> set digits. d \<noteq> []" using digits_wf by blast
  show "map of_fields (space digits) \<noteq> []" using space_nonempty [OF d] by simp
  show "hd (map of_fields (space digits)) = of_fields (map hd digits)"
    using hd_space [OF d] space_nonempty [OF d] by (simp add: hd_map)
  show "links (\<lambda>c. case RuleSet_Next rules c of (c', wrapped) \<Rightarrow> (c', \<not> wrapped))
      (map of_fields (space digits)) None"
    using links_records [OF odometer_links [OF digits_wf]] by simp
  have "inj_on of_fields (set (space digits))"
    using of_fields_inj space_length by (auto intro!: inj_onI)
  moreover have "distinct (space digits)"
    by (rule distinct_space) (use digits_wf in blast)
  ultimately show "distinct (map of_fields (space digits))"
    by (simp add: distinct_map)
qed

end

end
