(* ===== verification/Convolution.thy ===== *)
theory Convolution
  imports Tensor
begin

text \<open>
  \<open>ConvolutionDescriptor\<close> (\<open>src/include/miopen/convolution.hpp\<close>, \<open>src/convolution.cpp\<close>): its
  constructor and the output tensor of a convolution.  The paddings, strides and dilations are
  \<open>int\<close>s and the arithmetic of the output sizes is done in \<open>std::ptrdiff_t\<close>: both are
  mathematical integers here, as a signed overflow is undefined, and a length that is stored
  or mixed with a \<open>std::size_t\<close> is a 64-bit word.
\<close>

section \<open>The descriptor\<close>

datatype conv_mode = miopenConvolution | miopenTranspose | miopenGroupConv | miopenDepthwise

datatype padding_mode = miopenPaddingDefault | miopenPaddingSame | miopenPaddingValid

record conv_desc =
  spatialDim :: nat
  cmode :: conv_mode
  paddingMode :: padding_mode
  pads :: "int list"
  strides :: "int list"
  dilations :: "int list"
  trans_output_pads :: "int list"
  group_count :: int
  fp16alt :: int

definition ConvolutionDescriptor ::
  "nat \<Rightarrow> conv_mode \<Rightarrow> padding_mode \<Rightarrow> int list \<Rightarrow> int list \<Rightarrow> int list \<Rightarrow> int list \<Rightarrow> int \<Rightarrow> conv_desc result"
  where
  "ConvolutionDescriptor spatial_dim c_mode p_mode p_pads p_strides p_dilations p_trans p_group =
     (if length p_pads \<noteq> spatial_dim \<or> length p_strides \<noteq> spatial_dim
          \<or> length p_dilations \<noteq> spatial_dim \<or> length p_trans \<noteq> spatial_dim
          \<or> list_ex (\<lambda>v. v < 0) p_pads \<or> list_ex (\<lambda>v. v < 1) p_strides
          \<or> list_ex (\<lambda>v. v < 1) p_dilations
      then throw_st miopenStatusBadParm (''Invalid parameters, check usage. MIOPEN expects padding ''
             @ ''>= 0, stride >= 1, dilation >= 1 and the same dilation ''
             @ ''factor for horizontal and vertical direction'')
      else
        let mode' = (if \<not> (c_mode = miopenConvolution \<or> c_mode = miopenTranspose)
                     then miopenConvolution else c_mode) in
        Inr \<lparr>spatialDim = spatial_dim, cmode = mode', paddingMode = p_mode, pads = p_pads,
             strides = p_strides, dilations = p_dilations, trans_output_pads = p_trans,
             group_count = p_group, fp16alt = -1\<rparr>)"

text \<open>The invariant that the constructor establishes.\<close>

definition wf_conv :: "conv_desc \<Rightarrow> bool" where
  "wf_conv c \<longleftrightarrow>
     length (pads c) = spatialDim c \<and> length (strides c) = spatialDim c
     \<and> length (dilations c) = spatialDim c \<and> length (trans_output_pads c) = spatialDim c
     \<and> list_all (\<lambda>v. 0 \<le> v) (pads c) \<and> list_all (\<lambda>v. 1 \<le> v) (strides c)
     \<and> list_all (\<lambda>v. 1 \<le> v) (dilations c)
     \<and> (cmode c = miopenConvolution \<or> cmode c = miopenTranspose)"

lemma ConvolutionDescriptor_wf: "ConvolutionDescriptor d m p ps ss ds ts g = Inr c \<Longrightarrow> wf_conv c"
  by (auto simp: ConvolutionDescriptor_def wf_conv_def list_all_iff list_ex_iff not_less Let_def
      split: if_splits)

section \<open>The output tensor\<close>

text \<open>The guards on the channels; a \<open>None\<close> is a pass.\<close>

definition channels_error :: "conv_desc \<Rightarrow> size_t \<Rightarrow> size_t \<Rightarrow> size_t \<Rightarrow> exn option" where
  "channels_error c in_c wei_k wei_c =
     (if cmode c = miopenConvolution then
        (if (group_count c = 1 \<and> in_c \<noteq> wei_c)
            \<or> (group_count c > 1 \<and> (in_c mod wei_c \<noteq> 0 \<or> wei_k mod (in_c div wei_c) \<noteq> 0))
         then Some (Exn miopenStatusBadParm ''Channels do not match for the filter'') else None)
      else if cmode c = miopenTranspose then
        (if in_c \<noteq> wei_k \<or> (group_count c > 1 \<and> wei_k mod of_int (group_count c) \<noteq> 0)
         then Some (Exn miopenStatusBadParm ''Channels do not match for the filter'')
         else if list_ex (\<lambda>(trans_conv_pad, stride). trans_conv_pad \<ge> stride)
                   (zip (trans_output_pads c) (strides c))
         then Some (Exn miopenStatusBadParm ''Output shape doesn't match due to invalid output padding'')
         else None)
      else None)"

text \<open>One output length in each padding mode.\<close>

definition out_len_same :: "size_t \<Rightarrow> int \<Rightarrow> size_t result" where
  "out_len_same n stride = map_sum id of_int (integer_division_ceil (sint n) stride)"

definition out_len_valid :: "size_t \<Rightarrow> size_t \<Rightarrow> int \<Rightarrow> size_t result" where
  "out_len_valid n k stride = map_sum id of_int (integer_division_ceil (sint (n - k + 1)) stride)"

definition out_len_default :: "int \<Rightarrow> int \<Rightarrow> int \<Rightarrow> int \<Rightarrow> int \<Rightarrow> int" where
  "out_len_default n k stride dilation pad =
     max 1 (cdiv (n - (1 + dilation * (k - 1)) + 2 * pad) stride + 1)"

definition out_len_transpose :: "int \<Rightarrow> int \<Rightarrow> int \<Rightarrow> int \<Rightarrow> int \<Rightarrow> int \<Rightarrow> int" where
  "out_len_transpose n k stride dilation pad trans_pad =
     max 1 (stride * (n - 1) + 1 + dilation * (k - 1) - 2 * pad + trans_pad)"

definition out_spatial ::
  "conv_desc \<Rightarrow> size_t list \<Rightarrow> size_t list \<Rightarrow> size_t list result" where
  "out_spatial c in_spatial wei_spatial =
     (if paddingMode c = miopenPaddingSame \<and> cmode c = miopenConvolution
          \<and> list_all (\<lambda>v. v = 1) (dilations c)
      then map_result (\<lambda>i. out_len_same (in_spatial ! i) (strides c ! i)) [0..<spatialDim c]
      else if paddingMode c = miopenPaddingValid \<and> cmode c = miopenConvolution
          \<and> list_all (\<lambda>v. v = 1) (dilations c)
      then map_result (\<lambda>i. out_len_valid (in_spatial ! i) (wei_spatial ! i) (strides c ! i)) [0..<spatialDim c]
      else if cmode c = miopenTranspose
      then Inr (map (\<lambda>i. of_int (out_len_transpose (sint (in_spatial ! i)) (sint (wei_spatial ! i))
                  (strides c ! i) (dilations c ! i) (pads c ! i) (trans_output_pads c ! i))) [0..<spatialDim c])
      else Inr (map (\<lambda>i. of_int (out_len_default (sint (in_spatial ! i)) (sint (wei_spatial ! i))
                  (strides c ! i) (dilations c ! i) (pads c ! i))) [0..<spatialDim c]))"

definition out_channels :: "conv_desc \<Rightarrow> size_t \<Rightarrow> size_t \<Rightarrow> size_t \<Rightarrow> size_t" where
  "out_channels c wei_k wei_c vector_length =
     (if (paddingMode c = miopenPaddingSame \<or> paddingMode c = miopenPaddingValid)
          \<and> cmode c = miopenConvolution \<and> list_all (\<lambda>v. v = 1) (dilations c)
      then wei_k
      else if cmode c = miopenTranspose then wei_c * of_int (group_count c)
      else wei_k div vector_length)"

definition out_type :: "data_type \<Rightarrow> data_type \<Rightarrow> data_type" where
  "out_type xType yType =
     (if xType = miopenInt8 \<or> xType = miopenInt8x4
      then (if yType = miopenInt32 then yType else miopenFloat) else xType)"

definition GetForwardOutputTensorWithLayout ::
  "conv_desc \<Rightarrow> tensor \<Rightarrow> tensor \<Rightarrow> string \<Rightarrow> data_type \<Rightarrow> tensor result" where
  "GetForwardOutputTensorWithLayout c xDesc wDesc yLayout yType =
     (if t_type xDesc \<noteq> t_type wDesc
      then throw_st miopenStatusBadParm ''Types do not match for the filter''
      else
        let in_n = t_lens xDesc ! 0; in_c = t_lens xDesc ! 1;
            in_spatial = take (spatialDim c) (drop 2 (t_lens xDesc));
            chwnc = (GetLayout_str wDesc = ''CHWNc'');
            wei_k = (if chwnc then t_lens wDesc ! 3 else t_lens wDesc ! 0);
            wei_c = (if chwnc then t_lens wDesc ! 0 else t_lens wDesc ! 1);
            wei_spatial = take (spatialDim c) (drop (if chwnc then 1 else 2) (t_lens wDesc))
        in (case channels_error c in_c wei_k wei_c of
              Some ex \<Rightarrow> Inl ex
            | None \<Rightarrow>
                (case out_spatial c in_spatial wei_spatial of
                   Inl ex \<Rightarrow> Inl ex
                 | Inr sp \<Rightarrow>
                     let out_lens = in_n # out_channels c wei_k wei_c (t_vector_length wDesc) # sp;
                         default_layout = tensor_layout_get_default (int (length (t_lens xDesc)))
                     in (case tensor_layout_to_strides_vector out_lens default_layout yLayout
                                (ucast (t_vector_length xDesc)) of
                           Inl ex \<Rightarrow> Inl ex
                         | Inr out_strides \<Rightarrow>
                             Inr (TensorDescriptor_strides (out_type (t_type xDesc) yType)
                                    (t_layout xDesc) out_lens out_strides)))))"

definition GetForwardOutputTensor :: "conv_desc \<Rightarrow> tensor \<Rightarrow> tensor \<Rightarrow> data_type \<Rightarrow> tensor result" where
  "GetForwardOutputTensor c xDesc wDesc yType =
     (case GetLayout xDesc (tensor_layout_get_default (int (length (t_lens xDesc)))) of
        Inl ex \<Rightarrow> Inl ex
      | Inr in_layout \<Rightarrow> GetForwardOutputTensorWithLayout c xDesc wDesc in_layout yType)"

section \<open>Output lengths\<close>

lemma zle_div_iff_mult_le_aux: "0 < s \<Longrightarrow> q \<le> r div s \<longleftrightarrow> q * s \<le> r" for q r s :: int
proof -
  assume "0 < s"
  have r: "r = (r div s) * s + r mod s" "0 \<le> r mod s" "r mod s < s"
    using \<open>0 < s\<close> by simp_all
  show ?thesis
  proof
    assume "q \<le> r div s"
    then have "q * s \<le> (r div s) * s" using \<open>0 < s\<close> by simp
    with r show "q * s \<le> r" by linarith
  next
    assume "q * s \<le> r"
    then have "q * s < (r div s) * s + s" using r by linarith
    then have "q * s < (r div s + 1) * s" by (simp add: distrib_right)
    then have "q < r div s + 1" using \<open>0 < s\<close> by (simp only: mult_less_cancel_right_pos)
    then show "q \<le> r div s" by simp
  qed
qed

text \<open>In the default mode the output positions are the positions of the dilated window inside the
  padded input, and position 0 in any case.\<close>

lemma out_len_default_clamped:
  assumes "1 \<le> s" "n + 2 * p < 1 + d * (k - 1)"
  shows "out_len_default n k s d p = 1"
proof -
  have "cdiv (n - (1 + d * (k - 1)) + 2 * p) s \<le> 0"
    using assms by (simp add: cdiv_def sgn_if pos_imp_zdiv_nonneg_iff)
  then show ?thesis by (simp add: out_len_default_def)
qed

lemma out_len_default_windows:
  assumes "1 \<le> k" "1 \<le> s" "1 \<le> d" "0 \<le> p" "0 \<le> q"
  shows "q < out_len_default n k s d p \<longleftrightarrow> q = 0 \<or> q * s + d * (k - 1) < n + 2 * p"
proof (cases "1 + d * (k - 1) \<le> n + 2 * p")
  case False
  then have "out_len_default n k s d p = 1" using assms(2) by (intro out_len_default_clamped) simp_all
  moreover have "0 \<le> q * s" using assms by simp
  ultimately show ?thesis using False assms(5) by (simp add: not_le) linarith
next
  case True
  let ?r = "n - (1 + d * (k - 1)) + 2 * p"
  have "cdiv ?r s = ?r div s" using assms True by simp
  moreover have "0 \<le> ?r div s" using assms True by (simp add: pos_imp_zdiv_nonneg_iff)
  ultimately have "out_len_default n k s d p = ?r div s + 1" by (simp add: out_len_default_def)
  moreover have "q \<le> ?r div s \<longleftrightarrow> q * s \<le> ?r"
    using assms(2) zle_div_iff_mult_le_aux [of s q ?r] by simp
  ultimately show ?thesis using True by auto
qed

lemma out_len_default_bounds:
  assumes "1 \<le> k" "1 \<le> s" "1 \<le> d" "0 \<le> p" "0 \<le> n"
  shows "1 \<le> out_len_default n k s d p" "out_len_default n k s d p \<le> n + 2 * p + 1"
proof -
  let ?r = "n - (1 + d * (k - 1)) + 2 * p"
  have "0 \<le> d * (k - 1)" using assms by simp
  moreover have "cdiv ?r s \<le> n + 2 * p"
  proof (cases "0 \<le> ?r")
    case True
    then have "cdiv ?r s = ?r div s" using assms by simp
    also have "\<dots> \<le> ?r" using True assms(2) by (simp add: zdiv_mono2 [of ?r 1 s, simplified])
    finally show ?thesis using \<open>0 \<le> d * (k - 1)\<close> by linarith
  next
    case False
    then have "cdiv ?r s \<le> 0" using assms(2)
      by (simp add: cdiv_def sgn_if pos_imp_zdiv_nonneg_iff)
    with assms show ?thesis by linarith
  qed
  ultimately show "out_len_default n k s d p \<le> n + 2 * p + 1"
    using assms by (simp add: out_len_default_def)
  show "1 \<le> out_len_default n k s d p" by (simp add: out_len_default_def)
qed

text \<open>A transposed convolution whose output padding is the remainder of the division gives the
  input length back.\<close>

lemma out_len_transpose_inverts:
  assumes "1 \<le> n" "1 \<le> k" "1 \<le> s" "1 \<le> d" "0 \<le> p" "1 + d * (k - 1) \<le> n + 2 * p"
  shows "out_len_transpose (out_len_default n k s d p) k s d p ((n + 2 * p - (1 + d * (k - 1))) mod s) = n"
proof -
  let ?r = "n - (1 + d * (k - 1)) + 2 * p"
  have "0 \<le> ?r div s" using assms by (simp add: pos_imp_zdiv_nonneg_iff)
  then have o: "out_len_default n k s d p = ?r div s + 1"
    using assms by (simp add: out_len_default_def)
  have "n + 2 * p - (1 + d * (k - 1)) = ?r" by simp
  moreover have "s * (?r div s) + ?r mod s = ?r" by simp
  ultimately show ?thesis
    using assms(1) unfolding out_len_transpose_def o by (simp add: algebra_simps)
qed

lemma map_result_upt_Inr:
  "map_result f [0..<m] = Inr ys \<Longrightarrow> i < m \<Longrightarrow> f i = Inr (ys ! i)"
proof (induction m arbitrary: ys)
  case (Suc m)
  have snoc: "map_result f (xs @ [x]) = (case map_result f xs of Inl e \<Rightarrow> Inl e
      | Inr ys \<Rightarrow> (case f x of Inl e \<Rightarrow> Inl e | Inr y \<Rightarrow> Inr (ys @ [y])))" for xs x
    by (induction xs) (auto split: sum.splits)
  have len: "map_result f xs = Inr zs \<Longrightarrow> length zs = length xs" for xs zs
    by (induction xs arbitrary: zs) (auto split: sum.splits)
  from Suc.prems(1) obtain zs z where "map_result f [0..<m] = Inr zs" "f m = Inr z" "ys = zs @ [z]"
    by (auto simp: snoc split: sum.splits)
  with Suc len [of "[0..<m]" zs] show ?case by (auto simp: nth_append less_Suc_eq)
qed simp

lemma sint_small: "uint (x :: size_t) < 2 ^ 63 \<Longrightarrow> sint x = uint x"
  unfolding sint_uint
  by (rule signed_take_bit_int_eq_self) (rule order_trans [OF _ uint_ge_0], simp_all)

lemma uint_of_int_small: "0 \<le> i \<Longrightarrow> i < 2 ^ 64 \<Longrightarrow> uint (of_int i :: size_t) = i"
  by (simp add: uint_word_of_int take_bit_int_eq_self)

text \<open>The result of a convolution in the default mode.  \<open>2 * pad\<close> is a product of \<open>int\<close>s in the code, so
  paddings are below \<open>2 ^ 30\<close>; strides and dilations are \<open>int\<close>s, and so their products with lengths below
  \<open>2 ^ 31\<close> fit in a \<open>std::ptrdiff_t\<close>.\<close>

definition plain_conv :: "conv_desc \<Rightarrow> tensor \<Rightarrow> tensor \<Rightarrow> bool" where
  "plain_conv c x w \<longleftrightarrow>
     wf_conv c \<and> cmode c = miopenConvolution \<and> paddingMode c = miopenPaddingDefault
     \<and> GetLayout_str w \<noteq> ''CHWNc'' \<and> t_vector_length w = 1
     \<and> length (t_lens x) = spatialDim c + 2 \<and> length (t_lens w) = spatialDim c + 2
     \<and> (\<forall>l \<in> set (t_lens x) \<union> set (t_lens w). 1 \<le> uint l \<and> uint l < 2 ^ 31)
     \<and> (\<forall>p \<in> set (pads c). p < 2 ^ 30)
     \<and> (\<forall>v \<in> set (strides c) \<union> set (dilations c). v < 2 ^ 31)"

abbreviation spatial :: "tensor \<Rightarrow> nat \<Rightarrow> int" where
  "spatial t i \<equiv> uint (t_lens t ! (i + 2))"

text \<open>Some position of the window is inside the padded input, in every dimension.\<close>

definition windows_fit :: "conv_desc \<Rightarrow> tensor \<Rightarrow> tensor \<Rightarrow> bool" where
  "windows_fit c x w \<longleftrightarrow>
     (\<forall>i < spatialDim c. 1 + dilations c ! i * (spatial w i - 1) \<le> spatial x i + 2 * pads c ! i)"

lemma plain_conv_lens:
  assumes "plain_conv c x w" "GetForwardOutputTensorWithLayout c x w lay ty = Inr y"
  shows "t_lens y = t_lens x ! 0 # t_lens w ! 0 # map (\<lambda>i. of_int (out_len_default (spatial x i) (spatial w i)
            (strides c ! i) (dilations c ! i) (pads c ! i))) [0..<spatialDim c]"
proof -
  have small: "sint (t_lens t ! Suc (Suc i)) = uint (t_lens t ! Suc (Suc i))"
    if "i < spatialDim c" "t = x \<or> t = w" for t i
  proof -
    have "t_lens t ! (i + 2) \<in> set (t_lens x) \<union> set (t_lens w)"
      using assms(1) that by (auto simp: plain_conv_def)
    then have "uint (t_lens t ! (i + 2)) < 2 ^ 31"
      using assms(1) unfolding plain_conv_def by blast
    then have "uint (t_lens t ! (i + 2)) < 2 ^ 63" by simp
    with that assms(1) show ?thesis by (simp add: sint_small)
  qed
  show ?thesis
    using assms small
    by (auto simp: GetForwardOutputTensorWithLayout_def plain_conv_def out_spatial_def out_channels_def
        Let_def TensorDescriptor_strides_def CalculateVectorLength_def split: if_splits option.splits sum.splits)
qed

lemma spatial_forward:
  assumes "plain_conv c x w" "GetForwardOutputTensorWithLayout c x w lay ty = Inr y" "i < spatialDim c"
  shows "spatial y i = out_len_default (spatial x i) (spatial w i) (strides c ! i) (dilations c ! i) (pads c ! i)"
    and "1 \<le> spatial w i" "1 \<le> spatial x i" "1 \<le> strides c ! i" "1 \<le> dilations c ! i" "0 \<le> pads c ! i"
    and "spatial y i < 2 ^ 63"
proof -
  have mem: "t_lens x ! (i + 2) \<in> set (t_lens x) \<union> set (t_lens w)"
    "t_lens w ! (i + 2) \<in> set (t_lens x) \<union> set (t_lens w)" "pads c ! i \<in> set (pads c)"
    using assms(1,3) by (auto simp: plain_conv_def wf_conv_def)
  then have b: "1 \<le> spatial x i" "spatial x i < 2 ^ 31" "1 \<le> spatial w i" "pads c ! i < 2 ^ 30"
    using assms(1) unfolding plain_conv_def by blast+
  have c: "1 \<le> strides c ! i" "1 \<le> dilations c ! i" "0 \<le> pads c ! i"
    using assms(1,3) by (auto simp: plain_conv_def wf_conv_def list_all_length)
  let ?o = "out_len_default (spatial x i) (spatial w i) (strides c ! i) (dilations c ! i) (pads c ! i)"
  have o: "1 \<le> ?o" "?o \<le> spatial x i + 2 * pads c ! i + 1"
    using out_len_default_bounds [OF b(3) c, of "spatial x i"] b(1) by simp_all
  then have small: "?o < 2 ^ 63" using b by simp
  have "spatial y i = uint (of_int ?o :: size_t)"
    unfolding plain_conv_lens [OF assms(1,2)] using assms(3) by simp
  also have "\<dots> = ?o" using o small by (intro uint_of_int_small) simp_all
  finally show "spatial y i = ?o" .
  with small show "spatial y i < 2 ^ 63" by simp
  show "1 \<le> spatial w i" "1 \<le> spatial x i" "1 \<le> strides c ! i" "1 \<le> dilations c ! i" "0 \<le> pads c ! i"
    using b c by blast+
qed

text \<open>C19: A convolution with the default padding mode of tensors without vectorized channels, whose lengths,
  strides and dilations are below \<open>2 ^ 31\<close> and whose paddings are below \<open>2 ^ 30\<close> (so that nothing leaves the range
  of \<open>int\<close>), has the batch size of the input, the output channels of the filter and, in every spatial dimension, the output position 0 and exactly those other positions \<open>q\<close> at which the
  dilated window, moved by \<open>q\<close> strides, ends inside the padded input; so there is one output element for each position
  of the window in the padded input, and a single one when the window fits nowhere.\<close>

theorem conv_output_windows:
  assumes "plain_conv c x w" "GetForwardOutputTensorWithLayout c x w lay ty = Inr y"
  shows "t_lens y ! 0 = t_lens x ! 0 \<and> t_lens y ! 1 = t_lens w ! 0
    \<and> length (t_lens y) = length (t_lens x)
    \<and> (\<forall>i < spatialDim c. \<forall>q \<ge> 0.
          q < spatial y i \<longleftrightarrow> q = 0 \<or> q * strides c ! i + dilations c ! i * (spatial w i - 1)
            < spatial x i + 2 * pads c ! i)"
proof -
  have "q < spatial y i \<longleftrightarrow> q = 0 \<or> q * strides c ! i + dilations c ! i * (spatial w i - 1)
            < spatial x i + 2 * pads c ! i" if "i < spatialDim c" "0 \<le> q" for i q
    using spatial_forward [OF assms that(1)] out_len_default_windows [of "spatial w i" "strides c ! i"
        "dilations c ! i" "pads c ! i" q "spatial x i"] that(2) by simp
  moreover have "length (t_lens x) = spatialDim c + 2" using assms(1) by (simp add: plain_conv_def)
  ultimately show ?thesis using plain_conv_lens [OF assms] by simp
qed

definition example_conv :: conv_desc where
  "example_conv = \<lparr>spatialDim = 2, cmode = miopenConvolution, paddingMode = miopenPaddingDefault,
     pads = [1, 1], strides = [2, 1], dilations = [1, 2], trans_output_pads = [0, 0],
     group_count = 1, fp16alt = -1\<rparr>"

definition example_x :: tensor where
  "example_x = TensorDescriptor_lens miopenFloat miopenTensorNCHW [2, 3, 8, 8]"

definition example_w :: tensor where
  "example_w = TensorDescriptor_lens miopenFloat miopenTensorNCHW [4, 3, 3, 3]"

lemma example_plain: "plain_conv example_conv example_x example_w"
  unfolding plain_conv_def example_conv_def example_x_def example_w_def
  by (auto simp: wf_conv_def TensorDescriptor_lens_eq GetLayout_str_def layout_lens_def layout_vector_def
      less_2_cases_iff)

lemma example_fits: "windows_fit example_conv example_x example_w"
  unfolding windows_fit_def example_conv_def example_x_def example_w_def
  by (auto simp: TensorDescriptor_lens_eq layout_lens_def layout_vector_def less_2_cases_iff)

text \<open>A 3x3 filter on a 1x1 input without padding: no position of the window fits.\<close>

definition tiny_conv :: conv_desc where
  "tiny_conv = example_conv\<lparr>pads := [0, 0], strides := [1, 1], dilations := [1, 1]\<rparr>"

definition tiny_x :: tensor where
  "tiny_x = TensorDescriptor_lens miopenFloat miopenTensorNCHW [2, 3, 1, 1]"

lemma tiny_plain: "plain_conv tiny_conv tiny_x example_w" "\<not> windows_fit tiny_conv tiny_x example_w"
  unfolding plain_conv_def windows_fit_def tiny_conv_def example_conv_def tiny_x_def example_w_def
  by (auto simp: wf_conv_def TensorDescriptor_lens_eq GetLayout_str_def layout_lens_def layout_vector_def
      less_2_cases_iff)

lemma tiny_forward:
  "\<exists>y. GetForwardOutputTensorWithLayout tiny_conv tiny_x example_w ''NCHW'' miopenFloat = Inr y"
proof -
  have "tensor_layout_to_strides_vector [2, 4, 1, 1] ''NCHW'' ''NCHW'' 1 = Inr [4, 1, 1, 1]"
    by (simp add: tensor_layout_to_strides_vector_def Let_def stride_of_def dim_to_len_def
        accumulate_int_def char_of_eq_iff)
  then show ?thesis
    by (simp add: GetForwardOutputTensorWithLayout_def tiny_conv_def example_conv_def tiny_x_def example_w_def
        TensorDescriptor_lens_eq GetLayout_str_def layout_lens_def layout_vector_def out_spatial_def
        out_len_default_def channels_error_def out_channels_def Let_def tensor_layout_get_default_def
        cdiv_def upt_rec numeral_2_eq_2)
qed

lemma example_strides:
  "tensor_layout_to_strides_vector [2, 4, 4, 6] ''NCHW'' ''NCHW'' 1 = Inr [96, 24, 6, 1]"
  by (simp add: tensor_layout_to_strides_vector_def Let_def stride_of_def dim_to_len_def
      accumulate_int_def char_of_eq_iff)

lemma example_forward:
  "\<exists>y. GetForwardOutputTensorWithLayout example_conv example_x example_w ''NCHW'' miopenFloat = Inr y
     \<and> t_lens y = [2, 4, 4, 6] \<and> t_type y = miopenFloat \<and> t_vector_length y = 1 \<and> t_layout y = miopenTensorNCHW"
proof -
  have "\<exists>y. GetForwardOutputTensorWithLayout example_conv example_x example_w ''NCHW'' miopenFloat = Inr y
     \<and> t_type y = miopenFloat \<and> t_vector_length y = 1 \<and> t_layout y = miopenTensorNCHW"
    using example_strides
    by (simp add: GetForwardOutputTensorWithLayout_def example_conv_def example_x_def example_w_def
        TensorDescriptor_lens_eq GetLayout_str_def layout_lens_def layout_vector_def out_spatial_def
        out_len_default_def channels_error_def out_channels_def Let_def tensor_layout_get_default_def
        out_type_def TensorDescriptor_strides_def CalculateVectorLength_def upt_rec numeral_2_eq_2)
  then obtain y where y: "GetForwardOutputTensorWithLayout example_conv example_x example_w ''NCHW'' miopenFloat = Inr y"
     "t_type y = miopenFloat" "t_vector_length y = 1" "t_layout y = miopenTensorNCHW" by blast
  have "t_lens y = [2, 4, 4, 6]"
    unfolding plain_conv_lens [OF example_plain y(1)]
    by (simp add: example_conv_def example_x_def example_w_def TensorDescriptor_lens_eq
        layout_lens_def layout_vector_def out_len_default_def upt_rec)
  with y show ?thesis by blast
qed

theorem conv_output_windows_witness:
  "(\<exists>y. GetForwardOutputTensorWithLayout example_conv example_x example_w ''NCHW'' miopenFloat = Inr y
     \<and> 3 < spatial y 0 \<and> \<not> 4 < spatial y 0)
   \<and> (\<exists>y. GetForwardOutputTensorWithLayout tiny_conv tiny_x example_w ''NCHW'' miopenFloat = Inr y
     \<and> 0 < spatial y 0 \<and> \<not> 1 < spatial y 0)"
proof -
  obtain y where y: "GetForwardOutputTensorWithLayout example_conv example_x example_w ''NCHW'' miopenFloat = Inr y"
    using example_forward by blast
  have "\<forall>i < spatialDim example_conv. \<forall>q \<ge> 0. q < spatial y i \<longleftrightarrow> q = 0 \<or> q * strides example_conv ! i
      + dilations example_conv ! i * (spatial example_w i - 1) < spatial example_x i + 2 * pads example_conv ! i"
    using conv_output_windows [OF example_plain y] by blast
  then have "3 < spatial y 0" "\<not> 4 < spatial y 0"
    by (simp_all add: example_conv_def example_x_def example_w_def TensorDescriptor_lens_eq
        layout_lens_def layout_vector_def)
  moreover obtain z where z: "GetForwardOutputTensorWithLayout tiny_conv tiny_x example_w ''NCHW'' miopenFloat = Inr z"
    using tiny_forward by blast
  have "\<forall>i < spatialDim tiny_conv. \<forall>q \<ge> 0. q < spatial z i \<longleftrightarrow> q = 0 \<or> q * strides tiny_conv ! i
      + dilations tiny_conv ! i * (spatial example_w i - 1) < spatial tiny_x i + 2 * pads tiny_conv ! i"
    using conv_output_windows [OF tiny_plain(1) z] by blast
  then have "0 < spatial z 0" "\<not> 1 < spatial z 0"
    by (simp_all add: tiny_conv_def example_conv_def tiny_x_def example_w_def TensorDescriptor_lens_eq
        layout_lens_def layout_vector_def)
  ultimately show ?thesis using y z by blast
qed

definition transpose_of :: "conv_desc \<Rightarrow> tensor \<Rightarrow> tensor \<Rightarrow> conv_desc" where
  "transpose_of c x w = c\<lparr>cmode := miopenTranspose,
     trans_output_pads := map (\<lambda>i. (spatial x i + 2 * pads c ! i - (1 + dilations c ! i * (spatial w i - 1)))
        mod (strides c ! i)) [0..<spatialDim c]\<rparr>"

lemma transpose_lens:
  assumes "plain_conv c x w" "windows_fit c x w" "GetForwardOutputTensorWithLayout c x w lay ty = Inr y"
    and "group_count c = 1" "t_lens x ! 1 = t_lens w ! 1"
    and "GetForwardOutputTensorWithLayout (transpose_of c x w) y w lay' ty' = Inr z"
  shows "t_lens z = t_lens x"
proof -
  have lx: "length (t_lens x) = spatialDim c + 2" and lw: "length (t_lens w) = spatialDim c + 2"
    using assms(1) by (simp_all add: plain_conv_def)
  then have ly: "length (t_lens y) = spatialDim c + 2" using plain_conv_lens [OF assms(1,3)] by simp
  have inv: "of_int (out_len_transpose (sint (t_lens y ! Suc (Suc i))) (sint (t_lens w ! Suc (Suc i)))
        (strides c ! i) (dilations c ! i) (pads c ! i)
        ((spatial x i + 2 * pads c ! i - (1 + dilations c ! i * (spatial w i - 1))) mod (strides c ! i)))
      = t_lens x ! Suc (Suc i)"
    if i: "i < spatialDim c" for i
  proof -
    note f = spatial_forward [OF assms(1,3) i]
    have "t_lens w ! (i + 2) \<in> set (t_lens x) \<union> set (t_lens w)" using i lw by simp
    then have "spatial w i < 2 ^ 31" using assms(1) unfolding plain_conv_def by blast
    then have "sint (t_lens y ! Suc (Suc i)) = spatial y i" "sint (t_lens w ! Suc (Suc i)) = spatial w i"
      using sint_small [of "t_lens y ! (i + 2)"] sint_small [of "t_lens w ! (i + 2)"] f(7) by simp_all
    moreover have "1 + dilations c ! i * (spatial w i - 1) \<le> spatial x i + 2 * pads c ! i"
      using assms(2) i unfolding windows_fit_def by blast
    note out_len_transpose_inverts [OF f(3) f(2) f(4) f(5) f(6) this]
    ultimately have "out_len_transpose (sint (t_lens y ! Suc (Suc i))) (sint (t_lens w ! Suc (Suc i)))
        (strides c ! i) (dilations c ! i) (pads c ! i)
        ((spatial x i + 2 * pads c ! i - (1 + dilations c ! i * (spatial w i - 1))) mod (strides c ! i))
      = spatial x i"
      using f(1) by simp
    then show ?thesis by (simp add: word_of_int_uint)
  qed
  have "t_lens z = t_lens y ! 0 # t_lens w ! 1 # map (\<lambda>i. t_lens x ! Suc (Suc i)) [0..<spatialDim c]"
    using assms(1,4,6) inv ly lw
    by (auto simp: GetForwardOutputTensorWithLayout_def plain_conv_def out_spatial_def out_channels_def
        Let_def TensorDescriptor_strides_def CalculateVectorLength_def transpose_of_def
        split: if_splits option.splits sum.splits)
  moreover have "t_lens y ! 0 = t_lens x ! 0" using plain_conv_lens [OF assms(1,3)] by simp
  moreover have "t_lens x = t_lens x ! 0 # t_lens x ! 1 # map (\<lambda>i. t_lens x ! Suc (Suc i)) [0..<spatialDim c]"
  proof (rule nth_equalityI)
    fix j assume "j < length (t_lens x)"
    then show "t_lens x ! j = (t_lens x ! 0 # t_lens x ! 1 # map (\<lambda>i. t_lens x ! Suc (Suc i)) [0..<spatialDim c]) ! j"
      using lx by (cases j; cases "j - 1") (auto simp: nth_Cons')
  qed (simp add: lx)
  ultimately show ?thesis using assms(5) by simp
qed


lemma example_back_strides:
  "tensor_layout_to_strides_vector [2, 3, 8, 8] ''NCHW'' ''NCHW'' 1 = Inr [192, 64, 8, 1]"
  by (simp add: tensor_layout_to_strides_vector_def Let_def stride_of_def dim_to_len_def
      accumulate_int_def char_of_eq_iff)


lemma power_31_63: "(2 :: int) ^ 31 = 2147483648" "(2 :: int) ^ 63 = 9223372036854775808"
  by simp_all

text \<open>In the "valid" padding mode the output length is the number of undilated windows inside the
  unpadded input as long as the filter fits, but a filter longer than the input by more than
  one stride gives the length 0 or one near 2 ^ 64, where the default mode would give 1.\<close>

theorem valid_mode_length:
  assumes "1 \<le> s" "1 \<le> uint k" "uint n < 2 ^ 31" "uint k < 2 ^ 31"
  shows "out_len_valid n k s = Inr (of_int (cdiv (uint n - uint k + s) s))
    \<and> (uint k \<le> uint n \<longrightarrow> (\<forall>q \<ge> 0. q < cdiv (uint n - uint k + s) s \<longleftrightarrow> q * s + (uint k - 1) < uint n))
    \<and> (uint n + s \<le> uint k \<longrightarrow> cdiv (uint n - uint k + s) s \<le> 0)"
proof -
  have "0 \<le> uint n" "0 \<le> uint k" by simp_all
  with assms(3,4) have r: "uint n - uint k + 1 < 2 ^ 63" "- (2 ^ 63) \<le> uint n - uint k + 1"
    using power_31_63 by linarith+
  have e: "n - k + 1 = word_of_int (uint n - uint k + 1)" by (simp add: word_of_int_uint)
  have "sint (n - k + 1) = uint n - uint k + 1"
    unfolding e sint_sbintrunc' by (rule signed_take_bit_int_eq_self) (use r in simp_all)
  then have a: "out_len_valid n k s = Inr (of_int (cdiv (uint n - uint k + s) s))"
    using assms(1) by (simp add: out_len_valid_def integer_division_ceil_def add_diff_eq diff_add_eq)
  have b: "q < cdiv (uint n - uint k + s) s \<longleftrightarrow> q * s + (uint k - 1) < uint n"
    if "uint k \<le> uint n" "0 \<le> q" for q
  proof -
    have "cdiv (uint n - uint k + s) s = (uint n - uint k + s) div s" using that assms(1) by simp
    also have "\<dots> = (uint n - uint k) div s + 1" using assms(1) by (intro div_add_self2) simp
    finally have "q < cdiv (uint n - uint k + s) s \<longleftrightarrow> q \<le> (uint n - uint k) div s" by simp
    also have "\<dots> \<longleftrightarrow> q * s \<le> uint n - uint k" using assms(1) by (intro zle_div_iff_mult_le_aux) simp
    finally show ?thesis by linarith
  qed
  have c: "cdiv (uint n - uint k + s) s \<le> 0" if "uint n + s \<le> uint k"
    using that assms(1) by (auto simp: cdiv_def sgn_if pos_imp_zdiv_nonneg_iff)
  show ?thesis using a b c by blast
qed

theorem valid_mode_length_witness: "out_len_valid 3 5 1 = Inr (of_int (- 1))"
proof -
  have "out_len_valid 3 5 1 = Inr (of_int (cdiv (uint (3 :: size_t) - uint (5 :: size_t) + 1) 1))"
    using valid_mode_length [of 1 5 3] by simp
  also have "cdiv (uint (3 :: size_t) - uint (5 :: size_t) + 1) 1 = -1" by (simp add: cdiv_def)
  finally show ?thesis .
qed

end
