(* ===== verification/Problem_Description.thy ===== *)
theory Problem_Description
  imports Convolution Controls Db_Record
begin

text \<open>
  \<open>conv::ProblemDescription\<close> (\<open>src/include/miopen/conv/problem_description.hpp\<close>,
  \<open>src/conv/problem_description.cpp\<close>): a convolution problem, the getters of its sizes, the
  layouts it infers, and the two keys made from it, \<open>Serialize\<close> for the databases and
  \<open>BuildConfKey\<close> for the caches.
\<close>

section \<open>The problem\<close>

record problem =
  p_in :: tensor
  p_weights :: tensor
  p_out :: tensor
  p_conv :: conv_desc
  in_layout :: string
  weights_layout :: string
  out_layout :: string
  direction :: direction
  bias :: int

text \<open>\<open>tien\<close> pads a short vector; the others index it.\<close>

definition tien :: "nat \<Rightarrow> 'a list \<Rightarrow> 'a \<Rightarrow> 'a list" where
  "tien n x y = map (\<lambda>i. if i < length x then x ! i else y) [0..<n]"

definition GetDHW :: "nat \<Rightarrow> int list \<Rightarrow> int \<times> int \<times> int" where
  "GetDHW spatial_dims d = (if spatial_dims = 2 then (0, d ! 0, d ! 1) else (d ! 0, d ! 1, d ! 2))"

definition GetNCDHW :: "nat \<Rightarrow> size_t list \<Rightarrow> size_t list" where
  "GetNCDHW spatial_dims d =
     (if spatial_dims = 3 then tien 5 d 1 else [d ! 0, d ! 1, 1, d ! 2, d ! 3])"

definition GetD3 :: "nat \<Rightarrow> int list \<Rightarrow> int" where "GetD3 s d = fst (GetDHW s d)"
definition GetH3 :: "nat \<Rightarrow> int list \<Rightarrow> int" where "GetH3 s d = fst (snd (GetDHW s d))"
definition GetW3 :: "nat \<Rightarrow> int list \<Rightarrow> int" where "GetW3 s d = snd (snd (GetDHW s d))"

definition GetSpatialDims :: "problem \<Rightarrow> nat" where "GetSpatialDims p = spatialDim (p_conv p)"

definition GetN5 :: "nat \<Rightarrow> size_t list \<Rightarrow> size_t" where "GetN5 s d = GetNCDHW s d ! 0"
definition GetC5 :: "nat \<Rightarrow> size_t list \<Rightarrow> size_t" where "GetC5 s d = GetNCDHW s d ! 1"
definition GetD5 :: "nat \<Rightarrow> size_t list \<Rightarrow> size_t" where "GetD5 s d = GetNCDHW s d ! 2"
definition GetH5 :: "nat \<Rightarrow> size_t list \<Rightarrow> size_t" where "GetH5 s d = GetNCDHW s d ! 3"
definition GetW5 :: "nat \<Rightarrow> size_t list \<Rightarrow> size_t" where "GetW5 s d = GetNCDHW s d ! 4"

text \<open>The getters of the descriptor and of the tensors, as (depth, height, width).\<close>

definition GetPads :: "problem \<Rightarrow> int \<times> int \<times> int" where
  "GetPads p = GetDHW (GetSpatialDims p) (pads (p_conv p))"

definition GetKernelStrides :: "problem \<Rightarrow> int \<times> int \<times> int" where
  "GetKernelStrides p = GetDHW (GetSpatialDims p) (strides (p_conv p))"

definition GetDilations :: "problem \<Rightarrow> int \<times> int \<times> int" where
  "GetDilations p = GetDHW (GetSpatialDims p) (dilations (p_conv p))"

definition GetInDHW :: "problem \<Rightarrow> size_t \<times> size_t \<times> size_t" where
  "GetInDHW p = (let s = GetSpatialDims p; l = t_lens (p_in p) in (GetD5 s l, GetH5 s l, GetW5 s l))"

definition GetOutDHW :: "problem \<Rightarrow> size_t \<times> size_t \<times> size_t" where
  "GetOutDHW p = (let s = GetSpatialDims p; l = t_lens (p_out p) in (GetD5 s l, GetH5 s l, GetW5 s l))"

definition GetWeightsHeight :: "problem \<Rightarrow> size_t" where
  "GetWeightsHeight p =
     (if GetLayout_str (p_weights p) = ''CHWNc'' then tien 4 (t_lens (p_weights p)) 1 ! 1
      else GetH5 (GetSpatialDims p) (t_lens (p_weights p)))"

definition GetWeightsWidth :: "problem \<Rightarrow> size_t" where
  "GetWeightsWidth p =
     (if GetLayout_str (p_weights p) = ''CHWNc'' then tien 4 (t_lens (p_weights p)) 1 ! 2
      else GetW5 (GetSpatialDims p) (t_lens (p_weights p)))"

definition GetWeightsDHW :: "problem \<Rightarrow> size_t \<times> size_t \<times> size_t" where
  "GetWeightsDHW p = (GetD5 (GetSpatialDims p) (t_lens (p_weights p)), GetWeightsHeight p, GetWeightsWidth p)"

definition GetInChannels :: "problem \<Rightarrow> size_t" where
  "GetInChannels p = GetC5 (GetSpatialDims p) (t_lens (p_in p))"

definition GetOutChannels :: "problem \<Rightarrow> size_t" where
  "GetOutChannels p = GetC5 (GetSpatialDims p) (t_lens (p_out p))"

definition GetInBatchSize :: "problem \<Rightarrow> size_t" where
  "GetInBatchSize p = GetN5 (GetSpatialDims p) (t_lens (p_in p))"

definition GetBackwardPadW :: "problem \<Rightarrow> size_t" where
  "GetBackwardPadW p = GetWeightsWidth p - of_int (snd (snd (GetPads p))) - 1"

definition GetBackwardPadH :: "problem \<Rightarrow> size_t" where
  "GetBackwardPadH p = GetWeightsHeight p - of_int (snd (snd (GetPads p))) - 1"

definition IsAsymmetricPadH :: "problem \<Rightarrow> bool" where
  "IsAsymmetricPadH p \<longleftrightarrow> paddingMode (p_conv p) = miopenPaddingSame \<and> GetWeightsHeight p mod 2 = 0"

definition IsAsymmetricPadW :: "problem \<Rightarrow> bool" where
  "IsAsymmetricPadW p \<longleftrightarrow> paddingMode (p_conv p) = miopenPaddingSame \<and> GetWeightsWidth p mod 2 = 0"

definition Is2d :: "problem \<Rightarrow> bool" where "Is2d p \<longleftrightarrow> GetSpatialDims p = 2"

definition IsFp32 :: "problem \<Rightarrow> bool" where
  "IsFp32 p \<longleftrightarrow> t_type (p_in p) = miopenFloat \<and> t_type (p_weights p) = miopenFloat
     \<and> t_type (p_out p) = miopenFloat"

definition IsFp16 :: "problem \<Rightarrow> bool" where
  "IsFp16 p \<longleftrightarrow> t_type (p_in p) = miopenHalf \<and> t_type (p_weights p) = miopenHalf
     \<and> t_type (p_out p) = miopenHalf"

text \<open>The attribute is read from an environment variable when that is set.\<close>

definition IsGfx90aFp16altRequired :: "int option \<Rightarrow> problem \<Rightarrow> bool" where
  "IsGfx90aFp16altRequired env p =
     (let v = (case env of Some e \<Rightarrow> e | None \<Rightarrow> fp16alt (p_conv p)) in
      if \<not> IsFp16 p then False
      else (case direction p of
              Forward \<Rightarrow> v = 1
            | BackwardData \<Rightarrow> v \<noteq> 0
            | BackwardWeights \<Rightarrow> v \<noteq> 0))"

definition IsLayoutDefault :: "problem \<Rightarrow> bool" where
  "IsLayoutDefault p =
     (if GetSpatialDims p = 2
      then in_layout p = ''NCHW'' \<and> out_layout p = ''NCHW'' \<and> weights_layout p = ''NCHW''
      else in_layout p = ''NCDHW'' \<and> out_layout p = ''NCDHW'' \<and> weights_layout p = ''NCDHW'')"

section \<open>Construction\<close>

definition ComputeLayout :: "nat \<Rightarrow> tensor \<Rightarrow> string result" where
  "ComputeLayout spatial_dims t =
     (if spatial_dims = 2 then GetLayout t (GetLayout_str t) else GetLayout t ''NCDHW'')"

text \<open>The first supported layout that all three tensors can have; \<open>in && out && weights\<close> is
  evaluated from the left.\<close>

fun find_layout :: "problem \<Rightarrow> string \<Rightarrow> string list \<Rightarrow> string option result" where
  "find_layout p labels [] = Inr None"
| "find_layout p labels (layout # rest) =
     (if length layout \<noteq> length labels then find_layout p labels rest
      else
        (case IsPossibleLayout (p_in p) labels layout of
           Inl ex \<Rightarrow> Inl ex
         | Inr False \<Rightarrow> find_layout p labels rest
         | Inr True \<Rightarrow>
             (case IsPossibleLayout (p_out p) labels layout of
                Inl ex \<Rightarrow> Inl ex
              | Inr False \<Rightarrow> find_layout p labels rest
              | Inr True \<Rightarrow>
                  (case IsPossibleLayout (p_weights p) labels layout of
                     Inl ex \<Rightarrow> Inl ex
                   | Inr False \<Rightarrow> find_layout p labels rest
                   | Inr True \<Rightarrow> Inr (Some layout)))))"

definition HeuristicUpdateLayouts :: "problem \<Rightarrow> problem result" where
  "HeuristicUpdateLayouts p =
     (case find_layout p (tensor_layout_get_default (int (length (in_layout p))))
             [''NCHW'', ''NHWC'', ''CHWN'', ''NCDHW''] of
        Inl ex \<Rightarrow> Inl ex
      | Inr None \<Rightarrow> Inr p
      | Inr (Some layout) \<Rightarrow>
          Inr (p\<lparr>in_layout := layout, weights_layout := layout, out_layout := layout\<rparr>))"

definition ProblemDescription ::
  "tensor \<Rightarrow> tensor \<Rightarrow> tensor \<Rightarrow> conv_desc \<Rightarrow> direction \<Rightarrow> int \<Rightarrow> problem result" where
  "ProblemDescription i w out c dir b =
     (case ComputeLayout (spatialDim c) i of Inl ex \<Rightarrow> Inl ex
      | Inr il \<Rightarrow>
     (case ComputeLayout (spatialDim c) w of Inl ex \<Rightarrow> Inl ex
      | Inr wl \<Rightarrow>
     (case ComputeLayout (spatialDim c) out of Inl ex \<Rightarrow> Inl ex
      | Inr ol \<Rightarrow>
          HeuristicUpdateLayouts \<lparr>p_in = i, p_weights = w, p_out = out, p_conv = c, in_layout = il,
            weights_layout = wl, out_layout = ol, direction = dir, bias = b\<rparr>)))"

section \<open>Keys\<close>

definition GetDataTypeName :: "data_type \<Rightarrow> string" where
  "GetDataTypeName d = (case d of
      miopenFloat \<Rightarrow> ''FP32'' | miopenHalf \<Rightarrow> ''FP16'' | miopenInt8 \<Rightarrow> ''INT8''
    | miopenInt8x4 \<Rightarrow> ''INT8x4'' | miopenInt32 \<Rightarrow> ''INT32'' | miopenBFloat16 \<Rightarrow> ''BF16''
    | miopenDouble \<Rightarrow> ''FP64'')"

definition EncodeDataTypesForKey :: "data_type \<Rightarrow> data_type \<Rightarrow> data_type \<Rightarrow> string" where
  "EncodeDataTypesForKey i w out =
     (if i = w \<and> i = out then GetDataTypeName i
      else GetDataTypeName i @ GetDataTypeName w @ GetDataTypeName out)"

text \<open>\<open>stream << x\<close> of a \<open>std::size_t\<close>, and \<open>PrintDHW\<close>, whose arguments are \<open>int\<close>s.\<close>

definition show_size :: "size_t \<Rightarrow> string" where "show_size x = digits (unat x)"

definition to_int :: "size_t \<Rightarrow> int" where "to_int x = sint (ucast x :: 32 word)"

definition PrintDHW :: "char \<Rightarrow> nat \<Rightarrow> int \<Rightarrow> int \<Rightarrow> int \<Rightarrow> string" where
  "PrintDHW sep spatial_dims depth height width =
     (if spatial_dims > 2 then show_int depth @ [sep] else []) @ show_int height @ [sep] @ show_int width"

definition print_sizes :: "char \<Rightarrow> nat \<Rightarrow> size_t \<times> size_t \<times> size_t \<Rightarrow> string" where
  "print_sizes sep s dhw = (case dhw of (d, h, w) \<Rightarrow> PrintDHW sep s (to_int d) (to_int h) (to_int w))"

definition print_ints :: "char \<Rightarrow> nat \<Rightarrow> int \<times> int \<times> int \<Rightarrow> string" where
  "print_ints sep s dhw = (case dhw of (d, h, w) \<Rightarrow> PrintDHW sep s d h w)"

definition print_layouts :: "char \<Rightarrow> problem \<Rightarrow> string" where
  "print_layouts sep p =
     (if (in_layout p = ''NCHW'' \<and> weights_layout p = ''NCHW'' \<and> out_layout p = ''NCHW'')
       \<or> (in_layout p = ''NCDHW'' \<and> weights_layout p = ''NCDHW'' \<and> out_layout p = ''NCDHW'')
      then sep # in_layout p
      else sep # in_layout p @ sep # weights_layout p @ sep # out_layout p)"

definition direction_letter :: "direction \<Rightarrow> string" where
  "direction_letter d = (case d of Forward \<Rightarrow> ''F'' | BackwardData \<Rightarrow> ''B'' | BackwardWeights \<Rightarrow> ''W'')"

definition data_types_key :: "problem \<Rightarrow> string" where
  "data_types_key p = EncodeDataTypesForKey (t_type (p_in p)) (t_type (p_weights p)) (t_type (p_out p))"

definition BuildConfKey :: "problem \<Rightarrow> string" where
  "BuildConfKey p = (let s = GetSpatialDims p; x = CHR ''x'' in
     show_size (GetInChannels p)
     @ x # print_sizes x s (GetInDHW p)
     @ x # print_sizes x s (GetWeightsDHW p)
     @ x # show_size (GetOutChannels p)
     @ x # print_sizes x s (GetOutDHW p)
     @ x # show_size (GetInBatchSize p)
     @ print_layouts x p
     @ x # data_types_key p
     @ x # print_ints x s (GetPads p)
     @ x # print_ints x s (GetKernelStrides p)
     @ x # print_ints x s (GetDilations p)
     @ x # show_int (group_count (p_conv p))
     @ x # direction_letter (direction p))"

definition Problem_Serialize :: "problem \<Rightarrow> string" where
  "Problem_Serialize p = (let s = GetSpatialDims p; sep = CHR ''-''; x = CHR ''x'' in
     show_size (GetInChannels p)
     @ sep # print_sizes sep s (GetInDHW p)
     @ sep # print_sizes x s (GetWeightsDHW p)
     @ sep # show_size (GetOutChannels p)
     @ sep # print_sizes sep s (GetOutDHW p)
     @ sep # show_size (GetInBatchSize p)
     @ sep # print_ints x s (GetPads p)
     @ sep # print_ints x s (GetKernelStrides p)
     @ sep # print_ints x s (GetDilations p)
     @ sep # show_int (bias p)
     @ print_layouts sep p
     @ sep # data_types_key p
     @ sep # direction_letter (direction p)
     @ (if group_count (p_conv p) \<noteq> 1 then CHR ''_'' # CHR ''g'' # show_int (group_count (p_conv p)) else []))"

section \<open>What the database key determines\<close>

definition dims_of :: "nat \<Rightarrow> int \<times> int \<times> int \<Rightarrow> int list" where
  "dims_of s dhw = (case dhw of (d, h, w) \<Rightarrow> if s > 2 then [d, h, w] else [h, w])"

definition ints_of :: "size_t \<times> size_t \<times> size_t \<Rightarrow> int \<times> int \<times> int" where
  "ints_of dhw = (case dhw of (d, h, w) \<Rightarrow> (to_int d, to_int h, to_int w))"

definition problem_sizes :: "problem \<Rightarrow> int list list" where
  "problem_sizes p = (let s = GetSpatialDims p in
     [[uint (GetInChannels p)], dims_of s (ints_of (GetInDHW p)), dims_of s (ints_of (GetWeightsDHW p)),
      [uint (GetOutChannels p)], dims_of s (ints_of (GetOutDHW p)), [uint (GetInBatchSize p)],
      dims_of s (GetPads p), dims_of s (GetKernelStrides p), dims_of s (GetDilations p), [bias p]])"

definition problem_view ::
  "problem \<Rightarrow> int list list \<times> (string \<times> string \<times> string) \<times> (data_type \<times> data_type \<times> data_type)
     \<times> direction \<times> int" where
  "problem_view p = (problem_sizes p, (in_layout p, weights_layout p, out_layout p),
     (t_type (p_in p), t_type (p_weights p), t_type (p_out p)), direction p, group_count (p_conv p))"

definition layout_ok :: "string \<Rightarrow> bool" where
  "layout_ok l \<longleftrightarrow> l \<noteq> [] \<and> set l \<subseteq> set ''NCDHWc''"

definition wf_problem :: "problem \<Rightarrow> bool" where
  "wf_problem p \<longleftrightarrow> list_all (list_all (\<lambda>i. 0 \<le> i)) (problem_sizes p) \<and> 0 \<le> group_count (p_conv p)
     \<and> layout_ok (in_layout p) \<and> layout_ok (weights_layout p) \<and> layout_ok (out_layout p)"

definition one_layout :: "problem \<Rightarrow> bool" where
  "one_layout p \<longleftrightarrow>
     (in_layout p = ''NCHW'' \<and> weights_layout p = ''NCHW'' \<and> out_layout p = ''NCHW'')
   \<or> (in_layout p = ''NCDHW'' \<and> weights_layout p = ''NCDHW'' \<and> out_layout p = ''NCDHW'')"

definition layout_tokens :: "problem \<Rightarrow> string list" where
  "layout_tokens p = (if one_layout p then [in_layout p] else [in_layout p, weights_layout p, out_layout p])"

definition last_token :: "problem \<Rightarrow> string" where
  "last_token p = direction_letter (direction p)
     @ (if group_count (p_conv p) \<noteq> 1 then CHR ''_'' # CHR ''g'' # show_int (group_count (p_conv p)) else [])"

abbreviation by_x :: "int list \<Rightarrow> string" where
  "by_x is \<equiv> join_with ''x'' (map show_int is)"

definition key_tokens :: "problem \<Rightarrow> string list" where
  "key_tokens p = (let s = GetSpatialDims p in
     [show_size (GetInChannels p)] @ map show_int (dims_of s (ints_of (GetInDHW p)))
     @ [by_x (dims_of s (ints_of (GetWeightsDHW p))), show_size (GetOutChannels p)]
     @ map show_int (dims_of s (ints_of (GetOutDHW p)))
     @ [show_size (GetInBatchSize p), by_x (dims_of s (GetPads p)), by_x (dims_of s (GetKernelStrides p)),
        by_x (dims_of s (GetDilations p)), show_int (bias p)]
     @ layout_tokens p @ [data_types_key p, last_token p])"

lemma Serialize_tokens: "Problem_Serialize p = join_with ''-'' (key_tokens p)"
  by (simp add: Problem_Serialize_def key_tokens_def Let_def print_sizes_def print_ints_def PrintDHW_def
      dims_of_def ints_of_def print_layouts_def layout_tokens_def one_layout_def last_token_def
      split: prod.splits)

lemma show_size_int: "show_size x = show_int (uint x)"
  by (simp add: show_size_def show_int_def)

lemma show_int_digits: "0 \<le> i \<Longrightarrow> c \<in> set (show_int i) \<Longrightarrow> is_digit c"
  using digits_all by (simp add: show_int_def)

lemma show_int_clean: "0 \<le> i \<Longrightarrow> \<not> is_digit d \<Longrightarrow> d \<notin> set (show_int i)"
  using show_int_digits by blast

lemma show_int_inj: "0 \<le> i \<Longrightarrow> 0 \<le> j \<Longrightarrow> show_int i = show_int j \<longleftrightarrow> i = j"
  by (metis digits_value_digits show_int_def int_nat_eq linorder_not_le)

lemma show_int_nonempty [simp]: "show_int i \<noteq> []"
  by (simp add: show_int_def)

lemma not_digit: "\<not> is_digit CHR ''x''" "\<not> is_digit CHR ''-''" "\<not> is_digit CHR ''=''" "\<not> is_digit CHR 0x0A"
  "\<not> is_digit CHR ''_''"
  by (simp_all add: is_digit_def)

lemma by_x_inj:
  assumes "list_all (\<lambda>i. 0 \<le> i) is" "list_all (\<lambda>i. 0 \<le> i) js" "by_x is = by_x js"
  shows "is = js"
proof -
  have g: "getlines CHR ''x'' (by_x ks) = map show_int ks" if "list_all (\<lambda>i. 0 \<le> i) ks" for ks
  proof (rule getlines_join, intro ballI conjI)
    fix x assume "x \<in> set (map show_int ks)"
    then obtain i where i: "x = show_int i" "i \<in> set ks" by auto
    with that have "0 \<le> i" by (simp add: list_all_iff)
    with i show "CHR ''x'' \<notin> set x" using show_int_clean not_digit(1) by blast
    show "x \<noteq> []" using i by simp
  qed
  have "map show_int is = getlines CHR ''x'' (by_x is)" by (rule g [OF assms(1), symmetric])
  also have "\<dots> = map show_int js" unfolding assms(3) by (rule g [OF assms(2)])
  finally have "map show_int is = map show_int js" .
  moreover have "inj_on show_int (set is \<union> set js)"
    using assms(1,2) show_int_inj by (auto simp: inj_on_def list_all_iff)
  ultimately show ?thesis by (rule map_inj_on)
qed

lemma by_x_chars:
  assumes "list_all (\<lambda>i. 0 \<le> i) is" "c \<in> set (by_x is)"
  shows "is_digit c \<or> c = CHR ''x''"
  using assms set_join_with [of "''x''" "map show_int is"] show_int_digits by (fastforce simp: list_all_iff)

lemma by_x_nonempty: "is \<noteq> [] \<Longrightarrow> by_x is \<noteq> []"
  by (cases "is"; cases "tl is") (auto simp: join_with_Cons)

lemma data_type_names: "set (GetDataTypeName d) \<subseteq> set ''FPINTBx0123468''" "GetDataTypeName d \<noteq> []"
  by (cases d; simp add: GetDataTypeName_def)+

lemma data_types_key_chars: "set (data_types_key p) \<subseteq> set ''FPINTBx0123468''" "data_types_key p \<noteq> []"
  using data_type_names unfolding data_types_key_def EncodeDataTypesForKey_def by auto

lemma sized_tokens_inj:
  fixes I W O' P S D I2 W2 O2 P2 S2 D2 :: "int list"
  assumes len: "length I = n" "length W = n" "length O' = n" "n = 2 \<or> n = 3"
    and len': "length I2 = m" "length W2 = m" "length O2 = m" "m = 2 \<or> m = 3"
    and pos: "\<forall>xs \<in> {[C], I, W, [K], O', [N], P, S, D, [b]}. list_all (\<lambda>i. 0 \<le> i) xs"
    and pos': "\<forall>xs \<in> {[C2], I2, W2, [K2], O2, [N2], P2, S2, D2, [b2]}. list_all (\<lambda>i. 0 \<le> i) xs"
    and eq: "[show_int C] @ map show_int I @ [by_x W, show_int K] @ map show_int O'
        @ [show_int N, by_x P, by_x S, by_x D, show_int b] @ tail
      = [show_int C2] @ map show_int I2 @ [by_x W2, show_int K2] @ map show_int O2
        @ [show_int N2, by_x P2, by_x S2, by_x D2, show_int b2] @ tail2"
  shows "C = C2 \<and> I = I2 \<and> W = W2 \<and> K = K2 \<and> O' = O2 \<and> N = N2 \<and> P = P2 \<and> S = S2 \<and> D = D2 \<and> b = b2
    \<and> tail = tail2"
proof -
  have x: "CHR ''x'' \<in> set (by_x V)" if "length V = 2 \<or> length V = 3" for V
    using that by (auto simp: length_Suc_conv numeral_2_eq_2 numeral_3_eq_3)
  have nox: "by_x V \<noteq> show_int i" if "length V = 2 \<or> length V = 3" "0 \<le> i" for V i
    using x [OF that(1)] show_int_clean [OF that(2) not_digit(1)] by auto
  have "n = m"
  proof (rule ccontr)
    assume "n \<noteq> m"
    then consider "n = 2" "m = 3" | "n = 3" "m = 2" using len(4) len'(4) by auto
    then show False
    proof cases
      case 1
      then obtain a1 a2 c1 c2 c3 where "I = [a1, a2]" "I2 = [c1, c2, c3]"
        using len len' by (auto simp: length_Suc_conv numeral_2_eq_2 numeral_3_eq_3)
      with eq pos' have "by_x W = show_int c3" "0 \<le> c3" by simp_all
      with nox [of W c3] len 1 show False by simp
    next
      case 2
      then obtain a1 a2 c1 c2 c3 where "I2 = [a1, a2]" "I = [c1, c2, c3]"
        using len len' by (auto simp: length_Suc_conv numeral_2_eq_2 numeral_3_eq_3)
      with eq pos have "by_x W2 = show_int c3" "0 \<le> c3" by simp_all
      with nox [of W2 c3] len' 2 show False by simp
    qed
  qed
  have inj: "map show_int is = map show_int js \<Longrightarrow> list_all (\<lambda>i. 0 \<le> i) is \<Longrightarrow> list_all (\<lambda>i. 0 \<le> i) js \<Longrightarrow> is = js"
    for "is" js
    using by_x_inj [of "is" js] by simp
  have one: "show_int i = show_int j \<Longrightarrow> list_all (\<lambda>i. 0 \<le> i) [i] \<Longrightarrow> list_all (\<lambda>i. 0 \<le> i) [j] \<Longrightarrow> i = j"
    for i j using show_int_inj [of i j] by simp
  have c: "show_int C = show_int C2" "map show_int I = map show_int I2" "by_x W = by_x W2"
    "show_int K = show_int K2" "map show_int O' = map show_int O2" "show_int N = show_int N2"
    "by_x P = by_x P2" "by_x S = by_x S2" "by_x D = by_x D2" "show_int b = show_int b2" "tail = tail2"
    using eq len len' \<open>n = m\<close> by simp_all
  show ?thesis
    using c(11) one [OF c(1)] inj [OF c(2)] by_x_inj [OF _ _ c(3)] one [OF c(4)] inj [OF c(5)] one [OF c(6)]
      by_x_inj [OF _ _ c(7)] by_x_inj [OF _ _ c(8)] by_x_inj [OF _ _ c(9)] one [OF c(10)] pos pos'
    by simp
qed

lemma data_type_name_prefix:
  assumes "GetDataTypeName a @ r = GetDataTypeName b @ s"
    and "r = [] \<or> hd r \<noteq> CHR ''x''" "s = [] \<or> hd s \<noteq> CHR ''x''"
  shows "a = b \<and> r = s"
  using assms by (cases a; cases b; cases r; cases s; simp add: GetDataTypeName_def)

lemma hd_name: "hd (GetDataTypeName a @ r) \<noteq> CHR ''x''"
  by (cases a) (simp_all add: GetDataTypeName_def)

lemma data_types_inj:
  "EncodeDataTypesForKey a b c = EncodeDataTypesForKey a' b' c' \<longleftrightarrow> a = a' \<and> b = b' \<and> c = c'"
proof
  assume e: "EncodeDataTypesForKey a b c = EncodeDataTypesForKey a' b' c'"
  show "a = a' \<and> b = b' \<and> c = c'"
  proof -
    have three: "d = d' \<and> t = t' \<and> u = u'"
      if "GetDataTypeName d @ GetDataTypeName t @ GetDataTypeName u
        = GetDataTypeName d' @ GetDataTypeName t' @ GetDataTypeName u'" for d t u d' t' u'
      using data_type_name_prefix [OF that] data_type_name_prefix [of t "GetDataTypeName u" t' "GetDataTypeName u'"]
        data_type_name_prefix [of u "[]" u' "[]"] hd_name hd_name [of _ "[]"] by simp
    have one: "d = d'" if "GetDataTypeName d = GetDataTypeName d'" for d d'
      using data_type_name_prefix [of d "[]" d' "[]"] that by simp
    have mixed: "GetDataTypeName d \<noteq> GetDataTypeName d' @ GetDataTypeName t' @ GetDataTypeName u'" for d d' t' u'
      using data_type_name_prefix [of d "[]" d' "GetDataTypeName t' @ GetDataTypeName u'"]
        hd_name [of t'] data_type_names(2) [of t'] by auto
    show ?thesis
      using e three [of a b c a' b' c'] one [of a a'] mixed [of a a' b' c'] mixed [of a' a b c]
      by (auto simp: EncodeDataTypesForKey_def split: if_splits)
  qed
qed simp

lemma last_token_inj:
  assumes "last_token p = last_token q" "0 \<le> group_count (p_conv p)" "0 \<le> group_count (p_conv q)"
  shows "direction p = direction q \<and> group_count (p_conv p) = group_count (p_conv q)"
  using assms by (cases "direction p"; cases "direction q")
    (auto simp: last_token_def direction_letter_def show_int_inj split: if_splits)

lemma layout_tokens_inj:
  assumes "layout_tokens p @ [d, l] = layout_tokens q @ [d', l']"
  shows "in_layout p = in_layout q \<and> weights_layout p = weights_layout q \<and> out_layout p = out_layout q
    \<and> d = d' \<and> l = l'"
  using assms by (auto simp: layout_tokens_def one_layout_def split: if_splits)

lemma length_dims_of: "length (dims_of s t) = (if s > 2 then 3 else 2)"
  by (simp add: dims_of_def split: prod.splits)

lemma key_tokens_parts:
  "key_tokens p = (let s = GetSpatialDims p in
     [show_int (uint (GetInChannels p))] @ map show_int (dims_of s (ints_of (GetInDHW p)))
     @ [by_x (dims_of s (ints_of (GetWeightsDHW p))), show_int (uint (GetOutChannels p))]
     @ map show_int (dims_of s (ints_of (GetOutDHW p)))
     @ [show_int (uint (GetInBatchSize p)), by_x (dims_of s (GetPads p)),
        by_x (dims_of s (GetKernelStrides p)), by_x (dims_of s (GetDilations p)), show_int (bias p)]
     @ (layout_tokens p @ [data_types_key p, last_token p]))"
  by (simp add: key_tokens_def show_size_int Let_def)

lemma key_tokens_inj:
  assumes "wf_problem p" "wf_problem q" "key_tokens p = key_tokens q"
  shows "problem_view p = problem_view q"
proof -
  have pos: "\<forall>xs \<in> set (problem_sizes r). list_all (\<lambda>i. 0 \<le> i) xs" if "wf_problem r" for r
    using that by (simp add: wf_problem_def list_all_iff)
  note e = assms(3) [unfolded key_tokens_parts Let_def]
  note sized = sized_tokens_inj [OF _ _ _ _ _ _ _ _ _ _ e,
      of "if GetSpatialDims p > 2 then 3 else 2" "if GetSpatialDims q > 2 then 3 else 2"]
  have tail: "layout_tokens p @ [data_types_key p, last_token p] = layout_tokens q @ [data_types_key q, last_token q]"
    and sizes: "problem_sizes p = problem_sizes q"
    using sized pos [OF assms(1)] pos [OF assms(2)]
    by (simp_all add: length_dims_of problem_sizes_def Let_def)
  note l = layout_tokens_inj [OF tail]
  then have "last_token p = last_token q" "data_types_key p = data_types_key q" by blast+
  with l sizes last_token_inj [of p q] assms(1,2) show ?thesis
    by (simp add: problem_view_def wf_problem_def data_types_key_def data_types_inj)
qed

text \<open>The characters of a key.\<close>

definition key_char :: "char \<Rightarrow> bool" where
  "key_char c \<longleftrightarrow> is_digit c \<or> c \<in> set ''xNCDHWcFPITBg_''"

lemma by_x_key_chars: "list_all (\<lambda>i. 0 \<le> i) is \<Longrightarrow> c \<in> set (by_x is) \<Longrightarrow> key_char c"
  using by_x_chars by (fastforce simp: key_char_def)

lemma show_key_chars: "0 \<le> i \<Longrightarrow> c \<in> set (show_int i) \<Longrightarrow> key_char c"
  using show_int_digits by (simp add: key_char_def)


definition token_ok :: "string \<Rightarrow> bool" where
  "token_ok x \<longleftrightarrow> x \<noteq> [] \<and> (\<forall>c \<in> set x. key_char c)"

lemma token_chars:
  assumes "wf_problem p" "x \<in> set (key_tokens p)"
  shows "token_ok x"
proof -
  have pos: "\<forall>xs \<in> set (problem_sizes p). list_all (\<lambda>i. 0 \<le> i) xs"
    using assms(1) by (simp add: wf_problem_def list_all_iff)
  have ne: "by_x (dims_of s t) \<noteq> []" for s t
    using by_x_nonempty length_dims_of [of s t] by (metis list.size(3) zero_neq_numeral)
  have dt: "\<forall>c \<in> set (data_types_key p). key_char c"
  proof -
    have "\<forall>c \<in> set ''FPINTBx0123468''. key_char c" by (simp add: key_char_def is_digit_def)
    with data_types_key_chars(1) [of p] show ?thesis by blast
  qed
  have lay: "token_ok y" if "y \<in> set (layout_tokens p)" for y
  proof -
    have "\<forall>c \<in> set ''NCDHWc''. key_char c" by (simp add: key_char_def)
    moreover have "layout_ok y" using that assms(1) by (auto simp: layout_tokens_def wf_problem_def split: if_splits)
    ultimately show ?thesis unfolding layout_ok_def token_ok_def by blast
  qed
  have letter: "\<forall>c \<in> set (direction_letter d). key_char c" "direction_letter d \<noteq> []" for d
    by (cases d; simp add: direction_letter_def key_char_def)+
  have us: "key_char CHR ''_''" "key_char CHR ''g''" by (simp_all add: key_char_def)
  have gc: "\<forall>c \<in> set (show_int (group_count (p_conv p))). key_char c"
    using assms(1) show_key_chars unfolding wf_problem_def by blast
  have lst: "last_token p \<noteq> []" "\<forall>c \<in> set (last_token p). key_char c"
    using letter us gc by (auto simp: last_token_def)
  have num: "token_ok y" if y: "y \<in> show_int ` set xs" and xs: "xs \<in> set (problem_sizes p)" for y xs
  proof -
    obtain i where "y = show_int i" "i \<in> set xs" using y by blast
    moreover have "0 \<le> i" using xs pos \<open>i \<in> set xs\<close> by (simp add: list_all_iff)
    ultimately show ?thesis using show_key_chars by (simp add: token_ok_def)
  qed
  have byx: "token_ok (by_x (dims_of s t))" if "dims_of s t \<in> set (problem_sizes p)" for s t
    using that pos by_x_key_chars ne unfolding token_ok_def by blast
  have dt': "token_ok (data_types_key p)" and lst': "token_ok (last_token p)"
    using dt data_types_key_chars(2) lst by (simp_all add: token_ok_def)
  let ?s = "GetSpatialDims p"
  have single: "token_ok (show_int i)" if "[i] \<in> set (problem_sizes p)" for i
    using num [OF _ that] by simp
  have mem: "[uint (GetInChannels p)] \<in> set (problem_sizes p)" "dims_of ?s (ints_of (GetInDHW p)) \<in> set (problem_sizes p)"
    "dims_of ?s (ints_of (GetWeightsDHW p)) \<in> set (problem_sizes p)" "[uint (GetOutChannels p)] \<in> set (problem_sizes p)"
    "dims_of ?s (ints_of (GetOutDHW p)) \<in> set (problem_sizes p)" "[uint (GetInBatchSize p)] \<in> set (problem_sizes p)"
    "dims_of ?s (GetPads p) \<in> set (problem_sizes p)" "dims_of ?s (GetKernelStrides p) \<in> set (problem_sizes p)"
    "dims_of ?s (GetDilations p) \<in> set (problem_sizes p)" "[bias p] \<in> set (problem_sizes p)"
    by (simp_all add: problem_sizes_def Let_def)
  from assms(2) have "x = show_int (uint (GetInChannels p)) \<or> x \<in> show_int ` set (dims_of ?s (ints_of (GetInDHW p)))
      \<or> x = by_x (dims_of ?s (ints_of (GetWeightsDHW p))) \<or> x = show_int (uint (GetOutChannels p))
      \<or> x \<in> show_int ` set (dims_of ?s (ints_of (GetOutDHW p))) \<or> x = show_int (uint (GetInBatchSize p))
      \<or> x = by_x (dims_of ?s (GetPads p)) \<or> x = by_x (dims_of ?s (GetKernelStrides p))
      \<or> x = by_x (dims_of ?s (GetDilations p)) \<or> x = show_int (bias p) \<or> x \<in> set (layout_tokens p)
      \<or> x = data_types_key p \<or> x = last_token p"
    unfolding key_tokens_parts Let_def by (simp, argo)
  then show ?thesis
    by (elim disjE)
      (simp_all only: single [OF mem(1)] num [OF _ mem(2)] byx [OF mem(3)] single [OF mem(4)] num [OF _ mem(5)]
        single [OF mem(6)] byx [OF mem(7)] byx [OF mem(8)] byx [OF mem(9)] single [OF mem(10)] lay dt' lst')
qed

lemma Serialize_eq_iff:
  assumes "wf_problem p" "wf_problem q"
  shows "Problem_Serialize p = Problem_Serialize q \<longleftrightarrow> problem_view p = problem_view q"
proof
  assume e: "Problem_Serialize p = Problem_Serialize q"
  have g: "getlines CHR ''-'' (Problem_Serialize r) = key_tokens r" if "wf_problem r" for r
    unfolding Serialize_tokens
  proof (rule getlines_join, intro ballI)
    fix x assume "x \<in> set (key_tokens r)"
    from token_chars [OF that this] show "CHR ''-'' \<notin> set x \<and> x \<noteq> []"
      by (auto simp: token_ok_def key_char_def is_digit_def)
  qed
  have "key_tokens p = getlines CHR ''-'' (Problem_Serialize p)" by (rule g [OF assms(1), symmetric])
  also have "\<dots> = key_tokens q" unfolding e by (rule g [OF assms(2)])
  finally show "problem_view p = problem_view q" by (rule key_tokens_inj [OF assms])
next
  assume v: "problem_view p = problem_view q"
  then have s: "problem_sizes p = problem_sizes q" by (simp add: problem_view_def)
  then have d: "GetSpatialDims p > 2 \<longleftrightarrow> GetSpatialDims q > 2"
    using length_dims_of [of "GetSpatialDims p" "GetPads p"] length_dims_of [of "GetSpatialDims q" "GetPads q"]
    by (simp add: problem_sizes_def Let_def split: if_splits)
  have "key_tokens p = key_tokens q"
    using v s unfolding key_tokens_parts problem_view_def problem_sizes_def Let_def
    by (simp add: layout_tokens_def one_layout_def data_types_key_def last_token_def)
  then show "Problem_Serialize p = Problem_Serialize q" by (simp add: Serialize_tokens)
qed

text \<open>C20: The database key of a convolution problem determines it: two problems with non-negative
  sizes have the same \<open>Serialize\<close> text exactly when they agree in all sizes (the spatial
  ones as the \<open>int\<close>s that \<open>PrintDHW\<close> takes), paddings, strides,
  dilations, bias, layouts, data types, direction and group count, 2D and 3D problems included.\<close>

theorem Serialize_injective:
  assumes "wf_problem p" "wf_problem q"
  shows "Problem_Serialize p = Problem_Serialize q \<longleftrightarrow> problem_view p = problem_view q"
  by (rule Serialize_eq_iff [OF assms])

lemma Serialize_chars:
  assumes "wf_problem p"
  shows "Problem_Serialize p \<noteq> [] \<and> (\<forall>c \<in> set (Problem_Serialize p). key_char c \<or> c = CHR ''-'')"
proof -
  obtain y ys where k: "key_tokens p = y # ys" by (cases "key_tokens p") (simp_all add: key_tokens_def Let_def)
  then have "y \<noteq> []" using token_chars [OF assms, of y] by (simp add: token_ok_def)
  with k have "Problem_Serialize p \<noteq> []"
    unfolding Serialize_tokens by (cases ys) (simp_all add: join_with_Cons)
  moreover have "\<forall>c \<in> set (Problem_Serialize p). key_char c \<or> c = CHR ''-''"
    using set_join_with [of "''-''" "key_tokens p"] token_chars [OF assms]
    unfolding Serialize_tokens token_ok_def by fastforce
  ultimately show ?thesis by blast
qed

text \<open>So the text is a proper record key.\<close>

lemma Serialize_key_ok: "wf_problem p \<Longrightarrow> key_ok (Problem_Serialize p)"
  using Serialize_chars [of p] by (fastforce simp: key_ok_def key_char_def is_digit_def)

definition example_problem :: "int \<Rightarrow> problem" where
  "example_problem b = \<lparr>p_in = example_x, p_weights = example_w,
     p_out = TensorDescriptor_lens miopenFloat miopenTensorNCHW [2, 4, 4, 6], p_conv = example_conv,
     in_layout = ''NCHW'', weights_layout = ''NCHW'', out_layout = ''NCHW'', direction = Forward, bias = b\<rparr>"

lemma example_sizes:
  "problem_sizes (example_problem b) = [[3], [8, 8], [3, 3], [4], [4, 6], [2], [1, 1], [2, 1], [1, 2], [b]]"
  by (simp add: problem_sizes_def example_problem_def example_x_def example_w_def example_conv_def
      TensorDescriptor_lens_eq layout_lens_def layout_vector_def Let_def dims_of_def ints_of_def
      GetSpatialDims_def GetInChannels_def GetOutChannels_def GetInBatchSize_def GetInDHW_def GetOutDHW_def
      GetWeightsDHW_def GetWeightsHeight_def GetWeightsWidth_def GetPads_def GetKernelStrides_def
      GetDilations_def GetDHW_def GetNCDHW_def GetN5_def GetC5_def GetD5_def GetH5_def GetW5_def
      GetLayout_str_def to_int_def)

lemma example_wf: "0 \<le> b \<Longrightarrow> wf_problem (example_problem b)"
  by (simp add: wf_problem_def example_sizes) (simp add: example_problem_def example_conv_def layout_ok_def)

theorem Serialize_injective_witness:
  "Problem_Serialize (example_problem 0) \<noteq> Problem_Serialize (example_problem 1)"
  using Serialize_injective [OF example_wf [of 0] example_wf [of 1]]
  by (simp add: problem_view_def example_sizes)

text \<open>\<open>GetBackwardPadH\<close> subtracts the horizontal padding from the height of the filter: it differs
  from the backward padding of the height whenever the two paddings differ modulo 2 ^ 64.\<close>

lemma GetBackwardPadH_uses_pad_w:
  "GetBackwardPadH p = GetWeightsHeight p - of_int (fst (snd (GetPads p))) - 1
   \<longleftrightarrow> (of_int (fst (snd (GetPads p))) :: size_t) = of_int (snd (snd (GetPads p)))"
  by (auto simp: GetBackwardPadH_def)

end
