(* ===== verification/Solver_Context.thy ===== *)
theory Solver_Context
  imports Problem_Description
begin

text \<open>
  What a solver sees of a problem: \<open>miopen::ProblemDescription\<close>
  (\<open>src/include/miopen/problem_description.hpp\<close>, \<open>src/problem_description.cpp\<close>), whose sizes are
  \<open>int\<close>s copied from the \<open>std::size_t\<close>s of a \<open>conv::ProblemDescription\<close>, and the execution context.
  Arithmetic on \<open>int\<close>s that overflows is undefined, so the sizes are mathematical integers; a
  conversion to an unsigned type is written out.
\<close>

record problem_desc =
  conv_problem :: problem
  spatial_dims :: int
  n_inputs :: int
  in_height :: int
  in_width :: int
  in_depth :: int
  vectorLength :: int
  kernel_size_h :: int
  kernel_size_w :: int
  kernel_size_d :: int
  n_outputs :: int
  out_height :: int
  out_width :: int
  out_depth :: int
  batch_sz :: int
  pad_h :: int
  pad_w :: int
  pad_d :: int
  kernel_stride_h :: int
  kernel_stride_w :: int
  kernel_stride_d :: int
  kernel_dilation_h :: int
  kernel_dilation_w :: int
  kernel_dilation_d :: int
  c_bias :: int
  c_in_layout :: string
  c_weights_layout :: string
  c_out_layout :: string
  in_data_type :: data_type
  weights_data_type :: data_type
  out_data_type :: data_type
  bot_sz :: size_t
  top_sz :: size_t
  weights_sz :: size_t
  bias_sz :: size_t
  in_stride :: int
  out_stride :: int
  in_channel_stride :: int
  in_batch_stride :: int
  out_channel_stride :: int
  out_batch_stride :: int
  group_counts :: int
  c_direction :: direction

text \<open>The execution context: the modes a solver tests, and the properties of the device.\<close>

record conv_context = problem_desc +
  use_asm_kernels :: bool
  use_binaries :: bool
  rmv :: int
  xnack :: "bool option"
  device_name :: string
  fp16alt_env :: "int option"

definition IsV2orV3 :: "int \<Rightarrow> bool" where
  "IsV2orV3 val \<longleftrightarrow> 1 \<le> val \<and> val \<le> 3"

section \<open>Construction from a convolution problem\<close>

definition GetInSize :: "problem \<Rightarrow> size_t" where
  "GetInSize p = (case GetInDHW p of (d, h, w) \<Rightarrow>
     GetInBatchSize p * GetInChannels p * d * h * w * GetTypeSize (t_type (p_in p)))"

definition GetOutSize :: "problem \<Rightarrow> size_t" where
  "GetOutSize p = (case GetOutDHW p of (d, h, w) \<Rightarrow>
     GetN5 (GetSpatialDims p) (t_lens (p_out p)) * GetOutChannels p * d * h * w
       * GetTypeSize (t_type (p_out p)))"

definition GetWeightsSize :: "problem \<Rightarrow> size_t" where
  "GetWeightsSize p = (case GetWeightsDHW p of (d, h, w) \<Rightarrow>
     GetInChannels p * GetOutChannels p * d * h * w * GetTypeSize (t_type (p_weights p)))"

definition GetBaiasSize :: "problem \<Rightarrow> size_t" where
  "GetBaiasSize p = (if bias p \<noteq> 0 then GetOutChannels p * GetTypeSize (t_type (p_out p)) else 0)"

definition ProblemDescription_of :: "problem \<Rightarrow> problem_desc" where
  "ProblemDescription_of p = (let s = GetSpatialDims p in
    \<lparr>conv_problem = p,
     spatial_dims = int s,
     n_inputs = to_int (GetInChannels p),
     in_height = to_int (fst (snd (GetInDHW p))),
     in_width = to_int (snd (snd (GetInDHW p))),
     in_depth = to_int (fst (GetInDHW p)),
     vectorLength = to_int (t_vector_length (p_in p)),
     kernel_size_h = to_int (GetWeightsHeight p),
     kernel_size_w = to_int (GetWeightsWidth p),
     kernel_size_d = to_int (fst (GetWeightsDHW p)),
     n_outputs = to_int (GetOutChannels p),
     out_height = to_int (fst (snd (GetOutDHW p))),
     out_width = to_int (snd (snd (GetOutDHW p))),
     out_depth = to_int (fst (GetOutDHW p)),
     batch_sz = to_int (GetInBatchSize p),
     pad_h = fst (snd (GetPads p)),
     pad_w = snd (snd (GetPads p)),
     pad_d = fst (GetPads p),
     kernel_stride_h = fst (snd (GetKernelStrides p)),
     kernel_stride_w = snd (snd (GetKernelStrides p)),
     kernel_stride_d = fst (GetKernelStrides p),
     kernel_dilation_h = fst (snd (GetDilations p)),
     kernel_dilation_w = snd (snd (GetDilations p)),
     kernel_dilation_d = fst (GetDilations p),
     c_bias = bias p,
     c_in_layout = in_layout p,
     c_weights_layout = weights_layout p,
     c_out_layout = out_layout p,
     in_data_type = t_type (p_in p),
     weights_data_type = t_type (p_weights p),
     out_data_type = t_type (p_out p),
     bot_sz = GetInSize p,
     top_sz = GetOutSize p,
     weights_sz = GetWeightsSize p,
     bias_sz = of_int (bias p),
     in_stride = to_int (GetH5 s (t_strides (p_in p))),
     out_stride = to_int (GetH5 s (t_strides (p_out p))),
     in_channel_stride = to_int (GetC5 s (t_strides (p_in p))),
     in_batch_stride = to_int (GetN5 s (t_strides (p_in p))),
     out_channel_stride = to_int (GetC5 s (t_strides (p_out p))),
     out_batch_stride = to_int (GetN5 s (t_strides (p_out p))),
     group_counts = group_count (p_conv p),
     c_direction = direction p\<rparr>)"

text \<open>The constructor from the tensors of the operation: backward problems swap input and output.\<close>

definition ProblemDescription_tensors ::
  "tensor \<Rightarrow> tensor \<Rightarrow> tensor \<Rightarrow> conv_desc \<Rightarrow> direction \<Rightarrow> int \<Rightarrow> problem_desc result" where
  "ProblemDescription_tensors i w out c dir b =
     map_sum id ProblemDescription_of
       (if dir = Forward then ProblemDescription i w out c dir b else ProblemDescription out w i c dir b)"

section \<open>Its database key\<close>

definition desc_Serialize :: "('a) problem_desc_scheme \<Rightarrow> string" where
  "desc_Serialize d = (let s = nat (spatial_dims d); sep = CHR ''-''; x = CHR ''x'' in
     show_int (n_inputs d)
     @ sep # PrintDHW sep s (in_depth d) (in_height d) (in_width d)
     @ sep # PrintDHW x s (kernel_size_d d) (kernel_size_h d) (kernel_size_w d)
     @ sep # show_int (n_outputs d)
     @ sep # PrintDHW sep s (out_depth d) (out_height d) (out_width d)
     @ sep # show_int (batch_sz d)
     @ sep # PrintDHW x s (pad_d d) (pad_h d) (pad_w d)
     @ sep # PrintDHW x s (kernel_stride_d d) (kernel_stride_h d) (kernel_stride_w d)
     @ sep # PrintDHW x s (kernel_dilation_d d) (kernel_dilation_h d) (kernel_dilation_w d)
     @ sep # show_int (c_bias d)
     @ (if (c_in_layout d = ''NCHW'' \<and> c_weights_layout d = ''NCHW'' \<and> c_out_layout d = ''NCHW'')
         \<or> (c_in_layout d = ''NCDHW'' \<and> c_weights_layout d = ''NCDHW'' \<and> c_out_layout d = ''NCDHW'')
        then sep # c_in_layout d
        else sep # c_in_layout d @ sep # c_weights_layout d @ sep # c_out_layout d)
     @ sep # EncodeDataTypesForKey (in_data_type d) (weights_data_type d) (out_data_type d)
     @ sep # (if c_direction d = Forward then ''F'' else if c_direction d = BackwardData then ''B'' else ''W'')
     @ (if group_counts d \<noteq> 1 then CHR ''_'' # CHR ''g'' # show_int (group_counts d) else []))"

text \<open>Both classes give a problem the same database key, as long as its channel and batch counts fit
  an \<open>int\<close>: the copy in \<open>miopen::ProblemDescription\<close> loses nothing that the key contains.\<close>

theorem desc_Serialize_eq:
  assumes "uint (GetInChannels p) < 2 ^ 31" "uint (GetOutChannels p) < 2 ^ 31" "uint (GetInBatchSize p) < 2 ^ 31"
  shows "desc_Serialize (ProblemDescription_of p) = Problem_Serialize p"
proof -
  have fits: "to_int x = uint x" if "uint x < 2 ^ 31" for x
  proof -
    have "uint (ucast x :: 32 word) = uint x"
      using that by (simp add: unsigned_ucast_eq take_bit_int_eq_self)
    then show ?thesis
      unfolding to_int_def sint_uint
      using that by (simp add: signed_take_bit_int_eq_self order_trans [OF _ uint_ge_0])
  qed
  show ?thesis
    using assms
    by (simp add: desc_Serialize_def ProblemDescription_of_def Problem_Serialize_def Let_def fits show_size_int
        print_sizes_def print_ints_def print_layouts_def data_types_key_def direction_letter_def
        GetWeightsDHW_def split: prod.splits direction.splits)
qed

theorem desc_Serialize_eq_witness:
  "desc_Serialize (ProblemDescription_of (example_problem 0)) = Problem_Serialize (example_problem 0)"
  by (rule desc_Serialize_eq)
    (simp_all add: example_problem_def example_x_def example_conv_def TensorDescriptor_lens_eq
      layout_lens_def layout_vector_def GetSpatialDims_def GetInChannels_def GetOutChannels_def
      GetInBatchSize_def GetNCDHW_def GetN5_def GetC5_def)

text \<open>The size of the bias is the bias flag, not \<open>GetBaiasSize\<close>.\<close>

lemma bias_sz_is_flag: "bias_sz (ProblemDescription_of p) = of_int (bias p)"
  by (simp add: ProblemDescription_of_def Let_def)

section \<open>Tests that the solvers share\<close>

definition ctx_Is2d :: "'a problem_desc_scheme \<Rightarrow> bool" where
  "ctx_Is2d d \<longleftrightarrow> spatial_dims d = 2"

definition ctx_IsFp32 :: "'a problem_desc_scheme \<Rightarrow> bool" where
  "ctx_IsFp32 d \<longleftrightarrow> in_data_type d = miopenFloat \<and> weights_data_type d = miopenFloat
     \<and> out_data_type d = miopenFloat"

definition ctx_IsFp16 :: "'a problem_desc_scheme \<Rightarrow> bool" where
  "ctx_IsFp16 d \<longleftrightarrow> in_data_type d = miopenHalf \<and> weights_data_type d = miopenHalf
     \<and> out_data_type d = miopenHalf"

definition ctx_IsBfp16 :: "'a problem_desc_scheme \<Rightarrow> bool" where
  "ctx_IsBfp16 d \<longleftrightarrow> in_data_type d = miopenBFloat16 \<and> weights_data_type d = miopenBFloat16
     \<and> out_data_type d = miopenBFloat16"

definition ctx_IsLayoutDefault :: "'a problem_desc_scheme \<Rightarrow> bool" where
  "ctx_IsLayoutDefault d = IsLayoutDefault (conv_problem d)"

definition ctx_IsLayoutNHWC :: "'a problem_desc_scheme \<Rightarrow> bool" where
  "ctx_IsLayoutNHWC d =
     (if spatial_dims d = 2
      then c_in_layout d = ''NHWC'' \<and> c_out_layout d = ''NHWC'' \<and> c_weights_layout d = ''NHWC''
      else c_in_layout d = ''NDHWC'' \<and> c_out_layout d = ''NDHWC'' \<and> c_weights_layout d = ''NDHWC'')"

definition StartsWith :: "string \<Rightarrow> string \<Rightarrow> bool" where
  "StartsWith value prefix \<longleftrightarrow> length prefix \<le> length value \<and> take (length prefix) value = prefix"

text \<open>\<open>size_t\<close> conversion of an \<open>int\<close>.\<close>

definition to_size :: "int \<Rightarrow> int" where "to_size i = i mod 2 ^ 64"

lemma to_size_id [simp]: "0 \<le> i \<Longrightarrow> i < 2 ^ 64 \<Longrightarrow> to_size i = i"
  by (simp add: to_size_def)

section \<open>The unified description of 2D problems\<close>

record unified_conv2d =
  uK :: size_t
  uS :: size_t
  uC :: size_t
  uN :: size_t
  uR :: size_t
  u_pad_w :: int
  u_pad_h :: int
  uU :: size_t
  uV :: size_t
  u_out_w :: size_t
  u_out_h :: size_t
  u_input_stride_w :: size_t
  u_input_stride_h :: size_t
  u_filter_stride_w :: size_t
  u_filter_stride_h :: size_t

definition UnifiedDescriptionConv2d :: "'a problem_desc_scheme \<Rightarrow> unified_conv2d result" where
  "UnifiedDescriptionConv2d p =
     (if \<not> ctx_Is2d p
      then throw_st miopenStatusInternalError ''UnifiedDescriptionConv2d supports only 2D''
      else
        let n_inputs_per_group = cdiv (n_inputs p) (group_counts p);
            n_outputs_per_group = cdiv (n_outputs p) (group_counts p);
            fwd = (c_direction p = Forward) in
        if c_direction p \<noteq> BackwardWeights then
          Inr \<lparr>uK = of_int n_outputs_per_group, uS = of_int (kernel_size_w p), uC = of_int n_inputs_per_group,
               uN = of_int (batch_sz p), uR = of_int (kernel_size_h p),
               u_pad_w = (if fwd then pad_w p else kernel_size_w p - pad_w p - 1),
               u_pad_h = (if fwd then pad_h p else kernel_size_h p - pad_h p - 1),
               uU = (if fwd then of_int (kernel_stride_h p) else 1),
               uV = (if fwd then of_int (kernel_stride_w p) else 1),
               u_out_w = of_int (out_width p), u_out_h = of_int (out_height p),
               u_input_stride_w = (if fwd then 1 else of_int (kernel_stride_w p)),
               u_input_stride_h = (if fwd then 1 else of_int (kernel_stride_h p)),
               u_filter_stride_w = of_int (kernel_dilation_w p),
               u_filter_stride_h = of_int (kernel_dilation_h p)\<rparr>
        else
          Inr \<lparr>uK = of_int n_inputs_per_group, uS = of_int (in_width p), uC = of_int (batch_sz p),
               uN = of_int n_outputs_per_group, uR = of_int (in_height p),
               u_pad_w = pad_w p, u_pad_h = pad_h p,
               uU = of_int (kernel_dilation_h p), uV = of_int (kernel_dilation_w p),
               u_out_w = of_int (kernel_size_w p), u_out_h = of_int (kernel_size_h p),
               u_input_stride_w = 1, u_input_stride_h = 1,
               u_filter_stride_w = of_int (kernel_stride_w p),
               u_filter_stride_h = of_int (kernel_stride_h p)\<rparr>)"

end
