(* ===== verification/Solver_Grid.thy ===== *)
theory Solver_Grid
  imports Solver_Context
begin

text \<open>
  What the solvers' solutions share: the work group and grid sizes of a kernel
  (\<open>src/include/miopen/kernel_info.hpp\<close>), and rounded-up division with its bounds.
\<close>

record grid =
  l_wk :: "int list"
  g_wk :: "int list"

definition ceil_div :: "int \<Rightarrow> int \<Rightarrow> int" where
  "ceil_div x y = (x + y - 1) div y"

lemma ceil_div_covers: "0 < y \<Longrightarrow> x \<le> ceil_div x y * y"
proof -
  assume y: "0 < y"
  have "x + y - 1 = ceil_div x y * y + (x + y - 1) mod y" by (simp add: ceil_div_def)
  moreover have "(x + y - 1) mod y < y" using y by simp
  ultimately show ?thesis by linarith
qed

lemma ceil_div_tight: "0 < y \<Longrightarrow> ceil_div x y * y < x + y"
proof -
  assume y: "0 < y"
  have "x + y - 1 = ceil_div x y * y + (x + y - 1) mod y" by (simp add: ceil_div_def)
  moreover have "0 \<le> (x + y - 1) mod y" using y by simp
  ultimately show ?thesis by linarith
qed

lemma ceil_div_le: "0 < y \<Longrightarrow> ceil_div x y \<le> q \<longleftrightarrow> x \<le> q * y"
proof
  assume y: "0 < y" and "ceil_div x y \<le> q"
  then have "ceil_div x y * y \<le> q * y" by simp
  with ceil_div_covers [OF y] show "x \<le> q * y" by (rule order_trans)
next
  assume y: "0 < y" and "x \<le> q * y"
  then have "ceil_div x y * y < (q + 1) * y" using ceil_div_tight [OF y, of x] by (simp add: distrib_right)
  then have "ceil_div x y < q + 1" using y by (simp only: mult_less_cancel_right_pos)
  then show "ceil_div x y \<le> q" by simp
qed

lemma ceil_div_gt: "0 < y \<Longrightarrow> q < ceil_div x y \<longleftrightarrow> q * y < x"
  using ceil_div_le [of y x q] by linarith

lemma ceil_div_pos: "0 < y \<Longrightarrow> 0 < x \<Longrightarrow> 1 \<le> ceil_div x y"
  using ceil_div_gt [of y 0 x] by simp

lemma cdiv_ceil : "0 < y \<Longrightarrow> 0 \<le> x \<Longrightarrow> cdiv (x + y - 1) y = ceil_div x y"
  by (simp add: ceil_div_def)

text \<open>\<open>divide_round_plus_inf\<close> of the solvers is the same function.\<close>

definition divide_round_plus_inf :: "int \<Rightarrow> int \<Rightarrow> int" where
  "divide_round_plus_inf x y = (if cmod x y \<noteq> 0 then cdiv x y + 1 else cdiv x y)"

lemma divide_round_plus_inf :
  assumes "0 \<le> x" "0 < y"
  shows "divide_round_plus_inf x y = ceil_div x y"
proof -
  have e: "x = x div y * y + x mod y" and r: "0 \<le> x mod y" "x mod y < y" using assms(2) by simp_all
  show ?thesis
  proof (cases "x mod y = 0")
    case True
    have "(x div y - 1) * y = x div y * y - y" by (simp add: left_diff_distrib)
    with e True assms(2) have "x \<le> x div y * y" "(x div y - 1) * y < x" by linarith+
    then have "ceil_div x y \<le> x div y" "x div y - 1 < ceil_div x y"
      using assms(2) by (simp_all add: ceil_div_le ceil_div_gt)
    with True assms show ?thesis by (simp add: divide_round_plus_inf_def)
  next
    case False
    have "(x div y + 1) * y = x div y * y + y" by (simp add: distrib_right)
    with e r False have "x \<le> (x div y + 1) * y" "x div y * y < x" by linarith+
    then have "ceil_div x y \<le> x div y + 1" "x div y < ceil_div x y"
      using assms(2) by (simp_all add: ceil_div_le ceil_div_gt)
    with False assms show ?thesis by (simp add: divide_round_plus_inf_def)
  qed
qed

section \<open>Kernels\<close>

text \<open>A kernel of a solution: what it is compiled from and with, and its sizes.\<close>

record kernel_info = grid +
  comp_options :: string
  kernel_file :: string
  kernel_name :: string

definition GenerateClangDefsym :: "string \<Rightarrow> string \<Rightarrow> string" where
  "GenerateClangDefsym nm val = '' -Wa,-defsym,'' @ nm @ ''='' @ val"

definition GenerateClangDefsyms :: "(string \<times> int) list \<Rightarrow> string" where
  "GenerateClangDefsyms nvs = concat (map (\<lambda>(n, v). GenerateClangDefsym n (show_int v)) nvs)"

text \<open>A build parameter from an integer.\<close>

definition kbp_int :: "string \<Rightarrow> int \<Rightarrow> build_parameter" where
  "kbp_int nm v = \<lparr>bp_type = Define, bp_name = nm, bp_value = show_int v\<rparr>"

text \<open>\<open>s.find(p) != npos\<close>, and a value stored to an \<open>int\<close>.\<close>

definition contains_str :: "string \<Rightarrow> string \<Rightarrow> bool" where
  "contains_str s p \<longleftrightarrow> list_ex (\<lambda>i. take (length p) (drop i s) = p) [0..<Suc (length s)]"

definition as_int :: "int \<Rightarrow> int" where "as_int = signed_take_bit 31"

lemma as_int_id [simp]: "- (2 ^ 31) \<le> x \<Longrightarrow> x < 2 ^ 31 \<Longrightarrow> as_int x = x"
  by (simp add: as_int_def signed_take_bit_int_eq_self)

lemma to_size_as_int: "0 < x \<Longrightarrow> x < 2 ^ 31 \<Longrightarrow> to_size (as_int x) = x"
  by (subst as_int_id) simp_all

section \<open>Example contexts\<close>

text \<open>A float problem with two images of 8 x 8 pixels, 8 input and 16 output channels, an \<open>r\<close> x \<open>r\<close>
  filter and padding \<open>q\<close>, on a gfx906 device.\<close>

definition context_of :: "problem \<Rightarrow> conv_context" where
  "context_of p = problem_desc.extend (ProblemDescription_of p)
     \<lparr>use_asm_kernels = True, use_binaries = True, rmv = 3, xnack = None, device_name = ''gfx906'', fp16alt_env = None\<rparr>"

definition example_desc :: "nat \<Rightarrow> int \<Rightarrow> problem" where
  "example_desc r q = \<lparr>p_in = TensorDescriptor_lens miopenFloat miopenTensorNCHW [2, 8, 8, 8],
     p_weights = TensorDescriptor_lens miopenFloat miopenTensorNCHW [16, 8, of_nat r, of_nat r],
     p_out = TensorDescriptor_lens miopenFloat miopenTensorNCHW [2, 16, 8, 8],
     p_conv = example_conv\<lparr>pads := [q, q], strides := [1, 1], dilations := [1, 1]\<rparr>,
     in_layout = ''NCHW'', weights_layout = ''NCHW'', out_layout = ''NCHW'', direction = Forward, bias = 0\<rparr>"

lemmas example_desc_simps = example_desc_def example_conv_def TensorDescriptor_lens_eq layout_lens_def
  layout_vector_def GetSpatialDims_def GetInChannels_def GetOutChannels_def GetInBatchSize_def GetInDHW_def
  GetOutDHW_def GetWeightsDHW_def GetWeightsHeight_def GetWeightsWidth_def GetPads_def GetKernelStrides_def
  GetDilations_def GetDHW_def GetNCDHW_def GetN5_def GetC5_def GetD5_def GetH5_def GetW5_def
  GetLayout_str_def to_int_def

lemma of_nat_take_bit_32: "(of_nat (take_bit 64 r) :: 32 word) = of_nat r"
  by (rule word_of_nat_eq_iff [THEN iffD2]) (simp add: take_bit_take_bit)

definition example_context :: "nat \<Rightarrow> int \<Rightarrow> conv_context" where
  "example_context r q = context_of (example_desc r q)"

lemma example_context_fields:
  "spatial_dims (example_context r q) = 2" "n_inputs (example_context r q) = 8"
  "in_height (example_context r q) = 8" "in_width (example_context r q) = 8"
  "n_outputs (example_context r q) = 16" "out_height (example_context r q) = 8"
  "out_width (example_context r q) = 8" "batch_sz (example_context r q) = 2"
  "pad_h (example_context r q) = q" "pad_w (example_context r q) = q"
  "kernel_stride_h (example_context r q) = 1" "kernel_stride_w (example_context r q) = 1"
  "kernel_dilation_h (example_context r q) = 1" "kernel_dilation_w (example_context r q) = 1"
  "c_in_layout (example_context r q) = ''NCHW''" "c_weights_layout (example_context r q) = ''NCHW''"
  "c_out_layout (example_context r q) = ''NCHW''" "in_data_type (example_context r q) = miopenFloat"
  "weights_data_type (example_context r q) = miopenFloat" "out_data_type (example_context r q) = miopenFloat"
  "group_counts (example_context r q) = 1" "c_direction (example_context r q) = Forward"
  "c_bias (example_context r q) = 0" "rmv (example_context r q) = 3" "xnack (example_context r q) = None"
  "use_asm_kernels (example_context r q)" "use_binaries (example_context r q)"
  "device_name (example_context r q) = ''gfx906''" "fp16alt_env (example_context r q) = None"
  "conv_problem (example_context r q) = example_desc r q"
  "kernel_size_h (example_context r q) = sint (of_nat r :: 32 word)"
  "kernel_size_w (example_context r q) = sint (of_nat r :: 32 word)"
  by (simp_all add: example_context_def context_of_def problem_desc.defs ProblemDescription_of_def
      example_desc_simps unsigned_of_nat of_nat_take_bit_32)

lemma example_context_layout:
  "ctx_Is2d (example_context r q)" "ctx_IsFp32 (example_context r q)" "ctx_IsLayoutDefault (example_context r q)"
  "\<not> IsAsymmetricPadH (example_desc r q)" "\<not> IsAsymmetricPadW (example_desc r q)"
  by (simp_all add: ctx_Is2d_def ctx_IsFp32_def ctx_IsLayoutDefault_def example_context_fields IsLayoutDefault_def
      IsAsymmetricPadH_def IsAsymmetricPadW_def)
    (simp_all add: example_desc_simps)

end
