(* ===== verification/Perf_Fields.thy ===== *)
theory Perf_Fields
  imports Solver_Grid Sequences
begin

text \<open>
  The field steppers that the performance configurations of the assembly solvers share
  (the helpers at the top of \<open>src/solver/conv_asm_1x1u.cpp\<close> and its siblings): ranges and
  powers of two with wrap-around, and the \<open>do \<dots> while(false)\<close> chain of a \<open>SetNextValue\<close>.
\<close>

definition IsTwoPower_LH :: "int \<Rightarrow> int \<Rightarrow> int \<Rightarrow> bool" where
  "IsTwoPower_LH L H v = (if (v - 1) AND v \<noteq> 0 then False else L \<le> v \<and> v \<le> H)"

definition NextTwoPower :: "int \<Rightarrow> int \<Rightarrow> int \<Rightarrow> int \<times> bool" where
  "NextTwoPower L H v = (if v = H then (L, True) else (v * 2, False))"

definition IsLinear :: "int \<Rightarrow> int \<Rightarrow> int \<Rightarrow> bool" where
  "IsLinear L H v \<longleftrightarrow> L \<le> v \<and> v \<le> H"

definition NextLinear :: "int \<Rightarrow> int \<Rightarrow> int \<Rightarrow> int \<times> bool" where
  "NextLinear L H v = (if H = v then (L, True) else (v + 1, False))"

definition Is_1_4_8_12_to_32 :: "int \<Rightarrow> bool" where
  "Is_1_4_8_12_to_32 v \<longleftrightarrow> v = 1 \<or> (cmod v 4 = 0 \<and> IsLinear 1 8 (cdiv v 4))"

definition Next_1_4_8_12_to_32 :: "int \<Rightarrow> int \<times> bool" where
  "Next_1_4_8_12_to_32 v =
     (let tmp = cdiv v 4; (tmp', ret) = NextLinear 0 8 tmp in (if ret then 1 else tmp' * 4, ret))"

definition Next_1_4 :: "int \<Rightarrow> int \<times> bool" where
  "Next_1_4 v = (if v = 4 then (1, True) else (4, False))"

text \<open>A \<open>SetNextValue\<close>: the members in order, each with its stepper, until one does not wrap around.\<close>

record 'c field_step =
  fs_get :: "'c \<Rightarrow> int"
  fs_set :: "int \<Rightarrow> 'c \<Rightarrow> 'c"
  fs_next :: "int \<Rightarrow> int \<times> bool"

fun Next_fields :: "'c field_step list \<Rightarrow> 'c \<Rightarrow> 'c \<times> bool" where
  "Next_fields [] c = (c, False)"
| "Next_fields (f # fs) c =
     (case fs_next f (fs_get f c) of
        (v, wrapped) \<Rightarrow> if \<not> wrapped then (fs_set f v c, True) else Next_fields fs (fs_set f v c))"

section \<open>Each stepper walks through a list of values\<close>

definition steps_through :: "(int \<Rightarrow> int \<times> bool) \<Rightarrow> int list \<Rightarrow> bool" where
  "steps_through nxt d \<longleftrightarrow> d \<noteq> [] \<and> distinct d
     \<and> (\<forall>pre v post. d = pre @ v # post \<longrightarrow>
          nxt v = (case post of [] \<Rightarrow> (hd d, True) | y # _ \<Rightarrow> (y, False)))"

lemma steps_through_digit:
  assumes "steps_through nxt d" "v \<in> set d"
  shows "nxt v = digit_next d v"
proof -
  obtain pre post where d: "d = pre @ v # post" using split_list [OF assms(2)] by blast
  have "distinct d" and n: "nxt v = (case post of [] \<Rightarrow> (hd d, True) | y # _ \<Rightarrow> (y, False))"
    using assms(1) d unfolding steps_through_def by blast+
  then have pre: "v \<notin> set pre" using d by simp
  have "dropWhile (\<lambda>x. x \<noteq> v) d = v # post"
    unfolding d using pre by (induction pre) auto
  then show ?thesis unfolding n digit_next_def by (cases post) simp_all
qed

lemma NextLinear_steps [intro]:
  assumes "l \<le> h"
  shows "steps_through (NextLinear l h) [l..h]"
proof -
  have "NextLinear l h v = (case post of [] \<Rightarrow> (hd [l..h], True) | y # _ \<Rightarrow> (y, False))"
    if "[l..h] = pre @ v # post" for pre v post
    using upto_split [OF that] upto.simps [of "v + 1" h] upto.simps [of l h] assms
    by (auto simp: NextLinear_def upto_rec1 split: if_splits)
  then show ?thesis using assms unfolding steps_through_def by auto
qed

lemma NextTwoPower_steps [intro]:
  assumes "0 < l" "l \<le> h" "IsTwoPower l" "IsTwoPower h"
  shows "steps_through (NextTwoPower l h) (two_powers l h)"
proof -
  have hd: "hd (two_powers l h) = l" and ne: "two_powers l h \<noteq> []"
    using assms(1,2) by (subst two_powers.simps; simp)+
  have "NextTwoPower l h v = (case post of [] \<Rightarrow> (hd (two_powers l h), True) | y # _ \<Rightarrow> (y, False))"
    if s: "two_powers l h = pre @ v # post" for pre v post
  proof -
    have v: "0 < v" "v \<le> h" "post = two_powers (2 * v) h" using two_powers_split [OF s] by simp_all
    have "v \<in> set (two_powers l h)" using s by simp
    then have "IsTwoPower v" using two_powers_IsTwoPower [OF assms(1,3)] by simp
    then obtain a where a: "v = 2 ^ a" using IsTwoPower_iff [of v] v by auto
    obtain b where b: "h = 2 ^ b" using IsTwoPower_iff [of h] assms by auto
    show ?thesis
    proof (cases "v = h")
      case True
      then have "post = []" using v by (subst (asm) two_powers.simps) simp
      with True show ?thesis by (simp add: NextTwoPower_def hd)
    next
      case False
      with v(2) a b have "a < b" by (metis one_less_numeral_iff order_le_less power_strict_increasing_iff semiring_norm(76))
      then have "2 * v \<le> h" using a b by (metis Suc_leI one_le_numeral power_Suc power_increasing)
      then have "post = 2 * v # two_powers (2 * (2 * v)) h" using v by (subst (asm) two_powers.simps) simp
      with False show ?thesis by (simp add: NextTwoPower_def)
    qed
  qed
  then show ?thesis using ne distinct_two_powers unfolding steps_through_def by blast
qed

lemma Next_1_4_steps [intro]: "steps_through Next_1_4 [1, 4]"
  by (auto simp: steps_through_def Next_1_4_def Cons_eq_append_conv)

lemma Next_1_4_8_12_to_32_steps [intro]:
  "steps_through Next_1_4_8_12_to_32 [1, 4, 8, 12, 16, 20, 24, 28, 32]"
  by (auto simp: steps_through_def Next_1_4_8_12_to_32_def NextLinear_def Cons_eq_append_conv)

lemma IsLinear_values: "IsLinear l h v \<longleftrightarrow> v \<in> set [l..h]"
  by (simp add: IsLinear_def)

lemma IsTwoPower_values:
  "0 < l \<Longrightarrow> IsTwoPower l \<Longrightarrow> IsTwoPower_LH l h v \<longleftrightarrow> v \<in> set (two_powers l h)"
  by (simp add: two_powers_IsTwoPower IsTwoPower_LH_def) (simp add: IsTwoPower_def)

lemma Is_1_4_8_values: "Is_1_4_8_12_to_32 v \<longleftrightarrow> v \<in> set [1, 4, 8, 12, 16, 20, 24, 28, 32]"
proof
  assume "Is_1_4_8_12_to_32 v"
  then consider "v = 1" | "cmod v 4 = 0" "1 \<le> cdiv v 4" "cdiv v 4 \<le> 8"
    by (auto simp: Is_1_4_8_12_to_32_def IsLinear_def)
  then show "v \<in> set [1, 4, 8, 12, 16, 20, 24, 28, 32]"
  proof cases
    case 2
    define w where "w = cdiv v 4"
    have "v = 4 * w" "1 \<le> w" "w \<le> 8" using 2 unfolding w_def cmod_def by linarith+
    then have "w = 1 \<or> w = 2 \<or> w = 3 \<or> w = 4 \<or> w = 5 \<or> w = 6 \<or> w = 7 \<or> w = 8" by linarith
    with \<open>v = 4 * w\<close> show ?thesis by (elim disjE) simp_all
  qed simp
qed (auto simp: Is_1_4_8_12_to_32_def IsLinear_def)

section \<open>The configurations a chain of steppers visits\<close>

locale field_space =
  fixes fields :: "'c field_step list"
    and of_fields :: "int list \<Rightarrow> 'c"
    and digits :: "int list list"
  assumes len: "length digits = length fields"
    and read: "length vs = length fields \<Longrightarrow> i < length fields \<Longrightarrow> fs_get (fields ! i) (of_fields vs) = vs ! i"
    and assign: "length vs = length fields \<Longrightarrow> i < length fields \<Longrightarrow>
      fs_set (fields ! i) x (of_fields vs) = of_fields (vs[i := x])"
    and steps: "i < length fields \<Longrightarrow> steps_through (fs_next (fields ! i)) (digits ! i)"
begin

lemma digits_wf: "\<forall>d \<in> set digits. distinct d \<and> d \<noteq> []"
proof
  fix d assume "d \<in> set digits"
  then obtain i where "i < length fields" "d = digits ! i" using len by (auto simp: in_set_conv_nth)
  then show "distinct d \<and> d \<noteq> []" using steps by (simp add: steps_through_def)
qed

lemma Next_from:
  assumes "fields = before @ fs" "length ws = length before"
    and "list_all2 (\<lambda>v d. v \<in> set d) vs (drop (length before) digits)"
  shows "Next_fields fs (of_fields (ws @ vs))
    = (case odometer (drop (length before) digits) vs of (vs', go) \<Rightarrow> (of_fields (ws @ vs'), go))"
  using assms
proof (induction fs arbitrary: before ws vs)
  case Nil
  then show ?case using len by simp
next
  case (Cons f fs)
  have lt: "length before < length fields" and f: "fields ! length before = f" using Cons.prems(1) by simp_all
  then have dr: "drop (length before) digits = digits ! length before # drop (Suc (length before)) digits"
    using len by (simp add: Cons_nth_drop_Suc)
  then obtain v us where vs: "vs = v # us" "v \<in> set (digits ! length before)"
    "list_all2 (\<lambda>v d. v \<in> set d) us (drop (Suc (length before)) digits)"
    using Cons.prems(3) by (auto simp: list_all2_Cons2)
  have lenv: "length (ws @ vs) = length fields"
    using Cons.prems(1,2) list_all2_lengthD [OF vs(3)] vs(1) len by simp
  obtain x wrapped where d: "digit_next (digits ! length before) v = (x, wrapped)" by force
  have g: "fs_get f (of_fields (ws @ vs)) = v"
    using read [OF lenv lt] f Cons.prems(2) vs(1) by (simp add: nth_append)
  have n: "fs_next f v = (x, wrapped)"
    using steps_through_digit [OF steps [OF lt] vs(2)] f d by simp
  have s: "fs_set f x (of_fields (ws @ vs)) = of_fields ((ws @ [x]) @ us)"
    using assign [OF lenv lt, of x] f Cons.prems(2) vs(1) by (simp add: list_update_append)
  have "Next_fields fs (of_fields ((ws @ [x]) @ us))
    = (case odometer (drop (Suc (length before)) digits) us of (vs', go) \<Rightarrow> (of_fields ((ws @ [x]) @ vs'), go))"
    using Cons.IH [of "before @ [f]" "ws @ [x]" us] Cons.prems(1,2) vs(3) by simp
  then show ?case
    unfolding dr vs(1) using g [unfolded vs(1)] n s [unfolded vs(1)] d
    by (cases wrapped) (auto split: prod.splits)
qed

lemma Next:
  "vs \<in> set (space digits) \<Longrightarrow>
   Next_fields fields (of_fields vs) = (case odometer digits vs of (vs', go) \<Rightarrow> (of_fields vs', go))"
  using Next_from [of "[]" fields "[]" vs] by (simp add: set_space)

lemma space_len: "vs \<in> set (space digits) \<Longrightarrow> length vs = length fields"
  using len by (auto simp: set_space dest: list_all2_lengthD)

lemma of_fields_inj:
  assumes "length vs = length fields" "length ws = length fields" "of_fields vs = of_fields ws"
  shows "vs = ws"
proof (rule nth_equalityI)
  fix i assume "i < length vs"
  with assms show "vs ! i = ws ! i" using read [of vs i] read [of ws i] by simp
qed (simp add: assms)

lemma links_fields:
  "links (odometer digits) vss None \<Longrightarrow> set vss \<subseteq> set (space digits) \<Longrightarrow>
   links (Next_fields fields) (map of_fields vss) None"
  by (induction vss rule: induct_list012) (simp_all add: Next case_prod_unfold)

sublocale perf_space "Next_fields fields" "of_fields (map hd digits)" "map of_fields (space digits)"
proof
  have d: "\<forall>d \<in> set digits. d \<noteq> []" using digits_wf by blast
  show "map of_fields (space digits) \<noteq> []" using space_nonempty [OF d] by simp
  show "hd (map of_fields (space digits)) = of_fields (map hd digits)"
    using hd_space [OF d] space_nonempty [OF d] by (simp add: hd_map)
  show "links (Next_fields fields) (map of_fields (space digits)) None"
    using links_fields [OF odometer_links [OF digits_wf]] by simp
  have "inj_on of_fields (set (space digits))"
    using of_fields_inj space_len by (auto intro!: inj_onI)
  moreover have "distinct (space digits)"
    by (rule distinct_space) (use digits_wf in blast)
  ultimately show "distinct (map of_fields (space digits))"
    by (simp add: distinct_map)
qed

text \<open>So the valid configurations of the space are enumerated, each once.\<close>

lemma enumerates:
  "\<exists>cs. ComputedContainer (Next_fields fields) is_valid (of_fields (map hd digits)) = Some cs
     \<and> distinct cs \<and> set cs = {c \<in> of_fields ` set (space digits). is_valid c}"
  using container [of is_valid] distinct by (auto simp: image_def)

end

lemma links_cong: "(\<forall>x \<in> set xs. f x = g x) \<Longrightarrow> links f xs t = links g xs t"
  by (induction f xs t rule: links.induct) auto

text \<open>A \<open>SetNextValue\<close> that takes the same steps on the space enumerates the same configurations.\<close>

lemma perf_space_cong:
  assumes "perf_space nxt start all" "\<forall>c \<in> set all. nxt' c = nxt c" "start' = start"
  shows "perf_space nxt' start' all"
proof -
  note old = perf_space.nonempty [OF assms(1)] perf_space.start [OF assms(1)] perf_space.links [OF assms(1)] perf_space.distinct [OF assms(1)]
  have "links nxt' all None" using links_cong assms(2) old by metis
  then show ?thesis
    using old assms(3) by unfold_locales simp_all
qed

lemma eight_fields:
  assumes "length vs = 8"
  obtains a b c d e f g h where "vs = [a, b, c, d, e, f, g, h]"
proof -
  have "length vs = Suc (Suc (Suc (Suc (Suc (Suc (Suc (Suc 0)))))))" using assms by simp
  then have "\<exists>a b c d e f g h. vs = [a, b, c, d, e, f, g, h]"
    by (simp only: length_Suc_conv length_0_conv) blast
  then show thesis using that by blast
qed

lemma less_eight: "i < (8::nat) \<longleftrightarrow> i = 0 \<or> i = 1 \<or> i = 2 \<or> i = 3 \<or> i = 4 \<or> i = 5 \<or> i = 6 \<or> i = 7"
  by auto

text \<open>To show that a chain of steppers is a field space: its members, its assignments and its steppers
  as lists.\<close>

lemma field_spaceI:
  assumes gets: "map fs_get fs = gs" and sets: "map fs_set fs = ss"
    and read: "\<And>vs. length vs = length gs \<Longrightarrow> map (\<lambda>g. g (of_fields vs)) gs = vs"
    and assign: "\<And>vs i x. length vs = length gs \<Longrightarrow> i < length gs \<Longrightarrow> (ss ! i) x (of_fields vs) = of_fields (vs[i := x])"
    and steps: "list_all2 steps_through (map fs_next fs) ds"
  shows "field_space fs of_fields ds"
proof
  have len: "length fs = length gs" using gets by auto
  show "length ds = length fs" using list_all2_lengthD [OF steps] by simp
  show "steps_through (fs_next (fs ! i)) (ds ! i)" if "i < length fs" for i
    using list_all2_nthD [OF steps, of i] that by simp
  show "fs_get (fs ! i) (of_fields vs) = vs ! i"
    if "length vs = length fs" "i < length fs" for vs i
  proof -
    have "fs_get (fs ! i) = gs ! i" using gets that(2) by auto
    moreover have "map (\<lambda>g. g (of_fields vs)) gs ! i = vs ! i" using read [of vs] that len by simp
    ultimately show ?thesis using that(2) len by simp
  qed
  show "fs_set (fs ! i) x (of_fields vs) = of_fields (vs[i := x])"
    if "length vs = length fs" "i < length fs" for vs i x
    using assign [of vs i x] sets that len by auto
qed

end
