(* ===== verification/Conv_Asm1x1u.thy ===== *)
theory Conv_Asm1x1u
  imports Perf_Fields
begin

text \<open>
  The solver \<open>ConvAsm1x1U\<close> (\<open>src/solver/conv_asm_1x1u.cpp\<close>): its performance configuration with the
  full, the optimized and the spare search space, its validity, the heuristic default with its fallbacks,
  the applicability test, the workspace, and the kernels of the solution with the buffer descriptions they get.
\<close>

section \<open>The image the kernel sees\<close>

definition UseSubsample :: "conv_context \<Rightarrow> bool" where
  "UseSubsample c \<longleftrightarrow> (kernel_stride_w c > 1 \<or> kernel_stride_h c > 1) \<and> c_direction c = Forward"

definition UseUpsample :: "conv_context \<Rightarrow> bool" where
  "UseUpsample c \<longleftrightarrow> (kernel_stride_w c > 1 \<or> kernel_stride_h c > 1) \<and> c_direction c = BackwardData"

definition AsmImgHeight :: "conv_context \<Rightarrow> int" where
  "AsmImgHeight c = (if UseSubsample c then out_height c else in_height c)"

definition AsmImgWidth :: "conv_context \<Rightarrow> int" where
  "AsmImgWidth c = (if UseSubsample c then out_width c else in_width c)"

section \<open>The performance configuration\<close>

record config1x1u =
  read_size :: int
  k_mult :: int
  chunks_per_wave :: int
  chunk_size :: int
  n_mult :: int
  c_mult :: int
  waves_c_in_group :: int
  waves_k_in_group :: int
  use_spare_set :: bool

definition config1x1u_new ::
  "int \<Rightarrow> int \<Rightarrow> int \<Rightarrow> int \<Rightarrow> int \<Rightarrow> int \<Rightarrow> int \<Rightarrow> int \<Rightarrow> bool \<Rightarrow> config1x1u" where
  "config1x1u_new rs km cpw cs nm cm wc wk spare =
     \<lparr>read_size = rs, k_mult = km, chunks_per_wave = cpw, chunk_size = cs, n_mult = nm, c_mult = cm,
      waves_c_in_group = wc, waves_k_in_group = wk, use_spare_set = spare\<rparr>"

text \<open>\<open>optimized\<close>: the environment does not disable the optimized search.\<close>

definition config1x1u_min :: "bool \<Rightarrow> bool \<Rightarrow> config1x1u" where
  "config1x1u_min optimized spare =
     (let c = config1x1u_new 1 1 1 1 1 1 1 1 spare in
      if optimized
      then c\<lparr>k_mult := (if spare then 1 else 8), chunk_size := (if spare then 1 else 16)\<rparr> else c)"

definition steps1x1u :: "bool \<Rightarrow> bool \<Rightarrow> config1x1u field_step list" where
  "steps1x1u optimized spare =
     \<lparr>fs_get = read_size, fs_set = (\<lambda>v c. c\<lparr>read_size := v\<rparr>), fs_next = NextLinear 1 4\<rparr> #
     (if optimized then
        [\<lparr>fs_get = k_mult, fs_set = (\<lambda>v c. c\<lparr>k_mult := v\<rparr>),
          fs_next = (if spare then Next_1_4 else NextTwoPower 8 32)\<rparr>,
         \<lparr>fs_get = chunks_per_wave, fs_set = (\<lambda>v c. c\<lparr>chunks_per_wave := v\<rparr>), fs_next = NextLinear 1 8\<rparr>,
         \<lparr>fs_get = chunk_size, fs_set = (\<lambda>v c. c\<lparr>chunk_size := v\<rparr>),
          fs_next = (if spare then Next_1_4 else NextTwoPower 16 64)\<rparr>,
         \<lparr>fs_get = n_mult, fs_set = (\<lambda>v c. c\<lparr>n_mult := v\<rparr>), fs_next = NextLinear 1 4\<rparr>,
         \<lparr>fs_get = c_mult, fs_set = (\<lambda>v c. c\<lparr>c_mult := v\<rparr>), fs_next = NextTwoPower 1 4\<rparr>,
         \<lparr>fs_get = waves_c_in_group, fs_set = (\<lambda>v c. c\<lparr>waves_c_in_group := v\<rparr>), fs_next = NextTwoPower 1 4\<rparr>,
         \<lparr>fs_get = waves_k_in_group, fs_set = (\<lambda>v c. c\<lparr>waves_k_in_group := v\<rparr>), fs_next = NextTwoPower 1 8\<rparr>]
      else
        [\<lparr>fs_get = k_mult, fs_set = (\<lambda>v c. c\<lparr>k_mult := v\<rparr>), fs_next = Next_1_4_8_12_to_32\<rparr>,
         \<lparr>fs_get = chunks_per_wave, fs_set = (\<lambda>v c. c\<lparr>chunks_per_wave := v\<rparr>), fs_next = NextLinear 1 16\<rparr>,
         \<lparr>fs_get = chunk_size, fs_set = (\<lambda>v c. c\<lparr>chunk_size := v\<rparr>), fs_next = NextTwoPower 1 64\<rparr>,
         \<lparr>fs_get = n_mult, fs_set = (\<lambda>v c. c\<lparr>n_mult := v\<rparr>), fs_next = NextLinear 1 8\<rparr>,
         \<lparr>fs_get = c_mult, fs_set = (\<lambda>v c. c\<lparr>c_mult := v\<rparr>), fs_next = NextTwoPower 1 32\<rparr>,
         \<lparr>fs_get = waves_c_in_group, fs_set = (\<lambda>v c. c\<lparr>waves_c_in_group := v\<rparr>), fs_next = NextLinear 1 8\<rparr>,
         \<lparr>fs_get = waves_k_in_group, fs_set = (\<lambda>v c. c\<lparr>waves_k_in_group := v\<rparr>), fs_next = NextTwoPower 1 8\<rparr>])"

definition SetNextValue1x1u :: "bool \<Rightarrow> config1x1u \<Rightarrow> config1x1u \<times> bool" where
  "SetNextValue1x1u optimized c = Next_fields (steps1x1u optimized (use_spare_set c)) c"

definition config1x1u_eq :: "config1x1u \<Rightarrow> config1x1u \<Rightarrow> bool" where
  "config1x1u_eq c d \<longleftrightarrow>
     read_size c = read_size d \<and> k_mult c = k_mult d \<and> chunks_per_wave c = chunks_per_wave d
   \<and> chunk_size c = chunk_size d \<and> n_mult c = n_mult d \<and> c_mult c = c_mult d
   \<and> waves_c_in_group c = waves_c_in_group d \<and> waves_k_in_group c = waves_k_in_group d
   \<and> use_spare_set c = use_spare_set d"

definition IsValidValue1x1u :: "config1x1u \<Rightarrow> bool" where
  "IsValidValue1x1u c \<longleftrightarrow> IsLinear 1 4 (read_size c) \<and> Is_1_4_8_12_to_32 (k_mult c)
     \<and> IsLinear 1 16 (chunks_per_wave c) \<and> IsTwoPower_LH 1 64 (chunk_size c) \<and> IsLinear 1 8 (n_mult c)
     \<and> IsTwoPower_LH 1 32 (c_mult c) \<and> IsLinear 1 8 (waves_c_in_group c)
     \<and> IsTwoPower_LH 1 8 (waves_k_in_group c)"

definition GetNPerGpr :: "config1x1u \<Rightarrow> int" where "GetNPerGpr c = cdiv 64 (chunk_size c)"

definition elements_in_dword :: "'a problem_desc_scheme \<Rightarrow> int" where
  "elements_in_dword p = 4 div uint (GetTypeSize (in_data_type p))"

text \<open>The registers a configuration needs, as \<open>IsValid\<close> counts them; \<open>img_hw\<close> is an \<open>int\<close> that is taken
  modulo a \<open>size_t\<close>.\<close>

definition vgprs1x1u :: "conv_context \<Rightarrow> config1x1u \<Rightarrow> int" where
  "vgprs1x1u p c =
     (let e = elements_in_dword p;
          in_gprs = (chunks_per_wave c * n_mult c * c_mult c + e - 1) div e;
          acc_gprs = chunks_per_wave c * n_mult c * k_mult c;
          img_hw = out_height p * out_width p
      in 4 + 2 * in_gprs + acc_gprs + (if to_size img_hw mod e \<noteq> 0 then 1 else 0) + 1)"

definition IsValid1x1u :: "conv_context \<Rightarrow> config1x1u \<Rightarrow> bool" where
  "IsValid1x1u p c =
     (let e = elements_in_dword p in
      if \<not> IsValidValue1x1u c then False
      else if \<not> (read_size c * e \<le> chunks_per_wave c) then False
      else if \<not> (waves_c_in_group c \<le> n_inputs p) then False
      else if \<not> (k_mult c * waves_k_in_group c \<le> n_outputs p) then False
      else if \<not> (waves_c_in_group c * waves_k_in_group c \<le> 16) then False
      else if c_mult c mod e \<noteq> 0 then False
      else if k_mult c mod e \<noteq> 0 then False
      else if chunks_per_wave c mod e \<noteq> 0 then False
      else
        let img_hw = out_height p * out_width p; vgprs = vgprs1x1u p c in
        if \<not> (vgprs < 256) then False
        else
          let max_waves_per_CU = (256 div vgprs) * 4 in
          if \<not> (max_waves_per_CU \<ge> waves_c_in_group c * waves_k_in_group c) then False
          else
            let sgprs = 25 + 2 * k_mult c * c_mult c in
            if \<not> (sgprs < 102) then False
            else
              let total_n_blocks = cdiv (batch_sz p + GetNPerGpr c - 1) (GetNPerGpr c) in
              if \<not> (n_mult c \<le> total_n_blocks) then False
              else
                let total_chunks = cdiv (img_hw + chunk_size c - 1) (chunk_size c) in
                if \<not> (chunks_per_wave c \<le> total_chunks) then False
                else
                  let c_per_wave = cdiv (n_inputs p + waves_c_in_group c - 1) (waves_c_in_group c);
                      c_per_last_wave = n_inputs p - (c_per_wave * (waves_c_in_group c - 1))
                  in
                  if c_direction p = BackwardData \<and> \<not> (cmod (n_outputs p) (k_mult c) = 0) then False
                  else cmod c_per_wave (c_mult c) = 0 \<and> cmod c_per_last_wave (c_mult c) = 0)"

definition HeuristicInit1x1u :: "conv_context \<Rightarrow> bool \<Rightarrow> config1x1u result" where
  "HeuristicInit1x1u p spare =
     (if in_data_type p = miopenDouble
      then throw ''Double data type is not supported by ConvAsm1x1U''
      else
        let e = elements_in_dword p;
            c0 = config1x1u_new 4 16 (as_int (4 * e)) 16 2 (as_int e) 1 1 spare;
            c1 = (if \<not> IsValid1x1u p c0
                  then c0\<lparr>read_size := 1, k_mult := 4, chunk_size := 1, n_mult := 1\<rparr> else c0);
            c2 = (if \<not> IsValid1x1u p c1
                  then c1\<lparr>k_mult := (if e = 1 then 1 else 4), c_mult := 2\<rparr> else c1);
            c3 = (if \<not> IsValid1x1u p c2
                  then c2\<lparr>chunks_per_wave := 2, c_mult := as_int e\<rparr> else c2);
            c4 = (if \<not> IsValid1x1u p c3 then c3\<lparr>chunks_per_wave := as_int e\<rparr> else c3)
        in Inr c4)"

definition GetDefaultPerformanceConfig1x1u :: "conv_context \<Rightarrow> config1x1u result" where
  "GetDefaultPerformanceConfig1x1u p = HeuristicInit1x1u p False"

definition IsValidPerformanceConfig1x1u :: "conv_context \<Rightarrow> config1x1u \<Rightarrow> bool" where
  "IsValidPerformanceConfig1x1u p c \<longleftrightarrow> IsValidValue1x1u c \<and> IsValid1x1u p c"

section \<open>Applicability and workspace\<close>

definition IsApplicable1x1u :: "bool \<Rightarrow> conv_context \<Rightarrow> bool" where
  "IsApplicable1x1u disabled p =
     (if disabled then False
      else if \<not> use_asm_kernels p then False
      else if \<not> ctx_Is2d p then False
      else if \<not> (c_direction p = Forward \<or> c_direction p = BackwardData) then False
      else if IsAsymmetricPadH (conv_problem p) \<or> IsAsymmetricPadW (conv_problem p) then False
      else if \<not> IsV2orV3 (rmv p) then False
      else if \<not> (ctx_IsFp32 p \<or> ctx_IsFp16 p) then False
      else if xnack p = Some True then False
      else if \<not> contains_str (device_name p) ''gfx9'' then False
      else if \<not> ctx_IsLayoutDefault p then False
      else if device_name p = ''gfx90a'' \<and> IsGfx90aFp16altRequired (fp16alt_env p) (conv_problem p) then False
      else
        let e = elements_in_dword p;
            img_hw = out_height p * out_width p;
            ok = pad_w p = 0 \<and> pad_h p = 0
               \<and> kernel_stride_w p \<le> 2 \<and> kernel_stride_w p = kernel_stride_h p
               \<and> kernel_size_w p = 1 \<and> kernel_size_h p = 1
               \<and> kernel_dilation_w p = 1 \<and> kernel_dilation_h p = 1
               \<and> c_bias p = 0
               \<and> to_size (n_inputs p) mod e = 0 \<and> to_size (n_outputs p) mod e = 0
               \<and> c_in_layout p = ''NCHW'' \<and> group_counts p = 1
               \<and> to_size img_hw \<ge> e \<and> (e = 1 \<or> n_outputs p \<ge> 4);
            ok' = (if c_direction p = BackwardData \<and> e \<noteq> 1 then ok \<and> cmod (n_outputs p) 4 = 0 else ok)
        in
        if \<not> ok' then False
        else if \<not> (4 * in_width p * in_height p * n_inputs p < 2 ^ 24) then False
        else if \<not> (4 * out_width p * out_height p * n_outputs p < 2 ^ 24) then False
        else
          let h_w = AsmImgHeight p * AsmImgWidth p;
              r_s = kernel_size_h p * kernel_size_w p;
              c_h_w = n_inputs p * h_w;
              k_h_w = n_outputs p * h_w;
              n_c_h_w = batch_sz p * c_h_w;
              n_k_h_w = batch_sz p * k_h_w;
              c_k_r_s = n_inputs p * n_outputs p * r_s
          in batch_sz p < 2 ^ 16 \<and> n_inputs p < 2 ^ 16 \<and> n_outputs p < 2 ^ 16
           \<and> c_h_w < 2 ^ 24 \<and> k_h_w < 2 ^ 24 \<and> n_c_h_w < 2 ^ 29 \<and> n_k_h_w < 2 ^ 29 \<and> c_k_r_s < 2 ^ 29)"

text \<open>The products of \<open>GetWorkspaceSize\<close> are of type \<open>int\<close>: each is reduced to 32 bits.\<close>

definition in_batch_stride1x1u :: "conv_context \<Rightarrow> int" where
  "in_batch_stride1x1u p = as_int (as_int (AsmImgWidth p * AsmImgHeight p)
     * (if UseSubsample p then n_inputs p else n_outputs p))"

definition GetWorkspaceSize1x1u :: "conv_context \<Rightarrow> int" where
  "GetWorkspaceSize1x1u p =
     (if UseSubsample p \<or> UseUpsample p
      then let data_len = uint (GetTypeSize (out_data_type p)) in
           to_size (as_int (as_int (in_batch_stride1x1u p * batch_sz p) * data_len))
      else 0)"

section \<open>The configurations that the search tries\<close>

definition config1x1u_of :: "bool \<Rightarrow> int list \<Rightarrow> config1x1u" where
  "config1x1u_of spare vs =
     config1x1u_new (vs ! 0) (vs ! 1) (vs ! 2) (vs ! 3) (vs ! 4) (vs ! 5) (vs ! 6) (vs ! 7) spare"

definition digits1x1u :: "bool \<Rightarrow> bool \<Rightarrow> int list list" where
  "digits1x1u optimized spare =
     (if optimized
      then [[1..4], (if spare then [1, 4] else two_powers 8 32), [1..8],
            (if spare then [1, 4] else two_powers 16 64), [1..4], two_powers 1 4, two_powers 1 4, two_powers 1 8]
      else [[1..4], [1, 4, 8, 12, 16, 20, 24, 28, 32], [1..16], two_powers 1 64, [1..8], two_powers 1 32,
            [1..8], two_powers 1 8])"

definition space1x1u :: "bool \<Rightarrow> bool \<Rightarrow> config1x1u list" where
  "space1x1u optimized spare = map (config1x1u_of spare) (space (digits1x1u optimized spare))"

lemma steps1x1u_members:
  "map fs_get (steps1x1u optimized spare) = [read_size, k_mult, chunks_per_wave, chunk_size, n_mult, c_mult,
     waves_c_in_group, waves_k_in_group]"
  "map fs_set (steps1x1u optimized spare) =
     [\<lambda>v c. c\<lparr>read_size := v\<rparr>, \<lambda>v c. c\<lparr>k_mult := v\<rparr>, \<lambda>v c. c\<lparr>chunks_per_wave := v\<rparr>, \<lambda>v c. c\<lparr>chunk_size := v\<rparr>,
      \<lambda>v c. c\<lparr>n_mult := v\<rparr>, \<lambda>v c. c\<lparr>c_mult := v\<rparr>, \<lambda>v c. c\<lparr>waves_c_in_group := v\<rparr>,
      \<lambda>v c. c\<lparr>waves_k_in_group := v\<rparr>]"
  by (simp_all add: steps1x1u_def)

lemma steps1x1u_steps:
  "list_all2 steps_through (map fs_next (steps1x1u optimized spare)) (digits1x1u optimized spare)"
proof -
  have p: "IsTwoPower 1" "IsTwoPower 4" "IsTwoPower 8" "IsTwoPower 16" "IsTwoPower 32" "IsTwoPower 64"
    by (simp_all add: IsTwoPower_def)
  then show ?thesis
    by (cases optimized; cases spare)
      (simp_all add: steps1x1u_def digits1x1u_def NextLinear_steps NextTwoPower_steps Next_1_4_steps
        Next_1_4_8_12_to_32_steps del: two_powers.simps)
qed

interpretation fields1x1u: field_space "steps1x1u optimized spare" "config1x1u_of spare" "digits1x1u optimized spare"
  for optimized spare
proof (rule field_spaceI [OF steps1x1u_members _ _ steps1x1u_steps])
  fix vs :: "int list" and i :: nat and x :: int
  let ?gs = "[read_size, k_mult, chunks_per_wave, chunk_size, n_mult, c_mult, waves_c_in_group, waves_k_in_group]"
  assume len: "length vs = length ?gs"
  then have "length vs = 8" by simp
  then obtain a b c d e f g h where vs: "vs = [a, b, c, d, e, f, g, h]"
    by (elim eight_fields exE)
  show "map (\<lambda>g. g (config1x1u_of spare vs)) ?gs = vs"
    by (simp add: vs config1x1u_of_def config1x1u_new_def)
  assume "i < length ?gs"
  then have "i < 8" by simp
  then show "([\<lambda>v c. c\<lparr>read_size := v\<rparr>, \<lambda>v c. c\<lparr>k_mult := v\<rparr>, \<lambda>v c. c\<lparr>chunks_per_wave := v\<rparr>, \<lambda>v c. c\<lparr>chunk_size := v\<rparr>,
      \<lambda>v c. c\<lparr>n_mult := v\<rparr>, \<lambda>v c. c\<lparr>c_mult := v\<rparr>, \<lambda>v c. c\<lparr>waves_c_in_group := v\<rparr>,
      \<lambda>v c. c\<lparr>waves_k_in_group := v\<rparr>] ! i) x (config1x1u_of spare vs) = config1x1u_of spare (vs[i := x])"
    unfolding less_eight by (elim disjE) (simp_all add: vs config1x1u_of_def config1x1u_new_def)
qed

lemma space1x1u_spare: "c \<in> set (space1x1u optimized spare) \<Longrightarrow> use_spare_set c = spare"
  by (auto simp: space1x1u_def config1x1u_of_def config1x1u_new_def)

lemma config1x1u_start: "config1x1u_of spare (map hd (digits1x1u optimized spare)) = config1x1u_min optimized spare"
proof -
  have "hd (two_powers l h) = l" if "l \<le> h" "0 < l" for l h
    using that by (subst two_powers.simps) simp
  then show ?thesis
    by (simp add: digits1x1u_def config1x1u_of_def config1x1u_new_def config1x1u_min_def upto_rec1 Let_def
        del: two_powers.simps)
qed

interpretation configs1x1u: perf_space "SetNextValue1x1u optimized" "config1x1u_min optimized spare"
  "space1x1u optimized spare" for optimized spare
proof -
  have "perf_space (Next_fields (steps1x1u optimized spare))
      (config1x1u_of spare (map hd (digits1x1u optimized spare))) (space1x1u optimized spare)"
    unfolding space1x1u_def by (rule fields1x1u.perf_space_axioms)
  then show "perf_space (SetNextValue1x1u optimized) (config1x1u_min optimized spare) (space1x1u optimized spare)"
    by (rule perf_space_cong)
      (auto simp: SetNextValue1x1u_def space1x1u_spare config1x1u_start)
qed

lemma config1x1u_of_surj: "use_spare_set c = spare \<Longrightarrow> c = config1x1u_of spare
    [read_size c, k_mult c, chunks_per_wave c, chunk_size c, n_mult c, c_mult c, waves_c_in_group c, waves_k_in_group c]"
  by (simp add: config1x1u_of_def config1x1u_new_def)

lemma full_space1x1u: "c \<in> set (space1x1u False spare) \<longleftrightarrow> IsValidValue1x1u c \<and> use_spare_set c = spare"
proof -
  have p: "IsTwoPower 1" by (simp add: IsTwoPower_def)
  let ?vs = "[read_size c, k_mult c, chunks_per_wave c, chunk_size c, n_mult c, c_mult c, waves_c_in_group c, waves_k_in_group c]"
  have "c \<in> set (space1x1u False spare) \<longleftrightarrow> ?vs \<in> set (space (digits1x1u False spare)) \<and> use_spare_set c = spare"
  proof
    assume c: "c \<in> set (space1x1u False spare)"
    then obtain vs where vs: "vs \<in> set (space (digits1x1u False spare))" "c = config1x1u_of spare vs"
      by (auto simp: space1x1u_def)
    moreover have sp: "use_spare_set c = spare" using space1x1u_spare c by simp
    moreover have "?vs = vs"
      by (rule fields1x1u.of_fields_inj [of _ False spare])
        (use fields1x1u.space_len vs config1x1u_of_surj [OF sp] in \<open>simp_all add: steps1x1u_def\<close>)
    ultimately show "?vs \<in> set (space (digits1x1u False spare)) \<and> use_spare_set c = spare" by simp
  next
    assume a: "?vs \<in> set (space (digits1x1u False spare)) \<and> use_spare_set c = spare"
    show "c \<in> set (space1x1u False spare)"
      unfolding space1x1u_def set_map
      by (rule image_eqI [where x = ?vs], rule config1x1u_of_surj)
        (rule a [THEN conjunct2], rule a [THEN conjunct1])
  qed
  also have "\<dots> \<longleftrightarrow> IsValidValue1x1u c \<and> use_spare_set c = spare"
    unfolding set_space digits1x1u_def IsValidValue1x1u_def IsLinear_values Is_1_4_8_values
      IsTwoPower_values [OF zero_less_one p]
    by (simp only: if_False mem_Collect_eq list_all2_Cons list_all2_Nil simp_thms conj_assoc)
  finally show ?thesis .
qed

text \<open>C21: The search for \<open>ConvAsm1x1U\<close> ends in every mode. It tries the configurations of the primary space
  that are valid for the problem, each once, and those of the spare space exactly when there are none;
  without the optimized mode the primary space holds every configuration that \<open>IsValid\<close> accepts.\<close>

theorem conv1x1u_configs:
  "\<exists>cs. GetAllConfigs (SetNextValue1x1u optimized) (IsValid1x1u p) (config1x1u_min optimized) = Some cs
     \<and> distinct cs
     \<and> set cs = (let primary = {c \<in> set (space1x1u optimized False). IsValid1x1u p c} in
                 if primary = {} then {c \<in> set (space1x1u optimized True). IsValid1x1u p c} else primary)
     \<and> {c \<in> set (space1x1u False False). IsValid1x1u p c} = {c. IsValid1x1u p c \<and> \<not> use_spare_set c}"
proof -
  have c: "ComputedContainer (SetNextValue1x1u optimized) (IsValid1x1u p) (config1x1u_min optimized spare)
      = Some (filter (IsValid1x1u p) (space1x1u optimized spare))" for spare
    by (rule configs1x1u.container)
  have "{c \<in> set (space1x1u False False). IsValid1x1u p c} = {c. IsValid1x1u p c \<and> \<not> use_spare_set c}"
    by (auto simp: full_space1x1u IsValid1x1u_def Let_def split: if_splits)
  then show ?thesis
    using configs1x1u.distinct
    by (simp add: GetAllConfigs_def c Let_def filter_empty_conv Collect_empty_eq) blast
qed

section \<open>The heuristic configuration\<close>

definition proper1x1u :: "conv_context \<Rightarrow> bool" where
  "proper1x1u p \<longleftrightarrow> 0 < n_inputs p \<and> 0 < n_outputs p \<and> 0 < batch_sz p \<and> 0 < in_height p \<and> 0 < in_width p
     \<and> 0 < out_height p \<and> 0 < out_width p"

text \<open>The facts of \<open>IsApplicable\<close> that the proofs use.\<close>

lemma applicable1x1uD:
  assumes "IsApplicable1x1u disabled p"
  shows "elements_in_dword p = 1 \<and> uint (GetTypeSize (out_data_type p)) = 4
       \<or> elements_in_dword p = 2 \<and> uint (GetTypeSize (out_data_type p)) = 2"
    and "to_size (n_inputs p) mod elements_in_dword p = 0"
    and "to_size (out_height p * out_width p) \<ge> elements_in_dword p"
    and "elements_in_dword p = 1 \<or> n_outputs p \<ge> 4"
    and "c_direction p = BackwardData \<Longrightarrow> elements_in_dword p \<noteq> 1 \<Longrightarrow> cmod (n_outputs p) 4 = 0"
    and "4 * out_width p * out_height p * n_outputs p < 2 ^ 24"
    and "4 * in_width p * in_height p * n_inputs p < 2 ^ 24"
    and "batch_sz p < 2 ^ 16" "n_inputs p < 2 ^ 16" "n_outputs p < 2 ^ 16"
    and "n_inputs p * (AsmImgHeight p * AsmImgWidth p) < 2 ^ 24"
    and "n_outputs p * (AsmImgHeight p * AsmImgWidth p) < 2 ^ 24"
    and "batch_sz p * (n_inputs p * (AsmImgHeight p * AsmImgWidth p)) < 2 ^ 29"
    and "batch_sz p * (n_outputs p * (AsmImgHeight p * AsmImgWidth p)) < 2 ^ 29"
proof -
  have "ctx_IsFp32 p \<or> ctx_IsFp16 p" using assms unfolding IsApplicable1x1u_def by (simp split: if_splits)
  then show "elements_in_dword p = 1 \<and> uint (GetTypeSize (out_data_type p)) = 4
       \<or> elements_in_dword p = 2 \<and> uint (GetTypeSize (out_data_type p)) = 2"
    by (auto simp: ctx_IsFp32_def ctx_IsFp16_def elements_in_dword_def GetTypeSize_def)
qed (use assms in \<open>simp_all add: IsApplicable1x1u_def Let_def split: if_splits\<close>)

definition fallback1x1u :: "conv_context \<Rightarrow> bool \<Rightarrow> config1x1u" where
  "fallback1x1u p spare = (let e = elements_in_dword p in
     config1x1u_new 1 (if e = 1 then 1 else 4) e 1 1 e 1 1 spare)"

lemma fallback1x1u_valid:
  assumes "IsApplicable1x1u disabled p" "proper1x1u p"
  shows "IsValid1x1u p (fallback1x1u p spare)"
proof -
  define N I Q D where "N = n_outputs p" "I = n_inputs p" "Q = out_height p * out_width p" "D = batch_sz p"
  note folds = N_I_Q_D_def [symmetric]
  have pos: "0 < N" "0 < I" "0 < Q" "0 < D"
    using assms(2) by (simp_all add: proper1x1u_def N_I_Q_D_def)
  note a = applicable1x1uD [OF assms(1)]
  have "Q * 1 \<le> Q * N" using pos by (intro mult_left_mono) simp_all
  moreover have "4 * (Q * N) < 2 ^ 24" using a(6) by (simp add: N_I_Q_D_def ac_simps)
  ultimately have Q: "Q < 2 ^ 24" using pos by linarith
  have I: "I < 2 ^ 16" using a(9) by (simp add: N_I_Q_D_def)
  have n1: "1 \<le> (D + 63) div 64" "1 \<le> (63 + D) div 64" using pos by simp_all
  consider (one) "elements_in_dword p = 1" | (two) "elements_in_dword p = 2" using a(1) by blast
  then show ?thesis
  proof cases
    case one
    have "IsValidValue1x1u (config1x1u_new 1 1 1 1 1 1 1 1 spare)"
      by (simp add: IsValidValue1x1u_def config1x1u_new_def IsLinear_def IsTwoPower_LH_def Is_1_4_8_12_to_32_def)
    moreover have "fallback1x1u p spare = config1x1u_new 1 1 1 1 1 1 1 1 spare"
      by (simp add: fallback1x1u_def one)
    ultimately show ?thesis
      using pos n1 unfolding IsValid1x1u_def vgprs1x1u_def Let_def one folds
      by (simp add: config1x1u_new_def GetNPerGpr_def)
  next
    case two
    have "IsValidValue1x1u (config1x1u_new 1 4 2 1 1 2 1 1 spare)"
      by (simp add: IsValidValue1x1u_def config1x1u_new_def IsLinear_def IsTwoPower_LH_def Is_1_4_8_12_to_32_def)
    moreover have "fallback1x1u p spare = config1x1u_new 1 4 2 1 1 2 1 1 spare"
      by (simp add: fallback1x1u_def two)
    moreover have "4 \<le> N" "2 \<le> Q" "I mod 2 = 0"
      using a(2,3,4) two Q I pos by (simp_all add: folds)
    moreover have "N mod 4 = 0" if "c_direction p = BackwardData"
      using a(5) [OF that] two pos by (simp add: folds)
    ultimately show ?thesis
      using pos n1 unfolding IsValid1x1u_def vgprs1x1u_def Let_def two folds
      by (simp add: config1x1u_new_def GetNPerGpr_def)
  qed
qed

text \<open>C22: Whenever \<open>ConvAsm1x1U\<close> is applicable to a problem with positive sizes, \<open>HeuristicInit\<close> does not
  throw and one of its attempts is valid for the problem.\<close>

theorem conv1x1u_heuristic_valid:
  assumes "IsApplicable1x1u disabled p" "proper1x1u p"
  shows "\<exists>c. GetDefaultPerformanceConfig1x1u p = Inr c \<and> IsValidPerformanceConfig1x1u p c"
proof -
  have e: "as_int (elements_in_dword p) = elements_in_dword p" and t: "in_data_type p \<noteq> miopenDouble"
    using applicable1x1uD(1) [OF assms(1)] by (auto simp: elements_in_dword_def GetTypeSize_def)
  have v: "IsValid1x1u p c \<Longrightarrow> IsValidPerformanceConfig1x1u p c" for c
    by (simp add: IsValidPerformanceConfig1x1u_def IsValid1x1u_def Let_def split: if_splits)
  define c0 where "c0 = config1x1u_new 4 16 (as_int (4 * elements_in_dword p)) 16 2 (elements_in_dword p) 1 1 False"
  define c1 where "c1 = (if \<not> IsValid1x1u p c0
    then c0\<lparr>read_size := 1, k_mult := 4, chunk_size := 1, n_mult := 1\<rparr> else c0)"
  define c2 where "c2 = (if \<not> IsValid1x1u p c1
    then c1\<lparr>k_mult := (if elements_in_dword p = 1 then 1 else 4), c_mult := 2\<rparr> else c1)"
  define c3 where "c3 = (if \<not> IsValid1x1u p c2
    then c2\<lparr>chunks_per_wave := 2, c_mult := elements_in_dword p\<rparr> else c2)"
  define c4 where "c4 = (if \<not> IsValid1x1u p c3 then c3\<lparr>chunks_per_wave := elements_in_dword p\<rparr> else c3)"
  have "GetDefaultPerformanceConfig1x1u p = Inr c4"
    unfolding GetDefaultPerformanceConfig1x1u_def HeuristicInit1x1u_def Let_def
    using t by (simp only: e c0_def c1_def c2_def c3_def c4_def if_False)
  moreover have "IsValid1x1u p c4"
  proof (cases "IsValid1x1u p c3")
    case True
    then show ?thesis by (simp add: c4_def)
  next
    case False
    then have "\<not> IsValid1x1u p c2" by (auto simp: c3_def)
    then have "\<not> IsValid1x1u p c1" by (auto simp: c2_def)
    then have "\<not> IsValid1x1u p c0" by (auto simp: c1_def)
    with False \<open>\<not> IsValid1x1u p c1\<close> \<open>\<not> IsValid1x1u p c2\<close> have "c4 = fallback1x1u p False"
      by (simp add: c4_def c3_def c2_def c1_def c0_def fallback1x1u_def config1x1u_new_def Let_def)
    then show ?thesis using fallback1x1u_valid [OF assms] by simp
  qed
  ultimately show ?thesis using v by blast
qed

text \<open>C24: For an applicable problem none of the \<open>int\<close> products of \<open>GetWorkspaceSize\<close> overflows: the workspace
  is the size of the down- or upsampled image of all batches in bytes, and it is less than 2 ^ 31.\<close>

theorem GetWorkspaceSize1x1u_exact:
  assumes "IsApplicable1x1u disabled p" "proper1x1u p"
  shows "GetWorkspaceSize1x1u p =
      (if UseSubsample p then batch_sz p * n_inputs p * out_height p * out_width p * uint (GetTypeSize (out_data_type p))
       else if UseUpsample p then batch_sz p * n_outputs p * in_height p * in_width p * uint (GetTypeSize (out_data_type p))
       else 0) \<and> GetWorkspaceSize1x1u p < 2 ^ 31"
proof -
  define c N hw t where "c = (if UseSubsample p then n_inputs p else n_outputs p)" "N = batch_sz p"
    "hw = AsmImgWidth p * AsmImgHeight p" "t = uint (GetTypeSize (out_data_type p))"
  note folds = c_N_hw_t_def [symmetric]
  note a = applicable1x1uD [OF assms(1)]
  have pos: "0 < c" "0 < N" "0 < hw"
    using assms(2) by (simp_all add: proper1x1u_def c_N_hw_t_def AsmImgHeight_def AsmImgWidth_def)
  have t: "t = 4 \<or> t = 2" using a(1) by (auto simp: c_N_hw_t_def)
  have chw: "c * hw < 2 ^ 24" using a(11,12) by (simp add: c_N_hw_t_def ac_simps)
  have nchw: "N * (c * hw) < 2 ^ 29" using a(13,14) by (simp add: c_N_hw_t_def ac_simps)
  have "1 * hw \<le> c * hw" using pos by (intro mult_right_mono) simp_all
  then have "hw < 2 ^ 24" using chw by linarith
  then have h: "as_int hw = hw" using pos by simp
  have "0 < c * hw" using pos by simp
  then have ch: "as_int (hw * c) = hw * c" using chw by (subst as_int_id) (simp_all add: mult.commute [of hw c])
  have p1: "0 < hw * c * N" using pos by simp
  have lt: "hw * c * N < 2 ^ 29" using nchw by (simp add: ac_simps)
  then have nch: "as_int (hw * c * N) = hw * c * N" using p1 by simp
  define s where "s = hw * c * N"
  have "0 < s * t" "s * t < 2 ^ 31" using p1 lt t unfolding s_def [symmetric] by auto
  then have ge: "0 < hw * c * N * t" "hw * c * N * t < 2 ^ 31" by (simp_all only: s_def)
  then have last: "to_size (as_int (hw * c * N * t)) = hw * c * N * t"
    by (rule to_size_as_int)
  have w: "GetWorkspaceSize1x1u p = (if UseSubsample p \<or> UseUpsample p then hw * c * N * t else 0)"
    by (simp add: GetWorkspaceSize1x1u_def in_batch_stride1x1u_def folds h ch nch last)
  have sub: "UseSubsample p \<Longrightarrow> hw * c * N * t = batch_sz p * n_inputs p * out_height p * out_width p * t"
    by (simp add: c_N_hw_t_def AsmImgHeight_def AsmImgWidth_def)
  have up: "\<not> UseSubsample p \<Longrightarrow> hw * c * N * t = batch_sz p * n_outputs p * in_height p * in_width p * t"
    by (simp add: c_N_hw_t_def AsmImgHeight_def AsmImgWidth_def)
  show ?thesis unfolding w folds(4) using sub up ge(2) by simp
qed

section \<open>The kernels of the solution\<close>

datatype MemLayout = NCHW | CNHW

record dims4 =
  nk :: int
  ch :: int
  hh :: int
  ww :: int

record buff_info =
  total_byte_size :: int
  b_stride :: dims4
  byte_stride :: dims4
  b_size :: dims4

definition scale_dims :: "dims4 \<Rightarrow> int \<Rightarrow> dims4" where
  "scale_dims d m = \<lparr>nk = nk d * m, ch = ch d * m, hh = hh d * m, ww = ww d * m\<rparr>"

text \<open>The constructor of \<open>buff_info\<close>; its \<open>int\<close>s are taken as exact.\<close>

definition buff_info_new :: "MemLayout \<Rightarrow> int \<Rightarrow> int \<Rightarrow> int \<Rightarrow> int \<Rightarrow> int \<Rightarrow> int \<Rightarrow> buff_info" where
  "buff_info_new layout n c h w vec_c data_len =
     (let c_hi = cdiv (c + vec_c - 1) vec_c;
          elems = n * c_hi * h * w * vec_c;
          st = (case layout of
                  NCHW \<Rightarrow> \<lparr>nk = w * h * c_hi, ch = w * h, hh = w, ww = 1\<rparr>
                | CNHW \<Rightarrow> \<lparr>nk = w * h, ch = w * h * n, hh = w, ww = 1\<rparr>);
          st' = scale_dims st vec_c
      in \<lparr>total_byte_size = elems * data_len, b_stride = st', byte_stride = scale_dims st' data_len,
          b_size = \<lparr>nk = n, ch = c, hh = h, ww = w\<rparr>\<rparr>)"

definition byte_offset :: "buff_info \<Rightarrow> int \<Rightarrow> int \<Rightarrow> int \<Rightarrow> int \<Rightarrow> int" where
  "byte_offset b n c h w = n * nk (byte_stride b) + c * ch (byte_stride b) + h * hh (byte_stride b)
     + w * ww (byte_stride b)"

text \<open>The three buffers of the kernel.\<close>

definition ibuf1x1u :: "conv_context \<Rightarrow> buff_info" where
  "ibuf1x1u p = buff_info_new NCHW (batch_sz p) (n_inputs p) (AsmImgHeight p) (AsmImgWidth p) 1
     (uint (GetTypeSize (out_data_type p)))"

definition obuf1x1u :: "conv_context \<Rightarrow> buff_info" where
  "obuf1x1u p = buff_info_new NCHW (batch_sz p) (n_outputs p) (AsmImgHeight p) (AsmImgWidth p) 1
     (uint (GetTypeSize (out_data_type p)))"

definition fbuf1x1u :: "conv_context \<Rightarrow> buff_info" where
  "fbuf1x1u p = buff_info_new (if c_direction p = Forward then NCHW else CNHW) (n_outputs p) (n_inputs p) 1 1 1
     (uint (GetTypeSize (out_data_type p)))"

text \<open>The symbols that the main kernel is assembled with.\<close>

definition defsyms1x1u :: "bool \<Rightarrow> conv_context \<Rightarrow> config1x1u \<Rightarrow> (string \<times> int) list" where
  "defsyms1x1u use_v3 p c =
     (let data_len = uint (GetTypeSize (out_data_type p));
          i = byte_stride (ibuf1x1u p); ob = byte_stride (obuf1x1u p); f = byte_stride (fbuf1x1u p) in
     [(''stride_h'', 1), (''stride_w'', 1),
      (''img_h'', AsmImgHeight p), (''img_w'', AsmImgWidth p),
      (''batch_size'', batch_sz p), (''input_channels'', n_inputs p), (''output_channels'', n_outputs p),
      (''wei_h'', kernel_size_h p), (''wei_w'', kernel_size_w p),
      (''pad_h'', pad_h p), (''pad_w'', pad_w p),
      (''weights_layout'', (if c_direction p = Forward then 0 else 1)),
      (''vec_c_in'', 1), (''vec_k_out'', 1), (''vec_c_filter'', 1),
      (''acc_type'', 1), (''buf_type'', (if data_len = 2 then 2 else 1)),
      (''input_n_stride'', nk i), (''input_c_stride'', ch i), (''input_h_stride'', hh i), (''input_w_stride'', ww i),
      (''output_n_stride'', nk ob), (''output_k_stride'', ch ob), (''output_h_stride'', hh ob),
      (''output_w_stride'', ww ob),
      (''filter_k_stride'', nk f), (''filter_c_stride'', ch f), (''filter_h_stride'', hh f),
      (''filter_w_stride'', ww f),
      (''input_buffer_size'', total_byte_size (ibuf1x1u p)),
      (''filter_buffer_size'', total_byte_size (fbuf1x1u p)),
      (''output_buffer_size'', total_byte_size (obuf1x1u p)),
      (''ROCM_METADATA_VERSION'', (if use_v3 then 5 else 4)),
      (''read_size'', read_size c), (''k_mult'', k_mult c), (''chunks_per_wave'', chunks_per_wave c),
      (''chunk_size'', chunk_size c), (''n_mult'', n_mult c), (''c_mult'', c_mult c),
      (''waves_c_in_group'', waves_c_in_group c), (''waves_k_in_group'', waves_k_in_group c)])"

definition main_kernel1x1u :: "bool \<Rightarrow> conv_context \<Rightarrow> config1x1u \<Rightarrow> kernel_info" where
  "main_kernel1x1u use_v3 p c =
     (let l0 = 64 * (waves_c_in_group c * waves_k_in_group c);
          hw_per_wave = chunks_per_wave c * chunk_size c;
          n_images_per_wave = n_mult c * GetNPerGpr c in
      \<lparr>l_wk = [l0, 1, 1],
       g_wk = [l0 * divide_round_plus_inf (AsmImgHeight p * AsmImgWidth p) hw_per_wave,
               divide_round_plus_inf (n_outputs p) (k_mult c * waves_k_in_group c),
               divide_round_plus_inf (batch_sz p) n_images_per_wave],
       comp_options = GenerateClangDefsyms (defsyms1x1u use_v3 p c),
       kernel_file = ''conv1x1u.s'', kernel_name = ''miopenGcnAsmConv1x1U''\<rparr>)"

definition write_unit1x1u :: "conv_context \<Rightarrow> int" where
  "write_unit1x1u p = (if cmod (AsmImgWidth p) 4 = 0 then 4
     else if cmod (AsmImgWidth p) 3 = 0 then 3 else if cmod (AsmImgWidth p) 2 = 0 then 2 else 1)"

definition ss_us_kernel1x1u :: "string \<Rightarrow> conv_context \<Rightarrow> kernel_info" where
  "ss_us_kernel1x1u general_compile_options p =
     (let write_unit = write_unit1x1u p in
      \<lparr>l_wk = [256, 1, 1],
       g_wk = [cdiv (in_batch_stride1x1u p) write_unit, batch_sz p, 1],
       comp_options =
         '' -DDATA_TYPE='' @ (if in_data_type p = miopenHalf then ''ushort'' else ''float'')
         @ '' -DMLO_GRP0_SZ0='' @ show_int 256
         @ '' -DMLO_GRP0_SZ1=1 '' @ '' -DMLO_GRP0_SZ2=1 ''
         @ '' -DMLO_FILTER0_STRIDE0='' @ show_int (kernel_stride_w p)
         @ '' -DMLO_FILTER0_STRIDE1='' @ show_int (kernel_stride_h p)
         @ '' -DMLO_WRITE_UNIT='' @ show_int write_unit
         @ '' -DMLO_OUT_CHANNEL_STRIDE='' @ show_int (out_channel_stride p)
         @ '' -DMLO_OUT_STRIDE='' @ show_int (out_stride p)
         @ '' -DMLO_IN_BATCH_STRIDE='' @ show_int (in_batch_stride1x1u p)
         @ '' -DMLO_IN0_BATCH_STRIDE='' @ show_int (if c_direction p = Forward then in_batch_stride p else out_batch_stride p)
         @ '' -DMLO_IN0_CHANNEL_STRIDE='' @ show_int (in_channel_stride p)
         @ '' -DMLO_IN0_STRIDE='' @ show_int (in_stride p)
         @ general_compile_options,
       kernel_file = ''MIOpenUtilKernels3.cl'',
       kernel_name = (if UseSubsample p then ''SubSample'' else ''UpSample'')\<rparr>)"

record solution1x1u =
  workspace_sz :: int
  construction_params :: "kernel_info list"

text \<open>The environment's configuration replaces the given one when it parses and its values are in range:
  \<open>IsValid\<close> is not asked.\<close>

definition GetSolution1x1u ::
  "bool \<Rightarrow> string \<Rightarrow> (string \<Rightarrow> config1x1u option) \<Rightarrow> string option \<Rightarrow> conv_context \<Rightarrow> config1x1u \<Rightarrow> solution1x1u"
where
  "GetSolution1x1u use_v3 general_compile_options deserialize env p config =
     (let pcfg = (case env of
                    None \<Rightarrow> config
                  | Some s \<Rightarrow>
                      if s = [] then config
                      else (case deserialize s of
                              None \<Rightarrow> config
                            | Some fromEnv \<Rightarrow> if \<not> IsValidValue1x1u fromEnv then config else fromEnv));
          ss_us = [ss_us_kernel1x1u general_compile_options p]
      in \<lparr>workspace_sz = GetWorkspaceSize1x1u p,
          construction_params = (if UseSubsample p then ss_us else []) @ [main_kernel1x1u use_v3 p pcfg]
            @ (if UseUpsample p then ss_us else [])\<rparr>)"

section \<open>The buffers\<close>

lemma radix_inj:
  fixes a b :: int
  assumes "a * m + x = b * m + y" "0 \<le> x" "x < m" "0 \<le> y" "y < m"
  shows "a = b \<and> x = y"
proof -
  have "(a * m + x) div m = a" "(b * m + y) div m = b" using assms(2-5) by (simp_all add: div_pos_pos_trivial)
  with assms(1) have "a = b" by metis
  with assms(1) show ?thesis by simp
qed

lemma radix_bound:
  fixes a :: int
  assumes "0 \<le> a" "a < n" "0 \<le> x" "x < m"
  shows "0 \<le> a * m + x" "a * m + x < n * m"
proof -
  show "0 \<le> a * m + x" using assms by simp
  have "(a + 1) * m \<le> n * m" using assms by (intro mult_right_mono) simp_all
  then show "a * m + x < n * m" using assms(4) by (simp add: distrib_right)
qed

definition in_range4 :: "int \<Rightarrow> int \<Rightarrow> int \<Rightarrow> int \<Rightarrow> int \<Rightarrow> int \<Rightarrow> int \<Rightarrow> int \<Rightarrow> bool" where
  "in_range4 nn cc hn wn n c h w \<longleftrightarrow> 0 \<le> n \<and> n < nn \<and> 0 \<le> c \<and> c < cc \<and> 0 \<le> h \<and> h < hn \<and> 0 \<le> w \<and> w < wn"

lemma byte_offset_dense:
  assumes "0 < cc"
  shows "byte_offset (buff_info_new NCHW nn cc hn wn 1 d) n c h w = (((n * cc + c) * hn + h) * wn + w) * d"
    "byte_offset (buff_info_new CNHW nn cc hn wn 1 d) n c h w = (((c * nn + n) * hn + h) * wn + w) * d"
    "total_byte_size (buff_info_new NCHW nn cc hn wn 1 d) = nn * cc * hn * wn * d"
    "total_byte_size (buff_info_new CNHW nn cc hn wn 1 d) = nn * cc * hn * wn * d"
  using assms by (simp_all add: byte_offset_def buff_info_new_def scale_dims_def algebra_simps)

lemma dense4:
  fixes n :: int
  assumes "0 \<le> n \<and> n < nn" "0 \<le> c \<and> c < cc" "0 \<le> h \<and> h < hn" "0 \<le> w \<and> w < wn"
  shows "0 \<le> ((n * cc + c) * hn + h) * wn + w" "((n * cc + c) * hn + h) * wn + w < nn * cc * hn * wn"
proof -
  have a: "0 \<le> n * cc + c" "n * cc + c < nn * cc" using radix_bound [of n nn c cc] assms by simp_all
  have b: "0 \<le> (n * cc + c) * hn + h" "(n * cc + c) * hn + h < nn * cc * hn"
    using radix_bound [of "n * cc + c" "nn * cc" h hn] a assms by simp_all
  show "0 \<le> ((n * cc + c) * hn + h) * wn + w" "((n * cc + c) * hn + h) * wn + w < nn * cc * hn * wn"
    using radix_bound [of "(n * cc + c) * hn + h" "nn * cc * hn" w wn] b assms by simp_all
qed

lemma dense4_inj:
  fixes n :: int
  assumes "((n * cc + c) * hn + h) * wn + w = ((n' * cc + c') * hn + h') * wn + w'"
    and "in_range4 nn cc hn wn n c h w" "in_range4 nn cc hn wn n' c' h' w'"
  shows "n = n' \<and> c = c' \<and> h = h' \<and> w = w'"
proof -
  note r = assms(2,3) [unfolded in_range4_def]
  have 1: "(n * cc + c) * hn + h = (n' * cc + c') * hn + h'" "w = w'" using radix_inj [OF assms(1)] r by simp_all
  have 2: "n * cc + c = n' * cc + c'" "h = h'" using radix_inj [OF 1(1)] r by simp_all
  show ?thesis using radix_inj [OF 2(1)] r 1(2) 2(2) by simp
qed

text \<open>The strides of an unvectorised buffer of the kernel lay its elements out without gaps or overlaps:
  an element in range lies inside the buffer, and different elements do not share a byte.\<close>

theorem buff_info_dense:
  fixes lay :: MemLayout
  assumes "0 < d" "in_range4 nn cc hn wn n c h w" "in_range4 nn cc hn wn n' c' h' w'"
  defines "b \<equiv> buff_info_new lay nn cc hn wn 1 d"
  shows "0 \<le> byte_offset b n c h w \<and> byte_offset b n c h w + d \<le> total_byte_size b
    \<and> ((n, c, h, w) \<noteq> (n', c', h', w') \<longrightarrow>
        byte_offset b n c h w + d \<le> byte_offset b n' c' h' w' \<or> byte_offset b n' c' h' w' + d \<le> byte_offset b n c h w)"
proof -
  have key: "0 \<le> x * d \<and> x * d + d \<le> t * d \<and> (x \<noteq> y \<longrightarrow> x * d + d \<le> y * d \<or> y * d + d \<le> x * d)"
    if "0 \<le> x" "x < t" for x y t :: int
  proof -
    have m: "i * d + d \<le> j * d" if "i < j" for i j :: int
      using mult_right_mono [of "i + 1" j d] that assms(1) by (simp add: distrib_right)
    have "0 \<le> x * d" "x * d + d \<le> t * d" using that m assms(1) by simp_all
    moreover have "x \<noteq> y \<longrightarrow> x * d + d \<le> y * d \<or> y * d + d \<le> x * d"
      using m [of x y] m [of y x] by (metis linorder_neq_iff)
    ultimately show ?thesis by blast
  qed
  have cc: "0 < cc" using assms(2) by (simp add: in_range4_def)
  note r = assms(2,3) [unfolded in_range4_def]
  show ?thesis
  proof (cases lay)
    case NCHW
    have inj: "(n, c, h, w) \<noteq> (n', c', h', w') \<Longrightarrow>
        ((n * cc + c) * hn + h) * wn + w \<noteq> ((n' * cc + c') * hn + h') * wn + w'"
      using dense4_inj [OF _ assms(2,3)] by blast
    show ?thesis
      unfolding b_def NCHW byte_offset_dense [OF cc]
      using key [OF dense4 [of n nn c cc h hn w wn], of "((n' * cc + c') * hn + h') * wn + w'"] inj r by blast
  next
    case CNHW
    have "in_range4 cc nn hn wn c n h w" "in_range4 cc nn hn wn c' n' h' w'" using r by (simp_all add: in_range4_def)
    then have inj: "(n, c, h, w) \<noteq> (n', c', h', w') \<Longrightarrow>
        ((c * nn + n) * hn + h) * wn + w \<noteq> ((c' * nn + n') * hn + h') * wn + w'"
      using dense4_inj [of c nn n hn h wn w c' n' h' w' cc] by blast
    show ?thesis
      unfolding b_def CNHW byte_offset_dense [OF cc] mult.commute [of nn cc]
      using key [OF dense4 [of c cc n nn h hn w wn], of "((c' * nn + n') * hn + h') * wn + w'"] inj r by blast
  qed
qed

theorem buff_info_dense_witness:
  "byte_offset (buff_info_new CNHW 4 3 2 2 1 4) 3 1 0 1 + 4 \<le> 192"
  using buff_info_dense [of 4 4 3 2 2 3 1 0 1 0 0 0 0 CNHW]
  by (simp add: in_range4_def byte_offset_def buff_info_new_def scale_dims_def)

section \<open>The grid\<close>

lemma IsValidValue1x1u_pos:
  assumes "IsValidValue1x1u c"
  shows "1 \<le> read_size c" "1 \<le> k_mult c" "1 \<le> chunks_per_wave c" "1 \<le> chunk_size c" "1 \<le> n_mult c" "1 \<le> c_mult c"
    "1 \<le> waves_c_in_group c" "1 \<le> waves_k_in_group c" "1 \<le> GetNPerGpr c"
proof -
  have "1 \<le> k_mult c" using assms by (auto simp: IsValidValue1x1u_def Is_1_4_8_values)
  moreover have cs: "1 \<le> chunk_size c" "chunk_size c \<le> 64"
    using assms by (auto simp: IsValidValue1x1u_def IsTwoPower_LH_def split: if_splits)
  moreover have "1 \<le> 64 div chunk_size c" using cs zdiv_mono2 [of 64 "chunk_size c" 64] by simp
  ultimately show "1 \<le> read_size c" "1 \<le> k_mult c" "1 \<le> chunks_per_wave c" "1 \<le> chunk_size c" "1 \<le> n_mult c" "1 \<le> c_mult c"
    "1 \<le> waves_c_in_group c" "1 \<le> waves_k_in_group c" "1 \<le> GetNPerGpr c"
    using assms by (auto simp: IsValidValue1x1u_def IsLinear_def IsTwoPower_LH_def GetNPerGpr_def split: if_splits)
qed

text \<open>\<open>covers groups per items\<close>: the groups, \<open>per\<close> items each, hold all the items, and the last one is needed.\<close>

definition covers :: "int \<Rightarrow> int \<Rightarrow> int \<Rightarrow> bool" where
  "covers groups per items \<longleftrightarrow> items \<le> groups * per \<and> (groups - 1) * per < items"

lemma covers_divide: "0 \<le> x \<Longrightarrow> 0 < y \<Longrightarrow> covers (divide_round_plus_inf x y) y x"
  using ceil_div_covers [of y x] ceil_div_gt [of y "ceil_div x y - 1" x]
  by (simp add: covers_def divide_round_plus_inf)

text \<open>C23: With a valid configuration the work groups of the main kernel have at most 1024 work items, and
  the grid covers the pixels, the output channels and the images exactly, with no group to spare.\<close>

theorem main_kernel1x1u_covers:
  assumes "proper1x1u p" "IsValid1x1u p c"
  shows "\<exists>l x y z. l_wk (main_kernel1x1u use_v3 p c) = [l, 1, 1] \<and> 64 \<le> l \<and> l \<le> 1024
    \<and> g_wk (main_kernel1x1u use_v3 p c) = [l * x, y, z]
    \<and> covers x (chunks_per_wave c * chunk_size c) (AsmImgHeight p * AsmImgWidth p)
    \<and> covers y (k_mult c * waves_k_in_group c) (n_outputs p)
    \<and> covers z (n_mult c * GetNPerGpr c) (batch_sz p)"
proof -
  have v: "IsValidValue1x1u c" and w: "waves_c_in_group c * waves_k_in_group c \<le> 16"
    using assms(2) by (simp_all add: IsValid1x1u_def Let_def split: if_splits)
  note pos = IsValidValue1x1u_pos [OF v]
  define L where "L = waves_c_in_group c * waves_k_in_group c"
  have "0 < L" using pos by (simp add: L_def)
  then have l: "64 \<le> 64 * L" "64 * L \<le> 1024" using w by (simp_all add: L_def [symmetric])
  have s: "0 \<le> AsmImgHeight p * AsmImgWidth p" "0 \<le> n_outputs p" "0 \<le> batch_sz p"
    using assms(1) by (simp_all add: proper1x1u_def AsmImgHeight_def AsmImgWidth_def)
  have q: "0 < chunks_per_wave c * chunk_size c" "0 < k_mult c * waves_k_in_group c" "0 < n_mult c * GetNPerGpr c"
    using pos by simp_all
  show ?thesis
    by (rule exI [of _ "64 * L"])
      (use l in \<open>auto simp: main_kernel1x1u_def Let_def L_def [symmetric] intro!: covers_divide s q\<close>)
qed

section \<open>Witnesses\<close>

lemma example_applicable1x1u:
  "IsApplicable1x1u False (example_context 1 0)" "proper1x1u (example_context 1 0)"
proof -
  have "IsV2orV3 3" "contains_str ''gfx906'' ''gfx9''" by (simp_all add: IsV2orV3_def contains_str_def)
  moreover have "elements_in_dword (example_context 1 0) = 1"
    by (simp add: elements_in_dword_def example_context_fields GetTypeSize_def)
  moreover have "AsmImgHeight (example_context 1 0) = 8" "AsmImgWidth (example_context 1 0) = 8"
    by (simp_all add: AsmImgHeight_def AsmImgWidth_def example_context_fields)
  ultimately show "IsApplicable1x1u False (example_context 1 0)"
    by (simp add: IsApplicable1x1u_def example_context_fields example_context_layout Let_def)
  show "proper1x1u (example_context 1 0)" by (simp add: proper1x1u_def example_context_fields)
qed

theorem conv1x1u_heuristic_valid_witness:
  "\<exists>c. GetDefaultPerformanceConfig1x1u (example_context 1 0) = Inr c
     \<and> IsValidPerformanceConfig1x1u (example_context 1 0) c"
  by (rule conv1x1u_heuristic_valid [OF example_applicable1x1u])

theorem GetWorkspaceSize1x1u_exact_witness: "GetWorkspaceSize1x1u (example_context 1 0) = 0"
  using GetWorkspaceSize1x1u_exact [OF example_applicable1x1u]
  by (simp add: UseSubsample_def UseUpsample_def example_context_fields)

theorem main_kernel1x1u_covers_witness:
  "\<exists>l x y z. g_wk (main_kernel1x1u True (example_context 1 0) (fallback1x1u (example_context 1 0) False)) = [l * x, y, z]
    \<and> 64 \<le> l \<and> covers y 1 16"
proof -
  have "IsValid1x1u (example_context 1 0) (fallback1x1u (example_context 1 0) False)"
    by (rule fallback1x1u_valid [OF example_applicable1x1u])
  from main_kernel1x1u_covers [OF example_applicable1x1u(2) this, of True] show ?thesis
    by (auto simp: example_context_fields fallback1x1u_def config1x1u_new_def elements_in_dword_def GetTypeSize_def)
qed

end
