(* ===== verification/Conv_Asm3x3u.thy ===== *)
theory Conv_Asm3x3u
  imports Solver_Grid Sequences
begin

text \<open>
  The solver \<open>ConvAsm3x3U\<close> (\<open>src/solver/conv_asm_3x3u.cpp\<close>): its performance configuration, which
  steps through a rule set, its validity, the heuristic default, the applicability test and
  the grid of the solution.
\<close>

record config3x3u =
  limit_wave_cnt :: int
  filters_per_wave :: int
  output_lines_per_wave :: int

definition config3x3u_new :: "int \<Rightarrow> int \<Rightarrow> int \<Rightarrow> config3x3u" where
  "config3x3u_new lwc fpw olpw =
     \<lparr>limit_wave_cnt = lwc, filters_per_wave = fpw, output_lines_per_wave = olpw\<rparr>"

definition config3x3u_min :: "bool \<Rightarrow> config3x3u" where
  "config3x3u_min spare = config3x3u_new 0 1 1"

definition PerfFieldRules3x3u :: "config3x3u rule list" where
  "PerfFieldRules3x3u =
     [\<lparr>RV = limit_wave_cnt, LV = (\<lambda>v c. c\<lparr>limit_wave_cnt := v\<rparr>), rule_seq = Span 0 9\<rparr>,
      \<lparr>RV = filters_per_wave, LV = (\<lambda>v c. c\<lparr>filters_per_wave := v\<rparr>), rule_seq = Span 1 8\<rparr>,
      \<lparr>RV = output_lines_per_wave, LV = (\<lambda>v c. c\<lparr>output_lines_per_wave := v\<rparr>), rule_seq = Span 1 8\<rparr>]"

definition SetNextValue3x3u :: "config3x3u \<Rightarrow> config3x3u \<times> bool" where
  "SetNextValue3x3u c = (case RuleSet_Next PerfFieldRules3x3u c of (c', wrapped) \<Rightarrow> (c', \<not> wrapped))"

definition config3x3u_eq :: "config3x3u \<Rightarrow> config3x3u \<Rightarrow> bool" where
  "config3x3u_eq c d = RuleSet_Compare PerfFieldRules3x3u c d"

definition IsValidValue3x3u :: "config3x3u \<Rightarrow> bool" where
  "IsValidValue3x3u c = RuleSet_IsIn PerfFieldRules3x3u c"

definition IsValid3x3u :: "conv_context \<Rightarrow> config3x3u \<Rightarrow> bool" where
  "IsValid3x3u ctx c =
     (if \<not> IsValidValue3x3u c then False
      else
        let fpw = filters_per_wave c; olpw = output_lines_per_wave c;
            uneven_outputs = (cmod (n_outputs ctx) fpw \<noteq> 0);
            num_wavefronts = cdiv (n_outputs ctx) fpw
        in
        if group_counts ctx > 1 \<and> (uneven_outputs \<or> cmod num_wavefronts (group_counts ctx) \<noteq> 0) then False
        else
          let img_width = in_width ctx; img_height = in_height ctx;
              n0 = (if img_height \<noteq> olpw then 1 else 0 :: int);
              w64_chunks = cdiv (img_width + 63) 64
          in
          if w64_chunks = 0 then False
          else
            let active_lanes = cdiv (img_width + w64_chunks - 1) w64_chunks in
            if active_lanes = 0 then False
            else
              let n1 = n0 + (if cmod img_width active_lanes \<noteq> 0 then 1 else 0);
                  gprs_per_input_line = cdiv (img_width * 1 + active_lanes - 1) active_lanes;
                  input_lines_per_wave = (if img_height = olpw then olpw else olpw + 2);
                  k_group_size = cdiv (n_outputs ctx) (group_counts ctx);
                  power_of_two = (k_group_size AND (k_group_size - 1) = 0);
                  gprs = gprs_per_input_line * input_lines_per_wave;
                  n2 = n1 + (if power_of_two \<or> gprs \<ge> 4 then gprs else 4);
                  n3 = n2 + (if power_of_two \<or> gprs \<ge> 3 then gprs else 3);
                  n4 = n3 + 2;
                  n5 = n4 + gprs_per_input_line * fpw * olpw
              in n5 < 256)"

lemma IsValid3x3u_value: "IsValid3x3u ctx c \<Longrightarrow> IsValidValue3x3u c"
  by (rule ccontr) (simp add: IsValid3x3u_def)

definition HeuristicInit3x3u :: "conv_context \<Rightarrow> config3x3u" where
  "HeuristicInit3x3u ctx =
     (let c = config3x3u_new 0 2 2 in
      if cmod (n_outputs ctx) (filters_per_wave c * group_counts ctx) \<noteq> 0
      then c\<lparr>filters_per_wave := 1\<rparr> else c)"

definition IsValidPerformanceConfig3x3u :: "conv_context \<Rightarrow> config3x3u \<Rightarrow> bool" where
  "IsValidPerformanceConfig3x3u ctx c \<longleftrightarrow> IsValidValue3x3u c \<and> IsValid3x3u ctx c"

text \<open>\<open>IsApplicable\<close>; \<open>disabled\<close> is the environment variable of the solver.  The buffer sizes are
  computed in \<open>int64_t\<close> and \<open>SHADER_FEATURE_INDEX_MAX\<close> is \<open>2 ^ 32 - 1\<close>.\<close>

definition IsApplicable3x3u :: "bool \<Rightarrow> conv_context \<Rightarrow> bool" where
  "IsApplicable3x3u disabled ctx =
     (if disabled then False
      else if \<not> use_asm_kernels ctx then False
      else if \<not> ctx_Is2d ctx then False
      else if IsAsymmetricPadH (conv_problem ctx) \<or> IsAsymmetricPadW (conv_problem ctx) then False
      else if \<not> (c_direction ctx = Forward \<or> c_direction ctx = BackwardData) then False
      else if \<not> IsV2orV3 (rmv ctx) then False
      else if xnack ctx = Some True then False
      else if \<not> (StartsWith (device_name ctx) ''gfx8'' \<or> StartsWith (device_name ctx) ''gfx9'') then False
      else if \<not> ctx_IsLayoutDefault ctx then False
      else
        let GIB = 2 ^ 30; TIB = GIB * 1024; ELEM_SZ = 4; INDEX_MAX = 2 ^ 32 - 1;
            IN_FEATURE_COUNT = batch_sz ctx * n_inputs ctx;
            OUT_FEATURE_COUNT = batch_sz ctx * n_outputs ctx;
            IN_IMG_SZ = ELEM_SZ * in_height ctx * in_width ctx;
            OUT_IMG_SZ = ELEM_SZ * out_height ctx * out_width ctx;
            IN_BUF_SZ = IN_IMG_SZ * IN_FEATURE_COUNT;
            OUT_BUF_SZ = OUT_IMG_SZ * OUT_FEATURE_COUNT;
            WEI_BUF_SZ = ELEM_SZ * n_inputs ctx * n_outputs ctx * kernel_size_h ctx * kernel_size_w ctx
        in
          pad_w ctx = 1 \<and> pad_h ctx = 1
        \<and> kernel_stride_w ctx = 1 \<and> kernel_stride_h ctx = 1
        \<and> kernel_dilation_w ctx = 1 \<and> kernel_dilation_h ctx = 1
        \<and> kernel_size_w ctx = 3 \<and> kernel_size_h ctx = 3
        \<and> n_inputs ctx > 0
        \<and> cmod (cdiv (n_inputs ctx) (group_counts ctx)) 4 = 0
        \<and> in_width ctx > 3 \<and> in_width ctx \<le> 1000
        \<and> IN_IMG_SZ \<le> GIB
        \<and> OUT_IMG_SZ \<le> 4 * GIB
        \<and> IN_FEATURE_COUNT - 1 \<le> INDEX_MAX
        \<and> OUT_FEATURE_COUNT - 1 \<le> INDEX_MAX
        \<and> IN_BUF_SZ \<le> 256 * TIB
        \<and> OUT_BUF_SZ \<le> 256 * TIB
        \<and> WEI_BUF_SZ \<le> 4 * GIB
        \<and> ctx_IsFp32 ctx
        \<and> c_in_layout ctx = ''NCHW'')"

text \<open>The options, the grid and the work group of \<open>GetSolution\<close>.\<close>

definition active_lanes3x3u :: "conv_context \<Rightarrow> int" where
  "active_lanes3x3u ctx =
     (let w64_chunks = cdiv (in_width ctx + 63) 64 in cdiv (in_width ctx + w64_chunks - 1) w64_chunks)"

definition options3x3u :: "bool \<Rightarrow> conv_context \<Rightarrow> config3x3u \<Rightarrow> build_parameter list" where
  "options3x3u use_v3 ctx c =
     (let k_group_size = cdiv (n_outputs ctx) (group_counts ctx);
          k_group_size_is_power_of_two = (k_group_size AND (k_group_size - 1) = 0) in
      map (\<lambda>(n, v). kbp_int n v)
      [(''batch_size'', batch_sz ctx), (''img_width'', in_width ctx), (''img_height'', in_height ctx),
       (''input_channels'', n_inputs ctx), (''output_channels'', n_outputs ctx),
       (''weights_layout'', (if c_direction ctx = Forward then 0 else 1)),
       (''reverse_weights'', (if c_direction ctx = Forward then 0 else 1)),
       (''ROCM_METADATA_VERSION'', (if use_v3 then 5 else 4)),
       (''limit_wave_cnt'', limit_wave_cnt c), (''filters_per_wave'', filters_per_wave c),
       (''output_lines_per_wave'', output_lines_per_wave c), (''group_counts'', group_counts ctx),
       (''k_group_size_is_power_of_two'', (if k_group_size_is_power_of_two then 1 else 0)),
       (''workgroup_size_x'', active_lanes3x3u ctx)])"

definition GetSolution3x3u :: "bool \<Rightarrow> conv_context \<Rightarrow> config3x3u \<Rightarrow> kernel_info" where
  "GetSolution3x3u use_v3 ctx c =
     (let active_lanes = active_lanes3x3u ctx in
      \<lparr>l_wk = [active_lanes, 1, 1],
       g_wk = [active_lanes * cdiv (n_outputs ctx + filters_per_wave c - 1) (filters_per_wave c),
               cdiv (in_height ctx + output_lines_per_wave c - 1) (output_lines_per_wave c),
               batch_sz ctx],
       comp_options = GcnAsm_Generate (options3x3u use_v3 ctx c),
       kernel_file = ''conv3x3.s'', kernel_name = ''miopenGcnAsmConv3x3U''\<rparr>)"

text \<open>A configuration in the environment replaces the given one when it can be parsed and is valid
  for the problem.\<close>

definition GetSolution3x3u_config ::
  "(string \<Rightarrow> config3x3u option) \<Rightarrow> string option \<Rightarrow> conv_context \<Rightarrow> config3x3u \<Rightarrow> config3x3u" where
  "GetSolution3x3u_config deserialize env ctx config =
     (case env of
        None \<Rightarrow> config
      | Some s \<Rightarrow>
          if s = [] then config
          else (case deserialize s of
                  None \<Rightarrow> config
                | Some fromEnv \<Rightarrow> if \<not> IsValid3x3u ctx fromEnv then config else fromEnv))"

section \<open>The configurations that the search tries\<close>

definition config3x3u_of :: "int list \<Rightarrow> config3x3u" where
  "config3x3u_of vs = config3x3u_new (vs ! 0) (vs ! 1) (vs ! 2)"

lemma three_fields:
  "length vs = length PerfFieldRules3x3u \<longleftrightarrow> (\<exists>a b c. vs = [a, b, c])"
proof -
  have len: "length PerfFieldRules3x3u = Suc (Suc (Suc 0))" by (simp add: PerfFieldRules3x3u_def)
  show ?thesis unfolding len by (simp only: length_Suc_conv length_0_conv) blast
qed

interpretation rules3x3u: rule_set PerfFieldRules3x3u config3x3u_of
proof
  fix vs :: "int list" and i :: nat and x :: int
  assume len: "length vs = length PerfFieldRules3x3u" and i: "i < length PerfFieldRules3x3u"
  from three_fields [THEN iffD1, OF len] obtain a b c where vs: "vs = [a, b, c]" by (elim exE)
  have "i = 0 \<or> i = 1 \<or> i = 2" using i by (auto simp: PerfFieldRules3x3u_def)
  then show "RV (PerfFieldRules3x3u ! i) (config3x3u_of vs) = vs ! i"
    and "LV (PerfFieldRules3x3u ! i) x (config3x3u_of vs) = config3x3u_of (vs[i := x])"
    by (auto simp: vs PerfFieldRules3x3u_def config3x3u_of_def config3x3u_new_def)
qed (simp add: PerfFieldRules3x3u_def)

lemma SetNextValue3x3u_rules:
  "SetNextValue3x3u = (\<lambda>c. case RuleSet_Next PerfFieldRules3x3u c of (c', wrapped) \<Rightarrow> (c', \<not> wrapped))"
  by (simp add: SetNextValue3x3u_def fun_eq_iff)

lemma config3x3u_of_surj: "\<exists>vs. length vs = length PerfFieldRules3x3u \<and> c = config3x3u_of vs"
  by (intro exI [of _ "[limit_wave_cnt c, filters_per_wave c, output_lines_per_wave c]"])
    (simp add: PerfFieldRules3x3u_def config3x3u_of_def config3x3u_new_def)

lemma IsValidValue3x3u_space:
  "IsValidValue3x3u c \<longleftrightarrow> c \<in> config3x3u_of ` set (space rules3x3u.digits)"
proof -
  obtain vs where vs: "length vs = length PerfFieldRules3x3u" "c = config3x3u_of vs"
    using config3x3u_of_surj by blast
  have "\<forall>r \<in> set PerfFieldRules3x3u. exact_seq (rule_seq r)" by (simp add: PerfFieldRules3x3u_def)
  then have "IsValidValue3x3u c \<longleftrightarrow> vs \<in> set (space rules3x3u.digits)"
    using rules3x3u.IsIn vs by (simp add: IsValidValue3x3u_def)
  moreover have "c \<in> config3x3u_of ` set (space rules3x3u.digits) \<longleftrightarrow> vs \<in> set (space rules3x3u.digits)"
    using rules3x3u.of_fields_inj rules3x3u.space_length vs by blast
  ultimately show ?thesis by blast
qed

lemma config3x3u_start: "config3x3u_of (map hd rules3x3u.digits) = config3x3u_min spare"
  by (simp add: PerfFieldRules3x3u_def config3x3u_min_def config3x3u_of_def upto_rec1)

lemma configs3x3u_enumerated:
  "\<exists>cs. GetAllConfigs SetNextValue3x3u (IsValid3x3u ctx) config3x3u_min = Some cs
     \<and> distinct cs \<and> set cs = {c. IsValid3x3u ctx c}"
proof -
  let ?all = "map config3x3u_of (space rules3x3u.digits)"
  have "ComputedContainer SetNextValue3x3u (IsValid3x3u ctx) (config3x3u_min spare)
      = Some (filter (IsValid3x3u ctx) ?all)" for spare
    using rules3x3u.container [of "IsValid3x3u ctx"]
    unfolding SetNextValue3x3u_rules config3x3u_start [of spare] .
  then have "GetAllConfigs SetNextValue3x3u (IsValid3x3u ctx) config3x3u_min
      = Some (filter (IsValid3x3u ctx) ?all)"
    by (simp add: GetAllConfigs_def)
  moreover have "distinct (filter (IsValid3x3u ctx) ?all)"
    using rules3x3u.distinct by simp
  moreover have "IsValid3x3u ctx c \<Longrightarrow> c \<in> set ?all" for c
    using IsValidValue3x3u_space [of c] by (auto simp: IsValid3x3u_def split: if_splits)
  then have "set (filter (IsValid3x3u ctx) ?all) = {c. IsValid3x3u ctx c}" by auto
  ultimately show ?thesis by blast
qed

text \<open>C27: The search for \<open>ConvAsm3x3U\<close> ends and tries every configuration that is valid for the
  problem, each exactly once, and no other.\<close>

theorem conv3x3u_configs:
  "\<exists>cs. GetAllConfigs SetNextValue3x3u (IsValid3x3u ctx) config3x3u_min = Some cs
     \<and> distinct cs \<and> set cs = {c. IsValid3x3u ctx c}"
  by (rule configs3x3u_enumerated)

section \<open>The heuristic configuration\<close>

text \<open>The registers of one input line: at most one for every 64 columns.\<close>

lemma lanes_bounds:
  assumes "3 < w" "w \<le> 1000"
  defines "chunks \<equiv> ceil_div w 64"
  defines "lanes \<equiv> ceil_div w chunks"
  shows "1 \<le> chunks" "1 \<le> lanes" "lanes \<le> 64" "1 \<le> ceil_div w lanes" "ceil_div w lanes \<le> 16"
proof -
  show c: "1 \<le> chunks" using assms(1) by (simp add: chunks_def ceil_div_pos)
  then show l: "1 \<le> lanes" using assms(1) by (simp add: lanes_def ceil_div_pos)
  have "w \<le> chunks * 64" by (simp add: chunks_def ceil_div_covers)
  then have "w \<le> 64 * chunks" by simp
  then show "lanes \<le> 64" using c by (simp add: lanes_def ceil_div_le)
  have "w \<le> lanes * chunks" using c by (simp add: lanes_def ceil_div_covers)
  then have "ceil_div w lanes \<le> chunks" using l by (simp add: ceil_div_le mult.commute)
  moreover have "chunks \<le> 16" using assms(2) by (simp add: chunks_def ceil_div_le)
  ultimately show "ceil_div w lanes \<le> 16" by simp
  show "1 \<le> ceil_div w lanes" using l assms(1) by (simp add: ceil_div_pos)
qed

definition proper3x3u :: "conv_context \<Rightarrow> bool" where
  "proper3x3u ctx \<longleftrightarrow> 0 < n_outputs ctx \<and> 0 < group_counts ctx \<and> n_outputs ctx mod group_counts ctx = 0
     \<and> 0 < in_height ctx \<and> 0 < batch_sz ctx"

lemma IsValidValue3x3u_ranges:
  "IsValidValue3x3u c \<longleftrightarrow> 0 \<le> limit_wave_cnt c \<and> limit_wave_cnt c \<le> 9
     \<and> 1 \<le> filters_per_wave c \<and> filters_per_wave c \<le> 8
     \<and> 1 \<le> output_lines_per_wave c \<and> output_lines_per_wave c \<le> 8"
  by (auto simp: IsValidValue3x3u_def PerfFieldRules3x3u_def Rule_IsIn_def seq_is_in_def)

lemma applicable3x3u_width:
  "IsApplicable3x3u disabled ctx \<Longrightarrow> 3 < in_width ctx \<and> in_width ctx \<le> 1000"
  unfolding IsApplicable3x3u_def Let_def by (simp split: if_splits)

text \<open>Whenever \<open>ConvAsm3x3U\<close> is applicable to a problem with positive sizes whose groups divide the
  output channels, the configuration \<open>HeuristicInit\<close> makes without searching is valid for it.\<close>

theorem conv3x3u_heuristic_valid:
  assumes "IsApplicable3x3u disabled ctx" "proper3x3u ctx"
  shows "IsValidPerformanceConfig3x3u ctx (HeuristicInit3x3u ctx)"
proof -
  define f where "f = filters_per_wave (HeuristicInit3x3u ctx)"
  have w: "3 < in_width ctx" "in_width ctx \<le> 1000" using applicable3x3u_width [OF assms(1)] by simp_all
  have pos: "0 < n_outputs ctx" "0 < group_counts ctx" "n_outputs ctx mod group_counts ctx = 0" "0 < in_height ctx"
    using assms(2) by (simp_all add: proper3x3u_def)
  have f: "f = 1 \<or> f = 2" "f = 2 \<Longrightarrow> n_outputs ctx mod (2 * group_counts ctx) = 0"
    using pos by (auto simp: f_def HeuristicInit3x3u_def config3x3u_new_def Let_def split: if_splits)
  have h: "HeuristicInit3x3u ctx = \<lparr>limit_wave_cnt = 0, filters_per_wave = f, output_lines_per_wave = 2\<rparr>"
    by (simp add: f_def HeuristicInit3x3u_def config3x3u_new_def Let_def)
  have grp: "n_outputs ctx mod f = 0 \<and> (n_outputs ctx div f) mod group_counts ctx = 0"
  proof (cases "f = 2")
    case True
    with f(2) obtain k where "n_outputs ctx = 2 * group_counts ctx * k" by (auto elim!: dvdE simp: mod_eq_0_iff_dvd)
    with True show ?thesis by simp
  next
    case False
    with f(1) pos show ?thesis by simp
  qed
  define chunks where "chunks = ceil_div (in_width ctx) 64"
  define lanes where "lanes = ceil_div (in_width ctx) chunks"
  define g where "g = ceil_div (in_width ctx) lanes"
  have b: "1 \<le> chunks" "1 \<le> lanes" "1 \<le> g" "g \<le> 16"
    using lanes_bounds [OF w] by (simp_all add: chunks_def lanes_def g_def)
  have e: "in_width ctx + 63 = in_width ctx + 64 - 1" by simp
  have "cdiv (in_width ctx + 63) 64 = chunks"
    unfolding e chunks_def by (rule cdiv_ceil) (use w in simp_all)
  moreover have "cdiv (in_width ctx + chunks - 1) chunks = lanes"
    unfolding lanes_def by (rule cdiv_ceil) (use w b in simp_all)
  moreover have "cdiv (in_width ctx * 1 + lanes - 1) lanes = g"
    unfolding g_def mult_1_right by (rule cdiv_ceil) (use w b in simp_all)
  ultimately have c: "cdiv (in_width ctx + 63) 64 = chunks" "cdiv (in_width ctx + chunks - 1) chunks = lanes"
    "cdiv (in_width ctx * 1 + lanes - 1) lanes = g" by blast+
  have m: "cmod (n_outputs ctx) f = 0" "cmod (cdiv (n_outputs ctx) f) (group_counts ctx) = 0"
    using pos grp f(1) by (auto simp: pos_imp_zdiv_nonneg_iff)

  have "IsValidValue3x3u (HeuristicInit3x3u ctx)"
    using f(1) by (auto simp: IsValidValue3x3u_ranges h)
  then have "IsValid3x3u ctx (HeuristicInit3x3u ctx)"
    using f(1) b m unfolding IsValid3x3u_def h Let_def c by (elim disjE) (auto simp: c)
  then show ?thesis
    using f(1) by (auto simp add: IsValidPerformanceConfig3x3u_def IsValidValue3x3u_ranges h)
qed

section \<open>The grid\<close>

text \<open>C28: The grid of \<open>GetSolution\<close> covers the output exactly: with the work group of one line of active
  lanes, which is never more than a wave, every output channel, every output line and every image has
  a place, and there is no row of work groups beyond the last filter or line.\<close>

theorem GetSolution3x3u_covers:
  assumes "IsApplicable3x3u disabled ctx" "proper3x3u ctx" "IsValidPerformanceConfig3x3u ctx c"
  shows "\<exists>lanes filters lines. l_wk (GetSolution3x3u use_v3 ctx c) = [lanes, 1, 1]
    \<and> g_wk (GetSolution3x3u use_v3 ctx c) = [lanes * filters, lines, batch_sz ctx]
    \<and> 1 \<le> lanes \<and> lanes \<le> 64 \<and> in_width ctx \<le> lanes * 16
    \<and> n_outputs ctx \<le> filters * filters_per_wave c
    \<and> (filters - 1) * filters_per_wave c < n_outputs ctx
    \<and> in_height ctx \<le> lines * output_lines_per_wave c
    \<and> (lines - 1) * output_lines_per_wave c < in_height ctx"
proof -
  have w: "3 < in_width ctx" "in_width ctx \<le> 1000" using applicable3x3u_width [OF assms(1)] by simp_all
  have pos: "0 < n_outputs ctx" "0 < in_height ctx" using assms(2) by (simp_all add: proper3x3u_def)
  have v: "1 \<le> filters_per_wave c" "1 \<le> output_lines_per_wave c"
    using assms(3) by (simp_all add: IsValidPerformanceConfig3x3u_def IsValidValue3x3u_ranges)
  define chunks where "chunks = ceil_div (in_width ctx) 64"
  define lanes where "lanes = ceil_div (in_width ctx) chunks"
  have b: "1 \<le> chunks" "1 \<le> lanes" "lanes \<le> 64" "ceil_div (in_width ctx) lanes \<le> 16"
    using lanes_bounds [OF w] by (simp_all add: chunks_def lanes_def)
  have e: "in_width ctx + 63 = in_width ctx + 64 - 1" by simp
  have "cdiv (in_width ctx + 63) 64 = chunks"
    unfolding e chunks_def by (rule cdiv_ceil) (use w in simp_all)
  moreover have "cdiv (in_width ctx + chunks - 1) chunks = lanes"
    unfolding lanes_def by (rule cdiv_ceil) (use w b in simp_all)
  ultimately have l: "active_lanes3x3u ctx = lanes" by (simp add: active_lanes3x3u_def Let_def)
  have f: "cdiv (n_outputs ctx + filters_per_wave c - 1) (filters_per_wave c)
      = ceil_div (n_outputs ctx) (filters_per_wave c)" by (rule cdiv_ceil) (use pos v in simp_all)
  have o: "cdiv (in_height ctx + output_lines_per_wave c - 1) (output_lines_per_wave c)
      = ceil_div (in_height ctx) (output_lines_per_wave c)" by (rule cdiv_ceil) (use pos v in simp_all)
  have cov: "x \<le> ceil_div x y * y \<and> (ceil_div x y - 1) * y < x" if "1 \<le> y" for x y :: int
    using ceil_div_covers [of y x] ceil_div_gt [of y "ceil_div x y - 1" x] that by simp
  have "in_width ctx \<le> lanes * 16" using b by (simp add: ceil_div_le mult.commute)
  moreover have "l_wk (GetSolution3x3u use_v3 ctx c) = [lanes, 1, 1]"
    and "g_wk (GetSolution3x3u use_v3 ctx c) = [lanes * ceil_div (n_outputs ctx) (filters_per_wave c),
      ceil_div (in_height ctx) (output_lines_per_wave c), batch_sz ctx]"
    by (simp_all add: GetSolution3x3u_def l f o)
  ultimately show ?thesis using b cov [OF v(1), of "n_outputs ctx"] cov [OF v(2), of "in_height ctx"] by blast
qed

lemma example_applicable3x3u: "IsApplicable3x3u False (example_context 3 1)" "proper3x3u (example_context 3 1)"
proof -
  have "IsV2orV3 3" "StartsWith ''gfx906'' ''gfx9''" by (simp_all add: IsV2orV3_def StartsWith_def)
  then show "IsApplicable3x3u False (example_context 3 1)"
    by (simp add: IsApplicable3x3u_def example_context_fields example_context_layout Let_def)
  show "proper3x3u (example_context 3 1)" by (simp add: proper3x3u_def example_context_fields)
qed

theorem conv3x3u_heuristic_valid_witness:
  "IsValidPerformanceConfig3x3u (example_context 3 1) (HeuristicInit3x3u (example_context 3 1))"
  by (rule conv3x3u_heuristic_valid [OF example_applicable3x3u])

lemma example_config3x3u: "IsValidPerformanceConfig3x3u (example_context 3 1) (config3x3u_new 5 4 8)"
  by (simp add: IsValidPerformanceConfig3x3u_def IsValid3x3u_def IsValidValue3x3u_ranges config3x3u_new_def
      example_context_fields Let_def)

theorem GetSolution3x3u_covers_witness:
  "\<exists>lanes filters lines. g_wk (GetSolution3x3u True (example_context 3 1) (config3x3u_new 5 4 8)) = [lanes * filters, lines, 2]
    \<and> 16 \<le> filters * 4 \<and> (filters - 1) * 4 < 16 \<and> (8::int) \<le> lines * 8"
  using GetSolution3x3u_covers [OF example_applicable3x3u example_config3x3u, of True]
  by (auto simp: example_context_fields config3x3u_new_def)

end
