(* ===== verification/Perf_Codec.thy ===== *)
theory Perf_Codec
  imports Serialize
begin

text \<open>
  The text form of the performance configurations (\<open>PerfConfigBase\<close> in
  \<open>src/include/miopen/performance_config.hpp\<close>): the \<open>int\<close> members that \<open>Visit\<close> names, with commas
  between them.  Such a configuration is a value type of the databases.
\<close>

fun field_int :: "unit field \<Rightarrow> int" where
  "field_int (FInt i) = i"
| "field_int _ = 0"

definition PerfConfig_Serialize :: "int list \<Rightarrow> string" where
  "PerfConfig_Serialize members = SerDes_Serialize CHR '','' (\<lambda>_::unit. []) (map FInt members)"

definition PerfConfig_Deserialize :: "int list \<Rightarrow> string \<Rightarrow> int list option" where
  "PerfConfig_Deserialize members s =
     map_option (map field_int) (SerDes_Deserialize CHR '','' (\<lambda>_. ()) (map FInt members) s)"

abbreviation int32 :: "int \<Rightarrow> bool" where
  "int32 i \<equiv> - (2 ^ 31) \<le> i \<and> i < 2 ^ 31"

lemma PerfConfig_roundtrip:
  assumes "\<forall>v \<in> set vs. int32 v" "length old = length vs"
  shows "PerfConfig_Deserialize old (PerfConfig_Serialize vs) = Some vs"
proof -
  have sep: "sep_ok CHR '',''" by (simp add: sep_ok_def is_digit_def)
  have ok: "\<forall>x \<in> set (map FInt vs). field_ok CHR '','' (\<lambda>_::unit. []) (\<lambda>_. ()) x" using assms(1) by auto
  have ty: "list_all2 same_type (map FInt vs) (map FInt old :: unit field list)"
    using assms(2) by (simp add: list_all2_conv_all_nth)
  have "map (field_int \<circ> FInt) vs = vs" by (induction vs) simp_all
  with DeserializeFields_join [OF sep ok ty] show ?thesis
    by (simp add: PerfConfig_Deserialize_def PerfConfig_Serialize_def SerDes_Deserialize_def
        SerDes_Serialize_join)
qed

lemma show_int_chars: "c \<in> set (show_int i) \<Longrightarrow> is_digit c \<or> c = CHR ''-''"
  using digits_all by (auto simp: show_int_def split: if_splits)

lemma PerfConfig_clean: "values_ok (PerfConfig_Serialize vs)"
proof -
  have "c = CHR '','' \<or> is_digit c \<or> c = CHR ''-''" if "c \<in> set (PerfConfig_Serialize vs)" for c
    using that set_join_with [of "'',''" "map (show_field (\<lambda>_::unit. [])) (map FInt vs)"] show_int_chars
    by (auto simp: PerfConfig_Serialize_def SerDes_Serialize_join)
  then show ?thesis by (fastforce simp: values_ok_def is_digit_def)
qed

text \<open>A configuration type with \<open>n\<close> visited members, read into a default-constructed one, whose
  members are -1, is a value codec.\<close>

lemma int_codec:
  assumes "\<And>c. valid c \<Longrightarrow> (\<forall>v \<in> set (members c). int32 v) \<and> length (members c) = n \<and> of_members (members c) = c"
  shows "value_codec (\<lambda>c. PerfConfig_Serialize (members c))
    (\<lambda>s. map_option of_members (PerfConfig_Deserialize (replicate n (-1)) s)) valid"
  by unfold_locales (use assms PerfConfig_roundtrip PerfConfig_clean in auto)

end
