(* ===== verification/Find_Solution.thy ===== *)
theory Find_Solution
  imports Perf_Codec Plain_Text_Db Controls "HOL-Library.Sublist"
begin

text \<open>
  How a solver's solution is found (\<open>src/include/miopen/find_solution.hpp\<close>): with the performance
  configuration of the database, with one that a search finds and the database then keeps, or with
  the default one; and the loops of \<open>SolverContainer\<close> over a list of solvers.

  A solver is the record of its answers for one context; \<open>Inl\<close> is a thrown \<open>miopen::Exception\<close>.
  The database is used through three operations under the key of the context's problem, each
  returning the new state of the database also when it throws.
\<close>

section \<open>Solvers and databases\<close>

text \<open>The ID of a solver: the last component of its type name, without commas and blanks.\<close>

definition ComputeSolverDbId :: "string \<Rightarrow> string" where
  "ComputeSolverDbId type_name =
     (let name = rev (takeWhile (\<lambda>c. c \<noteq> CHR '':'') (rev type_name));
          name = map (\<lambda>c. if c = CHR '','' then CHR ''-'' else c) name
      in filter (\<lambda>c. c \<noteq> CHR '' '') name)"

lemma ComputeSolverDbId_ok:
  assumes "CHR '';'' \<notin> set type_name" "CHR 0x0A \<notin> set type_name"
  shows "id_ok (ComputeSolverDbId type_name)"
proof -
  have "c \<noteq> CHR '':''" if "c \<in> set (takeWhile (\<lambda>c. c \<noteq> CHR '':'') (rev type_name))" for c
    using set_takeWhileD [OF that] by simp
  moreover have "c \<in> set type_name" if "c \<in> set (takeWhile (\<lambda>c. c \<noteq> CHR '':'') (rev type_name))" for c
    using set_takeWhileD [OF that] by simp
  ultimately show ?thesis
    using assms by (auto simp: ComputeSolverDbId_def id_ok_def Let_def split: if_splits)
qed

record ('c, 's) solver =
  SolverDbId :: string
  IsDynamic :: bool
  IsApplicable :: bool
  MayNeedWorkspace :: bool
  GetWorkspaceSize :: nat
  searchable :: bool
  GetDefaultPerformanceConfig :: "'c result"
  IsValidPerformanceConfig :: "'c \<Rightarrow> bool"
  SearchConfig :: "'c result"
  GetSolution :: "'c \<Rightarrow> 's result"
  GetSolution0 :: "'s result"
  ser :: "'c \<Rightarrow> string"
  deser :: "string \<Rightarrow> 'c option"

record 'd perf_db =
  pd_load :: "'d \<Rightarrow> string \<Rightarrow> 'd \<times> string option result"
  pd_update :: "'d \<Rightarrow> string \<Rightarrow> string \<Rightarrow> 'd \<times> bool result"
  pd_remove :: "'d \<Rightarrow> string \<Rightarrow> 'd \<times> bool result"

record find_context =
  disable_perfdb_access :: bool
  do_search :: bool
  db_update :: bool
  enforce :: find_enforce
  disable_enforce :: bool
  use_dynamic_solutions_only :: bool
  find_only :: "string list option"

section \<open>\<open>FindSolutionImpl\<close>\<close>

definition default_solution :: "('c, 's) solver \<Rightarrow> 's result" where
  "default_solution s =
     (case GetDefaultPerformanceConfig s of Inl e \<Rightarrow> Inl e | Inr c \<Rightarrow> GetSolution s c)"

definition searches :: "find_context \<Rightarrow> bool" where
  "searches ctx \<longleftrightarrow> do_search ctx \<or> FindEnforce_IsSearch (enforce ctx) (disable_enforce ctx)"

definition updates :: "find_context \<Rightarrow> bool" where
  "updates ctx \<longleftrightarrow> db_update ctx \<or> FindEnforce_IsDbUpdate (enforce ctx) (disable_enforce ctx)"

text \<open>The body of the \<open>try\<close>: search, keep the result in the database, make the solution of it.\<close>

definition search_and_store :: "'d perf_db \<Rightarrow> ('c, 's) solver \<Rightarrow> 'd \<Rightarrow> 'd \<times> 's result" where
  "search_and_store db s d =
     (case SearchConfig s of
        Inl e \<Rightarrow> (d, Inl e)
      | Inr c \<Rightarrow>
          (case pd_update db d (SolverDbId s) (ser s c) of
             (d', Inl e) \<Rightarrow> (d', Inl e)
           | (d', Inr _) \<Rightarrow> (d', GetSolution s c)))"

definition FindSolutionImpl1 :: "find_context \<Rightarrow> 'd perf_db \<Rightarrow> ('c, 's) solver \<Rightarrow> 'd \<Rightarrow> 'd \<times> 's result" where
  "FindSolutionImpl1 ctx db s d =
     (if disable_perfdb_access ctx then (d, default_solution s)
      else if FindEnforce_IsDbClean (enforce ctx) (disable_enforce ctx) then
        (case pd_remove db d (SolverDbId s) of
           (d', Inl e) \<Rightarrow> (d', Inl e)
         | (d', Inr _) \<Rightarrow> (d', default_solution s))
      else
        (case (if searches ctx \<and> updates ctx then (d, Inr None) else pd_load db d (SolverDbId s)) of
           (d1, Inl e) \<Rightarrow> (d1, Inl e)
         | (d1, Inr values) \<Rightarrow>
             (case Option.bind values (deser s) of
                Some config \<Rightarrow>
                  if IsValidPerformanceConfig s config then (d1, GetSolution s config)
                  else if searches ctx then
                    (case search_and_store db s d1 of
                       (d2, Inr sol) \<Rightarrow> (d2, Inr sol)
                     | (d2, Inl _) \<Rightarrow> (d2, default_solution s))
                  else (d1, default_solution s)
              | None \<Rightarrow>
                  if searches ctx then
                    (case search_and_store db s d1 of
                       (d2, Inr sol) \<Rightarrow> (d2, Inr sol)
                     | (d2, Inl _) \<Rightarrow> (d2, default_solution s))
                  else (d1, default_solution s))))"

definition FindSolution :: "find_context \<Rightarrow> 'd perf_db \<Rightarrow> ('c, 's) solver \<Rightarrow> 'd \<Rightarrow> 'd \<times> (string \<times> 's) result" where
  "FindSolution ctx db s d =
     (case (if searchable s then FindSolutionImpl1 ctx db s d else (d, GetSolution0 s)) of
        (d', Inl e) \<Rightarrow> (d', Inl e)
      | (d', Inr sol) \<Rightarrow> (d', Inr (SolverDbId s, sol)))"

section \<open>\<open>SolverContainer\<close>\<close>

definition skipped :: "find_context \<Rightarrow> ('c, 's) solver \<Rightarrow> bool" where
  "skipped ctx s \<longleftrightarrow>
     (case find_only ctx of None \<Rightarrow> False | Some ids \<Rightarrow> SolverDbId s \<notin> set ids)"

text \<open>The loops over the solvers: \<open>limit\<close> solutions at most; a throw ends the loop.\<close>

fun SearchForAllSolutions ::
  "find_context \<Rightarrow> 'd perf_db \<Rightarrow> ('s \<Rightarrow> bool) \<Rightarrow> nat \<Rightarrow> ('c, 's) solver list \<Rightarrow> (string \<times> 's) list \<Rightarrow> 'd
     \<Rightarrow> 'd \<times> (string \<times> 's) list result" where
  "SearchForAllSolutions ctx db succeeded limit [] ss d = (d, Inr ss)"
| "SearchForAllSolutions ctx db succeeded limit (s # rest) ss d =
     (if length ss \<ge> limit then SearchForAllSolutions ctx db succeeded limit rest ss d
      else if skipped ctx s then SearchForAllSolutions ctx db succeeded limit rest ss d
      else if use_dynamic_solutions_only ctx \<and> \<not> IsDynamic s
        then SearchForAllSolutions ctx db succeeded limit rest ss d
      else if \<not> IsApplicable s then SearchForAllSolutions ctx db succeeded limit rest ss d
      else
        (case FindSolution ctx db s d of
           (d', Inl e) \<Rightarrow> (d', Inl e)
         | (d', Inr sol) \<Rightarrow>
             SearchForAllSolutions ctx db succeeded limit rest
               (if succeeded (snd sol) then ss @ [sol] else ss) d'))"

fun SearchForSolutions ::
  "find_context \<Rightarrow> ('s \<Rightarrow> bool) \<Rightarrow> nat \<Rightarrow> ('c, 's) solver list \<Rightarrow> (string \<times> 's) list \<Rightarrow> (string \<times> 's) list result" where
  "SearchForSolutions ctx succeeded limit [] ss = Inr ss"
| "SearchForSolutions ctx succeeded limit (s # rest) ss =
     (if length ss \<ge> limit then SearchForSolutions ctx succeeded limit rest ss
      else if skipped ctx s then SearchForSolutions ctx succeeded limit rest ss
      else if \<not> IsApplicable s then SearchForSolutions ctx succeeded limit rest ss
      else
        (case GetSolution0 s of
           Inl e \<Rightarrow> Inl e
         | Inr sol \<Rightarrow>
             SearchForSolutions ctx succeeded limit rest
               (if succeeded sol then ss @ [(SolverDbId s, sol)] else ss)))"

fun GetWorkspaceSizes :: "find_context \<Rightarrow> nat \<Rightarrow> ('c, 's) solver list \<Rightarrow> (string \<times> nat) list \<Rightarrow> (string \<times> nat) list" where
  "GetWorkspaceSizes ctx limit [] res = res"
| "GetWorkspaceSizes ctx limit (s # rest) res =
     (if length res \<ge> limit then GetWorkspaceSizes ctx limit rest res
      else if skipped ctx s then GetWorkspaceSizes ctx limit rest res
      else if \<not> MayNeedWorkspace s then GetWorkspaceSizes ctx limit rest res
      else if use_dynamic_solutions_only ctx \<and> \<not> IsDynamic s then GetWorkspaceSizes ctx limit rest res
      else if \<not> IsApplicable s then GetWorkspaceSizes ctx limit rest res
      else GetWorkspaceSizes ctx limit rest (res @ [(SolverDbId s, GetWorkspaceSize s)]))"

fun IsAnySolverApplicable :: "find_context \<Rightarrow> ('c, 's) solver list \<Rightarrow> bool \<Rightarrow> bool" where
  "IsAnySolverApplicable ctx [] found \<longleftrightarrow> found"
| "IsAnySolverApplicable ctx (s # rest) found \<longleftrightarrow>
     (if found \<or> skipped ctx s then IsAnySolverApplicable ctx rest found
      else if use_dynamic_solutions_only ctx \<and> \<not> IsDynamic s then IsAnySolverApplicable ctx rest found
      else if IsApplicable s then IsAnySolverApplicable ctx rest True
      else IsAnySolverApplicable ctx rest found)"

section \<open>What the finder relies on\<close>

text \<open>The view of a database under the problem's key, the VALUES of each ID; and what it holds
  \<open>elsewhere\<close>, under other keys.\<close>

locale tuning_db =
  fixes db :: "'d perf_db"
    and view :: "'d \<Rightarrow> string \<rightharpoonup> string"
    and inv :: "'d \<Rightarrow> bool"
    and elsewhere :: "'d \<Rightarrow> 'o"
  assumes load: "inv d \<Longrightarrow> pd_load db d i = (d, Inr (view d i))"
    and update: "inv d \<Longrightarrow> id_ok i \<Longrightarrow> values_ok v \<Longrightarrow>
      \<exists>d'. pd_update db d i v = (d', Inr True) \<and> inv d' \<and> view d' = (view d)(i \<mapsto> v) \<and> elsewhere d' = elsewhere d"
    and remove: "inv d \<Longrightarrow> id_ok i \<Longrightarrow>
      \<exists>d' b. pd_remove db d i = (d', Inr b) \<and> inv d' \<and> view d' = (view d)(i := None) \<and> elsewhere d' = elsewhere d"
begin

text \<open>The configuration of the database is used when it is valid and no new search is asked for.\<close>

lemma uses_stored:
  assumes "inv d" "\<not> disable_perfdb_access ctx" "\<not> FindEnforce_IsDbClean (enforce ctx) (disable_enforce ctx)"
    and "\<not> (searches ctx \<and> updates ctx)"
    and "Option.bind (view d (SolverDbId s)) (deser s) = Some c" "IsValidPerformanceConfig s c"
  shows "FindSolutionImpl1 ctx db s d = (d, GetSolution s c)"
  using assms by (auto simp: FindSolutionImpl1_def load)

lemma searched:
  assumes "inv d" "\<not> disable_perfdb_access ctx" "\<not> FindEnforce_IsDbClean (enforce ctx) (disable_enforce ctx)"
    and "searches ctx"
    and "updates ctx \<or> (\<forall>c. Option.bind (view d (SolverDbId s)) (deser s) = Some c \<longrightarrow> \<not> IsValidPerformanceConfig s c)"
    and "SearchConfig s = Inr c" "GetSolution s c = Inr sol" "id_ok (SolverDbId s)" "values_ok (ser s c)"
  shows "\<exists>d'. FindSolutionImpl1 ctx db s d = (d', Inr sol) \<and> inv d'
    \<and> view d' = (view d)(SolverDbId s \<mapsto> ser s c) \<and> elsewhere d' = elsewhere d"
proof -
  obtain d' where d': "pd_update db d (SolverDbId s) (ser s c) = (d', Inr True)" "inv d'"
    "view d' = (view d)(SolverDbId s \<mapsto> ser s c)" "elsewhere d' = elsewhere d"
    using update [OF assms(1,8,9)] by blast
  then have "search_and_store db s d = (d', Inr sol)"
    by (simp add: search_and_store_def assms)
  then show ?thesis
    using assms(1-5) d' by (auto simp: FindSolutionImpl1_def load split: option.splits)
qed

lemma search_fails:
  assumes "inv d" "\<not> disable_perfdb_access ctx" "\<not> FindEnforce_IsDbClean (enforce ctx) (disable_enforce ctx)"
    and "updates ctx \<or> (\<forall>c. Option.bind (view d (SolverDbId s)) (deser s) = Some c \<longrightarrow> \<not> IsValidPerformanceConfig s c)"
    and "searches ctx \<longrightarrow> (\<exists>e. SearchConfig s = Inl e)" "updates ctx \<longrightarrow> searches ctx"
  shows "FindSolutionImpl1 ctx db s d = (d, default_solution s)"
  using assms by (auto simp: FindSolutionImpl1_def load search_and_store_def split: option.splits)

lemma cleaned:
  assumes "inv d" "\<not> disable_perfdb_access ctx" "FindEnforce_IsDbClean (enforce ctx) (disable_enforce ctx)"
    and "id_ok (SolverDbId s)"
  shows "\<exists>d'. FindSolutionImpl1 ctx db s d = (d', default_solution s) \<and> inv d'
    \<and> view d' = (view d)(SolverDbId s := None) \<and> elsewhere d' = elsewhere d"
  using remove [OF assms(1,4)] assms(2,3) by (auto simp: FindSolutionImpl1_def)

text \<open>Tuning persists: after a run that searches, a run that does not uses what was found.\<close>

lemma tuning_persists:
  assumes "inv d" "\<not> disable_perfdb_access ctx" "\<not> FindEnforce_IsDbClean (enforce ctx) (disable_enforce ctx)"
    and "searches ctx" "updates ctx"
    and "SearchConfig s = Inr c" "GetSolution s c = Inr sol" "id_ok (SolverDbId s)" "values_ok (ser s c)"
    and "deser s (ser s c) = Some c" "IsValidPerformanceConfig s c"
    and "\<not> disable_perfdb_access ctx'" "\<not> FindEnforce_IsDbClean (enforce ctx') (disable_enforce ctx')"
    and "\<not> (searches ctx' \<and> updates ctx')"
  shows "\<exists>d'. FindSolutionImpl1 ctx db s d = (d', Inr sol) \<and> inv d'
    \<and> FindSolutionImpl1 ctx' db s d' = (d', Inr sol)
    \<and> view d' = (view d)(SolverDbId s \<mapsto> ser s c) \<and> elsewhere d' = elsewhere d"
proof -
  obtain d' where d': "FindSolutionImpl1 ctx db s d = (d', Inr sol)" "inv d'"
    "view d' = (view d)(SolverDbId s \<mapsto> ser s c)" "elsewhere d' = elsewhere d"
    using searched [OF assms(1-4) _ assms(6-9)] assms(5) by blast
  moreover have "FindSolutionImpl1 ctx' db s d' = (d', GetSolution s c)"
    by (rule uses_stored [OF d'(2) assms(12-14)]) (use d'(3) assms(10,11) in simp_all)
  ultimately show ?thesis using assms(7) by auto
qed

end

section \<open>The plain text database\<close>

text \<open>The database file used under one key, as the class \<open>PlainTextDb\<close> offers it to the finder.\<close>

definition text_perf_db :: "order \<Rightarrow> string \<Rightarrow> string \<Rightarrow> filesys perf_db" where
  "text_perf_db ord filename key =
     \<lparr>pd_load = (\<lambda>fs i. (fs, PlainTextDb_Load False True fs filename key i Some)),
      pd_update = (\<lambda>fs i v.
        (case PlainTextDb_Update False True ord fs filename key i id v of
           Inl e \<Rightarrow> (fs, Inl e)
         | Inr (fs', r) \<Rightarrow> (fs', Inr (r \<noteq> None)))),
      pd_remove = (\<lambda>fs i.
        (case PlainTextDb_Remove False True ord fs filename key i of
           Inl e \<Rightarrow> (fs, Inl e)
         | Inr (fs', ok) \<Rightarrow> (fs', Inr ok)))\<rparr>"

definition key_view :: "string \<Rightarrow> string \<Rightarrow> filesys \<Rightarrow> string \<rightharpoonup> string" where
  "key_view filename key fs = (case db_view filename fs key of None \<Rightarrow> Map.empty | Some m \<Rightarrow> m)"

definition other_keys :: "string \<Rightarrow> string \<Rightarrow> filesys \<Rightarrow> string \<rightharpoonup> (string \<rightharpoonup> string)" where
  "other_keys filename key fs = (db_view filename fs)(key := None)"

definition text_inv :: "order \<Rightarrow> string \<Rightarrow> string \<Rightarrow> filesys \<Rightarrow> bool" where
  "text_inv ord filename key fs \<longleftrightarrow>
     hash_order ord \<and> key_ok key \<and> db_inv filename fs \<and> can_write fs filename"


lemma FlushUnsafe_can_write:
  "can_write (fst (PlainTextDb_FlushUnsafe ord fs filename r pos)) filename = can_write fs filename"
  by (auto simp: PlainTextDb_FlushUnsafe_def can_write_def Let_def split: option.splits)

lemma text_load:
  assumes "text_inv ord filename key fs"
  shows "pd_load (text_perf_db ord filename key) fs i = (fs, Inr (key_view filename key fs i))"
proof -
  have "db_inv filename fs" using assms by (simp add: text_inv_def)
  note fv = FindRecordUnsafe_view(1) [OF this, of key]
  then show ?thesis
    by (auto simp: text_perf_db_def PlainTextDb_Load_def PlainTextDb_FindRecord_def key_view_def
        DbRecord_GetValuesT_def DbRecord_GetValues_def split: option.splits)
qed

lemma text_update:
  assumes "text_inv ord filename key fs" "id_ok i" "values_ok v"
  shows "\<exists>fs'. pd_update (text_perf_db ord filename key) fs i v = (fs', Inr True)
    \<and> text_inv ord filename key fs' \<and> key_view filename key fs' = (key_view filename key fs)(i \<mapsto> v)
    \<and> other_keys filename key fs' = other_keys filename key fs"
proof -
  note inv = assms(1) [unfolded text_inv_def]
  define r where "r = fst (DbRecord_SetValuesT id (DbRecord_of_key key) i v)"
  have "rec_wf (DbRecord_of_key key)" by (simp add: rec_wf_def DbRecord_of_key_def)
  then have r: "rec_wf r" "rec_key r = key" "rec_lookup r = [i \<mapsto> v]"
    using assms(2,3) by (simp_all add: r_def DbRecord_SetValuesT_def rec_wf_SetValues)
      (simp_all add: DbRecord_of_key_def)
  obtain fs' r' where u: "PlainTextDb_UpdateRecordUnsafe ord fs filename r = ((fs', True), r')"
    using UpdateRecordUnsafe_succeeds [of filename fs ord r] inv by (metis prod.collapse)
  have ok: "db_inv filename fs'" "rec_lookup r' = key_view filename key fs ++ [i \<mapsto> v]"
    "db_view filename fs' = put_view key (rec_lookup r') (db_view filename fs)"
    using UpdateRecordUnsafe_ok [OF _ r(1) _ _ u] inv r by (simp_all add: key_view_def)
  have "can_write fs' filename"
    using FlushUnsafe_can_write [of ord fs filename] u inv
    by (auto simp: PlainTextDb_UpdateRecordUnsafe_def Let_def split: prod.splits) (metis fst_conv)
  moreover have "pd_update (text_perf_db ord filename key) fs i v = (fs', Inr True)"
    using u by (simp add: text_perf_db_def PlainTextDb_Update_def PlainTextDb_UpdateRecord_def r_def [symmetric] Let_def)
  ultimately show ?thesis
    using ok inv by (auto simp: text_inv_def key_view_def other_keys_def put_view_def fun_eq_iff)
qed

lemma text_remove:
  assumes "text_inv ord filename key fs" "id_ok i"
  shows "\<exists>fs' b. pd_remove (text_perf_db ord filename key) fs i = (fs', Inr b)
    \<and> text_inv ord filename key fs' \<and> key_view filename key fs' = (key_view filename key fs)(i := None)
    \<and> other_keys filename key fs' = other_keys filename key fs"
proof (cases "fst (PlainTextDb_FindRecordUnsafe fs filename key)")
  case None
  note inv = assms(1) [unfolded text_inv_def]
  have "db_view filename fs key = None"
    using FindRecordUnsafe_view(1) [of filename fs key] None inv by simp
  with None assms(1) show ?thesis
    by (auto simp: text_perf_db_def PlainTextDb_Remove_def key_view_def)
next
  case (Some r)
  note inv = assms(1) [unfolded text_inv_def]
  have r: "db_view filename fs key = Some (rec_lookup r)" "rec_key r = key" "rec_wf r"
    using FindRecordUnsafe_view [of filename fs key] Some inv by auto
  show ?thesis
  proof (cases "rec_lookup r i")
    case None
    with Some r assms(1) show ?thesis
      by (auto simp: text_perf_db_def PlainTextDb_Remove_def DbRecord_EraseValues_def key_view_def)
  next
    case (Some v)
    let ?r' = "fst (DbRecord_EraseValues r i)"
    define res where "res = PlainTextDb_StoreRecordUnsafe ord fs filename ?r'"
    have "snd res"
      using FlushUnsafe_succeeds [of filename fs] inv
      by (simp add: res_def PlainTextDb_StoreRecordUnsafe_def Let_def)
    then obtain fs' where fs': "PlainTextDb_StoreRecordUnsafe ord fs filename ?r' = (fs', True)"
      unfolding res_def by (metis prod.collapse)
    have ok: "db_inv filename fs'" "db_view filename fs' = put_view key ((rec_lookup r)(i := None)) (db_view filename fs)"
      using StoreRecordUnsafe_ok [OF _ _ _ _ fs'] r inv by (simp_all add: rec_wf_EraseValues)
    have "can_write fs' filename"
      using FlushUnsafe_can_write [of ord fs filename] fs' inv
      by (auto simp: PlainTextDb_StoreRecordUnsafe_def Let_def) (metis fst_conv)
    moreover have "pd_remove (text_perf_db ord filename key) fs i = (fs', Inr True)"
      using fs' Some \<open>fst (PlainTextDb_FindRecordUnsafe fs filename key) = Some r\<close>
      by (simp add: text_perf_db_def PlainTextDb_Remove_def DbRecord_EraseValues_def)
    ultimately show ?thesis
      using ok inv r(1) by (auto simp: text_inv_def key_view_def other_keys_def put_view_def fun_eq_iff)
  qed
qed

interpretation text_tuning: tuning_db "text_perf_db ord filename key" "key_view filename key" "text_inv ord filename key"
  "other_keys filename key"
  for ord filename key
proof (unfold_locales, goal_cases)
  case (1 d i)
  then show ?case by (rule text_load)
next
  case (2 d i v)
  then show ?case using text_update [of ord filename key d i v] by auto
next
  case (3 d i)
  from text_remove [OF 3] obtain fs' b where "pd_remove (text_perf_db ord filename key) d i = (fs', Inr b)"
    "text_inv ord filename key fs'" "key_view filename key fs' = (key_view filename key d)(i := None)"
    "other_keys filename key fs' = other_keys filename key d"
    by (elim exE conjE)
  then show ?case by (intro exI conjI)
qed

section \<open>Failed searches and cleaning\<close>


text \<open>A solver with no parameters whose search always throws.\<close>

definition example_solver :: "(unit, nat) solver" where
  "example_solver = \<lparr>SolverDbId = ''ExampleSolver'', IsDynamic = False, IsApplicable = True, MayNeedWorkspace = True,
     GetWorkspaceSize = 64, searchable = True, GetDefaultPerformanceConfig = Inr (),
     IsValidPerformanceConfig = (\<lambda>_. True), SearchConfig = throw ''Search failed'', GetSolution = (\<lambda>_. Inr 7),
     GetSolution0 = throw [], ser = (\<lambda>_. ''1''), deser = (\<lambda>_. Some ())\<rparr>"

definition example_run :: "find_enforce \<Rightarrow> find_context" where
  "example_run e = \<lparr>disable_perfdb_access = False, do_search = True, db_update = True, enforce = e,
     disable_enforce = False, use_dynamic_solutions_only = False, find_only = None\<rparr>"

definition example_fs :: filesys where
  "example_fs = \<lparr>fs_files = Map.empty, fs_readable = (\<lambda>_. True), fs_writable = (\<lambda>_. True)\<rparr>"

lemma example_text_inv: "key_ok key \<Longrightarrow> text_inv rev ''db'' key example_fs"
  by (simp add: text_inv_def hash_order_rev db_inv_def db_lines_def can_write_def List.map_filter_def example_fs_def)


section \<open>The loops over the solvers\<close>

definition usable :: "find_context \<Rightarrow> ('c, 's) solver \<Rightarrow> bool" where
  "usable ctx s \<longleftrightarrow> \<not> skipped ctx s \<and> (use_dynamic_solutions_only ctx \<longrightarrow> IsDynamic s) \<and> IsApplicable s"

lemma GetWorkspaceSizes_acc:
  "length res \<le> limit \<Longrightarrow> GetWorkspaceSizes ctx limit ss res
    = take limit (res @ map (\<lambda>s. (SolverDbId s, GetWorkspaceSize s)) (filter (\<lambda>s. usable ctx s \<and> MayNeedWorkspace s) ss))"
proof (induction ss arbitrary: res)
  case (Cons s ss)
  show ?case
  proof (cases "length res = limit")
    case True
    with Cons show ?thesis by simp
  next
    case False
    with Cons.prems have l: "limit - length res = Suc (limit - Suc (length res))" by simp
    show ?thesis using Cons False by (auto simp: usable_def l)
  qed
qed simp

lemma IsAnySolverApplicable_acc:
  "IsAnySolverApplicable ctx ss found \<longleftrightarrow> found \<or> (\<exists>s \<in> set ss. usable ctx s)"
  by (induction ss arbitrary: found) (auto simp: usable_def)

lemma SearchForAllSolutions_acc:
  assumes "length ss \<le> limit" "SearchForAllSolutions ctx db succeeded limit solvers ss d = (d', Inr sols)"
  shows "\<exists>new. sols = ss @ new \<and> length sols \<le> limit \<and> (\<forall>x \<in> set new. succeeded (snd x))
    \<and> subseq (map fst new) (map SolverDbId (filter (usable ctx) solvers))"
  using assms
proof (induction solvers arbitrary: ss d)
  case (Cons s rest)
  show ?case
  proof (cases "length ss < limit \<and> usable ctx s")
    case False
    then have "SearchForAllSolutions ctx db succeeded limit rest ss d = (d', Inr sols)"
      using Cons.prems(2) by (auto simp: usable_def split: if_splits)
    from Cons.IH [OF Cons.prems(1) this] obtain new where n: "sols = ss @ new" "length sols \<le> limit"
      "\<forall>x \<in> set new. succeeded (snd x)" "subseq (map fst new) (map SolverDbId (filter (usable ctx) rest))" by blast
    then have "subseq (map fst new) (map SolverDbId (filter (usable ctx) (s # rest)))" by auto
    with n show ?thesis by blast
  next
    case True
    then obtain d1 sol where f: "FindSolution ctx db s d = (d1, Inr sol)"
      and rec: "SearchForAllSolutions ctx db succeeded limit rest (if succeeded (snd sol) then ss @ [sol] else ss) d1
        = (d', Inr sols)"
      using Cons.prems(2) by (auto simp: usable_def split: prod.splits sum.splits)
    have id: "fst sol = SolverDbId s" using f by (auto simp: FindSolution_def split: prod.splits sum.splits if_splits)
    have "length (if succeeded (snd sol) then ss @ [sol] else ss) \<le> limit" using True by simp
    from Cons.IH [OF this rec] obtain new where n: "sols = (if succeeded (snd sol) then ss @ [sol] else ss) @ new"
      "length sols \<le> limit" "\<forall>x \<in> set new. succeeded (snd x)"
      "subseq (map fst new) (map SolverDbId (filter (usable ctx) rest))" by blast
    show ?thesis
    proof (cases "succeeded (snd sol)")
      case s: True
      with n id True have "sols = ss @ (sol # new)"
        "subseq (map fst (sol # new)) (map SolverDbId (filter (usable ctx) (s # rest)))" by auto
      moreover have "\<forall>x \<in> set (sol # new). succeeded (snd x)" using n(3) s by simp
      ultimately show ?thesis using n(2) by blast
    next
      case False
      then have "sols = ss @ new" "subseq (map fst new) (map SolverDbId (filter (usable ctx) (s # rest)))"
        using n(1,4) by auto
      with n(2,3) show ?thesis by blast
    qed
  qed
qed simp

text \<open>The solutions of the solvers without parameters, for primitives other than convolutions.\<close>

definition solutions_of :: "find_context \<Rightarrow> ('s \<Rightarrow> bool) \<Rightarrow> ('c, 's) solver list \<Rightarrow> (string \<times> 's) list" where
  "solutions_of ctx succeeded solvers =
     List.map_filter (\<lambda>s. case GetSolution0 s of Inl _ \<Rightarrow> None
                       | Inr sol \<Rightarrow> if succeeded sol then Some (SolverDbId s, sol) else None)
       (filter (\<lambda>s. \<not> skipped ctx s \<and> IsApplicable s) solvers)"

definition own_solution :: "find_context \<Rightarrow> ('s \<Rightarrow> bool) \<Rightarrow> ('c, 's) solver \<Rightarrow> (string \<times> 's) list" where
  "own_solution ctx succeeded s =
     (if skipped ctx s \<or> \<not> IsApplicable s then []
      else case GetSolution0 s of Inl _ \<Rightarrow> [] | Inr sol \<Rightarrow> if succeeded sol then [(SolverDbId s, sol)] else [])"

lemma solutions_of_simps:
  "solutions_of ctx succeeded [] = []"
  "solutions_of ctx succeeded (s # rest) = own_solution ctx succeeded s @ solutions_of ctx succeeded rest"
  by (auto simp: solutions_of_def own_solution_def map_filter_simps split: sum.splits)

lemma SearchForSolutions_acc:
  "length ss \<le> limit \<Longrightarrow> SearchForSolutions ctx succeeded limit solvers ss = Inr sols \<Longrightarrow>
   sols = take limit (ss @ solutions_of ctx succeeded solvers)"
proof (induction solvers arbitrary: ss)
  case (Cons s rest)
  show ?case
  proof (cases "length ss = limit")
    case True
    then have "SearchForSolutions ctx succeeded limit rest ss = Inr sols" using Cons.prems by simp
    from Cons.IH [OF Cons.prems(1) this] True show ?thesis by simp
  next
    case False
    then have "SearchForSolutions ctx succeeded limit rest (ss @ own_solution ctx succeeded s) = Inr sols"
      "length (ss @ own_solution ctx succeeded s) \<le> limit"
      using Cons.prems by (auto simp: own_solution_def split: if_splits sum.splits)
    from Cons.IH [OF this(2,1)] show ?thesis by (simp only: solutions_of_simps append_assoc)
  qed
qed (simp add: solutions_of_simps)

text \<open>The loops of \<open>SolverContainer\<close> see the same solvers: those that are selected, dynamic where that is
  asked for, and applicable.  The workspace sizes are the first \<open>limit\<close> of them that may need a
  workspace, in order; some solver is applicable iff there is one; and a search for all solutions
  that does not throw returns at most \<open>limit\<close> solutions, all successful, in the order of the
  solvers; for solvers without parameters they are exactly the first \<open>limit\<close> successful ones.\<close>

theorem SolverContainer_loops:
  "GetWorkspaceSizes ctx limit solvers [] =
      take limit (map (\<lambda>s. (SolverDbId s, GetWorkspaceSize s)) (filter (\<lambda>s. usable ctx s \<and> MayNeedWorkspace s) solvers))
   \<and> (IsAnySolverApplicable ctx solvers False \<longleftrightarrow> filter (usable ctx) solvers \<noteq> [])
   \<and> (case SearchForAllSolutions ctx db succeeded limit solvers [] d of
        (d', Inl e) \<Rightarrow> True
      | (d', Inr sols) \<Rightarrow> length sols \<le> limit \<and> list_all (\<lambda>x. succeeded (snd x)) sols
          \<and> subseq (map fst sols) (map SolverDbId (filter (usable ctx) solvers)))
   \<and> (case SearchForSolutions ctx succeeded limit solvers [] of
        Inl e \<Rightarrow> True
      | Inr sols \<Rightarrow> sols = take limit (solutions_of ctx succeeded solvers))"
  using SearchForAllSolutions_acc [of "[]" limit ctx db succeeded solvers d]
    SearchForSolutions_acc [of "[]" limit ctx succeeded solvers]
  by (auto simp: GetWorkspaceSizes_acc IsAnySolverApplicable_acc filter_empty_conv list_all_iff
      split: prod.splits sum.splits)

end
