(* ===== verification/Tuning.thy ===== *)
theory Tuning
  imports Find_Solution Conv_Asm3x3u Generic_Search
begin

text \<open>
  The components together: \<open>ConvAsm3x3U\<close> as a solver whose search is \<open>GenericSearch\<close>, found through
  \<open>FindSolution\<close> with a plain text performance database under the key of the problem.
\<close>

section \<open>Configurations as database values\<close>

definition members3x3u :: "config3x3u \<Rightarrow> int list" where
  "members3x3u c = [limit_wave_cnt c, filters_per_wave c, output_lines_per_wave c]"

definition Serialize3x3u :: "config3x3u \<Rightarrow> string" where
  "Serialize3x3u c = PerfConfig_Serialize (members3x3u c)"

definition Deserialize3x3u :: "string \<Rightarrow> config3x3u option" where
  "Deserialize3x3u s = map_option config3x3u_of (PerfConfig_Deserialize (replicate 3 (-1)) s)"

interpretation codec3x3u: value_codec Serialize3x3u Deserialize3x3u IsValidValue3x3u
  unfolding Serialize3x3u_def Deserialize3x3u_def
  by (rule int_codec)
    (auto simp: members3x3u_def config3x3u_of_def config3x3u_new_def IsValidValue3x3u_ranges)

section \<open>The solver\<close>

definition Search3x3u ::
  "(config3x3u, 'f) tuning \<Rightarrow> 'f float_ops \<Rightarrow> conv_context \<Rightarrow> config3x3u result" where
  "Search3x3u T F ctx =
     (case GenericSearch T F SetNextValue3x3u (IsValid3x3u ctx) config3x3u_min (config3x3u_new (-1) (-1) (-1))
             (HeuristicInit3x3u ctx) of
        Some (Inr c) \<Rightarrow> Inr c
      | Some (Inl GpuOperationsSkipped) \<Rightarrow> throw_st miopenStatusGpuOperationsSkipped
          ''Running kernels on GPU is disabled. Search skipped''
      | _ \<Rightarrow> throw ''Search failed'')"

definition ConvAsm3x3U ::
  "bool \<Rightarrow> bool \<Rightarrow> string option \<Rightarrow> (config3x3u, 'f) tuning \<Rightarrow> 'f float_ops \<Rightarrow> conv_context
     \<Rightarrow> (config3x3u, kernel_info) solver" where
  "ConvAsm3x3U disabled use_v3 env T F ctx =
     \<lparr>SolverDbId = ComputeSolverDbId ''miopen::solver::ConvAsm3x3U'', IsDynamic = False, IsApplicable = IsApplicable3x3u disabled ctx,
      MayNeedWorkspace = False, GetWorkspaceSize = 0, searchable = True,
      GetDefaultPerformanceConfig = Inr (HeuristicInit3x3u ctx),
      IsValidPerformanceConfig = IsValidPerformanceConfig3x3u ctx,
      SearchConfig = Search3x3u T F ctx,
      GetSolution = (\<lambda>c. Inr (GetSolution3x3u use_v3 ctx (GetSolution3x3u_config Deserialize3x3u env ctx c))),
      GetSolution0 = throw [],
      ser = Serialize3x3u, deser = Deserialize3x3u\<rparr>"

section \<open>What a search returns\<close>

lemma Search3x3u_valid:
  assumes "float_order F" "get_solution T (HeuristicInit3x3u ctx) = Some ws"
    and "\<And>configs. set configs = {c. IsValid3x3u ctx c} \<Longrightarrow> finite_times T F ws configs"
    and "Search3x3u T F ctx = Inr c"
  shows "IsValidPerformanceConfig3x3u ctx c"
proof -
  obtain cs where cs: "GetAllConfigs SetNextValue3x3u (IsValid3x3u ctx) config3x3u_min = Some cs"
    "set cs = {c. IsValid3x3u ctx c}"
    using configs3x3u_enumerated [of ctx] by blast
  have "GenericSearch T F SetNextValue3x3u (IsValid3x3u ctx) config3x3u_min (config3x3u_new (-1) (-1) (-1))
      (HeuristicInit3x3u ctx) = Some (Inr c)"
    using assms(4) by (auto simp: Search3x3u_def split: option.splits sum.splits search_error.splits)
  then have "c \<in> set cs"
    using GenericSearch_Some [OF assms(1) cs(1) assms(2,3)] cs(2) by blast
  then show ?thesis using cs(2) IsValid3x3u_value by (simp add: IsValidPerformanceConfig3x3u_def)
qed

section \<open>Tuning persists\<close>

text \<open>A run that searches and updates, and a run that does neither but may read the database.\<close>

definition tuning_run :: "find_context \<Rightarrow> bool" where
  "tuning_run ctx \<longleftrightarrow> \<not> disable_perfdb_access ctx
     \<and> \<not> FindEnforce_IsDbClean (enforce ctx) (disable_enforce ctx) \<and> searches ctx \<and> updates ctx"

definition reading_run :: "find_context \<Rightarrow> bool" where
  "reading_run ctx \<longleftrightarrow> \<not> disable_perfdb_access ctx
     \<and> \<not> FindEnforce_IsDbClean (enforce ctx) (disable_enforce ctx) \<and> \<not> (searches ctx \<and> updates ctx)"

text \<open>C2: Tune once, use ever after.  When a tuning run of \<open>ConvAsm3x3U\<close> finds a configuration, the run
  returns the kernel of that configuration, which is valid for the problem; every later run that
  reads the database returns the same kernel without searching and changes nothing; and the
  records of all problems that differ in any size, layout, type, direction or group count are what
  they were.\<close>

theorem tuning3x3u_persists:
  fixes disabled use_v3 :: bool
  assumes "db_inv filename fs" "can_write fs filename" "hash_order ord" "wf_problem (conv_problem ctx)"
    and "float_order F" "get_solution T (HeuristicInit3x3u ctx) = Some ws"
    and "\<And>configs. set configs = {c. IsValid3x3u ctx c} \<Longrightarrow> finite_times T F ws configs"
    and "Search3x3u T F ctx = Inr c" "tuning_run run1" "reading_run run2"
  defines "db \<equiv> text_perf_db ord filename (Problem_Serialize (conv_problem ctx))"
    and "s \<equiv> ConvAsm3x3U disabled use_v3 None T F ctx"
  shows "IsValidPerformanceConfig3x3u ctx c \<and> (\<exists>fs'.
      FindSolution run1 db s fs = (fs', Inr (''ConvAsm3x3U'', GetSolution3x3u use_v3 ctx c))
    \<and> FindSolution run2 db s fs' = (fs', Inr (''ConvAsm3x3U'', GetSolution3x3u use_v3 ctx c))
    \<and> db_inv filename fs'
    \<and> (\<forall>q. wf_problem q \<longrightarrow> problem_view q \<noteq> problem_view (conv_problem ctx) \<longrightarrow>
          db_view filename fs' (Problem_Serialize q) = db_view filename fs (Problem_Serialize q)))"
proof -
  let ?key = "Problem_Serialize (conv_problem ctx)"
  have inv: "text_inv ord filename ?key fs"
    using assms(1-4) Serialize_key_ok by (simp add: text_inv_def)
  have valid: "IsValidPerformanceConfig3x3u ctx c"
    by (rule Search3x3u_valid [OF assms(5-8)])
  then have vv: "IsValidValue3x3u c" by (simp add: IsValidPerformanceConfig3x3u_def)
  have s: "SearchConfig s = Inr c" "SolverDbId s = ''ConvAsm3x3U''" "ser s = Serialize3x3u"
    "deser s = Deserialize3x3u" "IsValidPerformanceConfig s = IsValidPerformanceConfig3x3u ctx" "searchable s"
    and sol: "GetSolution s c = Inr (GetSolution3x3u use_v3 ctx c)"
    using assms(8) by (simp_all add: s_def ConvAsm3x3U_def GetSolution3x3u_config_def ComputeSolverDbId_def)
  have i: "id_ok (SolverDbId s)" by (simp add: s(2) id_ok_def)
  have v: "values_ok (ser s c)" "deser s (ser s c) = Some c" "IsValidPerformanceConfig s c"
    using codec3x3u.ser_clean [OF vv] codec3x3u.deser_ser [OF vv] valid by (simp_all add: s)
  obtain fs' where fs': "FindSolutionImpl1 run1 db s fs = (fs', Inr (GetSolution3x3u use_v3 ctx c))"
    "text_inv ord filename ?key fs'"
    "FindSolutionImpl1 run2 db s fs' = (fs', Inr (GetSolution3x3u use_v3 ctx c))"
    "other_keys filename ?key fs' = other_keys filename ?key fs"
    using text_tuning.tuning_persists [OF inv, of run1 s c "GetSolution3x3u use_v3 ctx c" run2]
      assms(9,10) s(1) sol i v unfolding tuning_run_def reading_run_def db_def by blast
  have "db_view filename fs' (Problem_Serialize q) = db_view filename fs (Problem_Serialize q)"
    if "wf_problem q" "problem_view q \<noteq> problem_view (conv_problem ctx)" for q
  proof -
    have "Problem_Serialize q \<noteq> ?key" using Serialize_eq_iff [OF that(1) assms(4)] that(2) by blast
    then show ?thesis using fun_cong [OF fs'(4), of "Problem_Serialize q"] by (simp add: other_keys_def)
  qed
  with fs' valid s show ?thesis by (auto simp: FindSolution_def text_inv_def)
qed

text \<open>Every configuration runs in 10 units of time.\<close>

definition even_tuning :: "(config3x3u, nat) tuning" where
  "even_tuning = \<lparr>get_solution = (\<lambda>c. Some 0), prepare = (\<lambda>c. True), run = (\<lambda>c i. Some 10),
     precompile = (\<lambda>_. True), default_run = Some 10, cache_disabled = False, compile_only = False\<rparr>"

definition search_run :: find_context where
  "search_run = \<lparr>disable_perfdb_access = False, do_search = True, db_update = True, enforce = Enforce_None,
     disable_enforce = False, use_dynamic_solutions_only = False, find_only = None\<rparr>"

definition plain_run :: find_context where
  "plain_run = search_run\<lparr>do_search := False, db_update := False\<rparr>"

lemma example_desc_wf: "wf_problem (example_desc 3 1)"
  by (simp add: wf_problem_def problem_sizes_def Let_def dims_of_def ints_of_def layout_ok_def example_desc_simps)

lemma even_tuning_search:
  "\<exists>c. Search3x3u even_tuning nat_floats (example_context 3 1) = Inr c"
proof -
  let ?ctx = "example_context 3 1"
  obtain cs where cs: "GetAllConfigs SetNextValue3x3u (IsValid3x3u ?ctx) config3x3u_min = Some cs"
    "set cs = {c. IsValid3x3u ?ctx c}"
    using configs3x3u_enumerated [of ?ctx] by blast
  have a: "average even_tuning nat_floats 0 c = Some 10" for c
    by (simp add: average_def even_tuning_def nat_floats_def)
  have f: "float_order nat_floats" by (auto simp: float_order_def nat_floats_def)
  have t: "finite_times even_tuning nat_floats 0 cs"
    by (simp add: finite_times_def a) (simp add: nat_floats_def even_tuning_def)
  define s where "s = fold (search_step even_tuning nat_floats 0) cs (search_init (config3x3u_new (-1) (-1) (-1)) nat_floats)"
  have inv: "search_inv even_tuning nat_floats 0 cs s" unfolding s_def by (rule search_inv_all [OF f t])
  have "config3x3u_new 5 4 8 \<in> set cs"
    using example_config3x3u by (simp add: cs(2) IsValidPerformanceConfig3x3u_def)
  then have "is_passed s" using search_invD(1) [OF inv _ a] by blast
  then have "GenericSearch even_tuning nat_floats SetNextValue3x3u (IsValid3x3u ?ctx) config3x3u_min
      (config3x3u_new (-1) (-1) (-1)) (HeuristicInit3x3u ?ctx) = Some (Inr (best_config s))"
    using cs(1) by (auto simp: GenericSearch_def Let_def s_def even_tuning_def list_all_iff)
  then show ?thesis by (simp add: Search3x3u_def)
qed

theorem tuning3x3u_persists_witness:
  "\<exists>c fs'. Search3x3u even_tuning nat_floats (example_context 3 1) = Inr c
    \<and> FindSolution plain_run (text_perf_db rev ''db'' (Problem_Serialize (example_desc 3 1)))
        (ConvAsm3x3U False True None even_tuning nat_floats (example_context 3 1)) fs'
      = (fs', Inr (''ConvAsm3x3U'', GetSolution3x3u True (example_context 3 1) c))"
proof -
  let ?ctx = "example_context 3 1"
  let ?fs = "\<lparr>fs_files = Map.empty, fs_readable = (\<lambda>_. True), fs_writable = (\<lambda>_. True)\<rparr>"
  obtain c where c: "Search3x3u even_tuning nat_floats ?ctx = Inr c" using even_tuning_search by blast
  have db: "db_inv ''db'' ?fs" "can_write ?fs ''db''"
    by (simp_all add: db_inv_def db_lines_def can_write_def List.map_filter_def)
  have wf: "wf_problem (conv_problem ?ctx)"
    unfolding example_context_fields by (rule example_desc_wf)
  have f: "float_order nat_floats" by (auto simp: float_order_def nat_floats_def)
  have g: "get_solution even_tuning (HeuristicInit3x3u ?ctx) = Some 0" by (simp add: even_tuning_def)
  have t: "finite_times even_tuning nat_floats 0 configs" for configs
    by (simp add: finite_times_def average_def) (simp add: nat_floats_def even_tuning_def)
  have r: "tuning_run search_run" "reading_run plain_run"
    by (simp_all add: tuning_run_def reading_run_def searches_def updates_def search_run_def plain_run_def
        FindEnforce_IsDbClean_def FindEnforce_IsSearch_def FindEnforce_IsDbUpdate_def)
  show ?thesis
    using tuning3x3u_persists [OF db hash_order_rev wf f g t c r, of False True] c
    unfolding example_context_fields by blast
qed

end
