(* ===== verification/Device_Numbers.thy ===== *)
theory Device_Numbers
  imports Prelude
begin

unbundle bit_operations_syntax

text \<open>
  Numbers the host prepares for the device: division by a constant without a division
  (\<open>src/include/miopen/magic_div.hpp\<close>), and the 16-bit floating-point format
  (\<open>src/include/miopen/bfloat16.hpp\<close>).
\<close>

section \<open>Division by multiplication\<close>

record magic_div_u32 =
  magic :: "32 word"
  shift :: nat

text \<open>The loop: the first \<open>shift\<close> below 32 with \<open>(1U << shift) >= d\<close>.\<close>

function shift_loop :: "32 word \<Rightarrow> nat \<Rightarrow> nat" where
  "shift_loop d s = (if s < 32 then if push_bit s 1 \<ge> d then s else shift_loop d (s + 1) else s)"
  by pat_completeness auto
termination by (relation "measure (\<lambda>(d, s). 32 - s)") auto

declare shift_loop.simps [simp del]

definition magic_div_u32_gen :: "32 word \<Rightarrow> magic_div_u32" where
  "magic_div_u32_gen d =
     (let s = shift_loop d 0;
          one = 1 :: 64 word;
          m = (push_bit 32 one * (push_bit s one - ucast d)) div ucast d + 1
      in \<lparr>magic = ucast m, shift = s\<rparr>)"

definition magic_div_mulhi_u32 :: "32 word \<Rightarrow> 32 word \<Rightarrow> 32 word" where
  "magic_div_mulhi_u32 x y = ucast (drop_bit 32 (ucast x * ucast y :: 64 word))"

definition magic_div_u32_do :: "32 word \<Rightarrow> magic_div_u32 \<Rightarrow> 32 word" where
  "magic_div_u32_do numer denom =
     (let tmp = magic_div_mulhi_u32 (magic denom) numer in drop_bit (shift denom) (tmp + numer))"

text \<open>Four shifts in one word.\<close>

definition magic_div_u32_pack_shift :: "8 word \<Rightarrow> 8 word \<Rightarrow> 8 word \<Rightarrow> 8 word \<Rightarrow> 32 word" where
  "magic_div_u32_pack_shift s0 s1 s2 s3 =
     push_bit 24 (ucast s3) OR push_bit 16 (ucast s2) OR push_bit 8 (ucast s1) OR ucast s0"

lemma shift_loop_least:
  assumes "unat d \<le> 2 ^ 31" "s \<le> 31" "\<forall>t < s. 2 ^ t < unat d"
  shows "shift_loop d s \<le> 31 \<and> unat d \<le> 2 ^ shift_loop d s \<and> (\<forall>t < shift_loop d s. 2 ^ t < unat d)"
  using assms(2,3)
proof (induction "32 - s" arbitrary: s)
  case (Suc n)
  have p: "unat (push_bit s 1 :: 32 word) = 2 ^ s"
    using Suc.prems(1) by (subst unsigned_push_bit_eq) (simp add: take_bit_nat_eq_self_iff)
  show ?case
  proof (cases "d \<le> push_bit s 1")
    case True
    then have "shift_loop d s = s" using Suc.prems(1) by (subst shift_loop.simps) simp
    moreover have "unat d \<le> 2 ^ s" using True p by (simp add: word_le_nat_alt)
    ultimately show ?thesis using Suc.prems by simp
  next
    case False
    then have l: "2 ^ s < unat d" using p by (simp add: word_le_nat_alt)
    then have "(2::nat) ^ s < 2 ^ 31" using assms(1) by (rule order_less_le_trans)
    then have "s < 31" by (rule power_less_imp_less_exp [rotated]) simp
    moreover have "shift_loop d s = shift_loop d (s + 1)"
      using False Suc.prems(1) by (subst shift_loop.simps) simp
    moreover have "\<forall>t < s + 1. 2 ^ t < unat d" using Suc.prems(2) l by (auto simp: less_Suc_eq)
    ultimately show ?thesis using Suc.hyps(1) [of "s + 1"] Suc.hyps(2) by simp
  qed
qed simp

text \<open>The arithmetic of the method.\<close>

lemma magic_quotient:
  fixes d n s :: nat
  assumes "0 < d" "d \<le> 2 ^ s" "n < 2 ^ 32"
  defines "m \<equiv> (2 ^ 32 * (2 ^ s - d)) div d + 1"
  shows "(m * n div 2 ^ 32 + n) div 2 ^ s = n div d"
proof -
  define M where "M = m + 2 ^ 32"
  have "2 ^ 32 * (2 ^ s - d) + 2 ^ 32 * d = (2 ^ 32 * 2 ^ s :: nat)"
    using assms(2) by (simp flip: distrib_left)
  then have "2 ^ 32 * 2 ^ s div d = (2 ^ 32 * (2 ^ s - d) + 2 ^ 32 * d) div d" by simp
  also have "\<dots> = 2 ^ 32 * (2 ^ s - d) div d + 2 ^ 32" using assms(1) by simp
  finally have M: "M = 2 ^ 32 * 2 ^ s div d + 1" by (simp add: M_def m_def)
  have "m * n div 2 ^ 32 + n = (m * n + n * 2 ^ 32) div 2 ^ 32" by simp
  also have "m * n + n * 2 ^ 32 = M * n" by (simp add: M_def algebra_simps)
  finally have e: "(m * n div 2 ^ 32 + n) div 2 ^ s = M * n div (2 ^ 32 * 2 ^ s)"
    by (simp add: div_mult2_eq)
  define P where "P = (2 ^ 32 * 2 ^ s :: nat)"
  have MP: "P < M * d" "M * d \<le> P + d"
  proof -
    have "P = P div d * d + P mod d" by simp
    moreover have "P mod d < d" using assms(1) by simp
    moreover have "M * d = P div d * d + d" by (simp add: M P_def)
    ultimately show "P < M * d" "M * d \<le> P + d" by linarith+
  qed
  define q where "q = n div d"
  have q: "q * d \<le> n" "n < (q + 1) * d"
    using assms(1) by (simp_all add: q_def) (metis add.commute dividend_less_times_div mult.commute mult_Suc_right)
  have "M * n div P = q"
  proof (rule div_nat_eqI)
    have "P * q * d \<le> P * n" using q(1) by simp
    also have "\<dots> \<le> M * d * n" using MP(1) by simp
    finally have "P * q * d \<le> M * n * d" by (simp add: ac_simps)
    then show "P * q \<le> M * n" using assms(1) by simp
    have "n + 1 \<le> (q + 1) * d" using q(2) by simp
    then have "P * (n + 1) \<le> P * ((q + 1) * d)" by (rule mult_left_mono) simp
    moreover have "M * d * n \<le> (P + d) * n" using MP(2) by simp
    moreover have "d * n < P"
    proof -
      have "d * n \<le> 2 ^ s * n" using assms(2) by simp
      also have "\<dots> < 2 ^ s * 2 ^ 32" using assms(3) by simp
      finally show ?thesis by (simp add: P_def mult.commute)
    qed
    ultimately have "M * n * d < P * (q + 1) * d" by (simp add: algebra_simps)
    then show "M * n < P * Suc q" by simp
  qed
  with e show ?thesis by (simp add: P_def q_def)
qed

text \<open>The words hold the numbers: neither the 64-bit product nor the 32-bit sum wraps.\<close>

lemma magic_fits:
  fixes d s :: nat
  assumes "0 < d" "d < 2 ^ 32" "d \<le> 2 ^ s" "\<forall>t < s. 2 ^ t < d"
  shows "2 ^ 32 * (2 ^ s - d) div d + 1 < 2 ^ 32"
proof -
  have "2 ^ s < 2 * d"
  proof (cases s)
    case 0
    with assms(1) show ?thesis by simp
  next
    case (Suc t)
    with assms(4) show ?thesis by simp
  qed
  then have "2 ^ s - d \<le> d - 1" by linarith
  then have "2 ^ 32 * (2 ^ s - d) \<le> 2 ^ 32 * (d - 1)" by (rule mult_le_mono2)
  also have "\<dots> < (2 ^ 32 - 1) * d"
    using assms(1,2) by (simp add: diff_mult_distrib2 diff_mult_distrib)
  finally have "2 ^ 32 * (2 ^ s - d) div d < 2 ^ 32 - 1"
    using assms(1) by (simp add: div_less_iff_less_mult)
  then show ?thesis by simp
qed

lemma unat_ucast_up: "unat (ucast (x :: 32 word) :: 64 word) = unat x"
  by (simp add: unsigned_ucast_eq take_bit_nat_eq_self_iff order_less_trans [OF unsigned_less])

lemma unat_hi: "unat (drop_bit k (w :: 'a :: len word)) = unat w div 2 ^ k"
  unfolding unat_drop_bit_eq by (rule drop_bit_eq_div)

lemma unat_magic:
  assumes "0 < unat d" "unat d < 2 ^ 31" "magic_div_u32_gen d = m"
  shows "shift m \<le> 31" "unat d \<le> 2 ^ shift m"
    "unat (magic m) = 2 ^ 32 * (2 ^ shift m - unat d) div unat d + 1"
proof -
  have s: "shift m = shift_loop d 0" using assms(3) by (auto simp: magic_div_u32_gen_def Let_def)
  have le: "shift m \<le> 31" "unat d \<le> 2 ^ shift m" "\<forall>t < shift m. 2 ^ t < unat d"
    using shift_loop_least [of d 0] assms(2) by (simp_all add: s)
  show "shift m \<le> 31" "unat d \<le> 2 ^ shift m" by (rule le)+
  have b: "(2::nat) ^ shift m \<le> 2 ^ 31" using le(1) by (intro power_increasing) simp_all
  have p: "unat (push_bit (shift m) 1 :: 64 word) = 2 ^ shift m"
    using le(1) by (subst unsigned_push_bit_eq) (simp add: take_bit_nat_eq_self_iff)
  have one: "unat (push_bit 32 1 :: 64 word) = 2 ^ 32" by (subst unsigned_push_bit_eq) simp
  have sub: "unat (push_bit (shift m) 1 - ucast d :: 64 word) = 2 ^ shift m - unat d"
    by (subst unat_sub, unfold word_le_nat_alt p unat_ucast_up) (rule le(2), rule refl)
  have prod: "2 ^ 32 * (2 ^ shift m - unat d) < 2 ^ 64"
  proof -
    have "2 ^ 32 * (2 ^ shift m - unat d) \<le> 2 ^ 32 * 2 ^ 31" using b by (intro mult_le_mono2) linarith
    then show ?thesis by simp
  qed
  have mul: "unat (push_bit 32 1 * (push_bit (shift m) 1 - ucast d) :: 64 word) = 2 ^ 32 * (2 ^ shift m - unat d)"
    unfolding unat_word_ariths one sub using prod by simp
  have dv: "unat (push_bit 32 1 * (push_bit (shift m) 1 - ucast d) div ucast d :: 64 word)
      = 2 ^ 32 * (2 ^ shift m - unat d) div unat d"
    by (simp only: unat_div mul unat_ucast_up)
  have fits: "2 ^ 32 * (2 ^ shift m - unat d) div unat d + 1 < 2 ^ 32"
    using magic_fits [OF assms(1) _ le(2,3)] assms(2) by simp
  have "unat (push_bit 32 1 * (push_bit (shift m) 1 - ucast d) div ucast d + 1 :: 64 word)
      = 2 ^ 32 * (2 ^ shift m - unat d) div unat d + 1"
    unfolding unat_word_ariths(1) dv using fits by simp
  then show "unat (magic m) = 2 ^ 32 * (2 ^ shift m - unat d) div unat d + 1"
    using assms(3) fits s by (auto simp: magic_div_u32_gen_def Let_def unsigned_ucast_eq take_bit_nat_eq_self_iff)
qed

text \<open>C25: The magic number and the shift divide exactly: for every divisor from 1 to 2 ^ 31 - 1 and every
  31-bit number the multiplication, addition and shift of the kernel give the quotient, although
  the sum is one of 32-bit words.\<close>

theorem magic_div_exact:
  assumes "0 < unat d" "unat d < 2 ^ 31" "unat n < 2 ^ 31"
  shows "unat (magic_div_u32_do n (magic_div_u32_gen d)) = unat n div unat d"
proof -
  define m where "m = magic_div_u32_gen d"
  note g = unat_magic [OF assms(1,2) m_def [symmetric]]
  have "unat (ucast (magic m) * ucast n :: 64 word) = unat (magic m) * unat n"
  proof -
    have "unat (magic m) * unat n < 2 ^ 32 * 2 ^ 31"
      using unsigned_less [of "magic m", where ?'a = nat] assms(3) by (intro mult_strict_mono) simp_all
    then show ?thesis unfolding unat_word_ariths unat_ucast_up by simp
  qed
  moreover have "unat (magic m) * unat n div 2 ^ 32 \<le> unat n"
  proof -
    have "unat (magic m) * unat n \<le> 2 ^ 32 * unat n"
      using unsigned_less [of "magic m", where ?'a = nat] by (intro mult_le_mono1) simp
    then show ?thesis by (metis div_le_mono nonzero_mult_div_cancel_left power_not_zero zero_neq_numeral)
  qed
  ultimately have t: "unat (magic_div_mulhi_u32 (magic m) n) = unat (magic m) * unat n div 2 ^ 32"
    "unat (magic m) * unat n div 2 ^ 32 \<le> unat n"
    using unsigned_less [of n, where ?'a = nat]
    by (simp_all add: magic_div_mulhi_u32_def unsigned_ucast_eq unat_hi take_bit_nat_eq_self_iff)
  have "unat (magic_div_mulhi_u32 (magic m) n + n) = unat (magic m) * unat n div 2 ^ 32 + unat n"
    unfolding unat_word_ariths t(1) using t(2) assms(3) by simp
  then have "unat (magic_div_u32_do n m) = (unat (magic m) * unat n div 2 ^ 32 + unat n) div 2 ^ shift m"
    by (simp only: magic_div_u32_do_def Let_def unat_hi)
  also have "\<dots> = unat n div unat d"
    unfolding g(3) by (rule magic_quotient) (use assms g(2) in simp_all)
  finally show ?thesis by (simp add: m_def)
qed

theorem magic_div_exact_witness: "unat (magic_div_u32_do 2147483647 (magic_div_u32_gen 7)) = 306783378"
  using magic_div_exact [of 7 2147483647] by simp


section \<open>The 16-bit floating-point format\<close>

text \<open>\<open>class bfloat16\<close>: the upper half of a 32-bit float. The constructor from a float, over the bits of
  its argument; \<open>rne\<close> is the build setting \<open>MIOPEN_USE_RNE_BFLOAT16\<close>.\<close>

definition bf16_of_float :: "bool \<Rightarrow> 32 word \<Rightarrow> 16 word" where
  "bf16_of_float rne x =
     (let y = (if NOT x AND 0x7f800000 = 0
               then (if x AND 0xffff \<noteq> 0 then x OR 0x10000 else x)
               else (if rne then x + (0x7fff + (drop_bit 16 x AND 1)) else x))
      in ucast (drop_bit 16 y))"

text \<open>\<open>operator float\<close>.\<close>

definition float_of_bf16 :: "16 word \<Rightarrow> 32 word" where
  "float_of_bf16 b = push_bit 16 (ucast b)"

text \<open>\<open>operator-\<close>: the negation of a float flips its sign bit.\<close>

definition bf16_neg :: "bool \<Rightarrow> 16 word \<Rightarrow> 16 word" where
  "bf16_neg rne b = bf16_of_float rne (float_of_bf16 b XOR 0x80000000)"

text \<open>\<open>std::numeric_limits<bfloat16>\<close>.\<close>

definition bf16_min :: "16 word" where "bf16_min = 0x007F"
definition bf16_max :: "16 word" where "bf16_max = 0x7F7F"
definition bf16_lowest :: "16 word" where "bf16_lowest = 0xFF7F"
definition bf16_epsilon :: "16 word" where "bf16_epsilon = 0x3C00"
definition bf16_infinity :: "16 word" where "bf16_infinity = 0x7F80"
definition bf16_quiet_NaN :: "16 word" where "bf16_quiet_NaN = 0x7FC0"
definition bf16_signaling_NaN :: "16 word" where "bf16_signaling_NaN = 0x7FC0"
definition bf16_denorm_min :: "16 word" where "bf16_denorm_min = 0"

subsection \<open>What a pattern stands for\<close>

text \<open>The magnitude of a float with the bits \<open>n\<close> below the sign, in units of the least subnormal: the
  fraction field, with the hidden bit and the exponent. The patterns of the infinities continue the scale.\<close>

definition fmag :: "nat \<Rightarrow> nat" where
  "fmag n = (if n div 2 ^ 23 = 0 then n else (2 ^ 23 + n mod 2 ^ 23) * 2 ^ (n div 2 ^ 23 - 1))"

definition fval :: "32 word \<Rightarrow> int" where
  "fval x = (if unat x < 2 ^ 31 then int (fmag (unat x)) else - int (fmag (unat x - 2 ^ 31)))"

definition float_exp :: "32 word \<Rightarrow> nat" where
  "float_exp x = unat x div 2 ^ 23 mod 2 ^ 8"

definition float_isfinite :: "32 word \<Rightarrow> bool" where
  "float_isfinite x \<longleftrightarrow> float_exp x \<noteq> 255"

definition float_isnan :: "32 word \<Rightarrow> bool" where
  "float_isnan x \<longleftrightarrow> float_exp x = 255 \<and> unat x mod 2 ^ 23 \<noteq> 0"

lemma float_exp_all_ones: "NOT x AND 0x7f800000 = 0 \<longleftrightarrow> float_exp x = 255"
proof -
  have "NOT x AND push_bit 23 (mask 8) = 0 \<longleftrightarrow> take_bit 8 (drop_bit 23 x) = mask 8"
  proof
    assume z: "NOT x AND push_bit 23 (mask 8) = 0"
    have "bit x (23 + i)" if "i < 8" for i
      using arg_cong [OF z, of "\<lambda>w. bit w (23 + i)"] that by (simp add: bit_simps)
    then show "take_bit 8 (drop_bit 23 x) = mask 8" by (intro bit_word_eqI) (auto simp: bit_simps add.commute)
  next
    assume z: "take_bit 8 (drop_bit 23 x) = mask 8"
    have "bit x (23 + i)" if "i < 8" for i
      using arg_cong [OF z, of "\<lambda>w. bit w i"] that by (simp add: bit_simps add.commute)
    then have "bit x i" if "23 \<le> i" "i - 23 < 8" for i using that by (metis le_add_diff_inverse)
    then show "NOT x AND push_bit 23 (mask 8) = 0" by (intro bit_word_eqI) (auto simp: bit_simps)
  qed
  also have "\<dots> \<longleftrightarrow> unat (take_bit 8 (drop_bit 23 x)) = unat (mask 8 :: 32 word)" by (rule word_unat_eq_iff)
  also have "unat (take_bit 8 (drop_bit 23 x)) = float_exp x"
    unfolding unsigned_take_bit_eq unat_hi float_exp_def by (rule take_bit_eq_mod)
  finally show ?thesis by (simp add: mask_eq_exp_minus_1)
qed

lemma fmag_Suc: "fmag (Suc n) = fmag n + 2 ^ (n div 2 ^ 23 - 1)"
proof (cases "Suc n mod 2 ^ 23 = 0")
  case True
  then have d: "Suc n div 2 ^ 23 = Suc (n div 2 ^ 23)" by (simp add: div_Suc)
  have m: "n mod 2 ^ 23 = 2 ^ 23 - 1" using True by (simp add: mod_Suc split: if_splits)
  show ?thesis
  proof (cases "n div 2 ^ 23")
    case 0
    then have "n = 2 ^ 23 - 1" using m by (metis div_mult_mod_eq add_0 mult_0)
    then show ?thesis by (simp add: fmag_def)
  next
    case (Suc e)
    then show ?thesis unfolding fmag_def d m True by simp
  qed
next
  case False
  then have d: "Suc n div 2 ^ 23 = n div 2 ^ 23" by (simp add: div_Suc)
  have m: "Suc n mod 2 ^ 23 = Suc (n mod 2 ^ 23)" using False by (simp add: mod_Suc split: if_splits)
  show ?thesis unfolding fmag_def d m by (simp add: algebra_simps)
qed

lemma fmag_add: "n mod 2 ^ 23 + j \<le> 2 ^ 23 \<Longrightarrow> fmag (n + j) = fmag n + j * 2 ^ (n div 2 ^ 23 - 1)"
proof (induction j)
  case (Suc j)
  have "(n + j) div 2 ^ 23 = n div 2 ^ 23"
  proof -
    have "n + j = (n mod 2 ^ 23 + j) + n div 2 ^ 23 * 2 ^ 23" by simp
    then show ?thesis using Suc.prems by (metis Suc_le_lessD add_Suc_right div_mult_self1 div_less add.left_neutral add.commute power_not_zero zero_neq_numeral)
  qed
  then show ?case using Suc by (simp add: fmag_Suc)
qed simp

lemma fmag_mono: "m \<le> n \<Longrightarrow> fmag m \<le> fmag n"
  by (rule lift_Suc_mono_le [where f = fmag]) (simp_all add: fmag_Suc)

lemma fmag_0 [simp]: "fmag 0 = 0"
  by (simp add: fmag_def)


subsection \<open>Rounding\<close>

lemma unat_upper_half: "unat (ucast (drop_bit 16 (y :: 32 word)) :: 16 word) = unat y div 2 ^ 16"
proof -
  have "unat y div 2 ^ 16 < 2 ^ 16" using unsigned_less [of y, where ?'a = nat] by simp
  then show ?thesis by (simp only: unsigned_ucast_eq unat_hi len_num1 len_bit0) (simp add: take_bit_nat_eq_self_iff)
qed

lemma unat_float_of_bf16: "unat (float_of_bf16 b) = unat b * 2 ^ 16"
proof -
  have b: "unat b < 2 ^ 16" using unsigned_less [of b, where ?'a = nat] by simp
  then have "unat (ucast b :: 32 word) = unat b" by (simp add: unsigned_ucast_eq take_bit_nat_eq_self_iff)
  then show ?thesis unfolding float_of_bf16_def unsigned_push_bit_eq
    using b by (simp add: push_bit_eq_mult take_bit_nat_eq_self_iff)
qed

lemma finite_bound:
  assumes "float_isfinite x"
  shows "unat x mod 2 ^ 31 < 255 * 2 ^ 23" "unat x < 511 * 2 ^ 23"
proof -
  define q where "q = unat x div 2 ^ 23"
  have f: "q mod 256 \<noteq> 255" using assms by (simp add: q_def float_isfinite_def float_exp_def)
  have "unat x < 2 ^ 32" using unsigned_less [of x, where ?'a = nat] by simp
  then have q: "q < 512" by (simp add: q_def)
  have n: "unat x = q * 8388608 + unat x mod 8388608" by (simp add: q_def)
  have r: "unat x mod 8388608 < 8388608" by simp
  have "q \<noteq> 511" using f by auto
  with q have "q \<le> 510" by simp
  with n r have "unat x < 511 * 8388608" by linarith
  then show "unat x < 511 * 2 ^ 23" by simp
  have "q mod 256 < 256" by simp
  with f have "q mod 256 \<le> 254" by linarith
  moreover have "unat x mod (2 ^ 23 * 2 ^ 8) = 2 ^ 23 * (q mod 256) + unat x mod 2 ^ 23"
    by (subst mod_mult2_eq) (simp add: q_def)
  ultimately show "unat x mod 2 ^ 31 < 255 * 2 ^ 23" using r by simp
qed

lemma unat_bf16_trunc: "float_isfinite x \<Longrightarrow> unat (bf16_of_float False x) = unat x div 2 ^ 16"
  unfolding bf16_of_float_def Let_def float_exp_all_ones float_isfinite_def
  by (simp only: if_False unat_upper_half)

lemma unat_bf16_rne:
  assumes "float_isfinite x"
  shows "unat (bf16_of_float True x) = (unat x + (0x7fff + unat x div 2 ^ 16 mod 2)) div 2 ^ 16"
proof -
  have "unat (drop_bit 16 x AND 1) = unat x div 2 ^ 16 mod 2"
    by (simp only: and_one_eq unat_mod unat_hi) simp
  moreover have "unat x div 2 ^ 16 mod 2 < 2" by simp
  ultimately have "unat (x + (0x7fff + (drop_bit 16 x AND 1))) = unat x + (0x7fff + unat x div 2 ^ 16 mod 2)"
    using finite_bound(2) [OF assms] unfolding unat_word_ariths by simp
  with assms show ?thesis
    unfolding bf16_of_float_def Let_def float_exp_all_ones float_isfinite_def
    by (simp only: if_False if_True unat_upper_half)
qed


text \<open>Between two neighbouring 16-bit patterns the magnitudes lie on a line.\<close>

lemma fmag_line:
  fixes m :: nat
  defines "h \<equiv> m div 65536" and "l \<equiv> m mod 65536"
  obtains k where "0 < k" "fmag m = fmag (h * 65536) + l * k" "fmag (Suc h * 65536) = fmag (h * 65536) + 65536 * k"
proof
  have "2 ^ 23 = (128 * 65536 :: nat)" by simp
  then have "h * 65536 mod 2 ^ 23 = (h mod 128) * 65536" by (metis mod_mult_mult2)
  moreover have "h mod 128 < 128" by simp
  ultimately have le: "h * 65536 mod 2 ^ 23 + 65536 \<le> 2 ^ 23" by simp
  have "l < 65536" by (simp add: l_def)
  with le have ll: "h * 65536 mod 2 ^ 23 + l \<le> 2 ^ 23" by simp
  have "m = h * 65536 + l" by (simp add: h_def l_def)
  with fmag_add [OF ll] show "fmag m = fmag (h * 65536) + l * 2 ^ (h * 65536 div 2 ^ 23 - 1)" by simp
  show "fmag (Suc h * 65536) = fmag (h * 65536) + 65536 * 2 ^ (h * 65536 div 2 ^ 23 - 1)"
    using fmag_add [OF le] by (simp add: add.commute)
qed simp

lemma fmag_strict: "m < n \<Longrightarrow> fmag m < fmag n"
  using fmag_mono [of "Suc m" n] fmag_Suc [of m] by (simp add: Suc_le_eq) (metis less_le_trans less_add_same_cancel1 zero_less_numeral zero_less_power)

lemma rne_nearest:
  fixes m :: nat
  defines "R \<equiv> (m + (0x7fff + m div 65536 mod 2)) div 65536"
  defines "D \<equiv> (\<lambda>B. \<bar>int (fmag m) - int (fmag (B * 65536))\<bar>)"
  shows "D R \<le> D B" "D R = D B \<Longrightarrow> B \<noteq> R \<Longrightarrow> even R"
proof -
  define h where "h = m div 65536"
  define l where "l = m mod 65536"
  obtain k where k: "0 < k" "fmag m = fmag (h * 65536) + l * k" "fmag (Suc h * 65536) = fmag (h * 65536) + 65536 * k"
    using fmag_line [of m] unfolding h_def l_def by blast
  have l: "l < 65536" by (simp add: l_def)
  have "m = h * 65536 + l" by (simp add: h_def l_def)
  then have R: "R = h + (l + 0x7fff + h mod 2) div 65536"
    by (simp add: R_def l add.assoc)
  have Dh: "D h = int (l * k)" by (simp add: D_def k(2))
  have DS: "D (Suc h) = int ((65536 - l) * k)"
  proof -
    have "l * k \<le> 65536 * k" using l by (intro mult_le_mono1) simp
    then show ?thesis unfolding D_def k(2,3) diff_mult_distrib by linarith
  qed
  have below: "D h \<le> D B \<and> (B \<noteq> h \<longrightarrow> D h < D B)" if "B \<le> h"
    using that fmag_strict [of "B * 65536" "h * 65536"] by (cases "B = h") (auto simp: D_def k(2))
  have above: "D (Suc h) \<le> D B \<and> (B \<noteq> Suc h \<longrightarrow> D (Suc h) < D B)" if "Suc h \<le> B"
  proof (cases "B = Suc h")
    case False
    with that have "fmag (Suc h * 65536) < fmag (B * 65536)" by (intro fmag_strict) simp
    moreover have "l * k \<le> 65536 * k" using l by (intro mult_le_mono1) simp
    ultimately show ?thesis unfolding D_def using k(2,3) by linarith
  qed simp
  consider "l < 32768" | "l = 32768" | "32768 < l" by linarith
  then have "D R \<le> D B \<and> (D R = D B \<longrightarrow> B \<noteq> R \<longrightarrow> even R)"
  proof cases
    case 1
    then have "R = h" by (simp add: R)
    moreover have "D h < D (Suc h)" unfolding Dh DS of_nat_less_iff using 1 k(1) by (intro mult_strict_right_mono) simp_all
    ultimately show ?thesis using below above by (cases "B \<le> h") fastforce+
  next
    case 2
    then have "even R" unfolding R by (cases "even h") (simp_all add: mod2_eq_if)
    moreover have "D h = D (Suc h)" unfolding Dh DS using 2 by simp
    moreover have "R = h \<or> R = Suc h" unfolding R using 2 by (cases "even h") (simp_all add: mod2_eq_if)
    ultimately show ?thesis using below above by (cases "B \<le> h") fastforce+
  next
    case 3
    then have "R = Suc h" using l by (simp add: R)
    moreover have "D (Suc h) < D h" unfolding Dh DS of_nat_less_iff using 3 l k(1) by (intro mult_strict_right_mono) simp_all
    ultimately show ?thesis using below above by (cases "B \<le> h") fastforce+
  qed
  then show "D R \<le> D B" "D R = D B \<Longrightarrow> B \<noteq> R \<Longrightarrow> even R" by blast+
qed


lemma fval_sign:
  assumes "n < 2 ^ 31" "unat x = n \<or> unat x = 2 ^ 31 + n"
  shows "fval x = (if unat x < 2 ^ 31 then int (fmag n) else - int (fmag n))"
  using assms by (auto simp: fval_def)

lemma sign_split:
  fixes w :: nat
  assumes "w < 2 * s"
  obtains n where "n < s" "w = n \<or> w = s + n" "w < s \<longleftrightarrow> w = n"
  using assms by (cases "w < s") (auto intro: that [of w] that [of "w - s"])

lemma bf16_magnitude:
  fixes b :: "16 word"
  obtains B where "B < 2 ^ 15" "unat b = B \<or> unat b = 2 ^ 15 + B"
    "fval (float_of_bf16 b) = (if unat b < 2 ^ 15 then int (fmag (B * 65536)) else - int (fmag (B * 65536)))"
proof -
  have "unat b < 2 * 2 ^ 15" using unsigned_less [of b, where ?'a = nat] by simp
  then obtain B where B: "B < 2 ^ 15" "unat b = B \<or> unat b = 2 ^ 15 + B" by (rule sign_split)
  have "B * 65536 < 2 ^ 31" "unat (float_of_bf16 b) = B * 65536 \<or> unat (float_of_bf16 b) = 2 ^ 31 + B * 65536"
    using B by (auto simp: unat_float_of_bf16)
  note fval_sign [OF this]
  moreover have "unat (float_of_bf16 b) < 2 ^ 31 \<longleftrightarrow> unat b < 2 ^ 15" by (simp add: unat_float_of_bf16)
  ultimately show ?thesis using that B by simp
qed

lemma bf16_rne_magnitude:
  assumes "float_isfinite x"
  obtains m where "m < 2 ^ 31" "fval x = (if unat x < 2 ^ 31 then int (fmag m) else - int (fmag m))"
    "unat (bf16_of_float True x) = (m + (0x7fff + m div 65536 mod 2)) div 65536 + (if unat x < 2 ^ 31 then 0 else 2 ^ 15)"
    "(m + (0x7fff + m div 65536 mod 2)) div 65536 < 2 ^ 15"
proof -
  have "unat x < 2 * 2 ^ 31" using unsigned_less [of x, where ?'a = nat] by simp
  then obtain m where m: "m < 2 ^ 31" "unat x = m \<or> unat x = 2 ^ 31 + m" "unat x < 2 ^ 31 \<longleftrightarrow> unat x = m"
    by (rule sign_split)
  have lt: "m < 255 * 2 ^ 23" using m finite_bound(1) [OF assms] by auto
  have "m div 65536 mod 2 < 2" by simp
  with lt have "m + (0x7fff + m div 65536 mod 2) < 2 ^ 15 * 65536" by simp
  then have 1: "(m + (0x7fff + m div 65536 mod 2)) div 65536 < 2 ^ 15" by (rule less_mult_imp_div_less)
  have 2: "unat (bf16_of_float True x) = (m + (0x7fff + m div 65536 mod 2)) div 65536 + (if unat x < 2 ^ 31 then 0 else 2 ^ 15)"
  proof (cases "unat x < 2 ^ 31")
    case True
    with m(3) have "unat x = m" by simp
    with True show ?thesis unfolding unat_bf16_rne [OF assms] by simp
  next
    case False
    with m(2,3) have e: "unat x = m + 32768 * 65536" by simp
    have "unat x div 65536 = m div 65536 + 32768" unfolding e by simp
    then have "unat x div 65536 mod 2 = m div 65536 mod 2" by (metis even_add even_numeral mod2_eq_if)
    then have "unat x + (0x7fff + unat x div 65536 mod 2) = (m + (0x7fff + m div 65536 mod 2)) + 32768 * 65536"
      using e by simp
    then have "(unat x + (0x7fff + unat x div 65536 mod 2)) div 65536 = (m + (0x7fff + m div 65536 mod 2)) div 65536 + 32768"
      by (simp only: div_mult_self1 [of 65536 _ 32768])
    with False show ?thesis unfolding unat_bf16_rne [OF assms] by simp
  qed
  show ?thesis using that [OF m(1) fval_sign [OF m(1,2)] 2 1] .
qed


text \<open>C26: The conversion of a finite float rounds to nearest: no \<open>bfloat16\<close> is nearer to the float, and when
  another one is as near, the chosen one has an even fraction. Finite patterns and those of the
  infinities, which continue the scale, are compared by their values.\<close>

theorem bf16_nearest:
  assumes "float_isfinite x"
  defines "r \<equiv> bf16_of_float True x"
  shows "\<bar>fval x - fval (float_of_bf16 r)\<bar> \<le> \<bar>fval x - fval (float_of_bf16 b)\<bar> \<and>
    (\<bar>fval x - fval (float_of_bf16 r)\<bar> = \<bar>fval x - fval (float_of_bf16 b)\<bar> \<longrightarrow> b \<noteq> r \<longrightarrow> even (unat r))"
proof -
  obtain m where m: "fval x = (if unat x < 2 ^ 31 then int (fmag m) else - int (fmag m))"
    and r: "unat r = (m + (0x7fff + m div 65536 mod 2)) div 65536 + (if unat x < 2 ^ 31 then 0 else 2 ^ 15)"
    and lt: "(m + (0x7fff + m div 65536 mod 2)) div 65536 < 2 ^ 15"
    using bf16_rne_magnitude [OF assms(1)] unfolding r_def by blast
  define R where "R = (m + (0x7fff + m div 65536 mod 2)) div 65536"
  define D where "D B = \<bar>int (fmag m) - int (fmag (B * 65536))\<bar>" for B
  note near = rne_nearest [of m, folded R_def, folded D_def]
  obtain R' where R': "unat r = R' \<or> unat r = 2 ^ 15 + R'" "R' < 2 ^ 15"
    "fval (float_of_bf16 r) = (if unat r < 2 ^ 15 then int (fmag (R' * 65536)) else - int (fmag (R' * 65536)))"
    by (rule bf16_magnitude [of r]) blast
  have RR: "R' = R" "unat r < 2 ^ 15 \<longleftrightarrow> unat x < 2 ^ 31"
    using R'(1,2) r lt by (auto simp: R_def [symmetric] split: if_splits)
  have dr: "\<bar>fval x - fval (float_of_bf16 r)\<bar> = D R" using R'(3) m RR by (auto simp: D_def)
  have ev: "even (unat r) \<longleftrightarrow> even R" using r by (simp add: R_def [symmetric])
  obtain B where B: "unat b = B \<or> unat b = 2 ^ 15 + B" "B < 2 ^ 15"
    "fval (float_of_bf16 b) = (if unat b < 2 ^ 15 then int (fmag (B * 65536)) else - int (fmag (B * 65536)))"
    by (rule bf16_magnitude [of b]) blast
  show ?thesis
  proof (cases "unat b < 2 ^ 15 \<longleftrightarrow> unat r < 2 ^ 15")
    case True
    have "\<bar>fval x - fval (float_of_bf16 b)\<bar> = D B" using B(3) m True RR by (auto simp: D_def)
    moreover have "B = R \<Longrightarrow> b = r" using B(1,2) R'(1,2) RR True by (auto simp: word_unat_eq_iff)
    ultimately show ?thesis using near [of B] dr ev by auto
  next
    case False
    have "\<bar>fval x - fval (float_of_bf16 b)\<bar> = int (fmag m) + int (fmag (B * 65536))" using B(3) m False RR by auto
    moreover have "D 0 = int (fmag m)" by (simp add: D_def)
    ultimately show ?thesis using near [of 0] dr ev by (cases "R = 0") auto
  qed
qed

lemma upper_half_back: "ucast (drop_bit 16 (float_of_bf16 b)) = b"
  unfolding word_unat_eq_iff unat_upper_half unat_float_of_bf16 by simp

lemma bf16_back: "bf16_of_float rne (float_of_bf16 b) = b"
proof (cases "float_isfinite (float_of_bf16 b)")
  case True
  have "unat (bf16_of_float rne (float_of_bf16 b)) = unat b"
  proof (cases rne)
    case True
    have "(unat b * 65536 + (32767 + unat b mod 2)) div 65536 = unat b"
      by (subst div_add1_eq) (cases "even (unat b)"; simp add: even_iff_mod_2_eq_zero odd_iff_mod_2_eq_one)
    with True unat_bf16_rne [OF \<open>float_isfinite (float_of_bf16 b)\<close>] show ?thesis by (simp add: unat_float_of_bf16)
  next
    case False
    with unat_bf16_trunc [OF \<open>float_isfinite (float_of_bf16 b)\<close>] show ?thesis by (simp add: unat_float_of_bf16)
  qed
  then show ?thesis by (simp add: word_unat_eq_iff)
next
  case False
  have "float_of_bf16 b AND mask 16 = 0"
    unfolding float_of_bf16_def by (intro bit_word_eqI) (simp add: bit_simps)
  then have "float_of_bf16 b AND 0xffff = 0" by (simp add: mask_eq_exp_minus_1)
  with False show ?thesis
    unfolding bf16_of_float_def Let_def float_exp_all_ones float_isfinite_def
    by (simp only: if_True if_False not_not simp_thms upper_half_back)
qed

text \<open>Every \<open>bfloat16\<close> comes back from its float, infinities and NaNs included, whichever rounding is built.\<close>

theorem bf16_roundtrip: "bf16_of_float rne (float_of_bf16 b) = b"
  by (rule bf16_back)

lemma bf16_nearest_witness: "float_isfinite 0x3f818000 \<and> \<bar>fval 0x3f818000 - fval (float_of_bf16 0x3f82)\<bar> \<le> \<bar>fval 0x3f818000 - fval (float_of_bf16 0x3f81)\<bar>"
proof -
  have f: "float_isfinite 0x3f818000" by (simp add: float_isfinite_def float_exp_def)
  have "bf16_of_float True 0x3f818000 = 0x3f82" by (simp add: bf16_of_float_def drop_bit_eq_div)
  with f bf16_nearest [OF f, of "0x3f81"] show ?thesis by simp
qed


subsection \<open>Infinities, NaNs and the limits\<close>

lemma float_exp_bits: "float_exp x = 255 \<longleftrightarrow> (\<forall>i. 23 \<le> i \<longrightarrow> i < 31 \<longrightarrow> bit x i)"
proof -
  have "float_exp x = 255 \<longleftrightarrow> NOT x AND push_bit 23 (mask 8) = 0"
    unfolding float_exp_all_ones [symmetric] by (simp add: mask_eq_exp_minus_1)
  also have "\<dots> \<longleftrightarrow> (\<forall>i. 23 \<le> i \<longrightarrow> i < 31 \<longrightarrow> bit x i)"
  proof
    assume z: "NOT x AND push_bit 23 (mask 8) = 0"
    show "\<forall>i. 23 \<le> i \<longrightarrow> i < 31 \<longrightarrow> bit x i"
    proof (intro allI impI)
      fix i :: nat assume "23 \<le> i" "i < 31"
      then show "bit x i" using arg_cong [OF z, of "\<lambda>w. bit w i"] by (auto simp: bit_simps)
    qed
  qed (intro bit_word_eqI, auto simp: bit_simps)
  finally show ?thesis .
qed

lemma fraction_bits: "unat x mod 2 ^ 23 = 0 \<longleftrightarrow> (\<forall>i < 23. \<not> bit (x :: 32 word) i)"
proof -
  have "unat x mod 2 ^ 23 = unat (take_bit 23 x)" by (simp only: unsigned_take_bit_eq take_bit_eq_mod [of 23 "unat x"])
  also have "\<dots> = 0 \<longleftrightarrow> take_bit 23 x = 0" by (simp add: unat_eq_0)
  also have "\<dots> \<longleftrightarrow> (\<forall>i < 23. \<not> bit x i)"
    by (auto simp: bit_eq_iff bit_simps)
  finally show ?thesis .
qed

lemma bit32: "bit (x :: 32 word) i \<Longrightarrow> i < 32"
  by (drule bit_imp_le_length) simp

lemma bit_upper_half: "bit (float_of_bf16 (ucast (drop_bit 16 (y :: 32 word)))) i \<longleftrightarrow> 16 \<le> i \<and> bit y i"
  by (auto simp: float_of_bf16_def bit_simps dest: bit32)

lemma bit_65536: "bit (0x10000 :: 32 word) i \<longleftrightarrow> i = 16"
proof -
  have e: "(0x10000 :: 32 word) = push_bit 16 1" by simp
  show ?thesis unfolding e by (simp only: bit_push_bit_iff bit_1_iff) auto
qed

text \<open>A NaN converts to a NaN, a signalling one included, and an infinity to the infinity of its sign,
  whichever rounding is built.\<close>

theorem bf16_special:
  fixes x :: "32 word" and rne :: bool
  assumes "\<not> float_isfinite x"
  defines "r \<equiv> float_of_bf16 (bf16_of_float rne x)"
  shows "float_isnan r = float_isnan x \<and> \<not> float_isfinite r \<and> (\<not> float_isnan x \<longrightarrow> r = x)"
proof -
  have e: "float_exp x = 255" using assms(1) by (simp add: float_isfinite_def)
  have lo: "x AND 0xffff = 0 \<longleftrightarrow> (\<forall>i < 16. \<not> bit x i)"
  proof -
    have "x AND mask 16 = 0 \<longleftrightarrow> (\<forall>i < 16. \<not> bit x i)" by (auto simp: bit_eq_iff bit_simps dest: bit32)
    then show ?thesis by (simp add: mask_eq_exp_minus_1)
  qed
  have r: "bit r i \<longleftrightarrow> 16 \<le> i \<and> (bit x i \<or> i = 16 \<and> (\<exists>j < 16. bit x j))" for i
  proof (cases "x AND 0xffff = 0")
    case True
    with e lo show ?thesis unfolding r_def bf16_of_float_def Let_def float_exp_all_ones bit_upper_half
      by (simp only: if_True if_False not_True_eq_False) auto
  next
    case False
    with e have "r = float_of_bf16 (ucast (drop_bit 16 (x OR 0x10000)))"
      unfolding r_def bf16_of_float_def Let_def float_exp_all_ones by (simp only: if_True not_False_eq_True simp_thms)
    with False lo show ?thesis by (simp only: bit_upper_half bit_or_iff bit_65536) auto
  qed
  have er: "float_exp r = 255" using e by (simp add: float_exp_bits r)
  then have fin: "\<not> float_isfinite r" by (simp add: float_isfinite_def)
  have "unat r mod 2 ^ 23 = 0 \<longleftrightarrow> unat x mod 2 ^ 23 = 0"
  proof
    assume "unat r mod 2 ^ 23 = 0"
    then have z: "\<not> bit r i" if "i < 23" for i using that unfolding fraction_bits by (elim allE impE)
    then have "\<not> (\<exists>j < 16. bit x j)" using z [of 16] by (simp add: r)
    moreover have "\<not> bit x i" if "16 \<le> i" "i < 23" for i using z [OF that(2)] that(1) by (simp add: r)
    ultimately show "unat x mod 2 ^ 23 = 0" unfolding fraction_bits by (metis not_le_imp_less)
  next
    assume "unat x mod 2 ^ 23 = 0"
    then show "unat r mod 2 ^ 23 = 0" unfolding fraction_bits by (simp add: r)
  qed
  then have nan: "float_isnan r = float_isnan x" using e er by (simp add: float_isnan_def)
  have "r = x" if "\<not> float_isnan x"
  proof (rule bit_word_eqI)
    fix i
    have "unat x mod 2 ^ 23 = 0" using that e by (simp add: float_isnan_def)
    then have "\<not> bit x j" if "j < 23" for j using that unfolding fraction_bits by (elim allE impE)
    then have "\<forall>j < 16. \<not> bit x j" by simp
    then show "bit r i = bit x i" unfolding r by (cases "16 \<le> i") auto
  qed
  with fin nan show ?thesis by blast
qed


lemma bf16_special_witness: "\<not> float_isfinite 0x7f800001 \<and> float_isnan (float_of_bf16 (bf16_of_float True 0x7f800001))"
proof -
  have f: "\<not> float_isfinite 0x7f800001" by (simp add: float_isfinite_def float_exp_def)
  moreover have "float_isnan 0x7f800001" by (simp add: float_isnan_def float_exp_def)
  ultimately show ?thesis using bf16_special [OF f, of True] by simp
qed

text \<open>Negation flips the sign bit, exactly.\<close>

lemma bf16_neg_flips: "bf16_neg rne b = b XOR 0x8000"
proof -
  have e: "(0x80000000 :: 32 word) = push_bit 31 1" "(0x8000 :: 16 word) = push_bit 15 1" by simp_all
  have "float_of_bf16 b XOR 0x80000000 = float_of_bf16 (b XOR 0x8000)"
    unfolding float_of_bf16_def e
    by (intro bit_word_eqI) (simp only: bit_push_bit_iff bit_xor_iff bit_1_iff bit_ucast_iff, auto)
  then show ?thesis by (simp add: bf16_neg_def bf16_back)
qed

text \<open>The limits of the class: the greatest and least finite values, the distance from 1 to the next
  value, the infinity and the quiet NaN are right; \<open>min\<close> is the greatest subnormal and not the least normal
  value, \<open>denorm_min\<close> is zero and \<open>signaling_NaN\<close> is the quiet one.\<close>

lemma bf16_limits:
  "fval (float_of_bf16 bf16_max) = 255 * 2 ^ 269" "bf16_lowest = bf16_neg rne bf16_max"
  "fval (float_of_bf16 (0x3F80 + 1)) = fval (float_of_bf16 0x3F80) + fval (float_of_bf16 bf16_epsilon)"
  "float_isnan (float_of_bf16 bf16_quiet_NaN)" "\<not> float_isfinite (float_of_bf16 bf16_infinity)"
  "\<not> float_isnan (float_of_bf16 bf16_infinity)"
  by (simp_all add: bf16_max_def bf16_lowest_def bf16_neg_flips bf16_epsilon_def bf16_quiet_NaN_def bf16_infinity_def
      float_of_bf16_def fval_def fmag_def float_isnan_def float_isfinite_def float_exp_def)

lemma bf16_limits_wrong:
  "float_exp (float_of_bf16 bf16_min) = 0" "fval (float_of_bf16 bf16_denorm_min) = 0"
  "bf16_signaling_NaN = bf16_quiet_NaN"
  by (simp_all add: bf16_min_def bf16_denorm_min_def bf16_quiet_NaN_def bf16_signaling_NaN_def
      float_of_bf16_def fval_def float_exp_def)

end
