(* ===== verification/Solver_Registry.thy ===== *)
theory Solver_Registry
  imports Find_Solution
begin

text \<open>
  The registry of solvers (\<open>src/solver.cpp\<close>, \<open>src/include/miopen/solver_id.hpp\<close>): numeric IDs that are
  part of the library's interface, the solver's name in the databases, and the solver object.

  A hash map is a map; the solver objects (\<open>AnySolver\<close>) are values of the type \<open>'s\<close>, no object being
  \<open>None\<close>. Log messages are left out.
\<close>

section \<open>The registry\<close>

datatype primitive = Convolution | Activation | Batchnorm | Pooling

record solver_id =
  id_value :: nat
  is_valid :: bool

record 's registry_entry =
  str_value :: string
  entry_primitive :: primitive
  convAlgo :: conv_algo
  entry_solver :: "'s option"

record 's registry =
  value_to_entry :: "nat \<rightharpoonup> 's registry_entry"
  str_to_value :: "string \<rightharpoonup> nat"
  primitive_to_ids :: "primitive \<Rightarrow> solver_id list"

definition empty_registry :: "'s registry" where
  "empty_registry = \<lparr>value_to_entry = Map.empty, str_to_value = Map.empty, primitive_to_ids = (\<lambda>_. [])\<rparr>"

definition invalid_value :: nat where "invalid_value = 0"

definition IdRegister :: "'s registry \<Rightarrow> nat \<Rightarrow> primitive \<Rightarrow> string \<Rightarrow> 's registry \<times> bool" where
  "IdRegister reg v prim str =
     (if v = invalid_value then (reg, False)
      else if value_to_entry reg v \<noteq> None then (reg, False)
      else if str_to_value reg str \<noteq> None then (reg, False)
      else
        (reg\<lparr>value_to_entry := (value_to_entry reg)(v \<mapsto>
               \<lparr>str_value = str, entry_primitive = prim, convAlgo = Algo_Direct, entry_solver = None\<rparr>),
             str_to_value := (str_to_value reg)(str \<mapsto> v),
             primitive_to_ids := (primitive_to_ids reg)(prim := primitive_to_ids reg prim @ [\<lparr>id_value = v, is_valid = True\<rparr>])\<rparr>,
         True))"

definition IdRegisterConv :: "'s registry \<Rightarrow> nat \<Rightarrow> string \<Rightarrow> conv_algo \<Rightarrow> 's registry \<times> bool" where
  "IdRegisterConv reg v str algo =
     (case IdRegister reg v Convolution str of
        (reg1, False) \<Rightarrow> (reg1, False)
      | (reg1, True) \<Rightarrow>
          (reg1\<lparr>value_to_entry := (value_to_entry reg1)(v \<mapsto> (the (value_to_entry reg1 v))\<lparr>convAlgo := algo\<rparr>)\<rparr>, True))"

definition RegisterWithSolver :: "'s registry \<Rightarrow> nat \<Rightarrow> string \<Rightarrow> 's \<Rightarrow> conv_algo \<Rightarrow> 's registry" where
  "RegisterWithSolver reg v dbid slv algo =
     (case IdRegisterConv reg v dbid algo of
        (reg1, False) \<Rightarrow> reg1
      | (reg1, True) \<Rightarrow>
          reg1\<lparr>value_to_entry := (value_to_entry reg1)(v \<mapsto> (the (value_to_entry reg1 v))\<lparr>entry_solver := Some slv\<rparr>)\<rparr>)"

section \<open>IDs\<close>

definition Id_of_value :: "'s registry \<Rightarrow> nat \<Rightarrow> solver_id" where
  "Id_of_value reg v = \<lparr>id_value = v, is_valid = (value_to_entry reg v \<noteq> None)\<rparr>"

definition Id_of_str :: "'s registry \<Rightarrow> string \<Rightarrow> solver_id" where
  "Id_of_str reg str =
     (case str_to_value reg str of
        Some v \<Rightarrow> \<lparr>id_value = v, is_valid = True\<rparr>
      | None \<Rightarrow> \<lparr>id_value = invalid_value, is_valid = False\<rparr>)"

text \<open>\<open>value_to_entry[value]\<close> makes a default entry; its text is empty.\<close>

definition Id_ToString :: "'s registry \<Rightarrow> solver_id \<Rightarrow> string" where
  "Id_ToString reg i =
     (if \<not> is_valid i then ''INVALID_SOLVER_ID_'' @ digits (id_value i)
      else (case value_to_entry reg (id_value i) of Some e \<Rightarrow> str_value e | None \<Rightarrow> []))"

definition Id_GetSolver :: "'s registry \<Rightarrow> solver_id \<Rightarrow> 's option" where
  "Id_GetSolver reg i = Option.bind (value_to_entry reg (id_value i)) entry_solver"

definition Id_GetPrimitive :: "'s registry \<Rightarrow> solver_id \<Rightarrow> primitive result" where
  "Id_GetPrimitive reg i =
     (case value_to_entry reg (id_value i) of
        None \<Rightarrow> throw_st miopenStatusInternalError []
      | Some e \<Rightarrow> Inr (entry_primitive e))"

definition Id_GetAlgo :: "'s registry \<Rightarrow> solver_id \<Rightarrow> conv_algo result" where
  "Id_GetAlgo reg i =
     (case value_to_entry reg (id_value i) of
        None \<Rightarrow> throw_st miopenStatusInternalError []
      | Some e \<Rightarrow> Inr (convAlgo e))"

definition Id_GetAlgo_dir :: "'s registry \<Rightarrow> solver_id \<Rightarrow> direction \<Rightarrow> string result" where
  "Id_GetAlgo_dir reg i dir =
     (case Id_GetAlgo reg i of Inl e \<Rightarrow> Inl e | Inr algo \<Rightarrow> Inr (ConvolutionAlgoToDirectionalString algo dir))"

definition Id_eq :: "solver_id \<Rightarrow> solver_id \<Rightarrow> bool" where
  "Id_eq a b \<longleftrightarrow> (if \<not> is_valid a \<and> \<not> is_valid b then True else id_value a = id_value b \<and> is_valid a = is_valid b)"

definition GetSolversByPrimitive :: "'s registry \<Rightarrow> primitive \<Rightarrow> solver_id list" where
  "GetSolversByPrimitive reg prim = primitive_to_ids reg prim"

section \<open>The registrar\<close>

text \<open>A line of the registrar: a solver of convolutions, a solver of another primitive, or \<open>++id\<close> where
  one was removed. The types are written as in the source.\<close>

datatype registration = WithSolver string conv_algo | Plain primitive string | Removed

definition early_registrations :: "registration list" where
  "early_registrations =
    [WithSolver ''ConvAsm3x3U'' Algo_Direct,
     WithSolver ''ConvAsm1x1U'' Algo_Direct,
     WithSolver ''ConvAsm1x1UV2'' Algo_Direct,
     WithSolver ''ConvBiasActivAsm1x1U'' Algo_Direct,
     WithSolver ''ConvAsm5x10u2v2f1'' Algo_Direct,
     WithSolver ''ConvAsm5x10u2v2b1'' Algo_Direct,
     WithSolver ''ConvAsm7x7c3h224w224k64u2v2p3q3f1'' Algo_Direct,
     WithSolver ''ConvOclDirectFwd11x11'' Algo_Direct,
     WithSolver ''ConvOclDirectFwdGen'' Algo_Direct,
     Removed,
     WithSolver ''ConvOclDirectFwd'' Algo_Direct,
     WithSolver ''ConvOclDirectFwdFused'' Algo_Direct,
     WithSolver ''ConvOclDirectFwd1x1'' Algo_Direct,
     WithSolver ''ConvBinWinograd3x3U'' Algo_Winograd,
     WithSolver ''ConvBinWinogradRxS'' Algo_Winograd,
     WithSolver ''ConvAsmBwdWrW3x3'' Algo_Direct,
     WithSolver ''ConvAsmBwdWrW1x1'' Algo_Direct,
     WithSolver ''ConvOclBwdWrW2<1>'' Algo_Direct,
     WithSolver ''ConvOclBwdWrW2<2>'' Algo_Direct,
     WithSolver ''ConvOclBwdWrW2<4>'' Algo_Direct,
     WithSolver ''ConvOclBwdWrW2<8>'' Algo_Direct,
     WithSolver ''ConvOclBwdWrW2<16>'' Algo_Direct,
     WithSolver ''ConvOclBwdWrW2NonTunable'' Algo_Direct,
     WithSolver ''ConvOclBwdWrW53'' Algo_Direct,
     WithSolver ''ConvOclBwdWrW1x1'' Algo_Direct,
     WithSolver ''ConvHipImplicitGemmV4R1Fwd'' Algo_ImplicitGEMM,
     Removed,
     Removed,
     Removed,
     Removed,
     WithSolver ''ConvHipImplicitGemmV4R1WrW'' Algo_ImplicitGEMM,
     Removed,
     Removed,
     WithSolver ''fft'' Algo_FFT,
     WithSolver ''ConvWinograd3x3MultipassWrW<3, 4>'' Algo_Winograd,
     Removed,
     WithSolver ''ConvBinWinoRxS<3, 2>'' Algo_Winograd,
     WithSolver ''ConvWinograd3x3MultipassWrW<3, 5>'' Algo_Winograd,
     WithSolver ''ConvWinograd3x3MultipassWrW<3, 6>'' Algo_Winograd,
     WithSolver ''ConvWinograd3x3MultipassWrW<3, 2>'' Algo_Winograd,
     WithSolver ''ConvWinograd3x3MultipassWrW<3, 3>'' Algo_Winograd,
     WithSolver ''ConvWinograd3x3MultipassWrW<7, 2>'' Algo_Winograd,
     WithSolver ''ConvWinograd3x3MultipassWrW<7, 3>'' Algo_Winograd,
     WithSolver ''ConvWinograd3x3MultipassWrW<7, 2, 1, 1>'' Algo_Winograd,
     WithSolver ''ConvWinograd3x3MultipassWrW<7, 3, 1, 1>'' Algo_Winograd,
     WithSolver ''ConvWinograd3x3MultipassWrW<1, 1, 7, 2>'' Algo_Winograd,
     WithSolver ''ConvWinograd3x3MultipassWrW<1, 1, 7, 3>'' Algo_Winograd,
     WithSolver ''ConvWinograd3x3MultipassWrW<5, 3>'' Algo_Winograd,
     WithSolver ''ConvWinograd3x3MultipassWrW<5, 4>'' Algo_Winograd,
     Removed,
     Removed,
     Removed,
     WithSolver ''ConvBinWinoRxS<2, 3>'' Algo_Winograd,
     WithSolver ''ConvHipImplicitGemmV4R4Fwd'' Algo_ImplicitGEMM,
     WithSolver ''ConvHipImplicitGemmBwdDataV1R1'' Algo_ImplicitGEMM,
     WithSolver ''ConvHipImplicitGemmBwdDataV4R1'' Algo_ImplicitGEMM,
     WithSolver ''ConvHipImplicitGemmBwdDataV1R1Xdlops'' Algo_ImplicitGEMM,
     Removed,
     Removed,
     WithSolver ''ConvHipImplicitGemmBwdDataV4R1Xdlops'' Algo_ImplicitGEMM,
     WithSolver ''ConvHipImplicitGemmV4R4WrW'' Algo_ImplicitGEMM,
     WithSolver ''ConvAsmImplicitGemmV4R1DynamicFwd'' Algo_ImplicitGEMM]"

definition late_registrations :: "registration list" where
  "late_registrations =
    [WithSolver ''ConvAsmImplicitGemmV4R1DynamicFwd_1x1'' Algo_ImplicitGEMM,
     WithSolver ''ConvHipImplicitGemmForwardV4R4Xdlops'' Algo_ImplicitGEMM,
     WithSolver ''ConvAsmImplicitGemmV4R1DynamicBwd'' Algo_ImplicitGEMM,
     WithSolver ''ConvAsmImplicitGemmV4R1DynamicWrw'' Algo_ImplicitGEMM,
     WithSolver ''ConvMPBidirectWinograd<2, 3>'' Algo_Winograd,
     WithSolver ''ConvMPBidirectWinograd<3, 3>'' Algo_Winograd,
     WithSolver ''ConvMPBidirectWinograd<4, 3>'' Algo_Winograd,
     WithSolver ''ConvMPBidirectWinograd<5, 3>'' Algo_Winograd,
     WithSolver ''ConvMPBidirectWinograd<6, 3>'' Algo_Winograd,
     WithSolver ''ConvAsmImplicitGemmGTCDynamicWrwXdlops'' Algo_ImplicitGEMM,
     WithSolver ''ConvHipImplicitGemmWrwV4R4Xdlops'' Algo_ImplicitGEMM,
     WithSolver ''ConvAsmImplicitGemmGTCDynamicFwdXdlops'' Algo_ImplicitGEMM,
     WithSolver ''ConvMPBidirectWinograd_xdlops<2, 3>'' Algo_Winograd,
     WithSolver ''ConvMPBidirectWinograd_xdlops<3, 3>'' Algo_Winograd,
     WithSolver ''ConvMPBidirectWinograd_xdlops<4, 3>'' Algo_Winograd,
     WithSolver ''ConvMPBidirectWinograd_xdlops<5, 3>'' Algo_Winograd,
     WithSolver ''ConvMPBidirectWinograd_xdlops<6, 3>'' Algo_Winograd,
     WithSolver ''ConvHipImplicitGemmForwardV4R5Xdlops'' Algo_ImplicitGEMM,
     WithSolver ''ConvHipImplicitGemmForwardV4R4Xdlops_Padded_Gemm'' Algo_ImplicitGEMM,
     WithSolver ''ConvAsmImplicitGemmGTCDynamicBwdXdlops'' Algo_ImplicitGEMM,
     WithSolver ''ConvHipImplicitGemmWrwV4R4Xdlops_Padded_Gemm'' Algo_ImplicitGEMM,
     WithSolver ''ConvBinWinogradRxSf2x3g1'' Algo_Winograd,
     WithSolver ''ConvDirectNaiveConvFwd'' Algo_Direct,
     WithSolver ''ConvDirectNaiveConvBwd'' Algo_Direct,
     WithSolver ''ConvDirectNaiveConvWrw'' Algo_Direct,
     WithSolver ''GemmFwd1x1_0_1'' Algo_GEMM,
     WithSolver ''GemmFwd1x1_0_1_int8'' Algo_GEMM,
     WithSolver ''GemmFwd1x1_0_2'' Algo_GEMM,
     WithSolver ''GemmFwdRest'' Algo_GEMM,
     Removed,
     Removed,
     Removed,
     WithSolver ''GemmBwd1x1_stride2'' Algo_GEMM,
     WithSolver ''GemmBwd1x1_stride1'' Algo_GEMM,
     WithSolver ''GemmBwdRest'' Algo_GEMM,
     WithSolver ''ConvMlirIgemmFwd'' Algo_ImplicitGEMM,
     WithSolver ''ConvMlirIgemmBwd'' Algo_ImplicitGEMM,
     WithSolver ''ConvMlirIgemmWrW'' Algo_ImplicitGEMM,
     WithSolver ''GemmWrw1x1_stride1'' Algo_GEMM,
     WithSolver ''GemmWrwUniversal'' Algo_GEMM,
     WithSolver ''ConvMlirIgemmFwdXdlops'' Algo_ImplicitGEMM,
     WithSolver ''ConvMlirIgemmBwdXdlops'' Algo_ImplicitGEMM,
     WithSolver ''ConvMlirIgemmWrWXdlops'' Algo_ImplicitGEMM,
     Plain Activation ''activ::ActivFwdSolver0'',
     WithSolver ''ConvAsmImplicitGemmGTCDynamicFwdXdlopsNHWC'' Algo_ImplicitGEMM,
     WithSolver ''ConvAsmImplicitGemmGTCDynamicBwdXdlopsNHWC'' Algo_ImplicitGEMM,
     Plain Activation ''activ::ActivFwdSolver1'',
     WithSolver ''ConvAsmImplicitGemmGTCDynamicWrwXdlopsNHWC'' Algo_ImplicitGEMM,
     Plain Activation ''activ::ActivBwdSolver0'',
     Plain Activation ''activ::ActivBwdSolver1'',
     Plain Batchnorm ''batchnorm::BnFwdTrainingSpatialSingle'',
     WithSolver ''ConvCkIgemmFwdV6r1DlopsNchw'' Algo_ImplicitGEMM,
     Plain Batchnorm ''batchnorm::BnFwdTrainingSpatialMultiple'',
     Plain Batchnorm ''batchnorm::BnFwdTrainingPerActivation'',
     Plain Batchnorm ''batchnorm::BnBwdTrainingSpatialSingle'',
     Plain Batchnorm ''batchnorm::BnBwdTrainingSpatialMultiple'',
     Plain Batchnorm ''batchnorm::BnBwdTrainingPerActivation'',
     Plain Batchnorm ''batchnorm::BnFwdInference'',
     Plain Pooling ''pooling::PoolingForward2d'',
     Plain Pooling ''pooling::PoolingForwardNd'',
     Plain Pooling ''pooling::TransposedPoolingFwd2d'',
     Plain Pooling ''pooling::TransposedPoolingFwdNd'',
     Plain Pooling ''pooling::PoolingBackward2d'',
     Plain Pooling ''pooling::PoolingBackwardNd'',
     WithSolver ''ConvAsmImplicitGemmGTCDynamicFwdDlopsNCHWC'' Algo_ImplicitGEMM]"

definition registrations :: "registration list" where
  "registrations = early_registrations @ late_registrations"

text \<open>\<open>TSolver{}.SolverDbId()\<close>. What the compiler prints for a type is the parameter \<open>type_name\<close>; the
  IDs of \<open>ConvBinWinoRxS\<close> are literals.\<close>

definition SolverDbId_of :: "(string \<Rightarrow> string) \<Rightarrow> string \<Rightarrow> string" where
  "SolverDbId_of type_name t =
     (if t = ''ConvBinWinoRxS<3, 2>'' then ''ConvBinWinogradRxSf'' @ ''3'' @ ''x'' @ ''2''
      else if t = ''ConvBinWinoRxS<2, 3>'' then ''ConvBinWinogradRxSf'' @ ''2'' @ ''x'' @ ''3''
      else ComputeSolverDbId (type_name t))"

fun registrar_step :: "(string \<Rightarrow> string) \<Rightarrow> (string \<Rightarrow> 's) \<Rightarrow> nat \<Rightarrow> registration \<Rightarrow> 's registry \<Rightarrow> 's registry" where
  "registrar_step type_name obj i Removed reg = reg"
| "registrar_step type_name obj i (WithSolver t algo) reg =
     RegisterWithSolver reg i (SolverDbId_of type_name t) (obj t) algo"
| "registrar_step type_name obj i (Plain prim t) reg = fst (IdRegister reg i prim (SolverDbId_of type_name t))"

fun registrar_run :: "(string \<Rightarrow> string) \<Rightarrow> (string \<Rightarrow> 's) \<Rightarrow> nat \<Rightarrow> registration list \<Rightarrow> 's registry \<Rightarrow> 's registry" where
  "registrar_run type_name obj i [] reg = reg"
| "registrar_run type_name obj i (r # rs) reg =
     registrar_run type_name obj (i + 1) rs (registrar_step type_name obj (i + 1) r reg)"

definition SolverRegistrar :: "(string \<Rightarrow> string) \<Rightarrow> (string \<Rightarrow> 's) \<Rightarrow> 's registry \<Rightarrow> 's registry" where
  "SolverRegistrar type_name obj reg = registrar_run type_name obj 0 registrations reg"

definition IdRegistry :: "(string \<Rightarrow> string) \<Rightarrow> (string \<Rightarrow> 's) \<Rightarrow> 's registry" where
  "IdRegistry type_name obj = SolverRegistrar type_name obj empty_registry"


section \<open>Every line of the registrar takes effect\<close>

definition entry_of :: "(string \<Rightarrow> string) \<Rightarrow> (string \<Rightarrow> 's) \<Rightarrow> registration \<Rightarrow> 's registry_entry option" where
  "entry_of type_name obj r = (case r of
      Removed \<Rightarrow> None
    | WithSolver t algo \<Rightarrow> Some \<lparr>str_value = SolverDbId_of type_name t, entry_primitive = Convolution,
        convAlgo = algo, entry_solver = Some (obj t)\<rparr>
    | Plain prim t \<Rightarrow> Some \<lparr>str_value = SolverDbId_of type_name t, entry_primitive = prim,
        convAlgo = Algo_Direct, entry_solver = None\<rparr>)"

definition registered_names :: "(string \<Rightarrow> string) \<Rightarrow> registration list \<Rightarrow> string list" where
  "registered_names type_name rs =
     List.map_filter (\<lambda>r. case r of Removed \<Rightarrow> None | WithSolver t _ \<Rightarrow> Some (SolverDbId_of type_name t)
       | Plain _ t \<Rightarrow> Some (SolverDbId_of type_name t)) rs"

definition ids_of :: "(string \<Rightarrow> string) \<Rightarrow> (string \<Rightarrow> 's) \<Rightarrow> primitive \<Rightarrow> nat \<Rightarrow> registration list \<Rightarrow> solver_id list" where
  "ids_of type_name obj prim i rs =
     [\<lparr>id_value = v, is_valid = True\<rparr>. (v, r) \<leftarrow> enumerate (Suc i) rs,
        map_option entry_primitive (entry_of type_name obj r) = Some prim]"

lemma registered_names_simps [simp]:
  "registered_names type_name [] = []"
  "registered_names type_name (r # rs) =
     (case entry_of type_name obj r of None \<Rightarrow> [] | Some e \<Rightarrow> [str_value e]) @ registered_names type_name rs"
  by (simp_all add: registered_names_def entry_of_def map_filter_simps split: registration.splits)

lemma ids_of_simps [simp]:
  "ids_of type_name obj prim i [] = []"
  "ids_of type_name obj prim i (r # rs) =
     (if map_option entry_primitive (entry_of type_name obj r) = Some prim
      then [\<lparr>id_value = Suc i, is_valid = True\<rparr>] else []) @ ids_of type_name obj prim (Suc i) rs"
  by (simp_all add: ids_of_def)

lemma registrar_step_Some:
  assumes "entry_of type_name obj r = Some e" "i \<noteq> 0" "value_to_entry reg i = None" "str_to_value reg (str_value e) = None"
  shows "registrar_step type_name obj i r reg =
    reg\<lparr>value_to_entry := (value_to_entry reg)(i \<mapsto> e), str_to_value := (str_to_value reg)(str_value e \<mapsto> i),
        primitive_to_ids := (primitive_to_ids reg)(entry_primitive e :=
          primitive_to_ids reg (entry_primitive e) @ [\<lparr>id_value = i, is_valid = True\<rparr>])\<rparr>"
  using assms
  by (cases r) (auto simp: entry_of_def RegisterWithSolver_def IdRegisterConv_def IdRegister_def invalid_value_def)

lemma registrar_step_None: "entry_of type_name obj r = None \<Longrightarrow> registrar_step type_name obj i r reg = reg"
  by (cases r) (simp_all add: entry_of_def)

text \<open>What the lines from number \<open>i\<close> on add to the three maps.\<close>

fun entries_of :: "(string \<Rightarrow> string) \<Rightarrow> (string \<Rightarrow> 's) \<Rightarrow> nat \<Rightarrow> registration list \<Rightarrow> nat \<rightharpoonup> 's registry_entry" where
  "entries_of type_name obj i [] = Map.empty"
| "entries_of type_name obj i (r # rs) =
     (case entry_of type_name obj r of
        None \<Rightarrow> entries_of type_name obj (Suc i) rs
      | Some e \<Rightarrow> [Suc i \<mapsto> e] ++ entries_of type_name obj (Suc i) rs)"

fun numbers_of :: "(string \<Rightarrow> string) \<Rightarrow> (string \<Rightarrow> 's) \<Rightarrow> nat \<Rightarrow> registration list \<Rightarrow> string \<rightharpoonup> nat" where
  "numbers_of type_name obj i [] = Map.empty"
| "numbers_of type_name obj i (r # rs) =
     (case entry_of type_name obj r of
        None \<Rightarrow> numbers_of type_name obj (Suc i) rs
      | Some e \<Rightarrow> [str_value e \<mapsto> Suc i] ++ numbers_of type_name obj (Suc i) rs)"

lemma entries_of_nth:
  "entries_of type_name obj i rs v =
    (if i < v \<and> v \<le> i + length rs then entry_of type_name obj (rs ! (v - Suc i)) else None)"
proof (induction rs arbitrary: i)
  case (Cons r rs)
  have "(r # rs) ! (v - Suc i) = (if v = Suc i then r else rs ! (v - Suc (Suc i)))" if "i < v"
    using that by (auto simp: nth_Cons' diff_diff_left)
  then show ?case using Cons.IH [of "Suc i"] by (cases "v = Suc i") (auto simp: map_add_def split: option.splits)
qed auto

lemma dom_numbers_of: "numbers_of type_name obj i rs s = None \<longleftrightarrow> s \<notin> set (registered_names type_name rs)"
proof (induction rs arbitrary: i)
  case (Cons r rs)
  show ?case
    using Cons.IH [of "Suc i"]
    by (cases "entry_of type_name obj r"; cases "numbers_of type_name obj (Suc i) rs s")
      (auto simp: registered_names_simps(2) [of _ _ _ obj] map_add_def)
qed (simp_all add: registered_names_simps(1))

lemma numbers_of_entries:
  assumes "distinct (registered_names type_name rs)"
  shows "numbers_of type_name obj i rs s = Some v \<longleftrightarrow>
    (\<exists>e. entries_of type_name obj i rs v = Some e \<and> str_value e = s)"
  using assms
proof (induction rs arbitrary: i)
  case (Cons r rs)
  show ?case
  proof (cases "entry_of type_name obj r")
    case None
    with Cons show ?thesis by (simp add: registered_names_simps(2) [of _ _ _ obj])
  next
    case (Some e)
    with Cons.prems have d: "distinct (registered_names type_name rs)" "str_value e \<notin> set (registered_names type_name rs)"
      by (simp_all add: registered_names_simps(2) [of _ _ _ obj])
    have n: "numbers_of type_name obj (Suc i) rs (str_value e) = None"
      using d(2) dom_numbers_of [of type_name obj "Suc i" rs] by blast
    have v: "entries_of type_name obj (Suc i) rs (Suc i) = None" by (simp add: entries_of_nth)
    show ?thesis
      using n v Cons.IH [OF d(1), of "Suc i"] Some by (auto simp: map_add_def split: option.splits if_splits)
  qed
qed simp

lemma registrar_run_spec:
  assumes "distinct (registered_names type_name rs)"
    and "\<forall>s \<in> set (registered_names type_name rs). str_to_value reg s = None"
    and "\<forall>v > i. value_to_entry reg v = None"
  shows "value_to_entry (registrar_run type_name obj i rs reg) = value_to_entry reg ++ entries_of type_name obj i rs
    \<and> str_to_value (registrar_run type_name obj i rs reg) = str_to_value reg ++ numbers_of type_name obj i rs
    \<and> primitive_to_ids (registrar_run type_name obj i rs reg) prim
      = primitive_to_ids reg prim @ ids_of type_name obj prim i rs"
  using assms
proof (induction rs arbitrary: i reg)
  case (Cons r rs)
  show ?case
  proof (cases "entry_of type_name obj r")
    case None
    with Cons show ?thesis by (simp add: registrar_step_None registered_names_simps(2) [of _ _ _ obj])
  next
    case (Some e)
    with Cons.prems have p: "distinct (registered_names type_name rs)" "str_value e \<notin> set (registered_names type_name rs)"
        "\<forall>s \<in> set (registered_names type_name rs). str_to_value reg s = None" "str_to_value reg (str_value e) = None"
        "value_to_entry reg (Suc i) = None"
      by (simp_all add: registered_names_simps(2) [of _ _ _ obj])
    note step = registrar_step_Some [OF Some _ p(5,4)]
    have "\<forall>s \<in> set (registered_names type_name rs).
        str_to_value (registrar_step type_name obj (Suc i) r reg) s = None"
      "\<forall>v > Suc i. value_to_entry (registrar_step type_name obj (Suc i) r reg) v = None"
      using p Cons.prems(3) by (auto simp: step)
    from Cons.IH [OF p(1) this] show ?thesis
      using Some by (auto simp: step fun_eq_iff map_add_def split: option.splits)
  qed
qed simp

lemma IdRegistry_maps:
  assumes "distinct (registered_names type_name registrations)"
  shows "value_to_entry (IdRegistry type_name obj) = entries_of type_name obj 0 registrations"
    "str_to_value (IdRegistry type_name obj) = numbers_of type_name obj 0 registrations"
    "GetSolversByPrimitive (IdRegistry type_name obj) prim = ids_of type_name obj prim 0 registrations"
  using registrar_run_spec [OF assms, of empty_registry 0 obj]
  by (simp_all add: IdRegistry_def SolverRegistrar_def empty_registry_def GetSolversByPrimitive_def)

text \<open>C17: The registry is complete and consistent, when the compiler's names of the solvers give different
  database IDs: line \<open>n\<close> of the registrar that registers something gives a valid ID with the number \<open>n\<close>,
  found by number and by name, with the line's algorithm, primitive and solver; the number of a
  removed solver, 0 and numbers after the last line are invalid; the solvers of a primitive are listed
  in the order of their numbers.\<close>

theorem IdRegistry_ids:
  fixes obj :: "string \<Rightarrow> 's"
  assumes "distinct (registered_names type_name registrations)"
  defines "R \<equiv> IdRegistry type_name obj"
  shows "(is_valid (Id_of_value R n) \<longleftrightarrow>
        0 < n \<and> n \<le> length registrations \<and> registrations ! (n - 1) \<noteq> Removed)
    \<and> (is_valid (Id_of_value R n) \<longrightarrow>
        (\<exists>e. entry_of type_name obj (registrations ! (n - 1)) = Some e
          \<and> Id_ToString R (Id_of_value R n) = str_value e
          \<and> Id_of_str R (str_value e) = Id_of_value R n
          \<and> Id_GetAlgo R (Id_of_value R n) = Inr (convAlgo e)
          \<and> Id_GetPrimitive R (Id_of_value R n) = Inr (entry_primitive e)
          \<and> Id_GetSolver R (Id_of_value R n) = entry_solver e))
    \<and> GetSolversByPrimitive R prim = ids_of type_name obj prim 0 registrations"
proof -
  note maps = IdRegistry_maps [OF assms(1), of obj, folded R_def]
  have rem: "(\<exists>e. entry_of type_name obj r = Some e) \<longleftrightarrow> r \<noteq> Removed" for r by (cases r) (simp_all add: entry_of_def)
  have valid: "is_valid (Id_of_value R n) \<longleftrightarrow> 0 < n \<and> n \<le> length registrations \<and> registrations ! (n - 1) \<noteq> Removed"
    by (simp add: Id_of_value_def maps entries_of_nth rem)
  moreover have "\<exists>e. entry_of type_name obj (registrations ! (n - 1)) = Some e
      \<and> Id_ToString R (Id_of_value R n) = str_value e
      \<and> Id_of_str R (str_value e) = Id_of_value R n
      \<and> Id_GetAlgo R (Id_of_value R n) = Inr (convAlgo e)
      \<and> Id_GetPrimitive R (Id_of_value R n) = Inr (entry_primitive e)
      \<and> Id_GetSolver R (Id_of_value R n) = entry_solver e" if v: "is_valid (Id_of_value R n)"
  proof -
    from v obtain e where e: "entries_of type_name obj 0 registrations n = Some e"
      by (auto simp: Id_of_value_def maps)
    moreover have "numbers_of type_name obj 0 registrations (str_value e) = Some n"
      using e numbers_of_entries [OF assms(1)] by blast
    moreover have "entry_of type_name obj (registrations ! (n - 1)) = Some e"
      using e by (auto simp: entries_of_nth split: if_splits)
    ultimately show ?thesis
      by (simp add: Id_of_value_def Id_of_str_def Id_ToString_def Id_GetAlgo_def Id_GetPrimitive_def Id_GetSolver_def maps)
  qed
  ultimately show ?thesis using maps(3) by blast
qed


text \<open>A valid number and its name stand for each other.\<close>

lemma IdRegistry_by_number:
  fixes obj :: "string \<Rightarrow> 's"
  assumes "distinct (registered_names type_name registrations)"
  defines "R \<equiv> IdRegistry type_name obj"
  assumes "is_valid (Id_of_value R n)"
  shows "Id_of_str R (Id_ToString R (Id_of_value R n)) = Id_of_value R n"
proof -
  note maps = IdRegistry_maps [OF assms(1), of obj, folded R_def]
  obtain e where e: "entries_of type_name obj 0 registrations n = Some e"
    using assms(3) by (auto simp: Id_of_value_def maps)
  then have "numbers_of type_name obj 0 registrations (str_value e) = Some n"
    using numbers_of_entries [OF assms(1)] by blast
  with e show ?thesis by (simp add: Id_of_value_def Id_of_str_def Id_ToString_def maps)
qed

text \<open>A line with a solver, by the solver's name.\<close>

lemma IdRegistry_with_solver:
  fixes obj :: "string \<Rightarrow> 's"
  assumes "distinct (registered_names type_name registrations)" "WithSolver t algo \<in> set registrations"
  defines "R \<equiv> IdRegistry type_name obj"
  defines "i \<equiv> Id_of_str R (SolverDbId_of type_name t)"
  shows "is_valid i" "Id_ToString R i = SolverDbId_of type_name t" "Id_GetAlgo R i = Inr algo"
    "Id_GetSolver R i = Some (obj t)" "Id_GetPrimitive R i = Inr Convolution" "Id_of_value R (id_value i) = i"
proof -
  note maps = IdRegistry_maps [OF assms(1), of obj, folded R_def]
  obtain n where n: "n < length registrations" "registrations ! n = WithSolver t algo"
    using assms(2) by (auto simp: in_set_conv_nth)
  let ?e = "\<lparr>str_value = SolverDbId_of type_name t, entry_primitive = Convolution, convAlgo = algo,
    entry_solver = Some (obj t)\<rparr>"
  have e: "entries_of type_name obj 0 registrations (Suc n) = Some ?e"
    using n by (simp add: entries_of_nth) (simp add: entry_of_def)
  moreover have "numbers_of type_name obj 0 registrations (SolverDbId_of type_name t) = Some (Suc n)"
    using e numbers_of_entries [OF assms(1), of obj 0] by fastforce
  ultimately show "is_valid i" "Id_ToString R i = SolverDbId_of type_name t" "Id_GetAlgo R i = Inr algo"
    "Id_GetSolver R i = Some (obj t)" "Id_GetPrimitive R i = Inr Convolution" "Id_of_value R (id_value i) = i"
    by (simp_all add: i_def Id_of_value_def Id_of_str_def Id_ToString_def Id_GetAlgo_def Id_GetPrimitive_def
        Id_GetSolver_def maps)
qed


text \<open>The names as the source writes them, with the namespace.\<close>

definition in_namespace :: "string \<Rightarrow> string" where
  "in_namespace t = ''miopen::solver::'' @ t"

text \<open>The database IDs, in two halves.\<close>

definition first_names :: "string list" where
  "first_names =
    [''ConvAsm3x3U'', ''ConvAsm1x1U'', ''ConvAsm1x1UV2'', ''ConvBiasActivAsm1x1U'',
     ''ConvAsm5x10u2v2f1'', ''ConvAsm5x10u2v2b1'', ''ConvAsm7x7c3h224w224k64u2v2p3q3f1'',
     ''ConvOclDirectFwd11x11'', ''ConvOclDirectFwdGen'', ''ConvOclDirectFwd'',
     ''ConvOclDirectFwdFused'', ''ConvOclDirectFwd1x1'', ''ConvBinWinograd3x3U'',
     ''ConvBinWinogradRxS'', ''ConvAsmBwdWrW3x3'', ''ConvAsmBwdWrW1x1'', ''ConvOclBwdWrW2<1>'',
     ''ConvOclBwdWrW2<2>'', ''ConvOclBwdWrW2<4>'', ''ConvOclBwdWrW2<8>'', ''ConvOclBwdWrW2<16>'',
     ''ConvOclBwdWrW2NonTunable'', ''ConvOclBwdWrW53'', ''ConvOclBwdWrW1x1'',
     ''ConvHipImplicitGemmV4R1Fwd'', ''ConvHipImplicitGemmV4R1WrW'', ''fft'',
     ''ConvWinograd3x3MultipassWrW<3-4>'', ''ConvBinWinogradRxSf3x2'',
     ''ConvWinograd3x3MultipassWrW<3-5>'', ''ConvWinograd3x3MultipassWrW<3-6>'',
     ''ConvWinograd3x3MultipassWrW<3-2>'', ''ConvWinograd3x3MultipassWrW<3-3>'',
     ''ConvWinograd3x3MultipassWrW<7-2>'', ''ConvWinograd3x3MultipassWrW<7-3>'',
     ''ConvWinograd3x3MultipassWrW<7-2-1-1>'', ''ConvWinograd3x3MultipassWrW<7-3-1-1>'',
     ''ConvWinograd3x3MultipassWrW<1-1-7-2>'', ''ConvWinograd3x3MultipassWrW<1-1-7-3>'',
     ''ConvWinograd3x3MultipassWrW<5-3>'', ''ConvWinograd3x3MultipassWrW<5-4>'',
     ''ConvBinWinogradRxSf2x3'', ''ConvHipImplicitGemmV4R4Fwd'', ''ConvHipImplicitGemmBwdDataV1R1'',
     ''ConvHipImplicitGemmBwdDataV4R1'', ''ConvHipImplicitGemmBwdDataV1R1Xdlops'',
     ''ConvHipImplicitGemmBwdDataV4R1Xdlops'', ''ConvHipImplicitGemmV4R4WrW'',
     ''ConvAsmImplicitGemmV4R1DynamicFwd'']"

definition last_names :: "string list" where
  "last_names =
    [''ConvAsmImplicitGemmV4R1DynamicFwd_1x1'', ''ConvHipImplicitGemmForwardV4R4Xdlops'',
     ''ConvAsmImplicitGemmV4R1DynamicBwd'', ''ConvAsmImplicitGemmV4R1DynamicWrw'',
     ''ConvMPBidirectWinograd<2-3>'', ''ConvMPBidirectWinograd<3-3>'',
     ''ConvMPBidirectWinograd<4-3>'', ''ConvMPBidirectWinograd<5-3>'',
     ''ConvMPBidirectWinograd<6-3>'', ''ConvAsmImplicitGemmGTCDynamicWrwXdlops'',
     ''ConvHipImplicitGemmWrwV4R4Xdlops'', ''ConvAsmImplicitGemmGTCDynamicFwdXdlops'',
     ''ConvMPBidirectWinograd_xdlops<2-3>'', ''ConvMPBidirectWinograd_xdlops<3-3>'',
     ''ConvMPBidirectWinograd_xdlops<4-3>'', ''ConvMPBidirectWinograd_xdlops<5-3>'',
     ''ConvMPBidirectWinograd_xdlops<6-3>'', ''ConvHipImplicitGemmForwardV4R5Xdlops'',
     ''ConvHipImplicitGemmForwardV4R4Xdlops_Padded_Gemm'',
     ''ConvAsmImplicitGemmGTCDynamicBwdXdlops'', ''ConvHipImplicitGemmWrwV4R4Xdlops_Padded_Gemm'',
     ''ConvBinWinogradRxSf2x3g1'', ''ConvDirectNaiveConvFwd'', ''ConvDirectNaiveConvBwd'',
     ''ConvDirectNaiveConvWrw'', ''GemmFwd1x1_0_1'', ''GemmFwd1x1_0_1_int8'', ''GemmFwd1x1_0_2'',
     ''GemmFwdRest'', ''GemmBwd1x1_stride2'', ''GemmBwd1x1_stride1'', ''GemmBwdRest'',
     ''ConvMlirIgemmFwd'', ''ConvMlirIgemmBwd'', ''ConvMlirIgemmWrW'', ''GemmWrw1x1_stride1'',
     ''GemmWrwUniversal'', ''ConvMlirIgemmFwdXdlops'', ''ConvMlirIgemmBwdXdlops'',
     ''ConvMlirIgemmWrWXdlops'', ''ActivFwdSolver0'',
     ''ConvAsmImplicitGemmGTCDynamicFwdXdlopsNHWC'', ''ConvAsmImplicitGemmGTCDynamicBwdXdlopsNHWC'',
     ''ActivFwdSolver1'', ''ConvAsmImplicitGemmGTCDynamicWrwXdlopsNHWC'', ''ActivBwdSolver0'',
     ''ActivBwdSolver1'', ''BnFwdTrainingSpatialSingle'', ''ConvCkIgemmFwdV6r1DlopsNchw'',
     ''BnFwdTrainingSpatialMultiple'', ''BnFwdTrainingPerActivation'',
     ''BnBwdTrainingSpatialSingle'', ''BnBwdTrainingSpatialMultiple'',
     ''BnBwdTrainingPerActivation'', ''BnFwdInference'', ''PoolingForward2d'', ''PoolingForwardNd'',
     ''TransposedPoolingFwd2d'', ''TransposedPoolingFwdNd'', ''PoolingBackward2d'',
     ''PoolingBackwardNd'', ''ConvAsmImplicitGemmGTCDynamicFwdDlopsNCHWC'']"

lemma registered_names_append:
  "registered_names type_name (rs @ rs') = registered_names type_name rs @ registered_names type_name rs'"
  by (simp add: registered_names_def map_filter_def)

lemma first_names_registered: "registered_names in_namespace early_registrations = first_names"
  by (simp add: early_registrations_def first_names_def registered_names_def map_filter_simps SolverDbId_of_def
      ComputeSolverDbId_def in_namespace_def Let_def)

lemma last_names_registered: "registered_names in_namespace late_registrations = last_names"
  by (simp add: late_registrations_def last_names_def registered_names_def map_filter_simps SolverDbId_of_def
      ComputeSolverDbId_def in_namespace_def Let_def)

lemma first_names_distinct: "distinct first_names"
  by (simp add: first_names_def)

lemma last_names_distinct: "distinct last_names"
  by (simp add: last_names_def)

lemma names_disjoint: "\<forall>s \<in> set first_names. s \<notin> set last_names"
  unfolding first_names_def last_names_def by simp

lemma names_distinct: "distinct (registered_names in_namespace registrations)"
  using registered_names_append [of in_namespace early_registrations late_registrations]
    first_names_distinct last_names_distinct names_disjoint
  by (auto simp: first_names_registered last_names_registered registrations_def)

theorem IdRegistry_ids_witness:
  "distinct (registered_names in_namespace registrations)
   \<and> Id_ToString (IdRegistry in_namespace id) (Id_of_value (IdRegistry in_namespace id) 2) = ''ConvAsm1x1U''
   \<and> \<not> is_valid (Id_of_value (IdRegistry in_namespace id) 10)"
proof -
  note d = names_distinct
  have n: "registrations ! Suc 0 = WithSolver ''ConvAsm1x1U'' Algo_Direct" "registrations ! 9 = Removed"
    "length registrations = 127" by (simp_all add: registrations_def early_registrations_def late_registrations_def)
  have "SolverDbId_of in_namespace ''ConvAsm1x1U'' = ''ConvAsm1x1U''"
    by (simp add: SolverDbId_of_def ComputeSolverDbId_def in_namespace_def Let_def)
  with IdRegistry_ids [OF d, of id 2] IdRegistry_ids [OF d, of id 10] d n show ?thesis
    by (auto simp: entry_of_def)
qed

end
