(* ===== verification/Find_Db.thy ===== *)
theory Find_Db
  imports Solver_Registry Multi_File_Db Runtime_Caches
begin

text \<open>
  The find database (\<open>src/find_db.cpp\<close>, \<open>src/include/miopen/find_db.hpp\<close>, \<open>perf_field.hpp\<close>,
  \<open>finddb_kernel_cache_key.hpp\<close>): what a find has measured for a problem, one entry per algorithm, kept in a
  database under the problem's key and used again when everything it names is built.

  The handle is its two caches, the performance database and the find database; the class over
  which \<open>FindDbRecord_t\<close> is instantiated is the record of its operations. The C++ \<open>float\<close> is the type
  \<open>'f\<close>. \<open>None\<close> as the result of \<open>TryLoad\<close> is \<open>std::terminate\<close>: the destructor stores the record, and
  a destructor that throws ends the process; the regenerator may end it too.
\<close>

section \<open>The entries\<close>

record kcache_key =
  algorithm_name :: string
  network_config :: string

definition unused_config :: string where "unused_config = ''<unused>''"

definition kcache_IsValid :: "kcache_key \<Rightarrow> bool" where
  "kcache_IsValid k \<longleftrightarrow> algorithm_name k \<noteq> [] \<and> network_config k \<noteq> []"

definition kcache_IsUnused :: "kcache_key \<Rightarrow> bool" where
  "kcache_IsUnused k \<longleftrightarrow> network_config k = unused_config"

definition FindDbKCacheKey :: "string \<Rightarrow> string \<Rightarrow> kcache_key result" where
  "FindDbKCacheKey algo config =
     (let k = \<lparr>algorithm_name = algo, network_config = config\<rparr> in
      if \<not> kcache_IsValid k then throw (''Invalid kernel cache key: '' @ algo @ '', '' @ config) else Inr k)"

definition MakeUnused :: "string \<Rightarrow> kcache_key result" where
  "MakeUnused algo = FindDbKCacheKey algo unused_config"

record 'f find_data =
  fd_solver_id :: string
  fd_time :: 'f
  fd_workspace :: nat
  fd_kcache_key :: kcache_key

record 'f perf_field =
  pf_name :: string
  pf_solver_id :: string
  pf_time :: 'f
  pf_workspace :: nat

text \<open>The default-constructed value; \<open>m1\<close> is the float -1.\<close>

definition FindDbData_default :: "'f \<Rightarrow> 'f find_data" where
  "FindDbData_default m1 = \<lparr>fd_solver_id = ''<invalid>'', fd_time = m1, fd_workspace = 2 ^ 64 - 1,
     fd_kcache_key = \<lparr>algorithm_name = [], network_config = []\<rparr>\<rparr>"

definition FindDbData :: "string \<Rightarrow> 'f \<Rightarrow> nat \<Rightarrow> kcache_key \<Rightarrow> 'f find_data result" where
  "FindDbData solver t ws key =
     (if \<not> kcache_IsValid key
      then throw (''Invalid kernel cache key: '' @ algorithm_name key @ '', '' @ network_config key)
      else Inr \<lparr>fd_solver_id = solver, fd_time = t, fd_workspace = ws, fd_kcache_key = key\<rparr>)"

definition FindDbData_Visit :: "'f find_data \<Rightarrow> 'f field list" where
  "FindDbData_Visit d = [FStr (fd_solver_id d), FFloat (fd_time d), FSize (fd_workspace d),
     FStr (algorithm_name (fd_kcache_key d)), FStr (network_config (fd_kcache_key d))]"

fun find_data_of :: "'f field list \<Rightarrow> 'f find_data option" where
  "find_data_of [FStr solver, FFloat t, FSize ws, FStr algo, FStr config] =
     Some \<lparr>fd_solver_id = solver, fd_time = t, fd_workspace = ws,
       fd_kcache_key = \<lparr>algorithm_name = algo, network_config = config\<rparr>\<rparr>"
| "find_data_of _ = None"

text \<open>The text form; \<open>fshow\<close> and \<open>fread\<close> are the stream operators on floats.\<close>

definition FindDbData_Serialize :: "('f \<Rightarrow> string) \<Rightarrow> 'f find_data \<Rightarrow> string" where
  "FindDbData_Serialize fshow d = SerDes_Serialize CHR '','' fshow (FindDbData_Visit d)"

definition FindDbData_Deserialize :: "(string \<Rightarrow> 'f) \<Rightarrow> 'f \<Rightarrow> string \<Rightarrow> 'f find_data option" where
  "FindDbData_Deserialize fread m1 s =
     Option.bind (SerDes_Deserialize CHR '','' fread (FindDbData_Visit (FindDbData_default m1)) s) find_data_of"

definition word_ok :: "string \<Rightarrow> bool" where
  "word_ok s \<longleftrightarrow> s \<noteq> [] \<and> CHR '','' \<notin> set s \<and> (\<forall>c \<in> set s. \<not> is_space c) \<and> values_ok s"

definition find_data_ok :: "('f \<Rightarrow> string) \<Rightarrow> (string \<Rightarrow> 'f) \<Rightarrow> 'f find_data \<Rightarrow> bool" where
  "find_data_ok fshow fread d \<longleftrightarrow> word_ok (fd_solver_id d) \<and> fd_workspace d < 2 ^ 64
     \<and> field_ok CHR '','' fshow fread (FFloat (fd_time d)) \<and> values_ok (fshow (fd_time d))
     \<and> word_ok (algorithm_name (fd_kcache_key d)) \<and> word_ok (network_config (fd_kcache_key d))"

text \<open>An entry is a value of the databases.\<close>

interpretation find_codec: value_codec "FindDbData_Serialize fshow" "FindDbData_Deserialize fread m1"
  "find_data_ok fshow fread"
  for fshow :: "'f \<Rightarrow> string" and fread m1
proof
  fix d :: "'f find_data"
  assume ok: "find_data_ok fshow fread d"
  have "sep_ok CHR '',''" by (simp add: sep_ok_def is_digit_def)
  moreover have "\<forall>x \<in> set (FindDbData_Visit d). field_ok CHR '','' fshow fread x"
    using ok by (auto simp: FindDbData_Visit_def find_data_ok_def word_ok_def)
  moreover have "list_all2 same_type (FindDbData_Visit d) (FindDbData_Visit (FindDbData_default m1))"
    by (simp add: FindDbData_Visit_def)
  ultimately have "snd (DeserializeFields CHR '','' fread True (SerDes_Serialize CHR '','' fshow (FindDbData_Visit d))
      (FindDbData_Visit (FindDbData_default m1))) \<and> fst (DeserializeFields CHR '','' fread True
      (SerDes_Serialize CHR '','' fshow (FindDbData_Visit d)) (FindDbData_Visit (FindDbData_default m1))) = FindDbData_Visit d"
    using DeserializeFields_join [of "CHR '',''" "FindDbData_Visit d" fshow fread]
    by (auto simp: SerDes_Serialize_join)
  then show "FindDbData_Deserialize fread m1 (FindDbData_Serialize fshow d) = Some d"
    by (simp add: FindDbData_Deserialize_def FindDbData_Serialize_def SerDes_Deserialize_def case_prod_unfold)
      (simp add: FindDbData_Visit_def)
  have "values_ok (digits n)" for n
    using digits_all by (fastforce simp: values_ok_def is_digit_def)
  then show "values_ok (FindDbData_Serialize fshow d)"
    using ok set_join_with [of "'',''" "map (show_field fshow) (FindDbData_Visit d)"]
    by (fastforce simp: FindDbData_Serialize_def SerDes_Serialize_join FindDbData_Visit_def find_data_ok_def
        word_ok_def values_ok_def)
qed


section \<open>The record\<close>

text \<open>The handle. \<open>'p\<close> are programs, \<open>'i\<close> invokers, \<open>'d\<close> the performance database, \<open>'u\<close> the find
  database, \<open>'g\<close> the device.\<close>

record ('p, 'i, 'd, 'u, 'g) host =
  h_kernels :: "'p kernel_cache"
  h_invokers :: "'i invoker_cache"
  h_perf_db :: 'd
  h_find_db :: 'u
  h_device :: 'g

definition Handle_GetInvoker_solver ::
  "'s registry \<Rightarrow> ('p, 'i, 'd, 'u, 'g) host \<Rightarrow> string \<Rightarrow> solver_id \<Rightarrow> 'i option" where
  "Handle_GetInvoker_solver reg h config solver =
     InvokerCache_get (h_invokers h) (config, Id_ToString reg solver)"

definition Handle_GetInvoker_algo :: "('p, 'i, 'd, 'u, 'g) host \<Rightarrow> string \<Rightarrow> string \<Rightarrow> 'i option result" where
  "Handle_GetInvoker_algo h config algo = InvokerCache_GetFound1_0 (h_invokers h) config algo"

definition Handle_HasKernel :: "('p, 'i, 'd, 'u, 'g) host \<Rightarrow> kcache_key \<Rightarrow> bool result" where
  "Handle_HasKernel h key = KernelCache_HasKernels (h_kernels h) (algorithm_name key) (network_config key)"

definition CheckInvokerSupport :: "string \<Rightarrow> bool" where
  "CheckInvokerSupport algo \<longleftrightarrow>
     algo = ''miopenConvolutionFwdAlgoDirect'' \<or> algo = ''miopenConvolutionBwdDataAlgoDirect''
   \<or> algo = ''miopenConvolutionBwdWeightsAlgoDirect'' \<or> algo = ''miopenConvolutionFwdAlgoWinograd''
   \<or> algo = ''miopenConvolutionBwdDataAlgoWinograd'' \<or> algo = ''miopenConvolutionBwdWeightsAlgoWinograd''
   \<or> algo = ''miopenConvolutionFwdAlgoImplicitGEMM'' \<or> algo = ''miopenConvolutionBwdDataAlgoImplicitGEMM''
   \<or> algo = ''miopenConvolutionBwdWeightsAlgoImplicitGEMM'' \<or> algo = ''miopenConvolutionFwdAlgoFFT''
   \<or> algo = ''miopenConvolutionBwdDataAlgoFFT'' \<or> algo = ''miopenConvolutionFwdAlgoGEMM''
   \<or> algo = ''miopenConvolutionBwdDataAlgoGEMM'' \<or> algo = ''miopenConvolutionBwdWeightsAlgoGEMM''"

text \<open>The loop of \<open>Validate\<close>: \<open>break\<close> is the result \<open>True\<close> (\<open>unbuilt\<close>).\<close>

fun validate_loop ::
  "'s registry \<Rightarrow> ('p, 'i, 'd, 'u, 'g) host \<Rightarrow> string \<Rightarrow> bool \<Rightarrow> (string \<times> 'f find_data) list \<Rightarrow> bool \<Rightarrow> bool result" where
  "validate_loop reg h config in_sync [] any = Inr (\<not> any)"
| "validate_loop reg h config in_sync ((algo, d) # rest) any =
     (if in_sync then
        (if CheckInvokerSupport algo then
           (if Handle_GetInvoker_solver reg h config (Id_of_str reg (fd_solver_id d)) = None then Inr True
            else validate_loop reg h config in_sync rest True)
         else if \<not> kcache_IsUnused (fd_kcache_key d) then
           (if \<not> kcache_IsValid (fd_kcache_key d) then Inr True
            else (case Handle_HasKernel h (fd_kcache_key d) of
                    Inl e \<Rightarrow> Inl e
                  | Inr False \<Rightarrow> Inr True
                  | Inr True \<Rightarrow> validate_loop reg h config in_sync rest True))
         else validate_loop reg h config in_sync rest any)
      else validate_loop reg h config in_sync rest any)"

text \<open>How the entries of a record are read: the order of the hash map, the float operations.\<close>

record 'f entry_io =
  io_ord :: order
  io_show :: "'f \<Rightarrow> string"
  io_read :: "string \<Rightarrow> 'f"
  io_m1 :: 'f

definition find_entries :: "'f entry_io \<Rightarrow> db_record \<Rightarrow> (string \<times> 'f find_data) list" where
  "find_entries io content =
     DbRecord_As (io_ord io) (FindDbData_Deserialize (io_read io) (io_m1 io)) (FindDbData_default (io_m1 io)) content"

definition FindDb_Validate ::
  "'f entry_io \<Rightarrow> 's registry \<Rightarrow> ('p, 'i, 'd, 'u, 'g) host \<Rightarrow> string \<Rightarrow> bool \<Rightarrow> db_record \<Rightarrow> bool result" where
  "FindDb_Validate io reg h config in_sync content =
     validate_loop reg h config in_sync (find_entries io content) False"

definition perf_field_of :: "string \<times> 'f find_data \<Rightarrow> 'f perf_field" where
  "perf_field_of p = \<lparr>pf_name = fst p, pf_solver_id = fd_solver_id (snd p), pf_time = fd_time (snd p),
     pf_workspace = fd_workspace (snd p)\<rparr>"

definition FindDb_CopyTo :: "'f entry_io \<Rightarrow> db_record \<Rightarrow> 'f perf_field list \<Rightarrow> 'f perf_field list" where
  "FindDb_CopyTo io content to_list = to_list @ map perf_field_of (find_entries io content)"

text \<open>The database class: lookup and store, each of which may throw.\<close>

record 'u find_ops =
  op_find :: "'u \<Rightarrow> string \<Rightarrow> ('u \<times> db_record option) result"
  op_store :: "'u \<Rightarrow> db_record \<Rightarrow> ('u \<times> bool) result"

text \<open>The constructor; \<open>enabled\<close> is \<open>testing_find_db_enabled\<close> without \<open>MIOPEN_DEBUG_DISABLE_FIND_DB\<close>.\<close>

definition FindDbRecord_new :: "'u find_ops \<Rightarrow> bool \<Rightarrow> 'u \<Rightarrow> string \<Rightarrow> ('u \<times> db_record option) result" where
  "FindDbRecord_new ops enabled u key = (if \<not> enabled then Inr (u, None) else op_find ops u key)"

text \<open>The destructor; \<open>None\<close> is \<open>std::terminate\<close>.\<close>

definition FindDbRecord_delete :: "'u find_ops \<Rightarrow> bool \<Rightarrow> 'u \<Rightarrow> db_record option \<Rightarrow> bool \<Rightarrow> 'u option" where
  "FindDbRecord_delete ops enabled u content in_sync =
     (case content of
        None \<Rightarrow> Some u
      | Some r \<Rightarrow>
          if \<not> enabled \<or> in_sync then Some u
          else (case op_store ops u r of Inl _ \<Rightarrow> None | Inr (u', _) \<Rightarrow> Some u'))"

text \<open>\<open>TryLoad\<close>. The regenerator fills the record and changes the handle, also when it throws; the
  record it leaves is stored either way.\<close>

definition TryLoad ::
  "'f entry_io \<Rightarrow> 's registry \<Rightarrow> 'u find_ops \<Rightarrow> bool \<Rightarrow> string \<Rightarrow> string
    \<Rightarrow> (('p, 'i, 'd, 'u, 'g) host \<Rightarrow> db_record \<Rightarrow> (('p, 'i, 'd, 'u, 'g) host \<times> db_record \<times> exn option) option)
    \<Rightarrow> ('p, 'i, 'd, 'u, 'g) host \<Rightarrow> (('p, 'i, 'd, 'u, 'g) host \<times> 'f perf_field list result) option" where
  "TryLoad io reg ops enabled key config regenerator h =
     (case FindDbRecord_new ops enabled (h_find_db h) key of
        Inl e \<Rightarrow> Some (h, Inl e)
      | Inr (u, content) \<Rightarrow>
          let h1 = h\<lparr>h_find_db := u\<rparr>; in_sync = (content \<noteq> None) in
          (case (if in_sync then FindDb_Validate io reg h1 config in_sync (the content) else Inr True) of
             Inl e \<Rightarrow> Some (h1, Inl e)
           | Inr False \<Rightarrow> Some (h1, Inr (FindDb_CopyTo io (the content) []))
           | Inr True \<Rightarrow>
               (case regenerator h1 (DbRecord_of_key key) of
                  None \<Rightarrow> None
                | Some (h2, r, err) \<Rightarrow>
                    (case FindDbRecord_delete ops enabled (h_find_db h2) (Some r) False of
                       None \<Rightarrow> None
                     | Some u' \<Rightarrow>
                         Some (h2\<lparr>h_find_db := u'\<rparr>,
                           (case err of Some e \<Rightarrow> Inl e | None \<Rightarrow> Inr (FindDb_CopyTo io r [])))))))"

section \<open>What validation means\<close>

text \<open>Everything an entry names is built; entries that name nothing do not count.\<close>

definition entry_counts :: "string \<times> 'f find_data \<Rightarrow> bool" where
  "entry_counts p \<longleftrightarrow> CheckInvokerSupport (fst p) \<or> \<not> kcache_IsUnused (fd_kcache_key (snd p))"

definition entry_built :: "'s registry \<Rightarrow> ('p, 'i, 'd, 'u, 'g) host \<Rightarrow> string \<Rightarrow> string \<times> 'f find_data \<Rightarrow> bool" where
  "entry_built reg h config p \<longleftrightarrow>
     (if CheckInvokerSupport (fst p)
      then Handle_GetInvoker_solver reg h config (Id_of_str reg (fd_solver_id (snd p))) \<noteq> None
      else kcache_IsUnused (fd_kcache_key (snd p)) \<or>
        (kcache_IsValid (fd_kcache_key (snd p)) \<and> Handle_HasKernel h (fd_kcache_key (snd p)) = Inr True))"

lemma HasKernel_total: "kc_inv (h_kernels h) \<Longrightarrow> \<exists>b. Handle_HasKernel h key = Inr b"
  unfolding Handle_HasKernel_def by (auto simp: KernelCache_HasKernels_def kc_inv_def split: option.splits)

lemma validate_loop_spec:
  assumes "kc_inv (h_kernels h)"
  shows "validate_loop reg h config True es any =
    Inr (\<not> ((any \<or> (\<exists>p \<in> set es. entry_counts p)) \<and> (\<forall>p \<in> set es. entry_built reg h config p)))"
proof (induction es arbitrary: any)
  case (Cons p es)
  obtain algo d where p: "p = (algo, d)" by (cases p)
  obtain b where "Handle_HasKernel h (fd_kcache_key d) = Inr b" using HasKernel_total [OF assms] by blast
  with p show ?case
    by (cases b) (auto simp: Cons.IH entry_counts_def entry_built_def)
qed simp

lemma Validate_iff:
  assumes "kc_inv (h_kernels h)"
  shows "FindDb_Validate io reg h config True content = Inr (\<not> ((\<exists>p \<in> set (find_entries io content). entry_counts p)
    \<and> (\<forall>p \<in> set (find_entries io content). entry_built reg h config p)))"
  unfolding FindDb_Validate_def validate_loop_spec [OF assms] by simp

lemma set_find_entries:
  assumes "hash_order (io_ord io)" "rec_lookup r = rec_lookup r'" "rec_wf r" "rec_wf r'"
  shows "set (find_entries io r) = set (find_entries io r')"
proof -
  have "set (rec_map r) = set (rec_map r')"
    using assms(2-4) by (auto simp: rec_wf_def) (metis map_of_eq_Some_iff)+
  then show ?thesis by (simp add: find_entries_def DbRecord_As_def hash_order_set [OF assms(1)])
qed

text \<open>Every algorithm of a convolution that its parser knows supports invokers.\<close>

lemma directional_invokers:
  "\<not> (dir = BackwardWeights \<and> algo = Algo_FFT) \<Longrightarrow> CheckInvokerSupport (ConvolutionAlgoToDirectionalString algo dir)"
  by (cases dir; cases algo) (simp_all add: CheckInvokerSupport_def ConvolutionAlgoToDirectionalString_def)


section \<open>What the find database relies on\<close>

definition entries_valid :: "'f entry_io \<Rightarrow> 's registry \<Rightarrow> ('p, 'i, 'd, 'u, 'g) host \<Rightarrow> string \<Rightarrow> db_record \<Rightarrow> bool" where
  "entries_valid io reg h config r \<longleftrightarrow> (\<exists>p \<in> set (find_entries io r). entry_counts p)
     \<and> (\<forall>p \<in> set (find_entries io r). entry_built reg h config p)"

lemma handle_other_find_db [simp]:
  "Handle_GetInvoker_solver reg (h\<lparr>h_find_db := u\<rparr>) = Handle_GetInvoker_solver reg h"
  "Handle_HasKernel (h\<lparr>h_find_db := u\<rparr>) = Handle_HasKernel h"
  by (simp_all add: fun_eq_iff Handle_GetInvoker_solver_def Handle_HasKernel_def)

lemma entries_valid_find_db [simp]:
  "entry_built reg (h\<lparr>h_find_db := u\<rparr>) = entry_built reg h"
  "entries_valid io reg (h\<lparr>h_find_db := u\<rparr>) config r = entries_valid io reg h config r"
  by (simp_all add: fun_eq_iff entries_valid_def entry_built_def)

lemma entries_valid_cong:
  assumes "hash_order (io_ord io)" "rec_lookup q = rec_lookup r" "rec_wf q" "rec_wf r"
  shows "entries_valid io reg h config q = entries_valid io reg h config r"
  unfolding entries_valid_def set_find_entries [OF assms] ..

locale find_store =
  fixes ops :: "'u find_ops"
    and view :: "'u \<Rightarrow> string \<rightharpoonup> (string \<rightharpoonup> string)"
    and inv :: "'u \<Rightarrow> bool"
  assumes find: "inv u \<Longrightarrow> \<exists>u' c. op_find ops u k = Inr (u', c) \<and> inv u' \<and> view u' = view u
      \<and> map_option rec_lookup c = view u k \<and> (\<forall>r. c = Some r \<longrightarrow> rec_key r = k \<and> rec_wf r)"
    and store: "inv u \<Longrightarrow> rec_wf r \<Longrightarrow> key_ok (rec_key r) \<Longrightarrow>
      \<exists>u'. op_store ops u r = Inr (u', True) \<and> inv u' \<and> view u' = put_view (rec_key r) (rec_lookup r) (view u)"
begin

lemma TryLoad_cases:
  assumes "inv (h_find_db h)" "kc_inv (h_kernels h)"
  obtains (hit) u r where "inv u" "view u = view (h_find_db h)" "view u key = Some (rec_lookup r)"
      "rec_wf r" "rec_key r = key" "entries_valid io reg h config r"
      "TryLoad io reg ops True key config regenerator h = Some (h\<lparr>h_find_db := u\<rparr>, Inr (FindDb_CopyTo io r []))"
    | (regenerate) u where "inv u" "view u = view (h_find_db h)"
      "view u key = None \<or> (\<exists>r. view u key = Some (rec_lookup r) \<and> rec_wf r
         \<and> \<not> entries_valid io reg h config r)"
      "TryLoad io reg ops True key config regenerator h =
        (case regenerator (h\<lparr>h_find_db := u\<rparr>) (DbRecord_of_key key) of None \<Rightarrow> None | Some (h2, r, err) \<Rightarrow>
           (case FindDbRecord_delete ops True (h_find_db h2) (Some r) False of
              None \<Rightarrow> None
            | Some u' \<Rightarrow> Some (h2\<lparr>h_find_db := u'\<rparr>,
                (case err of Some e \<Rightarrow> Inl e | None \<Rightarrow> Inr (FindDb_CopyTo io r [])))))"
proof -
  obtain u c where f: "op_find ops (h_find_db h) key = Inr (u, c)" "inv u" "view u = view (h_find_db h)"
      "map_option rec_lookup c = view u key" "\<forall>r. c = Some r \<longrightarrow> rec_key r = key \<and> rec_wf r"
    using find [OF assms(1), of key] by metis
  have kc: "kc_inv (h_kernels (h\<lparr>h_find_db := u\<rparr>))" using assms(2) by simp
  show thesis
  proof (cases c)
    case None
    with f show thesis by (intro regenerate) (auto simp: TryLoad_def FindDbRecord_new_def)
  next
    case (Some r)
    have v: "FindDb_Validate io reg (h\<lparr>h_find_db := u\<rparr>) config True r = Inr (\<not> entries_valid io reg h config r)"
      by (simp add: Validate_iff [OF kc] entries_valid_def)
    show thesis
    proof (cases "entries_valid io reg h config r")
      case True
      with f v Some show thesis by (intro hit [of u r]) (auto simp: TryLoad_def FindDbRecord_new_def)
    next
      case False
      with f v Some show thesis by (intro regenerate [of u]) (auto simp: TryLoad_def FindDbRecord_new_def)
    qed
  qed
qed

text \<open>A lookup of valid entries returns them and changes nothing.\<close>

lemma TryLoad_hit:
  assumes "inv (h_find_db h)" "kc_inv (h_kernels h)" "hash_order (io_ord io)"
    and "view (h_find_db h) key = Some (rec_lookup r)" "rec_wf r"
    and "entries_valid io reg h config r"
  shows "\<exists>u fs. TryLoad io reg ops True key config regenerator h = Some (h\<lparr>h_find_db := u\<rparr>, Inr fs)
    \<and> inv u \<and> view u = view (h_find_db h) \<and> set fs = perf_field_of ` set (find_entries io r)"
proof -
  consider (hit) u q where "inv u" "view u = view (h_find_db h)" "view u key = Some (rec_lookup q)" "rec_wf q"
      "TryLoad io reg ops True key config regenerator h = Some (h\<lparr>h_find_db := u\<rparr>, Inr (FindDb_CopyTo io q []))"
    | (miss) u where "view u = view (h_find_db h)" "view u key = None \<or> (\<exists>r. view u key = Some (rec_lookup r) \<and> rec_wf r
         \<and> \<not> entries_valid io reg h config r)"
    by (rule TryLoad_cases [where key = key and io = io and reg = reg and config = config
        and regenerator = regenerator, OF assms(1,2)]) metis+
  then show ?thesis
  proof cases
    case (hit u q)
    then have "rec_lookup q = rec_lookup r" using assms(4) by simp
    from set_find_entries [OF assms(3) this hit(4) assms(5)] hit show ?thesis by (auto simp: FindDb_CopyTo_def)
  next
    case (miss u)
    then obtain q where q: "rec_lookup q = rec_lookup r" "rec_wf q" "\<not> entries_valid io reg h config q"
      using assms(4) by auto
    have "entries_valid io reg h config q"
      using assms(6) by (simp only: entries_valid_cong [OF assms(3) q(1,2) assms(5)])
    with q(3) show ?thesis by contradiction
  qed
qed

text \<open>What a regeneration leaves in the database is found by the next lookup, which does not
  regenerate, when what the regenerator recorded is built.\<close>

lemma TryLoad_persists:
  assumes "inv (h_find_db h)" "kc_inv (h_kernels h)" "hash_order (io_ord io)" "key_ok key"
    and "\<And>u. regenerator (h\<lparr>h_find_db := u\<rparr>) (DbRecord_of_key key) = Some (h2\<lparr>h_find_db := u\<rparr>, r, None)"
    and "rec_wf r" "rec_key r = key" "kc_inv (h_kernels h2)" "entries_valid io reg h2 config r"
    and "TryLoad io reg ops True key config regenerator h = Some (h', Inr fs)"
    and "view (h_find_db h) key = None"
  shows "\<exists>u fs'. TryLoad io reg ops True key config regenerator' h' = Some (h'\<lparr>h_find_db := u\<rparr>, Inr fs')
    \<and> set fs' = set fs \<and> fs = map perf_field_of (find_entries io r)"
proof -
  have "set (io_ord io (rec_map r)) \<noteq> {}" using assms(9) by (auto simp: entries_valid_def find_entries_def DbRecord_As_def)
  then have ne: "rec_map r \<noteq> []" by (simp add: hash_order_set [OF assms(3)])
  show ?thesis
  proof (rule TryLoad_cases [where key = key and io = io and reg = reg and config = config
        and regenerator = regenerator, OF assms(1,2)])
    fix u q
    assume "view u = view (h_find_db h)" "view u key = Some (rec_lookup q)"
    with assms(11) show ?thesis by simp
  next
    fix u
    assume u: "inv u" "view u = view (h_find_db h)"
      and run: "TryLoad io reg ops True key config regenerator h =
        (case regenerator (h\<lparr>h_find_db := u\<rparr>) (DbRecord_of_key key) of None \<Rightarrow> None | Some (h2, r, err) \<Rightarrow>
           (case FindDbRecord_delete ops True (h_find_db h2) (Some r) False of
              None \<Rightarrow> None
            | Some u' \<Rightarrow> Some (h2\<lparr>h_find_db := u'\<rparr>,
                (case err of Some e \<Rightarrow> Inl e | None \<Rightarrow> Inr (FindDb_CopyTo io r [])))))"
    obtain u' where u': "op_store ops u r = Inr (u', True)" "inv u'"
        "view u' = put_view (rec_key r) (rec_lookup r) (view u)"
      using store [OF u(1) assms(6)] assms(4,7) by blast
    have h': "h' = h2\<lparr>h_find_db := u'\<rparr>" and fs: "fs = map perf_field_of (find_entries io r)"
      using assms(10) run u'(1) by (auto simp: assms(5) FindDbRecord_delete_def FindDb_CopyTo_def)
    have v: "view (h_find_db h') key = Some (rec_lookup r)"
      using u'(3) assms(7) ne by (simp add: h' map_of_eq_empty_iff)
    have "inv (h_find_db h')" "kc_inv (h_kernels h')" "entries_valid io reg h' config r"
      using u'(2) assms(8,9) by (simp_all add: h')
    from TryLoad_hit [OF this(1,2) assms(3) v assms(6) this(3), of regenerator'] fs
    show ?thesis by auto
  qed
qed

end

section \<open>The user's database\<close>

text \<open>\<open>UserFindDb\<close> is \<open>RamDb\<close>.\<close>

definition ram_find_ops :: "env \<Rightarrow> (world \<times> ram_db) find_ops" where
  "ram_find_ops e = \<lparr>op_find = RamDb_FindRecord e, op_store = RamDb_StoreRecord e\<rparr>"

definition ram_find_inv :: "env \<Rightarrow> string \<Rightarrow> world \<times> ram_db \<Rightarrow> bool" where
  "ram_find_inv e path s \<longleftrightarrow> ram_inv e path s \<and> can_write (w_fs (fst s)) path"

lemma UpdateDbModificationTime_fs: "w_fs (UpdateDbModificationTime e w path) = w_fs w"
  by (auto simp: UpdateDbModificationTime_def clock_now_def split: prod.splits)

lemma write_file_fs: "w_fs (fst (write_file e w path res)) = fst res"
  by (auto simp: write_file_def Let_def UpdateDbModificationTime_fs split: prod.splits)

lemma UpdateCacheEntry_fs: "w_fs (fst (RamDb_UpdateCacheEntryUnsafe e (w, db) r)) = w_fs w"
  by (auto simp: RamDb_UpdateCacheEntryUnsafe_def Let_def UpdateDbModificationTime_fs clock_now_def split: prod.splits)

lemma StoreRecord_fs:
  assumes "RamDb_StoreRecord e (w, db) r = Inr (s', True)" "\<not> env_no_io e"
  shows "w_fs (fst s') = fst (PlainTextDb_StoreRecordUnsafe (env_ord e) (w_fs w) (ram_path db) r)"
proof -
  obtain w1 ok where f: "write_file e w (ram_path db) (PlainTextDb_StoreRecordUnsafe (env_ord e) (w_fs w) (ram_path db) r)
      = (w1, ok)" by fastforce
  with assms have "s' = RamDb_UpdateCacheEntryUnsafe e (w1, db) r"
    by (auto simp: RamDb_StoreRecord_def split: if_splits)
  then show ?thesis
    using write_file_fs [of e w "ram_path db" "PlainTextDb_StoreRecordUnsafe (env_ord e) (w_fs w) (ram_path db) r"] f
    by (simp add: UpdateCacheEntry_fs)
qed

interpretation ram_find: find_store "ram_find_ops e" "\<lambda>s. db_view path (w_fs (fst s))" "ram_find_inv e path"
  for e path
proof (unfold_locales, goal_cases)
  case (1 s k)
  then show ?case using ram_find [of e path s k] by (fastforce simp: ram_find_inv_def ram_find_ops_def)
next
  case (2 s r)
  obtain w db where s: "s = (w, db)" by (cases s)
  have ok: "env_ok e" "world_ok path w" "proc_ok path w db" "can_write (w_fs w) path"
    using 2(1) by (simp_all add: s ram_find_inv_def ram_inv_def)
  obtain s' where s': "RamDb_StoreRecord e (w, db) r = Inr (s', True)"
    using StoreRecord_succeeds [OF ok] by blast
  then have "drop_error s False (RamDb_StoreRecord e s r) = (s', True)" by (simp add: s drop_error_def)
  from ram.store_ok [OF _ 2(2,3) this, of path] 2(1)
  have "ram_inv e path s'" "db_view path (w_fs (fst s')) = put_view (rec_key r) (rec_lookup r) (db_view path (w_fs (fst s)))"
    by (simp_all add: ram_find_inv_def)
  moreover have "can_write (w_fs (fst s')) path"
    using StoreRecord_fs [OF s'] FlushUnsafe_can_write [of "env_ord e" "w_fs w" path r] ok
    by (auto simp: env_ok_def proc_ok_def PlainTextDb_StoreRecordUnsafe_def Let_def)
  ultimately show ?case using s s' by (auto simp: ram_find_ops_def ram_find_inv_def)
qed

end
