(* ===== verification/Conv_Solvers.thy ===== *)
theory Conv_Solvers
  imports Solver_Registry Solver_Grid Runtime_Caches
begin

text \<open>
  The solvers of each convolution algorithm (\<open>src/mlo_dir_conv.cpp\<close>), how the find step asks them for
  solutions (the \<open>Find...Solutions\<close> of \<open>src/ocl/convolutionocl.cpp\<close>), and how much workspace an application
  is told to allocate (\<open>src/convolution.cpp\<close>).

  A solver's answers for a problem, the parameter \<open>slv\<close>, may depend on the modes of the context. The
  solver types are written as in the source. The environment is a record of switches.
\<close>

section \<open>Solutions\<close>

text \<open>A solution; its solver's ID is kept beside it. The invoker factory makes an invoker of the kernels
  that were built.\<close>

record ('p, 'i) conv_solution =
  sol_ok :: bool
  sol_workspace :: nat
  sol_params :: "kernel_info list"
  sol_factory :: "('p kernel list \<Rightarrow> 'i) option"

type_synonym ('p, 'i) solution = "string \<times> ('p, 'i) conv_solution"

record conv_switches =
  gemm_disabled :: bool
  direct_disabled :: bool
  winograd_disabled :: bool
  igemm_disabled :: bool
  fft_disabled :: bool
  use_gemm :: bool

section \<open>The containers\<close>

definition GetGemmSolvers :: "string list" where
  "GetGemmSolvers =
    [''GemmFwd1x1_0_1'', ''GemmFwd1x1_0_1_int8'', ''GemmFwd1x1_0_2'', ''GemmFwdRest'',
     ''GemmBwd1x1_stride1'', ''GemmBwd1x1_stride2'', ''GemmBwdRest'', ''GemmWrw1x1_stride1'',
     ''GemmWrwUniversal'']"

definition GetDirectSolvers :: "string list" where
  "GetDirectSolvers =
    [''ConvAsm3x3U'', ''ConvAsm1x1U'', ''ConvAsm1x1UV2'', ''ConvAsm5x10u2v2f1'',
     ''ConvAsm7x7c3h224w224k64u2v2p3q3f1'', ''ConvAsm5x10u2v2b1'', ''ConvOclDirectFwd11x11'',
     ''ConvOclDirectFwdGen'', ''ConvOclDirectFwd1x1'', ''ConvOclDirectFwd'',
     ''ConvDirectNaiveConvFwd'', ''ConvDirectNaiveConvBwd'', ''ConvDirectNaiveConvWrw'']"

definition GetImplicitGemmSolvers :: "string list" where
  "GetImplicitGemmSolvers =
    [''ConvHipImplicitGemmForwardV4R5Xdlops'', ''ConvHipImplicitGemmForwardV4R4Xdlops'',
     ''ConvHipImplicitGemmForwardV4R4Xdlops_Padded_Gemm'', ''ConvHipImplicitGemmBwdDataV4R1Xdlops'',
     ''ConvHipImplicitGemmBwdDataV1R1Xdlops'', ''ConvHipImplicitGemmV4R1Fwd'',
     ''ConvHipImplicitGemmV4R4Fwd'', ''ConvMlirIgemmFwdXdlops'', ''ConvMlirIgemmFwd'',
     ''ConvMlirIgemmBwdXdlops'', ''ConvMlirIgemmBwd'', ''ConvHipImplicitGemmBwdDataV1R1'',
     ''ConvHipImplicitGemmBwdDataV4R1'', ''ConvAsmImplicitGemmV4R1DynamicFwd_1x1'',
     ''ConvAsmImplicitGemmV4R1DynamicFwd'', ''ConvAsmImplicitGemmV4R1DynamicBwd'',
     ''ConvAsmImplicitGemmGTCDynamicFwdXdlops'', ''ConvAsmImplicitGemmGTCDynamicBwdXdlops'',
     ''ConvAsmImplicitGemmGTCDynamicFwdXdlopsNHWC'', ''ConvAsmImplicitGemmGTCDynamicBwdXdlopsNHWC'',
     ''ConvCkIgemmFwdV6r1DlopsNchw'', ''ConvAsmImplicitGemmGTCDynamicFwdDlopsNCHWC'']"

definition GetWindogradSolvers :: "string list" where
  "GetWindogradSolvers =
    [''ConvBinWinograd3x3U'', ''ConvBinWinoRxS<3, 2>'', ''ConvBinWinoRxS<2, 3>'',
     ''ConvBinWinogradRxSf2x3g1'', ''ConvBinWinogradRxS'', ''ConvMPBidirectWinograd<3, 3>'',
     ''ConvMPBidirectWinograd<4, 3>'', ''ConvMPBidirectWinograd<5, 3>'',
     ''ConvMPBidirectWinograd<6, 3>'', ''ConvMPBidirectWinograd_xdlops<2, 3>'',
     ''ConvMPBidirectWinograd_xdlops<3, 3>'', ''ConvMPBidirectWinograd_xdlops<4, 3>'',
     ''ConvMPBidirectWinograd_xdlops<5, 3>'', ''ConvMPBidirectWinograd_xdlops<6, 3>'']"

definition GetImplicitGemmWrWSolvers :: "string list" where
  "GetImplicitGemmWrWSolvers =
    [''ConvHipImplicitGemmWrwV4R4Xdlops'', ''ConvHipImplicitGemmWrwV4R4Xdlops_Padded_Gemm'',
     ''ConvHipImplicitGemmV4R1WrW'', ''ConvHipImplicitGemmV4R4WrW'',
     ''ConvAsmImplicitGemmV4R1DynamicWrw'', ''ConvMlirIgemmWrWXdlops'', ''ConvMlirIgemmWrW'',
     ''ConvAsmImplicitGemmGTCDynamicWrwXdlops'', ''ConvAsmImplicitGemmGTCDynamicWrwXdlopsNHWC'']"

definition GetWindogradWrWSolvers :: "string list" where
  "GetWindogradWrWSolvers =
    [''ConvBinWinogradRxS'', ''ConvBinWinoRxS<3, 2>'', ''ConvBinWinoRxS<2, 3>'',
     ''ConvBinWinogradRxSf2x3g1'', ''ConvWinograd3x3MultipassWrW<3, 2>'',
     ''ConvWinograd3x3MultipassWrW<3, 3>'', ''ConvWinograd3x3MultipassWrW<3, 4>'',
     ''ConvWinograd3x3MultipassWrW<3, 5>'', ''ConvWinograd3x3MultipassWrW<3, 6>'',
     ''ConvWinograd3x3MultipassWrW<7, 2>'', ''ConvWinograd3x3MultipassWrW<7, 3>'',
     ''ConvWinograd3x3MultipassWrW<7, 3, 1, 1>'', ''ConvWinograd3x3MultipassWrW<7, 2, 1, 1>'',
     ''ConvWinograd3x3MultipassWrW<1, 1, 7, 2>'', ''ConvWinograd3x3MultipassWrW<1, 1, 7, 3>'',
     ''ConvWinograd3x3MultipassWrW<5, 3>'', ''ConvWinograd3x3MultipassWrW<5, 4>'']"

definition GetBwdWrW2DSolvers :: "string list" where
  "GetBwdWrW2DSolvers =
    [''ConvAsmBwdWrW1x1'', ''ConvAsmBwdWrW3x3'', ''ConvOclBwdWrW2<1>'', ''ConvOclBwdWrW2<2>'',
     ''ConvOclBwdWrW2<4>'', ''ConvOclBwdWrW2<8>'', ''ConvOclBwdWrW2<16>'',
     ''ConvOclBwdWrW2NonTunable'', ''ConvOclBwdWrW53'', ''ConvOclBwdWrW1x1'',
     ''ConvDirectNaiveConvFwd'', ''ConvDirectNaiveConvBwd'', ''ConvDirectNaiveConvWrw'']"

definition GetFFTSolvers :: "string list" where
  "GetFFTSolvers =
    [''fft'']"


definition container :: "(conv_algo \<times> string list) list" where
  "container =
    [(Algo_GEMM, GetGemmSolvers),
     (Algo_Direct, GetDirectSolvers),
     (Algo_ImplicitGEMM, GetImplicitGemmSolvers),
     (Algo_Winograd, GetWindogradSolvers),
     (Algo_ImplicitGEMM, GetImplicitGemmWrWSolvers),
     (Algo_Winograd, GetWindogradWrWSolvers),
     (Algo_Direct, GetBwdWrW2DSolvers),
     (Algo_FFT, GetFFTSolvers)]"

lemma set_registrations: "set registrations = set early_registrations \<union> set late_registrations"
  by (simp add: registrations_def)

lemma GetGemmSolvers_registered: "\<forall>t \<in> set GetGemmSolvers. WithSolver t Algo_GEMM \<in> set registrations"
  unfolding GetGemmSolvers_def set_registrations early_registrations_def late_registrations_def by simp

lemma GetDirectSolvers_registered: "\<forall>t \<in> set GetDirectSolvers. WithSolver t Algo_Direct \<in> set registrations"
  unfolding GetDirectSolvers_def set_registrations early_registrations_def late_registrations_def by simp

lemma GetImplicitGemmSolvers_registered: "\<forall>t \<in> set GetImplicitGemmSolvers. WithSolver t Algo_ImplicitGEMM \<in> set registrations"
  unfolding GetImplicitGemmSolvers_def set_registrations early_registrations_def late_registrations_def by simp

lemma GetWindogradSolvers_registered: "\<forall>t \<in> set GetWindogradSolvers. WithSolver t Algo_Winograd \<in> set registrations"
  unfolding GetWindogradSolvers_def set_registrations early_registrations_def late_registrations_def by simp

lemma GetImplicitGemmWrWSolvers_registered: "\<forall>t \<in> set GetImplicitGemmWrWSolvers. WithSolver t Algo_ImplicitGEMM \<in> set registrations"
  unfolding GetImplicitGemmWrWSolvers_def set_registrations early_registrations_def late_registrations_def by simp

lemma GetWindogradWrWSolvers_registered: "\<forall>t \<in> set GetWindogradWrWSolvers. WithSolver t Algo_Winograd \<in> set registrations"
  unfolding GetWindogradWrWSolvers_def set_registrations early_registrations_def late_registrations_def by simp

lemma GetBwdWrW2DSolvers_registered: "\<forall>t \<in> set GetBwdWrW2DSolvers. WithSolver t Algo_Direct \<in> set registrations"
  unfolding GetBwdWrW2DSolvers_def set_registrations early_registrations_def late_registrations_def by simp

lemma GetFFTSolvers_registered: "\<forall>t \<in> set GetFFTSolvers. WithSolver t Algo_FFT \<in> set registrations"
  unfolding GetFFTSolvers_def set_registrations early_registrations_def late_registrations_def by simp

lemma container_registered:
  assumes "(algo, ts) \<in> set container" "t \<in> set ts"
  shows "WithSolver t algo \<in> set registrations"
  using assms GetGemmSolvers_registered GetDirectSolvers_registered GetImplicitGemmSolvers_registered
    GetWindogradSolvers_registered GetImplicitGemmWrWSolvers_registered GetWindogradWrWSolvers_registered
    GetBwdWrW2DSolvers_registered GetFFTSolvers_registered
  by (auto simp: container_def simp del: set_registrations)

text \<open>\<open>std::numeric_limits<std::size_t>::max()\<close>.\<close>

definition size_max :: nat where "size_max = 2 ^ 64 - 1"

type_synonym ('c, 'p, 'i) solvers = "find_context \<Rightarrow> string \<Rightarrow> ('c, ('p, 'i) conv_solution) solver"

definition search_all ::
  "('c, 'p, 'i) solvers \<Rightarrow> 'd perf_db \<Rightarrow> nat \<Rightarrow> string list \<Rightarrow> find_context \<Rightarrow> 'd \<Rightarrow> 'd \<times> ('p, 'i) solution list result" where
  "search_all slv db limit types ctx d = SearchForAllSolutions ctx db sol_ok limit (map (slv ctx) types) [] d"

definition workspaces :: "('c, 'p, 'i) solvers \<Rightarrow> nat \<Rightarrow> string list \<Rightarrow> find_context \<Rightarrow> (string \<times> nat) list" where
  "workspaces slv limit types ctx = GetWorkspaceSizes ctx limit (map (slv ctx) types) []"

definition IsGemmAplicable :: "('c, 'p, 'i) solvers \<Rightarrow> find_context \<Rightarrow> bool" where
  "IsGemmAplicable slv ctx = IsAnySolverApplicable ctx (map (slv ctx) GetGemmSolvers) False"

definition FindAllGemmSolutions ::
  "('c, 'p, 'i) solvers \<Rightarrow> 'd perf_db \<Rightarrow> find_context \<Rightarrow> 'd \<Rightarrow> 'd \<times> ('p, 'i) solution list result" where
  "FindAllGemmSolutions slv db = search_all slv db size_max GetGemmSolvers"

definition AllGemmWorkspaceSize :: "('c, 'p, 'i) solvers \<Rightarrow> find_context \<Rightarrow> (string \<times> nat) list" where
  "AllGemmWorkspaceSize slv = workspaces slv size_max GetGemmSolvers"

definition FindAllDirectSolutions ::
  "('c, 'p, 'i) solvers \<Rightarrow> 'd perf_db \<Rightarrow> find_context \<Rightarrow> 'd \<Rightarrow> 'd \<times> ('p, 'i) solution list result" where
  "FindAllDirectSolutions slv db = search_all slv db size_max GetDirectSolvers"

definition AllDirectForwardBackwardDataWorkspaceSize :: "('c, 'p, 'i) solvers \<Rightarrow> find_context \<Rightarrow> (string \<times> nat) list" where
  "AllDirectForwardBackwardDataWorkspaceSize slv = workspaces slv size_max GetDirectSolvers"

definition FindAllWinogradWorkspaceSizes :: "('c, 'p, 'i) solvers \<Rightarrow> find_context \<Rightarrow> (string \<times> nat) list" where
  "FindAllWinogradWorkspaceSizes slv = workspaces slv size_max GetWindogradSolvers"

definition FindWinogradWrWWorkspaceSizes :: "('c, 'p, 'i) solvers \<Rightarrow> find_context \<Rightarrow> (string \<times> nat) list" where
  "FindWinogradWrWWorkspaceSizes slv = workspaces slv size_max GetWindogradWrWSolvers"

text \<open>\<open>WORKAROUND_SWDEV_227826\<close> is defined as 0: all implicit GEMM solvers are sized and searched.\<close>

definition FindAllImplicitGemmWorkspaceSizes :: "('c, 'p, 'i) solvers \<Rightarrow> find_context \<Rightarrow> (string \<times> nat) list" where
  "FindAllImplicitGemmWorkspaceSizes slv = workspaces slv size_max GetImplicitGemmSolvers"

definition FindAllImplicitGemmSolutions ::
  "('c, 'p, 'i) solvers \<Rightarrow> 'd perf_db \<Rightarrow> find_context \<Rightarrow> 'd \<Rightarrow> 'd \<times> ('p, 'i) solution list result" where
  "FindAllImplicitGemmSolutions slv db = search_all slv db size_max GetImplicitGemmSolvers"

definition FindAllWinogradSolutions ::
  "('c, 'p, 'i) solvers \<Rightarrow> 'd perf_db \<Rightarrow> find_context \<Rightarrow> 'd \<Rightarrow> 'd \<times> ('p, 'i) solution list result" where
  "FindAllWinogradSolutions slv db = search_all slv db size_max GetWindogradSolvers"

definition FindWinogradWrWAllSolutions ::
  "('c, 'p, 'i) solvers \<Rightarrow> 'd perf_db \<Rightarrow> find_context \<Rightarrow> 'd \<Rightarrow> 'd \<times> ('p, 'i) solution list result" where
  "FindWinogradWrWAllSolutions slv db = search_all slv db size_max GetWindogradWrWSolvers"

definition AllDirectBwdWrW2DWorkspaceSize :: "('c, 'p, 'i) solvers \<Rightarrow> find_context \<Rightarrow> (string \<times> nat) list" where
  "AllDirectBwdWrW2DWorkspaceSize slv = workspaces slv size_max GetBwdWrW2DSolvers"

definition FindImplicitGemmWrWWorkspaceSizes :: "('c, 'p, 'i) solvers \<Rightarrow> find_context \<Rightarrow> (string \<times> nat) list" where
  "FindImplicitGemmWrWWorkspaceSizes slv = workspaces slv size_max GetImplicitGemmWrWSolvers"

definition FindImplicitGemmWrWAllSolutions ::
  "('c, 'p, 'i) solvers \<Rightarrow> 'd perf_db \<Rightarrow> find_context \<Rightarrow> 'd \<Rightarrow> 'd \<times> ('p, 'i) solution list result" where
  "FindImplicitGemmWrWAllSolutions slv db = search_all slv db size_max GetImplicitGemmWrWSolvers"

definition FindAllBwdWrW2DSolutions ::
  "('c, 'p, 'i) solvers \<Rightarrow> 'd perf_db \<Rightarrow> find_context \<Rightarrow> 'd \<Rightarrow> 'd \<times> ('p, 'i) solution list result" where
  "FindAllBwdWrW2DSolutions slv db = search_all slv db size_max GetBwdWrW2DSolvers"

definition FindAllFFTSolutions ::
  "('c, 'p, 'i) solvers \<Rightarrow> 'd perf_db \<Rightarrow> find_context \<Rightarrow> 'd \<Rightarrow> 'd \<times> ('p, 'i) solution list result" where
  "FindAllFFTSolutions slv db = search_all slv db size_max GetFFTSolvers"

definition AllFFTForwardBackwardDataWorkspaceSize :: "('c, 'p, 'i) solvers \<Rightarrow> find_context \<Rightarrow> (string \<times> nat) list" where
  "AllFFTForwardBackwardDataWorkspaceSize slv = workspaces slv size_max GetFFTSolvers"

section \<open>Asking for solutions\<close>

text \<open>\<open>try\<close> around a search: no solutions when it throws. What it did to the database stays.\<close>

definition or_nothing :: "'d \<times> ('p, 'i) solution list result \<Rightarrow> 'd \<times> ('p, 'i) solution list" where
  "or_nothing r = (case r of (d, Inl e) \<Rightarrow> (d, []) | (d, Inr sols) \<Rightarrow> (d, sols))"

definition FindWinogradSolutions ::
  "conv_switches \<Rightarrow> ('c, 'p, 'i) solvers \<Rightarrow> 'd perf_db \<Rightarrow> find_context \<Rightarrow> 'd \<Rightarrow> 'd \<times> ('p, 'i) solution list" where
  "FindWinogradSolutions sw slv db ctx d =
     (if winograd_disabled sw then (d, []) else or_nothing (FindAllWinogradSolutions slv db ctx d))"

definition FindDataGemmSolutions ::
  "conv_switches \<Rightarrow> ('c, 'p, 'i) solvers \<Rightarrow> 'd perf_db \<Rightarrow> find_context \<Rightarrow> 'd \<Rightarrow> 'd \<times> ('p, 'i) solution list" where
  "FindDataGemmSolutions sw slv db ctx d =
     (if \<not> use_gemm sw \<or> gemm_disabled sw then (d, []) else or_nothing (FindAllGemmSolutions slv db ctx d))"

text \<open>\<open>ctx\<close> is the context made of the problem; \<open>dynamic\<close> is \<open>findMode.IsDynamicHybrid(ctx)\<close>.\<close>

definition data_context :: "find_context \<Rightarrow> bool \<Rightarrow> bool \<Rightarrow> find_context" where
  "data_context ctx dynamic exhaustiveSearch =
     ctx\<lparr>use_dynamic_solutions_only := dynamic, do_search := exhaustiveSearch\<rparr>"

definition FindDataDirectSolutions ::
  "conv_switches \<Rightarrow> ('c, 'p, 'i) solvers \<Rightarrow> 'd perf_db \<Rightarrow> find_context \<Rightarrow> bool \<Rightarrow> bool \<Rightarrow> 'd \<Rightarrow> 'd \<times> ('p, 'i) solution list" where
  "FindDataDirectSolutions sw slv db ctx dynamic exhaustiveSearch d =
     (if direct_disabled sw then (d, [])
      else or_nothing (FindAllDirectSolutions slv db (data_context ctx dynamic exhaustiveSearch) d))"

definition FindDataImplicitGemmSolutions ::
  "conv_switches \<Rightarrow> ('c, 'p, 'i) solvers \<Rightarrow> 'd perf_db \<Rightarrow> find_context \<Rightarrow> bool \<Rightarrow> bool \<Rightarrow> 'd \<Rightarrow> 'd \<times> ('p, 'i) solution list" where
  "FindDataImplicitGemmSolutions sw slv db ctx dynamic exhaustiveSearch d =
     (if igemm_disabled sw then (d, [])
      else or_nothing (FindAllImplicitGemmSolutions slv db (data_context ctx dynamic exhaustiveSearch) d))"

definition FindFftSolutions ::
  "conv_switches \<Rightarrow> ('c, 'p, 'i) solvers \<Rightarrow> 'd perf_db \<Rightarrow> find_context \<Rightarrow> 'd \<Rightarrow> 'd \<times> ('p, 'i) solution list" where
  "FindFftSolutions sw slv db ctx d =
     (if fft_disabled sw then (d, []) else or_nothing (FindAllFFTSolutions slv db ctx d))"

text \<open>The searches of a find for the forward or the backward data direction; \<open>only\<close> is
  \<open>use_winograd_only\<close>. \<open>AutoUseFastDynamicSolutions\<close> sets the flag of the context for the block.\<close>

record ('p, 'i) data_solutions =
  s_gemm :: "('p, 'i) solution list"
  s_winograd :: "('p, 'i) solution list"
  s_direct :: "('p, 'i) solution list"
  s_igemm :: "('p, 'i) solution list"
  s_fft :: "('p, 'i) solution list"

definition AutoUseFastDynamicSolutions :: "find_context \<Rightarrow> find_context" where
  "AutoUseFastDynamicSolutions ctx = ctx\<lparr>use_dynamic_solutions_only := True\<rparr>"

definition FindDataSolutions ::
  "conv_switches \<Rightarrow> ('c, 'p, 'i) solvers \<Rightarrow> 'd perf_db \<Rightarrow> find_context \<Rightarrow> bool \<Rightarrow> bool \<Rightarrow> bool \<Rightarrow> 'd
    \<Rightarrow> 'd \<times> ('p, 'i) data_solutions" where
  "FindDataSolutions sw slv db ctx dynamic exhaustiveSearch only d =
     (if only then
        (case FindWinogradSolutions sw slv db (AutoUseFastDynamicSolutions ctx) d of
           (d1, winograd) \<Rightarrow>
             (d1, \<lparr>s_gemm = [], s_winograd = winograd, s_direct = [], s_igemm = [], s_fft = []\<rparr>))
      else
        (case FindWinogradSolutions sw slv db ctx d of
           (d1, winograd) \<Rightarrow>
         (case FindDataGemmSolutions sw slv db ctx d1 of
           (d2, gemm) \<Rightarrow>
         (case FindDataDirectSolutions sw slv db ctx dynamic exhaustiveSearch d2 of
           (d3, direct) \<Rightarrow>
         (case FindDataImplicitGemmSolutions sw slv db ctx dynamic exhaustiveSearch d3 of
           (d4, igemm) \<Rightarrow>
         (case FindFftSolutions sw slv db ctx d4 of
           (d5, fft) \<Rightarrow>
             (d5, \<lparr>s_gemm = gemm, s_winograd = winograd, s_direct = direct, s_igemm = igemm, s_fft = fft\<rparr>)))))))"

text \<open>The searches of the backward weights direction, where nothing is caught.\<close>

record ('p, 'i) wrw_solutions =
  w_gemm :: "('p, 'i) solution list"
  w_direct :: "('p, 'i) solution list"
  w_winograd :: "('p, 'i) solution list"
  w_igemm :: "('p, 'i) solution list"

definition FindWrwSolutions ::
  "conv_switches \<Rightarrow> ('c, 'p, 'i) solvers \<Rightarrow> 'd perf_db \<Rightarrow> find_context \<Rightarrow> 'd \<Rightarrow> 'd \<times> ('p, 'i) wrw_solutions result" where
  "FindWrwSolutions sw slv db ctx d =
     (case (if gemm_disabled sw then (d, Inr []) else FindAllGemmSolutions slv db ctx d) of
        (d1, Inl e) \<Rightarrow> (d1, Inl e)
      | (d1, Inr gemm) \<Rightarrow>
     (case (if direct_disabled sw then (d1, Inr []) else FindAllBwdWrW2DSolutions slv db ctx d1) of
        (d2, Inl e) \<Rightarrow> (d2, Inl e)
      | (d2, Inr direct) \<Rightarrow>
     (case (if winograd_disabled sw then (d2, Inr []) else FindWinogradWrWAllSolutions slv db ctx d2) of
        (d3, Inl e) \<Rightarrow> (d3, Inl e)
      | (d3, Inr winograd) \<Rightarrow>
     (case (if igemm_disabled sw then (d3, Inr []) else FindImplicitGemmWrWAllSolutions slv db ctx d3) of
        (d4, Inl e) \<Rightarrow> (d4, Inl e)
      | (d4, Inr igemm) \<Rightarrow>
          (d4, Inr \<lparr>w_gemm = gemm, w_direct = direct, w_winograd = winograd, w_igemm = igemm\<rparr>)))))"

section \<open>Workspace sizes\<close>

text \<open>The loop that keeps the larger size, and \<open>std::max_element\<close>.\<close>

definition max_workspace :: "(string \<times> nat) list \<Rightarrow> nat" where
  "max_workspace ps = foldl (\<lambda>sz p. if sz < snd p then snd p else sz) 0 ps"

definition ForwardBackwardGetWorkSpaceSizeImplicitGemm :: "conv_switches \<Rightarrow> ('c, 'p, 'i) solvers \<Rightarrow> find_context \<Rightarrow> nat" where
  "ForwardBackwardGetWorkSpaceSizeImplicitGemm sw slv ctx =
     (if igemm_disabled sw then 0 else max_workspace (FindAllImplicitGemmWorkspaceSizes slv ctx))"

definition ForwardBackwardDataGetWorkSpaceSizeDirect :: "conv_switches \<Rightarrow> ('c, 'p, 'i) solvers \<Rightarrow> find_context \<Rightarrow> nat" where
  "ForwardBackwardDataGetWorkSpaceSizeDirect sw slv ctx =
     (if direct_disabled sw then 0 else max_workspace (AllDirectForwardBackwardDataWorkspaceSize slv ctx))"

definition ForwardBackwardDataGetWorkSpaceSizeFFT :: "conv_switches \<Rightarrow> ('c, 'p, 'i) solvers \<Rightarrow> find_context \<Rightarrow> nat" where
  "ForwardBackwardDataGetWorkSpaceSizeFFT sw slv ctx =
     (if fft_disabled sw then 0 else max_workspace (AllFFTForwardBackwardDataWorkspaceSize slv ctx))"

definition ForwardBackwardDataGetWorkSpaceSizeWinograd :: "conv_switches \<Rightarrow> ('c, 'p, 'i) solvers \<Rightarrow> find_context \<Rightarrow> nat" where
  "ForwardBackwardDataGetWorkSpaceSizeWinograd sw slv ctx =
     (if winograd_disabled sw then 0 else max_workspace (FindAllWinogradWorkspaceSizes slv ctx))"

definition gemm_workspace :: "conv_switches \<Rightarrow> ('c, 'p, 'i) solvers \<Rightarrow> find_context \<Rightarrow> nat" where
  "gemm_workspace sw slv ctx =
     (if \<not> use_gemm sw \<or> gemm_disabled sw then 0
      else (case AllGemmWorkspaceSize slv ctx of [] \<Rightarrow> 0 | p # ps \<Rightarrow> Max (snd ` set (p # ps))))"

text \<open>The context of the size queries.\<close>

definition size_context :: "find_context \<Rightarrow> find_context" where
  "size_context ctx = ctx\<lparr>do_search := False, disable_perfdb_access := True\<rparr>"

text \<open>The size for the forward and the backward data direction when it is not read off an immediate
  solution; \<open>fast\<close> is \<open>IsWinograd3x3SupportedAndFast\<close>, \<open>dilated\<close> tells whether a dilation exceeds 1.\<close>

definition DataGetWorkSpaceSize :: "conv_switches \<Rightarrow> ('c, 'p, 'i) solvers \<Rightarrow> find_context \<Rightarrow> bool \<Rightarrow> bool \<Rightarrow> nat" where
  "DataGetWorkSpaceSize sw slv ctx fast dilated =
     (if fast then ForwardBackwardDataGetWorkSpaceSizeWinograd sw slv (ctx\<lparr>use_dynamic_solutions_only := True\<rparr>)
      else
        let winograd = ForwardBackwardDataGetWorkSpaceSizeWinograd sw slv ctx;
            direct = ForwardBackwardDataGetWorkSpaceSizeDirect sw slv ctx;
            igemm = ForwardBackwardGetWorkSpaceSizeImplicitGemm sw slv ctx;
            gemm = gemm_workspace sw slv ctx
        in if use_gemm sw \<and> \<not> gemm_disabled sw \<and> dilated then Max {gemm, direct, igemm, winograd}
           else Max {ForwardBackwardDataGetWorkSpaceSizeFFT sw slv ctx, gemm, direct, igemm, winograd})"

definition BackwardWeightsGetWorkSpaceSizeDirect :: "conv_switches \<Rightarrow> ('c, 'p, 'i) solvers \<Rightarrow> find_context \<Rightarrow> nat" where
  "BackwardWeightsGetWorkSpaceSizeDirect sw slv ctx =
     (if direct_disabled sw then 0 else max_workspace (AllDirectBwdWrW2DWorkspaceSize slv ctx))"

text \<open>A throw in the body of the \<open>try\<close> gives 0.\<close>

definition BackwardWeightsGetWorkSpaceSizeWinograd :: "conv_switches \<Rightarrow> ('c, 'p, 'i) solvers \<Rightarrow> find_context \<Rightarrow> nat" where
  "BackwardWeightsGetWorkSpaceSizeWinograd sw slv ctx =
     (if winograd_disabled sw \<or> do_search ctx then 0 else max_workspace (FindWinogradWrWWorkspaceSizes slv ctx))"

definition BackwardWeightsGetWorkSpaceSizeImplicitGemm :: "conv_switches \<Rightarrow> ('c, 'p, 'i) solvers \<Rightarrow> find_context \<Rightarrow> nat" where
  "BackwardWeightsGetWorkSpaceSizeImplicitGemm sw slv ctx =
     (if igemm_disabled sw \<or> do_search ctx then 0 else max_workspace (FindImplicitGemmWrWWorkspaceSizes slv ctx))"

definition BackwardWeightsGetWorkSpaceSize_find :: "conv_switches \<Rightarrow> ('c, 'p, 'i) solvers \<Rightarrow> find_context \<Rightarrow> nat" where
  "BackwardWeightsGetWorkSpaceSize_find sw slv ctx =
     Max {BackwardWeightsGetWorkSpaceSizeImplicitGemm sw slv ctx, BackwardWeightsGetWorkSpaceSizeWinograd sw slv ctx,
          BackwardWeightsGetWorkSpaceSizeDirect sw slv ctx, gemm_workspace sw slv ctx}"


section \<open>The workspace is large enough\<close>

definition yields :: "('c, 's) solver \<Rightarrow> 's \<Rightarrow> bool" where
  "yields s sol \<longleftrightarrow> GetSolution0 s = Inr sol \<or> (\<exists>c. GetSolution s c = Inr sol)"

lemma search_and_store_yields: "search_and_store db s d = (d', Inr sol) \<Longrightarrow> yields s sol"
  by (auto simp: search_and_store_def yields_def split: sum.splits prod.splits)

lemma default_yields: "default_solution s = Inr sol \<Longrightarrow> yields s sol"
  by (auto simp: default_solution_def yields_def split: sum.splits)

lemma FindSolution_yields:
  assumes "FindSolution ctx db s d = (d', Inr x)"
  shows "fst x = SolverDbId s" "yields s (snd x)"
proof -
  show "fst x = SolverDbId s" using assms by (auto simp: FindSolution_def split: prod.splits sum.splits if_splits)
  have impl: "yields s sol" if "FindSolutionImpl1 ctx db s d = (d', Inr sol)" for sol
    using that by (auto simp: FindSolutionImpl1_def split: if_splits prod.splits sum.splits option.splits
        dest: search_and_store_yields default_yields) (auto simp: yields_def)
  show "yields s (snd x)"
    using assms by (auto simp: FindSolution_def yields_def split: prod.splits sum.splits if_splits dest: impl [unfolded yields_def])
qed

text \<open>Where the solutions of a search come from.\<close>

lemma SearchForAllSolutions_yields:
  assumes "SearchForAllSolutions ctx db succeeded limit solvers ss d = (d', Inr sols)" "x \<in> set sols - set ss"
  shows "\<exists>s \<in> set solvers. usable ctx s \<and> fst x = SolverDbId s \<and> yields s (snd x)"
  using assms
proof (induction solvers arbitrary: ss d)
  case (Cons s rest)
  show ?case
  proof (cases "length ss < limit \<and> usable ctx s")
    case False
    then have "SearchForAllSolutions ctx db succeeded limit rest ss d = (d', Inr sols)"
      using Cons.prems(1) by (auto simp: usable_def split: if_splits)
    from Cons.IH [OF this Cons.prems(2)] show ?thesis by auto
  next
    case True
    then obtain d1 sol where f: "FindSolution ctx db s d = (d1, Inr sol)"
      and rec: "SearchForAllSolutions ctx db succeeded limit rest (if succeeded (snd sol) then ss @ [sol] else ss) d1
        = (d', Inr sols)"
      using Cons.prems(1) by (auto simp: usable_def split: prod.splits sum.splits)
    show ?thesis
    proof (cases "x = sol")
      case True
      with FindSolution_yields [OF f] \<open>length ss < limit \<and> usable ctx s\<close> show ?thesis by auto
    next
      case False
      with Cons.prems(2) have "x \<in> set sols - set (if succeeded (snd sol) then ss @ [sol] else ss)" by simp
      from Cons.IH [OF rec this] show ?thesis by auto
    qed
  qed
qed simp

text \<open>What the sizes rely on: a solver answers alike in every mode of the context, and a solution asks
  for no more than the solver announces.\<close>

definition same_answers :: "('c, 'p, 'i) solvers \<Rightarrow> bool" where
  "same_answers slv \<longleftrightarrow> (\<forall>c c' t. SolverDbId (slv c t) = SolverDbId (slv c' t) \<and> IsDynamic (slv c t) = IsDynamic (slv c' t)
     \<and> IsApplicable (slv c t) = IsApplicable (slv c' t) \<and> MayNeedWorkspace (slv c t) = MayNeedWorkspace (slv c' t)
     \<and> GetWorkspaceSize (slv c t) = GetWorkspaceSize (slv c' t))"

definition announced :: "('c, ('p, 'i) conv_solution) solver \<Rightarrow> nat" where
  "announced s = (if MayNeedWorkspace s then GetWorkspaceSize s else 0)"

definition keeps_announced :: "('c, 'p, 'i) solvers \<Rightarrow> bool" where
  "keeps_announced slv \<longleftrightarrow> (\<forall>c t sol. yields (slv c t) sol \<longrightarrow> sol_workspace sol \<le> announced (slv c t))"

definition same_selection :: "find_context \<Rightarrow> find_context \<Rightarrow> bool" where
  "same_selection c c' \<longleftrightarrow> find_only c = find_only c' \<and> use_dynamic_solutions_only c = use_dynamic_solutions_only c'"

lemma max_workspace_acc: "foldl (\<lambda>sz p. if sz < snd p then snd p else sz) n ps = fold max (map snd ps) n" for n :: nat
  by (induction ps arbitrary: n) (auto simp: max_def)

lemma le_max_workspace: "p \<in> set ps \<Longrightarrow> snd p \<le> max_workspace ps"
  unfolding max_workspace_def max_workspace_acc Max.set_eq_fold [symmetric]
  by (intro Max_ge) auto

lemma gemm_workspace_eq:
  "gemm_workspace sw slv ctx = (if \<not> use_gemm sw \<or> gemm_disabled sw then 0 else max_workspace (AllGemmWorkspaceSize slv ctx))"
proof -
  have "max_workspace (p # ps) = Max (snd ` set (p # ps))" for p :: "string \<times> nat" and ps
    unfolding max_workspace_def max_workspace_acc Max.set_eq_fold [symmetric] by simp
  then show ?thesis by (auto simp: gemm_workspace_def max_workspace_def split: list.splits)
qed

lemma search_all_bounded:
  assumes "same_answers slv" "keeps_announced slv" "length types \<le> 100" "same_selection ctx ctx'"
    and "search_all slv db size_max types ctx d = (d', Inr sols)" "x \<in> set sols"
  shows "sol_workspace (snd x) \<le> max_workspace (workspaces slv size_max types ctx')"
proof -
  have same: "usable ctx' (slv ctx' t) = usable ctx (slv ctx t)" "announced (slv ctx' t) = announced (slv ctx t)"
    "MayNeedWorkspace (slv ctx' t) = MayNeedWorkspace (slv ctx t)" for t
    using assms(1) [unfolded same_answers_def, rule_format, of ctx' t ctx] assms(4)
    by (auto simp: usable_def skipped_def announced_def same_selection_def split: option.splits)
  obtain t where t: "t \<in> set types" "usable ctx (slv ctx t)" "yields (slv ctx t) (snd x)"
    using SearchForAllSolutions_yields [OF assms(5) [unfolded search_all_def], of x] assms(6) by auto
  have "sol_workspace (snd x) \<le> announced (slv ctx t)" using assms(2) t(3) by (auto simp: keeps_announced_def)
  also have "\<dots> \<le> max_workspace (workspaces slv size_max types ctx')"
  proof (cases "MayNeedWorkspace (slv ctx t)")
    case True
    let ?u = "filter (\<lambda>s. usable ctx' s \<and> MayNeedWorkspace s) (map (slv ctx') types)"
    have "length ?u \<le> size_max"
    proof -
      have "length ?u \<le> length (map (slv ctx') types)" by (rule length_filter_le)
      also have "\<dots> \<le> 100" using assms(3) by simp
      finally show ?thesis by (simp add: size_max_def del: length_map)
    qed
    then have "(SolverDbId (slv ctx' t), GetWorkspaceSize (slv ctx' t)) \<in> set (workspaces slv size_max types ctx')"
      using t True by (auto simp: workspaces_def GetWorkspaceSizes_acc same)
    from le_max_workspace [OF this] True same(2,3) [of t] show ?thesis by (simp add: announced_def)
  qed (simp add: announced_def)
  finally show ?thesis .
qed

lemma or_nothing_bounded:
  assumes "same_answers slv" "keeps_announced slv" "length types \<le> 100" "same_selection ctx ctx'"
    and "or_nothing (search_all slv db size_max types ctx d) = (d', sols)" "x \<in> set sols"
  shows "sol_workspace (snd x) \<le> max_workspace (workspaces slv size_max types ctx')"
  using assms(5,6) search_all_bounded [OF assms(1-4)] by (cases x) (auto simp: or_nothing_def split: prod.splits sum.splits)

lemma container_lengths [simp]: "length GetGemmSolvers \<le> 100" "length GetDirectSolvers \<le> 100"
  "length GetWindogradSolvers \<le> 100" "length GetWindogradWrWSolvers \<le> 100" "length GetBwdWrW2DSolvers \<le> 100"
  "length GetFFTSolvers \<le> 100" "length GetImplicitGemmSolvers \<le> 100" "length GetImplicitGemmWrWSolvers \<le> 100"
  by (simp_all add: GetGemmSolvers_def GetDirectSolvers_def GetWindogradSolvers_def GetWindogradWrWSolvers_def
      GetBwdWrW2DSolvers_def GetFFTSolvers_def GetImplicitGemmSolvers_def GetImplicitGemmWrWSolvers_def)

lemma same_selection_simps [simp]:
  "same_selection (c\<lparr>do_search := b\<rparr>) c' = same_selection c c'"
  "same_selection c (c'\<lparr>do_search := b\<rparr>) = same_selection c c'"
  "same_selection c (c'\<lparr>disable_perfdb_access := b\<rparr>) = same_selection c c'"
  "same_selection (c\<lparr>use_dynamic_solutions_only := b\<rparr>) c' \<longleftrightarrow> find_only c = find_only c' \<and> b = use_dynamic_solutions_only c'"
  by (auto simp: same_selection_def)

lemma SearchForAllSolutions_unusable:
  "\<forall>s \<in> set ss. \<not> IsApplicable s \<Longrightarrow> SearchForAllSolutions ctx db succeeded limit ss res d = (d, Inr res)"
  by (induction ss) auto

lemma unusable_search:
  "\<forall>c. \<forall>t \<in> set types. \<not> IsApplicable (slv c t) \<Longrightarrow> search_all slv db limit types ctx d = (d, Inr [])"
  by (simp add: search_all_def SearchForAllSolutions_unusable)

text \<open>In the forward and backward data directions no solution of the five searches asks for more than the size that is
  not read off an immediate solution.  The size leaves out FFT for dilated convolutions, to which the FFT solver is
  not applicable.\<close>

lemma data_searches_bounded:
  assumes "same_answers slv" "keeps_announced slv"
    and "dilated \<longrightarrow> (\<forall>c. \<not> IsApplicable (slv c ''fft''))" "use_dynamic_solutions_only ctx = dynamic"
    and "FindDataSolutions sw slv db ctx dynamic exhaustiveSearch fast d = (d', fs)"
    and "x \<in> set (s_gemm fs @ s_winograd fs @ s_direct fs @ s_igemm fs @ s_fft fs)"
  shows "sol_workspace (snd x) \<le> DataGetWorkSpaceSize sw slv (size_context ctx) fast dilated"
proof -
  note b = or_nothing_bounded [OF assms(1,2)]
  let ?S = "size_context ctx"
  have dc: "same_selection (data_context ctx dynamic exhaustiveSearch) ?S" "same_selection ctx ?S"
    "same_selection (AutoUseFastDynamicSolutions ctx) (?S\<lparr>use_dynamic_solutions_only := True\<rparr>)"
    using assms(4) by (simp_all add: data_context_def size_context_def AutoUseFastDynamicSolutions_def same_selection_def)
  have winograd: "sol_workspace (snd x) \<le> ForwardBackwardDataGetWorkSpaceSizeWinograd sw slv c'"
    if "FindWinogradSolutions sw slv db c d0 = (d1, sols)" "x \<in> set sols" "same_selection c c'" for c c' d0 d1 sols
    using that
    by (auto simp: FindWinogradSolutions_def ForwardBackwardDataGetWorkSpaceSizeWinograd_def FindAllWinogradSolutions_def
        FindAllWinogradWorkspaceSizes_def split: if_splits intro: b [OF _ that(3)])
  have gemm: "sol_workspace (snd x) \<le> gemm_workspace sw slv ?S"
    if "FindDataGemmSolutions sw slv db ctx d0 = (d1, sols)" "x \<in> set sols" for d0 d1 sols
    using that
    by (auto simp: FindDataGemmSolutions_def gemm_workspace_eq FindAllGemmSolutions_def AllGemmWorkspaceSize_def split: if_splits intro: b [OF _ dc(2)])
  have direct: "sol_workspace (snd x) \<le> ForwardBackwardDataGetWorkSpaceSizeDirect sw slv ?S"
    if "FindDataDirectSolutions sw slv db ctx dynamic exhaustiveSearch d0 = (d1, sols)" "x \<in> set sols" for d0 d1 sols
    using that
    by (auto simp: FindDataDirectSolutions_def ForwardBackwardDataGetWorkSpaceSizeDirect_def FindAllDirectSolutions_def
        AllDirectForwardBackwardDataWorkspaceSize_def split: if_splits intro: b [OF _ dc(1)])
  have igemm: "sol_workspace (snd x) \<le> ForwardBackwardGetWorkSpaceSizeImplicitGemm sw slv ?S"
    if "FindDataImplicitGemmSolutions sw slv db ctx dynamic exhaustiveSearch d0 = (d1, sols)" "x \<in> set sols" for d0 d1 sols
    using that
    by (auto simp: FindDataImplicitGemmSolutions_def ForwardBackwardGetWorkSpaceSizeImplicitGemm_def
        FindAllImplicitGemmSolutions_def FindAllImplicitGemmWorkspaceSizes_def split: if_splits intro: b [OF _ dc(1)])
  have fft: "sol_workspace (snd x) \<le> ForwardBackwardDataGetWorkSpaceSizeFFT sw slv ?S \<and> \<not> dilated"
    if f: "FindFftSolutions sw slv db ctx d0 = (d1, sols)" "x \<in> set sols" for d0 d1 sols
  proof
    show "sol_workspace (snd x) \<le> ForwardBackwardDataGetWorkSpaceSizeFFT sw slv ?S"
      using that
      by (auto simp: FindFftSolutions_def ForwardBackwardDataGetWorkSpaceSizeFFT_def FindAllFFTSolutions_def
          AllFFTForwardBackwardDataWorkspaceSize_def split: if_splits intro: b [OF _ dc(2)])
    show "\<not> dilated"
      using f assms(3) unusable_search [of GetFFTSolvers slv db size_max ctx d0]
      by (auto simp: FindFftSolutions_def FindAllFFTSolutions_def GetFFTSolvers_def or_nothing_def split: if_splits)
  qed
  show ?thesis
  proof (cases fast)
    case True
    then show ?thesis using assms(5,6) winograd [OF _ _ dc(3)]
      by (auto simp: FindDataSolutions_def DataGetWorkSpaceSize_def split: prod.splits)
  next
    case False
    then show ?thesis using assms(5,6) winograd [OF _ _ dc(2)] gemm direct igemm fft
      by (fastforce simp: FindDataSolutions_def DataGetWorkSpaceSize_def Let_def le_max_iff_disj split: prod.splits)
  qed
qed

text \<open>The same for backward weights, when the four searches succeed. Here the GEMM solvers are asked also in a build
  without GEMM, where they must not be applicable, because the size leaves them out.\<close>

lemma wrw_searches_bounded:
  assumes "same_answers slv" "keeps_announced slv"
    and "use_gemm sw \<or> (\<forall>c. \<forall>t \<in> set GetGemmSolvers. \<not> IsApplicable (slv c t))"
    and "FindWrwSolutions sw slv db ctx d = (d', Inr fs)"
    and "x \<in> set (w_gemm fs @ w_direct fs @ w_winograd fs @ w_igemm fs)"
  shows "sol_workspace (snd x) \<le> BackwardWeightsGetWorkSpaceSize_find sw slv (size_context ctx)"
proof -
  note b = search_all_bounded [OF assms(1,2)]
  let ?S = "size_context ctx"
  have sel: "same_selection ctx ?S" by (simp add: size_context_def same_selection_def)
  have ds: "\<not> do_search ?S" by (simp add: size_context_def)
  obtain d1 d2 d3 where
      gemm: "(if gemm_disabled sw then (d, Inr []) else FindAllGemmSolutions slv db ctx d) = (d1, Inr (w_gemm fs))"
    and direct: "(if direct_disabled sw then (d1, Inr []) else FindAllBwdWrW2DSolutions slv db ctx d1) = (d2, Inr (w_direct fs))"
    and winograd: "(if winograd_disabled sw then (d2, Inr []) else FindWinogradWrWAllSolutions slv db ctx d2) = (d3, Inr (w_winograd fs))"
    and igemm: "(if igemm_disabled sw then (d3, Inr []) else FindImplicitGemmWrWAllSolutions slv db ctx d3) = (d', Inr (w_igemm fs))"
    using assms(4) by (auto simp: FindWrwSolutions_def split: prod.splits sum.splits)
  have "sol_workspace (snd x) \<le> gemm_workspace sw slv ?S" if "x \<in> set (w_gemm fs)"
    using that gemm assms(3) unusable_search [of GetGemmSolvers slv db size_max ctx d]
    by (auto simp: gemm_workspace_eq FindAllGemmSolutions_def AllGemmWorkspaceSize_def split: if_splits
        intro: b [OF _ sel])
  moreover have "sol_workspace (snd x) \<le> BackwardWeightsGetWorkSpaceSizeDirect sw slv ?S" if "x \<in> set (w_direct fs)"
    using that direct
    by (auto simp: BackwardWeightsGetWorkSpaceSizeDirect_def FindAllBwdWrW2DSolutions_def
        AllDirectBwdWrW2DWorkspaceSize_def split: if_splits intro: b [OF _ sel])
  moreover have "sol_workspace (snd x) \<le> BackwardWeightsGetWorkSpaceSizeWinograd sw slv ?S" if "x \<in> set (w_winograd fs)"
    using that winograd ds
    by (auto simp: BackwardWeightsGetWorkSpaceSizeWinograd_def FindWinogradWrWAllSolutions_def
        FindWinogradWrWWorkspaceSizes_def split: if_splits intro: b [OF _ sel])
  moreover have "sol_workspace (snd x) \<le> BackwardWeightsGetWorkSpaceSizeImplicitGemm sw slv ?S" if "x \<in> set (w_igemm fs)"
    using that igemm ds
    by (auto simp: BackwardWeightsGetWorkSpaceSizeImplicitGemm_def FindImplicitGemmWrWAllSolutions_def
        FindImplicitGemmWrWWorkspaceSizes_def split: if_splits intro: b [OF _ sel])
  ultimately show ?thesis
    using assms(5) by (auto simp: BackwardWeightsGetWorkSpaceSize_find_def le_max_iff_disj)
qed

text \<open>One applicable solver, whose solution takes 64 bytes.\<close>

definition example_solution :: "(unit, unit) conv_solution" where
  "example_solution = \<lparr>sol_ok = True, sol_workspace = 64, sol_params = [], sol_factory = Some (\<lambda>_. ())\<rparr>"

definition example_solvers :: "(unit, unit, unit) solvers" where
  "example_solvers ctx t = \<lparr>SolverDbId = t, IsDynamic = True, IsApplicable = (t = ''GemmFwdRest''), MayNeedWorkspace = True,
     GetWorkspaceSize = 64, searchable = False, GetDefaultPerformanceConfig = Inr (), IsValidPerformanceConfig = (\<lambda>_. True),
     SearchConfig = Inr (), GetSolution = (\<lambda>_. Inr example_solution), GetSolution0 = Inr example_solution,
     ser = (\<lambda>_. ''1''), deser = (\<lambda>_. Some ())\<rparr>"

definition example_switches :: conv_switches where
  "example_switches = \<lparr>gemm_disabled = False, direct_disabled = False, winograd_disabled = False, igemm_disabled = False,
     fft_disabled = False, use_gemm = True\<rparr>"

definition example_db :: "unit perf_db" where
  "example_db = \<lparr>pd_load = (\<lambda>_ _. ((), Inr None)), pd_update = (\<lambda>_ _ _. ((), Inr True)), pd_remove = (\<lambda>_ _. ((), Inr True))\<rparr>"

lemma example_solvers_ok: "same_answers example_solvers" "keeps_announced example_solvers"
  by (auto simp: same_answers_def keeps_announced_def yields_def announced_def example_solvers_def example_solution_def)

lemma example_search:
  "search_all example_solvers example_db size_max GetGemmSolvers (example_run Enforce_None) () = ((), Inr [(''GemmFwdRest'', example_solution)])"
  "''GemmFwdRest'' \<notin> set types \<Longrightarrow> search_all example_solvers example_db limit types ctx () = ((), Inr [])"
proof -
  show "search_all example_solvers example_db size_max GetGemmSolvers (example_run Enforce_None) () = ((), Inr [(''GemmFwdRest'', example_solution)])"
    by (simp add: search_all_def GetGemmSolvers_def example_solvers_def skipped_def example_run_def FindSolution_def size_max_def)
      (simp add: example_solution_def)
  show "''GemmFwdRest'' \<notin> set types \<Longrightarrow> search_all example_solvers example_db limit types ctx () = ((), Inr [])"
    by (rule unusable_search) (auto simp: example_solvers_def)
qed

end
