(* ===== verification/Std_Sort.thy ===== *)
theory Std_Sort
  imports Prelude
begin

text \<open>
  \<open>std::sort\<close> with an \<open>operator<\<close>: the insertion sort that the standard library uses for short ranges,
  which puts an element that is less than the first one at the front and moves another one left past
  the elements it is less than. The order of equivalent elements, which the standard leaves open,
  is that of the input. The result is a permutation whatever the operator is; it is sorted when the operator
  is a strict weak order on the elements.
\<close>

definition linear_insert :: "('a \<Rightarrow> 'a \<Rightarrow> bool) \<Rightarrow> 'a list \<Rightarrow> 'a \<Rightarrow> 'a list" where
  "linear_insert lt xs x =
     (let n = length (takeWhile (lt x) (rev xs)) in take (length xs - n) xs @ x # drop (length xs - n) xs)"

definition sort_insert :: "('a \<Rightarrow> 'a \<Rightarrow> bool) \<Rightarrow> 'a list \<Rightarrow> 'a \<Rightarrow> 'a list" where
  "sort_insert lt xs x = (if xs \<noteq> [] \<and> lt x (hd xs) then x # xs else linear_insert lt xs x)"

definition std_sort :: "('a \<Rightarrow> 'a \<Rightarrow> bool) \<Rightarrow> 'a list \<Rightarrow> 'a list" where
  "std_sort lt xs = foldl (sort_insert lt) [] xs"

lemma mset_linear_insert: "mset (linear_insert lt xs x) = add_mset x (mset xs)"
  unfolding linear_insert_def Let_def
  by (metis append_take_drop_id mset.simps(2) mset_append union_mset_add_mset_right)

lemma mset_std_sort [simp]: "mset (std_sort lt xs) = mset xs"
proof -
  have "mset (foldl (sort_insert lt) acc xs) = mset acc + mset xs" for acc
    by (induction xs arbitrary: acc) (simp_all add: sort_insert_def mset_linear_insert)
  then show ?thesis by (simp add: std_sort_def)
qed

lemma set_std_sort [simp]: "set (std_sort lt xs) = set xs"
  by (metis mset_std_sort set_mset_mset)

lemma length_std_sort [simp]: "length (std_sort lt xs) = length xs"
  by (metis mset_std_sort size_mset)

lemma std_sort_Nil [simp]: "std_sort lt xs = [] \<longleftrightarrow> xs = []"
  by (metis length_0_conv length_std_sort)

definition weak_order_on :: "'a set \<Rightarrow> ('a \<Rightarrow> 'a \<Rightarrow> bool) \<Rightarrow> bool" where
  "weak_order_on A lt \<longleftrightarrow> (\<forall>x \<in> A. \<forall>y \<in> A. lt x y \<longrightarrow> \<not> lt y x)
     \<and> (\<forall>x \<in> A. \<forall>y \<in> A. \<forall>z \<in> A. \<not> lt x y \<longrightarrow> \<not> lt y z \<longrightarrow> \<not> lt x z)"

lemma weak_orderD:
  assumes "weak_order_on A lt" "x \<in> A" "y \<in> A"
  shows "lt x y \<Longrightarrow> \<not> lt y x" "\<not> lt x x" "z \<in> A \<Longrightarrow> \<not> lt x y \<Longrightarrow> \<not> lt y z \<Longrightarrow> \<not> lt x z"
  using assms unfolding weak_order_on_def by blast+

lemma weak_order_subset: "weak_order_on A lt \<Longrightarrow> B \<subseteq> A \<Longrightarrow> weak_order_on B lt"
  unfolding weak_order_on_def by blast

definition in_order :: "('a \<Rightarrow> 'a \<Rightarrow> bool) \<Rightarrow> 'a list \<Rightarrow> bool" where
  "in_order lt xs = sorted_wrt (\<lambda>x y. \<not> lt y x) xs"

lemma in_order_linear_insert:
  assumes w: "weak_order_on (insert x (set xs)) lt" and s: "in_order lt xs"
  shows "in_order lt (linear_insert lt xs x)"
proof -
  define n where "n = length (takeWhile (lt x) (rev xs))"
  define a b where "a = take (length xs - n) xs" and "b = drop (length xs - n) xs"
  have xs: "xs = a @ b" by (simp add: a_def b_def)
  then have mem: "y \<in> set a \<or> y \<in> set b \<Longrightarrow> y \<in> insert x (set xs)" for y by simp
  have n: "n \<le> length xs" unfolding n_def by (metis length_rev length_takeWhile_le)
  then have "rev b = takeWhile (lt x) (rev xs)"
    by (simp add: b_def rev_drop n_def takeWhile_eq_take [symmetric])
  then have b: "lt x y" if "y \<in> set b" for y using that by (metis set_rev set_takeWhileD)
  have a: "\<not> lt x y" if y: "y \<in> set a" for y
  proof -
    have "rev a = dropWhile (lt x) (rev xs)"
      using n by (simp add: a_def rev_take n_def dropWhile_eq_drop)
    moreover obtain a' l where a': "a = a' @ [l]" using y by (cases a rule: rev_cases) auto
    ultimately have "dropWhile (lt x) (rev xs) = l # rev a'" by simp
    then have l: "\<not> lt x l" by (auto simp: dropWhile_eq_Cons_conv)
    have "\<not> lt l y"
    proof (cases "y = l")
      case True
      then show ?thesis using weak_orderD(2) [OF w mem mem] y by blast
    next
      case False
      then show ?thesis using s y by (auto simp: in_order_def xs a' sorted_wrt_append)
    qed
    then show ?thesis using weak_orderD(3) [OF w _ mem, of x l y] l y a' mem by auto
  qed
  have "\<not> lt y x" if "y \<in> set b" for y using weak_orderD(1) [OF w _ mem b] that by auto
  moreover have "linear_insert lt xs x = a @ x # b" by (simp add: linear_insert_def Let_def a_def b_def n_def)
  ultimately show ?thesis using s a xs unfolding in_order_def
    by (auto simp: sorted_wrt_append)
qed

lemma in_order_sort_insert:
  assumes w: "weak_order_on (insert x (set xs)) lt" and s: "in_order lt xs"
  shows "in_order lt (sort_insert lt xs x)"
proof (cases "xs \<noteq> [] \<and> lt x (hd xs)")
  case True
  then obtain y ys where xs: "xs = y # ys" by (cases xs) auto
  have "\<not> lt z x" if z: "z \<in> set xs" for z
  proof
    assume "lt z x"
    then have "\<not> lt x z" using weak_orderD(1) [OF w] z by blast
    moreover have "\<not> lt z y"
    proof (cases "z = y")
      case True
      then show ?thesis using weak_orderD(2) [OF w, of y y] xs by simp
    next
      case False
      then show ?thesis using s z by (simp add: in_order_def xs)
    qed
    ultimately show False using weak_orderD(3) [OF w, of x z y] True z by (simp add: xs)
  qed
  with True s show ?thesis by (simp add: sort_insert_def in_order_def)
qed (use in_order_linear_insert [OF assms] in \<open>auto simp: sort_insert_def\<close>)

lemma set_sort_insert: "set (sort_insert lt xs x) = insert x (set xs)"
  by (metis mset_linear_insert set_mset_mset set_mset_add_mset_insert sort_insert_def list.set(2))

lemma std_sort_in_order:
  assumes "weak_order_on (set xs) lt"
  shows "in_order lt (std_sort lt xs)"
proof -
  have "in_order lt (foldl (sort_insert lt) acc xs)"
    if "weak_order_on (set acc \<union> set xs) lt" "in_order lt acc" for acc
    using that
  proof (induction xs arbitrary: acc)
    case (Cons x xs)
    have "weak_order_on (insert x (set acc)) lt" by (rule weak_order_subset [OF Cons.prems(1)]) auto
    from in_order_sort_insert [OF this Cons.prems(2)] Cons show ?case by (simp add: set_sort_insert insert_commute)
  qed simp
  from this [of "[]"] assms show ?thesis by (simp add: std_sort_def in_order_def)
qed

end
