(* ===== verification/Conv_Host.thy ===== *)
theory Conv_Host
  imports Find_Db Conv_Solvers Generic_Search Std_Sort
begin

text \<open>
  What the find step and the immediate mode of convolutions share (\<open>src/ocl/convolutionocl.cpp\<close>,
  \<open>src/solver.cpp\<close>, \<open>src/hip/handlehip.cpp\<close>): the checks of the arguments, building the kernels of
  solutions, making and registering invokers.

  The record \<open>lib\<close> holds what the code takes from elsewhere: the solvers' answers, the databases, the environment,
  the compiler, the device. An operation gives the handle it leaves and its result or exception;
  \<open>None\<close> is the end of the process (an exception that leaves a thread, a null pointer).
  \<open>MIOPEN_CHECK_NUMERICS\<close>, profiling and log messages are left out.
\<close>

section \<open>The surroundings\<close>

text \<open>The part of an invocation's parameters that the find step looks at.\<close>

record invoke_params =
  ip_null :: bool
  ip_size :: nat

text \<open>The parameters: the switches; the solvers' answers for a problem, their weights, and
  whether they may need workspace for some problem; the compiler's
  names of the solvers; the performance database under a problem's key; the user's find database and the lookup
  of the combined one; how its entries are read; the compiler; the device; the find mode; the machine's
  threads, \<open>MIOPEN_COMPILE_PARALLEL_LEVEL\<close> and the default-constructed program; arithmetic of \<open>float\<close>:
  the comparisons, the largest number, 0 and \<open>10.0f / x\<close>.\<close>

record ('c, 'p, 'i, 'd, 'u, 'g, 'f) lib =
  l_switches :: conv_switches
  l_solvers :: "problem \<Rightarrow> ('c, 'p, 'i) solvers"
  l_wti :: "problem \<Rightarrow> string \<Rightarrow> 'f"
  l_may_need :: "string \<Rightarrow> bool"
  l_names :: "string \<Rightarrow> string"
  l_perf_db :: "problem \<Rightarrow> 'd perf_db"
  l_find_ops :: "'u find_ops"
  l_find_both :: "'u \<Rightarrow> string \<Rightarrow> ('u \<times> db_record option) result"
  l_find_enabled :: bool
  l_io :: "'f entry_io"
  l_load :: "string \<Rightarrow> string \<Rightarrow> bool \<Rightarrow> string \<Rightarrow> 'p result"
  l_arch :: bool
  l_run :: "'i \<Rightarrow> invoke_params \<Rightarrow> 'g \<Rightarrow> 'g \<times> 'f result"
  l_mode :: find_mode
  l_enforce :: find_enforce
  l_find_only :: "string list option"
  l_compile_only :: bool
  l_no_fallback :: bool
  l_threads :: nat
  l_level :: nat
  l_no_program :: 'p
  l_lt :: "'f \<Rightarrow> 'f \<Rightarrow> bool"
  l_le :: "'f \<Rightarrow> 'f \<Rightarrow> bool"
  l_max :: 'f
  l_zero :: 'f
  l_ten_over :: "'f \<Rightarrow> 'f"

text \<open>The registry's solver objects are the solver types.\<close>

definition l_reg :: "('c, 'p, 'i, 'd, 'u, 'g, 'f) lib \<Rightarrow> string registry" where
  "l_reg L = IdRegistry (l_names L) (\<lambda>t. t)"

text \<open>The modes of a fresh context.\<close>

definition fresh_context :: "('c, 'p, 'i, 'd, 'u, 'g, 'f) lib \<Rightarrow> find_context" where
  "fresh_context L = \<lparr>disable_perfdb_access = False, do_search = False, db_update = False, enforce = l_enforce L,
     disable_enforce = False, use_dynamic_solutions_only = False, find_only = l_find_only L\<rparr>"

text \<open>The problem of a direction, from the tensors in the order x, w, y.\<close>

definition problem_of_tensors :: "direction \<Rightarrow> tensor \<Rightarrow> tensor \<Rightarrow> tensor \<Rightarrow> conv_desc \<Rightarrow> problem result" where
  "problem_of_tensors dir x w y c =
     (if dir = Forward then ProblemDescription x w y c dir 0 else ProblemDescription y w x c dir 0)"

section \<open>Checks of the arguments\<close>

definition ValidateGroupCount :: "tensor \<Rightarrow> tensor \<Rightarrow> conv_desc \<Rightarrow> unit result" where
  "ValidateGroupCount x w c =
     (let g = group_count c; n = (of_int g :: size_t); xc = t_lens x ! 1; la = t_layout w;
          nchw = la \<in> {miopenTensorNCHW, miopenTensorNCHWc4, miopenTensorNCHWc8};
          chwn = la \<in> {miopenTensorCHWNc4, miopenTensorCHWNc8}
      in if g = 1 \<and> (nchw \<and> xc \<noteq> t_lens w ! 1 \<or> chwn \<and> xc \<noteq> t_lens w ! 0)
         then throw_st miopenStatusBadParm ''Invalid filter channel number''
         else if g > 1 \<and> (xc mod n \<noteq> 0 \<or> n > xc
                \<or> nchw \<and> (t_lens w ! 0 mod n \<noteq> 0 \<or> n > t_lens w ! 0)
                \<or> chwn \<and> (t_lens w ! 3 mod n \<noteq> 0 \<or> n > t_lens w ! 3))
         then throw_st miopenStatusBadParm ''Invalid group number''
         else if g > 1 \<and> (nchw \<and> xc div n \<noteq> t_lens w ! 1 \<or> chwn \<and> xc div n \<noteq> t_lens w ! 0)
         then throw_st miopenStatusBadParm ''Invalid filter channel number''
         else Inr ())"

text \<open>The tensors of a call and which of their buffers are null.\<close>

record conv_tensors =
  c_x :: tensor
  c_w :: tensor
  c_y :: tensor
  x_null :: bool
  w_null :: bool
  y_null :: bool

definition ValidateConvTensors :: "conv_tensors \<Rightarrow> unit result" where
  "ValidateConvTensors t =
     (let xt = t_type (c_x t); yt = t_type (c_y t); size = (\<lambda>d. length (t_lens d));
          invalid_buffers = x_null t \<or> w_null t \<or> y_null t;
          tensor_sizes_not_matched = size (c_x t) \<noteq> size (c_y t) \<or> size (c_x t) \<noteq> size (c_w t);
          trivial_tensor_types_not_matched = xt \<noteq> yt \<and> xt \<noteq> miopenInt8 \<and> xt \<noteq> miopenInt8x4;
          int8_in8x4_tensor_not_matched =
            (xt = miopenInt8 \<and> yt \<noteq> miopenInt32 \<and> yt \<noteq> miopenFloat) \<or> (xt = miopenInt8x4 \<and> yt \<noteq> miopenInt32);
          x_tensor_invalid = size (c_x t) < 3
      in if invalid_buffers \<or> tensor_sizes_not_matched \<or> trivial_tensor_types_not_matched
            \<or> int8_in8x4_tensor_not_matched \<or> x_tensor_invalid
         then throw_st miopenStatusBadParm [] else Inr ())"

text \<open>The arguments tell whether \<open>alpha\<close> is 1 and \<open>beta\<close> is 0.\<close>

definition ValidateAlphaBeta :: "bool \<Rightarrow> bool \<Rightarrow> unit result" where
  "ValidateAlphaBeta alpha1 beta0 =
     (if \<not> alpha1 \<or> \<not> beta0 then throw_st miopenStatusNotImplemented ''Only alpha=1 and beta=0 is supported''
      else Inr ())"

text \<open>The algorithm is the value of the enumeration.\<close>

definition IsAlgorithmDisabled :: "conv_switches \<Rightarrow> int \<Rightarrow> bool" where
  "IsAlgorithmDisabled sw algo =
     (if algo = algo_value Algo_GEMM then \<not> use_gemm sw \<or> gemm_disabled sw
      else if algo = algo_value Algo_Direct then direct_disabled sw
      else if algo = algo_value Algo_FFT then fft_disabled sw
      else if algo = algo_value Algo_Winograd then winograd_disabled sw
      else if algo = algo_value Algo_ImplicitGEMM then igemm_disabled sw
      else True)"

section \<open>Building kernels\<close>

text \<open>\<open>par_for_strided\<close> with \<open>n\<close> threads over a body that may throw: no thread runs nothing; one is the
  caller itself, whose exception reaches the caller of the loop; in another thread it ends the process.
  \<open>dflt\<close> is what the body has not written.\<close>

definition par_for_strided :: "nat \<Rightarrow> 'b \<Rightarrow> ('a \<Rightarrow> 'b result) \<Rightarrow> 'a list \<Rightarrow> 'b list result option" where
  "par_for_strided n dflt f xs =
     (if n = 0 then Some (Inr (map (\<lambda>_. dflt) xs))
      else
        (case find (\<lambda>x. isl (f x)) xs of
           None \<Rightarrow> Some (Inr (map (\<lambda>x. projr (f x)) xs))
         | Some x \<Rightarrow> if n = 1 then Some (Inl (projl (f x))) else None))"

definition PrecompileKernels ::
  "('c, 'p, 'i, 'd, 'u, 'g, 'f) lib \<Rightarrow> kernel_info list \<Rightarrow> 'p list result option" where
  "PrecompileKernels L kernels =
     par_for_strided (min (l_threads L) (l_level L)) (l_no_program L)
       (\<lambda>k. l_load L (kernel_file k) (comp_options k) False []) kernels"

fun add_programs :: "'p kernel_cache \<Rightarrow> (kernel_info \<times> 'p) list \<Rightarrow> 'p kernel_cache" where
  "add_programs kc [] = kc"
| "add_programs kc ((k, prog) # rest) = add_programs (KernelCache_AddProgram kc prog (kernel_file k) (comp_options k)) rest"

definition missing_kernels :: "'p kernel_cache \<Rightarrow> ('q, 'i) conv_solution list \<Rightarrow> kernel_info list" where
  "missing_kernels kc sols =
     filter (\<lambda>k. \<not> KernelCache_HasProgram kc (kernel_file k) (comp_options k)) (concat (map sol_params (filter sol_ok sols)))"

definition PrecompileSolutions ::
  "('c, 'p, 'i, 'd, 'u, 'g, 'f) lib \<Rightarrow> ('p, 'i) conv_solution list \<Rightarrow> 'p kernel_cache
    \<Rightarrow> ('p kernel_cache \<times> unit result) option" where
  "PrecompileSolutions L sols kc =
     (let kernels = missing_kernels kc sols in
      case PrecompileKernels L kernels of
        None \<Rightarrow> None
      | Some (Inl e) \<Rightarrow> Some (kc, Inl e)
      | Some (Inr programs) \<Rightarrow> Some (add_programs kc (zip kernels programs), Inr ()))"

section \<open>Invokers\<close>

text \<open>\<open>Handle::PrepareInvoker\<close>: kernels that are built before an exception stay in the cache.\<close>

fun build_kernels ::
  "('c, 'p, 'i, 'd, 'u, 'g, 'f) lib \<Rightarrow> nat \<Rightarrow> kernel_info list \<Rightarrow> 'p kernel list \<Rightarrow> 'p kernel_cache
    \<Rightarrow> 'p kernel_cache \<times> 'p kernel list result" where
  "build_kernels L n [] built kc = (kc, Inr built)"
| "build_kernels L n (k # ks) built kc =
     (case KernelCache_AddKernel (l_load L) (l_arch L) kc [] [] (kernel_file k) (kernel_name k)
             (map nat (l_wk k)) (map nat (g_wk k)) (comp_options k) n False [] of
        Inl e \<Rightarrow> (kc, Inl e)
      | Inr (kc', obj) \<Rightarrow> build_kernels L n ks (built @ [obj]) kc')"

definition Handle_PrepareInvoker ::
  "('c, 'p, 'i, 'd, 'u, 'g, 'f) lib \<Rightarrow> ('p, 'i, 'd, 'u, 'g) host \<Rightarrow> ('p kernel list \<Rightarrow> 'i) \<Rightarrow> kernel_info list
    \<Rightarrow> ('p, 'i, 'd, 'u, 'g) host \<times> 'i result" where
  "Handle_PrepareInvoker L h factory kernels =
     (case build_kernels L (length kernels) kernels [] (h_kernels h) of
        (kc, Inl e) \<Rightarrow> (h\<lparr>h_kernels := kc\<rparr>, Inl e)
      | (kc, Inr built) \<Rightarrow> (h\<lparr>h_kernels := kc\<rparr>, Inr (factory built)))"

definition Handle_RegisterInvoker ::
  "('p, 'i, 'd, 'u, 'g) host \<Rightarrow> 'i \<Rightarrow> string \<Rightarrow> string \<Rightarrow> string \<Rightarrow> ('p, 'i, 'd, 'u, 'g) host \<times> unit result" where
  "Handle_RegisterInvoker h invoker config solver algo =
     (let ic = InvokerCache_Register (h_invokers h) (config, solver) invoker in
      case InvokerCache_SetAsFound1_0 ic config algo solver of
        Inl e \<Rightarrow> (h\<lparr>h_invokers := ic\<rparr>, Inl e)
      | Inr ic' \<Rightarrow> (h\<lparr>h_invokers := ic'\<rparr>, Inr ()))"

text \<open>Running an invoker on the device; the time it takes is asked of the handle afterwards.\<close>

definition run_invoker ::
  "('c, 'p, 'i, 'd, 'u, 'g, 'f) lib \<Rightarrow> ('p, 'i, 'd, 'u, 'g) host \<Rightarrow> 'i \<Rightarrow> invoke_params
    \<Rightarrow> ('p, 'i, 'd, 'u, 'g) host \<times> 'f result" where
  "run_invoker L h invoker ip =
     (case l_run L invoker ip (h_device h) of (g, r) \<Rightarrow> (h\<lparr>h_device := g\<rparr>, r))"

section \<open>What building and registering keep\<close>

lemma AddKernel_no_key:
  "KernelCache_AddKernel load arch kc [] [] pn kn vld vgd ps i mg src = Inr (kc', k) \<Longrightarrow> kernel_map kc' = kernel_map kc"
  by (auto simp: KernelCache_AddKernel_def Let_def dest: acquire_program_spec split: sum.splits)

lemma build_kernels_keeps: "build_kernels L n ks built kc = (kc', r) \<Longrightarrow> kernel_map kc' = kernel_map kc"
  by (induction ks arbitrary: built kc) (auto dest: AddKernel_no_key split: sum.splits prod.splits)

text \<open>The handle but for its programs and its device.\<close>

definition same_host :: "('p, 'i, 'd, 'u, 'g) host \<Rightarrow> ('p, 'i, 'd, 'u, 'g) host \<Rightarrow> bool" where
  "same_host h h' \<longleftrightarrow> h_invokers h' = h_invokers h \<and> h_find_db h' = h_find_db h \<and> h_perf_db h' = h_perf_db h
     \<and> kernel_map (h_kernels h') = kernel_map (h_kernels h)"

lemma same_host_refl [simp]: "same_host h h"
  by (simp add: same_host_def)

lemma same_host_trans: "same_host h h' \<Longrightarrow> same_host h' h'' \<Longrightarrow> same_host h h''"
  by (simp add: same_host_def)

lemma same_host_simps [simp]:
  "same_host h (h\<lparr>h_device := g\<rparr>)"
  "same_host h (h\<lparr>h_kernels := kc\<rparr>) \<longleftrightarrow> kernel_map kc = kernel_map (h_kernels h)"
  by (auto simp: same_host_def)

lemma Handle_PrepareInvoker_keeps: "Handle_PrepareInvoker L h f ks = (h', r) \<Longrightarrow> same_host h h'"
  by (auto simp: Handle_PrepareInvoker_def dest: build_kernels_keeps split: prod.splits sum.splits)

lemma run_invoker_keeps: "run_invoker L h i ip = (h', r) \<Longrightarrow> same_host h h'"
  by (auto simp: run_invoker_def split: prod.splits)

lemma add_programs_keeps: "kernel_map (add_programs kc ps) = kernel_map kc"
  by (induction kc ps rule: add_programs.induct) (simp_all add: KernelCache_AddProgram_def)

lemma PrecompileSolutions_keeps: "PrecompileSolutions L sols kc = Some (kc', r) \<Longrightarrow> kernel_map kc' = kernel_map kc"
  by (auto simp: PrecompileSolutions_def Let_def add_programs_keeps split: option.splits sum.splits)

text \<open>Registering an invoker never fails; the invoker that counts is the first one under its key.\<close>

lemma Handle_RegisterInvoker_spec:
  obtains ic where "Handle_RegisterInvoker h invoker config s a = (h\<lparr>h_invokers := ic\<rparr>, Inr ())"
    "\<And>key. InvokerCache_get ic key =
      (if key = (config, s) \<and> InvokerCache_get (h_invokers h) key = None then Some invoker
       else InvokerCache_get (h_invokers h) key)"
    "InvokerCache_GetFound1_0 ic config a = Inr (InvokerCache_get ic (config, s))"
    "\<And>c b i. (c, b) \<noteq> (config, a) \<Longrightarrow> InvokerCache_GetFound1_0 (h_invokers h) c b = Inr (Some i) \<Longrightarrow>
      InvokerCache_GetFound1_0 ic c b = Inr (Some i)"
proof -
  let ?ic = "h_invokers h"
  let ?r = "InvokerCache_Register ?ic (config, s) invoker"
  obtain item where item: "map_of ?r config = Some item" "map_of (item_invokers item) s \<noteq> None"
    by (cases "map_of ?ic config") (auto simp: Register_lookup)
  define ic where "ic = AList.update config (item\<lparr>found_1_0 := AList.update a s (found_1_0 item)\<rparr>) ?r"
  have set: "InvokerCache_SetAsFound1_0 ?r config a s = Inr ic"
    using item by (auto simp: InvokerCache_SetAsFound1_0_def ic_def split: option.splits)
  have ne: "AList.update k v m \<noteq> []" for k v and m :: "(string \<times> string) list" by (cases m) auto
  have found: "InvokerCache_GetFound1_0 ic config a = Inr (InvokerCache_get ic (config, s))"
    using item ne by (auto simp: InvokerCache_GetFound1_0_def InvokerCache_get_def ic_def update_conv' split: option.splits)
  have get: "InvokerCache_get ic key =
      (if key = (config, s) \<and> InvokerCache_get ?ic key = None then Some invoker else InvokerCache_get ?ic key)" for key
    using item(1) by (cases key; cases "map_of ?ic config")
      (auto simp: ic_def InvokerCache_get_def update_conv' Register_lookup split: option.splits prod.splits)
  have others: "InvokerCache_GetFound1_0 ic c b = Inr (Some i)"
    if "(c, b) \<noteq> (config, a)" "InvokerCache_GetFound1_0 ?ic c b = Inr (Some i)" for c b i
    using that item(1) ne by (cases "map_of ?ic config")
      (auto simp: ic_def InvokerCache_GetFound1_0_def update_conv' Register_lookup split: option.splits if_splits)
  show thesis
    by (rule that [of ic]) (use set found get others in \<open>auto simp: Handle_RegisterInvoker_def Let_def\<close>)
qed

section \<open>Algorithms of solvers\<close>

text \<open>What is assumed of the names: the compiler gives different solvers different IDs, and a solver's own ID is
  the registry's.\<close>

definition lib_ok :: "('c, 'p, 'i, 'd, 'u, 'g, 'f) lib \<Rightarrow> bool" where
  "lib_ok L \<longleftrightarrow> distinct (registered_names (l_names L) registrations)
     \<and> (\<forall>p ctx t. SolverDbId (l_solvers L p ctx t) = SolverDbId_of (l_names L) t)"

lemma registered_algo:
  assumes "lib_ok L" "WithSolver t algo \<in> set registrations"
  shows "Id_GetAlgo_dir (l_reg L) (Id_of_str (l_reg L) (SolverDbId_of (l_names L) t)) dir
    = Inr (ConvolutionAlgoToDirectionalString algo dir)"
  using IdRegistry_with_solver(3) [of "l_names L" t algo "\<lambda>t. t"] assms
  by (simp add: lib_ok_def l_reg_def Id_GetAlgo_dir_def)

lemma search_all_ids:
  assumes "search_all slv db limit ts ctx d = (d', Inr sols)" "x \<in> set sols"
  shows "\<exists>t \<in> set ts. fst x = SolverDbId (slv ctx t)"
proof -
  have "subseq (map fst sols) (map SolverDbId (filter (usable ctx) (map (slv ctx) ts)))"
    using SearchForAllSolutions_acc [of "[]"] assms(1) by (fastforce simp: search_all_def)
  moreover have "subseq xs ys \<Longrightarrow> y \<in> set xs \<Longrightarrow> y \<in> set ys" for xs ys and y :: string
    by (induction rule: list_emb.induct) auto
  ultimately have "fst x \<in> set (map SolverDbId (filter (usable ctx) (map (slv ctx) ts)))"
    using assms(2) by (metis image_eqI list.set_map)
  then show ?thesis using assms(2) by auto
qed

text \<open>The solutions of a search belong to the algorithm of the container.\<close>

definition of_algo :: "('c, 'p, 'i, 'd, 'u, 'g, 'f) lib \<Rightarrow> direction \<Rightarrow> conv_algo \<Rightarrow> ('p, 'i) solution list \<Rightarrow> bool" where
  "of_algo L dir algo sols \<longleftrightarrow> (\<forall>x \<in> set sols.
     Id_GetAlgo_dir (l_reg L) (Id_of_str (l_reg L) (fst x)) dir = Inr (ConvolutionAlgoToDirectionalString algo dir))"

lemma search_all_algo:
  assumes "lib_ok L" "(algo, ts) \<in> set container"
    and "search_all (l_solvers L p) db limit ts ctx d = (d', Inr sols)"
  shows "of_algo L dir algo sols"
  unfolding of_algo_def
proof
  fix x
  assume "x \<in> set sols"
  then obtain t where "t \<in> set ts" "fst x = SolverDbId (l_solvers L p ctx t)" using search_all_ids [OF assms(3)] by blast
  with registered_algo [OF assms(1) container_registered [OF assms(2)]] assms(1)
  show "Id_GetAlgo_dir (l_reg L) (Id_of_str (l_reg L) (fst x)) dir = Inr (ConvolutionAlgoToDirectionalString algo dir)"
    by (simp add: lib_ok_def)
qed

lemma of_algo_Nil [simp]: "of_algo L dir algo []"
  by (simp add: of_algo_def)

lemma or_nothing_algo:
  assumes "lib_ok L" "(algo, ts) \<in> set container"
    and "or_nothing (search_all (l_solvers L p) db limit ts ctx d) = (d', sols)"
  shows "of_algo L dir algo sols"
  using assms(3) search_all_algo [OF assms(1,2)]
  by (auto simp: or_nothing_def split: prod.splits sum.splits)

lemma container_simps:
  "(Algo_GEMM, GetGemmSolvers) \<in> set container" "(Algo_Direct, GetDirectSolvers) \<in> set container"
  "(Algo_ImplicitGEMM, GetImplicitGemmSolvers) \<in> set container" "(Algo_Winograd, GetWindogradSolvers) \<in> set container"
  "(Algo_ImplicitGEMM, GetImplicitGemmWrWSolvers) \<in> set container"
  "(Algo_Winograd, GetWindogradWrWSolvers) \<in> set container" "(Algo_Direct, GetBwdWrW2DSolvers) \<in> set container"
  "(Algo_FFT, GetFFTSolvers) \<in> set container"
  by (simp_all add: container_def)

lemma Find_algo:
  assumes "lib_ok L"
  shows "FindWinogradSolutions sw (l_solvers L p) db ctx d = (d', sols) \<Longrightarrow> of_algo L dir Algo_Winograd sols"
    "FindDataGemmSolutions sw (l_solvers L p) db ctx d = (d', sols) \<Longrightarrow> of_algo L dir Algo_GEMM sols"
    "FindDataDirectSolutions sw (l_solvers L p) db ctx dynamic exhaustiveSearch d = (d', sols) \<Longrightarrow> of_algo L dir Algo_Direct sols"
    "FindDataImplicitGemmSolutions sw (l_solvers L p) db ctx dynamic exhaustiveSearch d = (d', sols) \<Longrightarrow>
      of_algo L dir Algo_ImplicitGEMM sols"
    "FindFftSolutions sw (l_solvers L p) db ctx d = (d', sols) \<Longrightarrow> of_algo L dir Algo_FFT sols"
  by (auto simp: FindWinogradSolutions_def FindDataGemmSolutions_def FindDataDirectSolutions_def
      FindDataImplicitGemmSolutions_def FindFftSolutions_def FindAllWinogradSolutions_def FindAllGemmSolutions_def
      FindAllDirectSolutions_def FindAllImplicitGemmSolutions_def FindAllFFTSolutions_def split: if_splits
      intro: container_simps [THEN or_nothing_algo [OF assms(1)]])

lemma FindDataSolutions_algo:
  assumes "lib_ok L"
    and "FindDataSolutions sw (l_solvers L p) db ctx dynamic exhaustiveSearch only d = (d', fs)"
  shows "of_algo L dir Algo_GEMM (s_gemm fs) \<and> of_algo L dir Algo_Winograd (s_winograd fs)
    \<and> of_algo L dir Algo_Direct (s_direct fs) \<and> of_algo L dir Algo_ImplicitGEMM (s_igemm fs)
    \<and> of_algo L dir Algo_FFT (s_fft fs)"
  using assms(2) by (cases only) (auto simp: FindDataSolutions_def split: prod.splits intro: Find_algo [OF assms(1)])

lemma FindWrwSolutions_algo:
  assumes "lib_ok L" "FindWrwSolutions sw (l_solvers L p) db ctx d = (d', Inr fs)"
  shows "of_algo L dir Algo_GEMM (w_gemm fs)" "of_algo L dir Algo_Winograd (w_winograd fs)"
    "of_algo L dir Algo_Direct (w_direct fs)" "of_algo L dir Algo_ImplicitGEMM (w_igemm fs)"
  using assms(2)
  by (auto simp: FindWrwSolutions_def FindAllGemmSolutions_def FindAllBwdWrW2DSolutions_def FindWinogradWrWAllSolutions_def
      FindImplicitGemmWrWAllSolutions_def split: prod.splits if_splits sum.splits
      intro: container_simps [THEN search_all_algo [OF assms(1)]])

section \<open>What the invoker cache promises to the calls\<close>

text \<open>The direction of a problem is the last letter of its key.\<close>

definition config_direction :: "string \<Rightarrow> direction" where
  "config_direction config =
     (if last config = CHR ''F'' then Forward else if last config = CHR ''B'' then BackwardData else BackwardWeights)"

lemma config_direction_key [simp]: "config_direction (BuildConfKey p) = direction p"
proof -
  have "last (BuildConfKey p) = last (direction_letter (direction p))"
    by (simp add: BuildConfKey_def Let_def direction_letter_def split: direction.splits)
  then show ?thesis by (simp add: config_direction_def direction_letter_def split: direction.splits)
qed

definition found_ok :: "'i invoker_cache \<Rightarrow> string \<Rightarrow> string \<Rightarrow> bool" where
  "found_ok ic config algo \<longleftrightarrow> (\<exists>i. InvokerCache_GetFound1_0 ic config algo = Inr (Some i))"

text \<open>A registered solver's algorithm has a found invoker.\<close>

definition found_registered :: "('c, 'p, 'i, 'd, 'u, 'g, 'f) lib \<Rightarrow> 'i invoker_cache \<Rightarrow> bool" where
  "found_registered L ic \<longleftrightarrow> (\<forall>c s. InvokerCache_get ic (c, s) \<noteq> None \<longrightarrow>
     (\<exists>a. Id_GetAlgo_dir (l_reg L) (Id_of_str (l_reg L) s) (config_direction c) = Inr a \<and> found_ok ic c a))"

lemma Handle_RegisterInvoker_found:
  assumes "Handle_RegisterInvoker h invoker config s a = (h', r)" "found_registered L (h_invokers h)"
    and "Id_GetAlgo_dir (l_reg L) (Id_of_str (l_reg L) s) (config_direction config) = Inr a"
  shows "found_registered L (h_invokers h')" "found_ok (h_invokers h') config a"
    "\<And>c b. found_ok (h_invokers h) c b \<Longrightarrow> found_ok (h_invokers h') c b" "r = Inr ()"
    "h' = h\<lparr>h_invokers := h_invokers h'\<rparr>"
proof -
  obtain ic where run: "Handle_RegisterInvoker h invoker config s a = (h\<lparr>h_invokers := ic\<rparr>, Inr ())"
    and get: "\<And>key. InvokerCache_get ic key =
      (if key = (config, s) \<and> InvokerCache_get (h_invokers h) key = None then Some invoker
       else InvokerCache_get (h_invokers h) key)"
    and found: "InvokerCache_GetFound1_0 ic config a = Inr (InvokerCache_get ic (config, s))"
    and other: "\<And>c b i. (c, b) \<noteq> (config, a) \<Longrightarrow> InvokerCache_GetFound1_0 (h_invokers h) c b = Inr (Some i) \<Longrightarrow>
      InvokerCache_GetFound1_0 ic c b = Inr (Some i)"
    by (rule Handle_RegisterInvoker_spec [of h invoker config s a]) (rule that)
  have ic: "h' = h\<lparr>h_invokers := ic\<rparr>" "r = Inr ()" using run assms(1) by simp_all
  show ok: "found_ok (h_invokers h') config a"
    using found get [of "(config, s)"] by (auto simp: found_ok_def ic split: if_splits)
  show keep: "found_ok (h_invokers h') c b" if "found_ok (h_invokers h) c b" for c b
    using that ok other by (cases "(c, b) = (config, a)") (auto simp: found_ok_def ic)
  show "found_registered L (h_invokers h')"
    unfolding found_registered_def
  proof (intro allI impI)
    fix c t
    assume t: "InvokerCache_get (h_invokers h') (c, t) \<noteq> None"
    show "\<exists>a. Id_GetAlgo_dir (l_reg L) (Id_of_str (l_reg L) t) (config_direction c) = Inr a \<and> found_ok (h_invokers h') c a"
    proof (cases "(c, t) = (config, s)")
      case True
      with ok assms(3) show ?thesis by auto
    next
      case False
      with t get [of "(c, t)"] have "InvokerCache_get (h_invokers h) (c, t) \<noteq> None" by (auto simp: ic split: if_splits)
      with assms(2) keep show ?thesis unfolding found_registered_def by metis
    qed
  qed
  show "r = Inr ()" "h' = h\<lparr>h_invokers := h_invokers h'\<rparr>" by (simp_all add: ic)
qed

section \<open>A concrete library\<close>

text \<open>One GEMM solver applies; a run takes 5 units of time; no find database.\<close>

definition example_lib :: "(unit, unit, unit, unit, world \<times> ram_db, unit, nat) lib" where
  "example_lib = \<lparr>l_switches = example_switches,
     l_solvers = (\<lambda>p ctx t. (example_solvers ctx t)\<lparr>SolverDbId := SolverDbId_of in_namespace t\<rparr>),
     l_wti = (\<lambda>_ _. 1), l_may_need = (\<lambda>_. True), l_names = in_namespace, l_perf_db = (\<lambda>_. example_db),
     l_find_ops = ram_find_ops env0, l_find_both = RamDb_FindRecord env0, l_find_enabled = False,
     l_io = \<lparr>io_ord = rev, io_show = (\<lambda>n. replicate n CHR ''1''), io_read = length, io_m1 = 0\<rparr>,
     l_load = (\<lambda>_ _ _ _. Inr ()), l_arch = False, l_run = (\<lambda>_ _ _. ((), Inr 5)), l_mode = Mode_Normal,
     l_enforce = Enforce_None, l_find_only = None, l_compile_only = False, l_no_fallback = False, l_threads = 1,
     l_level = 20, l_no_program = (), l_lt = (<), l_le = (\<le>), l_max = 1000, l_zero = 0, l_ten_over = (\<lambda>n. 10 div n)\<rparr>"

definition example_host :: "(unit, unit, unit, world \<times> ram_db, unit) host" where
  "example_host = \<lparr>h_kernels = \<lparr>kernel_map = [], program_map = []\<rparr>, h_invokers = [], h_perf_db = (),
     h_find_db = (world0, new_db ''db''), h_device = ()\<rparr>"

definition example_tensors :: conv_tensors where
  "example_tensors = \<lparr>c_x = example_x, c_w = example_w,
     c_y = TensorDescriptor_lens miopenFloat miopenTensorNCHW [2, 4, 4, 6],
     x_null = False, w_null = False, y_null = False\<rparr>"

definition example_params :: invoke_params where
  "example_params = \<lparr>ip_null = False, ip_size = 64\<rparr>"

section \<open>What precompiling promises\<close>

text \<open>Programs that depend on the file and the options of the kernel only.\<close>

lemma add_programs_all:
  assumes "\<forall>k \<in> set ks. f k = g (kernel_file k) (comp_options k)"
  shows "map_of (program_map (add_programs kc (zip ks (map f ks)))) key =
     (if key \<in> (\<lambda>k. (kernel_file k, comp_options k)) ` set ks then Some (g (fst key) (snd key)) else map_of (program_map kc) key)"
  using assms by (induction ks arbitrary: kc) (auto simp: KernelCache_AddProgram_def update_conv')

text \<open>The programs that precompiling makes.\<close>

definition precompiled :: "('c, 'p, 'i, 'd, 'u, 'g, 'f) lib \<Rightarrow> string \<Rightarrow> string \<Rightarrow> 'p" where
  "precompiled L file options =
     (if min (l_threads L) (l_level L) = 0 then l_no_program L else projr (l_load L file options False []))"

lemma PrecompileKernels_returns:
  assumes "PrecompileKernels L ks = Some (Inr programs)"
  shows "programs = map (\<lambda>k. precompiled L (kernel_file k) (comp_options k)) ks"
    "k \<in> set ks \<Longrightarrow> min (l_threads L) (l_level L) \<noteq> 0 \<Longrightarrow>
      l_load L (kernel_file k) (comp_options k) False [] = Inr (precompiled L (kernel_file k) (comp_options k))"
proof -
  show "programs = map (\<lambda>k. precompiled L (kernel_file k) (comp_options k)) ks"
    using assms by (auto simp: PrecompileKernels_def par_for_strided_def precompiled_def split: if_split_asm option.split_asm)
  assume k: "k \<in> set ks" "min (l_threads L) (l_level L) \<noteq> 0"
  then have "find (\<lambda>k. isl (l_load L (kernel_file k) (comp_options k) False [])) ks = None"
    using assms by (auto simp: PrecompileKernels_def par_for_strided_def split: if_split_asm option.split_asm)
  with k(1) have "\<not> isl (l_load L (kernel_file k) (comp_options k) False [])" by (auto simp: find_None_iff)
  moreover have "precompiled L (kernel_file k) (comp_options k) = projr (l_load L (kernel_file k) (comp_options k) False [])"
    using k(2) by (simp only: precompiled_def if_False)
  ultimately show "l_load L (kernel_file k) (comp_options k) False [] = Inr (precompiled L (kernel_file k) (comp_options k))"
    by (cases "l_load L (kernel_file k) (comp_options k) False []") simp_all
qed

lemma PrecompileSolutions_lookup:
  assumes "PrecompileSolutions L sols kc = Some (kc', Inr ())"
  shows "map_of (program_map kc') key =
     (if key \<in> (\<lambda>k. (kernel_file k, comp_options k)) ` set (missing_kernels kc sols)
      then Some (precompiled L (fst key) (snd key)) else map_of (program_map kc) key)"
proof -
  obtain ps where ps: "PrecompileKernels L (missing_kernels kc sols) = Some (Inr ps)"
      "kc' = add_programs kc (zip (missing_kernels kc sols) ps)"
    using assms by (auto simp: PrecompileSolutions_def Let_def split: option.split_asm sum.split_asm)
  show ?thesis unfolding ps(2) PrecompileKernels_returns(1) [OF ps(1)]
    by (subst add_programs_all [where g = "precompiled L"]) simp_all
qed

lemma build_kernels_cached:
  assumes "\<forall>k \<in> set ks. map_of (program_map kc) (kernel_file k, comp_options k) \<noteq> None"
  shows "\<exists>objs. build_kernels L n ks built kc = (kc, Inr objs)"
  using assms
proof (induction ks arbitrary: built)
  case (Cons k ks)
  obtain p where "map_of (program_map kc) (kernel_file k, comp_options k) = Some p" using Cons.prems by auto
  then show ?case using Cons.IH Cons.prems by (simp add: KernelCache_AddKernel_def acquire_program_cached)
qed simp


definition example_kernel :: kernel_info where
  "example_kernel = \<lparr>l_wk = [64], g_wk = [128], comp_options = ''-O2'', kernel_file = ''a.cl'', kernel_name = ''k''\<rparr>"


end
