(* ===== verification/Conv_Immediate.thy ===== *)
theory Conv_Immediate
  imports Conv_Host
begin

text \<open>
  The immediate mode of convolutions (\<open>src/ocl/convolutionocl.cpp\<close>): solutions read off the find database,
  or estimated when there are none; their workspace; compiling and running one by its ID.
\<close>

section \<open>The list of solutions\<close>

text \<open>\<open>miopenConvSolution_t\<close>, and the order of \<open>SolutionSortWrapper\<close>.\<close>

record 'f imm_solution =
  imm_time :: 'f
  workspace_size :: nat
  solution_id :: nat
  imm_algorithm :: int

definition solution_less :: "('c, 'p, 'i, 'd, 'u, 'g, 'f) lib \<Rightarrow> 'f imm_solution \<Rightarrow> 'f imm_solution \<Rightarrow> bool" where
  "solution_less L a b =
     (let lt = l_lt L; z = l_zero L; s = imm_time a; t = imm_time b in
      if lt s z \<and> lt t z then \<not> lt s t
      else if lt z s \<and> lt t z then True
      else if lt s z \<and> lt z t then False
      else lt s t)"

text \<open>\<open>FindDbRecord\<close>: the constructor; its destructor has nothing to store.\<close>

definition find_record ::
  "('c, 'p, 'i, 'd, 'u, 'g, 'f) lib \<Rightarrow> problem \<Rightarrow> ('p, 'i, 'd, 'u, 'g) host
    \<Rightarrow> ('p, 'i, 'd, 'u, 'g) host \<times> db_record option result" where
  "find_record L p h =
     (if \<not> l_find_enabled L then (h, Inr None)
      else
        (case l_find_both L (h_find_db h) (Problem_Serialize p) of
           Inl e \<Rightarrow> (h, Inl e)
         | Inr (u, content) \<Rightarrow> (h\<lparr>h_find_db := u\<rparr>, Inr content)))"

definition GetSolutionCount ::
  "('c, 'p, 'i, 'd, 'u, 'g, 'f) lib \<Rightarrow> problem \<Rightarrow> ('p, 'i, 'd, 'u, 'g) host
    \<Rightarrow> ('p, 'i, 'd, 'u, 'g) host \<times> nat result" where
  "GetSolutionCount L p h =
     (case find_record L p h of
        (h', Inl e) \<Rightarrow> (h', Inl e)
      | (h', Inr None) \<Rightarrow> (h', Inr 0)
      | (h', Inr (Some r)) \<Rightarrow> (h', Inr (length (find_entries (l_io L) r))))"

text \<open>The loop over the entries of the record. A solver without an object is a null pointer.\<close>

fun solutions_loop ::
  "('c, 'p, 'i, 'd, 'u, 'g, 'f) lib \<Rightarrow> problem \<Rightarrow> (string \<Rightarrow> int result) \<Rightarrow> (string \<times> 'f find_data) list
    \<Rightarrow> 'f imm_solution list \<Rightarrow> 'f imm_solution list result option" where
  "solutions_loop L p resolver [] interim = Some (Inr interim)"
| "solutions_loop L p resolver ((name, d) # rest) interim =
     (case resolver name of
        Inl e \<Rightarrow> Some (Inl e)
      | Inr algo \<Rightarrow>
          if IsAlgorithmDisabled (l_switches L) algo then solutions_loop L p resolver rest interim
          else
            let i = Id_of_str (l_reg L) (fd_solver_id d) in
            if \<not> is_valid i then solutions_loop L p resolver rest interim
            else
              (case Id_GetSolver (l_reg L) i of
                 None \<Rightarrow> None
               | Some t \<Rightarrow>
                   solutions_loop L p resolver rest
                     (if IsApplicable (l_solvers L p (fresh_context L) t)
                      then interim @ [\<lparr>imm_time = fd_time d, workspace_size = fd_workspace d,
                        solution_id = id_value i, imm_algorithm = algo\<rparr>]
                      else interim)))"

definition GetSolutions ::
  "('c, 'p, 'i, 'd, 'u, 'g, 'f) lib \<Rightarrow> problem \<Rightarrow> nat \<Rightarrow> (string \<Rightarrow> int result) \<Rightarrow> ('p, 'i, 'd, 'u, 'g) host
    \<Rightarrow> (('p, 'i, 'd, 'u, 'g) host \<times> 'f imm_solution list result) option" where
  "GetSolutions L p maxSolutionCount resolver h =
     (case find_record L p h of
        (h', Inl e) \<Rightarrow> Some (h', Inl e)
      | (h', Inr None) \<Rightarrow> Some (h', Inr [])
      | (h', Inr (Some r)) \<Rightarrow>
          (case solutions_loop L p resolver (find_entries (l_io L) r) [] of
             None \<Rightarrow> None
           | Some (Inl e) \<Rightarrow> Some (h', Inl e)
           | Some (Inr interim) \<Rightarrow> Some (h', Inr (take maxSolutionCount (std_sort (solution_less L) interim)))))"

section \<open>Estimates\<close>

definition wti2time :: "('c, 'p, 'i, 'd, 'u, 'g, 'f) lib \<Rightarrow> 'f \<Rightarrow> 'f" where
  "wti2time L wti = (if l_le L wti (l_zero L) then wti else l_ten_over L wti)"

fun fallback_loop ::
  "('c, 'p, 'i, 'd, 'u, 'g, 'f) lib \<Rightarrow> problem \<Rightarrow> solver_id list \<Rightarrow> 'f imm_solution list \<Rightarrow> 'f imm_solution list result" where
  "fallback_loop L p [] interim = Inr interim"
| "fallback_loop L p (i # rest) interim =
     (case Id_GetAlgo (l_reg L) i of
        Inl e \<Rightarrow> Inl e
      | Inr algo \<Rightarrow>
          if IsAlgorithmDisabled (l_switches L) (algo_value algo) then fallback_loop L p rest interim
          else
            (case Id_GetSolver (l_reg L) i of
               None \<Rightarrow> fallback_loop L p rest interim
             | Some t \<Rightarrow>
                 let s = l_solvers L p (fresh_context L) t; wti = l_wti L p t in
                 if \<not> IsDynamic s then fallback_loop L p rest interim
                 else if \<not> IsApplicable s then fallback_loop L p rest interim
                 else if l_lt L wti (l_zero L) then fallback_loop L p rest interim
                 else fallback_loop L p rest
                   (interim @ [\<lparr>imm_time = wti2time L wti, workspace_size = GetWorkspaceSize s,
                     solution_id = id_value i, imm_algorithm = algo_value algo\<rparr>])))"

text \<open>The tensor whose channels are checked is the operation's x.\<close>

definition GetSolutionsFallback ::
  "('c, 'p, 'i, 'd, 'u, 'g, 'f) lib \<Rightarrow> problem \<Rightarrow> nat \<Rightarrow> 'f imm_solution list result" where
  "GetSolutionsFallback L p maxSolutionCount =
     (if l_no_fallback L then Inr []
      else
        (case ValidateGroupCount (if direction p = Forward then p_in p else p_out p) (p_weights p) (p_conv p) of
           Inl e \<Rightarrow> Inl e
         | Inr _ \<Rightarrow>
             (case fallback_loop L p (GetSolversByPrimitive (l_reg L) Solver_Registry.Convolution) [] of
                Inl e \<Rightarrow> Inl e
              | Inr interim \<Rightarrow> Inr (take maxSolutionCount (std_sort (solution_less L) interim)))))"

definition immFallbackFailed :: string where
  "immFallbackFailed = ''Requested convolution is not supported or Immediate mode Fallback unsuccessful.''"

definition GetSolutionCountFallback :: "('c, 'p, 'i, 'd, 'u, 'g, 'f) lib \<Rightarrow> problem \<Rightarrow> nat result" where
  "GetSolutionCountFallback L p =
     (case GetSolutionsFallback L p (length (GetSolversByPrimitive (l_reg L) Solver_Registry.Convolution)) of
        Inl e \<Rightarrow> Inl e
      | Inr sols \<Rightarrow> if length sols > 0 then Inr (length sols) else throw_st miopenStatusNotImplemented immFallbackFailed)"

section \<open>The calls of the interface\<close>

text \<open>The body that the three directions share: the entries of the find database, or the estimates when it
  gives none; the flag tells which. The pointers that must not be null are the arguments.\<close>

definition GetConvSolutions ::
  "('c, 'p, 'i, 'd, 'u, 'g, 'f) lib \<Rightarrow> problem result \<Rightarrow> (string \<Rightarrow> int result) \<Rightarrow> nat \<Rightarrow> bool \<Rightarrow> bool
    \<Rightarrow> ('p, 'i, 'd, 'u, 'g) host \<Rightarrow> (('p, 'i, 'd, 'u, 'g) host \<times> ('f imm_solution list \<times> bool) result) option" where
  "GetConvSolutions L problem resolver maxSolutionCount count_null solutions_null h =
     (if count_null then Some (h, throw_st miopenStatusBadParm ''solutionCount cannot be nullptr'')
      else if solutions_null then Some (h, throw_st miopenStatusBadParm ''solutions cannot be nullptr'')
      else
        (case problem of
           Inl e \<Rightarrow> Some (h, Inl e)
         | Inr p \<Rightarrow>
             (case GetSolutions L p maxSolutionCount resolver h of
                None \<Rightarrow> None
              | Some (h', Inl e) \<Rightarrow> Some (h', Inl e)
              | Some (h', Inr (s # sols)) \<Rightarrow> Some (h', Inr (s # sols, False))
              | Some (h', Inr []) \<Rightarrow>
                  (case GetSolutionsFallback L p maxSolutionCount of
                     Inl e \<Rightarrow> Some (h', Inl e)
                   | Inr sols \<Rightarrow> Some (h', Inr (sols, True))))))"

definition GetForwardSolutions where
  "GetForwardSolutions L w x y c =
     GetConvSolutions L (problem_of_tensors Forward x w y c) StringToConvolutionFwdAlgo"

definition GetBackwardSolutions where
  "GetBackwardSolutions L dy w dx c =
     GetConvSolutions L (problem_of_tensors BackwardData dx w dy c) StringToConvolutionBwdDataAlgo"

definition GetWrwSolutions where
  "GetWrwSolutions L dy x dw c =
     GetConvSolutions L (problem_of_tensors BackwardWeights x dw dy c) StringToConvolutionBwdWeightsAlgo"

text \<open>Their number.\<close>

definition ConvSolutionCount ::
  "('c, 'p, 'i, 'd, 'u, 'g, 'f) lib \<Rightarrow> problem result \<Rightarrow> ('p, 'i, 'd, 'u, 'g) host
    \<Rightarrow> ('p, 'i, 'd, 'u, 'g) host \<times> nat result" where
  "ConvSolutionCount L problem h =
     (case problem of
        Inl e \<Rightarrow> (h, Inl e)
      | Inr p \<Rightarrow>
          (case GetSolutionCount L p h of
             (h', Inl e) \<Rightarrow> (h', Inl e)
           | (h', Inr n) \<Rightarrow> (h', if n > 0 then Inr n else GetSolutionCountFallback L p)))"

definition GetForwardSolutionCount where
  "GetForwardSolutionCount L w x y c = ConvSolutionCount L (problem_of_tensors Forward x w y c)"

definition GetBackwardSolutionCount where
  "GetBackwardSolutionCount L dy w dx c h =
     (case ValidateGroupCount dx w c of
        Inl e \<Rightarrow> (h, Inl e)
      | Inr _ \<Rightarrow> ConvSolutionCount L (problem_of_tensors BackwardData dx w dy c) h)"

definition GetWrwSolutionCount where
  "GetWrwSolutionCount L dy x dw c = ConvSolutionCount L (problem_of_tensors BackwardWeights x dw dy c)"

text \<open>The workspace of a solution, by its ID.\<close>

definition ConvSolutionWorkspaceSize ::
  "('c, 'p, 'i, 'd, 'u, 'g, 'f) lib \<Rightarrow> problem result \<Rightarrow> solver_id \<Rightarrow> nat result option" where
  "ConvSolutionWorkspaceSize L problem i =
     (if \<not> is_valid i then Some (throw_st miopenStatusBadParm (''invalid solution id = '' @ Id_ToString (l_reg L) i))
      else
        (case Id_GetSolver (l_reg L) i of
           None \<Rightarrow> None
         | Some t \<Rightarrow>
             if \<not> l_may_need L t then Some (Inr 0)
             else
               (case problem of
                  Inl e \<Rightarrow> Some (Inl e)
                | Inr p \<Rightarrow>
                    (let s = l_solvers L p (fresh_context L) t in
                     if IsApplicable s then Some (Inr (GetWorkspaceSize s))
                     else Some (throw_st miopenStatusBadParm (''The supplied solution id: '' @ Id_ToString (l_reg L) i
                       @ '' is not applicable to the current problem''))))))"

definition GetForwardSolutionWorkspaceSize where
  "GetForwardSolutionWorkspaceSize L w x y c = ConvSolutionWorkspaceSize L (problem_of_tensors Forward x w y c)"

definition GetBackwardSolutionWorkspaceSize where
  "GetBackwardSolutionWorkspaceSize L dy w dx c = ConvSolutionWorkspaceSize L (problem_of_tensors BackwardData dx w dy c)"

definition GetWrwSolutionWorkspaceSize where
  "GetWrwSolutionWorkspaceSize L dy x dw c = ConvSolutionWorkspaceSize L (problem_of_tensors BackwardWeights x dw dy c)"

section \<open>Compiling a solution\<close>

text \<open>The solution of one solver under a context, from the performance database. An empty solver object is
  a null pointer.\<close>

definition AnySolver_FindSolution ::
  "('c, 'p, 'i, 'd, 'u, 'g, 'f) lib \<Rightarrow> problem \<Rightarrow> find_context \<Rightarrow> solver_id \<Rightarrow> ('p, 'i, 'd, 'u, 'g) host
    \<Rightarrow> (('p, 'i, 'd, 'u, 'g) host \<times> ('p, 'i) solution result) option" where
  "AnySolver_FindSolution L p ctx i h =
     (case Id_GetSolver (l_reg L) i of
        None \<Rightarrow> None
      | Some t \<Rightarrow>
          (case FindSolution ctx (l_perf_db L p) (l_solvers L p ctx t) (h_perf_db h) of
             (d, r) \<Rightarrow> Some (h\<lparr>h_perf_db := d\<rparr>, r)))"

text \<open>\<open>*solution.invoker_factory\<close> needs a factory.\<close>

definition PrepareInvoker ::
  "('c, 'p, 'i, 'd, 'u, 'g, 'f) lib \<Rightarrow> problem \<Rightarrow> find_context \<Rightarrow> string \<Rightarrow> solver_id \<Rightarrow> direction
    \<Rightarrow> ('p, 'i, 'd, 'u, 'g) host \<Rightarrow> (('p, 'i, 'd, 'u, 'g) host \<times> 'i result) option" where
  "PrepareInvoker L p ctx config i dir h =
     (case AnySolver_FindSolution L p ctx i h of
        None \<Rightarrow> None
      | Some (h1, Inl e) \<Rightarrow> Some (h1, Inl e)
      | Some (h1, Inr (_, sol)) \<Rightarrow>
          (case sol_factory sol of
             None \<Rightarrow> None
           | Some factory \<Rightarrow>
               (case Handle_PrepareInvoker L h1 factory (sol_params sol) of
                  (h2, Inl e) \<Rightarrow> Some (h2, Inl e)
                | (h2, Inr invoker) \<Rightarrow>
                    (case Id_GetAlgo_dir (l_reg L) i dir of
                       Inl e \<Rightarrow> Some (h2, Inl e)
                     | Inr algo \<Rightarrow>
                         (case Handle_RegisterInvoker h2 invoker config (Id_ToString (l_reg L) i) algo of
                            (h3, Inl e) \<Rightarrow> Some (h3, Inl e)
                          | (h3, Inr _) \<Rightarrow> Some (h3, Inr invoker))))))"

definition LoadOrPrepareInvoker ::
  "('c, 'p, 'i, 'd, 'u, 'g, 'f) lib \<Rightarrow> problem \<Rightarrow> find_context \<Rightarrow> solver_id \<Rightarrow> direction
    \<Rightarrow> ('p, 'i, 'd, 'u, 'g) host \<Rightarrow> (('p, 'i, 'd, 'u, 'g) host \<times> 'i result) option" where
  "LoadOrPrepareInvoker L p ctx i dir h =
     (case Handle_GetInvoker_solver (l_reg L) h (BuildConfKey p) i of
        Some invoker \<Rightarrow> Some (h, Inr invoker)
      | None \<Rightarrow> PrepareInvoker L p ctx (BuildConfKey p) i dir h)"

definition CheckInvokerSupport_id ::
  "('c, 'p, 'i, 'd, 'u, 'g, 'f) lib \<Rightarrow> solver_id \<Rightarrow> direction \<Rightarrow> bool result" where
  "CheckInvokerSupport_id L i dir =
     (case Id_GetAlgo_dir (l_reg L) i dir of Inl e \<Rightarrow> Inl e | Inr algo \<Rightarrow> Inr (CheckInvokerSupport algo))"

text \<open>\<open>AddKernels\<close>: the kernels of a solution under a key of the kernel cache, which is emptied first.\<close>

fun add_kernels_loop ::
  "('c, 'p, 'i, 'd, 'u, 'g, 'f) lib \<Rightarrow> string \<Rightarrow> string \<Rightarrow> nat \<Rightarrow> kernel_info list \<Rightarrow> 'p kernel_cache
    \<Rightarrow> 'p kernel_cache \<times> unit result" where
  "add_kernels_loop L algo config i [] kc = (kc, Inr ())"
| "add_kernels_loop L algo config i (k # ks) kc =
     (case KernelCache_AddKernel (l_load L) (l_arch L) kc algo config (kernel_file k) (kernel_name k)
             (map nat (l_wk k)) (map nat (g_wk k)) (comp_options k) i False [] of
        Inl e \<Rightarrow> (kc, Inl e)
      | Inr (kc', _) \<Rightarrow> add_kernels_loop L algo config (i + 1) ks kc')"

definition AddKernels ::
  "('c, 'p, 'i, 'd, 'u, 'g, 'f) lib \<Rightarrow> string \<Rightarrow> string \<Rightarrow> ('p, 'i) conv_solution \<Rightarrow> 'p kernel_cache
    \<Rightarrow> 'p kernel_cache \<times> unit result" where
  "AddKernels L algo config sol kc =
     (case (if algo \<noteq> [] \<and> config \<noteq> [] then KernelCache_ClearKernels kc algo config else Inr kc) of
        Inl e \<Rightarrow> (kc, Inl e)
      | Inr kc' \<Rightarrow> add_kernels_loop L algo config 0 (sol_params sol) kc')"

definition CompileSolver ::
  "('c, 'p, 'i, 'd, 'u, 'g, 'f) lib \<Rightarrow> problem \<Rightarrow> find_context \<Rightarrow> solver_id \<Rightarrow> kcache_key
    \<Rightarrow> ('p, 'i, 'd, 'u, 'g) host \<Rightarrow> (('p, 'i, 'd, 'u, 'g) host \<times> unit result) option" where
  "CompileSolver L p ctx i key h =
     (case AnySolver_FindSolution L p ctx i h of
        None \<Rightarrow> None
      | Some (h1, Inl e) \<Rightarrow> Some (h1, Inl e)
      | Some (h1, Inr (_, sol)) \<Rightarrow>
          (case AddKernels L (algorithm_name key) (network_config key) sol (h_kernels h1) of
             (kc, r) \<Rightarrow> Some (h1\<lparr>h_kernels := kc\<rparr>, r)))"

text \<open>The loop over the find database for a solver without invokers.\<close>

fun compile_loop ::
  "('c, 'p, 'i, 'd, 'u, 'g, 'f) lib \<Rightarrow> problem \<Rightarrow> find_context \<Rightarrow> solver_id \<Rightarrow> (string \<times> 'f find_data) list
    \<Rightarrow> ('p, 'i, 'd, 'u, 'g) host \<Rightarrow> (('p, 'i, 'd, 'u, 'g) host \<times> unit result) option" where
  "compile_loop L p ctx i [] h = Some (h, throw_st miopenStatusNotImplemented [])"
| "compile_loop L p ctx i ((_, d) # rest) h =
     (if \<not> Id_eq (Id_of_str (l_reg L) (fd_solver_id d)) i then compile_loop L p ctx i rest h
      else
        let key = fd_kcache_key d in
        if KernelCache_GetKernels (h_kernels h) (algorithm_name key) (network_config key) \<noteq> [] then Some (h, Inr ())
        else CompileSolver L p ctx i key h)"

definition CompileSolution ::
  "('c, 'p, 'i, 'd, 'u, 'g, 'f) lib \<Rightarrow> solver_id \<Rightarrow> problem \<Rightarrow> find_context \<Rightarrow> direction
    \<Rightarrow> ('p, 'i, 'd, 'u, 'g) host \<Rightarrow> (('p, 'i, 'd, 'u, 'g) host \<times> unit result) option" where
  "CompileSolution L i p ctx dir h =
     (if \<not> is_valid i then Some (h, throw_st miopenStatusBadParm (''solver_id = '' @ Id_ToString (l_reg L) i))
      else
        (case CheckInvokerSupport_id L i dir of
           Inl e \<Rightarrow> Some (h, Inl e)
         | Inr True \<Rightarrow>
             (case LoadOrPrepareInvoker L p ctx i dir h of
                None \<Rightarrow> None
              | Some (h1, r) \<Rightarrow> Some (h1, map_sum id (\<lambda>_. ()) r))
         | Inr False \<Rightarrow>
             (case find_record L p h of
                (h1, Inl e) \<Rightarrow> Some (h1, Inl e)
              | (h1, Inr None) \<Rightarrow> None
              | (h1, Inr (Some r)) \<Rightarrow> compile_loop L p ctx i (find_entries (l_io L) r) h1)))"

definition CompileConvSolution ::
  "('c, 'p, 'i, 'd, 'u, 'g, 'f) lib \<Rightarrow> problem result \<Rightarrow> direction \<Rightarrow> solver_id \<Rightarrow> ('p, 'i, 'd, 'u, 'g) host
    \<Rightarrow> (('p, 'i, 'd, 'u, 'g) host \<times> unit result) option" where
  "CompileConvSolution L problem dir i h =
     (case problem of
        Inl e \<Rightarrow> Some (h, Inl e)
      | Inr p \<Rightarrow> CompileSolution L i p ((fresh_context L)\<lparr>disable_enforce := True\<rparr>) dir h)"

definition CompileForwardSolution where
  "CompileForwardSolution L w x y c = CompileConvSolution L (problem_of_tensors Forward x w y c) Forward"

definition CompileBackwardSolution where
  "CompileBackwardSolution L dy w dx c = CompileConvSolution L (problem_of_tensors BackwardData dx w dy c) BackwardData"

definition CompileWrwSolution where
  "CompileWrwSolution L dy x dw c = CompileConvSolution L (problem_of_tensors BackwardWeights x dw dy c) BackwardWeights"

section \<open>Running a solution\<close>

text \<open>What the three immediate calls share after their checks; \<open>unsupported\<close> is the message of the throw.\<close>

definition run_immediate ::
  "('c, 'p, 'i, 'd, 'u, 'g, 'f) lib \<Rightarrow> problem result \<Rightarrow> direction \<Rightarrow> solver_id \<Rightarrow> (string \<Rightarrow> string) \<Rightarrow> invoke_params
    \<Rightarrow> ('p, 'i, 'd, 'u, 'g) host \<Rightarrow> (('p, 'i, 'd, 'u, 'g) host \<times> unit result) option" where
  "run_immediate L problem dir i unsupported ip h =
     (case problem of
        Inl e \<Rightarrow> Some (h, Inl e)
      | Inr p \<Rightarrow>
          (case CheckInvokerSupport_id L i dir of
             Inl e \<Rightarrow> Some (h, Inl e)
           | Inr False \<Rightarrow>
               Some (h, case Id_GetAlgo_dir (l_reg L) i dir of Inl e \<Rightarrow> Inl e | Inr algo \<Rightarrow> throw (unsupported algo))
           | Inr True \<Rightarrow>
               (case LoadOrPrepareInvoker L p (fresh_context L) i dir h of
                  None \<Rightarrow> None
                | Some (h1, Inl e) \<Rightarrow> Some (h1, Inl e)
                | Some (h1, Inr invoker) \<Rightarrow>
                    (case run_invoker L h1 invoker ip of (h2, r) \<Rightarrow> Some (h2, map_sum id (\<lambda>_. ()) r)))))"

definition ConvolutionForwardImmediate ::
  "('c, 'p, 'i, 'd, 'u, 'g, 'f) lib \<Rightarrow> conv_tensors \<Rightarrow> conv_desc \<Rightarrow> invoke_params \<Rightarrow> solver_id \<Rightarrow> ('p, 'i, 'd, 'u, 'g) host
    \<Rightarrow> (('p, 'i, 'd, 'u, 'g) host \<times> unit result) option" where
  "ConvolutionForwardImmediate L t c ip i h =
     (case ValidateConvTensors t of
        Inl e \<Rightarrow> Some (h, Inl e)
      | Inr _ \<Rightarrow>
          if \<not> is_valid i then Some (h, throw_st miopenStatusBadParm [])
          else run_immediate L (problem_of_tensors Forward (c_x t) (c_w t) (c_y t) c) Forward i
            (\<lambda>algo. ''Conv forward algorithm '' @ algo @ '' must implement invokers.'') ip h)"

text \<open>The tensors are dx, w and dy.\<close>

definition ConvolutionBackwardImmediate ::
  "('c, 'p, 'i, 'd, 'u, 'g, 'f) lib \<Rightarrow> conv_tensors \<Rightarrow> conv_desc \<Rightarrow> invoke_params \<Rightarrow> solver_id \<Rightarrow> ('p, 'i, 'd, 'u, 'g) host
    \<Rightarrow> (('p, 'i, 'd, 'u, 'g) host \<times> unit result) option" where
  "ConvolutionBackwardImmediate L t c ip i h =
     (case ValidateConvTensors t of
        Inl e \<Rightarrow> Some (h, Inl e)
      | Inr _ \<Rightarrow>
          if t_lens (c_y t) ! 1 \<noteq> t_lens (c_w t) ! 0 then Some (h, throw_st miopenStatusBadParm [])
          else
            (case ValidateGroupCount (c_x t) (c_w t) c of
               Inl e \<Rightarrow> Some (h, Inl e)
             | Inr _ \<Rightarrow>
                 run_immediate L (problem_of_tensors BackwardData (c_x t) (c_w t) (c_y t) c) BackwardData i
                   (\<lambda>algo. ''Conv backward algorithm '' @ algo @ '' must implement invokers.'') ip h))"

text \<open>The tensors are x, dw and dy.\<close>

definition ConvolutionWrwImmediate ::
  "('c, 'p, 'i, 'd, 'u, 'g, 'f) lib \<Rightarrow> conv_tensors \<Rightarrow> conv_desc \<Rightarrow> invoke_params \<Rightarrow> solver_id \<Rightarrow> ('p, 'i, 'd, 'u, 'g) host
    \<Rightarrow> (('p, 'i, 'd, 'u, 'g) host \<times> unit result) option" where
  "ConvolutionWrwImmediate L t c ip i h =
     (case ValidateConvTensors t of
        Inl e \<Rightarrow> Some (h, Inl e)
      | Inr _ \<Rightarrow>
          if t_type (c_x t) = miopenInt8 then Some (h, throw_st miopenStatusBadParm [])
          else
            (case ValidateGroupCount (c_x t) (c_w t) c of
               Inl e \<Rightarrow> Some (h, Inl e)
             | Inr _ \<Rightarrow>
                 run_immediate L (problem_of_tensors BackwardWeights (c_x t) (c_w t) (c_y t) c) BackwardWeights i
                   (\<lambda>_. ''Solver '' @ Id_ToString (l_reg L) i @ '' requested in immediate WrW, which is not supported.'')
                   ip h))"

section \<open>What compiling promises\<close>

text \<open>What an operation keeps of the invokers, and that it does not touch the find database.\<close>

definition keeps_found ::
  "('c, 'p, 'i, 'd, 'u, 'g, 'f) lib \<Rightarrow> ('p, 'i, 'd, 'u, 'g) host \<Rightarrow> ('p, 'i, 'd, 'u, 'g) host \<Rightarrow> bool" where
  "keeps_found L h h' \<longleftrightarrow> h_find_db h' = h_find_db h
     \<and> (found_registered L (h_invokers h) \<longrightarrow> found_registered L (h_invokers h'))
     \<and> (\<forall>c b. found_ok (h_invokers h) c b \<longrightarrow> found_ok (h_invokers h') c b)"

lemma keeps_found_refl [simp]: "keeps_found L h h"
  by (simp add: keeps_found_def)

lemma keeps_found_trans: "keeps_found L h h' \<Longrightarrow> keeps_found L h' h'' \<Longrightarrow> keeps_found L h h''"
  by (simp add: keeps_found_def)

lemma same_host_keeps: "same_host h h' \<Longrightarrow> keeps_found L h h'"
  by (simp add: same_host_def keeps_found_def)

lemma keeps_found_simps [simp]:
  "keeps_found L h (h\<lparr>h_perf_db := d\<rparr>)" "keeps_found L h (h\<lparr>h_kernels := kc\<rparr>)" "keeps_found L h (h\<lparr>h_device := g\<rparr>)"
  by (simp_all add: keeps_found_def)

lemma Handle_RegisterInvoker_keeps:
  assumes "Handle_RegisterInvoker h invoker config s a = (h', r)" "found_registered L (h_invokers h)"
    and "Id_GetAlgo_dir (l_reg L) (Id_of_str (l_reg L) s) (config_direction config) = Inr a"
  shows "keeps_found L h h'"
proof -
  note f = Handle_RegisterInvoker_found [OF assms]
  have "h_find_db h' = h_find_db h" by (subst f(5)) simp
  with f(1,3) show ?thesis by (simp add: keeps_found_def)
qed

lemma PrepareInvoker_found:
  assumes "PrepareInvoker L p ctx config i dir h = Some (h', r)" "found_registered L (h_invokers h)"
    and "Id_of_str (l_reg L) (Id_ToString (l_reg L) i) = i" "config_direction config = dir"
  shows "keeps_found L h h' \<and> (\<forall>x. r = Inr x \<longrightarrow>
    (\<exists>a. Id_GetAlgo_dir (l_reg L) i dir = Inr a \<and> found_ok (h_invokers h') config a))"
proof -
  obtain h1 s where s: "AnySolver_FindSolution L p ctx i h = Some (h1, s)"
    using assms(1) by (auto simp: PrepareInvoker_def split: option.splits)
  then have k1: "keeps_found L h h1" by (auto simp: AnySolver_FindSolution_def split: option.splits prod.splits)
  show ?thesis
  proof (cases s)
    case (Inl e)
    with assms(1) s k1 show ?thesis by (auto simp: PrepareInvoker_def)
  next
    case (Inr x)
    then obtain j sol f where x: "s = Inr (j, sol)" "sol_factory sol = Some f"
      using assms(1) s by (cases x) (auto simp: PrepareInvoker_def split: option.splits)
    obtain h2 q where q: "Handle_PrepareInvoker L h1 f (sol_params sol) = (h2, q)" by fastforce
    have k2: "keeps_found L h h2"
      using keeps_found_trans [OF k1 same_host_keeps [OF Handle_PrepareInvoker_keeps [OF q]]] .
    then have reg: "found_registered L (h_invokers h2)" using assms(2) by (simp add: keeps_found_def)
    show ?thesis
    proof (cases q)
      case (Inl e)
      with assms(1) s x q k2 show ?thesis by (auto simp: PrepareInvoker_def)
    next
      case inv: (Inr invoker)
      show ?thesis
      proof (cases "Id_GetAlgo_dir (l_reg L) i dir")
        case (Inl e)
        with assms(1) s x q k2 inv show ?thesis by (auto simp: PrepareInvoker_def)
      next
        case (Inr a)
        obtain h3 w where w: "Handle_RegisterInvoker h2 invoker config (Id_ToString (l_reg L) i) a = (h3, w)" by fastforce
        have a: "Id_GetAlgo_dir (l_reg L) (Id_of_str (l_reg L) (Id_ToString (l_reg L) i)) (config_direction config) = Inr a"
          using Inr assms(3,4) by simp
        note f = Handle_RegisterInvoker_found [OF w reg a] Handle_RegisterInvoker_keeps [OF w reg a]
        have "h' = h3" using assms(1) s x q inv Inr w f(4) by (simp add: PrepareInvoker_def)
        with f keeps_found_trans [OF k2 f(6)] Inr show ?thesis by auto
      qed
    qed
  qed
qed

lemma LoadOrPrepareInvoker_found:
  assumes "LoadOrPrepareInvoker L p ctx i (direction p) h = Some (h', r)" "found_registered L (h_invokers h)"
    and "Id_of_str (l_reg L) (Id_ToString (l_reg L) i) = i"
  shows "keeps_found L h h' \<and> (\<forall>x. r = Inr x \<longrightarrow>
    (\<exists>a. Id_GetAlgo_dir (l_reg L) i (direction p) = Inr a \<and> found_ok (h_invokers h') (BuildConfKey p) a))"
proof (cases "Handle_GetInvoker_solver (l_reg L) h (BuildConfKey p) i")
  case None
  with assms(1) have "PrepareInvoker L p ctx (BuildConfKey p) i (direction p) h = Some (h', r)"
    by (simp add: LoadOrPrepareInvoker_def)
  from PrepareInvoker_found [OF this assms(2,3)] show ?thesis by simp
next
  case (Some x)
  then have "InvokerCache_get (h_invokers h) (BuildConfKey p, Id_ToString (l_reg L) i) \<noteq> None"
    by (simp add: Handle_GetInvoker_solver_def)
  with assms(2) [unfolded found_registered_def, rule_format, OF this] assms(3)
  have "\<exists>a. Id_GetAlgo_dir (l_reg L) i (direction p) = Inr a \<and> found_ok (h_invokers h) (BuildConfKey p) a" by simp
  with Some assms(1) show ?thesis by (auto simp: LoadOrPrepareInvoker_def)
qed

text \<open>A compiled solution that supports invokers is found by the convolution call of its algorithm.\<close>

lemma CompileConvSolution_found:
  assumes "CompileConvSolution L (Inr p) (direction p) (Id_of_value (l_reg L) n) h = Some (h', Inr ())"
    and "lib_ok L" "found_registered L (h_invokers h)"
    and "Id_GetAlgo_dir (l_reg L) (Id_of_value (l_reg L) n) (direction p) = Inr a" "CheckInvokerSupport a"
  shows "found_ok (h_invokers h') (BuildConfKey p) a"
proof -
  let ?i = "Id_of_value (l_reg L) n"
  have v: "is_valid ?i" using assms(1) by (auto simp: CompileConvSolution_def CompileSolution_def split: if_splits)
  then have i: "Id_of_str (l_reg L) (Id_ToString (l_reg L) ?i) = ?i"
    using IdRegistry_by_number [of "l_names L"] assms(2) by (simp add: lib_ok_def l_reg_def)
  have "CheckInvokerSupport_id L ?i (direction p) = Inr True" using assms(4,5) by (simp add: CheckInvokerSupport_id_def)
  with assms(1) v obtain q where
    q: "LoadOrPrepareInvoker L p ((fresh_context L)\<lparr>disable_enforce := True\<rparr>) ?i (direction p) h = Some (h', q)"
      "map_sum id (\<lambda>_. ()) q = Inr ()"
    by (auto simp: CompileConvSolution_def CompileSolution_def split: option.splits)
  then obtain x where "LoadOrPrepareInvoker L p ((fresh_context L)\<lparr>disable_enforce := True\<rparr>) ?i (direction p) h = Some (h', Inr x)"
    by (cases q) auto
  from LoadOrPrepareInvoker_found [OF this assms(3) i] assms(4) show ?thesis by auto
qed

end
