(* ===== verification/Conv_Find.thy ===== *)
theory Conv_Find
  imports Conv_Immediate
begin

text \<open>
  The find step and the convolution calls (\<open>src/ocl/convolutionocl.cpp\<close>): solutions of every algorithm are
  compiled and measured, the fastest of each algorithm is registered and recorded, and the calls run what was
  registered.
\<close>

section \<open>Measuring solutions\<close>

text \<open>Solutions that need workspace are skipped when too little is given.\<close>

definition fits :: "invoke_params \<Rightarrow> ('p, 'i) conv_solution \<Rightarrow> bool" where
  "fits ip sol \<longleftrightarrow> sol_workspace sol = 0 \<or> (\<not> ip_null ip \<and> sol_workspace sol \<le> ip_size ip)"

record ('p, 'i, 'f) selection =
  sel_best :: 'f
  sel_choice :: "(('p, 'i) solution \<times> 'i) option"

fun evaluate_loop ::
  "('c, 'p, 'i, 'd, 'u, 'g, 'f) lib \<Rightarrow> invoke_params \<Rightarrow> ('p, 'i) solution list \<Rightarrow> ('p, 'i, 'f) selection
    \<Rightarrow> ('p, 'i, 'd, 'u, 'g) host \<Rightarrow> ('p, 'i, 'd, 'u, 'g) host \<times> ('p, 'i, 'f) selection result" where
  "evaluate_loop L ip [] s h = (h, Inr s)"
| "evaluate_loop L ip (sol # rest) s h =
     (if \<not> fits ip (snd sol) then evaluate_loop L ip rest s h
      else
        (case sol_factory (snd sol) of
           None \<Rightarrow> (h, throw (''Invoker is not provided by solver '' @ fst sol))
         | Some factory \<Rightarrow>
             (case Handle_PrepareInvoker L h factory (sol_params (snd sol)) of
                (h1, Inl e) \<Rightarrow> (h1, Inl e)
              | (h1, Inr invoker) \<Rightarrow>
                  (case run_invoker L h1 invoker ip of
                     (h2, Inl e) \<Rightarrow> evaluate_loop L ip rest s h2
                   | (h2, Inr elapsed) \<Rightarrow>
                       evaluate_loop L ip rest
                         (if l_lt L elapsed (sel_best s) then \<lparr>sel_best = elapsed, sel_choice = Some (sol, invoker)\<rparr>
                          else s) h2))))"

definition EvaluateInvokers ::
  "('c, 'p, 'i, 'd, 'u, 'g, 'f) lib \<Rightarrow> ('p, 'i) solution list \<Rightarrow> string \<Rightarrow> string \<Rightarrow> invoke_params
    \<Rightarrow> ('p, 'i, 'd, 'u, 'g) host \<Rightarrow> db_record \<Rightarrow> ('p, 'i, 'd, 'u, 'g) host \<times> db_record \<times> exn option" where
  "EvaluateInvokers L solutions algo config ip h r =
     (if l_arch L then (h, r, None)
      else
        (case evaluate_loop L ip solutions \<lparr>sel_best = l_max L, sel_choice = None\<rparr> h of
           (h1, Inl e) \<Rightarrow> (h1, r, Some e)
         | (h1, Inr s) \<Rightarrow>
             (case sel_choice s of
                None \<Rightarrow> (h1, r, None)
              | Some (selected, invoker) \<Rightarrow>
                  if \<not> sol_ok (snd selected) then (h1, r, None)
                  else
                    (case Handle_RegisterInvoker h1 invoker config (fst selected) algo of
                       (h2, Inl e) \<Rightarrow> (h2, r, Some e)
                     | (h2, Inr _) \<Rightarrow>
                         (case MakeUnused algo of
                            Inl e \<Rightarrow> (h2, r, Some e)
                          | Inr key \<Rightarrow>
                              (case FindDbData (fst selected) (sel_best s) (sol_workspace (snd selected)) key of
                                 Inl e \<Rightarrow> (h2, r, Some e)
                               | Inr d \<Rightarrow>
                                   (h2, fst (DbRecord_SetValuesT (FindDbData_Serialize (io_show (l_io L))) r algo d), None)))))))"

text \<open>The calls of \<open>EvaluateInvokers\<close> in order; an exception ends them.\<close>

fun evaluate_all ::
  "('c, 'p, 'i, 'd, 'u, 'g, 'f) lib \<Rightarrow> string \<Rightarrow> invoke_params \<Rightarrow> (string \<times> ('p, 'i) solution list) list
    \<Rightarrow> ('p, 'i, 'd, 'u, 'g) host \<Rightarrow> db_record \<Rightarrow> ('p, 'i, 'd, 'u, 'g) host \<times> db_record \<times> exn option" where
  "evaluate_all L config ip [] h r = (h, r, None)"
| "evaluate_all L config ip ((algo, sols) # rest) h r =
     (case EvaluateInvokers L sols algo config ip h r of
        (h1, r1, Some e) \<Rightarrow> (h1, r1, Some e)
      | (h1, r1, None) \<Rightarrow> evaluate_all L config ip rest h1 r1)"

section \<open>The find step\<close>

definition IsWinograd3x3SupportedAndFast :: "('c, 'p, 'i, 'd, 'u, 'g, 'f) lib \<Rightarrow> problem \<Rightarrow> find_context \<Rightarrow> bool" where
  "IsWinograd3x3SupportedAndFast L p ctx =
     (if winograd_disabled (l_switches L) then False
      else if l_find_only L \<noteq> None then False
      else if \<not> (to_int (GetOutChannels p) \<ge> 16 \<and> to_int (GetOutChannels p) mod 2 = 0) then False
      else IsApplicable (l_solvers L p ctx ''ConvBinWinograd3x3U''))"

definition find_context_of :: "('c, 'p, 'i, 'd, 'u, 'g, 'f) lib \<Rightarrow> find_context" where
  "find_context_of L =
     (fresh_context L)\<lparr>use_dynamic_solutions_only := FindMode_IsDynamicHybrid (l_mode L) (l_enforce L) False\<rparr>"

text \<open>Compiling what was found, then measuring it.\<close>

definition compile_and_evaluate ::
  "('c, 'p, 'i, 'd, 'u, 'g, 'f) lib \<Rightarrow> string \<Rightarrow> invoke_params \<Rightarrow> (string \<times> ('p, 'i) solution list) list
    \<Rightarrow> ('p, 'i, 'd, 'u, 'g) host \<Rightarrow> db_record \<Rightarrow> (('p, 'i, 'd, 'u, 'g) host \<times> db_record \<times> exn option) option" where
  "compile_and_evaluate L config ip sols h r =
     (case PrecompileSolutions L (map snd (concat (map snd sols))) (h_kernels h) of
        None \<Rightarrow> None
      | Some (kc, Inl e) \<Rightarrow> Some (h\<lparr>h_kernels := kc\<rparr>, r, Some e)
      | Some (kc, Inr _) \<Rightarrow> Some (evaluate_all L config ip sols (h\<lparr>h_kernels := kc\<rparr>) r))"

text \<open>The regenerators of the forward and the backward data direction.\<close>

definition data_find_core ::
  "('c, 'p, 'i, 'd, 'u, 'g, 'f) lib \<Rightarrow> problem \<Rightarrow> direction \<Rightarrow> invoke_params \<Rightarrow> bool \<Rightarrow> bool
    \<Rightarrow> ('p, 'i, 'd, 'u, 'g) host \<Rightarrow> db_record \<Rightarrow> (('p, 'i, 'd, 'u, 'g) host \<times> db_record \<times> exn option) option" where
  "data_find_core L p dir ip exhaustiveSearch only h r =
     (case FindDataSolutions (l_switches L) (l_solvers L p) (l_perf_db L p) (find_context_of L)
             (FindMode_IsDynamicHybrid (l_mode L) (l_enforce L) False) exhaustiveSearch only (h_perf_db h) of
        (d, fs) \<Rightarrow>
          compile_and_evaluate L (BuildConfKey p) ip
            [(ConvolutionAlgoToDirectionalString Algo_GEMM dir, s_gemm fs),
             (ConvolutionAlgoToDirectionalString Algo_Winograd dir, s_winograd fs),
             (ConvolutionAlgoToDirectionalString Algo_Direct dir, s_direct fs),
             (ConvolutionAlgoToDirectionalString Algo_ImplicitGEMM dir, s_igemm fs),
             (ConvolutionAlgoToDirectionalString Algo_FFT dir, s_fft fs)]
            (h\<lparr>h_perf_db := d\<rparr>) r)"

definition DirConvFindCore ::
  "('c, 'p, 'i, 'd, 'u, 'g, 'f) lib \<Rightarrow> tensor \<Rightarrow> tensor \<Rightarrow> conv_desc \<Rightarrow> problem \<Rightarrow> invoke_params \<Rightarrow> bool \<Rightarrow> bool
    \<Rightarrow> ('p, 'i, 'd, 'u, 'g) host \<Rightarrow> db_record \<Rightarrow> (('p, 'i, 'd, 'u, 'g) host \<times> db_record \<times> exn option) option" where
  "DirConvFindCore L x w c p ip exhaustiveSearch only h r =
     (case ValidateGroupCount x w c of
        Inl e \<Rightarrow> Some (h, r, Some e)
      | Inr _ \<Rightarrow> data_find_core L p Forward ip exhaustiveSearch only h r)"

definition wrw_find_core ::
  "('c, 'p, 'i, 'd, 'u, 'g, 'f) lib \<Rightarrow> problem \<Rightarrow> invoke_params \<Rightarrow> bool
    \<Rightarrow> ('p, 'i, 'd, 'u, 'g) host \<Rightarrow> db_record \<Rightarrow> (('p, 'i, 'd, 'u, 'g) host \<times> db_record \<times> exn option) option" where
  "wrw_find_core L p ip exhaustiveSearch h r =
     (case FindWrwSolutions (l_switches L) (l_solvers L p) (l_perf_db L p)
             ((find_context_of L)\<lparr>do_search := exhaustiveSearch\<rparr>) (h_perf_db h) of
        (d, Inl e) \<Rightarrow> Some (h\<lparr>h_perf_db := d\<rparr>, r, Some e)
      | (d, Inr fs) \<Rightarrow>
          compile_and_evaluate L (BuildConfKey p) ip
            [(''miopenConvolutionBwdWeightsAlgoGEMM'', w_gemm fs),
             (''miopenConvolutionBwdWeightsAlgoDirect'', w_direct fs),
             (''miopenConvolutionBwdWeightsAlgoWinograd'', w_winograd fs),
             (''miopenConvolutionBwdWeightsAlgoImplicitGEMM'', w_igemm fs)]
            (h\<lparr>h_perf_db := d\<rparr>) r)"

section \<open>The three find calls\<close>

text \<open>In the fast and hybrid modes the immediate mode may stand in for the measurements.\<close>

definition immediate_choice ::
  "('c, 'p, 'i, 'd, 'u, 'g, 'f) lib \<Rightarrow> problem \<Rightarrow> (string \<Rightarrow> int result) \<Rightarrow> ('p, 'i, 'd, 'u, 'g) host
    \<Rightarrow> (('p, 'i, 'd, 'u, 'g) host \<times> 'f imm_solution option result) option" where
  "immediate_choice L p resolver h =
     (let hybrid = FindMode_IsHybrid (l_mode L) (l_enforce L) False in
      if FindMode_IsFast (l_mode L) (l_enforce L) False \<or> hybrid then
        (case GetConvSolutions L (Inr p) resolver 1 False False h of
           None \<Rightarrow> None
         | Some (h', Inl e) \<Rightarrow> Some (h', Inl e)
         | Some (h', Inr ([], fallback)) \<Rightarrow> Some (h', Inr None)
         | Some (h', Inr (s # _, fallback)) \<Rightarrow> Some (h', Inr (if hybrid \<and> fallback then None else Some s)))
      else Some (h, Inr None))"

definition find_perf_db ::
  "('c, 'p, 'i, 'd, 'u, 'g, 'f) lib \<Rightarrow> problem \<Rightarrow> direction \<Rightarrow> (string \<Rightarrow> int result)
    \<Rightarrow> (('p, 'i, 'd, 'u, 'g) host \<Rightarrow> db_record \<Rightarrow> (('p, 'i, 'd, 'u, 'g) host \<times> db_record \<times> exn option) option)
    \<Rightarrow> ('p, 'i, 'd, 'u, 'g) host \<Rightarrow> (('p, 'i, 'd, 'u, 'g) host \<times> 'f perf_field list result) option" where
  "find_perf_db L p dir resolver core h =
     (case immediate_choice L p resolver h of
        None \<Rightarrow> None
      | Some (h1, Inl e) \<Rightarrow> Some (h1, Inl e)
      | Some (h1, Inr (Some sol)) \<Rightarrow>
          (let i = Id_of_value (l_reg L) (solution_id sol) in
           case CompileConvSolution L (Inr p) dir i h1 of
             None \<Rightarrow> None
           | Some (h2, Inl e) \<Rightarrow> Some (h2, Inl e)
           | Some (h2, Inr _) \<Rightarrow>
               (case Id_GetAlgo_dir (l_reg L) i dir of
                  Inl e \<Rightarrow> Some (h2, Inl e)
                | Inr algo \<Rightarrow> Some (h2, Inr [\<lparr>pf_name = algo, pf_solver_id = Id_ToString (l_reg L) i,
                    pf_time = imm_time sol, pf_workspace = workspace_size sol\<rparr>])))
      | Some (h1, Inr None) \<Rightarrow>
          TryLoad (l_io L) (l_reg L) (l_find_ops L) (l_find_enabled L) (Problem_Serialize p) (BuildConfKey p) core h1)"

text \<open>\<open>miopenConvAlgoPerf_t\<close>.\<close>

record 'f algo_perf =
  ap_algo :: int
  ap_time :: 'f
  ap_memory :: nat

fun perf_results :: "(string \<Rightarrow> int result) \<Rightarrow> 'f perf_field list \<Rightarrow> 'f algo_perf list result" where
  "perf_results resolver [] = Inr []"
| "perf_results resolver (f # fs) =
     (case resolver (pf_name f) of
        Inl e \<Rightarrow> Inl e
      | Inr a \<Rightarrow>
          (case perf_results resolver fs of
             Inl e \<Rightarrow> Inl e
           | Inr rs \<Rightarrow> Inr (\<lparr>ap_algo = a, ap_time = pf_time f, ap_memory = pf_workspace f\<rparr> # rs)))"

definition report ::
  "('c, 'p, 'i, 'd, 'u, 'g, 'f) lib \<Rightarrow> (string \<Rightarrow> int result) \<Rightarrow> string \<Rightarrow> exn \<Rightarrow> int \<Rightarrow> 'f perf_field list
    \<Rightarrow> 'f algo_perf list result" where
  "report L resolver skipped_msg failed requestAlgoCount perf_db =
     (if l_compile_only L then throw_st miopenStatusGpuOperationsSkipped skipped_msg
      else if perf_db = [] then Inl failed
      else perf_results resolver
        (take (nat requestAlgoCount) (std_sort (\<lambda>a b. l_lt L (pf_time a) (pf_time b)) perf_db)))"

definition find_arguments :: "bool \<Rightarrow> bool \<Rightarrow> bool \<Rightarrow> int \<Rightarrow> unit result" where
  "find_arguments buffer_null count_null perf_null requestAlgoCount =
     (if buffer_null then throw_st miopenStatusBadParm ''Buffers cannot be NULL''
      else if count_null then throw_st miopenStatusBadParm ''returnedAlgoCount cannot be nullptr''
      else if perf_null then throw_st miopenStatusBadParm ''perfResults cannot be nullptr''
      else if requestAlgoCount < 1 then throw_st miopenStatusBadParm ''requestAlgoCount cannot be < 1''
      else Inr ())"

definition FindConvFwdAlgorithm ::
  "('c, 'p, 'i, 'd, 'u, 'g, 'f) lib \<Rightarrow> conv_tensors \<Rightarrow> conv_desc \<Rightarrow> int \<Rightarrow> bool \<Rightarrow> bool \<Rightarrow> invoke_params \<Rightarrow> bool
    \<Rightarrow> ('p, 'i, 'd, 'u, 'g) host \<Rightarrow> (('p, 'i, 'd, 'u, 'g) host \<times> 'f algo_perf list result) option" where
  "FindConvFwdAlgorithm L t c requestAlgoCount count_null perf_null ip exhaustiveSearch h =
     (case find_arguments (x_null t \<or> w_null t \<or> y_null t) count_null perf_null requestAlgoCount of
        Inl e \<Rightarrow> Some (h, Inl e)
      | Inr _ \<Rightarrow>
     (case problem_of_tensors Forward (c_x t) (c_w t) (c_y t) c of
        Inl e \<Rightarrow> Some (h, Inl e)
      | Inr p \<Rightarrow>
     (case find_perf_db L p Forward StringToConvolutionFwdAlgo
             (DirConvFindCore L (c_x t) (c_w t) c p ip exhaustiveSearch
                (IsWinograd3x3SupportedAndFast L p (find_context_of L))) h of
        None \<Rightarrow> None
      | Some (h', Inl e) \<Rightarrow> Some (h', Inl e)
      | Some (h', Inr perf_db) \<Rightarrow>
          Some (h', report L StringToConvolutionFwdAlgo
            ''MIOPEN_DEBUG_COMPILE_ONLY is enabled, escaping forward convolution. Search skipped.''
            (Exn miopenStatusUnknownError ''Forward Convolution cannot be executed due to incorrect params'')
            requestAlgoCount perf_db))))"

text \<open>The tensors are dx, w and dy. The fast Winograd case is decided before the database is asked, in a context
  without \<open>use_dynamic_solutions_only\<close>.\<close>

definition FindConvBwdDataAlgorithm ::
  "('c, 'p, 'i, 'd, 'u, 'g, 'f) lib \<Rightarrow> conv_tensors \<Rightarrow> conv_desc \<Rightarrow> int \<Rightarrow> bool \<Rightarrow> bool \<Rightarrow> invoke_params \<Rightarrow> bool
    \<Rightarrow> ('p, 'i, 'd, 'u, 'g) host \<Rightarrow> (('p, 'i, 'd, 'u, 'g) host \<times> 'f algo_perf list result) option" where
  "FindConvBwdDataAlgorithm L t c requestAlgoCount count_null perf_null ip exhaustiveSearch h =
     (case find_arguments (x_null t \<or> w_null t \<or> y_null t) count_null perf_null requestAlgoCount of
        Inl e \<Rightarrow> Some (h, Inl e)
      | Inr _ \<Rightarrow>
     (case ValidateGroupCount (c_x t) (c_w t) c of
        Inl e \<Rightarrow> Some (h, Inl e)
      | Inr _ \<Rightarrow>
     (case problem_of_tensors BackwardData (c_x t) (c_w t) (c_y t) c of
        Inl e \<Rightarrow> Some (h, Inl e)
      | Inr p \<Rightarrow>
     (case find_perf_db L p BackwardData StringToConvolutionBwdDataAlgo
             (data_find_core L p BackwardData ip exhaustiveSearch
                (IsWinograd3x3SupportedAndFast L p (fresh_context L))) h of
        None \<Rightarrow> None
      | Some (h', Inl e) \<Rightarrow> Some (h', Inl e)
      | Some (h', Inr perf_db) \<Rightarrow>
          Some (h', report L StringToConvolutionBwdDataAlgo
            ''MIOPEN_DEBUG_COMPILE_ONLY is enabled, escaping bwd convolution. Search skipped.''
            (Exn miopenStatusUnknownError ''Backward Data Convolution cannot be executed due to incorrect params'')
            requestAlgoCount perf_db)))))"

text \<open>The tensors are x, dw and dy.\<close>

definition FindConvBwdWeightsAlgorithm ::
  "('c, 'p, 'i, 'd, 'u, 'g, 'f) lib \<Rightarrow> conv_tensors \<Rightarrow> conv_desc \<Rightarrow> int \<Rightarrow> bool \<Rightarrow> bool \<Rightarrow> invoke_params \<Rightarrow> bool
    \<Rightarrow> ('p, 'i, 'd, 'u, 'g) host \<Rightarrow> (('p, 'i, 'd, 'u, 'g) host \<times> 'f algo_perf list result) option" where
  "FindConvBwdWeightsAlgorithm L t c requestAlgoCount count_null perf_null ip exhaustiveSearch h =
     (case find_arguments (x_null t \<or> w_null t \<or> y_null t) count_null perf_null requestAlgoCount of
        Inl e \<Rightarrow> Some (h, Inl e)
      | Inr _ \<Rightarrow>
     (if t_type (c_x t) = miopenInt8 then Some (h, throw_st miopenStatusBadParm [])
      else
     (case problem_of_tensors BackwardWeights (c_x t) (c_w t) (c_y t) c of
        Inl e \<Rightarrow> Some (h, Inl e)
      | Inr p \<Rightarrow>
     (case find_perf_db L p BackwardWeights StringToConvolutionBwdWeightsAlgo (wrw_find_core L p ip exhaustiveSearch) h of
        None \<Rightarrow> None
      | Some (h', Inl e) \<Rightarrow> Some (h', Inl e)
      | Some (h', Inr perf_db) \<Rightarrow>
          Some (h', report L StringToConvolutionBwdWeightsAlgo
            ''MIOPEN_DEBUG_COMPILE_ONLY is enabled, escaping backwards convolution. Search skipped.''
            (Exn miopenStatusUnknownError ''Backward Weights Convolution cannot be executed due to incorrect params'')
            requestAlgoCount perf_db)))))"

section \<open>The convolution calls\<close>

definition algo_of_value :: "int \<Rightarrow> conv_algo option" where
  "algo_of_value v = find (\<lambda>a. algo_value a = v) [Algo_GEMM, Algo_Direct, Algo_FFT, Algo_Winograd, Algo_ImplicitGEMM]"

text \<open>\<open>ConvolutionAlgoToDirectionalString\<close> of a value of the enumeration.\<close>

definition directional_name :: "int \<Rightarrow> direction \<Rightarrow> string" where
  "directional_name v dir =
     (case algo_of_value v of Some a \<Rightarrow> ConvolutionAlgoToDirectionalString a dir | None \<Rightarrow> ''<invalid algorithm>'')"

text \<open>What they share: the invoker that was found for the algorithm is run.\<close>

definition run_found ::
  "('c, 'p, 'i, 'd, 'u, 'g, 'f) lib \<Rightarrow> problem result \<Rightarrow> int \<Rightarrow> direction \<Rightarrow> string \<Rightarrow> invoke_params
    \<Rightarrow> ('p, 'i, 'd, 'u, 'g) host \<Rightarrow> ('p, 'i, 'd, 'u, 'g) host \<times> unit result" where
  "run_found L problem algo dir missing ip h =
     (case problem of
        Inl e \<Rightarrow> (h, Inl e)
      | Inr p \<Rightarrow>
          (case Handle_GetInvoker_algo h (BuildConfKey p) (directional_name algo dir) of
             Inl e \<Rightarrow> (h, Inl e)
           | Inr None \<Rightarrow> (h, throw missing)
           | Inr (Some invoker) \<Rightarrow>
               (case run_invoker L h invoker ip of (h', r) \<Rightarrow> (h', map_sum id (\<lambda>_. ()) r))))"

definition ConvolutionForward ::
  "('c, 'p, 'i, 'd, 'u, 'g, 'f) lib \<Rightarrow> conv_tensors \<Rightarrow> conv_desc \<Rightarrow> bool \<Rightarrow> bool \<Rightarrow> int \<Rightarrow> invoke_params
    \<Rightarrow> ('p, 'i, 'd, 'u, 'g) host \<Rightarrow> ('p, 'i, 'd, 'u, 'g) host \<times> unit result" where
  "ConvolutionForward L t c alpha1 beta0 algo ip h =
     (case ValidateConvTensors t of
        Inl e \<Rightarrow> (h, Inl e)
      | Inr _ \<Rightarrow>
     (case ValidateAlphaBeta alpha1 beta0 of
        Inl e \<Rightarrow> (h, Inl e)
      | Inr _ \<Rightarrow>
     (if algo \<noteq> algo_value Algo_GEMM \<and> t_type (c_x t) = miopenInt8x4 then (h, throw_st miopenStatusBadParm [])
      else
     (case ValidateGroupCount (c_x t) (c_w t) c of
        Inl e \<Rightarrow> (h, Inl e)
      | Inr _ \<Rightarrow>
          run_found L (problem_of_tensors Forward (c_x t) (c_w t) (c_y t) c) algo Forward
            ''No invoker was registered for convolution forward. Was find executed?'' ip h))))"

text \<open>The tensors are dx, w and dy.\<close>

definition ConvolutionBackwardData ::
  "('c, 'p, 'i, 'd, 'u, 'g, 'f) lib \<Rightarrow> conv_tensors \<Rightarrow> conv_desc \<Rightarrow> bool \<Rightarrow> bool \<Rightarrow> int \<Rightarrow> invoke_params
    \<Rightarrow> ('p, 'i, 'd, 'u, 'g) host \<Rightarrow> ('p, 'i, 'd, 'u, 'g) host \<times> unit result" where
  "ConvolutionBackwardData L t c alpha1 beta0 algo ip h =
     (case ValidateConvTensors t of
        Inl e \<Rightarrow> (h, Inl e)
      | Inr _ \<Rightarrow>
     (case ValidateAlphaBeta alpha1 beta0 of
        Inl e \<Rightarrow> (h, Inl e)
      | Inr _ \<Rightarrow>
     (if t_lens (c_y t) ! 1 \<noteq> t_lens (c_w t) ! 0 then (h, throw_st miopenStatusBadParm [])
      else
     (case ValidateGroupCount (c_x t) (c_w t) c of
        Inl e \<Rightarrow> (h, Inl e)
      | Inr _ \<Rightarrow>
          run_found L (problem_of_tensors BackwardData (c_x t) (c_w t) (c_y t) c) algo BackwardData
            ''No invoker was registered for convolution backward. Was find executed?'' ip h))))"

text \<open>The tensors are x, dw and dy.\<close>

definition ConvolutionBackwardWeights ::
  "('c, 'p, 'i, 'd, 'u, 'g, 'f) lib \<Rightarrow> conv_tensors \<Rightarrow> conv_desc \<Rightarrow> bool \<Rightarrow> bool \<Rightarrow> int \<Rightarrow> invoke_params
    \<Rightarrow> ('p, 'i, 'd, 'u, 'g) host \<Rightarrow> ('p, 'i, 'd, 'u, 'g) host \<times> unit result" where
  "ConvolutionBackwardWeights L t c alpha1 beta0 algo ip h =
     (case ValidateConvTensors t of
        Inl e \<Rightarrow> (h, Inl e)
      | Inr _ \<Rightarrow>
     (case ValidateAlphaBeta alpha1 beta0 of
        Inl e \<Rightarrow> (h, Inl e)
      | Inr _ \<Rightarrow>
     (if t_type (c_x t) = miopenInt8 then (h, throw_st miopenStatusBadParm [])
      else
     (case ValidateGroupCount (c_x t) (c_w t) c of
        Inl e \<Rightarrow> (h, Inl e)
      | Inr _ \<Rightarrow>
          run_found L (problem_of_tensors BackwardWeights (c_x t) (c_w t) (c_y t) c) algo BackwardWeights
            ''No invoker was registered for convolution weights. Was find executed?'' ip h))))"

section \<open>What measuring promises\<close>

lemma evaluate_loop_keeps:
  assumes "evaluate_loop L ip sols s h = (h', r)"
  shows "same_host h h' \<and> (\<forall>s' sol i. r = Inr s' \<longrightarrow> sel_choice s' = Some (sol, i) \<longrightarrow>
    sol \<in> set sols \<or> sel_choice s = Some (sol, i))"
  using assms
proof (induction sols arbitrary: s h)
  case (Cons x rest)
  show ?case
  proof (cases "fits ip (snd x)")
    case False
    then have "evaluate_loop L ip rest s h = (h', r)" using Cons.prems by simp
    from Cons.IH [OF this] show ?thesis by auto
  next
    case fits: True
    show ?thesis
    proof (cases "sol_factory (snd x)")
      case None
      with Cons.prems fits show ?thesis by auto
    next
      case (Some f)
      obtain h1 q where q: "Handle_PrepareInvoker L h f (sol_params (snd x)) = (h1, q)" by fastforce
      note k1 = Handle_PrepareInvoker_keeps [OF q]
      show ?thesis
      proof (cases q)
        case (Inl e)
        with Cons.prems fits Some q k1 show ?thesis by auto
      next
        case (Inr invoker)
        obtain h2 w where w: "run_invoker L h1 invoker ip = (h2, w)" by fastforce
        note k2 = same_host_trans [OF k1 run_invoker_keeps [OF w]]
        obtain s1 where s1: "evaluate_loop L ip rest s1 h2 = (h', r)"
          "s1 = s \<or> (\<exists>t. s1 = \<lparr>sel_best = t, sel_choice = Some (x, invoker)\<rparr>)"
          using Cons.prems fits Some q Inr w by (cases w) (auto split: if_splits)
        from Cons.IH [OF s1(1)] same_host_trans [OF k2] s1(2) show ?thesis by auto
      qed
    qed
  qed
qed auto

lemma SetValuesT_dom: "dom (rec_lookup (fst (DbRecord_SetValuesT sh r i v))) = insert i (dom (rec_lookup r))"
  by (simp add: DbRecord_SetValuesT_def)

text \<open>Everything the record names can be called.\<close>

definition all_found :: "('p, 'i, 'd, 'u, 'g) host \<Rightarrow> string \<Rightarrow> db_record \<Rightarrow> bool" where
  "all_found h config r \<longleftrightarrow> (\<forall>name \<in> dom (rec_lookup r). found_ok (h_invokers h) config name
     \<and> (\<exists>algo. name = ConvolutionAlgoToDirectionalString algo (config_direction config)))"

lemma all_found_keeps: "all_found h config r \<Longrightarrow> keeps_found L h h' \<Longrightarrow> all_found h' config r"
  by (simp add: all_found_def keeps_found_def)

lemma EvaluateInvokers_found:
  assumes "EvaluateInvokers L sols (ConvolutionAlgoToDirectionalString algo dir) config ip h r = (h', r', e)"
    and "of_algo L dir algo sols" "config_direction config = dir" "found_registered L (h_invokers h)"
  shows "keeps_found L h h' \<and> (all_found h config r \<longrightarrow> all_found h' config r')"
proof (cases "l_arch L")
  case True
  with assms(1) show ?thesis by (simp add: EvaluateInvokers_def)
next
  case False
  let ?a = "ConvolutionAlgoToDirectionalString algo dir"
  obtain h1 q where q: "evaluate_loop L ip sols \<lparr>sel_best = l_max L, sel_choice = None\<rparr> h = (h1, q)" by fastforce
  note k = evaluate_loop_keeps [OF q]
  then have k1: "keeps_found L h h1" by (simp add: same_host_keeps)
  show ?thesis
  proof (cases "\<exists>s sol i. q = Inr s \<and> sel_choice s = Some (sol, i) \<and> sol_ok (snd sol)")
    case none: False
    then have "h' = h1 \<and> r' = r"
      using assms(1) False q by (auto simp: EvaluateInvokers_def split: sum.splits option.splits if_splits)
    with k1 all_found_keeps show ?thesis by metis
  next
    case True
    then obtain s sol i where s: "q = Inr s" "sel_choice s = Some (sol, i)" "sol_ok (snd sol)" by blast
    obtain h2 w where w: "Handle_RegisterInvoker h1 i config (fst sol) ?a = (h2, w)" by fastforce
    have reg: "found_registered L (h_invokers h1)" using k1 assms(4) by (simp add: keeps_found_def)
    have a: "Id_GetAlgo_dir (l_reg L) (Id_of_str (l_reg L) (fst sol)) (config_direction config) = Inr ?a"
      using k s assms(2,3) by (cases sol) (auto simp: of_algo_def)
    note f = Handle_RegisterInvoker_found [OF w reg a]
    have k2: "keeps_found L h h2" by (rule keeps_found_trans [OF k1 Handle_RegisterInvoker_keeps [OF w reg a]])
    have r: "h' = h2 \<and> (r' = r \<or> (\<exists>d. r' = fst (DbRecord_SetValuesT (FindDbData_Serialize (io_show (l_io L))) r ?a d)))"
    proof (cases "MakeUnused ?a")
      case (Inl ex)
      with assms(1) False q s w f(4) show ?thesis by (simp add: EvaluateInvokers_def)
    next
      case (Inr key)
      with assms(1) False q s w f(4) show ?thesis
        by (cases "FindDbData (fst sol) (sel_best s) (sol_workspace (snd sol)) key") (auto simp: EvaluateInvokers_def)
    qed
    then have "dom (rec_lookup r') \<subseteq> insert ?a (dom (rec_lookup r))"
      by (elim conjE disjE exE) (simp_all only: SetValuesT_dom subset_insertI subset_refl)
    then have names: "name = ?a \<or> name \<in> dom (rec_lookup r)" if "name \<in> dom (rec_lookup r')" for name
      using that by (rule subsetD [THEN insertE]) simp_all
    have "found_ok (h_invokers h2) config name \<and> (\<exists>algo. name = ConvolutionAlgoToDirectionalString algo (config_direction config))"
      if "all_found h config r" "name \<in> dom (rec_lookup r')" for name
      using names [OF that(2)] f(2) all_found_keeps [OF that(1) k2] assms(3) by (auto simp: all_found_def)
    with r k2 show ?thesis by (simp add: all_found_def)
  qed
qed

lemma evaluate_all_found:
  assumes "evaluate_all L config ip sols h r = (h', r', e)"
    and "\<forall>(name, xs) \<in> set sols. \<exists>algo. name = ConvolutionAlgoToDirectionalString algo dir \<and> of_algo L dir algo xs"
    and "config_direction config = dir" "found_registered L (h_invokers h)"
  shows "keeps_found L h h' \<and> (all_found h config r \<longrightarrow> all_found h' config r')"
  using assms(1,2,4)
proof (induction sols arbitrary: h r)
  case (Cons x rest)
  obtain name xs where x: "x = (name, xs)" by (cases x)
  obtain h1 r1 e1 where e: "EvaluateInvokers L xs name config ip h r = (h1, r1, e1)" by (metis prod_cases3)
  from Cons.prems(2) obtain algo where a: "name = ConvolutionAlgoToDirectionalString algo dir" "of_algo L dir algo xs"
    by (auto simp: x)
  note one = EvaluateInvokers_found [OF e [unfolded a(1)] a(2) assms(3) Cons.prems(3)]
  show ?case
  proof (cases e1)
    case (Some ex)
    with Cons.prems(1) e one show ?thesis by (simp add: x)
  next
    case None
    then have "evaluate_all L config ip rest h1 r1 = (h', r', e)" using Cons.prems(1) e by (simp add: x)
    moreover have "found_registered L (h_invokers h1)" using one Cons.prems(3) by (simp add: keeps_found_def)
    ultimately show ?thesis using Cons.IH [of h1 r1] Cons.prems(2) one keeps_found_trans by (auto simp: x)
  qed
qed simp

lemma compile_and_evaluate_found:
  assumes "compile_and_evaluate L config ip sols h r = Some (h', r', e)"
    and "\<forall>(name, xs) \<in> set sols. \<exists>algo. name = ConvolutionAlgoToDirectionalString algo dir \<and> of_algo L dir algo xs"
    and "config_direction config = dir" "found_registered L (h_invokers h)"
  shows "keeps_found L h h' \<and> (all_found h config r \<longrightarrow> all_found h' config r')"
proof -
  obtain kc q where q: "PrecompileSolutions L (map snd (concat (map snd sols))) (h_kernels h) = Some (kc, q)"
    using assms(1) by (auto simp: compile_and_evaluate_def split: option.splits)
  show ?thesis
  proof (cases q)
    case (Inl ex)
    with assms(1) q show ?thesis by (auto simp: compile_and_evaluate_def all_found_def)
  next
    case (Inr u)
    then have "evaluate_all L config ip sols (h\<lparr>h_kernels := kc\<rparr>) r = (h', r', e)"
      using assms(1) q by (simp add: compile_and_evaluate_def)
    from evaluate_all_found [OF this assms(2,3)] assms(4) show ?thesis
      by (simp add: keeps_found_def all_found_def)
  qed
qed

text \<open>The three regenerators, from an empty record.\<close>

definition core_ok ::
  "('c, 'p, 'i, 'd, 'u, 'g, 'f) lib \<Rightarrow> string
    \<Rightarrow> (('p, 'i, 'd, 'u, 'g) host \<Rightarrow> db_record \<Rightarrow> (('p, 'i, 'd, 'u, 'g) host \<times> db_record \<times> exn option) option) \<Rightarrow> bool" where
  "core_ok L config core \<longleftrightarrow> (\<forall>h r h' r' e. core h r = Some (h', r', e) \<longrightarrow> found_registered L (h_invokers h) \<longrightarrow>
     keeps_found L h h' \<and> (all_found h config r \<longrightarrow> all_found h' config r'))"

lemma data_find_core_ok:
  assumes "lib_ok L" "direction p = dir"
  shows "core_ok L (BuildConfKey p) (data_find_core L p dir ip exhaustiveSearch only)"
  unfolding core_ok_def
proof (intro allI impI)
  fix h r h' r' e
  assume run: "data_find_core L p dir ip exhaustiveSearch only h r = Some (h', r', e)"
    and reg: "found_registered L (h_invokers h)"
  obtain d fs where f: "FindDataSolutions (l_switches L) (l_solvers L p) (l_perf_db L p) (find_context_of L)
      (FindMode_IsDynamicHybrid (l_mode L) (l_enforce L) False) exhaustiveSearch only (h_perf_db h) = (d, fs)"
    by (meson surj_pair)
  note a = FindDataSolutions_algo [OF assms(1) f, of dir]
  have cd: "config_direction (BuildConfKey p) = dir" using assms(2) by simp
  have "keeps_found L (h\<lparr>h_perf_db := d\<rparr>) h' \<and> (all_found (h\<lparr>h_perf_db := d\<rparr>) (BuildConfKey p) r
      \<longrightarrow> all_found h' (BuildConfKey p) r')"
    by (rule compile_and_evaluate_found [OF _ _ cd]) (use run reg f a in \<open>auto simp: data_find_core_def\<close>)
  then show "keeps_found L h h' \<and> (all_found h (BuildConfKey p) r \<longrightarrow> all_found h' (BuildConfKey p) r')"
    by (simp add: keeps_found_def all_found_def)
qed

lemma DirConvFindCore_ok:
  assumes "lib_ok L" "direction p = Forward"
  shows "core_ok L (BuildConfKey p) (DirConvFindCore L x w c p ip exhaustiveSearch only)"
  using data_find_core_ok [OF assms, of ip exhaustiveSearch only]
  by (auto simp: core_ok_def DirConvFindCore_def split: sum.splits)

lemma wrw_find_core_ok:
  assumes "lib_ok L" "direction p = BackwardWeights"
  shows "core_ok L (BuildConfKey p) (wrw_find_core L p ip exhaustiveSearch)"
  unfolding core_ok_def
proof (intro allI impI)
  fix h r h' r' e
  assume run: "wrw_find_core L p ip exhaustiveSearch h r = Some (h', r', e)" and reg: "found_registered L (h_invokers h)"
  obtain d q where f: "FindWrwSolutions (l_switches L) (l_solvers L p) (l_perf_db L p)
      ((find_context_of L)\<lparr>do_search := exhaustiveSearch\<rparr>) (h_perf_db h) = (d, q)"
    by (meson surj_pair)
  have cd: "config_direction (BuildConfKey p) = BackwardWeights" using assms(2) by simp
  show "keeps_found L h h' \<and> (all_found h (BuildConfKey p) r \<longrightarrow> all_found h' (BuildConfKey p) r')"
  proof (cases q)
    case (Inl ex)
    with run f show ?thesis by (auto simp: wrw_find_core_def all_found_def)
  next
    case (Inr fs)
    note a = FindWrwSolutions_algo [OF assms(1) f [unfolded Inr], of BackwardWeights]
    have n: "''miopenConvolutionBwdWeightsAlgoGEMM'' = ConvolutionAlgoToDirectionalString Algo_GEMM BackwardWeights"
      "''miopenConvolutionBwdWeightsAlgoDirect'' = ConvolutionAlgoToDirectionalString Algo_Direct BackwardWeights"
      "''miopenConvolutionBwdWeightsAlgoWinograd'' = ConvolutionAlgoToDirectionalString Algo_Winograd BackwardWeights"
      "''miopenConvolutionBwdWeightsAlgoImplicitGEMM'' = ConvolutionAlgoToDirectionalString Algo_ImplicitGEMM BackwardWeights"
      by (simp_all add: ConvolutionAlgoToDirectionalString_def)
    have "keeps_found L (h\<lparr>h_perf_db := d\<rparr>) h' \<and> (all_found (h\<lparr>h_perf_db := d\<rparr>) (BuildConfKey p) r
        \<longrightarrow> all_found h' (BuildConfKey p) r')"
      by (rule compile_and_evaluate_found [OF _ _ cd, where ip = ip and e = e])
        (use run reg f a Inr in \<open>auto simp: wrw_find_core_def n\<close>)
    then show ?thesis by (simp add: keeps_found_def all_found_def)
  qed
qed

section \<open>What is found can be called\<close>

lemma find_record_keeps:
  "find_record L p h = (h', r) \<Longrightarrow> h' = h \<or> (\<exists>u c. l_find_both L (h_find_db h) (Problem_Serialize p) = Inr (u, c) \<and> h' = h\<lparr>h_find_db := u\<rparr>)"
  by (auto simp: find_record_def split: if_splits sum.splits)

lemma GetSolutions_keeps:
  assumes "GetSolutions L p n resolver h = Some (h', r)"
  shows "h' = fst (find_record L p h)"
  using assms by (auto simp: GetSolutions_def split: prod.splits sum.splits option.splits)

lemma GetConvSolutions_keeps:
  assumes "GetConvSolutions L (Inr p) resolver n cn sn h = Some (h', r)"
  shows "h' = h \<or> h' = fst (find_record L p h)"
  using assms
  by (auto simp: GetConvSolutions_def split: if_splits option.splits prod.splits sum.splits list.splits dest: GetSolutions_keeps)

lemma immediate_choice_keeps:
  assumes "immediate_choice L p resolver h = Some (h', r)"
  shows "h' = h \<or> (\<exists>u c. l_find_both L (h_find_db h) (Problem_Serialize p) = Inr (u, c) \<and> h' = h\<lparr>h_find_db := u\<rparr>)"
proof -
  have "h' = h \<or> h' = fst (find_record L p h)"
    using assms by (auto simp: immediate_choice_def Let_def split: if_splits option.splits prod.splits sum.splits list.splits
        dest: GetConvSolutions_keeps)
  then show ?thesis using find_record_keeps [of L p h "fst (find_record L p h)"] by (metis prod.collapse)
qed

text \<open>A solver whose algorithm is known is written as it was read.\<close>

lemma reg_name:
  assumes "lib_ok L" "Id_GetAlgo_dir (l_reg L) (Id_of_str (l_reg L) s) dir = Inr a"
  shows "Id_ToString (l_reg L) (Id_of_str (l_reg L) s) = s"
proof -
  have d: "distinct (registered_names (l_names L) registrations)" using assms(1) by (simp add: lib_ok_def)
  note maps = IdRegistry_maps [OF d, of "\<lambda>t. t", folded l_reg_def]
  show ?thesis
  proof (cases "str_to_value (l_reg L) s")
    case None
    then have "value_to_entry (l_reg L) (id_value (Id_of_str (l_reg L) s)) = None"
      by (simp add: Id_of_str_def invalid_value_def maps entries_of_nth)
    with assms(2) show ?thesis by (simp add: Id_GetAlgo_dir_def Id_GetAlgo_def)
  next
    case (Some n)
    then obtain e where "entries_of (l_names L) (\<lambda>t. t) 0 registrations n = Some e" "str_value e = s"
      using numbers_of_entries [OF d, of "\<lambda>t. t" 0 s n] by (auto simp: maps)
    with Some show ?thesis by (simp add: Id_of_str_def Id_ToString_def maps)
  qed
qed

text \<open>The entries of a problem's record name the algorithms of their solvers.\<close>

definition entries_consistent :: "('c, 'p, 'i, 'd, 'u, 'g, 'f) lib \<Rightarrow> direction \<Rightarrow> db_record \<Rightarrow> bool" where
  "entries_consistent L dir r \<longleftrightarrow> (\<forall>x \<in> set (find_entries (l_io L) r).
     Id_GetAlgo_dir (l_reg L) (Id_of_str (l_reg L) (fd_solver_id (snd x))) dir = Inr (fst x))"

lemma find_entries_names:
  assumes "hash_order (io_ord io)"
  shows "fst ` set (find_entries io r) = dom (rec_lookup r)"
  unfolding find_entries_def DbRecord_As_def
  by (simp add: image_image case_prod_unfold dom_map_of_conv_image_fst hash_order_set [OF assms])

lemma valid_entries_found:
  assumes "entries_valid io (l_reg L) h (BuildConfKey p) r" "entries_consistent L (direction p) r" "io = l_io L"
    and "found_registered L (h_invokers h)" "f \<in> set (FindDb_CopyTo io r [])" "CheckInvokerSupport (pf_name f)"
    and "lib_ok L"
  shows "found_ok (h_invokers h) (BuildConfKey p) (pf_name f)"
proof -
  obtain x where x: "x \<in> set (find_entries io r)" "f = perf_field_of x" using assms(5) by (auto simp: FindDb_CopyTo_def)
  then have s: "CheckInvokerSupport (fst x)" using assms(6) by (simp add: perf_field_of_def)
  let ?i = "Id_of_str (l_reg L) (fd_solver_id (snd x))"
  have built: "Handle_GetInvoker_solver (l_reg L) h (BuildConfKey p) ?i \<noteq> None"
    using assms(1) x(1) s by (auto simp: entries_valid_def entry_built_def)
  have algo: "Id_GetAlgo_dir (l_reg L) ?i (direction p) = Inr (fst x)"
    using assms(2,3) x(1) by (simp add: entries_consistent_def)
  have "Id_ToString (l_reg L) ?i = fd_solver_id (snd x)" by (rule reg_name [OF assms(7) algo])
  with built assms(4) algo have "found_ok (h_invokers h) (BuildConfKey p) (fst x)"
    by (auto simp: found_registered_def Handle_GetInvoker_solver_def) (metis config_direction_key sum.inject(2))
  with x(2) show ?thesis by (simp add: perf_field_of_def)
qed

lemma perf_names:
  assumes "f \<in> set (FindDb_CopyTo io r [])" "hash_order (io_ord io)"
  shows "pf_name f \<in> dom (rec_lookup r)"
proof -
  obtain x where "x \<in> set (find_entries io r)" "pf_name f = fst x" using assms(1) by (auto simp: FindDb_CopyTo_def perf_field_of_def)
  then show ?thesis using find_entries_names [OF assms(2), of r] by (metis image_eqI)
qed

lemma regenerated_found:
  assumes "core_ok L config core" "found_registered L (h_invokers h)" "hash_order (io_ord io)"
    and "core h (DbRecord_of_key key) = Some (h2, r, e)" "f \<in> set (FindDb_CopyTo io r [])"
  shows "found_ok (h_invokers h2) config (pf_name f)
    \<and> (\<exists>algo. pf_name f = ConvolutionAlgoToDirectionalString algo (config_direction config))"
proof -
  have "all_found h config (DbRecord_of_key key)" by (simp add: all_found_def DbRecord_of_key_def)
  with assms(1) [unfolded core_ok_def, rule_format, OF assms(4,2)] have "all_found h2 config r" by simp
  with perf_names [OF assms(5,3)] show ?thesis by (simp add: all_found_def)
qed

lemma TryLoad_disabled:
  assumes "TryLoad io reg ops False key config core h = Some (h', Inr fs)"
  obtains r where "core h (DbRecord_of_key key) = Some (h', r, None)" "fs = FindDb_CopyTo io r []"
  using assms by (auto simp: TryLoad_def FindDbRecord_new_def FindDbRecord_delete_def split: option.splits prod.splits)

lemma GetAlgo_dir_name: "Id_GetAlgo_dir reg i dir = Inr a \<Longrightarrow> \<exists>algo. a = ConvolutionAlgoToDirectionalString algo dir"
  by (auto simp: Id_GetAlgo_dir_def split: sum.splits)

definition callable :: "'i invoker_cache \<Rightarrow> problem \<Rightarrow> string \<Rightarrow> bool" where
  "callable ic p name \<longleftrightarrow> (\<exists>algo. name = ConvolutionAlgoToDirectionalString algo (direction p))
     \<and> (CheckInvokerSupport name \<longrightarrow> found_ok ic (BuildConfKey p) name)"

lemma immediate_fields_found:
  assumes "find_perf_db L p (direction p) resolver core h = Some (h', Inr fs)"
    and "immediate_choice L p resolver h = Some (h1, Inr (Some sol))"
    and "lib_ok L" "found_registered L (h_invokers h1)" "f \<in> set fs"
  shows "callable (h_invokers h') p (pf_name f)"
proof -
  let ?i = "Id_of_value (l_reg L) (solution_id sol)"
  obtain h2 a where c: "CompileConvSolution L (Inr p) (direction p) ?i h1 = Some (h2, Inr ())"
      "Id_GetAlgo_dir (l_reg L) ?i (direction p) = Inr a" "h' = h2" "pf_name f = a"
    using assms(1,2,5) by (auto simp: find_perf_db_def Let_def split: option.splits sum.splits)
  from CompileConvSolution_found [OF c(1) assms(3,4) c(2)] c(3,4) GetAlgo_dir_name [OF c(2)] show ?thesis
    by (simp add: callable_def)
qed

context find_store
begin

lemma find_perf_db_found:
  assumes L: "lib_ok L" "core_ok L (BuildConfKey p) core" "l_find_ops L = ops" "hash_order (io_ord (l_io L))"
    and both: "\<And>u k u' c. inv u \<Longrightarrow> l_find_both L u k = Inr (u', c) \<Longrightarrow> inv u' \<and> view u' = view u"
    and host: "inv (h_find_db h)" "kc_inv (h_kernels h)" "found_registered L (h_invokers h)"
    and consistent: "\<And>r. view (h_find_db h) (Problem_Serialize p) = Some (rec_lookup r) \<Longrightarrow> rec_wf r \<Longrightarrow>
      entries_consistent L (direction p) r"
    and run: "find_perf_db L p (direction p) resolver core h = Some (h', Inr fs)"
    and f: "f \<in> set fs"
  shows "callable (h_invokers h') p (pf_name f)"
proof -
  obtain h1 choice where c: "immediate_choice L p resolver h = Some (h1, Inr choice)"
    using run by (auto simp: find_perf_db_def split: option.splits sum.splits)
  have h1: "h_invokers h1 = h_invokers h" "h_kernels h1 = h_kernels h" "inv (h_find_db h1)"
      "view (h_find_db h1) = view (h_find_db h)"
    using immediate_choice_keeps [OF c] host(1) both by auto
  show ?thesis
  proof (cases choice)
    case (Some sol)
    show ?thesis
      by (rule immediate_fields_found [OF run c [unfolded Some] L(1) _ f]) (use host(3) h1(1) in simp)
  next
    case None
    have load: "TryLoad (l_io L) (l_reg L) ops (l_find_enabled L) (Problem_Serialize p) (BuildConfKey p) core h1 = Some (h', Inr fs)"
      using run c None L(3) by (simp add: find_perf_db_def)
    have reg: "found_registered L (h_invokers h1)" using host(3) h1(1) by simp
    show ?thesis
    proof (cases "l_find_enabled L")
      case False
      with load obtain r where "core h1 (DbRecord_of_key (Problem_Serialize p)) = Some (h', r, None)"
          "fs = FindDb_CopyTo (l_io L) r []"
        by (metis TryLoad_disabled)
      with regenerated_found [OF L(2) reg L(4)] f show ?thesis by (simp add: callable_def)
    next
      case True
      have kc: "kc_inv (h_kernels h1)" using host(2) h1(2) by simp
      show ?thesis
      proof (rule TryLoad_cases [where key = "Problem_Serialize p" and io = "l_io L" and reg = "l_reg L"
          and config = "BuildConfKey p" and regenerator = core, OF h1(3) kc])
        fix u r
        assume a: "view u = view (h_find_db h1)" "view u (Problem_Serialize p) = Some (rec_lookup r)" "rec_wf r"
          "entries_valid (l_io L) (l_reg L) h1 (BuildConfKey p) r"
          "TryLoad (l_io L) (l_reg L) ops True (Problem_Serialize p) (BuildConfKey p) core h1
            = Some (h1\<lparr>h_find_db := u\<rparr>, Inr (FindDb_CopyTo (l_io L) r []))"
        have "entries_consistent L (direction p) r" using consistent [of r] a(1-3) h1(4) by simp
        note cons = this
        have h': "h' = h1\<lparr>h_find_db := u\<rparr>" and fs: "fs = FindDb_CopyTo (l_io L) r []" using a(5) load True by simp_all
        obtain x where "x \<in> set (find_entries (l_io L) r)" "pf_name f = fst x"
          using f by (auto simp: fs FindDb_CopyTo_def perf_field_of_def)
        with cons have "\<exists>algo. pf_name f = ConvolutionAlgoToDirectionalString algo (direction p)"
          using GetAlgo_dir_name by (fastforce simp: entries_consistent_def)
        moreover have "found_ok (h_invokers h1) (BuildConfKey p) (pf_name f)" if "CheckInvokerSupport (pf_name f)"
          by (rule valid_entries_found [OF a(4) cons refl reg _ that L(1)]) (use f fs in simp)
        ultimately show ?thesis by (simp add: callable_def h')
      next
        fix u
        assume "TryLoad (l_io L) (l_reg L) ops True (Problem_Serialize p) (BuildConfKey p) core h1 =
          (case core (h1\<lparr>h_find_db := u\<rparr>) (DbRecord_of_key (Problem_Serialize p)) of None \<Rightarrow> None
           | Some (h2, r, err) \<Rightarrow>
             (case FindDbRecord_delete ops True (h_find_db h2) (Some r) False of
                None \<Rightarrow> None
              | Some u' \<Rightarrow> Some (h2\<lparr>h_find_db := u'\<rparr>,
                  (case err of Some e \<Rightarrow> Inl e | None \<Rightarrow> Inr (FindDb_CopyTo (l_io L) r [])))))"
        with load True obtain h2 r u' where
          r: "core (h1\<lparr>h_find_db := u\<rparr>) (DbRecord_of_key (Problem_Serialize p)) = Some (h2, r, None)"
            "h' = h2\<lparr>h_find_db := u'\<rparr>" "fs = FindDb_CopyTo (l_io L) r []"
          by (auto split: option.splits)
        have "found_registered L (h_invokers (h1\<lparr>h_find_db := u\<rparr>))" using reg by simp
        from regenerated_found [OF L(2) this L(4) r(1)] f r(2,3) show ?thesis by (simp add: callable_def)
      qed
    qed
  qed
qed

end

text \<open>The calls of a direction, and the checks of the arguments that a convolution call repeats. The find of a
  forward or backward weights problem that is answered by the database has not made all of them.\<close>

definition find_call where
  "find_call dir = (case dir of Forward \<Rightarrow> FindConvFwdAlgorithm | BackwardData \<Rightarrow> FindConvBwdDataAlgorithm
     | BackwardWeights \<Rightarrow> FindConvBwdWeightsAlgorithm)"

definition conv_call where
  "conv_call dir = (case dir of Forward \<Rightarrow> ConvolutionForward | BackwardData \<Rightarrow> ConvolutionBackwardData
     | BackwardWeights \<Rightarrow> ConvolutionBackwardWeights)"

definition arguments_ok :: "direction \<Rightarrow> conv_tensors \<Rightarrow> conv_desc \<Rightarrow> int \<Rightarrow> bool" where
  "arguments_ok dir t c algo \<longleftrightarrow> ValidateConvTensors t = Inr () \<and> ValidateGroupCount (c_x t) (c_w t) c = Inr ()
     \<and> (case dir of Forward \<Rightarrow> algo = algo_value Algo_GEMM \<or> t_type (c_x t) \<noteq> miopenInt8x4
        | BackwardData \<Rightarrow> t_lens (c_y t) ! 1 = t_lens (c_w t) ! 0
        | BackwardWeights \<Rightarrow> t_type (c_x t) \<noteq> miopenInt8)"

lemma find_call_spec:
  assumes "find_call dir L t c n False False ip exhaustiveSearch h = Some (h', Inr results)"
    and "problem_of_tensors dir (c_x t) (c_w t) (c_y t) c = Inr p" "lib_ok L" "direction p = dir"
  obtains core fs msg failed where "core_ok L (BuildConfKey p) core"
    "find_perf_db L p dir (StringToAlgo dir) core h = Some (h', Inr fs)"
    "report L (StringToAlgo dir) msg failed n fs = Inr results"
proof (cases dir)
  case Forward
  let ?core = "DirConvFindCore L (c_x t) (c_w t) c p ip exhaustiveSearch (IsWinograd3x3SupportedAndFast L p (find_context_of L))"
  obtain fs where "find_perf_db L p dir (StringToAlgo dir) ?core h = Some (h', Inr fs)"
      "\<exists>msg failed. report L (StringToAlgo dir) msg failed n fs = Inr results"
    using Forward assms by (auto simp: find_call_def FindConvFwdAlgorithm_def StringToAlgo_def
        split: sum.splits option.splits prod.splits)
  with that DirConvFindCore_ok [OF assms(3)] assms(4) Forward show thesis by blast
next
  case BackwardData
  let ?core = "data_find_core L p BackwardData ip exhaustiveSearch (IsWinograd3x3SupportedAndFast L p (fresh_context L))"
  obtain fs where "find_perf_db L p dir (StringToAlgo dir) ?core h = Some (h', Inr fs)"
      "\<exists>msg failed. report L (StringToAlgo dir) msg failed n fs = Inr results"
    using BackwardData assms by (auto simp: find_call_def FindConvBwdDataAlgorithm_def StringToAlgo_def
        split: sum.splits option.splits prod.splits)
  with that data_find_core_ok [OF assms(3)] assms(4) BackwardData show thesis by blast
next
  case BackwardWeights
  obtain fs where "find_perf_db L p dir (StringToAlgo dir) (wrw_find_core L p ip exhaustiveSearch) h = Some (h', Inr fs)"
      "\<exists>msg failed. report L (StringToAlgo dir) msg failed n fs = Inr results"
    using BackwardWeights assms by (auto simp: find_call_def FindConvBwdWeightsAlgorithm_def StringToAlgo_def
        split: sum.splits option.splits prod.splits if_splits)
  with that wrw_find_core_ok [OF assms(3)] assms(4) BackwardWeights show thesis by blast
qed

lemma perf_results_origin:
  "perf_results resolver fs = Inr rs \<Longrightarrow> a \<in> set rs \<Longrightarrow>
   \<exists>f \<in> set fs. resolver (pf_name f) = Inr (ap_algo a) \<and> ap_time a = pf_time f \<and> ap_memory a = pf_workspace f"
  by (induction fs arbitrary: rs) (auto split: sum.splits)

lemma report_origin:
  assumes "report L resolver msg failed n fs = Inr rs" "a \<in> set rs"
  shows "\<exists>f \<in> set fs. resolver (pf_name f) = Inr (ap_algo a) \<and> ap_time a = pf_time f \<and> ap_memory a = pf_workspace f"
  using assms perf_results_origin in_set_takeD
  by (fastforce simp: report_def split: if_splits)

lemma directional_name_resolved:
  assumes "StringToAlgo dir (ConvolutionAlgoToDirectionalString algo dir) = Inr v"
  shows "directional_name v dir = ConvolutionAlgoToDirectionalString algo dir"
    "CheckInvokerSupport (ConvolutionAlgoToDirectionalString algo dir)"
  using assms
  by (cases dir; cases algo; simp add: StringToAlgo_def ConvolutionAlgoToDirectionalString_def algo_value_def
      StringToConvolutionFwdAlgo_def StringToConvolutionBwdDataAlgo_def directional_name_def algo_of_value_def
      StringToConvolutionBwdWeightsAlgo_def at_map_def CheckInvokerSupport_def)+

lemma conv_call_found:
  assumes "arguments_ok dir t c algo" "problem_of_tensors dir (c_x t) (c_w t) (c_y t) c = Inr p"
    and "InvokerCache_GetFound1_0 (h_invokers h) (BuildConfKey p) (directional_name algo dir) = Inr (Some i)"
  shows "conv_call dir L t c True True algo ip h = (fst (run_invoker L h i ip), map_sum id (\<lambda>_. ()) (snd (run_invoker L h i ip)))"
  using assms
  by (cases dir) (auto simp: conv_call_def arguments_ok_def ConvolutionForward_def ConvolutionBackwardData_def
      ConvolutionBackwardWeights_def ValidateAlphaBeta_def run_found_def Handle_GetInvoker_algo_def split: prod.splits)

lemma HeuristicUpdateLayouts_direction: "HeuristicUpdateLayouts q = Inr p \<Longrightarrow> direction p = direction q"
  by (auto simp: HeuristicUpdateLayouts_def split: sum.splits option.splits)

lemma problem_of_tensors_direction: "problem_of_tensors dir x w y c = Inr p \<Longrightarrow> direction p = dir"
  by (auto simp: problem_of_tensors_def ProblemDescription_def split: if_splits sum.splits
      dest!: HeuristicUpdateLayouts_direction)

text \<open>C3: Find, then convolve. After a find call of any direction that returns without an exception, whatever it was
  answered from (measurements, the user's find database, the immediate mode), the convolution call with each
  returned algorithm and valid arguments (\<open>arguments_ok\<close>, alpha 1, beta 0) runs an invoker that is
  registered for the problem, and so never fails for lack of one. What it takes: the user's find database is the
  cached file, its record for the problem (if any) names the algorithms of its solvers, and the handle's caches
  are as calls leave them.\<close>

theorem find_then_convolve:
  assumes "lib_ok L" "l_find_ops L = ram_find_ops e" "hash_order (io_ord (l_io L))"
    and "\<And>u k u' r. ram_find_inv e path u \<Longrightarrow> l_find_both L u k = Inr (u', r) \<Longrightarrow>
      ram_find_inv e path u' \<and> db_view path (w_fs (fst u')) = db_view path (w_fs (fst u))"
    and "ram_find_inv e path (h_find_db h)" "kc_inv (h_kernels h)" "found_registered L (h_invokers h)"
    and "problem_of_tensors dir (c_x t) (c_w t) (c_y t) c = Inr p"
    and "\<And>r. db_view path (w_fs (fst (h_find_db h))) (Problem_Serialize p) = Some (rec_lookup r) \<Longrightarrow> rec_wf r \<Longrightarrow>
      entries_consistent L dir r"
    and "find_call dir L t c n False False ip exhaustiveSearch h = Some (h', Inr results)"
    and "a \<in> set results" "arguments_ok dir t c (ap_algo a)"
  shows "\<exists>i. Handle_GetInvoker_algo h' (BuildConfKey p) (directional_name (ap_algo a) dir) = Inr (Some i)
    \<and> conv_call dir L t c True True (ap_algo a) ip' h'
      = (fst (run_invoker L h' i ip'), map_sum id (\<lambda>_. ()) (snd (run_invoker L h' i ip')))"
proof -
  have dir: "direction p = dir" by (rule problem_of_tensors_direction [OF assms(8)])
  obtain core fs msg failed where core: "core_ok L (BuildConfKey p) core"
    and run: "find_perf_db L p (direction p) (StringToAlgo dir) core h = Some (h', Inr fs)"
    and rep: "report L (StringToAlgo dir) msg failed n fs = Inr results"
    by (rule find_call_spec [OF assms(10,8,1) dir]) (simp add: dir)
  obtain f where f: "f \<in> set fs" "StringToAlgo dir (pf_name f) = Inr (ap_algo a)"
    using report_origin [OF rep assms(11)] by blast
  have "callable (h_invokers h') p (pf_name f)"
    by (rule ram_find.find_perf_db_found [OF assms(1) core assms(2,3) assms(4) assms(5-7) _ run f(1)])
      (use assms(9) dir in blast)+
  then obtain algo where algo: "pf_name f = ConvolutionAlgoToDirectionalString algo dir"
    and found: "CheckInvokerSupport (pf_name f) \<longrightarrow> found_ok (h_invokers h') (BuildConfKey p) (pf_name f)"
    using dir by (auto simp: callable_def)
  note name = directional_name_resolved [OF f(2) [unfolded algo]]
  obtain i where "InvokerCache_GetFound1_0 (h_invokers h') (BuildConfKey p) (directional_name (ap_algo a) dir) = Inr (Some i)"
    using found name by (auto simp: found_ok_def algo)
  with conv_call_found [OF assms(12,8) this, of L ip'] show ?thesis
    by (auto simp: Handle_GetInvoker_algo_def)
qed


section \<open>The concrete library\<close>

lemma example_ids: "SolverDbId_of in_namespace ''GemmFwdRest'' = ''GemmFwdRest''"
  by (simp add: SolverDbId_of_def ComputeSolverDbId_def in_namespace_def Let_def)

lemma example_lib_ok: "lib_ok example_lib"
  using names_distinct by (simp add: lib_ok_def example_lib_def)

lemma example_problem_ok:
  obtains p where "problem_of_tensors Forward (c_x example_tensors) (c_w example_tensors) (c_y example_tensors) example_conv = Inr p"
    "Problem_Serialize p \<noteq> ''m''" "ValidateGroupCount (p_in p) (p_weights p) (p_conv p) = Inr ()" "direction p = Forward"
proof -
  have "case problem_of_tensors Forward (c_x example_tensors) (c_w example_tensors) (c_y example_tensors) example_conv of
     Inl _ \<Rightarrow> False | Inr p \<Rightarrow> Problem_Serialize p \<noteq> ''m''
       \<and> ValidateGroupCount (p_in p) (p_weights p) (p_conv p) = Inr () \<and> direction p = Forward" by code_simp
  with that show thesis by (auto split: sum.splits)
qed

lemma example_searches:
  "search_all (l_solvers example_lib p) example_db size_max GetGemmSolvers (find_context_of example_lib) () = ((), Inr [(''GemmFwdRest'', example_solution)])"
  "''GemmFwdRest'' \<notin> set types \<Longrightarrow> search_all (l_solvers example_lib p) example_db limit types ctx () = ((), Inr [])"
proof -
  show "search_all (l_solvers example_lib p) example_db size_max GetGemmSolvers (find_context_of example_lib) () = ((), Inr [(''GemmFwdRest'', example_solution)])"
    by (simp add: search_all_def GetGemmSolvers_def example_solvers_def skipped_def example_lib_def find_context_of_def
       fresh_context_def FindSolution_def size_max_def FindMode_IsDynamicHybrid_def)
      (simp add: example_solution_def example_ids)
  show "''GemmFwdRest'' \<notin> set types \<Longrightarrow> search_all (l_solvers example_lib p) example_db limit types ctx () = ((), Inr [])"
    by (rule unusable_search) (auto simp: example_solvers_def example_lib_def)
qed

lemma example_solutions:
  "FindDataSolutions (l_switches example_lib) (l_solvers example_lib p) (l_perf_db example_lib p) (find_context_of example_lib)
     False False False () = ((), \<lparr>s_gemm = [(''GemmFwdRest'', example_solution)], s_winograd = [], s_direct = [], s_igemm = [], s_fft = []\<rparr>)"
proof -
  have sw: "l_switches example_lib = example_switches" "l_perf_db example_lib p = example_db" by (simp_all add: example_lib_def)
  have no: "''GemmFwdRest'' \<notin> set GetDirectSolvers" "''GemmFwdRest'' \<notin> set GetImplicitGemmSolvers"
    "''GemmFwdRest'' \<notin> set GetWindogradSolvers" "''GemmFwdRest'' \<notin> set GetFFTSolvers"
    by (simp_all add: GetDirectSolvers_def GetImplicitGemmSolvers_def GetWindogradSolvers_def GetFFTSolvers_def)
  show ?thesis
    by (simp add: sw FindDataSolutions_def FindWinogradSolutions_def FindDataGemmSolutions_def FindDataDirectSolutions_def
        FindDataImplicitGemmSolutions_def FindFftSolutions_def example_switches_def FindAllGemmSolutions_def
        FindAllWinogradSolutions_def FindAllDirectSolutions_def FindAllImplicitGemmSolutions_def FindAllFFTSolutions_def
        or_nothing_def example_searches no)
qed

text \<open>What the find call of the example leaves in the invoker cache.\<close>

definition example_found :: "problem \<Rightarrow> (unit, unit, unit, world \<times> ram_db, unit) host" where
  "example_found p = example_host\<lparr>h_invokers := [(BuildConfKey p, \<lparr>found_1_0 = [(''miopenConvolutionFwdAlgoGEMM'', ''GemmFwdRest'')],
     item_invokers = [(''GemmFwdRest'', ())]\<rparr>)]\<rparr>"

lemma example_find:
  assumes "problem_of_tensors Forward (c_x example_tensors) (c_w example_tensors) (c_y example_tensors) example_conv = Inr p"
  shows "find_call Forward example_lib example_tensors example_conv 1 False False example_params False example_host
    = Some (example_found p, Inr [\<lparr>ap_algo = 0, ap_time = 5, ap_memory = 64\<rparr>])"
proof -
  have args: "find_arguments (x_null example_tensors \<or> w_null example_tensors \<or> y_null example_tensors) False False 1 = Inr ()"
    by (simp add: find_arguments_def example_tensors_def)
  have group: "ValidateGroupCount (c_x example_tensors) (c_w example_tensors) example_conv = Inr ()"
    by code_simp
  have mode: "immediate_choice example_lib p resolver example_host = Some (example_host, Inr None)" for resolver
    by (simp add: immediate_choice_def example_lib_def FindMode_IsFast_def FindMode_IsHybrid_def)
  have wino: "\<not> IsWinograd3x3SupportedAndFast example_lib p (find_context_of example_lib)"
    by (simp add: IsWinograd3x3SupportedAndFast_def example_lib_def example_solvers_def)
  have dyn: "\<not> FindMode_IsDynamicHybrid (l_mode example_lib) (l_enforce example_lib) False"
    by (simp add: FindMode_IsDynamicHybrid_def example_lib_def)
  let ?r = "fst (DbRecord_SetValuesT (FindDbData_Serialize (io_show (l_io example_lib))) (DbRecord_of_key (Problem_Serialize p))
    ''miopenConvolutionFwdAlgoGEMM'' \<lparr>fd_solver_id = ''GemmFwdRest'', fd_time = 5, fd_workspace = 64,
      fd_kcache_key = \<lparr>algorithm_name = ''miopenConvolutionFwdAlgoGEMM'', network_config = unused_config\<rparr>\<rparr>)"
  have core: "DirConvFindCore example_lib (c_x example_tensors) (c_w example_tensors) example_conv p example_params False False
      example_host (DbRecord_of_key (Problem_Serialize p)) = Some (example_found p, ?r, None)"
    by (simp add: DirConvFindCore_def group data_find_core_def dyn example_host_def example_solutions)
      (simp add: compile_and_evaluate_def example_lib_def example_solution_def
        PrecompileSolutions_def PrecompileKernels_def missing_kernels_def par_for_strided_def EvaluateInvokers_def
        fits_def example_params_def Handle_PrepareInvoker_def run_invoker_def Handle_RegisterInvoker_def InvokerCache_Register_def
        InvokerCache_SetAsFound1_0_def ConvolutionAlgoToDirectionalString_def MakeUnused_def FindDbKCacheKey_def
        unused_config_def FindDbData_def kcache_IsValid_def example_found_def example_host_def)
  let ?d = "\<lparr>fd_solver_id = ''GemmFwdRest'', fd_time = 5, fd_workspace = 64,
      fd_kcache_key = \<lparr>algorithm_name = ''miopenConvolutionFwdAlgoGEMM'', network_config = unused_config\<rparr>\<rparr>"
  have "FindDbData_Deserialize length 0 (FindDbData_Serialize (\<lambda>n. replicate n CHR ''1'') ?d) = Some ?d"
    by (rule find_codec.deser_ser) (simp add: find_data_ok_def word_ok_def values_ok_def is_space_def unused_config_def)
  then have copy: "FindDb_CopyTo (l_io example_lib) ?r [] = [\<lparr>pf_name = ''miopenConvolutionFwdAlgoGEMM'', pf_solver_id = ''GemmFwdRest'',
      pf_time = 5, pf_workspace = 64\<rparr>]"
    by (simp add: FindDb_CopyTo_def find_entries_def DbRecord_As_def DbRecord_SetValuesT_def DbRecord_SetValues_def
        DbRecord_of_key_def example_lib_def perf_field_of_def)
  have off: "\<not> l_find_enabled example_lib" by (simp add: example_lib_def)
  have same: "example_host\<lparr>h_find_db := h_find_db example_host\<rparr> = example_host"
    "(example_found p)\<lparr>h_find_db := h_find_db (example_found p)\<rparr> = example_found p" by simp_all
  have load: "TryLoad (l_io example_lib) (l_reg example_lib) (l_find_ops example_lib) (l_find_enabled example_lib)
      (Problem_Serialize p) (BuildConfKey p)
      (DirConvFindCore example_lib (c_x example_tensors) (c_w example_tensors) example_conv p example_params False False) example_host
    = Some (example_found p, Inr [\<lparr>pf_name = ''miopenConvolutionFwdAlgoGEMM'', pf_solver_id = ''GemmFwdRest'',
      pf_time = 5, pf_workspace = 64\<rparr>])"
    by (simp add: TryLoad_def FindDbRecord_new_def FindDbRecord_delete_def off core copy)
  show ?thesis
    by (simp add: find_call_def FindConvFwdAlgorithm_def args assms find_perf_db_def mode wino load)
      (simp add: report_def example_lib_def std_sort_def sort_insert_def linear_insert_def StringToConvolutionFwdAlgo_def at_map_def
        algo_value_def)
qed

theorem find_then_convolve_witness:
  "\<exists>p. problem_of_tensors Forward (c_x example_tensors) (c_w example_tensors) (c_y example_tensors) example_conv = Inr p
    \<and> find_call Forward example_lib example_tensors example_conv 1 False False example_params False example_host
        = Some (example_found p, Inr [\<lparr>ap_algo = 0, ap_time = 5, ap_memory = 64\<rparr>])
    \<and> conv_call Forward example_lib example_tensors example_conv True True 0 example_params (example_found p)
        = (example_found p, Inr ())"
proof -
  obtain p where p: "problem_of_tensors Forward (c_x example_tensors) (c_w example_tensors) (c_y example_tensors) example_conv = Inr p"
      "Problem_Serialize p \<noteq> ''m''" by (rule example_problem_ok) (rule that)
  note find = example_find [OF p(1)]
  have inv: "ram_find_inv env0 ''db'' (h_find_db example_host)"
    using sys_inv_init [of "''db''" world0] concrete_ok
    by (simp add: ram_find_inv_def ram_inv_def sys_inv_def example_host_def)
  have view: "db_view ''db'' (w_fs (fst (h_find_db example_host))) (Problem_Serialize p) = None"
    using p(2) by (auto simp: example_host_def world0_def db_view_def db_lines_def getlines.simps lines_view_def line_key_def)
  have both: "ram_find_inv env0 ''db'' u' \<and> db_view ''db'' (w_fs (fst u')) = db_view ''db'' (w_fs (fst u))"
    if "ram_find_inv env0 ''db'' u" "l_find_both example_lib u k = Inr (u', r)" for u k u' r
    using ram_find [of env0 "''db''" u k] that by (auto simp: example_lib_def ram_find_inv_def)
  have args: "arguments_ok Forward example_tensors example_conv 0" by code_simp
  have ops: "l_find_ops example_lib = ram_find_ops env0" "hash_order (io_ord (l_io example_lib))"
    by (simp_all add: example_lib_def hash_order_rev)
  have caches: "kc_inv (h_kernels example_host)" "found_registered example_lib (h_invokers example_host)"
    by (simp_all add: example_host_def kc_inv_empty found_registered_def InvokerCache_get_def)
  have "conv_call Forward example_lib example_tensors example_conv True True 0 example_params (example_found p)
    = (fst (run_invoker example_lib (example_found p) () example_params),
       map_sum id (\<lambda>_. ()) (snd (run_invoker example_lib (example_found p) () example_params)))"
    using find_then_convolve [OF example_lib_ok ops _ inv caches p(1) _ find, where ip' = example_params] both view args by simp
  with p(1) find show ?thesis by (simp add: run_invoker_def example_lib_def)
qed

end
