(* ===== verification/Conv_Calls.thy ===== *)
theory Conv_Calls
  imports Conv_Find
begin

text \<open>
  The calls of the convolution interface as steps of a handle: what every sequence of find, convolution,
  compile and immediate calls keeps of the invoker cache, and a concrete library for the witnesses.
\<close>

section \<open>What every call keeps\<close>

definition immediate_call where
  "immediate_call dir = (case dir of Forward \<Rightarrow> ConvolutionForwardImmediate | BackwardData \<Rightarrow> ConvolutionBackwardImmediate
     | BackwardWeights \<Rightarrow> ConvolutionWrwImmediate)"

lemma valid_id_name:
  assumes "lib_ok L" "is_valid (Id_of_value (l_reg L) n)"
  shows "Id_of_str (l_reg L) (Id_ToString (l_reg L) (Id_of_value (l_reg L) n)) = Id_of_value (l_reg L) n"
  using IdRegistry_by_number [of "l_names L"] assms by (simp add: lib_ok_def l_reg_def)

lemma supported_valid: "CheckInvokerSupport_id L (Id_of_value (l_reg L) n) dir = Inr b \<Longrightarrow> is_valid (Id_of_value (l_reg L) n)"
  by (auto simp: CheckInvokerSupport_id_def Id_GetAlgo_dir_def Id_GetAlgo_def Id_of_value_def split: option.splits sum.splits)

lemma compile_loop_invokers: "compile_loop L p ctx i es h = Some (h', r) \<Longrightarrow> h_invokers h' = h_invokers h"
  by (induction es arbitrary: h)
    (auto simp: CompileSolver_def AnySolver_FindSolution_def Let_def
      split: if_splits option.splits prod.splits sum.splits)

lemma find_record_invokers: "find_record L p h = (h', r) \<Longrightarrow> h_invokers h' = h_invokers h"
  by (auto dest: find_record_keeps)

lemma CompileConvSolution_registered:
  assumes "CompileConvSolution L (Inr p) (direction p) (Id_of_value (l_reg L) n) h = Some (h', r)"
    and "lib_ok L" "found_registered L (h_invokers h)"
  shows "found_registered L (h_invokers h')"
proof -
  let ?i = "Id_of_value (l_reg L) n" and ?c = "(fresh_context L)\<lparr>disable_enforce := True\<rparr>"
  have run: "CompileSolution L ?i p ?c (direction p) h = Some (h', r)"
    using assms(1) by (simp add: CompileConvSolution_def)
  show ?thesis
  proof (cases "is_valid ?i")
    case False
    with run assms(3) show ?thesis by (auto simp: CompileSolution_def)
  next
    case v: True
    show ?thesis
    proof (cases "CheckInvokerSupport_id L ?i (direction p)")
      case (Inl e)
      with run v assms(3) show ?thesis by (auto simp: CompileSolution_def)
    next
      case (Inr b)
      show ?thesis
      proof (cases b)
        case True
        with run v Inr obtain q where "LoadOrPrepareInvoker L p ?c ?i (direction p) h = Some (h', q)"
          by (auto simp: CompileSolution_def split: option.splits)
        from LoadOrPrepareInvoker_found [OF this assms(3) valid_id_name [OF assms(2) v]] assms(3)
        show ?thesis by (simp add: keeps_found_def)
      next
        case False
        obtain h1 q where q: "find_record L p h = (h1, q)" by fastforce
        have "h_invokers h' = h_invokers h1"
          using run v Inr False q by (auto simp: CompileSolution_def split: option.splits sum.splits dest: compile_loop_invokers)
        with find_record_invokers [OF q] assms(3) show ?thesis by simp
      qed
    qed
  qed
qed

lemma run_immediate_registered:
  assumes "run_immediate L (Inr p) (direction p) (Id_of_value (l_reg L) n) msg ip h = Some (h', r)"
    and "lib_ok L" "found_registered L (h_invokers h)"
  shows "found_registered L (h_invokers h')"
proof (cases "CheckInvokerSupport_id L (Id_of_value (l_reg L) n) (direction p) = Inr True")
  case False
  then have "h' = h" using assms(1) by (auto simp: run_immediate_def split: sum.splits bool.splits)
  with assms(3) show ?thesis by simp
next
  case True
  note i = valid_id_name [OF assms(2) supported_valid [OF True]]
  obtain h1 q where q: "LoadOrPrepareInvoker L p (fresh_context L) (Id_of_value (l_reg L) n) (direction p) h = Some (h1, q)"
    using assms(1) True by (auto simp: run_immediate_def split: option.splits)
  have "h_invokers h' = h_invokers h1"
    using assms(1) True q run_invoker_keeps [of L h1 _ ip]
    by (cases q) (auto simp: run_immediate_def same_host_def split: prod.splits)
  with LoadOrPrepareInvoker_found [OF q assms(3) i] assms(3) show ?thesis by (simp add: keeps_found_def)
qed

lemma TryLoad_invokers:
  assumes "TryLoad io reg ops enabled key config core h = Some (h', r)"
  shows "h_invokers h' = h_invokers h \<or>
    (\<exists>u h2 r2 e. core (h\<lparr>h_find_db := u\<rparr>) (DbRecord_of_key key) = Some (h2, r2, e) \<and> h_invokers h' = h_invokers h2)"
  using assms by (fastforce simp: TryLoad_def Let_def split: sum.splits option.splits prod.splits bool.splits if_splits)

lemma find_perf_db_registered:
  assumes "find_perf_db L p (direction p) resolver core h = Some (h', r)" "core_ok L (BuildConfKey p) core"
    and "lib_ok L" "found_registered L (h_invokers h)"
  shows "found_registered L (h_invokers h')"
proof -
  obtain h1 q where q: "immediate_choice L p resolver h = Some (h1, q)"
    using assms(1) by (auto simp: find_perf_db_def split: option.splits)
  have h1: "found_registered L (h_invokers h1)" using immediate_choice_keeps [OF q] assms(4) by auto
  show ?thesis
  proof (cases q)
    case (Inl e)
    with assms(1) q h1 show ?thesis by (auto simp: find_perf_db_def)
  next
    case (Inr choice)
    show ?thesis
    proof (cases choice)
      case (Some sol)
      let ?i = "Id_of_value (l_reg L) (solution_id sol)"
      obtain w where "CompileConvSolution L (Inr p) (direction p) ?i h1 = Some (h', w)"
        using assms(1) q Inr Some by (auto simp: find_perf_db_def Let_def split: option.splits sum.splits)
      from CompileConvSolution_registered [OF this assms(3) h1] show ?thesis .
    next
      case None
      then have "TryLoad (l_io L) (l_reg L) (l_find_ops L) (l_find_enabled L) (Problem_Serialize p) (BuildConfKey p) core h1
          = Some (h', r)"
        using assms(1) q Inr by (simp add: find_perf_db_def)
      from TryLoad_invokers [OF this] show ?thesis
      proof (elim disjE exE conjE)
        fix u h2 r2 e
        assume "core (h1\<lparr>h_find_db := u\<rparr>) (DbRecord_of_key (Problem_Serialize p)) = Some (h2, r2, e)"
          "h_invokers h' = h_invokers h2"
        then show ?thesis
          using assms(2) [unfolded core_ok_def, rule_format, of "h1\<lparr>h_find_db := u\<rparr>"] h1 by (simp add: keeps_found_def)
      qed (use h1 in simp)
    qed
  qed
qed

section \<open>Sequences of calls\<close>

lemma find_call_cases:
  assumes "find_call dir L t c n cn pn ip exhaustiveSearch h = Some (h', r)" "lib_ok L"
  shows "h' = h \<or> (\<exists>p core q. problem_of_tensors dir (c_x t) (c_w t) (c_y t) c = Inr p \<and> core_ok L (BuildConfKey p) core
    \<and> find_perf_db L p dir (StringToAlgo dir) core h = Some (h', q))"
proof (cases "problem_of_tensors dir (c_x t) (c_w t) (c_y t) c")
  case (Inl e)
  with assms(1) show ?thesis
    by (cases dir) (auto simp: find_call_def FindConvFwdAlgorithm_def FindConvBwdDataAlgorithm_def FindConvBwdWeightsAlgorithm_def
        split: sum.splits if_splits)
next
  case (Inr p)
  note d = problem_of_tensors_direction [OF Inr]
  show ?thesis
  proof (cases dir)
    case Forward
    let ?core = "DirConvFindCore L (c_x t) (c_w t) c p ip exhaustiveSearch (IsWinograd3x3SupportedAndFast L p (find_context_of L))"
    have "h' = h \<or> (\<exists>q. find_perf_db L p dir (StringToAlgo dir) ?core h = Some (h', q))"
      using Forward assms(1) Inr
      by (auto simp: find_call_def FindConvFwdAlgorithm_def StringToAlgo_def split: sum.splits option.splits)
    with DirConvFindCore_ok [OF assms(2)] d Forward Inr show ?thesis by blast
  next
    case BackwardData
    let ?core = "data_find_core L p BackwardData ip exhaustiveSearch (IsWinograd3x3SupportedAndFast L p (fresh_context L))"
    have "h' = h \<or> (\<exists>q. find_perf_db L p dir (StringToAlgo dir) ?core h = Some (h', q))"
      using BackwardData assms(1) Inr
      by (auto simp: find_call_def FindConvBwdDataAlgorithm_def StringToAlgo_def split: sum.splits option.splits)
    with data_find_core_ok [OF assms(2)] d BackwardData Inr show ?thesis by blast
  next
    case BackwardWeights
    have "h' = h \<or> (\<exists>q. find_perf_db L p dir (StringToAlgo dir) (wrw_find_core L p ip exhaustiveSearch) h = Some (h', q))"
      using BackwardWeights assms(1) Inr
      by (auto simp: find_call_def FindConvBwdWeightsAlgorithm_def StringToAlgo_def split: sum.splits option.splits if_splits)
    with wrw_find_core_ok [OF assms(2)] d BackwardWeights Inr show ?thesis by blast
  qed
qed

lemma conv_call_invokers:
  assumes "conv_call dir L t c a1 b0 algo ip h = (h', r)"
  shows "h_invokers h' = h_invokers h"
proof -
  have run: "h_invokers h2 = h_invokers h" if "run_found L pr a d msg ip h = (h2, r)" for pr a d msg h2
    using that run_invoker_keeps [of L h _ ip]
    by (auto simp: run_found_def same_host_def split: sum.splits option.splits prod.splits)
  show ?thesis
    using assms
    by (cases dir) (auto simp: conv_call_def ConvolutionForward_def ConvolutionBackwardData_def ConvolutionBackwardWeights_def
        split: sum.splits if_splits dest: run)
qed

lemma immediate_call_registered:
  assumes "immediate_call dir L t c ip (Id_of_value (l_reg L) n) h = Some (h', r)" "lib_ok L" "found_registered L (h_invokers h)"
  shows "found_registered L (h_invokers h')"
proof -
  have "h' = h \<or> (\<exists>msg. run_immediate L (problem_of_tensors dir (c_x t) (c_w t) (c_y t) c) dir (Id_of_value (l_reg L) n) msg ip h
      = Some (h', r))"
    using assms(1)
    by (cases dir) (auto simp: immediate_call_def ConvolutionForwardImmediate_def ConvolutionBackwardImmediate_def
        ConvolutionWrwImmediate_def split: sum.splits if_splits)
  then show ?thesis
  proof
    assume "\<exists>msg. run_immediate L (problem_of_tensors dir (c_x t) (c_w t) (c_y t) c) dir (Id_of_value (l_reg L) n) msg ip h
      = Some (h', r)"
    then obtain msg where run: "run_immediate L (problem_of_tensors dir (c_x t) (c_w t) (c_y t) c) dir (Id_of_value (l_reg L) n)
        msg ip h = Some (h', r)" by blast
    show ?thesis
    proof (cases "problem_of_tensors dir (c_x t) (c_w t) (c_y t) c")
      case (Inl e)
      with run assms(3) show ?thesis by (auto simp: run_immediate_def)
    next
      case (Inr p)
      from run_immediate_registered [of L p n msg ip h h' r] run Inr problem_of_tensors_direction [OF Inr] assms(2,3)
      show ?thesis by simp
    qed
  qed (use assms(3) in simp)
qed

text \<open>A handle starts with empty caches and lives through calls, each of which may throw. IDs come from the caller as
  numbers.\<close>

inductive host_reach ::
  "('c, 'p, 'i, 'd, 'u, 'g, 'f) lib \<Rightarrow> ('p, 'i, 'd, 'u, 'g) host \<Rightarrow> bool" for L where
  start: "h_invokers h = [] \<Longrightarrow> host_reach L h"
| find: "host_reach L h \<Longrightarrow> find_call dir L t c n cn pn ip exhaustiveSearch h = Some (h', r) \<Longrightarrow> host_reach L h'"
| convolve: "host_reach L h \<Longrightarrow> conv_call dir L t c a1 b0 algo ip h = (h', r') \<Longrightarrow> host_reach L h'"
| solutions: "host_reach L h \<Longrightarrow> GetConvSolutions L (problem_of_tensors dir x w y c) (StringToAlgo dir) n cn sn h = Some (h', r'')
    \<Longrightarrow> host_reach L h'"
| compile: "host_reach L h \<Longrightarrow> CompileConvSolution L (problem_of_tensors dir x w y c) dir (Id_of_value (l_reg L) n) h = Some (h', r')
    \<Longrightarrow> host_reach L h'"
| immediate: "host_reach L h \<Longrightarrow> immediate_call dir L t c ip (Id_of_value (l_reg L) n) h = Some (h', r') \<Longrightarrow> host_reach L h'"

text \<open>C6: In every state that calls of the interface reach from an empty handle, also through calls that throw, every
  invoker that is registered for a problem and a solver is counted: its solver's algorithm in the problem's
  direction is known to the registry, and looking up the problem and that algorithm finds an invoker.\<close>

theorem host_reach_found:
  assumes "host_reach L h" "lib_ok L" "InvokerCache_get (h_invokers h) (config, s) = Some i"
  shows "\<exists>a j. Id_GetAlgo_dir (l_reg L) (Id_of_str (l_reg L) s) (config_direction config) = Inr a
    \<and> InvokerCache_GetFound1_0 (h_invokers h) config a = Inr (Some j)"
proof -
  have "found_registered L (h_invokers h)"
    using assms(1,2)
  proof (induction rule: host_reach.induct)
    case (start h)
    then show ?case by (simp add: found_registered_def InvokerCache_get_def)
  next
    case (find h dir t c n cn pn ip ex h' r)
    from find_call_cases [OF find(2) find(4)] find show ?case
      using find_perf_db_registered problem_of_tensors_direction by metis
  next
    case (convolve h dir t c a1 b0 algo ip h' r')
    then show ?case using conv_call_invokers by metis
  next
    case (solutions h dir x w y c n cn sn h' r'')
    have "h' = h \<or> (\<exists>p. h' = fst (find_record L p h))"
    proof (cases "problem_of_tensors dir x w y c")
      case (Inl e)
      with solutions(2) show ?thesis by (auto simp: GetConvSolutions_def split: if_splits)
    next
      case (Inr p)
      with solutions(2) GetConvSolutions_keeps show ?thesis by metis
    qed
    with solutions show ?case using find_record_invokers by (metis prod.collapse)
  next
    case (compile h dir x w y c n h' r')
    show ?case
    proof (cases "problem_of_tensors dir x w y c")
      case (Inl e)
      with compile show ?thesis by (auto simp: CompileConvSolution_def)
    next
      case (Inr p)
      with compile problem_of_tensors_direction [OF Inr] CompileConvSolution_registered show ?thesis by metis
    qed
  next
    case (immediate h dir t c ip n h' r')
    then show ?case using immediate_call_registered by metis
  qed
  with assms(3) show ?thesis by (auto simp: found_registered_def found_ok_def)
qed

theorem host_reach_found_witness:
  "\<exists>p. host_reach example_lib (example_found p)
     \<and> InvokerCache_get (h_invokers (example_found p)) (BuildConfKey p, ''GemmFwdRest'') = Some ()
     \<and> InvokerCache_GetFound1_0 (h_invokers (example_found p)) (BuildConfKey p) ''miopenConvolutionFwdAlgoGEMM'' = Inr (Some ())"
proof -
  obtain p where p: "problem_of_tensors Forward (c_x example_tensors) (c_w example_tensors) (c_y example_tensors) example_conv = Inr p"
    by (rule example_problem_ok) (rule that)
  have "host_reach example_lib example_host" by (rule host_reach.start) (simp add: example_host_def)
  from host_reach.find [OF this example_find [OF p]] have reach: "host_reach example_lib (example_found p)" .
  have get: "InvokerCache_get (h_invokers (example_found p)) (BuildConfKey p, ''GemmFwdRest'') = Some ()"
    by (simp add: example_found_def InvokerCache_get_def)
  have "WithSolver ''GemmFwdRest'' Algo_GEMM \<in> set registrations"
    using GetGemmSolvers_registered by (simp add: GetGemmSolvers_def)
  from registered_algo [OF example_lib_ok this, of Forward]
  have "Id_GetAlgo_dir (l_reg example_lib) (Id_of_str (l_reg example_lib) ''GemmFwdRest'') Forward = Inr ''miopenConvolutionFwdAlgoGEMM''"
    using example_ids by (simp add: example_lib_def ConvolutionAlgoToDirectionalString_def)
  with host_reach_found [OF reach example_lib_ok get] problem_of_tensors_direction [OF p] reach get show ?thesis by auto
qed

end
