(* ===== verification/Conv_Choice.thy ===== *)
theory Conv_Choice
  imports Conv_Find
begin

text \<open>
  Which solutions the two modes of convolutions choose: the find step records the fastest measured solution of an
  algorithm, and the immediate mode lists solutions that its other calls accept, the best first.
\<close>

section \<open>The fastest solution\<close>

text \<open>The reference: everything that can be measured is measured, then the first minimum is taken.\<close>

fun measured ::
  "('c, 'p, 'i, 'd, 'u, 'g, 'f) lib \<Rightarrow> invoke_params \<Rightarrow> ('p, 'i) solution list \<Rightarrow> ('p, 'i, 'd, 'u, 'g) host
    \<Rightarrow> (('p, 'i) solution \<times> 'i \<times> 'f) list" where
  "measured L ip [] h = []"
| "measured L ip (sol # rest) h =
     (if fits ip (snd sol) then
        (case sol_factory (snd sol) of
           None \<Rightarrow> []
         | Some factory \<Rightarrow>
             (case Handle_PrepareInvoker L h factory (sol_params (snd sol)) of
                (h1, Inl e) \<Rightarrow> []
              | (h1, Inr invoker) \<Rightarrow>
                  (case run_invoker L h1 invoker ip of
                     (h2, Inl e) \<Rightarrow> measured L ip rest h2
                   | (h2, Inr t) \<Rightarrow> (sol, invoker, t) # measured L ip rest h2)))
      else measured L ip rest h)"

fun faster :: "('f \<Rightarrow> 'f \<Rightarrow> bool) \<Rightarrow> ('p, 'i, 'f) selection \<Rightarrow> ('p, 'i) solution \<times> 'i \<times> 'f \<Rightarrow> ('p, 'i, 'f) selection" where
  "faster lt s (sol, invoker, t) =
     (if lt t (sel_best s) then \<lparr>sel_best = t, sel_choice = Some (sol, invoker)\<rparr> else s)"

lemma evaluate_loop_measured:
  "evaluate_loop L ip sols s h = (h', Inr s') \<Longrightarrow> s' = foldl (faster (l_lt L)) s (measured L ip sols h)"
  by (induction sols arbitrary: s h) (auto split: if_split_asm option.split_asm prod.split_asm sum.split_asm)

lemma measured_Cons:
  "measured L ip (sol # rest) h = [] \<or> (\<exists>h'. measured L ip (sol # rest) h = measured L ip rest h')
   \<or> fits ip (snd sol) \<and> (\<exists>h' i t. measured L ip (sol # rest) h = (sol, i, t) # measured L ip rest h')"
  by (auto split: option.split prod.split sum.split)

lemma measured_fits: "x \<in> set (measured L ip sols h) \<Longrightarrow> fst x \<in> set sols \<and> fits ip (snd (fst x))"
proof (induction sols arbitrary: h)
  case (Cons sol rest)
  from measured_Cons [of L ip sol rest h] show ?case
  proof (elim disjE conjE exE)
    fix h' i t
    assume "fits ip (snd sol)" "measured L ip (sol # rest) h = (sol, i, t) # measured L ip rest h'"
    with Cons show ?thesis by (auto simp del: measured.simps(2))
  qed (use Cons in \<open>auto simp del: measured.simps(2)\<close>)
qed simp

text \<open>The least measurement under the start value, if there is one.\<close>

lemma faster_least:
  assumes "weak_order_on UNIV lt" "s' = foldl (faster lt) s ms"
  shows "(s' = s \<and> (\<forall>x \<in> set ms. \<not> lt (snd (snd x)) (sel_best s)))
     \<or> (\<exists>x \<in> set ms. s' = \<lparr>sel_best = snd (snd x), sel_choice = Some (fst x, fst (snd x))\<rparr> \<and> lt (snd (snd x)) (sel_best s)
          \<and> (\<forall>y \<in> set ms. \<not> lt (snd (snd y)) (snd (snd x))))"
  using assms(2)
proof (induction ms arbitrary: s)
  case (Cons m ms)
  note w = weak_orderD [OF assms(1) UNIV_I UNIV_I]
  let ?t = "snd (snd m)" and ?m = "\<lparr>sel_best = snd (snd m), sel_choice = Some (fst m, fst (snd m))\<rparr>"
  show ?case
  proof (cases "lt ?t (sel_best s)")
    case False
    with Cons.prems have "s' = foldl (faster lt) s ms" by (cases m) simp
    from Cons.IH [OF this] show ?thesis
    proof (elim disjE conjE bexE)
      fix x
      assume x: "x \<in> set ms" "s' = \<lparr>sel_best = snd (snd x), sel_choice = Some (fst x, fst (snd x))\<rparr>"
        "lt (snd (snd x)) (sel_best s)" "\<forall>y \<in> set ms. \<not> lt (snd (snd y)) (snd (snd x))"
      have "\<not> lt ?t (snd (snd x))" using w(3) [OF UNIV_I False w(1) [OF x(3)]] .
      with x show ?thesis by (intro disjI2 bexI [of _ x]) simp_all
    qed (use False in simp)
  next
    case True
    with Cons.prems have "s' = foldl (faster lt) ?m ms" by (cases m) simp
    from Cons.IH [OF this] show ?thesis
    proof (elim disjE conjE bexE)
      fix x
      assume x: "x \<in> set ms" "s' = \<lparr>sel_best = snd (snd x), sel_choice = Some (fst x, fst (snd x))\<rparr>"
        "lt (snd (snd x)) (sel_best ?m)" "\<forall>y \<in> set ms. \<not> lt (snd (snd y)) (snd (snd x))"
      have t: "\<not> lt ?t (snd (snd x))" using w(1) x(3) by simp
      then have "lt (snd (snd x)) (sel_best s)"
        using w(3) [OF UNIV_I t, of "sel_best s"] True by blast
      with x t show ?thesis by (intro disjI2 bexI [of _ x]) simp_all
    qed (use True w(2) in simp)
  qed
qed simp

text \<open>C5: Measuring the solutions of an algorithm without an exception chooses the fastest: of the solutions that
  the given workspace allows and that run, none is faster than the chosen one; its invoker (or the one the handle
  already had for the problem and the solver) is what the convolution call will find for the algorithm; and the
  record names its solver, its time and its workspace. Only when every measurement is as long as the largest
  \<open>float\<close> is nothing chosen, and invokers and record stay as they were.\<close>

theorem EvaluateInvokers_fastest:
  assumes "\<not> l_arch L" "weak_order_on UNIV (l_lt L)" "\<forall>x \<in> set sols. sol_ok (snd x)"
    and "EvaluateInvokers L sols algo config ip h r = (h', r', None)"
  shows "(\<exists>x \<in> set (measured L ip sols h). fst x \<in> set sols \<and> fits ip (snd (fst x))
      \<and> (\<forall>y \<in> set (measured L ip sols h). \<not> l_lt L (snd (snd y)) (snd (snd x)))
      \<and> InvokerCache_GetFound1_0 (h_invokers h') config algo = Inr (Some
          (case InvokerCache_get (h_invokers h) (config, fst (fst x)) of Some i \<Rightarrow> i | None \<Rightarrow> fst (snd x)))
      \<and> rec_lookup r' = (rec_lookup r)(algo \<mapsto> FindDbData_Serialize (io_show (l_io L))
          \<lparr>fd_solver_id = fst (fst x), fd_time = snd (snd x), fd_workspace = sol_workspace (snd (fst x)),
           fd_kcache_key = \<lparr>algorithm_name = algo, network_config = unused_config\<rparr>\<rparr>))
    \<or> (h_invokers h' = h_invokers h \<and> r' = r
      \<and> (\<forall>y \<in> set (measured L ip sols h). \<not> l_lt L (snd (snd y)) (l_max L)))"
proof -
  let ?s0 = "\<lparr>sel_best = l_max L, sel_choice = None\<rparr>"
  obtain h1 s where loop: "evaluate_loop L ip sols ?s0 h = (h1, Inr s)"
    using assms(1,4) by (auto simp: EvaluateInvokers_def split: prod.splits sum.splits)
  note same = evaluate_loop_keeps [OF loop, THEN conjunct1]
  from faster_least [OF assms(2) evaluate_loop_measured [OF loop]] show ?thesis
  proof (elim disjE conjE bexE)
    assume "s = ?s0" "\<forall>x \<in> set (measured L ip sols h). \<not> l_lt L (snd (snd x)) (sel_best ?s0)"
    with assms(1,4) loop same show ?thesis by (simp add: EvaluateInvokers_def same_host_def)
  next
    fix x
    assume x: "x \<in> set (measured L ip sols h)" "s = \<lparr>sel_best = snd (snd x), sel_choice = Some (fst x, fst (snd x))\<rparr>"
      "\<forall>y \<in> set (measured L ip sols h). \<not> l_lt L (snd (snd y)) (snd (snd x))"
    note m = measured_fits [OF x(1)]
    let ?s = "fst (fst x)" and ?i = "fst (snd x)"
    obtain ic where run: "Handle_RegisterInvoker h1 ?i config ?s algo = (h1\<lparr>h_invokers := ic\<rparr>, Inr ())"
      and get: "\<And>key. InvokerCache_get ic key =
        (if key = (config, ?s) \<and> InvokerCache_get (h_invokers h1) key = None then Some ?i
         else InvokerCache_get (h_invokers h1) key)"
      and found: "InvokerCache_GetFound1_0 ic config algo = Inr (InvokerCache_get ic (config, ?s))"
      by (rule Handle_RegisterInvoker_spec [of h1 ?i config ?s algo]) (rule that)
    let ?d = "\<lparr>fd_solver_id = ?s, fd_time = snd (snd x), fd_workspace = sol_workspace (snd (fst x)),
      fd_kcache_key = \<lparr>algorithm_name = algo, network_config = unused_config\<rparr>\<rparr>"
    have out: "h' = h1\<lparr>h_invokers := ic\<rparr> \<and> r' = fst (DbRecord_SetValuesT (FindDbData_Serialize (io_show (l_io L))) r algo ?d)"
      using assms(1,4) assms(3) m loop x(2) run
      by (simp add: EvaluateInvokers_def MakeUnused_def FindDbKCacheKey_def FindDbData_def Let_def split: if_split_asm)
    have "InvokerCache_GetFound1_0 (h_invokers h') config algo = Inr (Some
        (case InvokerCache_get (h_invokers h) (config, ?s) of Some j \<Rightarrow> j | None \<Rightarrow> ?i))"
      using out found get [of "(config, ?s)"] same by (auto simp: same_host_def split: option.split)
    moreover have "rec_lookup r' = (rec_lookup r)(algo \<mapsto> FindDbData_Serialize (io_show (l_io L)) ?d)"
      using out by (simp add: DbRecord_SetValuesT_def)
    ultimately show ?thesis using x(1,3) m by blast
  qed
qed

theorem EvaluateInvokers_fastest_witness:
  "\<exists>h' r'. EvaluateInvokers example_lib [(''GemmFwdRest'', example_solution), (''GemmBwdRest'', example_solution\<lparr>sol_workspace := 100\<rparr>)]
       ''miopenConvolutionFwdAlgoGEMM'' ''k'' example_params example_host rec0 = (h', r', None)
     \<and> InvokerCache_GetFound1_0 (h_invokers h') ''k'' ''miopenConvolutionFwdAlgoGEMM'' = Inr (Some ())
     \<and> rec_lookup r' ''miopenConvolutionFwdAlgoGEMM'' = Some ''GemmFwdRest,11111,64,miopenConvolutionFwdAlgoGEMM,<unused>''"
proof -
  let ?sols = "[(''GemmFwdRest'', example_solution), (''GemmBwdRest'', example_solution\<lparr>sol_workspace := 100\<rparr>)]"
  have "\<exists>h' r'. EvaluateInvokers example_lib ?sols ''miopenConvolutionFwdAlgoGEMM'' ''k'' example_params example_host rec0 = (h', r', None)"
    by (simp add: EvaluateInvokers_def example_lib_def example_host_def example_solution_def fits_def example_params_def
        Handle_PrepareInvoker_def run_invoker_def Handle_RegisterInvoker_def InvokerCache_Register_def
        InvokerCache_SetAsFound1_0_def MakeUnused_def FindDbKCacheKey_def unused_config_def FindDbData_def kcache_IsValid_def)
  then obtain h' r' where run: "EvaluateInvokers example_lib ?sols ''miopenConvolutionFwdAlgoGEMM'' ''k'' example_params
      example_host rec0 = (h', r', None)" by blast
  have m: "measured example_lib example_params ?sols example_host = [((''GemmFwdRest'', example_solution), (), 5)]"
    by (simp add: example_lib_def example_host_def example_solution_def fits_def example_params_def
        Handle_PrepareInvoker_def run_invoker_def)
  have ok: "\<not> l_arch example_lib" "weak_order_on UNIV (l_lt example_lib)" "\<forall>x \<in> set ?sols. sol_ok (snd x)"
    by (auto simp: example_lib_def weak_order_on_def example_solution_def)
  have fast: "l_lt example_lib 5 (l_max example_lib)" by (simp add: example_lib_def)
  have written: "FindDbData_Serialize (\<lambda>n. replicate n CHR ''1'') \<lparr>fd_solver_id = ''GemmFwdRest'', fd_time = 5, fd_workspace = 64,
      fd_kcache_key = \<lparr>algorithm_name = ''miopenConvolutionFwdAlgoGEMM'', network_config = unused_config\<rparr>\<rparr>
    = ''GemmFwdRest,11111,64,miopenConvolutionFwdAlgoGEMM,<unused>''" by code_simp
  have io: "io_show (l_io example_lib) = (\<lambda>n. replicate n CHR ''1'')" by (simp add: example_lib_def)
  from EvaluateInvokers_fastest [OF ok run] have
    "InvokerCache_GetFound1_0 (h_invokers h') ''k'' ''miopenConvolutionFwdAlgoGEMM'' = Inr (Some ())
     \<and> rec_lookup r' ''miopenConvolutionFwdAlgoGEMM'' = Some ''GemmFwdRest,11111,64,miopenConvolutionFwdAlgoGEMM,<unused>''"
    using fast written unfolding m by (simp add: io example_solution_def)
  with run show ?thesis by blast
qed

section \<open>The list of solutions\<close>

text \<open>What the loop over the find database admits.\<close>

definition listed :: "('c, 'p, 'i, 'd, 'u, 'g, 'f) lib \<Rightarrow> problem \<Rightarrow> 'f imm_solution \<Rightarrow> bool" where
  "listed L p s \<longleftrightarrow> \<not> IsAlgorithmDisabled (l_switches L) (imm_algorithm s)
     \<and> (\<exists>t. Id_GetSolver (l_reg L) (Id_of_value (l_reg L) (solution_id s)) = Some t
          \<and> IsApplicable (l_solvers L p (fresh_context L) t))"

lemma GetSolver_value: "Id_GetSolver reg i = Some t \<Longrightarrow> Id_GetSolver reg (Id_of_value reg (id_value i)) = Some t"
  by (simp add: Id_GetSolver_def Id_of_value_def)

lemma solutions_loop_listed:
  assumes "solutions_loop L p resolver es interim = Some (Inr r)" "s \<in> set r"
  shows "s \<in> set interim \<or> listed L p s \<and> (\<exists>x \<in> set es. imm_time s = fd_time (snd x))"
  using assms
proof (induction es arbitrary: interim)
  case (Cons x es)
  obtain name d where x: "x = (name, d)" by (cases x)
  obtain algo where algo: "resolver name = Inr algo" using Cons.prems(1) by (auto simp: x split: sum.splits)
  show ?case
  proof (cases "IsAlgorithmDisabled (l_switches L) algo \<or> \<not> is_valid (Id_of_str (l_reg L) (fd_solver_id d))")
    case True
    then have "solutions_loop L p resolver es interim = Some (Inr r)"
      using Cons.prems(1) algo by (auto simp: x Let_def split: if_split_asm)
    from Cons.IH [OF this Cons.prems(2)] show ?thesis by auto
  next
    case False
    then obtain t where t: "Id_GetSolver (l_reg L) (Id_of_str (l_reg L) (fd_solver_id d)) = Some t"
      using Cons.prems(1) algo by (auto simp: x Let_def split: option.splits)
    let ?s = "\<lparr>imm_time = fd_time d, workspace_size = fd_workspace d,
      solution_id = id_value (Id_of_str (l_reg L) (fd_solver_id d)), imm_algorithm = algo\<rparr>"
    have new: "listed L p ?s" if "IsApplicable (l_solvers L p (fresh_context L) t)"
      using that False GetSolver_value [OF t] by (simp add: listed_def)
    have "solutions_loop L p resolver es
        (if IsApplicable (l_solvers L p (fresh_context L) t) then interim @ [?s] else interim) = Some (Inr r)"
      using Cons.prems(1) algo False t by (simp add: x Let_def)
    from Cons.IH [OF this Cons.prems(2)] new show ?thesis by (auto simp: x split: if_splits)
  qed
qed simp

text \<open>The solvers that the estimates consider, and their entries.\<close>

definition eligible :: "('c, 'p, 'i, 'd, 'u, 'g, 'f) lib \<Rightarrow> problem \<Rightarrow> solver_id \<Rightarrow> string \<Rightarrow> conv_algo \<Rightarrow> bool" where
  "eligible L p i t algo \<longleftrightarrow> Id_GetAlgo (l_reg L) i = Inr algo
     \<and> \<not> IsAlgorithmDisabled (l_switches L) (algo_value algo) \<and> Id_GetSolver (l_reg L) i = Some t
     \<and> IsDynamic (l_solvers L p (fresh_context L) t) \<and> IsApplicable (l_solvers L p (fresh_context L) t)
     \<and> \<not> l_lt L (l_wti L p t) (l_zero L)"

definition estimate :: "('c, 'p, 'i, 'd, 'u, 'g, 'f) lib \<Rightarrow> problem \<Rightarrow> solver_id \<Rightarrow> string \<Rightarrow> conv_algo \<Rightarrow> 'f imm_solution" where
  "estimate L p i t algo = \<lparr>imm_time = wti2time L (l_wti L p t),
     workspace_size = GetWorkspaceSize (l_solvers L p (fresh_context L) t), solution_id = id_value i,
     imm_algorithm = algo_value algo\<rparr>"

lemma fallback_loop_set:
  "fallback_loop L p ids interim = Inr r \<Longrightarrow>
   set r = set interim \<union> {estimate L p i t algo | i t algo. i \<in> set ids \<and> eligible L p i t algo}"
proof (induction ids arbitrary: interim)
  case (Cons i ids)
  obtain algo where algo: "Id_GetAlgo (l_reg L) i = Inr algo" using Cons.prems by (auto split: sum.splits)
  have split: "{estimate L p j t a | j t a. j \<in> set (i # ids) \<and> eligible L p j t a}
    = {estimate L p i t algo | t. eligible L p i t algo} \<union> {estimate L p j t a | j t a. j \<in> set ids \<and> eligible L p j t a}"
    using algo by (auto simp: eligible_def)
  show ?case
  proof (cases "\<exists>t. eligible L p i t algo")
    case True
    then obtain t where t: "eligible L p i t algo" by blast
    then have "fallback_loop L p ids (interim @ [estimate L p i t algo]) = Inr r"
      using Cons.prems by (simp add: eligible_def estimate_def Let_def)
    moreover have "{estimate L p i t algo | t. eligible L p i t algo} = {estimate L p i t algo}"
      using t by (auto simp: eligible_def)
    ultimately show ?thesis using Cons.IH split by simp
  next
    case False
    then have "fallback_loop L p ids interim = Inr r"
      using Cons.prems algo by (auto simp: eligible_def Let_def split: option.splits if_splits)
    with False show ?thesis using Cons.IH split by simp
  qed
qed simp

text \<open>On times that are not negative the order of solutions is that of the times.\<close>

lemma solution_less_times:
  assumes "weak_order_on UNIV (l_lt L)" "\<forall>s \<in> A. \<not> l_lt L (imm_time s) (l_zero L)"
  shows "a \<in> A \<Longrightarrow> b \<in> A \<Longrightarrow> solution_less L a b = l_lt L (imm_time a) (imm_time b)" "weak_order_on A (solution_less L)"
proof -
  show eq: "solution_less L a b = l_lt L (imm_time a) (imm_time b)" if "a \<in> A" "b \<in> A" for a b
    using assms(2) that by (simp add: solution_less_def Let_def)
  show "weak_order_on A (solution_less L)"
    using assms(1) eq unfolding weak_order_on_def by (metis UNIV_I)
qed

lemma GetConvSolutions_cases:
  assumes "GetConvSolutions L (Inr p) resolver n cn sn h = Some (h', Inr (sols, fallback))"
  obtains (database) r interim where "\<not> fallback" "find_record L p h = (h', Inr (Some r))"
      "solutions_loop L p resolver (find_entries (l_io L) r) [] = Some (Inr interim)"
      "sols = take n (std_sort (solution_less L) interim)"
  | (estimates) interim where "fallback" "\<not> l_no_fallback L"
      "fallback_loop L p (GetSolversByPrimitive (l_reg L) Solver_Registry.Convolution) [] = Inr interim"
      "sols = take n (std_sort (solution_less L) interim)"
  | (nothing) "fallback" "l_no_fallback L" "sols = []"
proof -
  obtain q where q: "GetSolutions L p n resolver h = Some (h', Inr q)"
    using assms by (auto simp: GetConvSolutions_def split: if_split_asm option.split_asm sum.split_asm list.split_asm)
  show thesis
  proof (cases q)
    case (Cons s ss)
    with assms q have "sols = q" "\<not> fallback" by (auto simp: GetConvSolutions_def split: if_split_asm)
    with q Cons database show thesis
      by (auto simp: GetSolutions_def split: prod.split_asm sum.split_asm option.split_asm)
  next
    case Nil
    with assms q have "GetSolutionsFallback L p n = Inr sols" "fallback"
      by (auto simp: GetConvSolutions_def split: if_split_asm sum.split_asm)
    then show thesis
    proof (cases "l_no_fallback L")
      case True
      show thesis
        by (rule nothing) (use \<open>GetSolutionsFallback L p n = Inr sols\<close> \<open>fallback\<close> True in
          \<open>simp_all add: GetSolutionsFallback_def\<close>)
    next
      case False
      with \<open>GetSolutionsFallback L p n = Inr sols\<close> \<open>fallback\<close> show thesis
        by (auto simp: GetSolutionsFallback_def split: sum.split_asm intro: estimates)
    qed
  qed
qed

text \<open>C31: Every solution that the immediate mode lists for a problem can be used in the other calls: its algorithm is
  enabled, its ID is valid and known to the registry with an algorithm, and the query of its workspace gives a
  size without an exception; for a list of estimates it is the size in the list. No more
  solutions are listed than were asked for. (Solvers that never need workspace report the size 0.)\<close>

theorem listed_solutions_usable:
  assumes "GetConvSolutions L (Inr p) resolver n cn sn h = Some (h', Inr (sols, fallback))"
    and "\<And>t. \<not> l_may_need L t \<Longrightarrow> GetWorkspaceSize (l_solvers L p (fresh_context L) t) = 0"
  shows "length sols \<le> n \<and> (\<forall>s \<in> set sols. \<not> IsAlgorithmDisabled (l_switches L) (imm_algorithm s)
      \<and> is_valid (Id_of_value (l_reg L) (solution_id s))
      \<and> (\<exists>algo. Id_GetAlgo (l_reg L) (Id_of_value (l_reg L) (solution_id s)) = Inr algo)
      \<and> (\<exists>ws. ConvSolutionWorkspaceSize L (Inr p) (Id_of_value (l_reg L) (solution_id s)) = Some (Inr ws)
           \<and> (fallback \<longrightarrow> ws = workspace_size s)))"
proof -
  let ?i = "\<lambda>s. Id_of_value (l_reg L) (solution_id s)"
  have usable: "is_valid (?i s) \<and> (\<exists>algo. Id_GetAlgo (l_reg L) (?i s) = Inr algo)
      \<and> (\<exists>t. Id_GetSolver (l_reg L) (?i s) = Some t \<and> ConvSolutionWorkspaceSize L (Inr p) (?i s)
          = Some (Inr (GetWorkspaceSize (l_solvers L p (fresh_context L) t))))" if listed: "listed L p s" for s
  proof -
    obtain t where t: "Id_GetSolver (l_reg L) (?i s) = Some t" "IsApplicable (l_solvers L p (fresh_context L) t)"
      using listed by (auto simp: listed_def)
    then obtain e where "value_to_entry (l_reg L) (solution_id s) = Some e"
      by (auto simp: Id_GetSolver_def Id_of_value_def Option.bind_eq_Some_conv)
    with t assms(2) [of t] show ?thesis
      by (auto simp: ConvSolutionWorkspaceSize_def Id_GetAlgo_def Id_of_value_def Let_def)
  qed
  have known: "(\<exists>ws. ConvSolutionWorkspaceSize L (Inr p) (?i (estimate L p i t algo)) = Some (Inr ws)
      \<and> ws = workspace_size (estimate L p i t algo)) \<and> listed L p (estimate L p i t algo)" if e: "eligible L p i t algo" for i t algo
  proof -
    let ?s = "estimate L p i t algo"
    have s: "Id_GetSolver (l_reg L) (?i ?s) = Some t"
      using e GetSolver_value [of "l_reg L" i t] by (simp add: eligible_def estimate_def)
    then have l: "listed L p ?s" using e by (simp add: listed_def eligible_def) (simp add: estimate_def)
    with usable [OF l] s show ?thesis by (auto simp: estimate_def)
  qed
  from assms(1) show ?thesis
  proof (cases rule: GetConvSolutions_cases)
    case (database r interim)
    have "listed L p s" if "s \<in> set sols" for s
      using solutions_loop_listed [OF database(3)] in_set_takeD [of s n] that database(4) by fastforce
    with usable database(1,4) show ?thesis by (fastforce simp: listed_def)
  next
    case (estimates interim)
    have "\<exists>i t algo. s = estimate L p i t algo \<and> eligible L p i t algo" if "s \<in> set sols" for s
      using fallback_loop_set [OF estimates(3)] in_set_takeD [of s n] that estimates(4) by fastforce
    with usable known estimates(4) show ?thesis by (fastforce simp: listed_def)
  next
    case nothing
    then show ?thesis by simp
  qed
qed

section \<open>The best estimates\<close>

text \<open>The registry knows the algorithm of every solver that it lists.\<close>

lemma listed_ids_known:
  assumes "lib_ok L" "i \<in> set (GetSolversByPrimitive (l_reg L) prim)"
  shows "\<exists>algo. Id_GetAlgo (l_reg L) i = Inr algo"
proof -
  have d: "distinct (registered_names (l_names L) registrations)" using assms(1) by (simp add: lib_ok_def)
  note maps = IdRegistry_maps [OF d, of "\<lambda>t. t", folded l_reg_def]
  obtain v r where v: "(v, r) \<in> set (enumerate (Suc 0) registrations)" "i = \<lparr>id_value = v, is_valid = True\<rparr>"
      "map_option entry_primitive (entry_of (l_names L) (\<lambda>t. t) r) = Some prim"
    using assms(2) by (auto simp: maps ids_of_def split: if_split_asm)
  then have "entries_of (l_names L) (\<lambda>t. t) 0 registrations v \<noteq> None"
    by (auto simp: entries_of_nth in_set_enumerate_eq)
  with v(2) show ?thesis by (auto simp: Id_GetAlgo_def maps)
qed

lemma fallback_loop_returns:
  "\<forall>i \<in> set ids. \<exists>algo. Id_GetAlgo (l_reg L) i = Inr algo \<Longrightarrow> \<exists>r. fallback_loop L p ids interim = Inr r"
  by (induction ids arbitrary: interim) (auto simp: Let_def split: option.split sum.split)

lemma take_in_order:
  assumes "in_order lt ys" "x \<in> set ys" "x \<notin> set (take n ys)"
  shows "length (take n ys) = n \<and> (\<forall>s \<in> set (take n ys). \<not> lt x s)"
proof -
  have "x \<in> set (drop n ys)" using assms(2,3) by (metis Un_iff append_take_drop_id set_append)
  moreover from this have "n \<le> length ys" by (cases "n \<le> length ys") simp_all
  moreover have "\<forall>s \<in> set (take n ys). \<forall>y \<in> set (drop n ys). \<not> lt y s"
    using assms(1) sorted_wrt_append [of "\<lambda>x y. \<not> lt y x" "take n ys" "drop n ys"] by (simp add: in_order_def)
  ultimately show ?thesis by simp
qed

text \<open>C32: Without a find database entry the immediate mode estimates, and returns the best estimates in order. With
  the fallback enabled and group counts that are valid, \<open>GetSolutionsFallback\<close> succeeds, its list is
  sorted by estimated time, every solution on it is a dynamic, applicable, enabled solver with a known weight, and
  a solver of this kind that is not on the list is not faster than any that is on it, and the list is as long as
  was asked for.\<close>

theorem estimates_best:
  assumes "lib_ok L" "\<not> l_no_fallback L"
    and "ValidateGroupCount (if direction p = Forward then p_in p else p_out p) (p_weights p) (p_conv p) = Inr ()"
    and "weak_order_on UNIV (l_lt L)" "\<And>a b. l_le L a b \<longleftrightarrow> \<not> l_lt L b a"
    and "\<And>x. l_lt L (l_zero L) x \<Longrightarrow> \<not> l_lt L (l_ten_over L x) (l_zero L)"
  shows "\<exists>sols. GetSolutionsFallback L p n = Inr sols \<and> length sols \<le> n
    \<and> in_order (\<lambda>a b. l_lt L (imm_time a) (imm_time b)) sols
    \<and> (\<forall>s \<in> set sols. \<exists>i t algo. i \<in> set (GetSolversByPrimitive (l_reg L) Solver_Registry.Convolution)
         \<and> eligible L p i t algo \<and> s = estimate L p i t algo)
    \<and> (\<forall>i \<in> set (GetSolversByPrimitive (l_reg L) Solver_Registry.Convolution). \<forall>t algo. eligible L p i t algo \<longrightarrow>
         estimate L p i t algo \<in> set sols
         \<or> length sols = n \<and> (\<forall>s \<in> set sols. \<not> l_lt L (wti2time L (l_wti L p t)) (imm_time s)))"
proof -
  let ?ids = "GetSolversByPrimitive (l_reg L) Solver_Registry.Convolution"
  obtain r where r: "fallback_loop L p ?ids [] = Inr r"
    using fallback_loop_returns listed_ids_known [OF assms(1)] by blast
  have set: "set r = {estimate L p i t algo | i t algo. i \<in> set ?ids \<and> eligible L p i t algo}"
    using fallback_loop_set [OF r] by simp
  have time: "\<not> l_lt L (wti2time L w) (l_zero L)" if "\<not> l_lt L w (l_zero L)" for w
    using that assms(6) [of w] by (cases "l_lt L (l_zero L) w") (simp_all add: wti2time_def assms(5))
  have nonneg: "\<forall>s \<in> set r. \<not> l_lt L (imm_time s) (l_zero L)"
    by (clarsimp simp: set estimate_def eligible_def time)
  note less = solution_less_times [OF assms(4) nonneg]
  let ?ys = "std_sort (solution_less L) r" and ?lt = "\<lambda>a b. l_lt L (imm_time a) (imm_time b)"
  have "in_order (solution_less L) ?ys" by (rule std_sort_in_order [OF less(2)])
  then have sorted: "in_order ?lt ?ys"
    unfolding in_order_def by (rule sorted_wrt_mono_rel [rotated]) (simp add: less(1))
  have "GetSolutionsFallback L p n = Inr (take n ?ys)" using assms(2,3) r by (simp add: GetSolutionsFallback_def)
  moreover have "in_order ?lt (take n ?ys)" using sorted by (simp add: in_order_def sorted_wrt_take)
  moreover have "\<exists>i t algo. i \<in> set ?ids \<and> eligible L p i t algo \<and> s = estimate L p i t algo" if "s \<in> set (take n ?ys)" for s
    using in_set_takeD [OF that] set by auto
  moreover have "estimate L p i t algo \<in> set (take n ?ys)
      \<or> length (take n ?ys) = n \<and> (\<forall>s \<in> set (take n ?ys). \<not> l_lt L (wti2time L (l_wti L p t)) (imm_time s))"
    if "i \<in> set ?ids" "eligible L p i t algo" for i t algo
  proof -
    have "estimate L p i t algo \<in> set ?ys" using that set by auto
    from take_in_order [OF sorted this] show ?thesis by (auto simp: estimate_def)
  qed
  ultimately show ?thesis by (intro exI [of _ "take n ?ys"] conjI ballI allI impI) (assumption | blast | simp)+
qed

lemma registered_listed:
  assumes "lib_ok L" "WithSolver t algo \<in> set registrations"
  defines "i \<equiv> Id_of_str (l_reg L) (SolverDbId_of (l_names L) t)"
  shows "i \<in> set (GetSolversByPrimitive (l_reg L) Solver_Registry.Convolution)" "Id_GetAlgo (l_reg L) i = Inr algo"
    "Id_GetSolver (l_reg L) i = Some t"
proof -
  have d: "distinct (registered_names (l_names L) registrations)" using assms(1) by (simp add: lib_ok_def)
  note known = IdRegistry_with_solver [OF d assms(2), of "\<lambda>t. t", folded l_reg_def, folded i_def]
  show "Id_GetAlgo (l_reg L) i = Inr algo" "Id_GetSolver (l_reg L) i = Some t" using known by simp_all
  note maps = IdRegistry_maps [OF d, of "\<lambda>t. t", folded l_reg_def]
  let ?v = "id_value i"
  obtain e where e: "entries_of (l_names L) (\<lambda>t. t) 0 registrations ?v = Some e" "entry_primitive e = Solver_Registry.Convolution"
    using known(5) by (auto simp: Id_GetPrimitive_def maps split: option.splits)
  then have v: "0 < ?v" "?v \<le> length registrations" "entry_of (l_names L) (\<lambda>t. t) (registrations ! (?v - 1)) = Some e"
    by (simp_all add: entries_of_nth split: if_split_asm)
  then have "(?v, registrations ! (?v - 1)) \<in> set (enumerate (Suc 0) registrations)" by (simp add: in_set_enumerate_eq)
  moreover have "i = \<lparr>id_value = ?v, is_valid = True\<rparr>" using known(1) by simp
  ultimately show "i \<in> set (GetSolversByPrimitive (l_reg L) Solver_Registry.Convolution)"
    using v(3) e(2) by (force simp: maps ids_of_def)
qed

lemma example_eligible: "\<exists>i. i \<in> set (GetSolversByPrimitive (l_reg example_lib) Solver_Registry.Convolution)
  \<and> eligible example_lib p i ''GemmFwdRest'' Algo_GEMM"
proof -
  have "WithSolver ''GemmFwdRest'' Algo_GEMM \<in> set registrations"
    using GetGemmSolvers_registered by (simp add: GetGemmSolvers_def)
  note r = registered_listed [OF example_lib_ok this]
  have "eligible example_lib p (Id_of_str (l_reg example_lib) (SolverDbId_of (l_names example_lib) ''GemmFwdRest'')) ''GemmFwdRest'' Algo_GEMM"
    using r(2,3) by (simp add: eligible_def) (simp add: example_lib_def example_solvers_def IsAlgorithmDisabled_def example_switches_def)
  with r(1) show ?thesis by blast
qed

lemma example_estimate: "eligible example_lib p i t algo \<Longrightarrow> workspace_size (estimate example_lib p i t algo) = 64
  \<and> imm_time (estimate example_lib p i t algo) = 10"
  by (simp add: estimate_def example_lib_def example_solvers_def wti2time_def)

theorem estimates_best_witness:
  "\<exists>p sols. problem_of_tensors Forward (c_x example_tensors) (c_w example_tensors) (c_y example_tensors) example_conv = Inr p
     \<and> GetSolutionsFallback example_lib p 4 = Inr sols \<and> sols \<noteq> [] \<and> (\<forall>s \<in> set sols. imm_time s = 10)"
proof -
  obtain p where p: "problem_of_tensors Forward (c_x example_tensors) (c_w example_tensors) (c_y example_tensors) example_conv = Inr p"
      "ValidateGroupCount (p_in p) (p_weights p) (p_conv p) = Inr ()" "direction p = Forward"
    by (rule example_problem_ok) (rule that)
  have order: "weak_order_on UNIV (l_lt example_lib)" "l_le example_lib a b \<longleftrightarrow> \<not> l_lt example_lib b a"
    "\<not> l_lt example_lib (l_ten_over example_lib x) (l_zero example_lib)" "\<not> l_no_fallback example_lib" for a b x
    by (auto simp: example_lib_def weak_order_on_def)
  obtain i where i: "i \<in> set (GetSolversByPrimitive (l_reg example_lib) Solver_Registry.Convolution)"
      "eligible example_lib p i ''GemmFwdRest'' Algo_GEMM" using example_eligible by blast
  have "ValidateGroupCount (if direction p = Forward then p_in p else p_out p) (p_weights p) (p_conv p) = Inr ()" using p(2,3) by simp
  from estimates_best [OF example_lib_ok order(4) this order(1,2,3), of 4] obtain sols where
    all: "GetSolutionsFallback example_lib p 4 = Inr sols"
      "\<forall>s \<in> set sols. \<exists>i t algo. i \<in> set (GetSolversByPrimitive (l_reg example_lib) Solver_Registry.Convolution)
         \<and> eligible example_lib p i t algo \<and> s = estimate example_lib p i t algo"
      "\<forall>i \<in> set (GetSolversByPrimitive (l_reg example_lib) Solver_Registry.Convolution). \<forall>t algo.
         eligible example_lib p i t algo \<longrightarrow> estimate example_lib p i t algo \<in> set sols \<or> length sols = 4
           \<and> (\<forall>s \<in> set sols. \<not> l_lt example_lib (wti2time example_lib (l_wti example_lib p t)) (imm_time s))" by blast
  have sols: "\<forall>s \<in> set sols. \<exists>i t algo. eligible example_lib p i t algo \<and> s = estimate example_lib p i t algo" using all(2) by blast
  have "estimate example_lib p i ''GemmFwdRest'' Algo_GEMM \<in> set sols \<or> length sols = 4" using all(3) i by blast
  then have "sols \<noteq> []" by auto
  moreover have "\<forall>s \<in> set sols. imm_time s = 10" using sols by (metis example_estimate)
  ultimately show ?thesis using p(1) all(1) by blast
qed

lemma example_fallback:
  assumes "ValidateGroupCount (p_in p) (p_weights p) (p_conv p) = Inr ()" "direction p = Forward"
  shows "\<exists>sols. GetSolutionsFallback example_lib p 4 = Inr sols \<and> sols \<noteq> [] \<and> (\<forall>s \<in> set sols. workspace_size s = 64)"
proof -
  let ?ids = "GetSolversByPrimitive (l_reg example_lib) Solver_Registry.Convolution"
  obtain r where r: "fallback_loop example_lib p ?ids [] = Inr r"
    using fallback_loop_returns listed_ids_known [OF example_lib_ok] by blast
  have set: "set r = {estimate example_lib p i t algo | i t algo. i \<in> set ?ids \<and> eligible example_lib p i t algo}"
    using fallback_loop_set [OF r] by simp
  obtain i where i: "i \<in> set ?ids" "eligible example_lib p i ''GemmFwdRest'' Algo_GEMM" using example_eligible by blast
  have size: "\<forall>s \<in> set r. workspace_size s = 64" unfolding set by (clarsimp simp: example_estimate)
  have "estimate example_lib p i ''GemmFwdRest'' Algo_GEMM \<in> set r" unfolding set using i by blast
  then have ne: "r \<noteq> []" by auto
  let ?sols = "take 4 (std_sort (solution_less example_lib) r)"
  have "\<forall>s \<in> set ?sols. workspace_size s = 64" using size by (auto dest: in_set_takeD)
  moreover have "?sols \<noteq> []" using ne by (simp add: take_eq_Nil)
  moreover have "GetSolutionsFallback example_lib p 4 = Inr (take 4 (std_sort (solution_less example_lib) r))"
    using assms r by (simp add: GetSolutionsFallback_def) (simp add: example_lib_def)
  ultimately show ?thesis by blast
qed

theorem listed_solutions_usable_witness:
  "\<exists>p sols. GetConvSolutions example_lib (Inr p) StringToConvolutionFwdAlgo 4 False False example_host = Some (example_host, Inr (sols, True))
     \<and> sols \<noteq> [] \<and> length sols \<le> 4
     \<and> (\<forall>s \<in> set sols. ConvSolutionWorkspaceSize example_lib (Inr p) (Id_of_value (l_reg example_lib) (solution_id s)) = Some (Inr 64))"
proof -
  obtain p where "problem_of_tensors Forward (c_x example_tensors) (c_w example_tensors) (c_y example_tensors) example_conv = Inr p"
    and p: "ValidateGroupCount (p_in p) (p_weights p) (p_conv p) = Inr ()" "direction p = Forward"
    by (rule example_problem_ok) (rule that)
  obtain sols where sols: "GetSolutionsFallback example_lib p 4 = Inr sols" "sols \<noteq> []" "\<forall>s \<in> set sols. workspace_size s = 64"
    using example_fallback [OF p] by blast
  have "\<not> l_find_enabled example_lib" by (simp add: example_lib_def)
  then have run: "GetConvSolutions example_lib (Inr p) StringToConvolutionFwdAlgo 4 False False example_host
      = Some (example_host, Inr (sols, True))"
    using sols(1) by (simp add: GetConvSolutions_def GetSolutions_def find_record_def)
  have "l_may_need example_lib t" for t by (simp add: example_lib_def)
  with listed_solutions_usable [OF run] sols(3) have "length sols \<le> 4" "\<forall>s \<in> set sols.
      ConvSolutionWorkspaceSize example_lib (Inr p) (Id_of_value (l_reg example_lib) (solution_id s)) = Some (Inr 64)"
    by auto
  with run sols(2) show ?thesis by blast
qed

end
