(* ===== verification/Conv_Again.thy ===== *)
theory Conv_Again
  imports Conv_Find
begin

text \<open>
  A find call answered by the find database: what a find has measured and recorded, the next find of the
  same problem gives back without measuring anything.
\<close>

section \<open>What solutions look like\<close>

text \<open>What is assumed of the solvers and of the text of floats: solver names are words, workspaces fit
  \<open>size_t\<close>, and reading a written float and writing it again gives the same text (the stream writes six digits,
  which a \<open>float\<close> keeps; the float itself may have been rounded).\<close>

definition conv_types :: "string list" where
  "conv_types = GetGemmSolvers @ GetDirectSolvers @ GetImplicitGemmSolvers @ GetWindogradSolvers @ GetFFTSolvers
     @ GetBwdWrW2DSolvers @ GetWindogradWrWSolvers @ GetImplicitGemmWrWSolvers"

definition lib_writes :: "('c, 'p, 'i, 'd, 'u, 'g, 'f) lib \<Rightarrow> bool" where
  "lib_writes L \<longleftrightarrow> (\<forall>t \<in> set conv_types. word_ok (SolverDbId_of (l_names L) t))
     \<and> (\<forall>p ctx t sol. yields (l_solvers L p ctx t) sol \<longrightarrow> sol_workspace sol < 2 ^ 64)
     \<and> (\<forall>t. io_show (l_io L) (io_read (l_io L) (io_show (l_io L) t)) = io_show (l_io L) t \<and> io_show (l_io L) t \<noteq> []
          \<and> CHR '','' \<notin> set (io_show (l_io L) t) \<and> values_ok (io_show (l_io L) t))
     \<and> hash_order (io_ord (l_io L))"

definition writable :: "('p, 'i) solution list \<Rightarrow> bool" where
  "writable sols \<longleftrightarrow> (\<forall>x \<in> set sols. word_ok (fst x) \<and> sol_workspace (snd x) < 2 ^ 64)"

lemma writable_Nil [simp]: "writable []"
  by (simp add: writable_def)

lemma SearchForAllSolutions_origin:
  "SearchForAllSolutions ctx db succeeded limit solvers ss d = (d', Inr sols) \<Longrightarrow> x \<in> set sols \<Longrightarrow>
   x \<in> set ss \<or> (\<exists>s \<in> set solvers. fst x = SolverDbId s \<and> yields s (snd x))"
proof (induction solvers arbitrary: ss d)
  case (Cons s rest)
  show ?case
  proof (cases "length ss < limit \<and> usable ctx s")
    case False
    then have "SearchForAllSolutions ctx db succeeded limit rest ss d = (d', Inr sols)"
      using Cons.prems(1) by (auto simp: usable_def split: if_splits)
    from Cons.IH [OF this Cons.prems(2)] show ?thesis by auto
  next
    case True
    then obtain d1 sol where f: "FindSolution ctx db s d = (d1, Inr sol)"
      and rec: "SearchForAllSolutions ctx db succeeded limit rest (if succeeded (snd sol) then ss @ [sol] else ss) d1
        = (d', Inr sols)"
      using Cons.prems(1) by (auto simp: usable_def split: prod.splits sum.splits)
    from Cons.IH [OF rec Cons.prems(2)] FindSolution_yields [OF f] show ?thesis by (auto split: if_splits)
  qed
qed simp

lemma search_all_writable:
  assumes "lib_ok L" "lib_writes L" "search_all (l_solvers L p) db limit ts ctx d = (d', Inr sols)"
    and "set ts \<subseteq> set conv_types"
  shows "writable sols"
  unfolding writable_def
proof
  fix x
  assume "x \<in> set sols"
  then obtain t where "t \<in> set ts" "fst x = SolverDbId (l_solvers L p ctx t)" "yields (l_solvers L p ctx t) (snd x)"
    using SearchForAllSolutions_origin [OF assms(3) [unfolded search_all_def]] by fastforce
  with assms(1,2,4) show "word_ok (fst x) \<and> sol_workspace (snd x) < 2 ^ 64" by (auto simp: lib_ok_def lib_writes_def)
qed

lemma or_nothing_writable:
  assumes "lib_ok L" "lib_writes L" "or_nothing (search_all (l_solvers L p) db limit ts ctx d) = (d', sols)"
    and "set ts \<subseteq> set conv_types"
  shows "writable sols"
  using assms(3) search_all_writable [OF assms(1,2) _ assms(4)] by (auto simp: or_nothing_def split: prod.splits sum.splits)

lemma Find_writable:
  assumes "lib_ok L" "lib_writes L"
  shows "FindWinogradSolutions sw (l_solvers L p) db ctx d = (d', sols) \<Longrightarrow> writable sols"
    "FindDataGemmSolutions sw (l_solvers L p) db ctx d = (d', sols) \<Longrightarrow> writable sols"
    "FindDataDirectSolutions sw (l_solvers L p) db ctx dynamic exhaustiveSearch d = (d', sols) \<Longrightarrow> writable sols"
    "FindDataImplicitGemmSolutions sw (l_solvers L p) db ctx dynamic exhaustiveSearch d = (d', sols) \<Longrightarrow> writable sols"
    "FindFftSolutions sw (l_solvers L p) db ctx d = (d', sols) \<Longrightarrow> writable sols"
  by (auto simp: FindWinogradSolutions_def FindDataGemmSolutions_def FindDataDirectSolutions_def
      FindDataImplicitGemmSolutions_def FindFftSolutions_def FindAllWinogradSolutions_def FindAllGemmSolutions_def
      FindAllDirectSolutions_def FindAllImplicitGemmSolutions_def FindAllFFTSolutions_def conv_types_def split: if_splits
      intro: or_nothing_writable [OF assms])

lemma FindDataSolutions_writable:
  assumes "lib_ok L" "lib_writes L"
    and "FindDataSolutions sw (l_solvers L p) db ctx dynamic exhaustiveSearch only d = (d', fs)"
  shows "writable (s_gemm fs) \<and> writable (s_winograd fs) \<and> writable (s_direct fs) \<and> writable (s_igemm fs) \<and> writable (s_fft fs)"
  using assms(3) by (cases only) (auto simp: FindDataSolutions_def split: prod.splits intro: Find_writable [OF assms(1,2)])

lemma FindWrwSolutions_writable:
  assumes "lib_ok L" "lib_writes L" "FindWrwSolutions sw (l_solvers L p) db ctx d = (d', Inr fs)"
  shows "writable (w_gemm fs) \<and> writable (w_winograd fs) \<and> writable (w_direct fs) \<and> writable (w_igemm fs)"
  using assms(3)
  by (auto simp: FindWrwSolutions_def FindAllGemmSolutions_def FindAllBwdWrW2DSolutions_def FindWinogradWrWAllSolutions_def
      FindImplicitGemmWrWAllSolutions_def conv_types_def split: prod.splits if_splits sum.splits
      intro: search_all_writable [OF assms(1,2)])

section \<open>What is recorded is built\<close>

text \<open>Every entry of the record is the text of an entry whose solver has an invoker for the problem.\<close>

definition entry_ok :: "('c, 'p, 'i, 'd, 'u, 'g, 'f) lib \<Rightarrow> 'i invoker_cache \<Rightarrow> string \<Rightarrow> string \<Rightarrow> string \<Rightarrow> bool" where
  "entry_ok L ic config name txt \<longleftrightarrow> CheckInvokerSupport name
     \<and> (\<exists>d. txt = FindDbData_Serialize (io_show (l_io L)) d \<and> find_data_ok (io_show (l_io L)) (io_read (l_io L)) d
          \<and> InvokerCache_get ic (config, fd_solver_id d) \<noteq> None
          \<and> Id_GetAlgo_dir (l_reg L) (Id_of_str (l_reg L) (fd_solver_id d)) (config_direction config) = Inr name)"

definition record_ok :: "('c, 'p, 'i, 'd, 'u, 'g, 'f) lib \<Rightarrow> ('p, 'i, 'd, 'u, 'g) host \<Rightarrow> string \<Rightarrow> db_record \<Rightarrow> bool" where
  "record_ok L h config r \<longleftrightarrow> rec_wf r
     \<and> (\<forall>name txt. rec_lookup r name = Some txt \<longrightarrow> entry_ok L (h_invokers h) config name txt)"

definition more_invokers :: "('p, 'i, 'd, 'u, 'g) host \<Rightarrow> ('p, 'i, 'd, 'u, 'g) host \<Rightarrow> bool" where
  "more_invokers h h' \<longleftrightarrow> (\<forall>key. InvokerCache_get (h_invokers h) key \<noteq> None \<longrightarrow> InvokerCache_get (h_invokers h') key \<noteq> None)"

lemma record_ok_mono: "record_ok L h config r \<Longrightarrow> more_invokers h h' \<Longrightarrow> record_ok L h' config r"
  unfolding record_ok_def entry_ok_def more_invokers_def by blast

lemma record_ok_empty [simp]: "record_ok L h config (DbRecord_of_key key)"
  by (simp add: record_ok_def) (simp add: DbRecord_of_key_def)

lemma record_ok_update:
  assumes "record_ok L h config r" "entry_ok L (h_invokers h) config name (write d)" "id_ok name" "values_ok (write d)"
  shows "record_ok L h config (fst (DbRecord_SetValuesT write r name d))"
  using assms by (auto simp: record_ok_def DbRecord_SetValuesT_def rec_wf_SetValues)

lemma directional_name_ok:
  "word_ok (ConvolutionAlgoToDirectionalString algo dir)" "id_ok (ConvolutionAlgoToDirectionalString algo dir)"
  by (cases dir; cases algo; simp add: ConvolutionAlgoToDirectionalString_def word_ok_def is_space_def values_ok_def id_ok_def)+

lemma unused_ok: "word_ok unused_config"
  by (simp add: unused_config_def word_ok_def is_space_def values_ok_def)

lemma EvaluateInvokers_record:
  assumes "EvaluateInvokers L sols (ConvolutionAlgoToDirectionalString algo dir) config ip h r = (h', r', e)"
    and "of_algo L dir algo sols" "writable sols" "config_direction config = dir" "lib_writes L"
    and "CheckInvokerSupport (ConvolutionAlgoToDirectionalString algo dir)"
  shows "more_invokers h h' \<and> h_find_db h' = h_find_db h \<and> kernel_map (h_kernels h') = kernel_map (h_kernels h)
    \<and> rec_key r' = rec_key r \<and> (record_ok L h config r \<longrightarrow> record_ok L h' config r')"
proof (cases "l_arch L")
  case True
  with assms(1) show ?thesis by (simp add: EvaluateInvokers_def more_invokers_def)
next
  case False
  let ?a = "ConvolutionAlgoToDirectionalString algo dir"
  obtain h1 q where q: "evaluate_loop L ip sols \<lparr>sel_best = l_max L, sel_choice = None\<rparr> h = (h1, q)" by fastforce
  note k = evaluate_loop_keeps [OF q]
  then have same: "h_invokers h1 = h_invokers h" "h_find_db h1 = h_find_db h" "kernel_map (h_kernels h1) = kernel_map (h_kernels h)"
    by (simp_all add: same_host_def)
  show ?thesis
  proof (cases "\<exists>s sol i. q = Inr s \<and> sel_choice s = Some (sol, i) \<and> sol_ok (snd sol)")
    case none: False
    then have "h' = h1 \<and> r' = r"
      using assms(1) False q by (auto simp: EvaluateInvokers_def split: sum.splits option.splits if_splits)
    with same show ?thesis by (simp add: more_invokers_def record_ok_def)
  next
    case True
    then obtain s sol i where s: "q = Inr s" "sel_choice s = Some (sol, i)" "sol_ok (snd sol)" by blast
    have mem: "sol \<in> set sols" using k s by (cases sol) auto
    obtain ic where reg: "Handle_RegisterInvoker h1 i config (fst sol) ?a = (h1\<lparr>h_invokers := ic\<rparr>, Inr ())"
      and get: "\<And>key. InvokerCache_get ic key =
        (if key = (config, fst sol) \<and> InvokerCache_get (h_invokers h1) key = None then Some i
         else InvokerCache_get (h_invokers h1) key)"
      by (rule Handle_RegisterInvoker_spec [of h1 i config "fst sol" ?a]) (rule that)
    let ?d = "\<lparr>fd_solver_id = fst sol, fd_time = sel_best s, fd_workspace = sol_workspace (snd sol),
      fd_kcache_key = \<lparr>algorithm_name = ?a, network_config = unused_config\<rparr>\<rparr>"
    have ne: "?a \<noteq> []" using directional_name_ok(1) by (auto simp: word_ok_def)
    have out: "h' = h1\<lparr>h_invokers := ic\<rparr> \<and> r' = fst (DbRecord_SetValuesT (FindDbData_Serialize (io_show (l_io L))) r ?a ?d)"
      using assms(1) False q s reg ne
      by (simp add: EvaluateInvokers_def MakeUnused_def FindDbKCacheKey_def FindDbData_def kcache_IsValid_def unused_config_def Let_def)
    have more: "more_invokers h h'" using out get same by (auto simp: more_invokers_def)
    let ?t = "io_read (l_io L) (io_show (l_io L) (sel_best s))" and ?w = "FindDbData_Serialize (io_show (l_io L))"
    have d: "find_data_ok (io_show (l_io L)) (io_read (l_io L)) (?d\<lparr>fd_time := ?t\<rparr>)"
      using assms(3,5) mem directional_name_ok(1) unused_ok
      by (simp add: find_data_ok_def writable_def lib_writes_def)
    have same_text: "?w (?d\<lparr>fd_time := ?t\<rparr>) = ?w ?d"
      using assms(5) by (simp add: FindDbData_Serialize_def SerDes_Serialize_join FindDbData_Visit_def lib_writes_def)
    have "InvokerCache_get ic (config, fst sol) \<noteq> None" using get [of "(config, fst sol)"] by (auto split: if_split_asm)
    with d assms(2,4,6) mem have entry: "entry_ok L (h_invokers h') config ?a (FindDbData_Serialize (io_show (l_io L)) ?d)"
      using out same_text by (auto simp: entry_ok_def of_algo_def intro!: exI [of _ "?d\<lparr>fd_time := ?t\<rparr>"])
    have "record_ok L h' config r'" if "record_ok L h config r"
      unfolding out [THEN conjunct2]
      by (rule record_ok_update, rule record_ok_mono [OF that more], rule entry, rule directional_name_ok(2),
          rule find_codec.ser_clean [OF d, unfolded same_text])
    with more out same show ?thesis by (simp add: DbRecord_SetValuesT_def DbRecord_SetValues_def)
  qed
qed

text \<open>What a step of the find does: more invokers, the same kernels, an entry more at most.\<close>

definition records :: "('c, 'p, 'i, 'd, 'u, 'g, 'f) lib \<Rightarrow> string \<Rightarrow> ('p, 'i, 'd, 'u, 'g) host \<Rightarrow> db_record
    \<Rightarrow> ('p, 'i, 'd, 'u, 'g) host \<Rightarrow> db_record \<Rightarrow> bool" where
  "records L config h r h' r' \<longleftrightarrow> more_invokers h h' \<and> h_find_db h' = h_find_db h \<and> kernel_map (h_kernels h') = kernel_map (h_kernels h)
     \<and> rec_key r' = rec_key r \<and> (record_ok L h config r \<longrightarrow> record_ok L h' config r')"

lemma records_refl [simp]: "records L config h r h r"
  by (simp add: records_def more_invokers_def)

lemma records_trans: "records L config h r h' r' \<Longrightarrow> records L config h' r' h'' r'' \<Longrightarrow> records L config h r h'' r''"
  unfolding records_def more_invokers_def by auto

lemma records_kernels [simp]:
  "kernel_map kc = kernel_map (h_kernels h) \<Longrightarrow> records L config h r (h\<lparr>h_kernels := kc\<rparr>) r"
  "records L config (h\<lparr>h_perf_db := d\<rparr>) r h' r' = records L config h r h' r'"
  "records L config h r (h'\<lparr>h_perf_db := d\<rparr>) r' = records L config h r h' r'"
  by (auto simp: records_def more_invokers_def record_ok_def)

text \<open>The solutions of the algorithms that a find measures.\<close>

definition measurable ::
  "('c, 'p, 'i, 'd, 'u, 'g, 'f) lib \<Rightarrow> direction \<Rightarrow> (string \<times> ('p, 'i) solution list) list \<Rightarrow> bool" where
  "measurable L dir sols \<longleftrightarrow> (\<forall>(name, xs) \<in> set sols. \<exists>algo. name = ConvolutionAlgoToDirectionalString algo dir
     \<and> of_algo L dir algo xs \<and> writable xs \<and> CheckInvokerSupport name)"

lemma measurable_Nil: "measurable L dir []"
  by (simp add: measurable_def)

lemma measurable_Cons:
  "of_algo L dir algo xs \<Longrightarrow> writable xs \<Longrightarrow> \<not> (dir = BackwardWeights \<and> algo = Algo_FFT) \<Longrightarrow> measurable L dir rest \<Longrightarrow>
   measurable L dir ((ConvolutionAlgoToDirectionalString algo dir, xs) # rest)"
  using directional_invokers by (auto simp: measurable_def)

lemma evaluate_all_records:
  assumes "evaluate_all L config ip sols h r = (h', r', e)" "measurable L dir sols"
    and "config_direction config = dir" "lib_writes L"
  shows "records L config h r h' r'"
  using assms(1,2)
proof (induction sols arbitrary: h r)
  case (Cons x rest)
  obtain name xs where x: "x = (name, xs)" by (cases x)
  obtain h1 r1 e1 where e: "EvaluateInvokers L xs name config ip h r = (h1, r1, e1)" by (metis prod_cases3)
  from Cons.prems(2) obtain algo where a: "name = ConvolutionAlgoToDirectionalString algo dir" "of_algo L dir algo xs"
      "writable xs" "CheckInvokerSupport name" and rest: "measurable L dir rest"
    by (auto simp: x measurable_def)
  have one: "records L config h r h1 r1"
    using EvaluateInvokers_record [OF e [unfolded a(1)] a(2,3) assms(3,4) a(4) [unfolded a(1)]] by (simp add: records_def)
  show ?case
  proof (cases e1)
    case (Some ex)
    with Cons.prems(1) e one show ?thesis by (simp add: x)
  next
    case None
    then have "evaluate_all L config ip rest h1 r1 = (h', r', e)" using Cons.prems(1) e by (simp add: x)
    from records_trans [OF one Cons.IH [OF this rest]] show ?thesis .
  qed
qed simp

lemma compile_and_evaluate_records:
  assumes "compile_and_evaluate L config ip sols h r = Some (h', r', e)" "measurable L dir sols"
    and "config_direction config = dir" "lib_writes L"
  shows "records L config h r h' r'"
proof -
  obtain kc q where q: "PrecompileSolutions L (map snd (concat (map snd sols))) (h_kernels h) = Some (kc, q)"
    using assms(1) by (auto simp: compile_and_evaluate_def split: option.splits)
  then have kc: "records L config h r (h\<lparr>h_kernels := kc\<rparr>) r" by (auto dest: PrecompileSolutions_keeps)
  show ?thesis
  proof (cases q)
    case (Inl ex)
    with assms(1) q kc show ?thesis by (auto simp: compile_and_evaluate_def)
  next
    case (Inr u)
    then have "evaluate_all L config ip sols (h\<lparr>h_kernels := kc\<rparr>) r = (h', r', e)"
      using assms(1) q by (simp add: compile_and_evaluate_def)
    from records_trans [OF kc evaluate_all_records [OF this assms(2-4)]] show ?thesis .
  qed
qed

definition core_records ::
  "('c, 'p, 'i, 'd, 'u, 'g, 'f) lib \<Rightarrow> string
    \<Rightarrow> (('p, 'i, 'd, 'u, 'g) host \<Rightarrow> db_record \<Rightarrow> (('p, 'i, 'd, 'u, 'g) host \<times> db_record \<times> exn option) option) \<Rightarrow> bool" where
  "core_records L config core \<longleftrightarrow> (\<forall>h r h' r' e. core h r = Some (h', r', e) \<longrightarrow> records L config h r h' r')"

lemma data_find_core_records:
  assumes "lib_ok L" "lib_writes L" "direction p = dir" "dir \<noteq> BackwardWeights"
  shows "core_records L (BuildConfKey p) (data_find_core L p dir ip exhaustiveSearch only)"
  unfolding core_records_def
proof (intro allI impI)
  fix h r h' r' e
  assume run: "data_find_core L p dir ip exhaustiveSearch only h r = Some (h', r', e)"
  obtain d fs where f: "FindDataSolutions (l_switches L) (l_solvers L p) (l_perf_db L p) (find_context_of L)
      (FindMode_IsDynamicHybrid (l_mode L) (l_enforce L) False) exhaustiveSearch only (h_perf_db h) = (d, fs)"
    by (meson surj_pair)
  have cd: "config_direction (BuildConfKey p) = dir" using assms(3) by simp
  have m: "measurable L dir
      [(ConvolutionAlgoToDirectionalString Algo_GEMM dir, s_gemm fs),
       (ConvolutionAlgoToDirectionalString Algo_Winograd dir, s_winograd fs),
       (ConvolutionAlgoToDirectionalString Algo_Direct dir, s_direct fs),
       (ConvolutionAlgoToDirectionalString Algo_ImplicitGEMM dir, s_igemm fs),
       (ConvolutionAlgoToDirectionalString Algo_FFT dir, s_fft fs)]"
    by (intro measurable_Cons measurable_Nil)
      (use FindDataSolutions_algo [OF assms(1) f, of dir] FindDataSolutions_writable [OF assms(1,2) f] assms(4) in simp_all)
  have "records L (BuildConfKey p) (h\<lparr>h_perf_db := d\<rparr>) r h' r'"
    by (rule compile_and_evaluate_records [OF _ m cd assms(2)]) (use run f in \<open>simp add: data_find_core_def\<close>)
  then show "records L (BuildConfKey p) h r h' r'" by simp
qed

lemma DirConvFindCore_records:
  assumes "lib_ok L" "lib_writes L" "direction p = Forward"
  shows "core_records L (BuildConfKey p) (DirConvFindCore L x w c p ip exhaustiveSearch only)"
proof -
  have "core_records L (BuildConfKey p) (data_find_core L p Forward ip exhaustiveSearch only)"
    by (rule data_find_core_records [OF assms]) simp
  then show ?thesis by (auto simp: core_records_def DirConvFindCore_def split: sum.splits)
qed

lemma wrw_find_core_records:
  assumes "lib_ok L" "lib_writes L" "direction p = BackwardWeights"
  shows "core_records L (BuildConfKey p) (wrw_find_core L p ip exhaustiveSearch)"
  unfolding core_records_def
proof (intro allI impI)
  fix h r h' r' e
  assume run: "wrw_find_core L p ip exhaustiveSearch h r = Some (h', r', e)"
  obtain d q where f: "FindWrwSolutions (l_switches L) (l_solvers L p) (l_perf_db L p)
      ((find_context_of L)\<lparr>do_search := exhaustiveSearch\<rparr>) (h_perf_db h) = (d, q)"
    by (meson surj_pair)
  have cd: "config_direction (BuildConfKey p) = BackwardWeights" using assms(3) by simp
  show "records L (BuildConfKey p) h r h' r'"
  proof (cases q)
    case (Inl ex)
    with run f show ?thesis by (auto simp: wrw_find_core_def)
  next
    case (Inr fs)
    have n: "''miopenConvolutionBwdWeightsAlgoGEMM'' = ConvolutionAlgoToDirectionalString Algo_GEMM BackwardWeights"
      "''miopenConvolutionBwdWeightsAlgoDirect'' = ConvolutionAlgoToDirectionalString Algo_Direct BackwardWeights"
      "''miopenConvolutionBwdWeightsAlgoWinograd'' = ConvolutionAlgoToDirectionalString Algo_Winograd BackwardWeights"
      "''miopenConvolutionBwdWeightsAlgoImplicitGEMM'' = ConvolutionAlgoToDirectionalString Algo_ImplicitGEMM BackwardWeights"
      by (simp_all add: ConvolutionAlgoToDirectionalString_def)
    have m: "measurable L BackwardWeights
        [(''miopenConvolutionBwdWeightsAlgoGEMM'', w_gemm fs), (''miopenConvolutionBwdWeightsAlgoDirect'', w_direct fs),
         (''miopenConvolutionBwdWeightsAlgoWinograd'', w_winograd fs),
         (''miopenConvolutionBwdWeightsAlgoImplicitGEMM'', w_igemm fs)]"
      unfolding n by (intro measurable_Cons measurable_Nil)
        (use FindWrwSolutions_algo [OF assms(1) f [unfolded Inr], of BackwardWeights]
          FindWrwSolutions_writable [OF assms(1,2) f [unfolded Inr]] in simp_all)
    have "records L (BuildConfKey p) (h\<lparr>h_perf_db := d\<rparr>) r h' r'"
      by (rule compile_and_evaluate_records [OF _ m cd assms(2)]) (use run f Inr in \<open>simp add: wrw_find_core_def\<close>)
    then show ?thesis by simp
  qed
qed


section \<open>The second lookup\<close>

lemma record_ok_valid:
  assumes "record_ok L h config r" "lib_ok L" "rec_map r \<noteq> []" "hash_order (io_ord (l_io L))"
  shows "entries_valid (l_io L) (l_reg L) h config r"
proof -
  have "CheckInvokerSupport (fst x)
      \<and> Handle_GetInvoker_solver (l_reg L) h config (Id_of_str (l_reg L) (fd_solver_id (snd x))) \<noteq> None"
    if "x \<in> set (find_entries (l_io L) r)" for x
  proof -
    obtain name s where x: "(name, s) \<in> set (rec_map r)"
        "x = (name, case FindDbData_Deserialize (io_read (l_io L)) (io_m1 (l_io L)) s of Some v \<Rightarrow> v
           | None \<Rightarrow> FindDbData_default (io_m1 (l_io L)))"
      using \<open>x \<in> _\<close> by (auto simp: find_entries_def DbRecord_As_def hash_order_set [OF assms(4)])
    have "rec_lookup r name = Some s" using assms(1) x(1) by (simp add: record_ok_def rec_wf_def)
    then have "entry_ok L (h_invokers h) config name s" using assms(1) by (simp add: record_ok_def)
    then obtain d where d: "CheckInvokerSupport name" "s = FindDbData_Serialize (io_show (l_io L)) d"
        "find_data_ok (io_show (l_io L)) (io_read (l_io L)) d" "InvokerCache_get (h_invokers h) (config, fd_solver_id d) \<noteq> None"
        "Id_GetAlgo_dir (l_reg L) (Id_of_str (l_reg L) (fd_solver_id d)) (config_direction config) = Inr name"
      by (auto simp: entry_ok_def)
    then have "x = (name, d)" using find_codec.deser_ser [OF d(3)] x(2) by simp
    with d(1,4) reg_name [OF assms(2) d(5)] show ?thesis by (simp add: Handle_GetInvoker_solver_def)
  qed
  note built = this
  have "find_entries (l_io L) r \<noteq> []"
    using assms(3) hash_order_set [OF assms(4), of "rec_map r"] by (auto simp: find_entries_def DbRecord_As_def)
  then obtain x where "x \<in> set (find_entries (l_io L) r)" by (meson list.set_sel(1))
  with built show ?thesis unfolding entries_valid_def entry_counts_def entry_built_def by (metis (mono_tags))
qed

lemma map_of_eq_mset: "distinct (map fst xs) \<Longrightarrow> distinct (map fst ys) \<Longrightarrow> map_of xs = map_of ys \<Longrightarrow> mset xs = mset ys"
  by (metis distinct_map map_of_inject_set set_eq_iff_mset_eq_distinct)

lemma mset_find_entries:
  assumes "hash_order (io_ord io)" "rec_lookup r = rec_lookup r'" "rec_wf r" "rec_wf r'"
  shows "mset (FindDb_CopyTo io r []) = mset (FindDb_CopyTo io r' [])"
proof -
  have "mset (rec_map r) = mset (rec_map r')"
    using assms(2-4) by (simp add: rec_wf_def map_of_eq_mset)
  then have "mset (io_ord io (rec_map r)) = mset (io_ord io (rec_map r'))" using assms(1) by (simp add: hash_order_def)
  then show ?thesis by (simp add: FindDb_CopyTo_def find_entries_def DbRecord_As_def)
qed

context find_store
begin

lemma TryLoad_hit_entries:
  assumes "inv (h_find_db h)" "kc_inv (h_kernels h)" "hash_order (io_ord io)"
    and "view (h_find_db h) key = Some (rec_lookup r)" "rec_wf r" "entries_valid io reg h config r"
  shows "\<exists>u fs. TryLoad io reg ops True key config regenerator h = Some (h\<lparr>h_find_db := u\<rparr>, Inr fs)
    \<and> mset fs = mset (FindDb_CopyTo io r [])"
proof (rule TryLoad_cases [where key = key and io = io and reg = reg and config = config
      and regenerator = regenerator, OF assms(1,2)])
  fix u q
  assume "view u = view (h_find_db h)" "view u key = Some (rec_lookup q)" "rec_wf q"
    "TryLoad io reg ops True key config regenerator h = Some (h\<lparr>h_find_db := u\<rparr>, Inr (FindDb_CopyTo io q []))"
  moreover from this have "rec_lookup q = rec_lookup r" using assms(4) by simp
  ultimately show ?thesis using mset_find_entries [OF assms(3) _ _ assms(5), of q] by blast
next
  fix u
  assume "view u = view (h_find_db h)" "view u key = None \<or> (\<exists>r. view u key = Some (rec_lookup r) \<and> rec_wf r
    \<and> \<not> entries_valid io reg h config r)"
  then obtain q where q: "rec_lookup q = rec_lookup r" "rec_wf q" "\<not> entries_valid io reg h config q"
    using assms(4) by auto
  have "entries_valid io reg h config q"
    using assms(6) by (simp only: entries_valid_cong [OF assms(3) q(1,2) assms(5)])
  with q(3) show ?thesis by contradiction
qed

lemma TryLoad_again:
  assumes "lib_ok L" "hash_order (io_ord (l_io L))" "inv (h_find_db h)" "kc_inv (h_kernels h)" "key_ok key"
    and "core_records L config core"
    and "TryLoad (l_io L) (l_reg L) ops True key config core h = Some (h', Inr fs)" "fs \<noteq> []"
  shows "\<exists>u fs'. TryLoad (l_io L) (l_reg L) ops True key config core' h' = Some (h'\<lparr>h_find_db := u\<rparr>, Inr fs')
    \<and> mset fs' = mset fs"
proof (rule TryLoad_cases [where key = key and io = "l_io L" and reg = "l_reg L" and config = config
      and regenerator = core, OF assms(3,4)])
  fix u r
  assume u: "inv u" "view u = view (h_find_db h)" "view u key = Some (rec_lookup r)" "rec_wf r"
    and valid: "entries_valid (l_io L) (l_reg L) h config r"
    and run: "TryLoad (l_io L) (l_reg L) ops True key config core h = Some (h\<lparr>h_find_db := u\<rparr>, Inr (FindDb_CopyTo (l_io L) r []))"
  have h': "h' = h\<lparr>h_find_db := u\<rparr>" "fs = FindDb_CopyTo (l_io L) r []" using run assms(7) by simp_all
  have "inv (h_find_db h')" "kc_inv (h_kernels h')" "view (h_find_db h') key = Some (rec_lookup r)"
      "entries_valid (l_io L) (l_reg L) h' config r"
    using u valid assms(4) by (simp_all add: h')
  from TryLoad_hit_entries [OF this(1,2) assms(2) this(3) u(4) this(4), of core'] show ?thesis by (simp add: h'(2))
next
  fix u
  assume u: "inv u" "view u = view (h_find_db h)"
    and run: "TryLoad (l_io L) (l_reg L) ops True key config core h =
      (case core (h\<lparr>h_find_db := u\<rparr>) (DbRecord_of_key key) of None \<Rightarrow> None | Some (h2, r, err) \<Rightarrow>
         (case FindDbRecord_delete ops True (h_find_db h2) (Some r) False of
            None \<Rightarrow> None
          | Some u' \<Rightarrow> Some (h2\<lparr>h_find_db := u'\<rparr>,
              (case err of Some e \<Rightarrow> Inl e | None \<Rightarrow> Inr (FindDb_CopyTo (l_io L) r [])))))"
  then obtain h2 r u' where r: "core (h\<lparr>h_find_db := u\<rparr>) (DbRecord_of_key key) = Some (h2, r, None)"
      and d: "FindDbRecord_delete ops True (h_find_db h2) (Some r) False = Some u'"
      and out: "h' = h2\<lparr>h_find_db := u'\<rparr>" "fs = FindDb_CopyTo (l_io L) r []"
    using assms(7) by (auto split: option.splits)
  have "records L config (h\<lparr>h_find_db := u\<rparr>) (DbRecord_of_key key) h2 r"
    using assms(6) r by (auto simp: core_records_def)
  then have ok: "record_ok L h2 config r" "rec_key r = key" "h_find_db h2 = u" "kernel_map (h_kernels h2) = kernel_map (h_kernels h)"
    using record_ok_empty [of L "h\<lparr>h_find_db := u\<rparr>" config key]
    by (simp_all add: records_def)
  have wf: "rec_wf r" using ok(1) by (simp add: record_ok_def)
  have ne: "rec_map r \<noteq> []"
    using assms(8) hash_order_set [OF assms(2), of "rec_map r"]
    by (auto simp: out(2) FindDb_CopyTo_def find_entries_def DbRecord_As_def)
  obtain u2 where "op_store ops u r = Inr (u2, True)" "inv u2" "view u2 = put_view (rec_key r) (rec_lookup r) (view u)"
    using store [OF u(1) wf] ok(2) assms(5) by blast
  moreover from this d ok(3) have "u' = u2" by (simp add: FindDbRecord_delete_def)
  ultimately have v: "inv (h_find_db h')" "view (h_find_db h') key = Some (rec_lookup r)"
    using ok(2) ne by (simp_all add: out(1) map_of_eq_empty_iff)
  have kc: "kc_inv (h_kernels h')" using assms(4) ok(4) by (simp add: out(1) kc_inv_def)
  have "entries_valid (l_io L) (l_reg L) h' config r"
    using record_ok_valid [OF ok(1) assms(1) ne assms(2)] by (simp add: out(1))
  from TryLoad_hit_entries [OF v(1) kc assms(2) v(2) wf this, of core'] show ?thesis by (simp add: out(2))
qed

end


section \<open>The second call\<close>

definition measures :: "('c, 'p, 'i, 'd, 'u, 'g, 'f) lib \<Rightarrow> bool" where
  "measures L \<longleftrightarrow> \<not> FindMode_IsFast (l_mode L) (l_enforce L) False \<and> \<not> FindMode_IsHybrid (l_mode L) (l_enforce L) False"

lemma find_perf_db_measures:
  "measures L \<Longrightarrow> find_perf_db L p dir resolver core h
     = TryLoad (l_io L) (l_reg L) (l_find_ops L) (l_find_enabled L) (Problem_Serialize p) (BuildConfKey p) core h"
  by (simp add: find_perf_db_def immediate_choice_def measures_def)

text \<open>What a find call does once its arguments are accepted.\<close>

definition answers where
  "answers dir L p msg failed n core h =
     (case find_perf_db L p dir (StringToAlgo dir) core h of
        None \<Rightarrow> None
      | Some (h', Inl e) \<Rightarrow> Some (h', Inl e)
      | Some (h', Inr fs) \<Rightarrow> Some (h', report L (StringToAlgo dir) msg failed n fs))"

lemma find_call_answers:
  assumes "find_call dir L t c n False False ip exhaustiveSearch h = Some (h', Inr results)"
    and "problem_of_tensors dir (c_x t) (c_w t) (c_y t) c = Inr p" "lib_ok L" "lib_writes L"
  obtains msg failed where
    "\<And>ip' ex' g. \<exists>core. core_records L (BuildConfKey p) core
       \<and> find_call dir L t c n False False ip' ex' g = answers dir L p msg failed n core g"
proof -
  have d: "direction p = dir" by (rule problem_of_tensors_direction [OF assms(2)])
  show thesis
  proof (cases dir)
    case Forward
    have "find_arguments (x_null t \<or> w_null t \<or> y_null t) False False n = Inr ()"
      using assms(1) Forward by (auto simp: find_call_def FindConvFwdAlgorithm_def split: sum.splits)
    then have "find_call dir L t c n False False ip' ex' g = answers dir L p
        ''MIOPEN_DEBUG_COMPILE_ONLY is enabled, escaping forward convolution. Search skipped.''
        (Exn miopenStatusUnknownError ''Forward Convolution cannot be executed due to incorrect params'') n
        (DirConvFindCore L (c_x t) (c_w t) c p ip' ex' (IsWinograd3x3SupportedAndFast L p (find_context_of L))) g" for ip' ex' g
      using Forward assms(2) by (simp add: find_call_def FindConvFwdAlgorithm_def answers_def StringToAlgo_def split: option.split sum.split)
    with DirConvFindCore_records [OF assms(3,4) d [unfolded Forward]] show thesis by (intro that) blast
  next
    case BackwardData
    have "find_arguments (x_null t \<or> w_null t \<or> y_null t) False False n = Inr ()" "ValidateGroupCount (c_x t) (c_w t) c = Inr ()"
      using assms(1) BackwardData by (auto simp: find_call_def FindConvBwdDataAlgorithm_def split: sum.splits)
    then have "find_call dir L t c n False False ip' ex' g = answers dir L p
        ''MIOPEN_DEBUG_COMPILE_ONLY is enabled, escaping bwd convolution. Search skipped.''
        (Exn miopenStatusUnknownError ''Backward Data Convolution cannot be executed due to incorrect params'') n
        (data_find_core L p BackwardData ip' ex' (IsWinograd3x3SupportedAndFast L p (fresh_context L))) g" for ip' ex' g
      using BackwardData assms(2) by (simp add: find_call_def FindConvBwdDataAlgorithm_def answers_def StringToAlgo_def split: option.split sum.split)
    with data_find_core_records [OF assms(3,4) d [unfolded BackwardData]] show thesis by (intro that) fastforce
  next
    case BackwardWeights
    have "find_arguments (x_null t \<or> w_null t \<or> y_null t) False False n = Inr ()" "t_type (c_x t) \<noteq> miopenInt8"
      using assms(1) BackwardWeights by (auto simp: find_call_def FindConvBwdWeightsAlgorithm_def split: sum.splits if_splits)
    then have "find_call dir L t c n False False ip' ex' g = answers dir L p
        ''MIOPEN_DEBUG_COMPILE_ONLY is enabled, escaping backwards convolution. Search skipped.''
        (Exn miopenStatusUnknownError ''Backward Weights Convolution cannot be executed due to incorrect params'') n
        (wrw_find_core L p ip' ex') g" for ip' ex' g
      using BackwardWeights assms(2) by (simp add: find_call_def FindConvBwdWeightsAlgorithm_def answers_def StringToAlgo_def split: option.split sum.split)
    with wrw_find_core_records [OF assms(3,4) d [unfolded BackwardWeights]] show thesis by (intro that) blast
  qed
qed

text \<open>All entries are reported when there is room for more.\<close>

definition perf_result :: "(string \<Rightarrow> int result) \<Rightarrow> 'f perf_field \<Rightarrow> 'f algo_perf" where
  "perf_result resolver f = \<lparr>ap_algo = projr (resolver (pf_name f)), ap_time = pf_time f, ap_memory = pf_workspace f\<rparr>"

lemma perf_results_eq:
  "perf_results resolver fs = Inr rs \<longleftrightarrow> (\<forall>f \<in> set fs. isl (resolver (pf_name f)) = False) \<and> rs = map (perf_result resolver) fs"
proof (induction fs arbitrary: rs)
  case (Cons f fs)
  show ?case
  proof (cases "perf_results resolver fs")
    case (Inl e)
    then have "\<exists>g \<in> set fs. isl (resolver (pf_name g))" using Cons.IH by auto
    with Inl show ?thesis by (auto split: sum.splits)
  next
    case (Inr q)
    with Cons.IH [of q] show ?thesis by (auto simp: perf_result_def split: sum.splits)
  qed
qed auto

lemma report_all:
  assumes "report L resolver msg failed n fs = Inr rs" "int (length rs) < n" "mset fs' = mset fs"
  shows "\<exists>rs'. report L resolver msg failed n fs' = Inr rs' \<and> mset rs' = mset rs"
proof -
  let ?sort = "std_sort (\<lambda>a b. l_lt L (pf_time a) (pf_time b))"
  have r: "\<not> l_compile_only L" "fs \<noteq> []" "perf_results resolver (take (nat n) (?sort fs)) = Inr rs"
    using assms(1) by (auto simp: report_def split: if_splits)
  have "length rs = length (take (nat n) (?sort fs))" using r(3) by (simp add: perf_results_eq)
  then have all: "length fs \<le> nat n" using assms(2) by simp
  have same: "length fs' = length fs" "set fs' = set fs" using assms(3) mset_eq_length mset_eq_setD by blast+
  have rs: "\<forall>f \<in> set fs. \<not> isl (resolver (pf_name f))" "rs = map (perf_result resolver) (?sort fs)"
    using r(3) all by (simp_all add: perf_results_eq)
  then have "perf_results resolver (take (nat n) (?sort fs')) = Inr (map (perf_result resolver) (?sort fs'))"
    using all same by (simp add: perf_results_eq)
  moreover have "fs' \<noteq> []" using same r(2) by auto
  ultimately have "report L resolver msg failed n fs' = Inr (map (perf_result resolver) (?sort fs'))"
    using r(1) by (simp add: report_def)
  moreover have "mset (map (perf_result resolver) (?sort fs')) = mset rs" using assms(3) by (simp add: rs(2))
  ultimately show ?thesis by blast
qed

text \<open>C4: A find is made once. When a find call of any direction has returned all its results (fewer than
  asked for), the next find call of the same problem, with any workspace and whether or not it asks for an
  exhaustive search, returns the same results up to their order. It measures, compiles and registers nothing: only the cache of the find database in
  the handle may change. What it takes: a mode that measures, the find database being the cached file that can be
  written, solvers whose names and workspaces can be written, and floats whose text is stable.\<close>

theorem find_once:
  assumes "lib_ok L" "lib_writes L" "measures L" "l_find_enabled L" "l_find_ops L = ram_find_ops e"
    and "ram_find_inv e path (h_find_db h)" "kc_inv (h_kernels h)"
    and "problem_of_tensors dir (c_x t) (c_w t) (c_y t) c = Inr p" "key_ok (Problem_Serialize p)"
    and "find_call dir L t c n False False ip exhaustiveSearch h = Some (h', Inr results)"
    and "int (length results) < n"
  shows "\<exists>u results'. find_call dir L t c n False False ip' exhaustiveSearch' h' = Some (h'\<lparr>h_find_db := u\<rparr>, Inr results')
    \<and> mset results' = mset results"
proof -
  obtain msg failed where ans: "\<And>ip' ex' g. \<exists>core. core_records L (BuildConfKey p) core
       \<and> find_call dir L t c n False False ip' ex' g = answers dir L p msg failed n core g"
    by (rule find_call_answers [OF assms(10,8,1,2)]) (rule that)
  obtain core where core: "core_records L (BuildConfKey p) core" "answers dir L p msg failed n core h = Some (h', Inr results)"
    using ans [of ip exhaustiveSearch h] assms(10) by auto
  obtain core' where core': "find_call dir L t c n False False ip' exhaustiveSearch' h' = answers dir L p msg failed n core' h'"
    using ans by blast
  obtain fs where load: "TryLoad (l_io L) (l_reg L) (ram_find_ops e) True (Problem_Serialize p) (BuildConfKey p) core h = Some (h', Inr fs)"
      and rep: "report L (StringToAlgo dir) msg failed n fs = Inr results"
    using core(2) by (auto simp: answers_def find_perf_db_measures [OF assms(3)] assms(4,5) split: option.splits sum.splits)
  have ne: "fs \<noteq> []" using rep by (auto simp: report_def split: if_splits)
  have ord: "hash_order (io_ord (l_io L))" using assms(2) by (simp add: lib_writes_def)
  obtain u fs' where "TryLoad (l_io L) (l_reg L) (ram_find_ops e) True (Problem_Serialize p) (BuildConfKey p) core' h'
      = Some (h'\<lparr>h_find_db := u\<rparr>, Inr fs')" "mset fs' = mset fs"
    using ram_find.TryLoad_again [OF assms(1) ord assms(6,7,9) core(1) load ne, of core'] by blast
  with report_all [OF rep assms(11)] core'
  have "\<exists>results'. find_call dir L t c n False False ip' exhaustiveSearch' h' = Some (h'\<lparr>h_find_db := u\<rparr>, Inr results')
      \<and> mset results' = mset results"
    by (auto simp: answers_def find_perf_db_measures [OF assms(3)] assms(4,5))
  then show ?thesis by blast
qed


section \<open>The concrete library with a find database\<close>

definition again_lib :: "(unit, unit, unit, unit, world \<times> ram_db, unit, nat) lib" where
  "again_lib = example_lib\<lparr>l_find_enabled := True,
     l_io := \<lparr>io_ord = rev, io_show = (\<lambda>n. replicate (Suc n) CHR ''1''), io_read = (\<lambda>s. length s - 1), io_m1 = 0\<rparr>\<rparr>"

lemma again_lib_ok: "lib_ok again_lib" "measures again_lib" "l_find_enabled again_lib" "l_find_ops again_lib = ram_find_ops env0"
  using example_lib_ok
  by (simp_all add: again_lib_def lib_ok_def l_reg_def measures_def example_lib_def FindMode_IsFast_def FindMode_IsHybrid_def)

text \<open>Names of printable characters make words.\<close>

definition plain_name :: "string \<Rightarrow> bool" where
  "plain_name t \<longleftrightarrow> t \<noteq> [] \<and> last t \<noteq> CHR '':'' \<and> last t \<noteq> CHR '' ''
     \<and> list_all (\<lambda>c. (digit5 c \<or> digit6 c) \<and> c \<noteq> CHR '';'') t"

lemma printable_space: "digit5 c \<or> digit6 c \<Longrightarrow> is_space c \<longleftrightarrow> c = CHR '' ''"
  by (cases c) (auto simp: is_space_def of_char_def of_bool_def split: if_splits)

lemma plain_name_word:
  assumes "plain_name t"
  shows "word_ok (SolverDbId_of in_namespace t)"
proof -
  let ?n = "rev (takeWhile (\<lambda>c. c \<noteq> CHR '':'') (rev (in_namespace t)))"
  have sub: "c \<in> set t" if "c \<in> set ?n" for c
  proof -
    have "takeWhile (\<lambda>c. c \<noteq> CHR '':'') (rev (in_namespace t)) = takeWhile (\<lambda>c. c \<noteq> CHR '':'') (rev t)"
      by (simp add: in_namespace_def takeWhile_append takeWhile_eq_all_conv [THEN iffD2])
    then show ?thesis using that set_takeWhileD by fastforce
  qed
  have last: "last t \<in> set ?n"
    using assms by (cases t rule: rev_cases) (simp_all add: plain_name_def in_namespace_def)
  have all: "\<forall>c \<in> set t. (digit5 c \<or> digit6 c) \<and> c \<noteq> CHR '';''" using assms by (simp add: plain_name_def list_all_iff)
  have "word_ok (ComputeSolverDbId (in_namespace t))"
    unfolding word_ok_def
  proof (intro conjI)
    let ?f = "\<lambda>c. if c = CHR '','' then CHR ''-'' else c"
    have "?f (last t) \<in> ?f ` set ?n" by (rule imageI [OF last])
    moreover have "?f (last t) \<noteq> CHR '' ''" using assms by (simp add: plain_name_def)
    moreover have "set (ComputeSolverDbId (in_namespace t)) = {c \<in> ?f ` set ?n. c \<noteq> CHR '' ''}"
      unfolding ComputeSolverDbId_def Let_def set_filter set_map ..
    ultimately have "?f (last t) \<in> set (ComputeSolverDbId (in_namespace t))" by simp
    then show "ComputeSolverDbId (in_namespace t) \<noteq> []" by auto
    have from_t: "c = CHR ''-'' \<or> c \<in> set t \<and> c \<noteq> CHR '' ''" "c \<noteq> CHR '',''"
      if "c \<in> set (ComputeSolverDbId (in_namespace t))" for c
      using that sub unfolding ComputeSolverDbId_def Let_def set_filter set_map by (auto split: if_splits)
    then show "CHR '','' \<notin> set (ComputeSolverDbId (in_namespace t))" by blast
    have "\<not> is_space (CHR ''-'')" by (simp add: is_space_def)
    then show "\<forall>c \<in> set (ComputeSolverDbId (in_namespace t)). \<not> is_space c"
      using from_t(1) all printable_space by metis
    have "CHR ''-'' \<noteq> CHR '';''" "CHR ''-'' \<noteq> CHR 0x0A" "\<not> digit5 (CHR 0x0A)" "\<not> digit6 (CHR 0x0A)" by simp_all
    then show "values_ok (ComputeSolverDbId (in_namespace t))"
      using from_t(1) all unfolding values_ok_def by metis
  qed
  moreover have "word_ok (''ConvBinWinogradRxSf'' @ ''3'' @ ''x'' @ ''2'')" "word_ok (''ConvBinWinogradRxSf'' @ ''2'' @ ''x'' @ ''3'')"
    by (simp_all add: word_ok_def is_space_def values_ok_def)
  ultimately show ?thesis by (simp add: SolverDbId_of_def)
qed

lemma first_types_plain: "list_all plain_name (GetGemmSolvers @ GetDirectSolvers @ GetFFTSolvers @ GetBwdWrW2DSolvers)"
  by (simp add: GetGemmSolvers_def GetDirectSolvers_def GetFFTSolvers_def GetBwdWrW2DSolvers_def plain_name_def)

lemma last_types_plain:
  "list_all plain_name (GetImplicitGemmSolvers @ GetWindogradSolvers @ GetWindogradWrWSolvers @ GetImplicitGemmWrWSolvers)"
  by (simp add: GetImplicitGemmSolvers_def GetWindogradSolvers_def GetWindogradWrWSolvers_def GetImplicitGemmWrWSolvers_def
      plain_name_def)

lemma conv_types_words: "\<forall>t \<in> set conv_types. word_ok (SolverDbId_of in_namespace t)"
  using first_types_plain last_types_plain plain_name_word by (auto simp: conv_types_def list_all_iff)

lemma again_lib_writes: "lib_writes again_lib"
proof -
  have "l_names again_lib = in_namespace" by (simp add: again_lib_def example_lib_def)
  moreover have "yields (l_solvers again_lib p ctx t) sol \<Longrightarrow> sol_workspace sol < 2 ^ 64" for p ctx t sol
    by (auto simp: again_lib_def example_lib_def yields_def example_solvers_def example_solution_def)
  ultimately show ?thesis
    using conv_types_words by (simp add: lib_writes_def again_lib_def values_ok_def hash_order_rev)
qed

lemma again_core:
  assumes "ValidateGroupCount (c_x example_tensors) (c_w example_tensors) example_conv = Inr ()"
  shows "DirConvFindCore again_lib (c_x example_tensors) (c_w example_tensors) example_conv p example_params False False
      (example_host\<lparr>h_find_db := u\<rparr>) (DbRecord_of_key (Problem_Serialize p)) = Some ((example_found p)\<lparr>h_find_db := u\<rparr>,
      fst (DbRecord_SetValuesT (FindDbData_Serialize (io_show (l_io again_lib))) (DbRecord_of_key (Problem_Serialize p))
        ''miopenConvolutionFwdAlgoGEMM'' \<lparr>fd_solver_id = ''GemmFwdRest'', fd_time = 5, fd_workspace = 64,
      fd_kcache_key = \<lparr>algorithm_name = ''miopenConvolutionFwdAlgoGEMM'', network_config = unused_config\<rparr>\<rparr>), None)"
proof -
  have same: "l_switches again_lib = l_switches example_lib" "l_solvers again_lib p = l_solvers example_lib p"
    "l_perf_db again_lib p = l_perf_db example_lib p" "find_context_of again_lib = find_context_of example_lib"
    "\<not> FindMode_IsDynamicHybrid (l_mode again_lib) (l_enforce again_lib) False"
    by (simp_all add: again_lib_def find_context_of_def fresh_context_def FindMode_IsDynamicHybrid_def example_lib_def)
  show ?thesis
    by (simp add: DirConvFindCore_def assms data_find_core_def same example_host_def example_solutions)
      (simp add: compile_and_evaluate_def again_lib_def example_lib_def example_solution_def
        PrecompileSolutions_def PrecompileKernels_def missing_kernels_def par_for_strided_def EvaluateInvokers_def
        fits_def example_params_def Handle_PrepareInvoker_def run_invoker_def Handle_RegisterInvoker_def InvokerCache_Register_def
        InvokerCache_SetAsFound1_0_def ConvolutionAlgoToDirectionalString_def MakeUnused_def FindDbKCacheKey_def
        unused_config_def FindDbData_def kcache_IsValid_def example_found_def example_host_def)
qed


lemma again_find:
  assumes p: "problem_of_tensors Forward (c_x example_tensors) (c_w example_tensors) (c_y example_tensors) example_conv = Inr p"
    and key: "Problem_Serialize p \<noteq> ''m''" "key_ok (Problem_Serialize p)"
    and inv: "ram_find_inv env0 ''db'' (h_find_db example_host)" "kc_inv (h_kernels example_host)"
    and view: "db_view ''db'' (w_fs (fst (h_find_db example_host))) (Problem_Serialize p) = None"
  obtains u where "find_call Forward again_lib example_tensors example_conv 2 False False example_params False example_host
    = Some ((example_found p)\<lparr>h_find_db := u\<rparr>, Inr [\<lparr>ap_algo = 0, ap_time = 5, ap_memory = 64\<rparr>])"
proof -
  let ?core = "DirConvFindCore again_lib (c_x example_tensors) (c_w example_tensors) example_conv p example_params False False"
  let ?d = "\<lparr>fd_solver_id = ''GemmFwdRest'', fd_time = 5, fd_workspace = 64,
      fd_kcache_key = \<lparr>algorithm_name = ''miopenConvolutionFwdAlgoGEMM'', network_config = unused_config\<rparr>\<rparr>"
  let ?r = "fst (DbRecord_SetValuesT (FindDbData_Serialize (io_show (l_io again_lib))) (DbRecord_of_key (Problem_Serialize p))
        ''miopenConvolutionFwdAlgoGEMM'' ?d)"
  let ?fs = "[\<lparr>pf_name = ''miopenConvolutionFwdAlgoGEMM'', pf_solver_id = ''GemmFwdRest'', pf_time = 5, pf_workspace = 64\<rparr>]"
  have group: "ValidateGroupCount (c_x example_tensors) (c_w example_tensors) example_conv = Inr ()" by code_simp
  have args: "find_arguments (x_null example_tensors \<or> w_null example_tensors \<or> y_null example_tensors) False False 2 = Inr ()"
    by (simp add: find_arguments_def example_tensors_def)
  have wino: "\<not> IsWinograd3x3SupportedAndFast again_lib p (find_context_of again_lib)"
    by (simp add: IsWinograd3x3SupportedAndFast_def again_lib_def example_lib_def example_solvers_def)
  have ok: "find_data_ok (io_show (l_io again_lib)) (io_read (l_io again_lib)) ?d"
    by (simp add: again_lib_def find_data_ok_def word_ok_def values_ok_def is_space_def unused_config_def)
  then have wf: "rec_wf ?r" "rec_key ?r = Problem_Serialize p"
    using rec_wf_SetValues [OF rec_wf_of_key, of "''miopenConvolutionFwdAlgoGEMM''"] find_codec.ser_clean [OF ok]
    by (simp_all add: DbRecord_SetValuesT_def id_ok_def)
  have copy: "FindDb_CopyTo (l_io again_lib) ?r [] = ?fs"
    using find_codec.deser_ser [OF ok]
    by (simp add: FindDb_CopyTo_def find_entries_def DbRecord_As_def DbRecord_SetValuesT_def DbRecord_SetValues_def
        DbRecord_of_key_def again_lib_def perf_field_of_def)
  have load: "\<exists>u. TryLoad (l_io again_lib) (l_reg again_lib) (ram_find_ops env0) True (Problem_Serialize p) (BuildConfKey p) ?core
      example_host = Some ((example_found p)\<lparr>h_find_db := u\<rparr>, Inr ?fs)"
  proof (rule ram_find.TryLoad_cases [where key = "Problem_Serialize p" and io = "l_io again_lib" and reg = "l_reg again_lib"
        and config = "BuildConfKey p" and regenerator = ?core, OF inv])
    fix u r
    assume "db_view ''db'' (w_fs (fst u)) = db_view ''db'' (w_fs (fst (h_find_db example_host)))"
      "db_view ''db'' (w_fs (fst u)) (Problem_Serialize p) = Some (rec_lookup r)"
    with view show ?thesis by simp
  next
    fix u
    assume u: "ram_find_inv env0 ''db'' u"
      and run: "TryLoad (l_io again_lib) (l_reg again_lib) (ram_find_ops env0) True (Problem_Serialize p) (BuildConfKey p) ?core
        example_host = (case ?core (example_host\<lparr>h_find_db := u\<rparr>) (DbRecord_of_key (Problem_Serialize p)) of None \<Rightarrow> None
         | Some (h2, r, err) \<Rightarrow> (case FindDbRecord_delete (ram_find_ops env0) True (h_find_db h2) (Some r) False of
              None \<Rightarrow> None
            | Some u' \<Rightarrow> Some (h2\<lparr>h_find_db := u'\<rparr>,
                (case err of Some e \<Rightarrow> Inl e | None \<Rightarrow> Inr (FindDb_CopyTo (l_io again_lib) r [])))))"
    obtain u' where "op_store (ram_find_ops env0) u ?r = Inr (u', True)"
      using ram_find.store [OF u wf(1)] wf(2) key(2) by metis
    then have "TryLoad (l_io again_lib) (l_reg again_lib) (ram_find_ops env0) True (Problem_Serialize p) (BuildConfKey p) ?core
        example_host = Some ((example_found p)\<lparr>h_find_db := u'\<rparr>, Inr ?fs)"
      using run copy by (simp add: again_core [OF group] FindDbRecord_delete_def)
    then show ?thesis by blast
  qed
  then obtain u where "find_perf_db again_lib p Forward StringToConvolutionFwdAlgo ?core example_host
      = Some ((example_found p)\<lparr>h_find_db := u\<rparr>, Inr ?fs)"
    by (auto simp: find_perf_db_measures again_lib_ok)
  moreover have "report again_lib StringToConvolutionFwdAlgo msg failed 2 ?fs = Inr [\<lparr>ap_algo = 0, ap_time = 5, ap_memory = 64\<rparr>]"
    for msg failed
    by (simp add: report_def again_lib_def example_lib_def std_sort_def sort_insert_def linear_insert_def
        StringToConvolutionFwdAlgo_def at_map_def algo_value_def)
  ultimately show thesis
    by (intro that) (simp add: find_call_def FindConvFwdAlgorithm_def args p wino)
qed

theorem find_once_witness:
  "\<exists>p u u'. problem_of_tensors Forward (c_x example_tensors) (c_w example_tensors) (c_y example_tensors) example_conv = Inr p
    \<and> find_call Forward again_lib example_tensors example_conv 2 False False example_params False example_host
        = Some ((example_found p)\<lparr>h_find_db := u\<rparr>, Inr [\<lparr>ap_algo = 0, ap_time = 5, ap_memory = 64\<rparr>])
    \<and> find_call Forward again_lib example_tensors example_conv 2 False False example_params True ((example_found p)\<lparr>h_find_db := u\<rparr>)
        = Some ((example_found p)\<lparr>h_find_db := u'\<rparr>, Inr [\<lparr>ap_algo = 0, ap_time = 5, ap_memory = 64\<rparr>])"
proof -
  obtain p where p: "problem_of_tensors Forward (c_x example_tensors) (c_w example_tensors) (c_y example_tensors) example_conv = Inr p"
      "Problem_Serialize p \<noteq> ''m''" by (rule example_problem_ok) (rule that)
  have "case problem_of_tensors Forward (c_x example_tensors) (c_w example_tensors) (c_y example_tensors) example_conv of
     Inl _ \<Rightarrow> False | Inr p \<Rightarrow> key_ok (Problem_Serialize p)" by code_simp
  then have key: "key_ok (Problem_Serialize p)" by (simp add: p(1))
  have inv: "ram_find_inv env0 ''db'' (h_find_db example_host)" "kc_inv (h_kernels example_host)"
    using sys_inv_init [of "''db''" world0] concrete_ok
    by (simp_all add: ram_find_inv_def ram_inv_def sys_inv_def example_host_def kc_inv_empty)
  have view: "db_view ''db'' (w_fs (fst (h_find_db example_host))) (Problem_Serialize p) = None"
    using p(2) by (auto simp: example_host_def world0_def db_view_def db_lines_def getlines.simps lines_view_def line_key_def)
  obtain u where u: "find_call Forward again_lib example_tensors example_conv 2 False False example_params False example_host
    = Some ((example_found p)\<lparr>h_find_db := u\<rparr>, Inr [\<lparr>ap_algo = 0, ap_time = 5, ap_memory = 64\<rparr>])"
    by (rule again_find [OF p key inv view]) (rule that)
  have "\<exists>u' results'. find_call Forward again_lib example_tensors example_conv 2 False False example_params True
      ((example_found p)\<lparr>h_find_db := u\<rparr>) = Some ((example_found p)\<lparr>h_find_db := u\<rparr>\<lparr>h_find_db := u'\<rparr>, Inr results')
      \<and> mset results' = mset [\<lparr>ap_algo = 0, ap_time = 5, ap_memory = 64\<rparr>]"
    by (rule find_once [OF again_lib_ok(1) again_lib_writes again_lib_ok(2-4) inv p(1) key u]) simp
  then obtain u' results' where again: "find_call Forward again_lib example_tensors example_conv 2 False False example_params True
      ((example_found p)\<lparr>h_find_db := u\<rparr>) = Some ((example_found p)\<lparr>h_find_db := u\<rparr>\<lparr>h_find_db := u'\<rparr>, Inr results')"
      "mset results' = mset [\<lparr>ap_algo = 0, ap_time = 5, ap_memory = 64\<rparr>]" by blast
  then have "find_call Forward again_lib example_tensors example_conv 2 False False example_params True ((example_found p)\<lparr>h_find_db := u\<rparr>)
      = Some ((example_found p)\<lparr>h_find_db := u'\<rparr>, Inr [\<lparr>ap_algo = 0, ap_time = 5, ap_memory = 64\<rparr>])" by simp
  with p(1) u show ?thesis by blast
qed

end
