(* ===== verification/Conv_Workspace.thy ===== *)
theory Conv_Workspace
  imports Conv_Choice
begin

text \<open>
  How much workspace an application is told to allocate (\<open>src/convolution.cpp\<close>): in the fast and hybrid modes what the
  chosen immediate solution asks for, otherwise the largest of the sizes of the algorithms. The loops \<open>while(...)\<close> of the
  three queries run at most once, as do those of the find calls.
\<close>

section \<open>The queries\<close>

text \<open>\<open>C\<close> stands for the sizes of the algorithms, in the context of the query.\<close>

definition query_workspace ::
  "('c, 'p, 'i, 'd, 'u, 'g, 'f) lib \<Rightarrow> problem \<Rightarrow> (string \<Rightarrow> int result) \<Rightarrow> (find_context \<Rightarrow> nat)
    \<Rightarrow> ('p, 'i, 'd, 'u, 'g) host \<Rightarrow> (('p, 'i, 'd, 'u, 'g) host \<times> nat result) option" where
  "query_workspace L p resolver C h =
     (case immediate_choice L p resolver h of
        None \<Rightarrow> None
      | Some (h', Inl e) \<Rightarrow> Some (h', Inl e)
      | Some (h', Inr (Some sol)) \<Rightarrow> Some (h', Inr (workspace_size sol))
      | Some (h', Inr None) \<Rightarrow> Some (h', Inr (C (size_context (find_context_of L)))))"

definition data_workspace :: "('c, 'p, 'i, 'd, 'u, 'g, 'f) lib \<Rightarrow> problem \<Rightarrow> conv_desc \<Rightarrow> find_context \<Rightarrow> nat" where
  "data_workspace L p c ctx =
     DataGetWorkSpaceSize (l_switches L) (l_solvers L p) ctx (IsWinograd3x3SupportedAndFast L p ctx)
       (list_ex (\<lambda>v. v > 1) (dilations c))"

definition ForwardGetWorkSpaceSize ::
  "('c, 'p, 'i, 'd, 'u, 'g, 'f) lib \<Rightarrow> tensor \<Rightarrow> tensor \<Rightarrow> tensor \<Rightarrow> conv_desc
    \<Rightarrow> ('p, 'i, 'd, 'u, 'g) host \<Rightarrow> (('p, 'i, 'd, 'u, 'g) host \<times> nat result) option" where
  "ForwardGetWorkSpaceSize L wDesc xDesc yDesc c h =
     (case problem_of_tensors Forward xDesc wDesc yDesc c of
        Inl e \<Rightarrow> Some (h, Inl e)
      | Inr p \<Rightarrow> query_workspace L p StringToConvolutionFwdAlgo (data_workspace L p c) h)"

definition BackwardDataGetWorkSpaceSize ::
  "('c, 'p, 'i, 'd, 'u, 'g, 'f) lib \<Rightarrow> tensor \<Rightarrow> tensor \<Rightarrow> tensor \<Rightarrow> conv_desc
    \<Rightarrow> ('p, 'i, 'd, 'u, 'g) host \<Rightarrow> (('p, 'i, 'd, 'u, 'g) host \<times> nat result) option" where
  "BackwardDataGetWorkSpaceSize L wDesc dyDesc dxDesc c h =
     (case problem_of_tensors BackwardData dxDesc wDesc dyDesc c of
        Inl e \<Rightarrow> Some (h, Inl e)
      | Inr p \<Rightarrow> query_workspace L p StringToConvolutionBwdDataAlgo (data_workspace L p c) h)"

definition BackwardWeightsGetWorkSpaceSize ::
  "('c, 'p, 'i, 'd, 'u, 'g, 'f) lib \<Rightarrow> tensor \<Rightarrow> tensor \<Rightarrow> tensor \<Rightarrow> conv_desc
    \<Rightarrow> ('p, 'i, 'd, 'u, 'g) host \<Rightarrow> (('p, 'i, 'd, 'u, 'g) host \<times> nat result) option" where
  "BackwardWeightsGetWorkSpaceSize L dyDesc xDesc dwDesc c h =
     (case problem_of_tensors BackwardWeights xDesc dwDesc dyDesc c of
        Inl e \<Rightarrow> Some (h, Inl e)
      | Inr p \<Rightarrow> query_workspace L p StringToConvolutionBwdWeightsAlgo
          (BackwardWeightsGetWorkSpaceSize_find (l_switches L) (l_solvers L p)) h)"

section \<open>What a find gets\<close>

text \<open>The solutions that the find calls hand over to be measured; \<open>d\<close> is the performance database.\<close>

definition data_solutions_of ::
  "('c, 'p, 'i, 'd, 'u, 'g, 'f) lib \<Rightarrow> problem \<Rightarrow> direction \<Rightarrow> bool \<Rightarrow> 'd \<Rightarrow> ('p, 'i) solution list" where
  "data_solutions_of L p dir exhaustiveSearch d =
     (let fs = snd (FindDataSolutions (l_switches L) (l_solvers L p) (l_perf_db L p) (find_context_of L)
            (FindMode_IsDynamicHybrid (l_mode L) (l_enforce L) False) exhaustiveSearch
            (IsWinograd3x3SupportedAndFast L p (if dir = Forward then find_context_of L else fresh_context L)) d)
      in s_gemm fs @ s_winograd fs @ s_direct fs @ s_igemm fs @ s_fft fs)"

definition wrw_solutions_of ::
  "('c, 'p, 'i, 'd, 'u, 'g, 'f) lib \<Rightarrow> problem \<Rightarrow> bool \<Rightarrow> 'd \<Rightarrow> ('p, 'i) solution list" where
  "wrw_solutions_of L p exhaustiveSearch d =
     (case snd (FindWrwSolutions (l_switches L) (l_solvers L p) (l_perf_db L p)
            ((find_context_of L)\<lparr>do_search := exhaustiveSearch\<rparr>) d) of
        Inl e \<Rightarrow> []
      | Inr fs \<Rightarrow> w_gemm fs @ w_direct fs @ w_winograd fs @ w_igemm fs)"

text \<open>\<open>ws\<close> is enough for a find: it is what the immediate solution needs that the find takes from the same state of the
  handle, or no solution that the find gets is left out for lack of workspace when \<open>ws\<close> bytes are given.\<close>

definition enough_for ::
  "('c, 'p, 'i, 'd, 'u, 'g, 'f) lib \<Rightarrow> problem \<Rightarrow> (string \<Rightarrow> int result) \<Rightarrow> direction \<Rightarrow> ('p, 'i, 'd, 'u, 'g) host
    \<Rightarrow> (bool \<Rightarrow> 'd \<Rightarrow> ('p, 'i) solution list) \<Rightarrow> nat \<Rightarrow> bool" where
  "enough_for L p resolver dir h found ws \<longleftrightarrow>
     (\<exists>h' s. immediate_choice L p resolver h = Some (h', Inr (Some s)) \<and> workspace_size s = ws
        \<and> (\<forall>core h2 fs. find_perf_db L p dir resolver core h = Some (h2, Inr fs) \<longrightarrow> (\<forall>f \<in> set fs. pf_workspace f = ws)))
     \<or> (\<exists>h'. immediate_choice L p resolver h = Some (h', Inr None)
        \<and> (\<forall>exhaustiveSearch d ip. \<not> ip_null ip \<longrightarrow> ws \<le> ip_size ip \<longrightarrow>
             (\<forall>x \<in> set (found exhaustiveSearch d). fits ip (snd x))))"

lemma query_enough:
  assumes "query_workspace L p resolver C h = Some (h1, Inr ws)"
    and "\<And>exhaustiveSearch d x. x \<in> set (found exhaustiveSearch d) \<Longrightarrow> sol_workspace (snd x) \<le> C (size_context (find_context_of L))"
  shows "enough_for L p resolver dir h found ws"
proof -
  obtain h' q where q: "immediate_choice L p resolver h = Some (h', Inr q)"
    using assms(1) by (auto simp: query_workspace_def split: option.splits sum.splits)
  show ?thesis
  proof (cases q)
    case None
    with assms(1) q have "ws = C (size_context (find_context_of L))" by (simp add: query_workspace_def)
    then have "fits ip (snd x)" if "\<not> ip_null ip" "ws \<le> ip_size ip" "x \<in> set (found ex d)" for ip ex d x
      using assms(2) [OF that(3)] that(1,2) by (simp add: fits_def)
    then show ?thesis using q None by (auto simp: enough_for_def)
  next
    case (Some s)
    with assms(1) q have ws: "ws = workspace_size s" by (simp add: query_workspace_def)
    have "pf_workspace f = ws" if "find_perf_db L p dir resolver core h = Some (h2, Inr fs)" "f \<in> set fs" for core h2 fs f
      using that q Some ws
      by (auto simp: find_perf_db_def Let_def split: option.splits sum.splits prod.splits)
    then show ?thesis using q Some ws by (auto simp: enough_for_def)
  qed
qed

section \<open>The queries are enough\<close>

lemma fast_everywhere: "same_answers (l_solvers L p) \<Longrightarrow> IsWinograd3x3SupportedAndFast L p ctx = IsWinograd3x3SupportedAndFast L p ctx'"
  unfolding same_answers_def IsWinograd3x3SupportedAndFast_def by metis

lemma data_solutions_bounded:
  assumes "same_answers (l_solvers L p)" "keeps_announced (l_solvers L p)"
    and "list_ex (\<lambda>v. v > 1) (dilations c) \<longrightarrow> (\<forall>ctx. \<not> IsApplicable (l_solvers L p ctx ''fft''))"
    and "x \<in> set (data_solutions_of L p dir exhaustiveSearch d)"
  shows "sol_workspace (snd x) \<le> data_workspace L p c (size_context (find_context_of L))"
proof -
  let ?only = "IsWinograd3x3SupportedAndFast L p (if dir = Forward then find_context_of L else fresh_context L)"
  obtain d' fs where f: "FindDataSolutions (l_switches L) (l_solvers L p) (l_perf_db L p) (find_context_of L)
      (FindMode_IsDynamicHybrid (l_mode L) (l_enforce L) False) exhaustiveSearch ?only d = (d', fs)" by (meson surj_pair)
  have dyn: "use_dynamic_solutions_only (find_context_of L) = FindMode_IsDynamicHybrid (l_mode L) (l_enforce L) False"
    by (simp add: find_context_of_def)
  have "x \<in> set (s_gemm fs @ s_winograd fs @ s_direct fs @ s_igemm fs @ s_fft fs)"
    using assms(4) by (simp add: data_solutions_of_def f)
  note bound = data_searches_bounded [OF assms(1,2,3) dyn f this]
  have only: "?only = IsWinograd3x3SupportedAndFast L p (size_context (find_context_of L))" by (rule fast_everywhere [OF assms(1)])
  show ?thesis using bound unfolding data_workspace_def only .
qed

text \<open>C33: The workspace that \<open>ForwardGetWorkSpaceSize\<close> and \<open>BackwardDataGetWorkSpaceSize\<close>
  announce is enough for a find: either it is what the chosen immediate solution needs, and the find from the same
  state of the handle reports just that; or no solution that the five searches of a find get (exhaustive or not,
  with any performance database) is left out for lack of workspace when as much is given. The solvers must answer
  alike in every mode of the context and ask for no more than they announce, and FFT, which the query leaves out
  for dilated convolutions, must not apply to them.\<close>

theorem workspace_suffices:
  assumes "same_answers (l_solvers L p)" "keeps_announced (l_solvers L p)"
    and "list_ex (\<lambda>v. v > 1) (dilations c) \<longrightarrow> (\<forall>ctx. \<not> IsApplicable (l_solvers L p ctx ''fft''))"
  shows "(problem_of_tensors Forward x w y c = Inr p \<longrightarrow> ForwardGetWorkSpaceSize L w x y c h = Some (h1, Inr ws) \<longrightarrow>
      enough_for L p StringToConvolutionFwdAlgo Forward h (data_solutions_of L p Forward) ws)
    \<and> (problem_of_tensors BackwardData x w y c = Inr p \<longrightarrow> BackwardDataGetWorkSpaceSize L w y x c h = Some (h1, Inr ws) \<longrightarrow>
      enough_for L p StringToConvolutionBwdDataAlgo BackwardData h (data_solutions_of L p BackwardData) ws)"
proof -
  have "enough_for L p resolver dir h (data_solutions_of L p dir) ws"
    if "query_workspace L p resolver (data_workspace L p c) h = Some (h1, Inr ws)" for resolver dir
    by (rule query_enough [OF that]) (rule data_solutions_bounded [OF assms])
  then show ?thesis by (simp add: ForwardGetWorkSpaceSize_def BackwardDataGetWorkSpaceSize_def)
qed

text \<open>C34: The same for the backward weights direction: what \<open>BackwardWeightsGetWorkSpaceSize\<close> announces
  is enough for a find and its four searches (when one of them throws, nothing is measured). The solvers must
  answer alike in every mode of the context and ask for no more than they announce; and since the find asks the
  GEMM solvers also in a build without GEMM, where the query leaves them out, they must not be applicable there.\<close>

theorem wrw_workspace_suffices:
  assumes "same_answers (l_solvers L p)" "keeps_announced (l_solvers L p)"
    and "use_gemm (l_switches L) \<or> (\<forall>ctx. \<forall>t \<in> set GetGemmSolvers. \<not> IsApplicable (l_solvers L p ctx t))"
    and "problem_of_tensors BackwardWeights x w y c = Inr p" "BackwardWeightsGetWorkSpaceSize L y x w c h = Some (h1, Inr ws)"
  shows "enough_for L p StringToConvolutionBwdWeightsAlgo BackwardWeights h (wrw_solutions_of L p) ws"
proof -
  let ?ctx = "find_context_of L"
  have size: "size_context (?ctx\<lparr>do_search := b\<rparr>) = size_context ?ctx" for b by (simp add: size_context_def)
  have bound: "sol_workspace (snd s) \<le> BackwardWeightsGetWorkSpaceSize_find (l_switches L) (l_solvers L p) (size_context ?ctx)"
    if "s \<in> set (wrw_solutions_of L p exhaustiveSearch d)" for exhaustiveSearch d s
    using that wrw_searches_bounded [OF assms(1-3), of "l_perf_db L p" "?ctx\<lparr>do_search := exhaustiveSearch\<rparr>" d]
    by (auto simp: wrw_solutions_of_def size split: sum.splits) (metis prod.collapse)+
  have "query_workspace L p StringToConvolutionBwdWeightsAlgo (BackwardWeightsGetWorkSpaceSize_find (l_switches L) (l_solvers L p)) h
      = Some (h1, Inr ws)"
    using assms(4,5) by (simp add: BackwardWeightsGetWorkSpaceSize_def)
  then show ?thesis by (rule query_enough) (rule bound)
qed

section \<open>A concrete query\<close>

lemma example_lib_answers: "same_answers (l_solvers example_lib p)" "keeps_announced (l_solvers example_lib p)"
  by (auto simp: same_answers_def keeps_announced_def yields_def announced_def example_lib_def example_solvers_def example_solution_def)

lemma example_choice: "immediate_choice example_lib p resolver example_host = Some (example_host, Inr None)"
  by (simp add: immediate_choice_def example_lib_def FindMode_IsFast_def FindMode_IsHybrid_def)

lemma example_query_sizes:
  "AllGemmWorkspaceSize (l_solvers example_lib p) (size_context (find_context_of example_lib)) = [(''GemmFwdRest'', 64)]"
  "''GemmFwdRest'' \<notin> set types \<Longrightarrow> workspaces (l_solvers example_lib p) size_max types ctx = []"
proof -
  have slv: "l_solvers example_lib p ctx t = (example_solvers ctx t)\<lparr>SolverDbId := SolverDbId_of in_namespace t\<rparr>" for ctx t
    by (simp add: example_lib_def)
  have "find_only (size_context (find_context_of example_lib)) = None" "\<not> use_dynamic_solutions_only (size_context (find_context_of example_lib))"
    by (simp_all add: size_context_def find_context_of_def fresh_context_def example_lib_def FindMode_IsDynamicHybrid_def)
  then show "AllGemmWorkspaceSize (l_solvers example_lib p) (size_context (find_context_of example_lib)) = [(''GemmFwdRest'', 64)]"
    by (simp add: AllGemmWorkspaceSize_def workspaces_def GetWorkspaceSizes_acc slv GetGemmSolvers_def usable_def skipped_def
        example_solvers_def size_max_def example_ids)
  assume "''GemmFwdRest'' \<notin> set types"
  then have "filter (\<lambda>s. usable ctx s \<and> MayNeedWorkspace s) (map (l_solvers example_lib p ctx) types) = []"
    by (auto simp: filter_empty_conv usable_def slv example_solvers_def)
  then show "workspaces (l_solvers example_lib p) size_max types ctx = []" by (simp add: workspaces_def GetWorkspaceSizes_acc)
qed

lemma elsewhere: "''GemmFwdRest'' \<notin> set GetDirectSolvers" "''GemmFwdRest'' \<notin> set GetImplicitGemmSolvers"
  "''GemmFwdRest'' \<notin> set GetWindogradSolvers" "''GemmFwdRest'' \<notin> set GetFFTSolvers" "''GemmFwdRest'' \<notin> set GetBwdWrW2DSolvers"
  "''GemmFwdRest'' \<notin> set GetWindogradWrWSolvers" "''GemmFwdRest'' \<notin> set GetImplicitGemmWrWSolvers"
  by (simp_all add: GetDirectSolvers_def GetImplicitGemmSolvers_def GetWindogradSolvers_def GetFFTSolvers_def
      GetBwdWrW2DSolvers_def GetWindogradWrWSolvers_def GetImplicitGemmWrWSolvers_def)

lemma example_gemm_workspace:
  "gemm_workspace (l_switches example_lib) (l_solvers example_lib p) (size_context (find_context_of example_lib)) = 64"
  unfolding gemm_workspace_def example_query_sizes(1) by (simp add: example_lib_def example_switches_def)

lemma example_forward_query:
  assumes "problem_of_tensors Forward (c_x example_tensors) (c_w example_tensors) (c_y example_tensors) example_conv = Inr p"
  shows "ForwardGetWorkSpaceSize example_lib (c_w example_tensors) (c_x example_tensors) (c_y example_tensors) example_conv example_host
    = Some (example_host, Inr 64)"
proof -
  have "\<not> IsWinograd3x3SupportedAndFast example_lib p ctx" for ctx
    by (simp add: IsWinograd3x3SupportedAndFast_def example_lib_def example_solvers_def)
  then have "data_workspace example_lib p example_conv (size_context (find_context_of example_lib)) = 64"
    by (simp add: data_workspace_def DataGetWorkSpaceSize_def Let_def example_gemm_workspace
        ForwardBackwardDataGetWorkSpaceSizeWinograd_def ForwardBackwardDataGetWorkSpaceSizeDirect_def
        ForwardBackwardGetWorkSpaceSizeImplicitGemm_def ForwardBackwardDataGetWorkSpaceSizeFFT_def FindAllWinogradWorkspaceSizes_def
        AllDirectForwardBackwardDataWorkspaceSize_def FindAllImplicitGemmWorkspaceSizes_def AllFFTForwardBackwardDataWorkspaceSize_def
        example_query_sizes(2) elsewhere max_workspace_def)
  then show ?thesis by (simp add: ForwardGetWorkSpaceSize_def assms query_workspace_def example_choice)
qed

theorem workspace_suffices_witness:
  "\<exists>p. problem_of_tensors Forward (c_x example_tensors) (c_w example_tensors) (c_y example_tensors) example_conv = Inr p
    \<and> ForwardGetWorkSpaceSize example_lib (c_w example_tensors) (c_x example_tensors) (c_y example_tensors) example_conv example_host
      = Some (example_host, Inr 64)
    \<and> data_solutions_of example_lib p Forward False () = [(''GemmFwdRest'', example_solution)]
    \<and> fits \<lparr>ip_null = False, ip_size = 64\<rparr> example_solution"
proof -
  obtain p where p: "problem_of_tensors Forward (c_x example_tensors) (c_w example_tensors) (c_y example_tensors) example_conv = Inr p"
    by (rule example_problem_ok) (rule that)
  note ws = example_forward_query [OF p]
  have fft: "list_ex (\<lambda>v. v > 1) (dilations example_conv) \<longrightarrow> (\<forall>ctx. \<not> IsApplicable (l_solvers example_lib p ctx ''fft''))"
    by (simp add: example_lib_def example_solvers_def)
  have "enough_for example_lib p StringToConvolutionFwdAlgo Forward example_host (data_solutions_of example_lib p Forward) 64"
    using workspace_suffices [OF example_lib_answers fft] p ws by blast
  then have fit: "\<forall>x \<in> set (data_solutions_of example_lib p Forward False ()). fits \<lparr>ip_null = False, ip_size = 64\<rparr> (snd x)"
    by (simp add: enough_for_def example_choice)
  have wino: "\<not> IsWinograd3x3SupportedAndFast example_lib p ctx" for ctx
    by (simp add: IsWinograd3x3SupportedAndFast_def example_lib_def example_solvers_def)
  have dyn: "\<not> FindMode_IsDynamicHybrid (l_mode example_lib) (l_enforce example_lib) False"
    by (simp add: FindMode_IsDynamicHybrid_def example_lib_def)
  have found: "data_solutions_of example_lib p Forward False () = [(''GemmFwdRest'', example_solution)]"
    by (simp add: data_solutions_of_def wino dyn example_solutions)
  with p ws fit show ?thesis by auto
qed

theorem wrw_workspace_suffices_witness:
  "\<exists>p. problem_of_tensors BackwardWeights (c_x example_tensors) (c_w example_tensors) (c_y example_tensors) example_conv = Inr p
    \<and> BackwardWeightsGetWorkSpaceSize example_lib (c_y example_tensors) (c_x example_tensors) (c_w example_tensors) example_conv
      example_host = Some (example_host, Inr 64)
    \<and> wrw_solutions_of example_lib p False () = [(''GemmFwdRest'', example_solution)]
    \<and> fits \<lparr>ip_null = False, ip_size = 64\<rparr> example_solution"
proof -
  have "case problem_of_tensors BackwardWeights (c_x example_tensors) (c_w example_tensors) (c_y example_tensors) example_conv of
      Inl _ \<Rightarrow> False | Inr p \<Rightarrow> True" by code_simp
  then obtain p where p: "problem_of_tensors BackwardWeights (c_x example_tensors) (c_w example_tensors) (c_y example_tensors)
      example_conv = Inr p" by (auto split: sum.splits)
  have "BackwardWeightsGetWorkSpaceSize_find (l_switches example_lib) (l_solvers example_lib p) (size_context (find_context_of example_lib)) = 64"
    by (simp add: BackwardWeightsGetWorkSpaceSize_find_def example_gemm_workspace BackwardWeightsGetWorkSpaceSizeImplicitGemm_def
        BackwardWeightsGetWorkSpaceSizeWinograd_def BackwardWeightsGetWorkSpaceSizeDirect_def FindImplicitGemmWrWWorkspaceSizes_def
        FindWinogradWrWWorkspaceSizes_def AllDirectBwdWrW2DWorkspaceSize_def example_query_sizes(2) elsewhere max_workspace_def)
  then have ws: "BackwardWeightsGetWorkSpaceSize example_lib (c_y example_tensors) (c_x example_tensors) (c_w example_tensors)
      example_conv example_host = Some (example_host, Inr 64)"
    by (simp add: BackwardWeightsGetWorkSpaceSize_def p query_workspace_def example_choice)
  have gemm: "use_gemm (l_switches example_lib) \<or> (\<forall>ctx. \<forall>t \<in> set GetGemmSolvers. \<not> IsApplicable (l_solvers example_lib p ctx t))"
    by (simp add: example_lib_def example_switches_def)
  have fit: "\<forall>x \<in> set (wrw_solutions_of example_lib p False ()). fits \<lparr>ip_null = False, ip_size = 64\<rparr> (snd x)"
    using wrw_workspace_suffices [OF example_lib_answers gemm p ws] by (simp add: enough_for_def example_choice)
  have ctx: "(find_context_of example_lib)\<lparr>do_search := False\<rparr> = find_context_of example_lib"
    by (simp add: find_context_of_def fresh_context_def)
  have db: "l_perf_db example_lib p = example_db" by (simp add: example_lib_def)
  have "wrw_solutions_of example_lib p False () = [(''GemmFwdRest'', example_solution)]"
    unfolding wrw_solutions_of_def ctx db
    by (simp add: FindWrwSolutions_def FindAllGemmSolutions_def FindAllBwdWrW2DSolutions_def FindWinogradWrWAllSolutions_def
        FindImplicitGemmWrWAllSolutions_def example_searches elsewhere)
      (simp add: example_lib_def example_switches_def)
  with p ws fit show ?thesis by auto
qed

end
