(* ===== verification/Tensor_Copy.thy ===== *)
theory Tensor_Copy
  imports Tensor
begin

text \<open>
  \<open>CopyTensor\<close> (\<open>src/ocl/tensorocl.cpp\<close>): copying a tensor from one buffer to another, with the flattening of the
  two descriptors (\<open>src/include/miopen/tensor_ops.hpp\<close>), the sizes of the grid and what the threads of the kernel do
  (\<open>src/kernels/MIOpenSubTensorOpWithSubTensorKernel.cl\<close>).

  A buffer holds elements of the type of its descriptor; a null pointer is \<open>None\<close>. The offsets are \<open>int\<close>s, indices in
  the kernel are 32-bit words. Copying has no result (\<open>None\<close>) where the code divides by a stride of zero, reads the
  first element of an empty range, or fails an assertion. Numbers of threads are natural numbers. When a descriptor puts
  two elements in one place, the threads race; the model takes them in turn.
\<close>

type_synonym 'a buffer = "nat \<Rightarrow> 'a"

text \<open>A \<open>std::size_t\<close> stored in an \<open>int\<close>.\<close>

definition narrow_int :: "size_t \<Rightarrow> int" where
  "narrow_int x = sint (ucast x :: 32 word)"

lemma narrow_of_nat: "k < 2 ^ 31 \<Longrightarrow> narrow_int (of_nat k) = int k"
  by (simp add: narrow_int_def unsigned_of_nat signed_of_nat take_bit_nat_eq_self signed_take_bit_int_eq_self)

lemma narrow_bounds: "- (2 ^ 31) \<le> narrow_int a" "narrow_int a < 2 ^ 31"
  using sint_greater_eq [of "ucast a :: 32 word"] sint_less [of "ucast a :: 32 word"] by (simp_all add: narrow_int_def)

section \<open>Flattening\<close>

text \<open>The loop over the dimensions of length other than 1, of which the previous one has the strides \<open>pa\<close> and \<open>pb\<close>.\<close>

fun flatten_dims :: "size_t \<Rightarrow> size_t \<Rightarrow> size_t \<Rightarrow> (size_t \<times> size_t \<times> size_t) list \<Rightarrow> (size_t \<times> size_t \<times> size_t) list option" where
  "flatten_dims flat_len pa pb [] = Some [(flat_len, pa, pb)]"
| "flatten_dims flat_len pa pb ((len, sa, sb) # dims) =
     (if sa = 0 \<or> sb = 0 then None
      else if len = pa div sa \<and> len = pb div sb then flatten_dims (flat_len * len) sa sb dims
      else map_option (Cons (flat_len, pa, pb)) (flatten_dims len sa sb dims))"

definition GetConsistentFlattenedTensorDescriptors :: "tensor \<Rightarrow> tensor \<Rightarrow> (tensor \<times> tensor) option" where
  "GetConsistentFlattenedTensorDescriptors a b =
     (let desc = (\<lambda>t lens strides. TensorDescriptor_strides (t_type t) miopenTensorNCHW lens strides) in
      if t_packed a \<and> t_packed b
      then Some (desc a [GetElementSize a] [1], desc b [GetElementSize a] [1])
      else
        (case filter (\<lambda>d. fst d \<noteq> 1) (zip (t_lens a) (zip (t_strides a) (t_strides b))) of
           [] \<Rightarrow> None
         | (len, sa, sb) # dims \<Rightarrow>
             map_option (\<lambda>flat. (desc a (map fst flat) (map (\<lambda>d. fst (snd d)) flat),
                                 desc b (map fst flat) (map (\<lambda>d. snd (snd d)) flat)))
               (flatten_dims len sa sb dims)))"

section \<open>The grid\<close>

fun two_exp_loop :: "nat \<Rightarrow> nat \<Rightarrow> nat" where
  "two_exp_loop i n = (if n \<noteq> 0 then two_exp_loop (i * 2) (n div 2) else i)"

declare two_exp_loop.simps [simp del]

text \<open>The assertion is \<open>n > 0\<close>.\<close>

definition two_exp_ceiling :: "nat \<Rightarrow> nat option" where
  "two_exp_ceiling n = (if n = 0 then None else Some (two_exp_loop 1 (n - 1)))"

fun shrink_workers :: "nat \<Rightarrow> nat list \<Rightarrow> nat list" where
  "shrink_workers n [] = []"
| "shrink_workers n (size_old # sizes) =
     (if n > 1 then
        let size_new = (size_old - 1) div n + 1
        in size_new # shrink_workers (n div (size_old div size_new)) sizes
      else size_old # sizes)"

definition get_worker_sizes :: "nat list \<Rightarrow> nat list option" where
  "get_worker_sizes data_sizes =
     (if \<exists>n \<in> set data_sizes. two_exp_ceiling n = None then None
      else
        let worker_sizes = map (\<lambda>n. the (two_exp_ceiling n)) data_sizes;
            wgd = prod_list worker_sizes
        in Some (if wgd > 65536 then shrink_workers (wgd div 65536) worker_sizes else worker_sizes))"

text \<open>Where a thread starts in each dimension, and the loop of one dimension.\<close>

fun thread_begins :: "nat list \<Rightarrow> nat \<Rightarrow> nat list" where
  "thread_begins [] itmp = []"
| "thread_begins (w # ws) itmp = (let stride = prod_list ws in itmp div stride # thread_begins ws (itmp mod stride))"

function dim_loop :: "nat \<Rightarrow> nat \<Rightarrow> nat \<Rightarrow> nat list" where
  "dim_loop did work_length len = (if did < len \<and> 0 < work_length then did # dim_loop (did + work_length) work_length len else [])"
  by pat_completeness auto
termination by (relation "measure (\<lambda>(did, work_length, len). len - did)") auto

declare dim_loop.simps [simp del]

definition thread_indices :: "nat list \<Rightarrow> nat list \<Rightarrow> nat \<Rightarrow> nat list list" where
  "thread_indices ws lens tid =
     product_lists (map (\<lambda>(begin, w, len). dim_loop begin w len) (zip (thread_begins ws tid) (zip ws lens)))"

text \<open>The place of an element: the strides arrive as \<open>int\<close>, the sum is unsigned.\<close>

definition kernel_index :: "size_t list \<Rightarrow> int \<Rightarrow> nat list \<Rightarrow> nat" where
  "kernel_index strides offset dids =
     unat (sum_list (map (\<lambda>(s, did). of_int (narrow_int s) * of_nat did) (zip strides dids)) + of_int offset :: 32 word)"

definition SubTensorOpWithSubTensor ::
  "nat list \<Rightarrow> nat list \<Rightarrow> size_t list \<Rightarrow> int \<Rightarrow> size_t list \<Rightarrow> int \<Rightarrow> 'a buffer \<Rightarrow> 'a buffer \<Rightarrow> 'a buffer" where
  "SubTensorOpWithSubTensor ws lens srcStrides srcOffset dstStrides dstOffset src dst =
     foldl (\<lambda>dst dids. dst(kernel_index dstStrides dstOffset dids := src (kernel_index srcStrides srcOffset dids)))
       dst (concat (map (thread_indices ws lens) [0..<prod_list ws]))"

section \<open>Copying\<close>

definition Handle_Copy :: "'a buffer \<Rightarrow> 'a buffer \<Rightarrow> nat \<Rightarrow> 'a buffer" where
  "Handle_Copy src dst n = (\<lambda>k. if k < n then src k else dst k)"

definition CopyTensor ::
  "tensor \<Rightarrow> 'a buffer option \<Rightarrow> tensor \<Rightarrow> 'a buffer option \<Rightarrow> int \<Rightarrow> int \<Rightarrow> 'a buffer result option" where
  "CopyTensor srcDesc src dstDesc dst srcOffset dstOffset =
     (case (src, dst) of
        (Some s, Some m) \<Rightarrow>
          if t_type srcDesc \<noteq> t_type dstDesc then Some (throw_st miopenStatusBadParm ''Tensor types do not match.'')
          else if t_lens srcDesc \<noteq> t_lens dstDesc
          then Some (throw_st miopenStatusBadParm ''Tensor dimension lengths do not match.'')
          else
            (case GetConsistentFlattenedTensorDescriptors srcDesc dstDesc of
               None \<Rightarrow> None
             | Some (srcDesc_flat, dstDesc_flat) \<Rightarrow>
                 let dim = length (t_lens srcDesc_flat) in
                 if dim < 1 \<or> dim > 5
                 then Some (throw_st miopenStatusBadParm ''Tensor dimension sizes unsupported.'')
                 else if srcOffset > 0 \<or> dstOffset > 0 \<or> \<not> (t_packed srcDesc_flat \<and> t_packed dstDesc_flat)
                 then map_option (\<lambda>ws. Inr (SubTensorOpWithSubTensor ws
                          (map (\<lambda>l. unat (of_int (narrow_int l) :: 32 word)) (t_lens srcDesc_flat))
                          (t_strides srcDesc_flat) srcOffset (t_strides dstDesc_flat) dstOffset s m))
                        (get_worker_sizes (map unat (t_lens srcDesc_flat)))
                 else Some (Inr (Handle_Copy s m (unat (GetElementSize srcDesc_flat)))))
      | _ \<Rightarrow> Some (throw_st miopenStatusBadParm ''Null pointer for tensor.''))"

section \<open>The threads of a one-dimensional copy\<close>

lemma two_exp_loop_pos: "0 < i \<Longrightarrow> 0 < two_exp_loop i n"
  by (induction i n rule: two_exp_loop.induct) (subst two_exp_loop.simps, simp)

lemma get_worker_sizes_one: "0 < n \<Longrightarrow> \<exists>w. get_worker_sizes [n] = Some [w] \<and> 0 < w"
  using two_exp_loop_pos [of 1 "n - 1"]
  by (simp add: get_worker_sizes_def two_exp_ceiling_def Let_def)

lemma dim_loop_set: "0 < w \<Longrightarrow> b < w \<Longrightarrow> set (dim_loop (b + j * w) w n) = {i. b + j * w \<le> i \<and> i < n \<and> i mod w = b}"
proof (induction "n - (b + j * w)" arbitrary: j rule: less_induct)
  case less
  let ?d = "b + j * w"
  show ?case
  proof (cases "?d < n")
    case False
    then show ?thesis by (subst dim_loop.simps) auto
  next
    case True
    with less.prems have "n - (b + Suc j * w) < n - ?d" by simp
    from less.hyps [OF this less.prems]
    have "set (dim_loop ?d w n) = insert ?d {i. ?d + w \<le> i \<and> i < n \<and> i mod w = b}"
      using True less.prems(1) by (subst dim_loop.simps) (simp add: add_ac)
    also have "\<dots> = {i. ?d \<le> i \<and> i < n \<and> i mod w = b}"
    proof (intro set_eqI iffI)
      fix i
      assume i: "i \<in> {i. ?d \<le> i \<and> i < n \<and> i mod w = b}"
      show "i \<in> insert ?d {i. ?d + w \<le> i \<and> i < n \<and> i mod w = b}"
      proof (cases "i < ?d + w")
        case False
        with i show ?thesis by simp
      next
        case True
        obtain q where q: "i = q * w + b" using i by (metis (mono_tags, lifting) div_mult_mod_eq mem_Collect_eq)
        with i True have "q * w < j * w + w" "j * w \<le> q * w" by simp_all
        then have "q * w < Suc j * w" "j * w \<le> q * w" by simp_all
        then have "q < Suc j" "j \<le> q" using less.prems(1) by (metis mult_less_cancel2, metis mult_le_cancel2 not_less0)
        with q show ?thesis by (simp add: le_antisym less_Suc_eq_le)
      qed
    qed (use True less.prems in auto)
    finally show ?thesis .
  qed
qed

lemma thread_indices_one: "t < w \<Longrightarrow> thread_indices [w] [n] t = map (\<lambda>i. [i]) (dim_loop t w n)"
  by (simp add: thread_indices_def comp_def concat_map_singleton)

lemma grid_covers:
  assumes "0 < w"
  shows "set (concat (map (thread_indices [w] [n]) [0..<prod_list [w]])) = (\<lambda>i. [i]) ` {0..<n}"
proof -
  have "set (thread_indices [w] [n] t) = (\<lambda>i. [i]) ` {i. i < n \<and> i mod w = t}" if "t < w" for t
  proof -
    have "{i. t \<le> i \<and> i < n \<and> i mod w = t} = {i. i < n \<and> i mod w = t}" by (auto intro: mod_less_eq_dividend)
    with dim_loop_set [OF assms that, of 0 n] show ?thesis by (simp add: thread_indices_one [OF that])
  qed
  then have "set (concat (map (thread_indices [w] [n]) [0..<prod_list [w]])) = (\<Union>t \<in> {0..<w}. (\<lambda>i. [i]) ` {i. i < n \<and> i mod w = t})"
    by simp
  also have "\<dots> = (\<lambda>i. [i]) ` {0..<n}" using assms by fastforce
  finally show ?thesis .
qed

text \<open>Writes to distinct places, in any order and any number of times.\<close>

lemma foldl_writes:
  assumes "inj_on f (set is)"
  shows "foldl (\<lambda>m i. m(f i := g i)) m is k = (if k \<in> f ` set is then g (the_inv_into (set is) f k) else m k)"
  using assms
proof (induction "is" rule: rev_induct)
  case (snoc i xs)
  have inj: "inj_on f (set xs)" by (rule inj_on_subset [OF snoc.prems]) auto
  have inv: "the_inv_into (set (xs @ [i])) f (f j) = j" if "j \<in> set (xs @ [i])" for j
    by (rule the_inv_into_f_f [OF snoc.prems that])
  have "the_inv_into (set xs) f (f j) = j" if "j \<in> set xs" for j
    by (rule the_inv_into_f_f [OF inj that])
  with snoc.IH [OF inj] inv show ?case by auto
qed simp

lemma kernel_index_one:
  assumes "0 \<le> offset" "nat offset + i < 2 ^ 32"
  shows "kernel_index [1] offset [i] = nat offset + i"
proof -
  have "narrow_int 1 = 1" using narrow_of_nat [of 1] by simp
  then have "kernel_index [1] offset [i] = unat (of_nat i + of_int offset :: 32 word)" by (simp add: kernel_index_def)
  also have "of_nat i + of_int offset = (of_nat (nat offset + i) :: 32 word)" using assms(1) by (simp add: add.commute)
  also have "unat \<dots> = nat offset + i" using assms(2) by (simp only: unat_of_nat) (simp add: take_bit_nat_eq_self)
  finally show ?thesis .
qed

text \<open>What is new after a copy of \<open>n\<close> elements to offset \<open>b\<close>.\<close>

definition overwrite :: "nat \<Rightarrow> nat \<Rightarrow> 'a buffer \<Rightarrow> 'a buffer \<Rightarrow> 'a buffer" where
  "overwrite b n src dst = (\<lambda>k. if b \<le> k \<and> k < b + n then src (k - b) else dst k)"

lemma linear_copy:
  assumes "0 < w" "0 \<le> so" "0 \<le> off" "nat so + n \<le> 2 ^ 32" "nat off + n \<le> 2 ^ 32"
  shows "SubTensorOpWithSubTensor [w] [n] [1] so [1] off src dst = overwrite (nat off) n (\<lambda>i. src (nat so + i)) dst"
proof
  fix k
  let ?is = "concat (map (thread_indices [w] [n]) [0..<prod_list [w]])"
  note cover = grid_covers [OF assms(1), of n]
  have at: "kernel_index [1] off x = nat off + hd x \<and> kernel_index [1] so x = nat so + hd x" if "x \<in> set ?is" for x
    using that assms unfolding cover by (auto simp: kernel_index_one)
  have inj: "inj_on (kernel_index [1] off) (set ?is)"
  proof (rule inj_onI)
    fix x y
    assume x: "x \<in> set ?is" and y: "y \<in> set ?is" and eq: "kernel_index [1] off x = kernel_index [1] off y"
    obtain a b where "x = [a]" "y = [b]" using x y unfolding cover by blast
    with at [OF x] at [OF y] eq show "x = y" by simp
  qed
  have image: "kernel_index [1] off ` set ?is = {nat off..<nat off + n}"
  proof -
    have "kernel_index [1] off ` set ?is = (\<lambda>x. nat off + hd x) ` set ?is" by (rule image_cong) (use at in auto)
    also have "\<dots> = {nat off..<nat off + n}" unfolding cover image_image by (simp add: add.commute)
    finally show ?thesis .
  qed
  have inverse: "the_inv_into (set ?is) (kernel_index [1] off) k = [k - nat off]" if "nat off \<le> k" "k < nat off + n"
  proof (rule the_inv_into_f_eq [OF inj])
    show m: "[k - nat off] \<in> set ?is" unfolding cover using that by auto
    show "kernel_index [1] off [k - nat off] = k" using at [OF m] that by simp
  qed
  show "SubTensorOpWithSubTensor [w] [n] [1] so [1] off src dst k = overwrite (nat off) n (\<lambda>i. src (nat so + i)) dst k"
  proof (cases "nat off \<le> k \<and> k < nat off + n")
    case True
    then have "[k - nat off] \<in> set ?is" unfolding cover by auto
    from at [OF this] inverse True show ?thesis
      unfolding SubTensorOpWithSubTensor_def foldl_writes [OF inj] image by (simp add: overwrite_def)
  next
    case False
    then show ?thesis unfolding SubTensorOpWithSubTensor_def foldl_writes [OF inj] image by (auto simp: overwrite_def)
  qed
qed

section \<open>Copies between packed descriptors\<close>

text \<open>Two packed descriptors of the same lengths are flattened to one dimension with stride 1, whatever their strides: the
  elements are copied in the order in which they lie in the buffers.\<close>

lemma flat_fields:
  "t_lens (TensorDescriptor_strides ty miopenTensorNCHW [sz] [1]) = [sz]"
  "t_strides (TensorDescriptor_strides ty miopenTensorNCHW [sz] [1]) = [1]"
  "t_packed (TensorDescriptor_strides ty miopenTensorNCHW [sz] [1])"
  "GetElementSize (TensorDescriptor_strides ty miopenTensorNCHW [sz] [1]) = sz"
  by (simp_all add: TensorDescriptor_strides_def CalculateVectorLength_def GetElementSize_def GetElementSpace_def
      inner_product_def Let_def)

theorem CopyTensor_packed:
  assumes "t_packed a" "t_packed b" "t_type a = t_type b" "t_lens a = t_lens b" "unat (GetElementSize a) = n"
    and "0 < n" "n < 2 ^ 31" "0 \<le> so" "0 \<le> off" "nat so + n \<le> 2 ^ 32" "nat off + n \<le> 2 ^ 32"
  shows "CopyTensor a (Some s) b (Some m) so off = Some (Inr (overwrite (nat off) n (\<lambda>i. s (nat so + i)) m))"
proof -
  obtain w where w: "get_worker_sizes [n] = Some [w]" "0 < w" using get_worker_sizes_one [OF assms(6)] by blast
  have size: "GetElementSize a = of_nat n" using assms(5) by (metis of_nat_unat ucast_id)
  then have "narrow_int (GetElementSize a) = int n" using narrow_of_nat [OF assms(7)] by simp
  moreover have "unat (of_int (int n) :: 32 word) = n" using assms(7) by (simp add: unat_of_nat)
  ultimately have len: "unat (of_int (narrow_int (GetElementSize a)) :: 32 word) = n" by simp
  have "Handle_Copy s m n = overwrite 0 n s m" by (auto simp: Handle_Copy_def overwrite_def fun_eq_iff)
  then show ?thesis
    using assms(1-5,8,9) w len linear_copy [OF w(2) assms(8,9,10,11)]
    by (auto simp: CopyTensor_def GetConsistentFlattenedTensorDescriptors_def Let_def flat_fields)
qed

text \<open>Otherwise a dimension is merged with the one before it when its length is the quotient of the strides, which
  is rounded down: with lengths 2 and 3 and strides 7 and 2 the six elements are taken for evenly spaced ones, and
  the second row goes to the places 6, 8 and 10 instead of 7, 9 and 11.\<close>

theorem CopyTensor_merges_rows:
  "\<exists>t. TensorDescriptor_int_strides miopenFloat [2, 3] [7, 2] = Inr t \<and> \<not> t_packed t \<and> GetIndex t [1, 0] = 7
    \<and> (\<exists>m. CopyTensor t (Some (\<lambda>k. k)) t (Some (\<lambda>k. 100)) 0 0 = Some (Inr m) \<and> map m [0..<12] = [0, 100, 2, 100, 4, 100, 6, 100, 8, 100, 10, 100])"
proof -
  let ?t = "TensorDescriptor_strides miopenFloat miopenTensorNCHW [2, 3] [7, 2]"
  have "TensorDescriptor_int_strides miopenFloat [2, 3] [7, 2] = Inr ?t" by (simp add: TensorDescriptor_int_strides_def)
  moreover have "\<not> t_packed ?t" "GetIndex ?t [1, 0] = 7" by code_simp+
  moreover have "\<exists>m. CopyTensor ?t (Some (\<lambda>k. k)) ?t (Some (\<lambda>k. 100)) 0 0 = Some (Inr m)
      \<and> map m [0..<12] = [0, 100, 2, 100, 4, 100, 6, 100, 8, 100, 10, 100]"
  proof -
    let ?f = "TensorDescriptor_strides miopenFloat miopenTensorNCHW [6] [2]"
    have flat: "GetConsistentFlattenedTensorDescriptors ?t ?t = Some (?f, ?f)" by code_simp
    have fields: "t_lens ?f = [6]" "t_strides ?f = [2]" "\<not> t_packed ?f" "unat (of_int (narrow_int 6) :: 32 word) = 6" by code_simp+
    have grid: "get_worker_sizes [6] = Some [8]"
      by (simp add: get_worker_sizes_def two_exp_ceiling_def two_exp_loop.simps)
    have threads: "concat (map (thread_indices [8] [6]) [0..<8]) = [[0], [1], [2], [3], [4], [5]]"
      by (simp add: thread_indices_one upt_rec dim_loop.simps)
    have place: "kernel_index [2] 0 [0] = 0" "kernel_index [2] 0 [1] = 2" "kernel_index [2] 0 [2] = 4"
      "kernel_index [2] 0 [3] = 6" "kernel_index [2] 0 [4] = 8" "kernel_index [2] 0 [5] = 10" by code_simp+
    let ?m = "(\<lambda>k. 100)(0 := 0, 2 := 2, 4 := 4, 6 := 6, 8 := 8, 10 := 10)"
    have "prod_list [8] = (8 :: nat)" by simp
    then have run: "SubTensorOpWithSubTensor [8] [6] [2] 0 [2] 0 (\<lambda>k. k) (\<lambda>k. 100) = ?m"
      unfolding SubTensorOpWithSubTensor_def using threads place by (simp del: upt_conv_Cons)
    have "CopyTensor ?t (Some (\<lambda>k. k)) ?t (Some (\<lambda>k. 100)) 0 0 = Some (Inr ?m)"
      by (simp add: CopyTensor_def flat fields grid run)
    moreover have "map ?m [0..<12] = [0, 100, 2, 100, 4, 100, 6, 100, 8, 100, 10, 100]" by (simp add: upt_rec)
    ultimately show ?thesis by (intro exI conjI)
  qed
  ultimately show ?thesis by (intro exI [of _ ?t] conjI)
qed

end
