(* ===== verification/Rnn_Params.thy ===== *)
theory Rnn_Params
  imports Tensor_Copy
begin

text \<open>
  \<open>RNNDescriptor\<close> (\<open>src/rnn.cpp\<close>, \<open>src/include/miopen/rnn.hpp\<close>): its construction, the sizes of its buffers, and where
  the matrices and biases of its layers lie in the buffer of the parameters, from and to which they are copied.
  Enumerations are \<open>int\<close>, as in C; \<open>std::size_t\<close> is a 64-bit word, layer and parameter numbers are \<open>int\<close>.
\<close>

abbreviation (input) miopenRNNRELU :: int where "miopenRNNRELU \<equiv> 0"
abbreviation (input) miopenRNNTANH :: int where "miopenRNNTANH \<equiv> 1"
abbreviation (input) miopenLSTM :: int where "miopenLSTM \<equiv> 2"
abbreviation (input) miopenGRU :: int where "miopenGRU \<equiv> 3"
abbreviation (input) miopenRNNlinear :: int where "miopenRNNlinear \<equiv> 0"
abbreviation (input) miopenRNNskip :: int where "miopenRNNskip \<equiv> 1"
abbreviation (input) miopenRNNdefault :: int where "miopenRNNdefault \<equiv> 0"
abbreviation (input) miopenRNNunidirection :: int where "miopenRNNunidirection \<equiv> 0"
abbreviation (input) miopenRNNbidirection :: int where "miopenRNNbidirection \<equiv> 1"
abbreviation (input) miopenRNNNoBias :: int where "miopenRNNNoBias \<equiv> 0"
abbreviation (input) miopenRNNwithBias :: int where "miopenRNNwithBias \<equiv> 1"

text \<open>Of the dropout descriptor only whether its rate differs from zero is used.\<close>

record rnn_desc =
  hsize :: size_t
  nLayers :: size_t
  nHiddenTensorsPerLayer :: size_t
  workspaceScale :: size_t
  rnnMode :: int
  dirMode :: int
  algoMode :: int
  inputMode :: int
  biasMode :: int
  rnn_dataType :: data_type
  typeSize :: size_t
  rnn_dropout :: bool

section \<open>Construction\<close>

definition RNNDescriptor_default :: rnn_desc where
  "RNNDescriptor_default = \<lparr>hsize = 0, nLayers = 1, nHiddenTensorsPerLayer = 0, workspaceScale = 1,
     rnnMode = miopenRNNTANH, dirMode = miopenRNNunidirection, algoMode = miopenRNNdefault,
     inputMode = miopenRNNlinear, biasMode = miopenRNNNoBias, rnn_dataType = miopenFloat, typeSize = 4,
     rnn_dropout = False\<rparr>"

text \<open>Both constructors make the same checks and settings; the second one takes a dropout descriptor, the first one
  makes a new one, whose rate is zero.\<close>

definition RNNDescriptor_dropout ::
  "int \<Rightarrow> int \<Rightarrow> int \<Rightarrow> int \<Rightarrow> int \<Rightarrow> int \<Rightarrow> int \<Rightarrow> data_type \<Rightarrow> bool \<Rightarrow> rnn_desc result" where
  "RNNDescriptor_dropout hsz layers rmode inMode bidir bmode amode dType dropout =
     (if hsz < 0 \<or> layers < 0
      then throw_st miopenStatusBadParm ''RNNDescriptor: Bad parameter(s). RNN hidden size and layer number must be positive integers.''
      else if \<not> (rmode = miopenRNNRELU \<or> rmode = miopenRNNTANH \<or> rmode = miopenLSTM \<or> rmode = miopenGRU)
      then throw_st miopenStatusBadParm
        ''RNNDescriptor: Bad parameter(s). RNN mode must be vanilla activated with ReLU or Tanh, LSTM or GRU.''
      else if bidir \<noteq> 0 \<and> bidir \<noteq> 1
      then throw_st miopenStatusBadParm ''RNNDescriptor: Bad parameter(s). Parameters to RNN directional type must be 0 for uni-direction or 1 for bi-direction.''
      else if bmode \<noteq> 0 \<and> bmode \<noteq> 1
      then throw_st miopenStatusBadParm
        ''RNNDescriptor: Bad parameter(s). Parameters to RNN bias type must be 0 for disabled bias or 1 for enabled bias.''
      else if dType \<noteq> miopenFloat \<and> dType \<noteq> miopenHalf
      then throw_st miopenStatusBadParm ''RNNDescriptor: Bad parameter(s). RNN datatype must be float or half.''
      else Inr \<lparr>hsize = of_int hsz, nLayers = of_int layers,
        nHiddenTensorsPerLayer = (if rmode = 0 \<or> rmode = 1 then 1 else if rmode = 2 then 4 else 3),
        workspaceScale = (if rmode = 0 \<or> rmode = 1 then 1 else if rmode = 2 then 6 else 4),
        rnnMode = rmode, dirMode = bidir, algoMode = amode, inputMode = inMode, biasMode = bmode,
        rnn_dataType = dType, typeSize = (if dType = miopenHalf then 2 else 4), rnn_dropout = dropout\<rparr>)"

definition RNNDescriptor :: "int \<Rightarrow> int \<Rightarrow> int \<Rightarrow> int \<Rightarrow> int \<Rightarrow> int \<Rightarrow> int \<Rightarrow> data_type \<Rightarrow> rnn_desc result" where
  "RNNDescriptor hsz layers rmode inMode bidir bmode amode dType =
     RNNDescriptor_dropout hsz layers rmode inMode bidir bmode amode dType False"

definition isNotRNNskip :: "rnn_desc \<Rightarrow> bool" where
  "isNotRNNskip d \<longleftrightarrow> inputMode d \<noteq> miopenRNNskip"

section \<open>Sizes\<close>

text \<open>\<open>std::accumulate\<close> with the initial value \<open>0\<close> accumulates in an \<open>int\<close>.\<close>

definition inputBatchLenSum :: "tensor list \<Rightarrow> size_t" where
  "inputBatchLenSum xDesc =
     scast (foldl (\<lambda>(acc :: 32 word) t. ucast (scast acc + t_lens t ! 0 :: size_t)) 0 xDesc)"

definition mismatch :: "'a result" where
  "mismatch = throw_st miopenStatusBadParm ''Data type mismatch between descriptors''"

definition GetWorkspaceSize_rnn :: "rnn_desc \<Rightarrow> tensor list \<Rightarrow> size_t result" where
  "GetWorkspaceSize_rnn d xDesc =
     (if t_type (xDesc ! 0) \<noteq> rnn_dataType d then mismatch
      else
        let x = workspaceScale d * nLayers d * inputBatchLenSum xDesc * hsize d * typeSize d
        in Inr (if dirMode d = miopenRNNbidirection then 2 * x else x))"

definition GetReserveSize :: "rnn_desc \<Rightarrow> tensor list \<Rightarrow> size_t result" where
  "GetReserveSize d xDesc =
     (if t_type (xDesc ! 0) \<noteq> rnn_dataType d then mismatch
      else
        let len = inputBatchLenSum xDesc;
            x = 2 * workspaceScale d * nLayers d * len * hsize d * typeSize d;
            x = (if algoMode d = miopenRNNdefault \<and> rnnMode d = miopenLSTM
                 then x div 2 + nLayers d * len * hsize d * typeSize d else x);
            x = (if rnn_dropout d
                 then x + (nLayers d - 1) * len * hsize d * typeSize d + (nLayers d - 1) * len * hsize d * 1 else x)
        in Inr (if dirMode d = miopenRNNbidirection then 2 * x else x))"

definition inputVectorLen :: "rnn_desc \<Rightarrow> tensor \<Rightarrow> size_t" where
  "inputVectorLen d xDesc = (if inputMode d = miopenRNNskip then 0 else t_lens xDesc ! 1)"

definition GetParamsSize :: "rnn_desc \<Rightarrow> tensor \<Rightarrow> data_type \<Rightarrow> size_t result" where
  "GetParamsSize d xDesc dtype =
     (if t_type xDesc \<noteq> rnn_dataType d \<or> dtype \<noteq> rnn_dataType d then throw_st miopenStatusBadParm ''Data type mismatch.''
      else
        let bi = (if dirMode d = miopenRNNbidirection then 2 else 1 :: size_t);
            sz = nHiddenTensorsPerLayer d * hsize d * bi *
                 (inputVectorLen d xDesc + hsize d + (nLayers d - 1) * (bi + 1) * hsize d);
            sz = (if biasMode d = miopenRNNwithBias then sz + nLayers d * 2 * nHiddenTensorsPerLayer d * hsize d * bi else sz)
        in Inr (typeSize d * sz))"

definition GetRNNInputSuperTensorSize :: "rnn_desc \<Rightarrow> tensor list \<Rightarrow> size_t result" where
  "GetRNNInputSuperTensorSize d xDesc =
     (if t_type (xDesc ! 0) \<noteq> rnn_dataType d then mismatch
      else Inr (inputBatchLenSum xDesc * t_lens (xDesc ! 0) ! 1 * typeSize d))"

definition GetRNNHiddenSuperTensorSize :: "rnn_desc \<Rightarrow> tensor list \<Rightarrow> size_t result" where
  "GetRNNHiddenSuperTensorSize d xDesc =
     (if t_type (xDesc ! 0) \<noteq> rnn_dataType d then mismatch
      else
        let x = t_lens (xDesc ! 0) ! 0 * hsize d * nLayers d * typeSize d
        in Inr (if dirMode d = miopenRNNbidirection then 2 * x else x))"

definition GetParamsDescriptor :: "rnn_desc \<Rightarrow> tensor \<Rightarrow> data_type \<Rightarrow> tensor result" where
  "GetParamsDescriptor d xDesc dtype =
     (if dtype \<noteq> rnn_dataType d then throw_st miopenStatusBadParm ''Data type mismatch.''
      else
        let bi = (if dirMode d = miopenRNNbidirection then 2 else 1 :: size_t);
            lens0 = narrow_int (inputVectorLen d xDesc + ((nLayers d - 1) * (bi + 1) + 1) * hsize d);
            lens1 = narrow_int (bi * hsize d * nHiddenTensorsPerLayer d);
            lens0 = (if biasMode d = miopenRNNwithBias then narrow_int (of_int lens0 + nLayers d * 2) else lens0)
        in TensorDescriptor_ints dtype miopenTensorNCHW [lens0, lens1])"

definition GetLayerParamSize :: "rnn_desc \<Rightarrow> int \<Rightarrow> tensor \<Rightarrow> int \<Rightarrow> size_t result" where
  "GetLayerParamSize d layer xDesc paramID =
     (if t_type xDesc \<noteq> rnn_dataType d then throw_st miopenStatusBadParm ''Data type mismatch.''
      else if (dirMode d \<noteq> 0 \<and> layer \<le> 1) \<or> (dirMode d = 0 \<and> layer < 1) then
        (if of_int paramID \<ge> nHiddenTensorsPerLayer d then Inr (typeSize d * hsize d * hsize d)
         else if isNotRNNskip d then Inr (typeSize d * inputVectorLen d xDesc * hsize d)
         else Inr 0)
      else if dirMode d \<noteq> 0 \<and> of_int paramID < nHiddenTensorsPerLayer d then Inr (typeSize d * hsize d * hsize d * 2)
      else Inr (typeSize d * hsize d * hsize d))"

definition GetLayerBiasSize :: "rnn_desc \<Rightarrow> size_t" where
  "GetLayerBiasSize d = typeSize d * hsize d"


section \<open>The sum of the batch lengths\<close>

text \<open>The sum is exact below \<open>2 ^ 31\<close>, and wrong from there on, because the accumulator is an \<open>int\<close>.\<close>

lemma batch_step: "(ucast (scast (acc :: 32 word) + l :: size_t) :: 32 word) = acc + of_nat (unat l)"
proof -
  have down: "is_down (ucast :: size_t \<Rightarrow> 32 word)" by (simp add: is_down)
  have "(scast acc + l :: size_t) = word_of_int (sint acc) + word_of_int (uint l)"
    unfolding scast_eq by simp
  then have "(scast acc + l :: size_t) = word_of_int (sint acc + uint l)" unfolding wi_hom_add .
  then have "(ucast (scast acc + l :: size_t) :: 32 word) = word_of_int (sint acc + uint l)"
    using ucast_down_wi [OF down] by metis
  also have "\<dots> = word_of_int (sint acc) + word_of_int (uint l)" by (rule wi_hom_add [symmetric])
  also have "\<dots> = acc + of_nat (unat l)" unfolding unat_eq_nat_uint by simp
  finally show ?thesis .
qed

lemma narrow_back: "s < 2 ^ 31 \<Longrightarrow> scast (of_nat s :: 32 word) = (of_nat s :: size_t)"
  unfolding scast_eq by (simp add: signed_of_nat signed_take_bit_int_eq_self)

lemma batch_fold: "foldl (\<lambda>(acc :: 32 word) t. ucast (scast acc + t_lens t ! 0 :: size_t)) acc xs
    = acc + of_nat (sum_list (map (\<lambda>t. unat (t_lens t ! 0)) xs))"
  by (induction xs arbitrary: acc) (simp_all add: batch_step add.assoc)

lemma inputBatchLenSum_exact:
  assumes "sum_list (map (\<lambda>t. unat (t_lens t ! 0)) xs) < 2 ^ 31"
  shows "inputBatchLenSum xs = of_nat (sum_list (map (\<lambda>t. unat (t_lens t ! 0)) xs))"
  unfolding inputBatchLenSum_def batch_fold add_0 by (rule narrow_back [OF assms])

lemma inputBatchLenSum_truncates: "t_lens t ! 0 = 2 ^ 31 \<Longrightarrow> inputBatchLenSum [t] = - (2 ^ 31)"
  by (simp add: inputBatchLenSum_def)

section \<open>Where the parameters lie\<close>

text \<open>Offsets are in elements. A layer of a bidirectional network is one direction of it: layers come in pairs.\<close>

definition biasOffsetCalculation :: "rnn_desc \<Rightarrow> int \<Rightarrow> int \<Rightarrow> size_t" where
  "biasOffsetCalculation d layer biasID =
     (let h = hsize d; nH = nHiddenTensorsPerLayer d in
      if biasMode d = miopenRNNNoBias then 0
      else if dirMode d \<noteq> 0 then
        (h * 2) * nH * of_int (cdiv layer 2) * 2
        + (if of_int biasID \<ge> nH then h * nH else 0)
        + (if cmod layer 2 = 1 then nH * h else 0)
        + h * of_int biasID
      else (h * 2) * nH * of_int layer + h * of_int biasID)"

definition paramsOffsetCalculation :: "rnn_desc \<Rightarrow> tensor \<Rightarrow> int \<Rightarrow> int \<Rightarrow> size_t" where
  "paramsOffsetCalculation d xDesc layer paramID =
     (let v = inputVectorLen d xDesc; h = hsize d; nH = nHiddenTensorsPerLayer d in
      if dirMode d \<noteq> 0 then
        (if layer > 1 then
           (v * h + h * h) * nH * 2
           + (h * h * 2 + h * h) * nH * of_int (cdiv layer 2 - 1) * 2
           + (if of_int paramID \<ge> nH
              then h * h * 2 * nH * 2 + (if cmod layer 2 = 1 then nH * (h * h) else 0) + (h * h) * (of_int paramID - nH)
              else (if cmod layer 2 = 1 then nH * (2 * h * h) else 0) + (2 * h * h) * of_int paramID)
         else if of_int paramID \<ge> nH then
           (if isNotRNNskip d then (v * h) * nH * 2 else 0)
           + (if layer = 1 then nH * (h * h) else 0) + (h * h) * (of_int paramID - nH)
         else (if layer = 1 then nH * (v * h) else 0) + (v * h) * of_int paramID)
      else if layer > 0 then
        (v * h + h * h) * nH + (h * h * 2) * nH * of_int (layer - 1) + (h * h) * of_int paramID
      else if of_int paramID \<ge> nH then
        (if isNotRNNskip d then (v * h) * nH else 0) + (h * h) * (of_int paramID - nH)
      else (v * h) * of_int paramID)"

definition pTensorLengthsCalculation :: "rnn_desc \<Rightarrow> tensor \<Rightarrow> int \<Rightarrow> int \<Rightarrow> int list" where
  "pTensorLengthsCalculation d xDesc layer paramID =
     (let v = inputVectorLen d xDesc; h = hsize d; nH = nHiddenTensorsPerLayer d in
      if dirMode d \<noteq> 0 then
        (if of_int paramID \<ge> nH then [narrow_int h, narrow_int h]
         else if layer > 1 then [narrow_int h, narrow_int (h * 2)] else [narrow_int h, narrow_int v])
      else if layer > 0 then [narrow_int h, narrow_int h]
      else if of_int paramID \<ge> nH then [narrow_int h, narrow_int h] else [narrow_int h, narrow_int v])"

section \<open>Reading and writing one matrix\<close>

text \<open>\<open>w\<close> is the buffer of the parameters. The offsets that \<open>CopyTensor\<close> takes are \<open>int\<close>s.\<close>

definition null_in_skip_mode :: "rnn_desc \<Rightarrow> int \<Rightarrow> int \<Rightarrow> bool" where
  "null_in_skip_mode d layer paramID \<longleftrightarrow> \<not> isNotRNNskip d \<and>
     ((dirMode d \<noteq> 0 \<and> layer \<le> 1 \<and> of_int paramID < nHiddenTensorsPerLayer d)
      \<or> (dirMode d = 0 \<and> layer < 1 \<and> of_int paramID < nHiddenTensorsPerLayer d))"

text \<open>The descriptor that is handed out, and what \<open>param\<close> holds after the copy if it is not null.\<close>

definition GetLayerParam ::
  "rnn_desc \<Rightarrow> int \<Rightarrow> tensor \<Rightarrow> 'a buffer option \<Rightarrow> int \<Rightarrow> 'a buffer option \<Rightarrow> (tensor \<times> 'a buffer option) result option" where
  "GetLayerParam d layer xDesc w paramID param =
     (if null_in_skip_mode d layer paramID
      then Some (throw_st miopenStatusBadParm ''Parameter of input layer is null in input skip mode'')
      else
        (case TensorDescriptor_ints (rnn_dataType d) miopenTensorNCHW (pTensorLengthsCalculation d xDesc layer paramID) of
           Inl e \<Rightarrow> Some (Inl e)
         | Inr paramDesc \<Rightarrow>
             if param = None then Some (Inr (paramDesc, None))
             else map_option (map_sum id (\<lambda>b. (paramDesc, Some b)))
               (CopyTensor paramDesc w paramDesc param (narrow_int (paramsOffsetCalculation d xDesc layer paramID)) 0)))"

definition GetLayerParamOffset :: "rnn_desc \<Rightarrow> int \<Rightarrow> tensor \<Rightarrow> int \<Rightarrow> bool \<Rightarrow> (tensor \<times> size_t option) result" where
  "GetLayerParamOffset d layer xDesc paramID offset_null =
     (if null_in_skip_mode d layer paramID
      then throw_st miopenStatusBadParm ''Parameter of input layer is null in input skip mode''
      else
        (case TensorDescriptor_ints (rnn_dataType d) miopenTensorNCHW (pTensorLengthsCalculation d xDesc layer paramID) of
           Inl e \<Rightarrow> Inl e
         | Inr paramDesc \<Rightarrow>
             Inr (paramDesc, if offset_null then None else Some (paramsOffsetCalculation d xDesc layer paramID))))"

text \<open>The biases lie behind all matrices, where the layer after the last one would be.\<close>

definition biasOffset :: "rnn_desc \<Rightarrow> tensor \<Rightarrow> int \<Rightarrow> int \<Rightarrow> size_t" where
  "biasOffset d xDesc layer biasID =
     biasOffsetCalculation d layer biasID
     + paramsOffsetCalculation d xDesc (narrow_int (if dirMode d = miopenRNNbidirection then nLayers d * 2 else nLayers d)) 0"

text \<open>Without biases the early return leaves the descriptor alone, here \<open>None\<close>.\<close>

definition GetLayerBias ::
  "rnn_desc \<Rightarrow> int \<Rightarrow> tensor \<Rightarrow> 'a buffer option \<Rightarrow> int \<Rightarrow> 'a buffer option
    \<Rightarrow> (tensor option \<times> 'a buffer option) result option" where
  "GetLayerBias d layer xDesc w biasID bias =
     (if biasMode d = miopenRNNNoBias then Some (Inr (None, bias))
      else
        (case TensorDescriptor_ints (rnn_dataType d) miopenTensorNCHW [narrow_int (hsize d)] of
           Inl e \<Rightarrow> Some (Inl e)
         | Inr biasDesc \<Rightarrow>
             if bias = None then Some (Inr (Some biasDesc, None))
             else map_option (map_sum id (\<lambda>b. (Some biasDesc, Some b)))
               (CopyTensor biasDesc w biasDesc bias (narrow_int (biasOffset d xDesc layer biasID)) 0)))"

definition GetLayerBiasOffset :: "rnn_desc \<Rightarrow> int \<Rightarrow> tensor \<Rightarrow> int \<Rightarrow> bool \<Rightarrow> (tensor \<times> size_t option) option result" where
  "GetLayerBiasOffset d layer xDesc biasID offset_null =
     (if biasMode d = miopenRNNNoBias then Inr None
      else
        (case TensorDescriptor_ints (rnn_dataType d) miopenTensorNCHW [narrow_int (hsize d)] of
           Inl e \<Rightarrow> Inl e
         | Inr biasDesc \<Rightarrow> Inr (Some (biasDesc, if offset_null then None else Some (biasOffset d xDesc layer biasID)))))"

text \<open>The copies from \<open>param\<close> and \<open>bias\<close> to \<open>w\<close>: what \<open>w\<close> holds after them. \<open>SetLayerParam\<close> gives the matrix in
  \<open>w\<close> the strides 1 and number of rows; \<open>SetLayerBias\<close> describes \<open>bias\<close> by the new descriptor and \<open>w\<close> by the caller's.\<close>

definition SetLayerParam ::
  "rnn_desc \<Rightarrow> int \<Rightarrow> tensor \<Rightarrow> 'a buffer option \<Rightarrow> int \<Rightarrow> tensor \<Rightarrow> 'a buffer option \<Rightarrow> 'a buffer result option" where
  "SetLayerParam d layer xDesc w paramID paramDesc param =
     (if null_in_skip_mode d layer paramID
      then Some (throw_st miopenStatusBadParm ''Parameter of input layer is null in input skip mode'')
      else if param = None then Some (throw_st miopenStatusBadParm ''param data cannot be null'')
      else
        (case TensorDescriptor_int_strides (rnn_dataType d) (map narrow_int (take 2 (t_lens paramDesc)))
                [1, narrow_int (t_lens paramDesc ! 0)] of
           Inl e \<Rightarrow> Some (Inl e)
         | Inr paramSrc \<Rightarrow>
             if t_lens paramSrc \<noteq> t_lens paramDesc then Some (throw_st miopenStatusBadParm ''mismatch between descriptors'')
             else CopyTensor paramDesc param paramSrc w 0 (narrow_int (paramsOffsetCalculation d xDesc layer paramID))))"

definition SetLayerBias ::
  "rnn_desc \<Rightarrow> int \<Rightarrow> tensor \<Rightarrow> 'a buffer option \<Rightarrow> int \<Rightarrow> tensor \<Rightarrow> 'a buffer option \<Rightarrow> 'a buffer option result option" where
  "SetLayerBias d layer xDesc w biasID biasDesc bias =
     (if biasMode d = miopenRNNNoBias then Some (Inr w)
      else if bias = None then Some (throw_st miopenStatusBadParm ''bias data cannot be null'')
      else
        (case TensorDescriptor_int_strides (rnn_dataType d) (map narrow_int (take 1 (t_lens biasDesc))) [1] of
           Inl e \<Rightarrow> Some (Inl e)
         | Inr biasSrc \<Rightarrow>
             if t_lens biasSrc \<noteq> t_lens biasDesc then Some (throw_st miopenStatusBadParm ''mismatch between descriptors'')
             else map_option (map_sum id Some)
               (CopyTensor biasSrc bias biasDesc w 0 (narrow_int (biasOffset d xDesc layer biasID)))))"


section \<open>Tilings of an interval\<close>

text \<open>The blocks of a set lie in an interval, and every position of the interval is in exactly one of them.\<close>

definition tiles :: "('b \<Rightarrow> nat) \<Rightarrow> ('b \<Rightarrow> nat) \<Rightarrow> 'b set \<Rightarrow> nat \<Rightarrow> nat \<Rightarrow> bool" where
  "tiles off len S a b \<longleftrightarrow> a \<le> b \<and> (\<forall>x \<in> S. a \<le> off x \<and> off x + len x \<le> b)
     \<and> (\<forall>p. a \<le> p \<longrightarrow> p < b \<longrightarrow> (\<exists>!x. x \<in> S \<and> off x \<le> p \<and> p < off x + len x))"

lemma tiles_inside: "tiles off len S a b \<Longrightarrow> x \<in> S \<Longrightarrow> off x \<le> b"
  unfolding tiles_def using add_leD1 by blast

lemma tiles_empty: "tiles off len {} a a"
  by (simp add: tiles_def)

lemma tiles_Un:
  assumes "tiles off len S a b" "tiles off len T b c"
  shows "tiles off len (S \<union> T) a c"
  unfolding tiles_def
proof (intro conjI allI impI)
  show "a \<le> c" "\<forall>x \<in> S \<union> T. a \<le> off x \<and> off x + len x \<le> c" using assms by (fastforce simp: tiles_def)+
  fix p
  assume p: "a \<le> p" "p < c"
  show "\<exists>!x. x \<in> S \<union> T \<and> off x \<le> p \<and> p < off x + len x"
  proof (cases "p < b")
    case True
    moreover from this have "\<not> (off y \<le> p \<and> p < off y + len y)" if "y \<in> T" for y
      using assms(2) that by (fastforce simp: tiles_def)
    ultimately show ?thesis using assms(1) p(1) unfolding tiles_def by (metis Un_iff)
  next
    case False
    moreover from this have "\<not> (off y \<le> p \<and> p < off y + len y)" if "y \<in> S" for y
      using assms(1) that by (fastforce simp: tiles_def)
    moreover have "b \<le> p" using False by simp
    ultimately show ?thesis using assms(2) p(2) unfolding tiles_def by (metis Un_iff)
  qed
qed

lemma tiles_iterate:
  assumes "\<And>q. q < n \<Longrightarrow> tiles off len (S q) (a + q * w) (a + Suc q * w)"
  shows "tiles off len (\<Union>q < n. S q) a (a + n * w)"
  using assms
proof (induction n)
  case 0
  show ?case by (simp add: tiles_empty)
next
  case (Suc n)
  have "tiles off len ((\<Union>q < n. S q) \<union> S n) a (a + Suc n * w)"
    by (rule tiles_Un [OF Suc.IH [OF Suc.prems]]) (use Suc.prems in auto)
  then show ?case by (simp add: lessThan_Suc Un_commute)
qed

lemma tiles_uniform:
  assumes "bij_betw r S {..<n}" "\<And>x. x \<in> S \<Longrightarrow> off x = a + s * r x \<and> len x = s"
  shows "tiles off len S a (a + s * n)"
  unfolding tiles_def
proof (intro conjI allI impI ballI)
  fix x
  assume "x \<in> S"
  with assms have "r x < n" "off x = a + s * r x" "len x = s" by (auto simp: bij_betw_def)
  moreover from this have "s * Suc (r x) \<le> s * n" by (metis Suc_leI mult_le_mono2)
  ultimately show "a \<le> off x" "off x + len x \<le> a + s * n" by simp_all
next
  fix p
  assume p: "a \<le> p" "p < a + s * n"
  then have s: "0 < s" by (cases s) auto
  have inside: "off x \<le> p \<and> p < off x + len x \<longleftrightarrow> r x = (p - a) div s" if "x \<in> S" for x
  proof -
    have "off x \<le> p \<and> p < off x + len x \<longleftrightarrow> s * r x \<le> p - a \<and> p - a < s * r x + s"
      using assms(2) [OF that] p(1) by auto
    also have "\<dots> \<longleftrightarrow> r x = (p - a) div s"
      using s by (metis div_nat_eqI dividend_less_times_div mult.commute mult_Suc_right times_div_less_eq_dividend add.commute)
    finally show ?thesis .
  qed
  have "(p - a) div s < n" using p s by (simp add: less_mult_imp_div_less mult.commute)
  then obtain x where x: "x \<in> S" "r x = (p - a) div s" using assms(1) by (metis bij_betw_def image_iff lessThan_iff)
  show "\<exists>!x. x \<in> S \<and> off x \<le> p \<and> p < off x + len x"
  proof (rule ex1I [of _ x])
    show "x \<in> S \<and> off x \<le> p \<and> p < off x + len x" using x inside by blast
    show "y = x" if "y \<in> S \<and> off y \<le> p \<and> p < off y + len y" for y
      using that x inside assms(1) by (metis bij_betw_def inj_onD)
  qed
qed simp

text \<open>Rows of blocks of one size.\<close>

lemma tiles_rect:
  assumes "\<And>l i. l0 \<le> l \<Longrightarrow> l < l0 + m \<Longrightarrow> i0 \<le> i \<Longrightarrow> i < i0 + n \<Longrightarrow>
      off (f (l, i)) = a + s * ((l - l0) * n + (i - i0)) \<and> len (f (l, i)) = s" and "inj f"
  shows "tiles off len (f ` ({l0..<l0 + m} \<times> {i0..<i0 + n})) a (a + s * (m * n))"
proof -
  let ?D = "{l0..<l0 + m} \<times> {i0..<i0 + n}"
  let ?r = "\<lambda>(l, i). (l - l0) * n + (i - i0)"
  have "bij_betw ?r ?D {..<m * n}"
    unfolding bij_betw_def
  proof (intro conjI set_eqI iffI)
    show "inj_on ?r ?D"
    proof (rule inj_onI)
      fix x y
      assume "x \<in> ?D" "y \<in> ?D" "?r x = ?r y"
      then obtain l i l' i' where xy: "x = (l, i)" "y = (l', i')"
        and b: "l0 \<le> l" "l0 \<le> l'" "i0 \<le> i" "i < i0 + n" "i0 \<le> i'" "i' < i0 + n"
        and eq: "(l - l0) * n + (i - i0) = (l' - l0) * n + (i' - i0)" by auto
      have n: "i - i0 < n" "i' - i0 < n" using b by auto
      from arg_cong [OF eq, of "\<lambda>x. x div n"] n have l: "l - l0 = l' - l0" by simp
      from arg_cong [OF eq, of "\<lambda>x. x mod n"] n have i: "i - i0 = i' - i0" by simp
      have "l = l'" using l b(1,2) by (metis le_add_diff_inverse)
      moreover have "i = i'" using i b(3,5) by (metis le_add_diff_inverse)
      ultimately show "x = y" by (simp add: xy)
    qed
  next
    fix k
    assume "k \<in> ?r ` ?D"
    then obtain x where x: "x \<in> ?D" "k = ?r x" by blast
    obtain l i where "x = (l, i)" by (cases x)
    with x have k: "k = (l - l0) * n + (i - i0)" "l - l0 < m" "i - i0 < n" by auto
    then have "k < Suc (l - l0) * n" by simp
    also have "\<dots> \<le> m * n" using k(2) by (simp only: mult_le_mono1 Suc_leI)
    finally show "k \<in> {..<m * n}" by simp
  next
    fix k
    assume k: "k \<in> {..<m * n}"
    then have n: "0 < n" by (cases n) auto
    have "k div n < m" using k n by (simp add: less_mult_imp_div_less)
    then have "(l0 + k div n, i0 + k mod n) \<in> ?D" "?r (l0 + k div n, i0 + k mod n) = k" using n by auto
    then show "k \<in> ?r ` ?D" by (metis image_eqI)
  qed
  note rank = this
  have inj: "inj_on f ?D" using assms(2) by (rule inj_on_subset) simp
  note inv = bij_betw_the_inv_into [OF inj_on_imp_bij_betw [OF inj]]
  show ?thesis
  proof (rule tiles_uniform [OF bij_betw_trans [OF inv rank]])
    fix x
    assume "x \<in> f ` ?D"
    then obtain l i where x: "x = f (l, i)" "(l, i) \<in> ?D" by auto
    from x(2) have "off (f (l, i)) = a + s * ((l - l0) * n + (i - i0)) \<and> len (f (l, i)) = s"
      using assms(1) by simp
    then show "off x = a + s * (?r \<circ> the_inv_into ?D f) x \<and> len x = s"
      using the_inv_into_f_f [OF inj x(2)] by (simp add: x(1))
  qed
qed


lemmas semiring_sums = distrib_left distrib_right ac_simps

lemma tiles_grid:
  assumes "\<And>k j. k < m \<Longrightarrow> j < n \<Longrightarrow> off (l0 + k) (i0 + j) = a + s * (k * n + j) \<and> len (l0 + k) (i0 + j) = s"
    and "b = a + s * (m * n)"
  shows "tiles (\<lambda>(l, i). off l i) (\<lambda>(l, i). len l i) ({l0..<l0 + m} \<times> {i0..<i0 + n}) a b"
proof -
  have "off l i = a + s * ((l - l0) * n + (i - i0)) \<and> len l i = s"
    if "l0 \<le> l" "l < l0 + m" "i0 \<le> i" "i < i0 + n" for l i
    using that assms(1) [of "l - l0" "i - i0"] by simp
  then show ?thesis
    using tiles_rect [of l0 m i0 n "\<lambda>(l, i). off l i" id a s "\<lambda>(l, i). len l i"] assms(2) by simp
qed

section \<open>The layout of the parameters\<close>

text \<open>A block is the matrix or the bias with a number of a layer.\<close>

datatype block_kind = Matrix | Bias

type_synonym block = "block_kind \<times> nat \<times> nat"

text \<open>Offsets and lengths without wrap-around: \<open>v\<close> is the input length, \<open>h\<close> the hidden size, \<open>n\<close> the number of matrices
  a layer has for its input, and as many for its state.\<close>

definition mat_off :: "bool \<Rightarrow> nat \<Rightarrow> nat \<Rightarrow> nat \<Rightarrow> nat \<Rightarrow> nat \<Rightarrow> nat" where
  "mat_off bi v h n l i =
     (if bi then
        (if l > 1 then
           (v * h + h * h) * n * 2 + (h * h * 2 + h * h) * n * (l div 2 - 1) * 2
           + (if i \<ge> n then h * h * 2 * n * 2 + (l mod 2) * (n * (h * h)) + (h * h) * (i - n)
              else (l mod 2) * (n * (2 * h * h)) + (2 * h * h) * i)
         else if i \<ge> n then (v * h) * n * 2 + l * (n * (h * h)) + (h * h) * (i - n)
         else l * (n * (v * h)) + (v * h) * i)
      else if l > 0 then (v * h + h * h) * n + (h * h * 2) * n * (l - 1) + (h * h) * i
      else if i \<ge> n then (v * h) * n + (h * h) * (i - n)
      else (v * h) * i)"

definition mat_len :: "bool \<Rightarrow> nat \<Rightarrow> nat \<Rightarrow> nat \<Rightarrow> nat \<Rightarrow> nat \<Rightarrow> nat" where
  "mat_len bi v h n l i =
     (if bi then (if i \<ge> n then h * h else if l > 1 then h * (h * 2) else h * v)
      else if l > 0 \<or> i \<ge> n then h * h else h * v)"

definition mats_total :: "bool \<Rightarrow> nat \<Rightarrow> nat \<Rightarrow> nat \<Rightarrow> nat \<Rightarrow> nat" where
  "mats_total bi v h n layers =
     (if bi then n * h * 2 * (v + h + (layers - 1) * 3 * h) else n * h * (v + h + (layers - 1) * 2 * h))"

definition bias_off :: "bool \<Rightarrow> nat \<Rightarrow> nat \<Rightarrow> nat \<Rightarrow> nat \<Rightarrow> nat" where
  "bias_off bi h n l i =
     (if bi then (h * 2) * n * (l div 2) * 2 + (if i \<ge> n then h * n else 0) + (l mod 2) * (n * h) + h * i
      else (h * 2) * n * l + h * i)"

definition bias_total :: "bool \<Rightarrow> nat \<Rightarrow> nat \<Rightarrow> nat \<Rightarrow> nat" where
  "bias_total bi h n layers = layers * 2 * n * h * (if bi then 2 else 1)"

definition numbers :: "bool \<Rightarrow> nat \<Rightarrow> nat \<Rightarrow> (nat \<times> nat) set" where
  "numbers bi n layers = {..<(if bi then layers * 2 else layers)} \<times> {..<2 * n}"

lemma pairs_of_layers:
  "{..<layers * 2 :: nat} \<times> {..<2 * n :: nat} = (\<Union>q < layers. {2 * q..<2 * q + 2} \<times> {0..<0 + n} \<union> {2 * q..<2 * q + 2} \<times> {n..<n + n})"
proof -
  have "{..<layers * 2} = (\<Union>q < layers. {2 * q..<2 * q + 2})"
  proof (intro set_eqI iffI)
    fix l :: nat
    assume "l \<in> {..<layers * 2}"
    then have "l div 2 < layers" "l \<in> {2 * (l div 2)..<2 * (l div 2) + 2}" by auto
    then show "l \<in> (\<Union>q < layers. {2 * q..<2 * q + 2})" by blast
  qed auto
  moreover have "{..<2 * n} = {0..<0 + n} \<union> {n..<n + n}" by auto
  ultimately show ?thesis by auto
qed

lemma mats_tile_uni:
  assumes "0 < layers"
  shows "tiles (\<lambda>(l, i). mat_off False v h n l i) (\<lambda>(l, i). mat_len False v h n l i) (numbers False n layers)
    0 (mats_total False v h n layers)"
proof -
  let ?off = "\<lambda>(l, i). mat_off False v h n l i" and ?len = "\<lambda>(l, i). mat_len False v h n l i"
  let ?tiles = "tiles ?off ?len"
  have a: "?tiles ({0..<0 + 1} \<times> {0..<0 + n}) 0 (0 + (v * h) * (1 * n))"
    by (rule tiles_grid [where s = "v * h"]) (simp_all add: mat_off_def mat_len_def mult.commute)
  have b: "?tiles ({0..<0 + 1} \<times> {n..<n + n}) ((v * h) * n) ((v * h) * n + (h * h) * (1 * n))"
    by (rule tiles_grid [where s = "h * h"]) (simp_all add: mat_off_def mat_len_def)
  have c: "?tiles ({1..<1 + (layers - 1)} \<times> {0..<0 + 2 * n}) ((v * h) * n + (h * h) * n)
      ((v * h) * n + (h * h) * n + (h * h) * ((layers - 1) * (2 * n)))"
    by (rule tiles_grid [where s = "h * h"]) (simp_all add: mat_off_def mat_len_def semiring_sums)
  have "?tiles (({0..<0 + 1} \<times> {0..<0 + n} \<union> {0..<0 + 1} \<times> {n..<n + n}) \<union> {1..<1 + (layers - 1)} \<times> {0..<0 + 2 * n})
      0 ((v * h) * n + (h * h) * n + (h * h) * ((layers - 1) * (2 * n)))"
    by (rule tiles_Un [OF tiles_Un [OF a]]) (use b c in simp_all)
  moreover have "({0..<0 + 1} \<times> {0..<0 + n} \<union> {0..<0 + 1} \<times> {n..<n + n}) \<union> {1..<1 + (layers - 1)} \<times> {0..<0 + 2 * n}
      = numbers False n layers"
    using assms by (auto simp: numbers_def)
  moreover have "(v * h) * n + (h * h) * n + (h * h) * ((layers - 1) * (2 * n)) = mats_total False v h n layers"
    by (simp add: mats_total_def algebra_simps)
  ultimately show ?thesis by simp
qed

lemma mats_tile_bi:
  assumes "0 < layers"
  shows "tiles (\<lambda>(l, i). mat_off True v h n l i) (\<lambda>(l, i). mat_len True v h n l i) (numbers True n layers)
    0 (mats_total True v h n layers)"
proof -
  let ?off = "\<lambda>(l, i). mat_off True v h n l i" and ?len = "\<lambda>(l, i). mat_len True v h n l i"
  let ?tiles = "tiles ?off ?len"
  let ?pair = "\<lambda>q. {2 * q..<2 * q + 2} \<times> {0..<0 + n} \<union> {2 * q..<2 * q + 2} \<times> {n..<n + n}"
  let ?a = "(v * h + h * h) * n * 2" and ?w = "(h * h * 2 + h * h) * n * 2"
  have l01: "l < 2 \<Longrightarrow> l = 0 \<or> l = 1" for l :: nat by auto
  have a: "?tiles ({0..<0 + 2} \<times> {0..<0 + n}) 0 (0 + (v * h) * (2 * n))"
    by (rule tiles_grid [where s = "v * h"]) (auto dest!: l01 simp: mat_off_def mat_len_def semiring_sums)
  have b: "?tiles ({0..<0 + 2} \<times> {n..<n + n}) ((v * h) * (2 * n)) ((v * h) * (2 * n) + (h * h) * (2 * n))"
    by (rule tiles_grid [where s = "h * h"]) (auto dest!: l01 simp: mat_off_def mat_len_def semiring_sums)
  have first: "?tiles (?pair 0) 0 ?a"
    using tiles_Un [OF a] b by (simp add: algebra_simps)
  have rest: "?tiles (?pair (Suc q)) (?a + q * ?w) (?a + Suc q * ?w)" for q
  proof -
    let ?m = "?a + q * ?w + (2 * h * h) * (2 * n)"
    have evens: "?tiles ({2 * Suc q..<2 * Suc q + 2} \<times> {0..<0 + n}) (?a + q * ?w) ?m"
      by (rule tiles_grid [where s = "2 * h * h"]) (auto dest!: l01 simp: mat_off_def mat_len_def semiring_sums)
    have odds: "?tiles ({2 * Suc q..<2 * Suc q + 2} \<times> {n..<n + n}) ?m (?m + (h * h) * (2 * n))"
      by (rule tiles_grid [where s = "h * h"]) (auto dest!: l01 simp: mat_off_def mat_len_def semiring_sums)
    have eq: "?m + (h * h) * (2 * n) = ?a + Suc q * ?w" by (simp add: algebra_simps)
    from tiles_Un [OF evens odds] show ?thesis by (simp only: eq)
  qed
  have all: "?tiles (?pair 0 \<union> (\<Union>q < layers - 1. ?pair (Suc q))) 0 (?a + (layers - 1) * ?w)"
    by (rule tiles_Un [OF first tiles_iterate [OF rest]])
  have "{..<layers} = insert 0 (Suc ` {..<layers - 1})"
    using assms by (metis Suc_diff_1 lessThan_Suc_eq_insert_0)
  then have "?pair 0 \<union> (\<Union>q < layers - 1. ?pair (Suc q)) = (\<Union>q < layers. ?pair q)" by simp
  moreover have "numbers True n layers = (\<Union>q < layers. ?pair q)" by (simp add: numbers_def pairs_of_layers)
  moreover have "?a + (layers - 1) * ?w = mats_total True v h n layers" by (simp add: mats_total_def algebra_simps)
  ultimately show ?thesis using all by simp
qed


lemma bias_tile:
  "tiles (\<lambda>(l, i). base + bias_off bi h n l i) (\<lambda>(l, i). h) (numbers bi n layers) base (base + bias_total bi h n layers)"
proof (cases bi)
  case False
  have "tiles (\<lambda>(l, i). base + bias_off False h n l i) (\<lambda>(l, i). h) ({0..<0 + layers} \<times> {0..<0 + 2 * n}) base
      (base + bias_total False h n layers)"
    by (rule tiles_grid [where s = h]) (simp_all add: bias_off_def bias_total_def semiring_sums)
  moreover have "{0..<0 + layers} \<times> {0..<0 + 2 * n} = numbers False n layers" by (auto simp: numbers_def)
  ultimately show ?thesis using False by simp
next
  case True
  let ?tiles = "tiles (\<lambda>(l, i). base + bias_off True h n l i) (\<lambda>(l, i). h)"
  let ?w = "(h * 2) * n * 2"
  have l01: "l < 2 \<Longrightarrow> l = 0 \<or> l = 1" for l :: nat by auto
  have pair: "?tiles ({2 * q..<2 * q + 2} \<times> {0..<0 + n} \<union> {2 * q..<2 * q + 2} \<times> {n..<n + n})
      (base + q * ?w) (base + Suc q * ?w)" for q
  proof -
    let ?m = "base + q * ?w + h * (2 * n)"
    have inputs: "?tiles ({2 * q..<2 * q + 2} \<times> {0..<0 + n}) (base + q * ?w) ?m"
      by (rule tiles_grid [where s = h]) (auto dest!: l01 simp: bias_off_def semiring_sums)
    have states: "?tiles ({2 * q..<2 * q + 2} \<times> {n..<n + n}) ?m (?m + h * (2 * n))"
      by (rule tiles_grid [where s = h]) (auto dest!: l01 simp: bias_off_def semiring_sums)
    have eq: "?m + h * (2 * n) = base + Suc q * ?w" by (simp add: algebra_simps)
    from tiles_Un [OF inputs states] show ?thesis by (simp only: eq)
  qed
  have "bias_total True h n layers = layers * ?w" by (simp add: bias_total_def algebra_simps)
  with tiles_iterate [OF pair, of layers] True show ?thesis by (simp add: numbers_def pairs_of_layers)
qed

lemma tiles_image:
  assumes "tiles (off \<circ> f) (len \<circ> f) S a b"
  shows "tiles off len (f ` S) a b"
  unfolding tiles_def
proof (intro conjI allI impI)
  show "a \<le> b" "\<forall>x \<in> f ` S. a \<le> off x \<and> off x + len x \<le> b" using assms(1) by (auto simp: tiles_def)
  fix p
  assume "a \<le> p" "p < b"
  then obtain x where x: "x \<in> S" "off (f x) \<le> p" "p < off (f x) + len (f x)"
    and one: "\<And>y. y \<in> S \<Longrightarrow> off (f y) \<le> p \<Longrightarrow> p < off (f y) + len (f y) \<Longrightarrow> y = x"
    using assms(1) unfolding tiles_def comp_apply by metis
  show "\<exists>!y. y \<in> f ` S \<and> off y \<le> p \<and> p < off y + len y"
  proof (rule ex1I [of _ "f x"])
    show "f x \<in> f ` S \<and> off (f x) \<le> p \<and> p < off (f x) + len (f x)" using x by blast
    fix y
    assume "y \<in> f ` S \<and> off y \<le> p \<and> p < off y + len y"
    then obtain z where "y = f z" "z \<in> S" "off (f z) \<le> p" "p < off (f z) + len (f z)" by blast
    with one [of z] show "y = f x" by simp
  qed
qed

text \<open>The numbers of layers and matrices that a network has; the biases only when it has them.\<close>

definition blocks :: "bool \<Rightarrow> bool \<Rightarrow> nat \<Rightarrow> nat \<Rightarrow> block set" where
  "blocks bi biased n layers = Pair Matrix ` numbers bi n layers \<union> (if biased then Pair Bias ` numbers bi n layers else {})"

lemma tiles_cong:
  assumes "tiles off len S a b" "\<And>x. x \<in> S \<Longrightarrow> off' x = off x \<and> len' x = len x"
  shows "tiles off' len' S a b"
proof -
  have "x \<in> S \<and> off' x \<le> p \<and> p < off' x + len' x \<longleftrightarrow> x \<in> S \<and> off x \<le> p \<and> p < off x + len x" for x p
    using assms(2) by auto
  then show ?thesis using assms unfolding tiles_def by simp
qed

lemma params_tile:
  assumes "0 < layers"
    and "\<And>l i. (l, i) \<in> numbers bi n layers \<Longrightarrow> off (Matrix, l, i) = mat_off bi v h n l i \<and> len (Matrix, l, i) = mat_len bi v h n l i"
    and "\<And>l i. biased \<Longrightarrow> (l, i) \<in> numbers bi n layers \<Longrightarrow>
      off (Bias, l, i) = mats_total bi v h n layers + bias_off bi h n l i \<and> len (Bias, l, i) = h"
  shows "tiles off len (blocks bi biased n layers) 0
    (mats_total bi v h n layers + (if biased then bias_total bi h n layers else 0))"
proof -
  have "tiles (\<lambda>(l, i). mat_off bi v h n l i) (\<lambda>(l, i). mat_len bi v h n l i) (numbers bi n layers) 0 (mats_total bi v h n layers)"
    using mats_tile_uni [OF assms(1)] mats_tile_bi [OF assms(1)] by (cases bi) simp_all
  then have "tiles (off \<circ> Pair Matrix) (len \<circ> Pair Matrix) (numbers bi n layers) 0 (mats_total bi v h n layers)"
    by (rule tiles_cong) (use assms(2) in auto)
  then have mats: "tiles off len (Pair Matrix ` numbers bi n layers) 0 (mats_total bi v h n layers)"
    by (rule tiles_image)
  show ?thesis
  proof (cases biased)
    case False
    with mats show ?thesis by (simp add: blocks_def)
  next
    case True
    have "tiles (off \<circ> Pair Bias) (len \<circ> Pair Bias) (numbers bi n layers) (mats_total bi v h n layers)
        (mats_total bi v h n layers + bias_total bi h n layers)"
      by (rule tiles_cong [OF bias_tile]) (use assms(3) True in auto)
    then have "tiles off len (Pair Bias ` numbers bi n layers) (mats_total bi v h n layers)
        (mats_total bi v h n layers + bias_total bi h n layers)"
      by (rule tiles_image)
    from tiles_Un [OF mats this] True show ?thesis by (simp add: blocks_def)
  qed
qed


section \<open>The layout in machine numbers\<close>

lemma of_nat_word_le: "n < 2 ^ 64 \<Longrightarrow> i < 2 ^ 64 \<Longrightarrow> (of_nat n :: size_t) \<le> of_nat i \<longleftrightarrow> n \<le> i"
  by (simp add: word_le_nat_alt unat_of_nat)

lemma of_nat_word_less: "n < 2 ^ 64 \<Longrightarrow> i < 2 ^ 64 \<Longrightarrow> (of_nat i :: size_t) < of_nat n \<longleftrightarrow> i < n"
  by (simp add: word_less_nat_alt unat_of_nat)

lemma layer_parity: "cmod (int l) 2 = int (l mod 2)" "cdiv (int l) 2 = int (l div 2)" "l > 1 \<Longrightarrow> cdiv (int l) 2 - 1 = int (l div 2 - 1)"
proof -
  show "cmod (int l) 2 = int (l mod 2)" "cdiv (int l) 2 = int (l div 2)" by (simp_all add: zdiv_int zmod_int)
  assume "l > 1"
  then have "1 \<le> l div 2" by (cases l rule: parity_cases) auto
  then show "cdiv (int l) 2 - 1 = int (l div 2 - 1)" by (simp add: zdiv_int of_nat_diff)
qed

lemma params_offset_word:
  assumes "hsize d = of_nat h" "nHiddenTensorsPerLayer d = of_nat n" "inputVectorLen d x = of_nat v"
    and "n < 2 ^ 64" "i < 2 ^ 64" "\<not> isNotRNNskip d \<Longrightarrow> v = 0"
  shows "paramsOffsetCalculation d x (int l) (int i) = of_nat (mat_off (dirMode d \<noteq> 0) v h n l i)"
proof -
  have l01: "\<not> 1 < l \<Longrightarrow> l = 0 \<or> l = 1" by auto
  note le = of_nat_word_le [OF assms(4,5)]
  have diff: "n \<le> i \<Longrightarrow> (of_nat i :: size_t) - of_nat n = of_nat (i - n)" by simp
  have pred: "0 < l \<Longrightarrow> of_int (int l - 1) = (of_nat (l - 1) :: size_t)" by (simp add: of_nat_diff)
  consider (bi) "dirMode d \<noteq> 0" "1 < l" | (bi0) "dirMode d \<noteq> 0" "\<not> 1 < l" | (uni) "dirMode d = 0" by blast
  then show ?thesis
  proof cases
    case bi
    then show ?thesis
      by (simp add: paramsOffsetCalculation_def mat_off_def assms(1-3) le layer_parity mod2_eq_if Let_def
          del: cdiv_nonneg cmod_nonneg)
  next
    case bi0
    then show ?thesis
      using assms(6) l01 by (auto simp: paramsOffsetCalculation_def mat_off_def assms(1-3) le Let_def)
  next
    case uni
    then show ?thesis
      using assms(6) pred by (auto simp: paramsOffsetCalculation_def mat_off_def assms(1-3) le Let_def)
  qed
qed


lemma bias_offset_word:
  assumes "hsize d = of_nat h" "nHiddenTensorsPerLayer d = of_nat n" "n < 2 ^ 64" "i < 2 ^ 64" "biasMode d \<noteq> 0"
  shows "biasOffsetCalculation d (int l) (int i) = of_nat (bias_off (dirMode d \<noteq> 0) h n l i)"
  using of_nat_word_le [OF assms(3,4)] assms(5)
  by (simp add: biasOffsetCalculation_def bias_off_def assms(1,2) layer_parity mod2_eq_if Let_def del: cdiv_nonneg cmod_nonneg)

text \<open>The number of elements of the parameters, without wrap-around.\<close>

definition params_elems :: "rnn_desc \<Rightarrow> tensor \<Rightarrow> nat" where
  "params_elems d x =
     mats_total (dirMode d \<noteq> 0) (unat (inputVectorLen d x)) (unat (hsize d)) (unat (nHiddenTensorsPerLayer d)) (unat (nLayers d))
     + (if biasMode d \<noteq> 0
        then bias_total (dirMode d \<noteq> 0) (unat (hsize d)) (unat (nHiddenTensorsPerLayer d)) (unat (nLayers d)) else 0)"

text \<open>Where the code puts a block, and how many elements the descriptor of the block has.\<close>

definition block_offset :: "rnn_desc \<Rightarrow> tensor \<Rightarrow> block \<Rightarrow> nat" where
  "block_offset d x = (\<lambda>(k, l, i). unat (case k of
     Matrix \<Rightarrow> paramsOffsetCalculation d x (int l) (int i) | Bias \<Rightarrow> biasOffset d x (int l) (int i)))"

definition block_elems :: "rnn_desc \<Rightarrow> tensor \<Rightarrow> block \<Rightarrow> nat" where
  "block_elems d x = (\<lambda>(k, l, i). case k of
     Matrix \<Rightarrow> nat (prod_list (pTensorLengthsCalculation d x (int l) (int i))) | Bias \<Rightarrow> unat (hsize d))"

definition rnn_blocks :: "rnn_desc \<Rightarrow> block set" where
  "rnn_blocks d = blocks (dirMode d \<noteq> 0) (biasMode d \<noteq> 0) (unat (nHiddenTensorsPerLayer d)) (unat (nLayers d))"

text \<open>What the constructor gives.\<close>

definition rnn_ok :: "rnn_desc \<Rightarrow> bool" where
  "rnn_ok d \<longleftrightarrow> dirMode d \<in> {0, 1} \<and> biasMode d \<in> {0, 1} \<and> nHiddenTensorsPerLayer d \<in> {1, 3, 4} \<and> typeSize d \<in> {2, 4}"

lemma RNNDescriptor_ok:
  assumes "RNNDescriptor_dropout hsz layers rmode inMode bidir bmode amode dType dropout = Inr d" "hsz < 2 ^ 30" "layers < 2 ^ 30"
  shows "rnn_ok d" "unat (hsize d) = nat hsz" "unat (nLayers d) = nat layers" "rnn_dataType d = dType" "0 \<le> hsz" "0 \<le> layers"
proof -
  show ok: "rnn_ok d" "rnn_dataType d = dType" "0 \<le> hsz" "0 \<le> layers"
    using assms(1) by (auto simp: RNNDescriptor_dropout_def rnn_ok_def split: if_splits)
  have "hsize d = of_int hsz" "nLayers d = of_int layers"
    using assms(1) by (auto simp: RNNDescriptor_dropout_def split: if_splits)
  moreover have "of_int hsz = (of_nat (nat hsz) :: size_t)" "of_int layers = (of_nat (nat layers) :: size_t)" using ok by simp_all
  moreover have "nat hsz < 2 ^ 64" "nat layers < 2 ^ 64" using assms(2,3) by (simp_all add: nat_less_iff)
  ultimately show "unat (hsize d) = nat hsz" "unat (nLayers d) = nat layers" by (simp_all add: unat_of_nat)
qed

lemma rnn_words:
  assumes "rnn_ok d"
  obtains h n v layers where "hsize d = of_nat h" "nHiddenTensorsPerLayer d = of_nat n" "inputVectorLen d x = of_nat v"
    "nLayers d = of_nat layers" "h = unat (hsize d)" "n = unat (nHiddenTensorsPerLayer d)" "v = unat (inputVectorLen d x)"
    "layers = unat (nLayers d)" "n \<in> {1, 3, 4}" "\<not> isNotRNNskip d \<Longrightarrow> v = 0"
  by (rule that [of "unat (hsize d)" "unat (nHiddenTensorsPerLayer d)" "unat (inputVectorLen d x)" "unat (nLayers d)"])
    (use assms in \<open>auto simp: rnn_ok_def inputVectorLen_def isNotRNNskip_def\<close>)

lemma GetParamsSize_word:
  assumes "rnn_ok d" "t_type x = rnn_dataType d" "0 < unat (nLayers d)"
  shows "GetParamsSize d x (rnn_dataType d) = Inr (typeSize d * of_nat (params_elems d x))"
proof (rule rnn_words [OF assms(1), of x])
  fix h n v layers
  assume w: "hsize d = of_nat h" "nHiddenTensorsPerLayer d = of_nat n" "inputVectorLen d x = of_nat v" "nLayers d = of_nat layers"
    and u: "h = unat (hsize d)" "n = unat (nHiddenTensorsPerLayer d)" "v = unat (inputVectorLen d x)" "layers = unat (nLayers d)"
  have pred: "(of_nat layers :: size_t) - 1 = of_nat (layers - 1)" using assms(3) u by (simp add: of_nat_diff)
  have bi: "dirMode d = 0 \<or> dirMode d = 1" "biasMode d = 0 \<or> biasMode d = 1" using assms(1) by (auto simp: rnn_ok_def)
  have e: "params_elems d x = mats_total (dirMode d \<noteq> 0) v h n layers + (if biasMode d \<noteq> 0 then bias_total (dirMode d \<noteq> 0) h n layers else 0)"
    by (simp add: params_elems_def u)
  show ?thesis
    unfolding e GetParamsSize_def w pred Let_def using bi assms(2)
    by (auto simp: mats_total_def bias_total_def ac_simps)
qed


lemma rnn_lengths:
  assumes "hsize d = of_nat h" "nHiddenTensorsPerLayer d = of_nat n" "inputVectorLen d x = of_nat v"
    and "n < 2 ^ 64" "i < 2 ^ 64" "h < 2 ^ 30" "v < 2 ^ 31"
  shows "prod_list (pTensorLengthsCalculation d x (int l) (int i)) = int (mat_len (dirMode d \<noteq> 0) v h n l i)"
proof -
  have "narrow_int (of_nat h) = int h" "narrow_int (of_nat v) = int v" "narrow_int (of_nat h * 2) = int (h * 2)"
    using assms(6,7) narrow_of_nat [of h] narrow_of_nat [of v] narrow_of_nat [of "h * 2"] by simp_all
  then show ?thesis
    by (auto simp: pTensorLengthsCalculation_def mat_len_def assms(1-3) of_nat_word_le [OF assms(4,5)] Let_def)
qed

lemma GetLayerParamSize_word:
  assumes "hsize d = of_nat h" "nHiddenTensorsPerLayer d = of_nat n" "inputVectorLen d x = of_nat v"
    and "n < 2 ^ 64" "i < 2 ^ 64" "\<not> isNotRNNskip d \<Longrightarrow> v = 0" "t_type x = rnn_dataType d"
  shows "GetLayerParamSize d (int l) x (int i) = Inr (typeSize d * of_nat (mat_len (dirMode d \<noteq> 0) v h n l i))"
  using assms(6,7) of_nat_word_le [OF assms(4,5)] of_nat_word_less [OF assms(4,5)]
  by (auto simp: GetLayerParamSize_def mat_len_def assms(1-3) ac_simps)

lemma rnn_layout:
  assumes "RNNDescriptor_dropout hsz layers rmode inMode bidir bmode amode dType dropout = Inr d"
    and "hsz < 2 ^ 30" "0 < layers" "layers < 2 ^ 30" "t_type x = dType" "unat (t_lens x ! 1) < 2 ^ 31"
    and "unat (typeSize d) * params_elems d x < 2 ^ 64"
  shows "(\<exists>size. GetParamsSize d x dType = Inr size \<and> unat size = unat (typeSize d) * params_elems d x)
    \<and> tiles (block_offset d x) (block_elems d x) (rnn_blocks d) 0 (params_elems d x)
    \<and> (\<forall>l i. (Matrix, l, i) \<in> rnn_blocks d \<longrightarrow>
         GetLayerParamSize d (int l) x (int i) = Inr (typeSize d * of_nat (block_elems d x (Matrix, l, i))))
    \<and> GetLayerBiasSize d = typeSize d * hsize d"
proof -
  note ok = RNNDescriptor_ok [OF assms(1,2,4)]
  have L: "0 < unat (nLayers d)" "unat (nLayers d) < 2 ^ 30" and H: "unat (hsize d) < 2 ^ 30"
    using ok assms(2-4) by (simp_all add: nat_less_iff)
  have ty: "t_type x = rnn_dataType d" using assms(5) ok(4) by simp
  have V: "unat (inputVectorLen d x) < 2 ^ 31" using assms(6) by (simp add: inputVectorLen_def)
  show ?thesis
  proof (rule rnn_words [OF ok(1), of x])
    fix h n v ls
    assume w: "hsize d = of_nat h" "nHiddenTensorsPerLayer d = of_nat n" "inputVectorLen d x = of_nat v" "nLayers d = of_nat ls"
      and u: "h = unat (hsize d)" "n = unat (nHiddenTensorsPerLayer d)" "v = unat (inputVectorLen d x)" "ls = unat (nLayers d)"
      and n: "n \<in> {1, 3, 4}" and skip: "\<not> isNotRNNskip d \<Longrightarrow> v = 0"
    let ?bi = "dirMode d \<noteq> 0" and ?biased = "biasMode d \<noteq> 0"
    have n64: "n < 2 ^ 64" using n by auto
    have bi: "dirMode d = 0 \<or> dirMode d = 1" using ok(1) by (auto simp: rnn_ok_def)
    have e: "params_elems d x = mats_total ?bi v h n ls + (if ?biased then bias_total ?bi h n ls else 0)"
      by (simp add: params_elems_def u)
    have b: "rnn_blocks d = blocks ?bi ?biased n ls" by (simp add: rnn_blocks_def u)
    have number: "l < 2 ^ 31 \<and> i < 2 ^ 64" if "(l, i) \<in> numbers ?bi n ls" for l i
      using that n L(2) by (auto simp: numbers_def u(4) split: if_splits)
    have len: "block_elems d x (Matrix, l, i) = mat_len ?bi v h n l i" if "(l, i) \<in> numbers ?bi n ls" for l i
      using rnn_lengths [OF w(1-3) n64 conjunct2 [OF number [OF that]], of l] H V by (simp add: block_elems_def u)
    have "typeSize d \<noteq> 0" using ok(1) by (auto simp: rnn_ok_def)
    then have "0 < unat (typeSize d)" by (simp add: unat_gt_0)
    then have "params_elems d x \<le> unat (typeSize d) * params_elems d x" by simp
    with assms(7) have small: "params_elems d x < 2 ^ 64" by linarith
    have mono: "unat (of_nat y :: size_t) = y" if "y \<le> params_elems d x" for y
      using that small by (simp add: unat_of_nat)
    let ?moff = "\<lambda>b. case b of (k, l, i) \<Rightarrow> (case k of Matrix \<Rightarrow> mat_off ?bi v h n l i | Bias \<Rightarrow> mats_total ?bi v h n ls + bias_off ?bi h n l i)"
    have nat_tile: "tiles ?moff (block_elems d x) (rnn_blocks d) 0 (params_elems d x)"
      unfolding b e
      by (rule params_tile) (use L u len in \<open>simp_all add: block_elems_def\<close>)
    have word: "block_offset d x b = ?moff b \<and> block_elems d x b = block_elems d x b" if "b \<in> rnn_blocks d" for b
    proof -
      obtain k l i where kli: "b = (k, l, i)" by (cases b)
      have num: "(l, i) \<in> numbers ?bi n ls" using that by (auto simp: kli b blocks_def split: if_splits)
      have le: "?moff b \<le> params_elems d x" by (rule tiles_inside [OF nat_tile that])
      have end_layer: "narrow_int (if dirMode d = 1 then nLayers d * 2 else nLayers d) = int (if ?bi then ls * 2 else ls)"
        using bi L(2) narrow_of_nat [of ls] narrow_of_nat [of "ls * 2"] by (auto simp: w(4)) (simp_all add: u(4))
      have last: "mat_off ?bi v h n (if ?bi then ls * 2 else ls) 0 = mats_total ?bi v h n ls"
        using n L(1) by (auto simp: mat_off_def mats_total_def u(4) algebra_simps)
      show ?thesis
      proof (cases k)
        case Matrix
        then show ?thesis
          using mono [OF le] params_offset_word [OF w(1-3) n64 conjunct2 [OF number [OF num]] skip, of l]
          by (simp add: kli block_offset_def)
      next
        case Bias
        then have "?biased" using that by (auto simp: kli b blocks_def split: if_splits)
        with bias_offset_word [OF w(1,2) n64 conjunct2 [OF number [OF num]] this, of l]
          params_offset_word [OF w(1-3) n64 _ skip, of 0 "if ?bi then ls * 2 else ls"]
        have "biasOffset d x (int l) (int i) = of_nat (mats_total ?bi v h n ls + bias_off ?bi h n l i)"
          unfolding biasOffset_def end_layer by (simp add: last)
        then show ?thesis using mono [OF le] Bias by (simp add: kli block_offset_def)
      qed
    qed
    have size: "GetParamsSize d x dType = Inr (typeSize d * of_nat (params_elems d x))"
      using GetParamsSize_word [OF ok(1) ty L(1)] ok(4) by simp
    have "unat (typeSize d * of_nat (params_elems d x)) = unat (typeSize d) * params_elems d x"
      using assms(7) small by (simp add: unat_mult_lem [THEN iffD1] unat_of_nat)
    moreover have "GetLayerParamSize d (int l) x (int i) = Inr (typeSize d * of_nat (block_elems d x (Matrix, l, i)))"
      if "(Matrix, l, i) \<in> rnn_blocks d" for l i
    proof -
      have num: "(l, i) \<in> numbers ?bi n ls" using that by (auto simp: b blocks_def split: if_splits)
      from GetLayerParamSize_word [OF w(1-3) n64 conjunct2 [OF number [OF num]] skip ty] len [OF num] show ?thesis by simp
    qed
    ultimately show ?thesis
      using size tiles_cong [OF nat_tile word] by (simp add: GetLayerBiasSize_def)
  qed
qed

text \<open>C30: The buffer of the parameters is laid out without gaps and without overlaps. In a network that the
  constructor accepts, with at least one layer and sizes that do not overflow, \<open>GetParamsSize\<close> is the size of
  an element times the number of elements of all matrices and biases, and every position of the buffer belongs
  to exactly one matrix or bias, each of which lies inside the buffer: at the offset that \<open>GetLayerParam\<close> and
  \<open>GetLayerBias\<close> use and with the lengths of its descriptor. \<open>GetLayerParamSize\<close> and \<open>GetLayerBiasSize\<close> are
  the bytes of a block.\<close>

theorem rnn_params_tile:
  assumes "RNNDescriptor_dropout hsz layers rmode inMode bidir bmode amode dType dropout = Inr d"
    and "hsz < 2 ^ 30" "0 < layers" "layers < 2 ^ 30" "t_type x = dType" "unat (t_lens x ! 1) < 2 ^ 31"
    and "unat (typeSize d) * params_elems d x < 2 ^ 64"
  shows "(\<exists>size. GetParamsSize d x dType = Inr size \<and> unat size = unat (typeSize d) * params_elems d x)
    \<and> tiles (block_offset d x) (block_elems d x) (rnn_blocks d) 0 (params_elems d x)
    \<and> (\<forall>l i. (Matrix, l, i) \<in> rnn_blocks d \<longrightarrow>
         GetLayerParamSize d (int l) x (int i) = Inr (typeSize d * of_nat (block_elems d x (Matrix, l, i))))
    \<and> GetLayerBiasSize d = typeSize d * hsize d"
  by (rule rnn_layout [OF assms])

lemma matrix_elements: "GetElementSize (TensorDescriptor_lens ty miopenTensorNCHW [of_nat p, of_nat q]) = of_nat (p * q)"
  by (simp add: GetElementSize_def TensorDescriptor_lens_def CalculateVectorLength_def CalculateStrides_def)

text \<open>The descriptor of the whole buffer counts the same elements.\<close>

lemma params_descriptor_elements:
  assumes "rnn_ok d" "0 < unat (nLayers d)" "rnn_dataType d = dType"
    and "unat (inputVectorLen d x) + 3 * unat (nLayers d) * unat (hsize d) + 2 * unat (nLayers d) < 2 ^ 31"
    and "8 * unat (hsize d) < 2 ^ 31"
  shows "\<exists>t. GetParamsDescriptor d x dType = Inr t \<and> GetElementSize t = of_nat (params_elems d x)"
proof (rule rnn_words [OF assms(1), of x])
  fix h n v ls
  assume w: "hsize d = of_nat h" "nHiddenTensorsPerLayer d = of_nat n" "inputVectorLen d x = of_nat v" "nLayers d = of_nat ls"
    and u: "h = unat (hsize d)" "n = unat (nHiddenTensorsPerLayer d)" "v = unat (inputVectorLen d x)" "ls = unat (nLayers d)"
    and n: "n \<in> {1, 3, 4}"
  let ?b = "if dirMode d = 1 then 2 else 1 :: nat"
  have bi: "dirMode d = 0 \<or> dirMode d = 1" "biasMode d = 0 \<or> biasMode d = 1" using assms(1) by (auto simp: rnn_ok_def)
  have pred: "(of_nat ls :: size_t) - 1 = of_nat (ls - 1)" using assms(2) u by (simp add: of_nat_diff)
  obtain m where m: "ls = Suc m" using assms(2) u(4) gr0_implies_Suc by metis
  have "((ls - 1) * (?b + 1) + 1) * h \<le> 3 * ls * h"
    by (intro mult_le_mono1) (simp add: m)
  then have s0: "v + ((ls - 1) * (?b + 1) + 1) * h + 2 * ls < 2 ^ 31" using assms(4) by (simp add: u)
  have "?b * h * n \<le> 8 * h" using n by auto
  then have s1: "?b * h * n < 2 ^ 31" by (rule le_less_trans) (use assms(5) u(1) in simp)
  let ?l0 = "v + ((ls - 1) * (?b + 1) + 1) * h + (if biasMode d = 1 then 2 * ls else 0)"
  have l1: "narrow_int ((if dirMode d = 1 then 2 else 1) * hsize d * nHiddenTensorsPerLayer d) = int (?b * h * n)"
    using narrow_of_nat [OF s1] by (simp add: w split: if_splits)
  have l0: "narrow_int (inputVectorLen d x + ((nLayers d - 1) * ((if dirMode d = 1 then 2 else 1) + 1) + 1) * hsize d)
      = int (v + ((ls - 1) * (?b + 1) + 1) * h)"
  proof -
    have "of_nat v + (of_nat (ls - 1) * ((if dirMode d = 1 then 2 else 1) + 1) + 1) * of_nat h
        = (of_nat (v + ((ls - 1) * (?b + 1) + 1) * h) :: size_t)" by (simp add: m algebra_simps)
    then show ?thesis unfolding w pred using narrow_of_nat s0 by (metis add_lessD1)
  qed
  have l0': "narrow_int (of_int (int (v + ((ls - 1) * (?b + 1) + 1) * h)) + nLayers d * 2)
      = int (v + ((ls - 1) * (?b + 1) + 1) * h + 2 * ls)"
  proof -
    have "of_int (int (v + ((ls - 1) * (?b + 1) + 1) * h)) + of_nat ls * 2
        = (of_nat (v + ((ls - 1) * (?b + 1) + 1) * h + 2 * ls) :: size_t)"
      unfolding of_int_of_nat_eq of_nat_add of_nat_mult [of 2 ls] by (simp add: mult.commute)
    then show ?thesis unfolding w using narrow_of_nat [OF s0] by metis
  qed
  have "GetParamsDescriptor d x dType = Inr (TensorDescriptor_lens dType miopenTensorNCHW [of_nat ?l0, of_nat (?b * h * n)])"
    unfolding GetParamsDescriptor_def Let_def l0 l1 l0' using assms(3) by (auto simp: TensorDescriptor_ints_def)
  moreover have "?l0 * (?b * h * n) = params_elems d x"
    using bi by (auto simp: params_elems_def mats_total_def bias_total_def u algebra_simps)
  ultimately show ?thesis using matrix_elements [of dType ?l0 "?b * h * n"] by metis
qed

section \<open>Setting and getting a block\<close>

lemma narrow_small: "unat a < 2 ^ 31 \<Longrightarrow> narrow_int a = int (unat a)"
  using narrow_of_nat [of "unat a"] by simp

lemma packed_tensor [simp]:
  "t_packed (TensorDescriptor_lens ty miopenTensorNCHW ls)" "t_type (TensorDescriptor_lens ty miopenTensorNCHW ls) = ty"
  "t_lens (TensorDescriptor_lens ty miopenTensorNCHW ls) = ls"
  by (simp_all add: TensorDescriptor_lens_def CalculateVectorLength_def CalculateStrides_def Let_def)

lemma strided_tensor [simp]:
  "t_type (TensorDescriptor_strides ty miopenTensorNCHW ls ss) = ty" "t_lens (TensorDescriptor_strides ty miopenTensorNCHW ls ss) = ls"
  by (simp_all add: TensorDescriptor_strides_def CalculateVectorLength_def Let_def)

lemma vector_elements: "GetElementSize (TensorDescriptor_lens ty miopenTensorNCHW [m]) = m"
  by (simp add: GetElementSize_def TensorDescriptor_lens_def CalculateVectorLength_def CalculateStrides_def)

text \<open>A matrix stored by columns is packed, and so is a vector: there are no places between the elements.\<close>

lemma columns_packed: "t_packed (TensorDescriptor_strides ty miopenTensorNCHW [a, b] [1, a])"
  by (simp add: TensorDescriptor_strides_def CalculateVectorLength_def GetElementSize_def GetElementSpace_def
      inner_product_def Let_def algebra_simps)

lemma vector_packed: "t_packed (TensorDescriptor_strides ty miopenTensorNCHW [a] [1])"
  by (simp add: TensorDescriptor_strides_def CalculateVectorLength_def GetElementSize_def GetElementSpace_def
      inner_product_def Let_def)

lemma layer_param_copies:
  assumes "\<not> null_in_skip_mode d layer paramID" "pTensorLengthsCalculation d x layer paramID = [int a, int b]"
    and "a < 2 ^ 31" "b < 2 ^ 31" "a * b = n" "0 < n" "unat (paramsOffsetCalculation d x layer paramID) = off" "off + n < 2 ^ 31"
  shows "GetLayerParam d layer x w paramID None
      = Some (Inr (TensorDescriptor_lens (rnn_dataType d) miopenTensorNCHW [of_nat a, of_nat b], None))"
    and "GetLayerParam d layer x (Some m) paramID (Some q)
      = Some (Inr (TensorDescriptor_lens (rnn_dataType d) miopenTensorNCHW [of_nat a, of_nat b],
          Some (overwrite 0 n (\<lambda>k. m (off + k)) q)))"
    and "SetLayerParam d layer x (Some m) paramID
        (TensorDescriptor_lens (rnn_dataType d) miopenTensorNCHW [of_nat a, of_nat b]) (Some p)
      = Some (Inr (overwrite off n p m))"
proof -
  let ?pd = "TensorDescriptor_lens (rnn_dataType d) miopenTensorNCHW [of_nat a, of_nat b]"
  let ?ps = "TensorDescriptor_strides (rnn_dataType d) miopenTensorNCHW [of_nat a, of_nat b] [1, of_nat a]"
  have at: "narrow_int (paramsOffsetCalculation d x layer paramID) = int off"
    unfolding assms(7) [symmetric] by (rule narrow_small) (use assms(7,8) in simp)
  have size: "unat (GetElementSize ?pd) = n" unfolding matrix_elements using assms(5,8) by (simp add: unat_of_nat)
  have made: "TensorDescriptor_ints (rnn_dataType d) miopenTensorNCHW [int a, int b] = Inr ?pd"
    by (simp add: TensorDescriptor_ints_def)
  show "GetLayerParam d layer x w paramID None = Some (Inr (?pd, None))"
    using assms(1) by (simp add: GetLayerParam_def assms(2) made)
  have n31: "n < 2 ^ 31" using assms(8) by simp
  have "CopyTensor ?pd (Some m) ?pd (Some q) (int off) 0 = Some (Inr (overwrite 0 n (\<lambda>k. m (off + k)) q))"
    using CopyTensor_packed [of ?pd ?pd n "int off" 0 m q] size assms(6,8) n31 by simp
  then show "GetLayerParam d layer x (Some m) paramID (Some q) = Some (Inr (?pd, Some (overwrite 0 n (\<lambda>k. m (off + k)) q)))"
    using assms(1) by (simp add: GetLayerParam_def assms(2) made at)
  have "TensorDescriptor_int_strides (rnn_dataType d) [narrow_int (of_nat a), narrow_int (of_nat b)] [1, narrow_int (of_nat a)] = Inr ?ps"
    using narrow_of_nat [OF assms(3)] narrow_of_nat [OF assms(4)] by (simp add: TensorDescriptor_int_strides_def)
  moreover have "CopyTensor ?pd (Some p) ?ps (Some m) 0 (int off) = Some (Inr (overwrite off n p m))"
    using CopyTensor_packed [of ?pd ?ps n 0 "int off" p m] size assms(6,8) n31 columns_packed by simp
  ultimately show "SetLayerParam d layer x (Some m) paramID ?pd (Some p) = Some (Inr (overwrite off n p m))"
    using assms(1) by (simp add: SetLayerParam_def at)
qed

lemma layer_bias_copies:
  assumes "biasMode d \<noteq> 0" "hsize d = of_nat n" "0 < n" "unat (biasOffset d x layer biasID) = off" "off + n < 2 ^ 31"
  shows "GetLayerBias d layer x w biasID None
      = Some (Inr (Some (TensorDescriptor_lens (rnn_dataType d) miopenTensorNCHW [of_nat n]), None))"
    and "GetLayerBias d layer x (Some m) biasID (Some q)
      = Some (Inr (Some (TensorDescriptor_lens (rnn_dataType d) miopenTensorNCHW [of_nat n]),
          Some (overwrite 0 n (\<lambda>k. m (off + k)) q)))"
    and "SetLayerBias d layer x (Some m) biasID (TensorDescriptor_lens (rnn_dataType d) miopenTensorNCHW [of_nat n]) (Some p)
      = Some (Inr (Some (overwrite off n p m)))"
proof -
  let ?bd = "TensorDescriptor_lens (rnn_dataType d) miopenTensorNCHW [of_nat n]"
  let ?bs = "TensorDescriptor_strides (rnn_dataType d) miopenTensorNCHW [of_nat n] [1]"
  have at: "narrow_int (biasOffset d x layer biasID) = int off"
    unfolding assms(4) [symmetric] by (rule narrow_small) (use assms(4,5) in simp)
  have n31: "n < 2 ^ 31" using assms(5) by simp
  have size: "unat (GetElementSize ?bd) = n" unfolding vector_elements using n31 by (simp add: unat_of_nat)
  have size_s: "unat (GetElementSize ?bs) = n" using flat_fields(4) n31 by (simp add: unat_of_nat)
  have made: "TensorDescriptor_ints (rnn_dataType d) miopenTensorNCHW [narrow_int (hsize d)] = Inr ?bd"
    using narrow_of_nat [OF n31] by (simp add: TensorDescriptor_ints_def assms(2))
  show "GetLayerBias d layer x w biasID None = Some (Inr (Some ?bd, None))"
    using assms(1) by (simp add: GetLayerBias_def made)
  have "CopyTensor ?bd (Some m) ?bd (Some q) (int off) 0 = Some (Inr (overwrite 0 n (\<lambda>k. m (off + k)) q))"
    using CopyTensor_packed [of ?bd ?bd n "int off" 0 m q] size assms(3,5) n31 by simp
  then show "GetLayerBias d layer x (Some m) biasID (Some q) = Some (Inr (Some ?bd, Some (overwrite 0 n (\<lambda>k. m (off + k)) q)))"
    using assms(1) by (simp add: GetLayerBias_def made at)
  have "TensorDescriptor_int_strides (rnn_dataType d) [narrow_int (of_nat n)] [1] = Inr ?bs"
    using narrow_of_nat [OF n31] by (simp add: TensorDescriptor_int_strides_def)
  moreover have "CopyTensor ?bs (Some p) ?bd (Some m) 0 (int off) = Some (Inr (overwrite off n p m))"
    using CopyTensor_packed [of ?bs ?bd n 0 "int off" p m] size_s assms(3,5) n31 vector_packed by simp
  ultimately show "SetLayerBias d layer x (Some m) biasID ?bd (Some p) = Some (Inr (Some (overwrite off n p m)))"
    using assms(1) by (simp add: SetLayerBias_def at)
qed

text \<open>Reading a block into \<open>q\<close>, and writing \<open>p\<close> to it with the descriptor that the read operation hands out.\<close>

definition read_block :: "rnn_desc \<Rightarrow> tensor \<Rightarrow> 'a buffer \<Rightarrow> block \<Rightarrow> 'a buffer \<Rightarrow> 'a buffer result option" where
  "read_block d x w = (\<lambda>(k, l, i) q. case k of
     Matrix \<Rightarrow> map_option (map_sum id (\<lambda>r. the (snd r))) (GetLayerParam d (int l) x (Some w) (int i) (Some q))
   | Bias \<Rightarrow> map_option (map_sum id (\<lambda>r. the (snd r))) (GetLayerBias d (int l) x (Some w) (int i) (Some q)))"

definition write_block :: "rnn_desc \<Rightarrow> tensor \<Rightarrow> 'a buffer \<Rightarrow> block \<Rightarrow> 'a buffer \<Rightarrow> 'a buffer result option" where
  "write_block d x w = (\<lambda>(k, l, i) p. case k of
     Matrix \<Rightarrow>
       (case GetLayerParam d (int l) x (Some w) (int i) None of
          Some (Inr (pd, _)) \<Rightarrow> SetLayerParam d (int l) x (Some w) (int i) pd (Some p)
        | Some (Inl e) \<Rightarrow> Some (Inl e) | None \<Rightarrow> None)
   | Bias \<Rightarrow>
       (case GetLayerBias d (int l) x (Some w) (int i) None of
          Some (Inr (Some bd, _)) \<Rightarrow> map_option (map_sum id the) (SetLayerBias d (int l) x (Some w) (int i) bd (Some p))
        | Some (Inr (None, _)) \<Rightarrow> Some (Inr w) | Some (Inl e) \<Rightarrow> Some (Inl e) | None \<Rightarrow> None))"

lemma block_copies:
  assumes "rnn_ok d" "unat (hsize d) < 2 ^ 30" "unat (inputVectorLen d x) < 2 ^ 31"
    and "b \<in> rnn_blocks d" "0 < block_elems d x b" "block_offset d x b + block_elems d x b < 2 ^ 31"
  shows "read_block d x w b q = Some (Inr (overwrite 0 (block_elems d x b) (\<lambda>k. w (block_offset d x b + k)) q))"
    and "write_block d x w b p = Some (Inr (overwrite (block_offset d x b) (block_elems d x b) p w))"
proof -
  obtain k l i where b: "b = (k, l, i)" by (cases b)
  have "read_block d x w b q = Some (Inr (overwrite 0 (block_elems d x b) (\<lambda>k. w (block_offset d x b + k)) q))
      \<and> write_block d x w b p = Some (Inr (overwrite (block_offset d x b) (block_elems d x b) p w))"
  proof (cases k)
    case Bias
    have bm: "biasMode d \<noteq> 0" using assms(4) Bias by (auto simp: b rnn_blocks_def blocks_def split: if_splits)
    have n: "hsize d = of_nat (block_elems d x b)" by (simp add: b Bias block_elems_def)
    have at: "unat (biasOffset d x (int l) (int i)) = block_offset d x b" by (simp add: b Bias block_offset_def)
    note copies = layer_bias_copies [OF bm n assms(5) at assms(6)]
    show ?thesis using copies(1) [of "Some w"] copies(2) [of w q] copies(3) [of w p]
      by (simp add: b Bias read_block_def write_block_def)
  next
    case Matrix
    let ?L = "pTensorLengthsCalculation d x (int l) (int i)"
    have h: "narrow_int (hsize d) = int (unat (hsize d))" "narrow_int (inputVectorLen d x) = int (unat (inputVectorLen d x))"
      using narrow_small assms(2,3) by simp_all
    have "hsize d * 2 = of_nat (unat (hsize d) * 2)" by simp
    then have h2: "narrow_int (hsize d * 2) = int (unat (hsize d) * 2)" using narrow_of_nat [of "unat (hsize d) * 2"] assms(2) by simp
    obtain m n where L: "?L = [int m, int n]" "m < 2 ^ 31" "n < 2 ^ 31"
    proof -
      have "?L = [int (unat (hsize d)), int (unat (hsize d))] \<or> ?L = [int (unat (hsize d)), int (unat (hsize d) * 2)]
          \<or> ?L = [int (unat (hsize d)), int (unat (inputVectorLen d x))]"
        by (simp add: pTensorLengthsCalculation_def Let_def h h2)
      then show thesis using that assms(2,3) by fastforce
    qed
    then have elems: "m * n = block_elems d x b" by (simp add: b Matrix block_elems_def nat_mult_distrib)
    have used: "\<not> null_in_skip_mode d (int l) (int i)"
    proof
      assume null: "null_in_skip_mode d (int l) (int i)"
      then have "inputVectorLen d x = 0" by (auto simp: null_in_skip_mode_def isNotRNNskip_def inputVectorLen_def)
      moreover from null have "?L = [narrow_int (hsize d), narrow_int (inputVectorLen d x)]"
        by (auto simp: null_in_skip_mode_def pTensorLengthsCalculation_def Let_def)
      ultimately have "n = 0" using L(1) h(2) by simp
      with elems assms(5) show False by simp
    qed
    have at: "unat (paramsOffsetCalculation d x (int l) (int i)) = block_offset d x b" by (simp add: b Matrix block_offset_def)
    note copies = layer_param_copies [OF used L elems assms(5) at assms(6)]
    show ?thesis using copies(1) [of "Some w"] copies(2) [of w q] copies(3) [of w p]
      by (simp add: b Matrix read_block_def write_block_def)
  qed
  then show "read_block d x w b q = Some (Inr (overwrite 0 (block_elems d x b) (\<lambda>k. w (block_offset d x b + k)) q))"
    "write_block d x w b p = Some (Inr (overwrite (block_offset d x b) (block_elems d x b) p w))" by blast+
qed

lemma tiles_disjoint:
  assumes "tiles off len S a e" "b \<in> S" "c \<in> S" "b \<noteq> c" "off b \<le> k" "k < off b + len b"
  shows "\<not> (off c \<le> k \<and> k < off c + len c)"
proof
  assume c: "off c \<le> k \<and> k < off c + len c"
  have "a \<le> k" "k < e" using assms(1,2,5,6) unfolding tiles_def by fastforce+
  with assms(1) have "\<exists>!x. x \<in> S \<and> off x \<le> k \<and> k < off x + len x" unfolding tiles_def by blast
  with assms(2-6) c show False by metis
qed

text \<open>C36: The parameters behave like memory. In a network that the constructor accepts, with fewer than \<open>2 ^
  31\<close> parameters, \<open>SetLayerParam\<close> and \<open>SetLayerBias\<close>, given the descriptor that
  the operation to get the block hands out, succeed on every block that is not empty. Getting the block then
  returns the elements that were set, in their order (although the two descriptors of \<open>SetLayerParam\<close>
  differ in their strides), getting any other block returns what it did before, and nothing behind the parameters
  changes.\<close>

theorem params_are_memory:
  assumes "RNNDescriptor_dropout hsz layers rmode inMode bidir bmode amode dType dropout = Inr d"
    and "hsz < 2 ^ 30" "0 < layers" "layers < 2 ^ 30" "t_type x = dType" "unat (t_lens x ! 1) < 2 ^ 31"
    and "params_elems d x < 2 ^ 31" "b \<in> rnn_blocks d" "0 < block_elems d x b"
  shows "\<exists>w'. write_block d x w b (p :: 'a buffer) = Some (Inr w')
    \<and> (\<forall>q. read_block d x w' b q = Some (Inr (overwrite 0 (block_elems d x b) p q)))
    \<and> (\<forall>c \<in> rnn_blocks d. c \<noteq> b \<longrightarrow> 0 < block_elems d x c \<longrightarrow>
         (\<forall>q. \<exists>r. read_block d x w c q = Some (Inr r) \<and> read_block d x w' c q = Some (Inr r)))
    \<and> (\<forall>k \<ge> params_elems d x. w' k = w k)"
proof -
  note ok = RNNDescriptor_ok [OF assms(1,2,4)]
  have "unat (typeSize d) \<le> 4" using ok(1) by (auto simp: rnn_ok_def)
  then have "unat (typeSize d) * params_elems d x \<le> 4 * params_elems d x" by (rule mult_le_mono1)
  also have "\<dots> < 2 ^ 64" using assms(7) by simp
  finally have "unat (typeSize d) * params_elems d x < 2 ^ 64" .
  note tile = rnn_layout [OF assms(1-6) this, THEN conjunct2, THEN conjunct1]
  have sizes: "unat (hsize d) < 2 ^ 30" "unat (inputVectorLen d x) < 2 ^ 31"
    using ok(2,5) assms(2,6) by (simp_all add: nat_less_iff inputVectorLen_def)
  have inside: "block_offset d x c + block_elems d x c \<le> params_elems d x" if "c \<in> rnn_blocks d" for c
    using tile that by (simp add: tiles_def)
  have copies: "read_block d x m c q = Some (Inr (overwrite 0 (block_elems d x c) (\<lambda>k. m (block_offset d x c + k)) q))"
      "write_block d x m c q = Some (Inr (overwrite (block_offset d x c) (block_elems d x c) q m))"
    if "c \<in> rnn_blocks d" "0 < block_elems d x c" for c and q m :: "'a buffer"
    using block_copies [OF ok(1) sizes that le_less_trans [OF inside [OF that(1)] assms(7)]] by blast+
  let ?w' = "overwrite (block_offset d x b) (block_elems d x b) p w"
  have same: "overwrite 0 (block_elems d x b) (\<lambda>k. ?w' (block_offset d x b + k)) q = overwrite 0 (block_elems d x b) p q" for q
    by (auto simp: overwrite_def fun_eq_iff)
  have other: "overwrite 0 (block_elems d x c) (\<lambda>k. ?w' (block_offset d x c + k)) q
      = overwrite 0 (block_elems d x c) (\<lambda>k. w (block_offset d x c + k)) q" if "c \<in> rnn_blocks d" "c \<noteq> b" for c q
    using tiles_disjoint [OF tile that(1) assms(8) that(2)] by (auto simp: overwrite_def fun_eq_iff)
  have "\<forall>k \<ge> params_elems d x. ?w' k = w k" using inside [OF assms(8)] by (simp add: overwrite_def)
  with same other copies assms(8,9) show ?thesis by (intro exI [of _ ?w']) simp
qed


section \<open>A concrete network\<close>

text \<open>A bidirectional LSTM with two layers and biases.\<close>

definition example_rnn :: rnn_desc where
  "example_rnn = \<lparr>hsize = 5, nLayers = 2, nHiddenTensorsPerLayer = 4, workspaceScale = 6, rnnMode = 2, dirMode = 1, algoMode = 0,
     inputMode = 0, biasMode = 1, rnn_dataType = miopenFloat, typeSize = 4, rnn_dropout = False\<rparr>"

definition example_input :: tensor where
  "example_input = TensorDescriptor_lens miopenFloat miopenTensorNCHW [3, 7]"

lemma example_input_fields: "t_type example_input = miopenFloat" "t_lens example_input = [3, 7]"
  by (simp_all add: example_input_def TensorDescriptor_lens_def CalculateVectorLength_def CalculateStrides_def)

lemma example_rnn_made: "RNNDescriptor_dropout 5 2 2 0 1 1 0 miopenFloat False = Inr example_rnn"
  by (simp add: RNNDescriptor_dropout_def example_rnn_def)

theorem rnn_params_tile_witness:
  "(\<exists>size. GetParamsSize example_rnn example_input miopenFloat = Inr size \<and> unat size = 4960)
   \<and> tiles (block_offset example_rnn example_input) (block_elems example_rnn example_input) (rnn_blocks example_rnn) 0 1240
   \<and> (Bias, 3, 7) \<in> rnn_blocks example_rnn \<and> GetLayerBiasSize example_rnn = 20"
proof -
  have e: "params_elems example_rnn example_input = 1240"
    by (simp add: params_elems_def mats_total_def bias_total_def inputVectorLen_def example_rnn_def example_input_fields)
  have m: "(Bias, 3, 7) \<in> rnn_blocks example_rnn"
    by (simp add: rnn_blocks_def blocks_def numbers_def example_rnn_def)
  have "unat (typeSize example_rnn) = 4" "unat (t_lens example_input ! 1) = 7" "typeSize example_rnn * hsize example_rnn = 20"
    by (simp_all add: example_rnn_def example_input_fields)
  with rnn_params_tile [OF example_rnn_made, of example_input] e m show ?thesis by (simp add: example_input_fields)
qed

theorem params_are_memory_witness:
  "\<exists>w' r. write_block example_rnn example_input (\<lambda>k. k) (Matrix, 2, 3) (\<lambda>k. 1000 + k) = Some (Inr w')
    \<and> read_block example_rnn example_input w' (Matrix, 2, 3) (\<lambda>k. 0) = Some (Inr (overwrite 0 50 (\<lambda>k. 1000 + k) (\<lambda>k. 0)))
    \<and> read_block example_rnn example_input (\<lambda>k. k) (Bias, 3, 7) (\<lambda>k. 0) = Some (Inr r)
    \<and> read_block example_rnn example_input w' (Bias, 3, 7) (\<lambda>k. 0) = Some (Inr r) \<and> w' 1240 = 1240"
proof -
  have e: "params_elems example_rnn example_input = 1240"
    by (simp add: params_elems_def mats_total_def bias_total_def inputVectorLen_def example_rnn_def example_input_fields)
  have b: "(Matrix, 2, 3) \<in> rnn_blocks example_rnn" "(Bias, 3, 7) \<in> rnn_blocks example_rnn"
    by (simp_all add: rnn_blocks_def blocks_def numbers_def example_rnn_def)
  have n: "block_elems example_rnn example_input (Matrix, 2, 3) = 50" "block_elems example_rnn example_input (Bias, 3, 7) = 5"
    by code_simp+
  have l: "unat (t_lens example_input ! 1) < 2 ^ 31" "(5 :: int) < 2 ^ 30" "(2 :: int) < 2 ^ 30"
    by (simp_all add: example_input_fields)
  have small: "params_elems example_rnn example_input < 2 ^ 31" "0 < block_elems example_rnn example_input (Matrix, 2, 3)"
    using e n by simp_all
  obtain w' where w': "write_block example_rnn example_input (\<lambda>k. k) (Matrix, 2, 3) (\<lambda>k. 1000 + k) = Some (Inr w')"
    and same: "\<And>q. read_block example_rnn example_input w' (Matrix, 2, 3) q = Some (Inr (overwrite 0 50 (\<lambda>k. 1000 + k) q))"
    and other: "\<exists>r. read_block example_rnn example_input (\<lambda>k. k) (Bias, 3, 7) (\<lambda>k. 0) = Some (Inr r)
      \<and> read_block example_rnn example_input w' (Bias, 3, 7) (\<lambda>k. 0) = Some (Inr r)"
    and rest: "w' 1240 = 1240"
    using params_are_memory [OF example_rnn_made l(2) _ l(3) example_input_fields(1) l(1) small(1) b(1) small(2),
        of "\<lambda>k. k" "\<lambda>k. 1000 + k"] b(2) n e
    by auto
  then show ?thesis by blast
qed

end
