(* ===== verification/Fusion_Graph.thy ===== *)
theory Fusion_Graph
  imports Std_Sort "HOL-Library.AList"
begin

text \<open>
  The metadata graph of fusion plans (\<open>src/md_graph.cpp\<close>, \<open>src/include/miopen/mdg_expr.hpp\<close>): vertices are
  kernels for an operator, edges have constraints, and adding an operator to a plan follows every edge
  whose constraints hold, from every vertex that the plan may be at.

  The constraints are texts, read by a grammar of \<open>Boost.Spirit\<close>, which is the parameter \<open>parse\<close>; the trees it
  makes are evaluated here. (The parser gives \<open>====\<close>, \<open>>>\<close> and \<open><<\<close> for \<open>==\<close>, \<open>>\<close> and \<open><\<close>, whose characters it has
  collected twice.) An \<open>int\<close> is an integer: its overflow is undefined in the source. A hash map of the source is an association list in the order in which it is iterated.
\<close>

datatype fusion_op =
    miopenFusionOpConvForward | miopenFusionOpActivForward | miopenFusionOpBatchNormInference
  | miopenFusionOpBiasForward | miopenFusionOpBatchNormFwdTrain | miopenFusionOpBatchNormBwdTrain
  | miopenFusionOpActivBackward

datatype graph_op =
    OpEqual | OpNotEqual | OpAny | OpModulo | OpGTE | OpLTE | OpEval | OpAdd | OpSub | OpMul | OpDiv
  | OpPow | OpAnd | OpOr | OpCeil | OpAssign | OpGT | OpLT

section \<open>Expressions\<close>

text \<open>The trees of the parser: numbers (a \<open>double\<close> by what a cast to \<open>int\<close> gives), names, operators, and the nodes that
  \<open>MakeBinaryExpression\<close> builds.\<close>

datatype utree =
    U_int int
  | U_double int
  | U_string string
  | U_symbol string
  | U_binary utree utree utree

record visit_res =
  vr_res :: int
  vr_b :: bool
  vr_op :: graph_op
  vr_sym :: string
  vr_tabl :: "string \<rightharpoonup> int"

definition visit_default :: visit_res where
  "visit_default = \<lparr>vr_res = 0, vr_b = False, vr_op = OpAny, vr_sym = [], vr_tabl = Map.empty\<rparr>"

definition op_of_symbol :: "string \<Rightarrow> graph_op result" where
  "op_of_symbol s =
     (if s = ''+'' then Inr OpAdd else if s = ''-'' then Inr OpSub else if s = ''*'' then Inr OpMul
      else if s = ''/'' then Inr OpDiv else if s = ''%'' then Inr OpModulo else if s = ''>='' then Inr OpGTE
      else if s = ''<='' then Inr OpLTE else if s = ''===='' then Inr OpEqual else if s = ''!='' then Inr OpNotEqual
      else if s = ''^'' then Inr OpPow else if s = ''&'' then Inr OpAnd else if s = ''|'' then Inr OpOr
      else if s = ''~'' then Inr OpCeil else if s = ''==='' then Inr OpAssign else if s = ''>>'' then Inr OpGT
      else if s = ''<<'' then Inr OpLT
      else throw_st miopenStatusInternalError (''Parsing error: Unknown operator: '' @ s))"

text \<open>The power of doubles, cast to \<open>int\<close>.\<close>

definition int_pow :: "int \<Rightarrow> int \<Rightarrow> int" where
  "int_pow a b =
     (if b \<ge> 0 then a ^ nat b else if a = 1 then 1 else if a = - 1 then (if even b then 1 else - 1) else 0)"

definition of_truth :: "bool \<Rightarrow> visit_res" where
  "of_truth b = visit_default\<lparr>vr_b := b, vr_res := (if b then 1 else 0)\<rparr>"

definition of_int_res :: "int \<Rightarrow> visit_res" where
  "of_int_res i = visit_default\<lparr>vr_res := i\<rparr>"

text \<open>The \<open>switch\<close> over the operator. (Division by zero is undefined in the source; here it gives zero.)\<close>

definition apply_op :: "(string \<Rightarrow> int option) \<Rightarrow> graph_op \<Rightarrow> visit_res \<Rightarrow> visit_res \<Rightarrow> visit_res result" where
  "apply_op var_lookup op lhs rhs =
     (let a = vr_res lhs; b = vr_res rhs in
      case op of
        OpAdd \<Rightarrow> Inr (of_int_res (a + b))
      | OpSub \<Rightarrow> Inr (of_int_res (a - b))
      | OpMul \<Rightarrow> Inr (of_int_res (a * b))
      | OpDiv \<Rightarrow> Inr (of_int_res (cdiv a b))
      | OpModulo \<Rightarrow> Inr (of_int_res (cmod a b))
      | OpPow \<Rightarrow> Inr (of_int_res (int_pow a b))
      | OpCeil \<Rightarrow> Inr (of_int_res (if cmod a b \<noteq> 0 then (cdiv a b + 1) * b else a))
      | OpAssign \<Rightarrow>
          (if var_lookup (vr_sym lhs) \<noteq> None then throw (''Invalid variable assignment: '' @ vr_sym lhs)
           else Inr (visit_default\<lparr>vr_tabl := [vr_sym lhs \<mapsto> b], vr_b := True\<rparr>))
      | OpEqual \<Rightarrow> Inr (of_truth (a = b))
      | OpNotEqual \<Rightarrow> Inr (of_truth (a \<noteq> b))
      | OpGTE \<Rightarrow> Inr (of_truth (a \<ge> b))
      | OpLTE \<Rightarrow> Inr (of_truth (a \<le> b))
      | OpGT \<Rightarrow> Inr (of_truth (a > b))
      | OpLT \<Rightarrow> Inr (of_truth (a < b))
      | OpAnd \<Rightarrow> Inr (of_truth (vr_b lhs \<and> vr_b rhs))
      | OpOr \<Rightarrow> Inr (of_truth (vr_b lhs \<or> vr_b rhs))
      | OpAny \<Rightarrow> throw ''Unsupported op''
      | OpEval \<Rightarrow> throw ''Unsupported op'')"

text \<open>\<open>tree_visit\<close>. A name is looked up outside first, then in the table; an unknown one is only remembered.\<close>

fun tree_visit :: "(string \<Rightarrow> int option) \<Rightarrow> (string \<rightharpoonup> int) \<Rightarrow> utree \<Rightarrow> visit_res result" where
  "tree_visit var_lookup tabl (U_int i) = Inr (of_int_res i)"
| "tree_visit var_lookup tabl (U_double d) = Inr (of_int_res d)"
| "tree_visit var_lookup tabl (U_string s) =
     Inr (case var_lookup s of
            Some v \<Rightarrow> of_int_res v
          | None \<Rightarrow> (case tabl s of Some v \<Rightarrow> of_int_res v | None \<Rightarrow> visit_default\<lparr>vr_sym := s\<rparr>))"
| "tree_visit var_lookup tabl (U_symbol s) =
     (case op_of_symbol s of Inl e \<Rightarrow> Inl e | Inr op \<Rightarrow> Inr (visit_default\<lparr>vr_op := op\<rparr>))"
| "tree_visit var_lookup tabl (U_binary v0 v1 v2) =
     (case tree_visit var_lookup tabl v0 of Inl e \<Rightarrow> Inl e | Inr op_res \<Rightarrow>
     (case tree_visit var_lookup tabl v1 of Inl e \<Rightarrow> Inl e | Inr lhs_res \<Rightarrow>
     (case tree_visit var_lookup tabl v2 of Inl e \<Rightarrow> Inl e | Inr rhs_res \<Rightarrow>
        if vr_op op_res \<noteq> OpAssign \<and> vr_sym lhs_res \<noteq> [] then throw (''Invalid variable access: '' @ vr_sym lhs_res)
        else apply_op var_lookup (vr_op op_res) lhs_res rhs_res)))"

section \<open>Edges\<close>

type_synonym edge_map = "(string \<times> string list) list"

text \<open>The constraints of an edge in order. \<open>insert\<close> keeps what the table has; the symbols are the table so far.\<close>

fun check_constraints ::
  "(string \<Rightarrow> utree option) \<Rightarrow> (string \<Rightarrow> int option) \<Rightarrow> (string \<rightharpoonup> int) \<Rightarrow> (string \<rightharpoonup> int) \<Rightarrow> string list
    \<Rightarrow> (bool \<times> (string \<rightharpoonup> int)) result" where
  "check_constraints parse var_lookup tabl syms [] = Inr (True, syms)"
| "check_constraints parse var_lookup tabl syms (edg_op # rest) =
     (case parse edg_op of
        None \<Rightarrow> throw_st miopenStatusInternalError ''Unable to parse graph constraint expression''
      | Some e \<Rightarrow>
          (case tree_visit var_lookup tabl e of
             Inl err \<Rightarrow> Inl err
           | Inr r \<Rightarrow>
               let tabl' = vr_tabl r ++ tabl in
               if vr_b r then check_constraints parse var_lookup tabl' tabl' rest else Inr (False, tabl')))"

fun cmp_loop ::
  "(string \<Rightarrow> utree option) \<Rightarrow> (string \<Rightarrow> int option) \<Rightarrow> edge_map \<Rightarrow> (string \<rightharpoonup> int) \<Rightarrow> (bool \<times> (string \<rightharpoonup> int)) result" where
  "cmp_loop parse var_lookup [] syms = Inr (True, syms)"
| "cmp_loop parse var_lookup ((k, cs) # rest) syms =
     (if k = ''constraints'' then
        (case check_constraints parse var_lookup Map.empty syms cs of
           Inl e \<Rightarrow> Inl e
         | Inr (False, syms') \<Rightarrow> Inr (False, syms')
         | Inr (True, syms') \<Rightarrow> cmp_loop parse var_lookup rest syms')
      else cmp_loop parse var_lookup rest syms)"

definition CmpOpKey ::
  "(string \<Rightarrow> utree option) \<Rightarrow> edge_map \<Rightarrow> (string \<Rightarrow> int option) \<Rightarrow> (bool \<times> (string \<rightharpoonup> int)) result" where
  "CmpOpKey parse edge_val attr_fun = cmp_loop parse attr_fun edge_val Map.empty"

section \<open>The graph\<close>

text \<open>The root of the graph is the null pointer. A vertex is told apart by its \<open>id\<close>.\<close>

record vertex =
  v_id :: nat
  v_op :: fusion_op
  v_program :: string
  v_kernel :: string
  v_algorithm :: string
  v_is_leaf :: bool
  supported_arch :: "string list"
  supported_xnack :: "bool option"
  v_solver :: "string option"

type_synonym graph = "(vertex option \<times> (vertex \<times> edge_map list) list) list"

definition children :: "graph \<Rightarrow> vertex option \<Rightarrow> (vertex \<times> edge_map list) list" where
  "children g v = (case map_of g v of None \<Rightarrow> [] | Some ch \<Rightarrow> ch)"

definition AddEdge :: "graph \<Rightarrow> vertex option \<Rightarrow> vertex \<Rightarrow> edge_map \<Rightarrow> graph" where
  "AddEdge g src dst m =
     (let ch = children g src; es = (case map_of ch dst of None \<Rightarrow> [] | Some es \<Rightarrow> es)
      in AList.update src (AList.update dst (if es = [] then [m] else es @ [m]) ch) g)"

section \<open>The paths of a plan\<close>

text \<open>\<open>cur_vertex_map\<close>: its three keys.\<close>

record path_state =
  weight :: int
  algo :: "int option"
  path_solver :: "string option"

type_synonym cur_vertex = "(vertex option \<times> path_state) list"

record mdg =
  cur_vertex :: cur_vertex
  conv_algo_set :: "int set"

definition mdg_Reset :: "mdg \<Rightarrow> mdg" where
  "mdg_Reset g = g\<lparr>cur_vertex := [(None, \<lparr>weight = 0, algo = None, path_solver = None\<rparr>)]\<rparr>"

definition mdg_start :: mdg where
  "mdg_start = mdg_Reset \<lparr>cur_vertex = [], conv_algo_set = {}\<rparr>"

text \<open>The edges from a vertex to one child. The map of the path and the set of algorithms are shared by the edges:
  an edge starts with what the one before it left.\<close>

fun advance_edges ::
  "(string \<Rightarrow> utree option) \<Rightarrow> (string \<Rightarrow> int option) \<Rightarrow> fusion_op \<Rightarrow> vertex \<Rightarrow> edge_map list \<Rightarrow> path_state \<Rightarrow> int set
    \<Rightarrow> (cur_vertex \<times> int set) result" where
  "advance_edges parse attr kind child [] cur_map algos = Inr ([], algos)"
| "advance_edges parse attr kind child (edg_map # rest) cur_map algos =
     (case CmpOpKey parse edg_map attr of
        Inl e \<Rightarrow> Inl e
      | Inr (False, syms) \<Rightarrow> advance_edges parse attr kind child rest cur_map algos
      | Inr (True, syms) \<Rightarrow>
          (let m = cur_map\<lparr>weight := weight cur_map + (case syms ''weight'' of Some w \<Rightarrow> w | None \<Rightarrow> 0)\<rparr> in
           if kind = miopenFusionOpConvForward then
             (case syms ''algo'' of
                None \<Rightarrow> throw_st miopenStatusInternalError
                  ''algo is not provided for a convolution oeprator in the metadata graph''
              | Some a \<Rightarrow>
                  (let algos' = insert a algos; m' = m\<lparr>algo := Some (Min algos'), path_solver := v_solver child\<rparr> in
                   case advance_edges parse attr kind child rest m' algos' of
                     Inl e \<Rightarrow> Inl e
                   | Inr (vs, as) \<Rightarrow> Inr ((Some child, m') # vs, as)))
           else
             (let m' = m\<lparr>algo := None\<rparr> in
              case advance_edges parse attr kind child rest m' algos of
                Inl e \<Rightarrow> Inl e
              | Inr (vs, as) \<Rightarrow> Inr ((Some child, m') # vs, as))))"

fun advance_children ::
  "(string \<Rightarrow> utree option) \<Rightarrow> (string \<Rightarrow> int option) \<Rightarrow> fusion_op \<Rightarrow> (vertex \<times> edge_map list) list \<Rightarrow> path_state
    \<Rightarrow> (cur_vertex \<times> int set) result" where
  "advance_children parse attr kind [] cur_map = Inr ([], {})"
| "advance_children parse attr kind ((child, es) # rest) cur_map =
     (case (if v_op child = kind then advance_edges parse attr kind child es cur_map {} else Inr ([], {})) of
        Inl e \<Rightarrow> Inl e
      | Inr (vs, as) \<Rightarrow>
          (case advance_children parse attr kind rest cur_map of
             Inl e \<Rightarrow> Inl e
           | Inr (ws, bs) \<Rightarrow> Inr (vs @ ws, as \<union> bs)))"

fun advance_all ::
  "(string \<Rightarrow> utree option) \<Rightarrow> graph \<Rightarrow> (string \<Rightarrow> int option) \<Rightarrow> fusion_op \<Rightarrow> cur_vertex \<Rightarrow> (cur_vertex \<times> int set) result" where
  "advance_all parse g attr kind [] = Inr ([], {})"
| "advance_all parse g attr kind ((v, m) # rest) =
     (case advance_children parse attr kind (children g v) m of
        Inl e \<Rightarrow> Inl e
      | Inr (vs, as) \<Rightarrow>
          (case advance_all parse g attr kind rest of
             Inl e \<Rightarrow> Inl e
           | Inr (ws, bs) \<Rightarrow> Inr (vs @ ws, as \<union> bs)))"

definition heavier :: "vertex option \<times> path_state \<Rightarrow> vertex option \<times> path_state \<Rightarrow> bool" where
  "heavier a b \<longleftrightarrow> weight (snd a) > weight (snd b)"

text \<open>\<open>Advance\<close>: an exception leaves the paths as they were.\<close>

definition Advance ::
  "(string \<Rightarrow> utree option) \<Rightarrow> graph \<Rightarrow> mdg \<Rightarrow> fusion_op \<Rightarrow> (string \<Rightarrow> int option) \<Rightarrow> (mdg \<times> bool) result" where
  "Advance parse g st kind attr_fun =
     (case advance_all parse g attr_fun kind (cur_vertex st) of
        Inl e \<Rightarrow> Inl e
      | Inr (new_list, new_set) \<Rightarrow>
          Inr (\<lparr>cur_vertex = std_sort heavier new_list,
                conv_algo_set = (if kind = miopenFusionOpConvForward then new_set else {})\<rparr>, new_list \<noteq> []))"

section \<open>Asking the graph\<close>

text \<open>The device: its name and whether it has XNACK, if known.\<close>

definition vertex_supported :: "string \<Rightarrow> bool option \<Rightarrow> vertex \<Rightarrow> bool" where
  "vertex_supported arch xnack v \<longleftrightarrow> (supported_arch v = [] \<or> arch \<in> set (supported_arch v))
     \<and> \<not> (case (supported_xnack v, xnack) of (Some a, Some b) \<Rightarrow> a \<noteq> b | _ \<Rightarrow> False)"

text \<open>The loop of \<open>GetCurVertex\<close>; it dereferences every vertex, so it is called after an operator was added.\<close>

fun cur_loop :: "string \<Rightarrow> bool option \<Rightarrow> cur_vertex \<Rightarrow> int \<Rightarrow> vertex option \<Rightarrow> vertex option" where
  "cur_loop arch xnack [] w ptr = ptr"
| "cur_loop arch xnack ((v, m) # rest) w ptr =
     (if weight m > w \<and> vertex_supported arch xnack (the v) then cur_loop arch xnack rest (weight m) v
      else cur_loop arch xnack rest w ptr)"

definition GetCurVertex :: "string \<Rightarrow> bool option \<Rightarrow> mdg \<Rightarrow> vertex option" where
  "GetCurVertex arch xnack st = cur_loop arch xnack (cur_vertex st) (- 1) None"

definition GetSolvers :: "mdg \<Rightarrow> mdg \<times> string list" where
  "GetSolvers st =
     (let cur = std_sort heavier (cur_vertex st)
      in (st\<lparr>cur_vertex := cur\<rparr>, List.map_filter (\<lambda>x. path_solver (snd x)) cur))"

definition vertex_data :: "(vertex \<Rightarrow> string) \<Rightarrow> string \<Rightarrow> bool option \<Rightarrow> mdg \<Rightarrow> string result" where
  "vertex_data field arch xnack st =
     (case GetCurVertex arch xnack st of Some v \<Rightarrow> Inr (field v) | None \<Rightarrow> throw_st miopenStatusBadParm [])"

definition mdg_GetProgramName :: "string \<Rightarrow> bool option \<Rightarrow> mdg \<Rightarrow> string result" where
  "mdg_GetProgramName = vertex_data v_program"

definition mdg_GetKernelName :: "string \<Rightarrow> bool option \<Rightarrow> mdg \<Rightarrow> string result" where
  "mdg_GetKernelName = vertex_data v_kernel"

definition mdg_GetAlgoName :: "string \<Rightarrow> bool option \<Rightarrow> mdg \<Rightarrow> string result" where
  "mdg_GetAlgoName = vertex_data v_algorithm"

definition mdg_GetConvAlgos :: "mdg \<Rightarrow> int list" where
  "mdg_GetConvAlgos st = sorted_list_of_set (conv_algo_set st)"

fun keep_algo :: "int \<Rightarrow> cur_vertex \<Rightarrow> cur_vertex result" where
  "keep_algo a [] = Inr []"
| "keep_algo a ((v, m) # rest) =
     (case algo m of
        None \<Rightarrow> throw_st miopenStatusBadParm []
      | Some b \<Rightarrow>
          (case keep_algo a rest of
             Inl e \<Rightarrow> Inl e
           | Inr vs \<Rightarrow> Inr (if b = a then (v, m) # vs else vs)))"

definition mdg_SetConvAlgo :: "mdg \<Rightarrow> int \<Rightarrow> (mdg \<times> bool) result" where
  "mdg_SetConvAlgo st a =
     (if conv_algo_set st = {} then throw_st miopenStatusBadParm
        ''Either the last added convolution operator does not support the requested algorithm or the last added opeartor is not convolution''
      else if a \<notin> conv_algo_set st then throw_st miopenStatusBadParm
        ''The last convolution operator does not support the requested algorithm''
      else
        (case keep_algo a (cur_vertex st) of
           Inl e \<Rightarrow> Inl e
         | Inr new_list \<Rightarrow> Inr (st\<lparr>cur_vertex := new_list\<rparr>, new_list \<noteq> [])))"

section \<open>Walks\<close>

text \<open>What a plan stands for: a walk through the graph, one edge per operator, its constraints met by the attributes at
  that time. The weight of a step is that of the edge and of the edges before it, to the same child, that are met too.\<close>

definition passes :: "(string \<Rightarrow> utree option) \<Rightarrow> (string \<Rightarrow> int option) \<Rightarrow> edge_map \<Rightarrow> bool" where
  "passes parse attr m = (case CmpOpKey parse m attr of Inr (True, _) \<Rightarrow> True | _ \<Rightarrow> False)"

definition edge_weight :: "(string \<Rightarrow> utree option) \<Rightarrow> (string \<Rightarrow> int option) \<Rightarrow> edge_map \<Rightarrow> int" where
  "edge_weight parse attr m =
     (case CmpOpKey parse m attr of
        Inr (True, syms) \<Rightarrow> (case syms ''weight'' of Some w \<Rightarrow> w | None \<Rightarrow> 0)
      | _ \<Rightarrow> 0)"

type_synonym graph_step = "fusion_op \<times> (string \<Rightarrow> int option)"

text \<open>A step to the vertex \<open>c\<close> along an edge of \<open>es\<close>, with the weight \<open>d\<close> that it adds.\<close>

definition takes :: "(string \<Rightarrow> utree option) \<Rightarrow> graph_step \<Rightarrow> vertex \<Rightarrow> edge_map list \<Rightarrow> int \<Rightarrow> bool" where
  "takes parse s c es d \<longleftrightarrow> v_op c = fst s \<and> (\<exists>pre m post. es = pre @ m # post \<and> passes parse (snd s) m
     \<and> d = sum_list (map (edge_weight parse (snd s)) (pre @ [m])))"

inductive walk :: "(string \<Rightarrow> utree option) \<Rightarrow> graph \<Rightarrow> graph_step list \<Rightarrow> vertex option \<Rightarrow> int \<Rightarrow> bool"
  for parse g where
  walk_start: "walk parse g [] None 0"
| walk_step: "walk parse g ops v w \<Longrightarrow> (c, es) \<in> set (children g v) \<Longrightarrow> takes parse s c es d
    \<Longrightarrow> walk parse g (ops @ [s]) (Some c) (w + d)"

inductive_simps walk_Nil: "walk parse g [] v w"
inductive_cases walk_snocE: "walk parse g (ops @ [s]) v w"

fun Advances :: "(string \<Rightarrow> utree option) \<Rightarrow> graph \<Rightarrow> mdg \<Rightarrow> graph_step list \<Rightarrow> mdg result" where
  "Advances parse g st [] = Inr st"
| "Advances parse g st ((kind, attr) # ops) =
     (case Advance parse g st kind attr of Inl e \<Rightarrow> Inl e | Inr (st', ok) \<Rightarrow> Advances parse g st' ops)"

definition ends :: "cur_vertex \<Rightarrow> (vertex option \<times> int) set" where
  "ends vs = (\<lambda>(v, m). (v, weight m)) ` set vs"

lemma ends_simps [simp]:
  "ends [] = {}" "ends (x # vs) = insert (fst x, weight (snd x)) (ends vs)" "ends (vs @ ws) = ends vs \<union> ends ws"
  "ends (std_sort lt vs) = ends vs"
  by (auto simp: ends_def split: prod.splits)

lemma takes_Nil: "\<not> takes parse s c [] d"
  by (simp add: takes_def)

lemma takes_Cons:
  "takes parse s c (e # es) d \<longleftrightarrow> (v_op c = fst s \<and> passes parse (snd s) e \<and> d = edge_weight parse (snd s) e)
     \<or> takes parse s c es (d - edge_weight parse (snd s) e)" (is "?L \<longleftrightarrow> ?A \<or> ?B")
proof
  assume ?L
  then obtain pre m post where e: "v_op c = fst s" "e # es = pre @ m # post" "passes parse (snd s) m"
    "d = sum_list (map (edge_weight parse (snd s)) (pre @ [m]))" unfolding takes_def by blast
  show "?A \<or> ?B"
  proof (cases pre)
    case Nil
    with e show ?thesis by simp
  next
    case (Cons _ pre')
    with e have "es = pre' @ m # post"
      "d - edge_weight parse (snd s) e = sum_list (map (edge_weight parse (snd s)) (pre' @ [m]))" by simp_all
    with e show ?thesis unfolding takes_def by blast
  qed
next
  assume "?A \<or> ?B"
  then show ?L
  proof
    assume ?A
    then have "v_op c = fst s \<and> e # es = [] @ e # es \<and> passes parse (snd s) e
        \<and> d = sum_list (map (edge_weight parse (snd s)) ([] @ [e]))" by simp
    then show ?thesis unfolding takes_def by blast
  next
    assume ?B
    then obtain pre m post where "v_op c = fst s" "e # es = (e # pre) @ m # post" "passes parse (snd s) m"
      "d = sum_list (map (edge_weight parse (snd s)) ((e # pre) @ [m]))" unfolding takes_def by force
    then show ?thesis unfolding takes_def by blast
  qed
qed

lemma ex_shift: "(\<exists>d. x = (v, (a :: int) + d) \<and> P (d - b)) \<longleftrightarrow> (\<exists>d. x = (v, a + b + d) \<and> P d)"
proof
  assume "\<exists>d. x = (v, a + d) \<and> P (d - b)"
  then obtain d where "x = (v, a + b + (d - b))" "P (d - b)" by auto
  then show "\<exists>d. x = (v, a + b + d) \<and> P d" by blast
next
  assume "\<exists>d. x = (v, a + b + d) \<and> P d"
  then obtain d where "x = (v, a + (b + d))" "P (b + d - b)" by (auto simp: add.assoc)
  then show "\<exists>d. x = (v, a + d) \<and> P (d - b)" by blast
qed

lemma advance_edges_ends:
  assumes "advance_edges parse attr (v_op c) c es cur algos = Inr (vs, as)"
  shows "ends vs = {(Some c, weight cur + d) |d. takes parse (v_op c, attr) c es d}"
  using assms
proof (induction es arbitrary: cur algos vs as)
  case (Cons e es)
  let ?w = "edge_weight parse attr e"
  have split: "{(Some c, weight cur + d) |d. takes parse (v_op c, attr) c (e # es) d}
      = (if passes parse attr e then {(Some c, weight cur + ?w)} else {})
        \<union> {(Some c, (weight cur + ?w) + d) |d. takes parse (v_op c, attr) c es d}" (is "?L = ?R")
  proof -
    have "x \<in> ?L \<longleftrightarrow> (\<exists>d. x = (Some c, weight cur + d) \<and> (passes parse attr e \<and> d = ?w \<or> takes parse (v_op c, attr) c es (d - ?w)))" for x
      by (simp add: takes_Cons)
    moreover have "(\<exists>d. x = (Some c, weight cur + d) \<and> takes parse (v_op c, attr) c es (d - ?w))
        \<longleftrightarrow> (\<exists>d. x = (Some c, weight cur + ?w + d) \<and> takes parse (v_op c, attr) c es d)" for x
      by (rule ex_shift)
    ultimately show ?thesis by auto
  qed
  show ?case
  proof (cases "CmpOpKey parse e attr")
    case (Inl x)
    with Cons.prems show ?thesis by simp
  next
    case (Inr r)
    then obtain b syms where r: "CmpOpKey parse e attr = Inr (b, syms)" by (cases r) auto
    show ?thesis
    proof (cases b)
      case False
      then have "?w = 0" "\<not> passes parse attr e" by (simp_all add: edge_weight_def passes_def r)
      with Cons.IH [of cur algos vs as] Cons.prems False r show ?thesis unfolding split by simp
    next
      case True
      then have w: "?w = (case syms ''weight'' of Some w \<Rightarrow> w | None \<Rightarrow> 0)" and p: "passes parse attr e"
        by (simp_all add: edge_weight_def passes_def r)
      obtain m' as' vs' where "advance_edges parse attr (v_op c) c es m' as' = Inr (vs', as)"
        "weight m' = weight cur + ?w" "vs = (Some c, m') # vs'"
        using Cons.prems True r
        by (auto simp: Let_def w split: if_splits option.splits sum.splits prod.splits)
      with Cons.IH [of m' as' vs' as] p show ?thesis unfolding split by simp
    qed
  qed
qed (simp add: takes_Nil)

lemma takes_op: "takes parse s c es d \<Longrightarrow> v_op c = fst s"
  by (simp add: takes_def)

lemma advance_children_ends:
  assumes "advance_children parse attr kind cs cur = Inr (vs, as)"
  shows "ends vs = {(Some c, weight cur + d) |c es d. (c, es) \<in> set cs \<and> takes parse (kind, attr) c es d}"
  using assms
proof (induction cs arbitrary: vs as)
  case (Cons ce cs)
  obtain c es where ce: "ce = (c, es)" by (cases ce) auto
  from Cons.prems obtain vs1 as1 vs2 as2 where vs:
    "(if v_op c = kind then advance_edges parse attr kind c es cur {} else Inr ([], {})) = Inr (vs1, as1)"
    "advance_children parse attr kind cs cur = Inr (vs2, as2)" "vs = vs1 @ vs2"
    by (auto simp: ce split: sum.splits prod.splits)
  have "ends vs1 = {(Some c, weight cur + d) |d. takes parse (kind, attr) c es d}"
  proof (cases "v_op c = kind")
    case True
    with vs(1) show ?thesis using advance_edges_ends [of parse attr c es cur "{}" vs1 as1] by simp
  next
    case False
    with vs(1) show ?thesis by (auto dest: takes_op)
  qed
  with Cons.IH [OF vs(2)] vs(3) show ?case unfolding ce by auto
qed simp

lemma advance_all_ends:
  assumes "advance_all parse g attr kind cur = Inr (vs, as)"
  shows "ends vs = {(Some c, w + d) |v w c es d.
            (v, w) \<in> ends cur \<and> (c, es) \<in> set (children g v) \<and> takes parse (kind, attr) c es d}"
  using assms
proof (induction cur arbitrary: vs as)
  case (Cons x cur)
  obtain v0 m0 where x: "x = (v0, m0)" by (cases x) auto
  from Cons.prems obtain vs1 as1 vs2 as2 where vs: "advance_children parse attr kind (children g v0) m0 = Inr (vs1, as1)"
    "advance_all parse g attr kind cur = Inr (vs2, as2)" "vs = vs1 @ vs2"
    by (auto simp: x split: sum.splits prod.splits)
  show ?case unfolding vs(3) ends_simps advance_children_ends [OF vs(1)] Cons.IH [OF vs(2)] x fst_conv snd_conv insert_iff by blast
qed simp

lemma Advance_ends:
  assumes "Advance parse g st kind attr = Inr (st', ok)"
  shows "ends (cur_vertex st') = {(Some c, w + d) |v w c es d.
            (v, w) \<in> ends (cur_vertex st) \<and> (c, es) \<in> set (children g v) \<and> takes parse (kind, attr) c es d}"
    and "ok \<longleftrightarrow> cur_vertex st' \<noteq> []" "in_order heavier (cur_vertex st')"
proof -
  have w: "weak_order_on A heavier" for A by (auto simp: weak_order_on_def heavier_def)
  from assms obtain vs as where a: "advance_all parse g attr kind (cur_vertex st) = Inr (vs, as)"
    and st': "cur_vertex st' = std_sort heavier vs" "ok \<longleftrightarrow> vs \<noteq> []"
    by (auto simp: Advance_def split: sum.splits prod.splits)
  show "ok \<longleftrightarrow> cur_vertex st' \<noteq> []" "in_order heavier (cur_vertex st')" by (simp_all add: st' std_sort_in_order [OF w])
  show "ends (cur_vertex st') = {(Some c, w + d) |v w c es d.
      (v, w) \<in> ends (cur_vertex st) \<and> (c, es) \<in> set (children g v) \<and> takes parse (kind, attr) c es d}"
    using advance_all_ends [OF a] by (simp add: st')
qed

text \<open>The entries of the paths: where one came from, and the solver it carries.\<close>

definition entry_from :: "graph \<Rightarrow> fusion_op \<Rightarrow> cur_vertex \<Rightarrow> vertex option \<times> path_state \<Rightarrow> bool" where
  "entry_from g kind cur e \<longleftrightarrow> (\<exists>(v, m) \<in> set cur. \<exists>c es. fst e = Some c \<and> (c, es) \<in> set (children g v) \<and> es \<noteq> []
     \<and> v_op c = kind \<and> path_solver (snd e) = (if kind = miopenFusionOpConvForward then v_solver c else path_solver m))"

lemma advance_edges_entry:
  assumes "advance_edges parse attr kind c es cur algos = Inr (vs, as)" "e \<in> set vs"
  shows "fst e = Some c \<and> es \<noteq> []
    \<and> path_solver (snd e) = (if kind = miopenFusionOpConvForward then v_solver c else path_solver cur)"
  using assms
proof (induction es arbitrary: cur algos vs as)
  case (Cons x es)
  show ?case
  proof (cases "kind = miopenFusionOpConvForward")
    case True
    with Cons show ?thesis
      by (auto simp: Let_def split: sum.splits prod.splits bool.splits option.splits)
  next
    case False
    have "fst e = Some c \<and> path_solver (snd e) = path_solver cur"
      if "advance_edges parse attr kind c es cur' algos = Inr (vs', as)" "path_solver cur' = path_solver cur" "e \<in> set vs'"
      for cur' vs' as using Cons.IH [OF that(1,3)] that(2) False by simp
    with Cons.prems False show ?thesis
      by (auto simp: Let_def split: sum.splits prod.splits bool.splits option.splits)
  qed
qed simp

lemma advance_children_entry:
  assumes "advance_children parse attr kind cs cur = Inr (vs, as)" "e \<in> set vs"
  shows "\<exists>c es. fst e = Some c \<and> (c, es) \<in> set cs \<and> es \<noteq> [] \<and> v_op c = kind
    \<and> path_solver (snd e) = (if kind = miopenFusionOpConvForward then v_solver c else path_solver cur)"
  using assms
proof (induction cs arbitrary: vs as)
  case (Cons x cs)
  then obtain c es vs1 as1 vs2 as2 where x: "x = (c, es)"
    "(if v_op c = kind then advance_edges parse attr kind c es cur {} else Inr ([], {})) = Inr (vs1, as1)"
    "advance_children parse attr kind cs cur = Inr (vs2, as2)" "vs = vs1 @ vs2"
    by (cases x) (auto split: sum.splits prod.splits)
  show ?case
  proof (cases "e \<in> set vs1")
    case True
    with x(2) have "v_op c = kind" "advance_edges parse attr kind c es cur {} = Inr (vs1, as1)"
      by (auto split: if_splits)
    with advance_edges_entry [OF this(2) True] x(1) show ?thesis by auto
  next
    case False
    with Cons.prems(2) x(4) have "e \<in> set vs2" by simp
    from Cons.IH [OF x(3) this] obtain c' es' where "fst e = Some c'" "(c', es') \<in> set (x # cs)" "es' \<noteq> []" "v_op c' = kind"
      "path_solver (snd e) = (if kind = miopenFusionOpConvForward then v_solver c' else path_solver cur)" by auto
    then show ?thesis by blast
  qed
qed simp

lemma advance_all_entry:
  assumes "advance_all parse g attr kind cur = Inr (vs, as)" "e \<in> set vs"
  shows "entry_from g kind cur e"
  using assms
proof (induction cur arbitrary: vs as)
  case (Cons x cur)
  then obtain v m vs1 as1 vs2 as2 where x: "x = (v, m)" "advance_children parse attr kind (children g v) m = Inr (vs1, as1)"
    "advance_all parse g attr kind cur = Inr (vs2, as2)" "vs = vs1 @ vs2"
    by (cases x) (auto split: sum.splits prod.splits)
  show ?case
  proof (cases "e \<in> set vs1")
    case True
    from advance_children_entry [OF x(2) True] x(1) show ?thesis by (auto simp: entry_from_def)
  next
    case False
    with Cons.prems(2) x(4) Cons.IH [OF x(3)] show ?thesis by (auto simp: entry_from_def)
  qed
qed simp

lemma Advance_entry:
  assumes "Advance parse g st kind attr = Inr (st', ok)" "e \<in> set (cur_vertex st')"
  shows "entry_from g kind (cur_vertex st) e"
proof -
  from assms obtain vs as where "advance_all parse g attr kind (cur_vertex st) = Inr (vs, as)" "e \<in> set vs"
    by (auto simp: Advance_def split: sum.splits prod.splits)
  then show ?thesis by (rule advance_all_entry)
qed

lemma Advances_append:
  "Advances parse g st (xs @ ys) = (case Advances parse g st xs of Inl e \<Rightarrow> Inl e | Inr st' \<Rightarrow> Advances parse g st' ys)"
  by (induction xs arbitrary: st) (auto split: sum.splits prod.splits)

lemma walk_snoc:
  "walk parse g (ops @ [s]) v w \<longleftrightarrow> (\<exists>v0 w0 c es d. walk parse g ops v0 w0 \<and> (c, es) \<in> set (children g v0)
      \<and> takes parse s c es d \<and> v = Some c \<and> w = w0 + d)"
proof
  assume "walk parse g (ops @ [s]) v w"
  then show "\<exists>v0 w0 c es d. walk parse g ops v0 w0 \<and> (c, es) \<in> set (children g v0) \<and> takes parse s c es d
      \<and> v = Some c \<and> w = w0 + d"
    by (rule walk_snocE) blast
qed (auto intro: walk_step)

lemma Advances_ends:
  assumes "Advances parse g mdg_start ops = Inr st"
  shows "ends (cur_vertex st) = {(v, w). walk parse g ops v w}" "in_order heavier (cur_vertex st)"
proof -
  have "ends (cur_vertex st) = {(v, w). walk parse g ops v w} \<and> in_order heavier (cur_vertex st)" using assms
  proof (induction ops arbitrary: st rule: rev_induct)
    case Nil
    then show ?case by (auto simp: mdg_start_def mdg_Reset_def walk_Nil in_order_def)
  next
    case (snoc s ops)
    obtain kind attr where s: "s = (kind, attr)" by (cases s) auto
    from snoc.prems obtain st0 ok where st0: "Advances parse g mdg_start ops = Inr st0"
      "Advance parse g st0 kind attr = Inr (st, ok)"
      by (auto simp: Advances_append s split: sum.splits prod.splits)
    have "(v, w) \<in> ends (cur_vertex st) \<longleftrightarrow> walk parse g (ops @ [s]) v w" for v w
      unfolding Advance_ends(1) [OF st0(2)] walk_snoc snoc.IH [OF st0(1), THEN conjunct1] s mem_Collect_eq
        prod.inject case_prod_conv fst_conv snd_conv by blast
    then show ?case using Advance_ends(3) [OF st0(2)] by auto
  qed
  then show "ends (cur_vertex st) = {(v, w). walk parse g ops v w}" "in_order heavier (cur_vertex st)" by simp_all
qed

section \<open>The vertex that is chosen\<close>

lemma cur_loop_chosen:
  "(cur_loop arch xnack cur w ptr = ptr \<and> (\<forall>e \<in> set cur. vertex_supported arch xnack (the (fst e)) \<longrightarrow> weight (snd e) \<le> w))
   \<or> (\<exists>e \<in> set cur. cur_loop arch xnack cur w ptr = fst e \<and> w < weight (snd e) \<and> vertex_supported arch xnack (the (fst e))
        \<and> (\<forall>e' \<in> set cur. vertex_supported arch xnack (the (fst e')) \<longrightarrow> weight (snd e') \<le> weight (snd e)))"
proof (induction cur arbitrary: w ptr)
  case (Cons x cur)
  obtain v m where x: "x = (v, m)" by (cases x) auto
  show ?case
  proof (cases "weight m > w \<and> vertex_supported arch xnack (the v)")
    case True
    from Cons.IH [of "weight m" v] show ?thesis
    proof
      assume "cur_loop arch xnack cur (weight m) v = v
        \<and> (\<forall>e \<in> set cur. vertex_supported arch xnack (the (fst e)) \<longrightarrow> weight (snd e) \<le> weight m)"
      with True show ?thesis by (intro disjI2 bexI [of _ x]) (simp_all add: x)
    next
      assume "\<exists>e \<in> set cur. cur_loop arch xnack cur (weight m) v = fst e \<and> weight m < weight (snd e)
        \<and> vertex_supported arch xnack (the (fst e))
        \<and> (\<forall>e' \<in> set cur. vertex_supported arch xnack (the (fst e')) \<longrightarrow> weight (snd e') \<le> weight (snd e))"
      then obtain e where "e \<in> set cur" "cur_loop arch xnack cur (weight m) v = fst e" "weight m < weight (snd e)"
        "vertex_supported arch xnack (the (fst e))"
        "\<forall>e' \<in> set cur. vertex_supported arch xnack (the (fst e')) \<longrightarrow> weight (snd e') \<le> weight (snd e)" by blast
      with True show ?thesis by (intro disjI2 bexI [of _ e]) (simp_all add: x)
    qed
  next
    case False
    from Cons.IH [of w ptr] show ?thesis
    proof
      assume "cur_loop arch xnack cur w ptr = ptr
        \<and> (\<forall>e \<in> set cur. vertex_supported arch xnack (the (fst e)) \<longrightarrow> weight (snd e) \<le> w)"
      with False show ?thesis by (intro disjI1) (auto simp: x)
    next
      assume "\<exists>e \<in> set cur. cur_loop arch xnack cur w ptr = fst e \<and> w < weight (snd e)
        \<and> vertex_supported arch xnack (the (fst e))
        \<and> (\<forall>e' \<in> set cur. vertex_supported arch xnack (the (fst e')) \<longrightarrow> weight (snd e') \<le> weight (snd e))"
      then obtain e where "e \<in> set cur" "cur_loop arch xnack cur w ptr = fst e" "w < weight (snd e)"
        "vertex_supported arch xnack (the (fst e))"
        "\<forall>e' \<in> set cur. vertex_supported arch xnack (the (fst e')) \<longrightarrow> weight (snd e') \<le> weight (snd e)" by blast
      with False show ?thesis by (intro disjI2 bexI [of _ e]) (auto simp: x)
    qed
  qed
qed simp

lemma in_ends: "(v, w) \<in> ends cur \<longleftrightarrow> (\<exists>m. (v, m) \<in> set cur \<and> w = weight m)"
  by (auto simp: ends_def image_iff split: prod.splits)

lemma walk_end_Some: "walk parse g ops v w \<Longrightarrow> ops \<noteq> [] \<Longrightarrow> \<exists>c. v = Some c"
  by (induction rule: walk.induct) auto

lemma Advances_chosen:
  assumes st: "Advances parse g mdg_start ops = Inr st" and ops: "ops \<noteq> []"
  shows "case GetCurVertex arch xnack st of
      Some v \<Rightarrow> \<exists>w \<ge> 0. walk parse g ops (Some v) w \<and> vertex_supported arch xnack v
                \<and> (\<forall>v' w'. walk parse g ops (Some v') w' \<longrightarrow> vertex_supported arch xnack v' \<longrightarrow> w' \<le> w)
    | None \<Rightarrow> \<forall>v w. walk parse g ops (Some v) w \<longrightarrow> 0 \<le> w \<longrightarrow> \<not> vertex_supported arch xnack v"
proof -
  have e: "walk parse g ops v w \<longleftrightarrow> (\<exists>m. (v, m) \<in> set (cur_vertex st) \<and> w = weight m)" for v w
    using Advances_ends(1) [OF st] by (simp add: in_ends [symmetric])
  have some: "v \<noteq> None" if "(v, m) \<in> set (cur_vertex st)" for v m using walk_end_Some [OF _ ops, of parse g v] e that by blast
  from cur_loop_chosen [of arch xnack "cur_vertex st" "- 1" None] show ?thesis
  proof
    assume a: "cur_loop arch xnack (cur_vertex st) (- 1) None = None
      \<and> (\<forall>e \<in> set (cur_vertex st). vertex_supported arch xnack (the (fst e)) \<longrightarrow> weight (snd e) \<le> - 1)"
    then have "weight m \<le> - 1" if "(Some v, m) \<in> set (cur_vertex st)" "vertex_supported arch xnack v" for v m
      using that by fastforce
    with a show ?thesis by (force simp: GetCurVertex_def e)
  next
    assume "\<exists>e \<in> set (cur_vertex st). cur_loop arch xnack (cur_vertex st) (- 1) None = fst e \<and> - 1 < weight (snd e)
      \<and> vertex_supported arch xnack (the (fst e))
      \<and> (\<forall>e' \<in> set (cur_vertex st). vertex_supported arch xnack (the (fst e')) \<longrightarrow> weight (snd e') \<le> weight (snd e))"
    then obtain v m where v: "(v, m) \<in> set (cur_vertex st)" "GetCurVertex arch xnack st = v" "- 1 < weight m"
      "vertex_supported arch xnack (the v)"
      "\<forall>e' \<in> set (cur_vertex st). vertex_supported arch xnack (the (fst e')) \<longrightarrow> weight (snd e') \<le> weight m"
      unfolding GetCurVertex_def by (metis prod.collapse)
    moreover from some [OF v(1)] obtain c where c: "v = Some c" by auto
    moreover from v(1) c have "walk parse g ops (Some c) (weight m)" by (auto simp: e)
    moreover have "w' \<le> weight m" if "walk parse g ops (Some v') w'" "vertex_supported arch xnack v'" for v' w'
      using that v(5) by (force simp: e)
    ultimately show ?thesis by (auto intro!: exI [of _ "weight m"])
  qed
qed

end
