(* ===== verification/Fusion_Init.thy ===== *)
theory Fusion_Init
  imports Fusion_Graph Controls
begin

text \<open>
  The graphs of \<open>FusionMDGraph::Init\<close> (\<open>src/md_graph.cpp\<close>): their vertices and, in order, the calls of \<open>AddEdge\<close>.
  The vertices are numbered from \<open>n\<close> on, as the running id of the source does. The default arguments of the kernels
  are left out.
\<close>

section \<open>Graphs as calls of AddEdge\<close>

type_synonym edge_call = "vertex option \<times> vertex \<times> edge_map"

definition add_edges :: "graph \<Rightarrow> edge_call list \<Rightarrow> graph" where
  "add_edges g calls = foldl (\<lambda>g (s, d, m). AddEdge g s d m) g calls"

definition mk_vertex :: "nat \<Rightarrow> fusion_op \<Rightarrow> string \<Rightarrow> string \<Rightarrow> string \<Rightarrow> vertex" where
  "mk_vertex i kind program kname algorithm =
     \<lparr>v_id = i, v_op = kind, v_program = program, v_kernel = kname, v_algorithm = algorithm, v_is_leaf = False,
      supported_arch = [], supported_xnack = None, v_solver = None\<rparr>"

definition with_support :: "string list \<Rightarrow> bool \<Rightarrow> vertex \<Rightarrow> vertex" where
  "with_support archs xnack v = v\<lparr>supported_arch := archs, supported_xnack := Some xnack\<rparr>"

definition constraints :: "string list \<Rightarrow> edge_map" where
  "constraints cs = [(''constraints'', cs)]"

definition empty_map :: edge_map where
  "empty_map = constraints [''weight === 0'']"

section \<open>Batch normalization\<close>

definition InitBNFwd_calls :: "nat \<Rightarrow> edge_call list" where
  "InitBNFwd_calls n =
     (let act = (\<lambda>i kind. mk_vertex i kind ''MIOpenBatchNormActivFwdTrainPerAct.cl''
                   ''MIOpenBatchNormActivFwdTrainPerActivation'' ''MIOpenBatchNormActivFwdTrainPerActivation'');
          spa = (\<lambda>i kind. mk_vertex i kind ''MIOpenBatchNormActivFwdTrainSpatial.cl''
                   ''MIOpenBatchNormActivFwdTrainSpatial'' ''MIOpenBatchNormActivFwdTrainSpatial'');
          bn_v = act n miopenFusionOpBatchNormFwdTrain;
          bn_s = spa (n + 2) miopenFusionOpBatchNormFwdTrain
      in [(None, bn_v, constraints [''weight === 0'', ''bn_mode == miopenBNPerActivation'']),
          (Some bn_v, act (n + 1) miopenFusionOpActivForward, empty_map),
          (None, bn_s, constraints [''weight === 0'', ''bn_mode == miopenBNSpatial'']),
          (Some bn_s, spa (n + 3) miopenFusionOpActivForward, empty_map)])"

definition InitBNBwd_calls :: "nat \<Rightarrow> edge_call list" where
  "InitBNBwd_calls n =
     (let act = (\<lambda>i kind. mk_vertex i kind ''MIOpenBatchNormActivBwdPerAct.cl''
                   ''MIOpenBatchNormActivBwdPerActivation'' ''MIOpenBatchNormActivBwdPerActivation'');
          spa = (\<lambda>i kind. mk_vertex i kind ''MIOpenBatchNormActivBwdSpatial.cl''
                   ''MIOpenBatchNormActivBwdSpatial'' ''MIOpenBatchNormActivBwdSpatial'');
          bn_v = act n miopenFusionOpBatchNormBwdTrain;
          bn_s = spa (n + 2) miopenFusionOpBatchNormBwdTrain
      in [(None, bn_v, constraints [''weight === 0'', ''bn_mode == miopenBNPerActivation'']),
          (Some bn_v, act (n + 1) miopenFusionOpActivBackward, empty_map),
          (None, bn_s, constraints [''weight === 0'', ''bn_mode == miopenBNSpatial'']),
          (Some bn_s, spa (n + 3) miopenFusionOpActivBackward, empty_map)])"

definition InitBN_calls :: "nat \<Rightarrow> edge_call list" where
  "InitBN_calls n =
     (let act = (\<lambda>i kind. mk_vertex i kind ''MIOpenBatchNormActivInfer.cl''
                   ''MIOpenBatchNormActivInferPerActEst'' ''MIOpenBatchNormActivInferPerActEst'');
          spa = (\<lambda>i kind. mk_vertex i kind ''MIOpenBatchNormActivInfer.cl''
                   ''MIOpenBatchNormActivInferSpatialEst'' ''MIOpenBatchNormActivInferSpatialEst'');
          bn_v = act n miopenFusionOpBatchNormInference;
          bn_s = spa (n + 2) miopenFusionOpBatchNormInference
      in [(None, bn_v, constraints [''bn_mode == miopenBNPerActivation'', ''weight === 0'']),
          (Some bn_v, act (n + 1) miopenFusionOpActivForward, empty_map),
          (None, bn_s, constraints [''bn_mode == miopenBNSpatial'', ''weight === 0'']),
          (Some bn_s, spa (n + 3) miopenFusionOpActivForward, empty_map)])"

section \<open>Convolution: Winograd kernels\<close>

definition wino_algo :: string where
  "wino_algo = ''miopenConvolutionWinogradBiasActiv''"

definition common_constr :: "string list" where
  "common_constr =
     [''algo === miopenConvolutionFwdAlgoWinograd'', ''precision == miopenFloat'', ''stride_h == stride_w'',
      ''dilation_h == 1'', ''dilation_w == 1'',
      ''c * x * y <= (2^28)'', ''k * x * y <= (2^28)'',
      ''k * oH * oW <= (2^28)'', ''c * iH * iW <= (2^28)'',
      ''x <= (2^16)'', ''y <= (2^16)'',
      ''pad_h <= (2^16)'', ''pad_w <= (2^16)'',
      ''oH <= (2^16)'', ''oW <= (2^16)'',
      ''iH <= (2^16)'', ''iW <= (2^16)'',
      ''c <= (2^16)'', ''k <= (2^16)'',
      ''iN <= (2^16)'', ''group_count == 1'']"

definition add_relu :: "nat \<Rightarrow> string \<Rightarrow> string \<Rightarrow> vertex \<Rightarrow> string list \<Rightarrow> bool \<Rightarrow> edge_call list" where
  "add_relu n program kname conv_v archs xnack =
     (let relu = constraints [''activ_mode == miopenActivationRELU'', ''weight === 0''];
          leaky = constraints [''activ_mode == miopenActivationLEAKYRELU'', ''weight === 0''];
          bias_v = with_support archs xnack (mk_vertex n miopenFusionOpBiasForward program kname wino_algo);
          activ_v = with_support archs xnack
            (mk_vertex (n + 1) miopenFusionOpActivForward program kname wino_algo)\<lparr>v_is_leaf := True\<rparr>;
          activ_c = with_support archs xnack
            (mk_vertex (n + 2) miopenFusionOpActivForward program kname wino_algo)\<lparr>v_is_leaf := True\<rparr>
      in [(Some conv_v, bias_v, empty_map), (Some bias_v, activ_v, relu), (Some bias_v, activ_v, leaky),
          (Some conv_v, activ_c, relu), (Some conv_v, activ_c, leaky)])"

definition v9_meta :: "string list \<Rightarrow> int \<Rightarrow> edge_map" where
  "v9_meta cs w = constraints
     (cs @ [''weight === '' @ show_int w, ''((padded_x / 3) * (padded_y / 3) * c ) >= 18''] @ common_constr)"

definition wino_v9_calls :: "nat \<Rightarrow> edge_call list" where
  "wino_v9_calls n =
     (let kname = ''miopenSp3AsmConvRxSU_CBA''; archs = [''gfx803''];
          conv = (\<lambda>i program. (with_support archs False (mk_vertex i miopenFusionOpConvForward program kname wino_algo))
                    \<lparr>v_solver := Some ''ConvBinWinogradRxSFused''\<rparr>);
          program = ''conv_3x3_wheel_alpha_v9_2_7.s'';
          program_s2 = ''conv_3x3_wheel_alpha_v9_2_7_stride_2_dec.s'';
          vc_s1 = conv n program; vc_s2 = conv (n + 4) program_s2
      in [(None, vc_s1, v9_meta [''stride_h == 1'', ''y <= 3'', ''padded_y === 3'', ''padded_x === (x ~ 3)'', ''(c % 2) == 0''] 5),
          (None, vc_s1, v9_meta [''stride_h == 1'', ''y > 3'', ''padded_y === (y ~ 6)'', ''padded_x === (x ~ 3)''] 5),
          (None, vc_s1, v9_meta [''stride_h == 1'', ''(y == 3) & (x == 3)'', ''padded_y === 3'', ''padded_x === (x ~ 3)'',
             ''(c % 2) == 0''] 100)]
         @ add_relu (n + 1) program kname vc_s1 archs False
         @ [(None, vc_s2, v9_meta [''stride_h == 2'', ''padded_y === (y ~ 6)'', ''(x % 6) == 1'', ''padded_x === (x ~ 3)''] 5),
            (None, vc_s2, v9_meta [''stride_h == 2'', ''padded_y === (y ~ 6)'', ''(x % 6) != 1'', ''padded_x === (x ~ 6)''] 5),
            (None, vc_s2, v9_meta [''stride_h == 2'', ''(x == 3) & (y == 3)'', ''padded_y === (y ~ 6)'', ''(x % 6) != 1'',
               ''padded_x === (x ~ 6)''] 100)]
         @ add_relu (n + 5) program_s2 kname vc_s2 archs False)"

definition v21_meta :: "string list \<Rightarrow> int \<Rightarrow> edge_map" where
  "v21_meta cs w = constraints (cs @ [''weight === '' @ show_int w, ''oH * oW <= (2^23)''] @ common_constr)"

definition add_v21_wino :: "nat \<Rightarrow> string \<Rightarrow> string list \<Rightarrow> int \<Rightarrow> edge_call list" where
  "add_v21_wino n family archs stride =
     (let kernel_postfix = ''_fp32_stride'' @ show_int stride;
          kernel_file = ''Conv_Winograd_v21_1_3'' @ kernel_postfix @ ''.s'';
          kernel_name = ''miopenSp3AsmConv_v21_1_3_'' @ family @ kernel_postfix;
          conv_v = (with_support archs False (mk_vertex n miopenFusionOpConvForward kernel_file kernel_name wino_algo))
                     \<lparr>v_solver := Some ''ConvBinWinogradRxSf2x3g1Fused''\<rparr>;
          stride_constr = ''stride_h == '' @ show_int stride
      in [(None, conv_v, v21_meta [stride_constr] 5),
          (None, conv_v, v21_meta [stride_constr, ''(y == 3) & (x == 3)''] 100)]
         @ add_relu (n + 1) kernel_file kernel_name conv_v archs False)"

definition wino_calls :: "nat \<Rightarrow> edge_call list" where
  "wino_calls n =
     (let gfx9 = [''gfx900'', ''gfx906'', ''gfx908'', ''gfx90a''];
          gfx10 = [''gfx1011'', ''gfx1012'', ''gfx1030'', ''gfx1031'']
      in wino_v9_calls n
         @ add_v21_wino (n + 8) ''gfx9'' gfx9 1 @ add_v21_wino (n + 12) ''gfx9'' gfx9 2
         @ add_v21_wino (n + 16) ''gfx10'' gfx10 1 @ add_v21_wino (n + 20) ''gfx10'' gfx10 2)"

section \<open>Convolution: assembly and OpenCL kernels\<close>

definition asm_path :: "nat \<Rightarrow> string list \<Rightarrow> edge_map \<Rightarrow> edge_call list" where
  "asm_path n archs map_asm_conv =
     (let mk = (\<lambda>i kind. with_support archs False
                  (mk_vertex i kind ''conv1x1u_bias_activ.s'' ''miopenGcnAsmConv1x1U'' ''miopenConvolutionDirectBiasActivAsm''));
          conv_v = (mk n miopenFusionOpConvForward)\<lparr>v_solver := Some ''ConvBiasActivAsm1x1U''\<rparr>;
          bias_v = mk (n + 1) miopenFusionOpBiasForward;
          activ_v = (mk (n + 2) miopenFusionOpActivForward)\<lparr>v_is_leaf := True\<rparr>
      in [(None, conv_v, map_asm_conv), (Some conv_v, bias_v, empty_map), (Some bias_v, activ_v, empty_map),
          (Some conv_v, activ_v, empty_map)])"

definition asm_single :: edge_map where
  "asm_single = constraints
     [''group_count == 1'', ''pad_h == 0'', ''pad_w == 0'', ''stride_h == 1'', ''stride_w == 1'',
      ''dilation_h == 1'', ''dilation_w == 1'', ''x == 1'', ''y == 1'',
      ''c < (2^16)'', ''k < (2^16)'', ''iN < (2^16)'',
      ''(c * iH * iW * 4) < (2^24)'', ''(k * oH * oW * 4) < (2^24)'',
      ''(iN * c * iH * iW) < (2^29)'', ''(iN * k * oH * oW) < (2^29)'', ''(c * k) < (2^29)'',
      ''precision == miopenFloat'', ''weight === 50'', ''algo === miopenConvolutionFwdAlgoDirect'']"

definition asm_half :: edge_map where
  "asm_half = constraints
     [''group_count == 1'', ''pad_h == 0'', ''pad_w == 0'', ''stride_h == 1'', ''stride_w == 1'',
      ''dilation_h == 1'', ''dilation_w == 1'', ''x == 1'', ''y == 1'',
      ''c < (2^16)'', ''k < (2^16)'', ''iN < (2^16)'', ''k >= 4'', ''(oH * oW) >= 2'',
      ''(c * iH * iW * 4) < (2^24)'', ''(k * oH * oW * 4) < (2^24)'',
      ''(iN * c * iH * iW) < (2^29)'', ''(iN * k * oH * oW) < (2^29)'', ''(c * k) < (2^29)'',
      ''precision == miopenHalf'', ''(c % 2) == 0'', ''(k % 2) == 0'',
      ''weight === 50'', ''algo === miopenConvolutionFwdAlgoDirect'']"

definition asm_calls :: "nat \<Rightarrow> edge_call list" where
  "asm_calls n =
     asm_path n [''gfx803'', ''gfx900'', ''gfx906'', ''gfx908'', ''gfx90a''] asm_single
     @ asm_path (n + 3) [''gfx900'', ''gfx906'', ''gfx908'', ''gfx90a''] asm_half"

definition ocl_vertex :: "nat \<Rightarrow> fusion_op \<Rightarrow> string \<Rightarrow> vertex" where
  "ocl_vertex i kind algorithm =
     mk_vertex i kind ''MIOpenConvDirBatchNormActiv.cl'' ''MIOpenConvUniBatchNormActiv'' algorithm"

definition ocl_conv :: "nat \<Rightarrow> vertex" where
  "ocl_conv i = (ocl_vertex i miopenFusionOpConvForward ''miopenConvolutionDirectBiasActiv'')
     \<lparr>v_solver := Some ''ConvOclDirectFwdFused''\<rparr>"

definition ocl_common :: "int \<Rightarrow> string list" where
  "ocl_common len =
     [''group_count == 1'', ''dilation_h == 1'', ''dilation_w == 1'', ''x == '' @ show_int len, ''y == '' @ show_int len,
      ''precision == miopenFloat'', ''weight === 10'', ''algo === miopenConvolutionFwdAlgoDirect'']"

definition ocl_bias_map :: "int \<Rightarrow> edge_map" where
  "ocl_bias_map len = constraints (ocl_common len @
     (if len \<noteq> 1 then [''pad_h <= 2'', ''pad_w <= 2'', ''((stride_h == 1) | (stride_h == 2))'', ''((stride_w == 1) | (stride_w == 2))'']
      else [''precision == miopenFloat'', ''pad_h == 0'', ''pad_w == 0'', ''stride_h == 1'', ''stride_w == 1'']))"

definition ocl_bn_map :: "int \<Rightarrow> edge_map" where
  "ocl_bn_map len = constraints (ocl_common len @
     [''pad_h <= 2'', ''pad_w <= 2'', ''((stride_h == 1) | (stride_h == 2))'', ''((stride_w == 1) | (stride_w == 2))''])"

text \<open>The second path.\<close>

definition ocl_calls :: "nat \<Rightarrow> edge_call list" where
  "ocl_calls n =
     (let conv_v = ocl_conv n;
          bias_v = ocl_vertex (n + 1) miopenFusionOpBiasForward ''miopenConvolutionDirectBiasActiv'';
          activ_v = (ocl_vertex (n + 2) miopenFusionOpActivForward ''miopenConvolutionDirectBiasActiv'')\<lparr>v_is_leaf := True\<rparr>
      in map (\<lambda>len. (None, conv_v, ocl_bias_map len)) [3, 5, 7, 9, 11]
         @ [(Some conv_v, bias_v, empty_map), (Some bias_v, activ_v, empty_map), (Some conv_v, activ_v, empty_map)])"

text \<open>The third path. The edge \<open>Conv -> BN\<close> for the spatial mode is added without constraints: the source assigns its
  constraints to the map of the edge before.\<close>

definition ocl_bn_calls :: "nat \<Rightarrow> edge_call list" where
  "ocl_bn_calls n =
     (let conv_v = ocl_conv n;
          bias_v = ocl_vertex (n + 1) miopenFusionOpBiasForward ''miopenConvolutionDirectBiasActiv'';
          bn_v = ocl_vertex (n + 2) miopenFusionOpBatchNormInference ''miopenConvDirectBatchNormBiasActiv'';
          activ_v = ocl_vertex (n + 3) miopenFusionOpActivForward ''miopenConvDirectBatchNormBiasActiv'';
          bn_c = ocl_vertex (n + 4) miopenFusionOpBatchNormInference ''miopenConvDirectBatchNormBiasActiv'';
          activ_c = ocl_vertex (n + 5) miopenFusionOpActivForward ''miopenConvDirectBatchNormBiasActiv''
      in map (\<lambda>len. (None, conv_v, ocl_bn_map len)) [3, 5, 7, 9, 11]
         @ [(Some conv_v, bias_v, empty_map),
            (Some bias_v, bn_v, constraints [''weight === 0'', ''bn_mode == miopenBNPerActivation'']),
            (Some bias_v, bn_v, constraints [''weight === 0'', ''bn_mode == miopenBNSpatial'']),
            (Some bn_v, activ_v, empty_map),
            (Some conv_v, bn_c, constraints [''bn_mode == miopenBNPerActivation'', ''weight === 0'']),
            (Some conv_v, bn_c, []),
            (Some bn_c, activ_c, empty_map)])"

text \<open>\<open>InitConv\<close>, with the environment \<open>env\<close>.\<close>

definition InitConv_calls :: "(string \<Rightarrow> string option) \<Rightarrow> nat \<Rightarrow> edge_call list" where
  "InitConv_calls env n =
     (let no_wino = IsEnvvarValueDisabled (env ''MIOPEN_DEBUG_AMD_FUSED_WINOGRAD'');
          no_asm = IsEnvvarValueDisabled (env ''MIOPEN_DEBUG_GCN_ASM_KERNELS'');
          wino = (if \<not> no_wino \<and> \<not> no_asm then wino_calls n else []);
          n1 = (if \<not> no_wino \<and> \<not> no_asm then n + 24 else n);
          asm = (if \<not> no_asm then asm_calls n1 else []);
          n2 = (if \<not> no_asm then n1 + 6 else n1)
      in wino @ asm @ ocl_calls n2 @ ocl_bn_calls (n2 + 3))"

definition Init_calls :: "(string \<Rightarrow> string option) \<Rightarrow> nat \<Rightarrow> fusion_op \<Rightarrow> edge_call list result" where
  "Init_calls env n kind =
     (case kind of
        miopenFusionOpConvForward \<Rightarrow> Inr (InitConv_calls env n)
      | miopenFusionOpBatchNormInference \<Rightarrow> Inr (InitBN_calls n)
      | miopenFusionOpBatchNormFwdTrain \<Rightarrow> Inr (InitBNFwd_calls n)
      | miopenFusionOpBatchNormBwdTrain \<Rightarrow> Inr (InitBNBwd_calls n)
      | _ \<Rightarrow> throw_st miopenStatusNotImplemented
               ''Operators Activ and Bias are not supported as first ops in a Fusion Plan (yet)'')"

definition mdg_Init :: "(string \<Rightarrow> string option) \<Rightarrow> nat \<Rightarrow> graph \<Rightarrow> fusion_op \<Rightarrow> graph result" where
  "mdg_Init env n g kind =
     (case Init_calls env n kind of Inl e \<Rightarrow> Inl e | Inr calls \<Rightarrow> Inr (add_edges g calls))"

section \<open>Edges of a graph\<close>

lemma children_AddEdge:
  "children (AddEdge g s d m) v =
     (if v = s then AList.update d (case map_of (children g s) d of None \<Rightarrow> [m] | Some es \<Rightarrow> es @ [m]) (children g s)
      else children g v)"
  by (auto simp: AddEdge_def Let_def children_def update_conv split: option.splits)

lemma set_update_subset: "set (AList.update k v al) \<subseteq> insert (k, v) (set al)"
  by (induction al) auto

lemma edges_of_calls:
  assumes "(c, es) \<in> set (children (add_edges [] calls) v)" "m \<in> set es"
  shows "(v, c, m) \<in> set calls"
proof -
  have "(\<forall>v c es m. (c, es) \<in> set (children (add_edges [] calls) v) \<longrightarrow> m \<in> set es \<longrightarrow> (v, c, m) \<in> set calls)"
  proof (induction calls rule: rev_induct)
    case Nil
    then show ?case by (simp add: add_edges_def children_def)
  next
    case (snoc x calls)
    obtain s d e where x: "x = (s, d, e)" by (cases x) auto
    let ?g = "add_edges [] calls"
    have g: "add_edges [] (calls @ [x]) = AddEdge ?g s d e" by (simp add: add_edges_def x)
    show ?case
    proof (intro allI impI)
      fix v c es m
      assume a: "(c, es) \<in> set (children (add_edges [] (calls @ [x])) v)" "m \<in> set es"
      show "(v, c, m) \<in> set (calls @ [x])"
      proof (cases "v = s")
        case True
        let ?new = "case map_of (children ?g s) d of None \<Rightarrow> [e] | Some es \<Rightarrow> es @ [e]"
        from a(1) True have "(c, es) \<in> set (AList.update d ?new (children ?g s))" by (simp add: g children_AddEdge)
        then have "(c, es) = (d, ?new) \<or> (c, es) \<in> set (children ?g s)" using set_update_subset by fastforce
        then show ?thesis
        proof
          assume "(c, es) = (d, ?new)"
          with a(2) have "m = e \<or> (\<exists>es'. (d, es') \<in> set (children ?g s) \<and> m \<in> set es')" "c = d"
            by (auto split: option.splits dest: map_of_SomeD)
          with snoc.IH True show ?thesis by (auto simp: x)
        next
          assume "(c, es) \<in> set (children ?g s)"
          with snoc.IH a(2) True show ?thesis by auto
        qed
      next
        case False
        with a snoc.IH show ?thesis by (auto simp: g children_AddEdge)
      qed
    qed
  qed
  with assms show ?thesis by blast
qed

lemma takes_edge: "takes parse s c es d \<Longrightarrow> \<exists>m \<in> set es. passes parse (snd s) m"
  by (auto simp: takes_def)

section \<open>Plans for a convolution\<close>

text \<open>The sequences of operators that the graph of \<open>InitConv\<close> has paths for.\<close>

definition conv_plans :: "fusion_op list set" where
  "conv_plans =
     {[miopenFusionOpConvForward],
      [miopenFusionOpConvForward, miopenFusionOpBiasForward],
      [miopenFusionOpConvForward, miopenFusionOpBiasForward, miopenFusionOpActivForward],
      [miopenFusionOpConvForward, miopenFusionOpActivForward],
      [miopenFusionOpConvForward, miopenFusionOpBiasForward, miopenFusionOpBatchNormInference],
      [miopenFusionOpConvForward, miopenFusionOpBiasForward, miopenFusionOpBatchNormInference, miopenFusionOpActivForward],
      [miopenFusionOpConvForward, miopenFusionOpBatchNormInference],
      [miopenFusionOpConvForward, miopenFusionOpBatchNormInference, miopenFusionOpActivForward]}"

definition conv_next :: "fusion_op \<Rightarrow> fusion_op list" where
  "conv_next kind =
     (case kind of
        miopenFusionOpConvForward \<Rightarrow> [miopenFusionOpBiasForward, miopenFusionOpActivForward, miopenFusionOpBatchNormInference]
      | miopenFusionOpBiasForward \<Rightarrow> [miopenFusionOpActivForward, miopenFusionOpBatchNormInference]
      | miopenFusionOpBatchNormInference \<Rightarrow> [miopenFusionOpActivForward]
      | _ \<Rightarrow> [])"

definition same_kernel :: "vertex \<Rightarrow> vertex \<Rightarrow> bool" where
  "same_kernel v c \<longleftrightarrow> v_program v = v_program c \<and> v_kernel v = v_kernel c
     \<and> supported_arch v = supported_arch c \<and> supported_xnack v = supported_xnack c"

text \<open>What every call of \<open>AddEdge\<close> keeps: a child of the root is a convolution; any other child is of the kernel of its
  parent, and the parent's operator may be followed by the child's.\<close>

definition conv_call :: "edge_call \<Rightarrow> bool" where
  "conv_call call =
     (case call of
        (None, c, m) \<Rightarrow> v_op c = miopenFusionOpConvForward \<and> v_solver c \<noteq> None
      | (Some v, c, m) \<Rightarrow> same_kernel v c \<and> v_op c \<in> set (conv_next (v_op v)))"

lemmas call_defs = conv_call_def same_kernel_def conv_next_def mk_vertex_def with_support_def Let_def

lemma conv_call_add_relu:
  "v_op v = miopenFusionOpConvForward \<Longrightarrow> v_program v = p \<Longrightarrow> v_kernel v = k \<Longrightarrow> supported_arch v = archs
    \<Longrightarrow> supported_xnack v = Some x \<Longrightarrow> list_all conv_call (add_relu n p k v archs x)"
  by (simp add: add_relu_def call_defs)

lemma conv_call_wino: "list_all conv_call (wino_calls n)"
proof -
  have "list_all conv_call (wino_v9_calls n)" for n
    unfolding wino_v9_calls_def Let_def list_all_append
    by (intro conjI conv_call_add_relu) (simp_all add: call_defs)
  moreover have "list_all conv_call (add_v21_wino n f archs s)" for n f archs s
    unfolding add_v21_wino_def Let_def list_all_append
    by (intro conjI conv_call_add_relu) (simp_all add: call_defs)
  ultimately show ?thesis by (simp add: wino_calls_def Let_def)
qed

lemma conv_call_rest: "list_all conv_call (asm_calls n)" "list_all conv_call (ocl_calls n)" "list_all conv_call (ocl_bn_calls n)"
  by (simp_all add: asm_calls_def asm_path_def ocl_calls_def ocl_bn_calls_def ocl_conv_def ocl_vertex_def call_defs)

lemma conv_call_InitConv: "call \<in> set (InitConv_calls env n) \<Longrightarrow> conv_call call"
  using conv_call_wino conv_call_rest unfolding InitConv_calls_def Let_def
  by (auto simp: list_all_iff split: if_splits)

abbreviation conv_graph :: "(string \<Rightarrow> string option) \<Rightarrow> nat \<Rightarrow> graph" where
  "conv_graph env n \<equiv> add_edges [] (InitConv_calls env n)"

lemma conv_child:
  assumes "(c, es) \<in> set (children (conv_graph env n) v)" "es \<noteq> []"
  shows "conv_call (v, c, hd es)"
  using edges_of_calls [OF assms(1), of "hd es"] assms(2) by (simp add: conv_call_InitConv)

lemma conv_next_simps:
  "conv_next miopenFusionOpConvForward = [miopenFusionOpBiasForward, miopenFusionOpActivForward, miopenFusionOpBatchNormInference]"
  "conv_next miopenFusionOpBiasForward = [miopenFusionOpActivForward, miopenFusionOpBatchNormInference]"
  "conv_next miopenFusionOpBatchNormInference = [miopenFusionOpActivForward]"
  "conv_next miopenFusionOpActivForward = []"
  by (simp_all add: conv_next_def)

lemma conv_plans_next:
  assumes "ks \<in> conv_plans" "kind \<in> set (conv_next (last ks))"
  shows "ks @ [kind] \<in> conv_plans"
  using assms(1) unfolding conv_plans_def
  by (elim insertE emptyE; use assms(2) in \<open>simp add: conv_next_simps\<close>; elim disjE; simp)

lemma walk_conv_plan:
  assumes "walk parse (conv_graph env n) ops v w"
  shows "ops = [] \<and> v = None
    \<or> (\<exists>c. v = Some c \<and> ops \<noteq> [] \<and> last (map fst ops) = v_op c \<and> map fst ops \<in> conv_plans)"
  using assms
proof (induction rule: walk.induct)
  case (walk_step ops v w c es s d)
  from walk_step.hyps(3) have c: "v_op c = fst s" "es \<noteq> []" by (auto simp: takes_def)
  have call: "conv_call (v, c, hd es)" by (rule conv_child [OF walk_step.hyps(2) c(2)])
  show ?case
  proof (cases v)
    case None
    with walk_step.IH call c show ?thesis by (simp add: conv_call_def conv_plans_def)
  next
    case (Some v')
    with call have nxt: "v_op c \<in> set (conv_next (v_op v'))" by (simp add: conv_call_def)
    from Some walk_step.IH have "last (map fst ops) = v_op v'" "map fst ops \<in> conv_plans" by auto
    with nxt have "map fst ops @ [v_op c] \<in> conv_plans" by (simp add: conv_plans_next)
    then show ?thesis by (simp add: c)
  qed
qed simp

text \<open>Every path carries the solver of the convolution it began with, which is of the same kernel.\<close>

definition solver_kept :: "edge_call list \<Rightarrow> vertex option \<times> path_state \<Rightarrow> bool" where
  "solver_kept calls e \<longleftrightarrow> (case fst e of None \<Rightarrow> True
     | Some c \<Rightarrow> \<exists>c0 m. (None, c0, m) \<in> set calls \<and> v_solver c0 \<noteq> None \<and> path_solver (snd e) = v_solver c0
                     \<and> same_kernel c0 c)"

lemma Advance_solver_kept:
  assumes "Advance parse (conv_graph env n) st kind attr = Inr (st', ok)" "\<forall>e \<in> set (cur_vertex st). solver_kept (InitConv_calls env n) e"
    "e \<in> set (cur_vertex st')"
  shows "solver_kept (InitConv_calls env n) e"
proof -
  from Advance_entry [OF assms(1,3)] obtain v m c es where e: "(v, m) \<in> set (cur_vertex st)" "fst e = Some c"
    "(c, es) \<in> set (children (conv_graph env n) v)" "es \<noteq> []" "v_op c = kind"
    "path_solver (snd e) = (if kind = miopenFusionOpConvForward then v_solver c else path_solver m)"
    by (auto simp: entry_from_def)
  have call: "conv_call (v, c, hd es)" by (rule conv_child [OF e(3,4)])
  show ?thesis
  proof (cases v)
    case None
    with call have "v_op c = miopenFusionOpConvForward" "v_solver c \<noteq> None" by (simp_all add: conv_call_def)
    moreover from edges_of_calls [OF e(3), of "hd es"] e(4) None have "(None, c, hd es) \<in> set (InitConv_calls env n)" by simp
    ultimately show ?thesis using e by (auto simp: solver_kept_def same_kernel_def)
  next
    case (Some v')
    with call have nxt: "v_op c \<in> set (conv_next (v_op v'))" "same_kernel v' c" by (simp_all add: conv_call_def)
    then have "kind \<noteq> miopenFusionOpConvForward"
      using e(5) by (auto simp: conv_next_def split: fusion_op.splits)
    moreover from assms(2) e(1) Some obtain c0 m0 where "(None, c0, m0) \<in> set (InitConv_calls env n)" "v_solver c0 \<noteq> None"
      "path_solver m = v_solver c0" "same_kernel c0 v'" by (fastforce simp: solver_kept_def)
    ultimately show ?thesis using e nxt(2) by (auto simp: solver_kept_def same_kernel_def)
  qed
qed

lemma Advances_solver_kept:
  assumes "Advances parse (conv_graph env n) st ops = Inr st'" "\<forall>e \<in> set (cur_vertex st). solver_kept (InitConv_calls env n) e"
  shows "\<forall>e \<in> set (cur_vertex st'). solver_kept (InitConv_calls env n) e"
  using assms
proof (induction ops arbitrary: st)
  case (Cons s ops)
  then obtain kind attr st1 ok where s: "s = (kind, attr)" "Advance parse (conv_graph env n) st kind attr = Inr (st1, ok)"
    "Advances parse (conv_graph env n) st1 ops = Inr st'"
    by (cases s) (auto split: sum.splits prod.splits)
  from Cons.IH [OF s(3)] Advance_solver_kept [OF s(2) Cons.prems(2)] show ?case by blast
qed simp

end
