(* ===== verification/Fusion_Plan.thy ===== *)
theory Fusion_Plan
  imports Fusion_Init Convolution
begin

text \<open>
  Fusion plans (\<open>src/fusion.cpp\<close>, \<open>src/include/miopen/fusion_plan.hpp\<close>): the descriptors of operators and their
  attributes, \<open>AddOp\<close>, the derived output and what a plan says of its kernel. An operator is made by
  the call of \<open>fused_api.cpp\<close> that adds it, so no two entries of a plan are the same object. Arguments of kernels,
  compilation and execution are left out.
\<close>

section \<open>Operators\<close>

text \<open>A mode is the value of its enumerator.\<close>

datatype op_desc =
    ConvForwardOp conv_desc tensor
  | ActivFwdOp int
  | BatchNormInferenceOp int
  | BiasOp
  | BatchNormFwdTrainOp int
  | BatchNormBwdTrainOp int
  | ActivBwdOp int

fun op_kind :: "op_desc \<Rightarrow> fusion_op" where
  "op_kind (ConvForwardOp c f) = miopenFusionOpConvForward"
| "op_kind (ActivFwdOp mode) = miopenFusionOpActivForward"
| "op_kind (BatchNormInferenceOp mode) = miopenFusionOpBatchNormInference"
| "op_kind BiasOp = miopenFusionOpBiasForward"
| "op_kind (BatchNormFwdTrainOp mode) = miopenFusionOpBatchNormFwdTrain"
| "op_kind (BatchNormBwdTrainOp mode) = miopenFusionOpBatchNormBwdTrain"
| "op_kind (ActivBwdOp mode) = miopenFusionOpActivBackward"

text \<open>A length or stride as an \<open>int\<close>; the strides in bytes of a type.\<close>

definition int_of_size :: "size_t \<Rightarrow> int" where
  "int_of_size s = sint (ucast s :: 32 word)"

definition byte_stride :: "tensor \<Rightarrow> data_type \<Rightarrow> nat \<Rightarrow> int" where
  "byte_stride t d i = int_of_size (t_strides t ! i * GetTypeSize d)"

text \<open>The attributes of a convolution with the input \<open>inp\<close>.\<close>

definition conv_attr :: "conv_desc \<Rightarrow> tensor \<Rightarrow> tensor \<Rightarrow> string \<Rightarrow> int option" where
  "conv_attr c filter_desc inp s =
     (let d = t_type inp; len = (\<lambda>i. int_of_size (t_lens filter_desc ! i)) in
      if s = ''x'' then Some (len 3) else if s = ''y'' then Some (len 2) else if s = ''c'' then Some (len 1)
      else if s = ''pad_h'' then Some (pads c ! 0) else if s = ''pad_w'' then Some (pads c ! 1)
      else if s = ''dilation_h'' then Some (dilations c ! 0) else if s = ''dilation_w'' then Some (dilations c ! 1)
      else if s = ''stride_h'' then Some (strides c ! 0) else if s = ''stride_w'' then Some (strides c ! 1)
      else if s = ''k'' then Some (len 0)
      else if s = ''group_count'' then Some (group_count c)
      else if s = ''f_byte_stride_nk'' then Some (byte_stride filter_desc d 0)
      else if s = ''f_byte_stride_c'' then Some (byte_stride filter_desc d 1)
      else if s = ''f_byte_stride_h'' then Some (byte_stride filter_desc d 2)
      else if s = ''f_byte_stride_w'' then Some (byte_stride filter_desc d 3)
      else None)"

fun GetOpAttr :: "op_desc \<Rightarrow> tensor \<Rightarrow> string \<Rightarrow> int option" where
  "GetOpAttr (ConvForwardOp c f) inp s = conv_attr c f inp s"
| "GetOpAttr (ActivFwdOp mode) inp s = (if s = ''activ_mode'' then Some mode else None)"
| "GetOpAttr (BatchNormInferenceOp mode) inp s = (if s = ''bn_mode'' then Some mode else None)"
| "GetOpAttr BiasOp inp s = None"
| "GetOpAttr (BatchNormFwdTrainOp mode) inp s = (if s = ''bn_mode'' then Some mode else None)"
| "GetOpAttr (BatchNormBwdTrainOp mode) inp s = (if s = ''bn_mode'' then Some mode else None)"
| "GetOpAttr (ActivBwdOp mode) inp s = None"

text \<open>\<open>GetOutputDesc\<close> of an operator with the input \<open>inp\<close>, over the descriptor \<open>out\<close>, which an error leaves as it is;
  no caller looks at the status.\<close>

fun GetOutputDesc :: "op_desc \<Rightarrow> tensor \<Rightarrow> tensor \<Rightarrow> tensor" where
  "GetOutputDesc (ConvForwardOp c f) inp out =
     (case GetForwardOutputTensor c inp f miopenFloat of Inl e \<Rightarrow> out | Inr t \<Rightarrow> t)"
| "GetOutputDesc d inp out = inp"

section \<open>Plans\<close>

datatype fusion_direction = miopenVerticalFusion | miopenHorizontalFusion

record plan_op =
  po_desc :: op_desc
  po_idx :: nat
  po_input :: tensor

record fusion_plan =
  fp_dir :: fusion_direction
  fp_input :: tensor
  fp_output :: tensor
  fp_count :: nat
  fp_ops :: "plan_op list"
  fp_graph :: graph
  fp_lu :: mdg
  fp_valid :: bool

definition default_tensor :: tensor where
  "default_tensor = \<lparr>t_lens = [], t_strides = [], t_packed = True, t_vector_length = 1, t_type = miopenFloat,
     t_layout = miopenTensorNCHW\<rparr>"

definition FusionPlanDescriptor :: "fusion_direction \<Rightarrow> tensor \<Rightarrow> fusion_plan" where
  "FusionPlanDescriptor dir inDesc =
     \<lparr>fp_dir = dir, fp_input = inDesc, fp_output = default_tensor, fp_count = 0, fp_ops = [], fp_graph = [],
      fp_lu = mdg_start, fp_valid = False\<rparr>"

definition GetEnumVal :: "string \<Rightarrow> int option" where
  "GetEnumVal s =
     (if s = ''miopenFloat'' then Some 1
      else if s = ''miopenConvolutionFwdAlgoDirect'' then Some 1
      else if s = ''miopenConvolutionFwdAlgoWinograd'' then Some 3
      else if s = ''miopenBNPerActivation'' then Some 0
      else if s = ''miopenBNSpatial'' then Some 1
      else if s = ''miopenActivationRELU'' then Some 3
      else if s = ''miopenActivationLEAKYRELU'' then Some 8
      else None)"

definition type_value :: "data_type \<Rightarrow> int" where
  "type_value d = (case d of miopenHalf \<Rightarrow> 0 | miopenFloat \<Rightarrow> 1 | miopenInt32 \<Rightarrow> 2 | miopenInt8 \<Rightarrow> 3
     | miopenInt8x4 \<Rightarrow> 4 | miopenBFloat16 \<Rightarrow> 5 | miopenDouble \<Rightarrow> 6)"

text \<open>\<open>tien<4>(lens, 1)\<close>.\<close>

definition len_or_1 :: "tensor \<Rightarrow> nat \<Rightarrow> int" where
  "len_or_1 t i = (if i < length (t_lens t) then int_of_size (t_lens t ! i) else 1)"

definition GetTensorAttr :: "fusion_plan \<Rightarrow> string \<Rightarrow> int option" where
  "GetTensorAttr p s =
     (let inp = fp_input p; out = fp_output p in
      if s = ''iN'' then Some (len_or_1 inp 0) else if s = ''iC'' then Some (len_or_1 inp 1)
      else if s = ''iH'' then Some (len_or_1 inp 2) else if s = ''iW'' then Some (len_or_1 inp 3)
      else if s = ''oN'' then Some (len_or_1 out 0) else if s = ''oK'' then Some (len_or_1 out 1)
      else if s = ''oH'' then Some (len_or_1 out 2) else if s = ''oW'' then Some (len_or_1 out 3)
      else if s = ''d_byte_stride_nk'' then Some (byte_stride inp (t_type inp) 0)
      else if s = ''d_byte_stride_c'' then Some (byte_stride inp (t_type inp) 1)
      else if s = ''d_byte_stride_h'' then Some (byte_stride inp (t_type inp) 2)
      else if s = ''d_byte_stride_w'' then Some (byte_stride inp (t_type inp) 3)
      else if s = ''o_byte_stride_nk'' then Some (byte_stride out (t_type out) 0)
      else if s = ''o_byte_stride_c'' then Some (byte_stride out (t_type out) 1)
      else if s = ''o_byte_stride_h'' then Some (byte_stride out (t_type out) 2)
      else if s = ''o_byte_stride_w'' then Some (byte_stride out (t_type out) 3)
      else if s = ''precision'' then Some (type_value (t_type inp))
      else None)"

definition plan_lookup :: "fusion_plan \<Rightarrow> op_desc \<Rightarrow> tensor \<Rightarrow> string \<Rightarrow> int option" where
  "plan_lookup p d inp s =
     (case GetTensorAttr p s of Some v \<Rightarrow> Some v
      | None \<Rightarrow> (case GetOpAttr d inp s of Some v \<Rightarrow> Some v | None \<Rightarrow> GetEnumVal s))"

text \<open>\<open>AddOp\<close>: the flag says whether the status is success or \<open>miopenStatusUnsupportedOp\<close>. An exception of \<open>Init\<close>
  leaves the plan as it was; one of \<open>Advance\<close> is swallowed, after the operator has been added.\<close>

definition AddOp ::
  "(string \<Rightarrow> string option) \<Rightarrow> nat \<Rightarrow> (string \<Rightarrow> utree option) \<Rightarrow> fusion_plan \<Rightarrow> op_desc \<Rightarrow> (fusion_plan \<times> bool) result" where
  "AddOp env n parse p d =
     (case (if fp_count p = 0 then mdg_Init env n (fp_graph p) (op_kind d) else Inr (fp_graph p)) of
        Inl e \<Rightarrow> Inl e
      | Inr g \<Rightarrow>
          let inp = (if fp_ops p = [] then fp_input p else fp_output p);
              p1 = p\<lparr>fp_output := GetOutputDesc d inp (fp_output p),
                     fp_ops := fp_ops p @ [\<lparr>po_desc = d, po_idx = fp_count p, po_input = inp\<rparr>],
                     fp_count := fp_count p + 1, fp_graph := g, fp_valid := False\<rparr>
          in (case Advance parse g (fp_lu p) (op_kind d) (plan_lookup p1 d inp) of
                Inl e \<Rightarrow> Inr (p1, False)
              | Inr (lu, ok) \<Rightarrow> Inr (p1\<lparr>fp_lu := lu, fp_valid := ok\<rparr>, ok)))"

definition GetOp :: "fusion_plan \<Rightarrow> int \<Rightarrow> plan_op result" where
  "GetOp p op_idx =
     (if op_idx < 0 \<or> int (length (fp_ops p)) \<le> op_idx
      then throw_st miopenStatusBadParm ''Operator index out of bounds'' else Inr (fp_ops p ! nat op_idx))"

text \<open>The loop of \<open>DeriveOutputDescriptor\<close>: every operator gets its input again, and writes the output.\<close>

fun derive :: "tensor \<Rightarrow> tensor \<Rightarrow> plan_op list \<Rightarrow> plan_op list \<times> tensor" where
  "derive i_desc o_desc [] = ([], o_desc)"
| "derive i_desc o_desc (x # xs) =
     (let o' = GetOutputDesc (po_desc x) i_desc o_desc; (ys, r) = derive o' o' xs in (x\<lparr>po_input := i_desc\<rparr> # ys, r))"

definition DeriveOutputDescriptor :: "fusion_plan \<Rightarrow> (fusion_plan \<times> tensor) result" where
  "DeriveOutputDescriptor p =
     (if fp_dir p = miopenVerticalFusion
      then (let (ops, r) = derive (fp_input p) default_tensor (fp_ops p) in Inr (p\<lparr>fp_ops := ops\<rparr>, r))
      else throw_st miopenStatusNotImplemented ''Unsupported fusion direction'')"

definition plan_GetConvAlgos :: "fusion_plan \<Rightarrow> int \<Rightarrow> int \<times> int list" where
  "plan_GetConvAlgos p reqAlgoCount =
     (let algos = mdg_GetConvAlgos (fp_lu p); n = min reqAlgoCount (int (length algos)) in (n, take (nat n) algos))"

text \<open>\<open>SetConvAlgo\<close>: the flag is whether the status is success or \<open>miopenStatusUnknownError\<close>.\<close>

definition plan_SetConvAlgo :: "fusion_plan \<Rightarrow> int \<Rightarrow> (fusion_plan \<times> bool) result" where
  "plan_SetConvAlgo p a =
     (case mdg_SetConvAlgo (fp_lu p) a of Inl e \<Rightarrow> Inl e | Inr (lu, ok) \<Rightarrow> Inr (p\<lparr>fp_lu := lu\<rparr>, ok))"

definition plan_name :: "(mdg \<Rightarrow> string result) \<Rightarrow> fusion_plan \<Rightarrow> string result" where
  "plan_name name p =
     (if fp_ops p \<noteq> [] then name (fp_lu p)
      else throw_st miopenStatusNotImplemented ''Unsupported starting op in Fusion Plan'')"

definition plan_GetKernelName :: "string \<Rightarrow> bool option \<Rightarrow> fusion_plan \<Rightarrow> string result" where
  "plan_GetKernelName arch xnack = plan_name (mdg_GetKernelName arch xnack)"

definition plan_GetAlgorithmName :: "string \<Rightarrow> bool option \<Rightarrow> fusion_plan \<Rightarrow> string result" where
  "plan_GetAlgorithmName arch xnack = plan_name (mdg_GetAlgoName arch xnack)"

text \<open>Calls of \<open>AddOp\<close>, one after the other.\<close>

fun AddOps ::
  "(string \<Rightarrow> string option) \<Rightarrow> nat \<Rightarrow> (string \<Rightarrow> utree option) \<Rightarrow> fusion_plan \<Rightarrow> op_desc list
    \<Rightarrow> (fusion_plan \<times> bool list) result" where
  "AddOps env n parse p [] = Inr (p, [])"
| "AddOps env n parse p (d # ds) =
     (case AddOp env n parse p d of
        Inl e \<Rightarrow> Inl e
      | Inr (p', ok) \<Rightarrow> (case AddOps env n parse p' ds of Inl e \<Rightarrow> Inl e | Inr (p'', oks) \<Rightarrow> Inr (p'', ok # oks)))"

section \<open>The derived output\<close>

lemma derive_snoc:
  "derive i out (xs @ [x]) =
     (let (ys, r) = derive i out xs; inp = (if xs = [] then i else r)
      in (ys @ [x\<lparr>po_input := inp\<rparr>], GetOutputDesc (po_desc x) inp r))"
  by (induction xs arbitrary: i out) (auto simp: Let_def split: prod.splits)

text \<open>The output that the plan keeps is the one derived from all operators, and deriving it changes no operator.\<close>

definition output_derived :: "fusion_plan \<Rightarrow> bool" where
  "output_derived p \<longleftrightarrow> derive (fp_input p) default_tensor (fp_ops p) = (fp_ops p, fp_output p)"

lemma AddOp_fields:
  assumes "AddOp env n parse p d = Inr (p', ok)"
  shows "fp_input p' = fp_input p" "fp_dir p' = fp_dir p" "fp_count p' = fp_count p + 1"
    "fp_output p' = GetOutputDesc d (if fp_ops p = [] then fp_input p else fp_output p) (fp_output p)"
    "fp_ops p' = fp_ops p @ [\<lparr>po_desc = d, po_idx = fp_count p, po_input = (if fp_ops p = [] then fp_input p else fp_output p)\<rparr>]"
  using assms by (auto simp: AddOp_def Let_def split: sum.splits prod.splits if_splits)

lemma AddOp_output_derived:
  assumes "AddOp env n parse p d = Inr (p', ok)" "output_derived p"
  shows "output_derived p'"
  using assms(2) by (simp add: output_derived_def AddOp_fields [OF assms(1)] derive_snoc Let_def)

lemma AddOps_output_derived: "AddOps env n parse p ds = Inr (p', oks) \<Longrightarrow> output_derived p \<Longrightarrow> output_derived p'"
proof (induction ds arbitrary: p oks)
  case (Cons d ds)
  then obtain p1 ok oks' where "AddOp env n parse p d = Inr (p1, ok)" "AddOps env n parse p1 ds = Inr (p', oks')"
    by (auto split: sum.splits prod.splits)
  with Cons.IH AddOp_output_derived [OF _ Cons.prems(2)] show ?case by blast
qed simp

lemma AddOps_dir: "AddOps env n parse p ds = Inr (p', oks) \<Longrightarrow> fp_dir p' = fp_dir p"
proof (induction ds arbitrary: p oks)
  case (Cons d ds)
  then obtain p1 ok oks' where "AddOp env n parse p d = Inr (p1, ok)" "AddOps env n parse p1 ds = Inr (p', oks')"
    by (auto split: sum.splits prod.splits)
  with Cons.IH AddOp_fields(2) show ?case by metis
qed simp

section \<open>Plans follow walks\<close>

text \<open>While every operator is accepted, the paths of the plan are those of one step per operator.\<close>

lemma AddOp_ok:
  assumes "AddOp env n parse p d = Inr (p', True)" "fp_count p \<noteq> 0"
  shows "fp_graph p' = fp_graph p" "\<exists>attr. Advance parse (fp_graph p) (fp_lu p) (op_kind d) attr = Inr (fp_lu p', True)"
  using assms by (auto simp: AddOp_def Let_def split: sum.splits prod.splits)

lemma AddOps_steps:
  assumes "AddOps env n parse p ds = Inr (p', oks)" "False \<notin> set oks" "fp_count p \<noteq> 0" "cur_vertex (fp_lu p) \<noteq> []"
  shows "\<exists>steps. map fst steps = map op_kind ds \<and> Advances parse (fp_graph p) (fp_lu p) steps = Inr (fp_lu p')
    \<and> cur_vertex (fp_lu p') \<noteq> [] \<and> fp_ops p' = fp_ops p @ drop (length (fp_ops p)) (fp_ops p')"
  using assms
proof (induction ds arbitrary: p oks)
  case (Cons d ds)
  then obtain p1 oks' where p1: "AddOp env n parse p d = Inr (p1, True)" "AddOps env n parse p1 ds = Inr (p', oks')"
    "False \<notin> set oks'"
    by (auto split: sum.splits prod.splits)
  from AddOp_ok [OF p1(1) Cons.prems(3)] obtain attr where attr: "fp_graph p1 = fp_graph p"
    "Advance parse (fp_graph p) (fp_lu p) (op_kind d) attr = Inr (fp_lu p1, True)" by blast
  from Cons.IH [OF p1(2,3)] AddOp_fields(3) [OF p1(1)] Advance_ends(2) [OF attr(2)] obtain steps where steps:
    "map fst steps = map op_kind ds" "Advances parse (fp_graph p1) (fp_lu p1) steps = Inr (fp_lu p')"
    "cur_vertex (fp_lu p') \<noteq> []" "fp_ops p' = fp_ops p1 @ drop (length (fp_ops p1)) (fp_ops p')" by auto
  from steps(4) have "fp_ops p' = fp_ops p @ drop (length (fp_ops p)) (fp_ops p')"
    by (metis AddOp_fields(5) [OF p1(1)] append.assoc append_eq_conv_conj)
  with steps attr show ?case by (intro exI [of _ "(op_kind d, attr) # steps"]) simp
qed simp

lemma AddOps_walks:
  assumes "AddOps env n parse (FusionPlanDescriptor dir t) (d # ds) = Inr (p, oks)" "False \<notin> set oks"
    "Init_calls env n (op_kind d) = Inr calls"
  shows "\<exists>steps. map fst steps = map op_kind (d # ds) \<and> Advances parse (add_edges [] calls) mdg_start steps = Inr (fp_lu p)
    \<and> cur_vertex (fp_lu p) \<noteq> [] \<and> fp_ops p \<noteq> []"
proof -
  let ?p = "FusionPlanDescriptor dir t"
  from assms obtain p1 oks' where p1: "AddOp env n parse ?p d = Inr (p1, True)" "AddOps env n parse p1 ds = Inr (p, oks')"
    "False \<notin> set oks'"
    by (auto split: sum.splits prod.splits)
  from p1(1) assms(3) obtain attr where attr: "fp_graph p1 = add_edges [] calls"
    "Advance parse (add_edges [] calls) mdg_start (op_kind d) attr = Inr (fp_lu p1, True)"
    by (auto simp: AddOp_def mdg_Init_def FusionPlanDescriptor_def Let_def split: sum.splits prod.splits)
  have c: "fp_count p1 \<noteq> 0" "cur_vertex (fp_lu p1) \<noteq> []" "fp_ops p1 \<noteq> []"
    using AddOp_fields(3,5) [OF p1(1)] Advance_ends(2) [OF attr(2)] by auto
  from AddOps_steps [OF p1(2,3) c(1,2)] c(3) attr obtain steps where
    "map fst steps = map op_kind ds" "Advances parse (add_edges [] calls) (fp_lu p1) steps = Inr (fp_lu p)"
    "cur_vertex (fp_lu p) \<noteq> []" "fp_ops p \<noteq> []" by (metis append_is_Nil_conv)
  with attr show ?thesis by (intro exI [of _ "(op_kind d, attr) # steps"]) simp
qed

lemma entry_listed:
  assumes "(Some c, m) \<in> set (cur_vertex st)" "path_solver m = Some s"
  shows "s \<in> set (snd (GetSolvers st))"
proof -
  have "(Some c, m) \<in> set (std_sort heavier (cur_vertex st))" using assms(1) by simp
  with assms(2) show ?thesis
    by (force simp: GetSolvers_def Let_def List.map_filter_def simp del: set_std_sort)
qed

lemma Advances_chosen_entry:
  assumes "Advances parse g mdg_start steps = Inr st" "steps \<noteq> []" "GetCurVertex arch xnack st = Some c"
  shows "vertex_supported arch xnack c" "\<exists>m. (Some c, m) \<in> set (cur_vertex st)"
proof -
  from Advances_chosen [OF assms(1,2), of arch xnack] assms(3) obtain w where
    "walk parse g steps (Some c) w" "vertex_supported arch xnack c" by auto
  moreover from this Advances_ends(1) [OF assms(1)] have "(Some c, w) \<in> ends (cur_vertex st)" by simp
  ultimately show "vertex_supported arch xnack c" "\<exists>m. (Some c, m) \<in> set (cur_vertex st)" by (auto simp: in_ends)
qed

section \<open>Properties\<close>

text \<open>C40: After any number of operators were added to a plan for vertical fusion, accepted or not, the
  output descriptor that the plan keeps is the one that \<open>DeriveOutputDescriptor\<close> computes from all of them
  anew, and computing it changes nothing of the plan.\<close>

theorem derived_output:
  assumes "AddOps env n parse (FusionPlanDescriptor miopenVerticalFusion t) ds = Inr (p, oks)"
  shows "DeriveOutputDescriptor p = Inr (p, fp_output p)"
proof -
  have "output_derived (FusionPlanDescriptor miopenVerticalFusion t)"
    by (simp add: output_derived_def FusionPlanDescriptor_def)
  from AddOps_output_derived [OF assms this] AddOps_dir [OF assms] show ?thesis
    by (simp add: DeriveOutputDescriptor_def output_derived_def FusionPlanDescriptor_def)
qed

text \<open>C38: The paths of a graph, after operators were added one by one, are exactly the walks from the root that take
  one edge per operator whose constraints its attributes met: the vertices and weights that the
  plan is at are those at the ends of the walks, heaviest first.\<close>

theorem paths_are_walks:
  assumes "Advances parse g mdg_start steps = Inr st"
  shows "(\<lambda>(v, m). (v, weight m)) ` set (cur_vertex st) = {(v, w). walk parse g steps v w}
    \<and> sorted_wrt (\<lambda>a b. weight (snd b) \<le> weight (snd a)) (cur_vertex st)"
  using Advances_ends [OF assms] by (simp add: ends_def in_order_def heavier_def not_less)

text \<open>C39: The vertex that a plan takes its kernel from, once it has operators, is at the end of a heaviest walk among the
  vertices that the device supports; there is none exactly when no walk of weight at least zero ends
  in such a vertex.\<close>

theorem heaviest_supported_vertex:
  assumes "Advances parse g mdg_start steps = Inr st" "steps \<noteq> []"
  shows "case GetCurVertex arch xnack st of
      Some v \<Rightarrow> \<exists>w \<ge> 0. walk parse g steps (Some v) w \<and> vertex_supported arch xnack v
                \<and> (\<forall>v' w'. walk parse g steps (Some v') w' \<longrightarrow> vertex_supported arch xnack v' \<longrightarrow> w' \<le> w)
    | None \<Rightarrow> \<forall>v w. walk parse g steps (Some v) w \<longrightarrow> 0 \<le> w \<longrightarrow> \<not> vertex_supported arch xnack v"
  by (rule Advances_chosen [OF assms])


section \<open>An example\<close>

definition example_eq :: "string \<Rightarrow> utree \<Rightarrow> utree" where
  "example_eq s t = U_binary (U_symbol ''===='') (U_string s) t"

definition example_or :: "string \<Rightarrow> utree" where
  "example_or s = U_binary (U_symbol ''|'') (example_eq s (U_int 1)) (example_eq s (U_int 2))"

text \<open>The constraints of the OpenCL kernels, read as the grammar does.\<close>

definition example_parse :: "string \<Rightarrow> utree option" where
  "example_parse = map_of
     [(''group_count == 1'', example_eq ''group_count'' (U_int 1)),
      (''dilation_h == 1'', example_eq ''dilation_h'' (U_int 1)), (''dilation_w == 1'', example_eq ''dilation_w'' (U_int 1)),
      (''x == 3'', example_eq ''x'' (U_int 3)), (''y == 3'', example_eq ''y'' (U_int 3)),
      (''x == 5'', example_eq ''x'' (U_int 5)), (''x == 7'', example_eq ''x'' (U_int 7)),
      (''x == 9'', example_eq ''x'' (U_int 9)), (''x == 11'', example_eq ''x'' (U_int 11)),
      (''precision == miopenFloat'', example_eq ''precision'' (U_string ''miopenFloat'')),
      (''weight === 10'', U_binary (U_symbol ''==='') (U_string ''weight'') (U_int 10)),
      (''weight === 0'', U_binary (U_symbol ''==='') (U_string ''weight'') (U_int 0)),
      (''algo === miopenConvolutionFwdAlgoDirect'',
         U_binary (U_symbol ''==='') (U_string ''algo'') (U_string ''miopenConvolutionFwdAlgoDirect'')),
      (''pad_h <= 2'', U_binary (U_symbol ''<='') (U_string ''pad_h'') (U_int 2)),
      (''pad_w <= 2'', U_binary (U_symbol ''<='') (U_string ''pad_w'') (U_int 2)),
      (''((stride_h == 1) | (stride_h == 2))'', example_or ''stride_h''),
      (''((stride_w == 1) | (stride_w == 2))'', example_or ''stride_w''),
      (''bn_mode == miopenBNPerActivation'', example_eq ''bn_mode'' (U_string ''miopenBNPerActivation'')),
      (''bn_mode == miopenBNSpatial'', example_eq ''bn_mode'' (U_string ''miopenBNSpatial''))]"

text \<open>An environment without Winograd and assembly kernels.\<close>

definition example_env :: "string \<Rightarrow> string option" where
  "example_env s = (if s = ''MIOPEN_DEBUG_GCN_ASM_KERNELS'' then Some ''0'' else None)"

definition example_conv_op :: op_desc where
  "example_conv_op = ConvForwardOp (example_conv\<lparr>dilations := [1, 1]\<rparr>) example_w"

lemmas example_parse_simps = example_parse_def example_eq_def example_or_def op_of_symbol_def apply_op_def of_int_res_def
  of_truth_def visit_default_def

lemma example_show: "show_int 3 = ''3''" "show_int 5 = ''5''" "show_int 7 = ''7''" "show_int 9 = ''9''" "show_int 11 = ''11''"
  by code_simp+

lemma example_lookup:
  assumes "fp_input p = example_x" "t_type inp = miopenFloat"
  defines "f \<equiv> plan_lookup p example_conv_op inp"
  shows "f ''group_count'' = Some 1" "f ''dilation_h'' = Some 1" "f ''dilation_w'' = Some 1" "f ''x'' = Some 3" "f ''y'' = Some 3"
    "f ''precision'' = Some 1" "f ''miopenFloat'' = Some 1" "f ''weight'' = None" "f ''algo'' = None"
    "f ''miopenConvolutionFwdAlgoDirect'' = Some 1" "f ''pad_h'' = Some 1" "f ''pad_w'' = Some 1" "f ''stride_h'' = Some 2"
    "f ''stride_w'' = Some 1"
  using assms(1,2)
  by (simp_all add: f_def plan_lookup_def GetTensorAttr_def Let_def example_conv_op_def conv_attr_def GetEnumVal_def
      example_conv_def example_w_def example_x_def TensorDescriptor_lens_eq layout_lens_def layout_vector_def int_of_size_def
      type_value_def)

lemma example_key:
  assumes "fp_input p = example_x" "t_type inp = miopenFloat"
  shows "CmpOpKey example_parse (ocl_bias_map 3) (plan_lookup p example_conv_op inp) = Inr (True, [''weight'' \<mapsto> 10, ''algo'' \<mapsto> 1])"
    "CmpOpKey example_parse (ocl_bn_map 3) (plan_lookup p example_conv_op inp) = Inr (True, [''weight'' \<mapsto> 10, ''algo'' \<mapsto> 1])"
    "len \<in> {5, 7, 9, 11} \<Longrightarrow> CmpOpKey example_parse (ocl_bias_map len) (plan_lookup p example_conv_op inp) = Inr (False, Map.empty)"
    "len \<in> {5, 7, 9, 11} \<Longrightarrow> CmpOpKey example_parse (ocl_bn_map len) (plan_lookup p example_conv_op inp) = Inr (False, Map.empty)"
  by (auto simp: CmpOpKey_def ocl_bias_map_def ocl_bn_map_def ocl_common_def constraints_def example_show example_parse_simps
      example_lookup [OF assms] fun_upd_twist)

lemma example_graph: "children (conv_graph example_env 0) None
    = [(ocl_conv 0, map ocl_bias_map [3, 5, 7, 9, 11]), (ocl_conv 3, map ocl_bn_map [3, 5, 7, 9, 11])]"
  by code_simp

definition example_lu :: mdg where
  "example_lu = (let m = \<lparr>weight = 10, algo = Some 1, path_solver = Some ''ConvOclDirectFwdFused''\<rparr>
     in \<lparr>cur_vertex = [(Some (ocl_conv 0), m), (Some (ocl_conv 3), m)], conv_algo_set = {1}\<rparr>)"

lemma ocl_conv_fields [simp]:
  "v_op (ocl_conv i) = miopenFusionOpConvForward" "v_solver (ocl_conv i) = Some ''ConvOclDirectFwdFused''"
  "v_kernel (ocl_conv i) = ''MIOpenConvUniBatchNormActiv''" "vertex_supported arch xnack (ocl_conv i)"
  by (simp_all add: ocl_conv_def ocl_vertex_def mk_vertex_def vertex_supported_def)

lemma example_advance:
  assumes "fp_input p = example_x" "t_type inp = miopenFloat"
  shows "Advance example_parse (conv_graph example_env 0) mdg_start miopenFusionOpConvForward
    (plan_lookup p example_conv_op inp) = Inr (example_lu, True)"
  by (simp add: Advance_def mdg_start_def mdg_Reset_def example_graph example_key [OF assms] Let_def example_lu_def
      std_sort_def sort_insert_def linear_insert_def heavier_def)

definition example_plan :: fusion_plan where
  "example_plan = (let p = FusionPlanDescriptor miopenVerticalFusion example_x in
     p\<lparr>fp_output := GetOutputDesc example_conv_op example_x default_tensor,
       fp_ops := [\<lparr>po_desc = example_conv_op, po_idx = 0, po_input = example_x\<rparr>],
       fp_count := 1, fp_graph := conv_graph example_env 0, fp_lu := example_lu, fp_valid := True\<rparr>)"

lemma example_kind: "op_kind example_conv_op = miopenFusionOpConvForward"
  by (simp add: example_conv_op_def)

lemma example_added:
  "AddOps example_env 0 example_parse (FusionPlanDescriptor miopenVerticalFusion example_x) [example_conv_op]
     = Inr (example_plan, [True])"
proof -
  have t: "t_type example_x = miopenFloat" by (simp add: example_x_def TensorDescriptor_lens_eq)
  show ?thesis
    by (simp add: AddOp_def mdg_Init_def Init_calls_def example_kind FusionPlanDescriptor_def Let_def example_advance t
        example_plan_def)
qed

theorem derived_output_witness:
  "DeriveOutputDescriptor example_plan = Inr (example_plan, fp_output example_plan)"
  by (rule derived_output [OF example_added])


lemma example_steps:
  "Advances example_parse (conv_graph example_env 0) mdg_start
     [(miopenFusionOpConvForward, plan_lookup example_plan example_conv_op example_x)] = Inr example_lu"
proof -
  have "fp_input example_plan = example_x" "t_type example_x = miopenFloat"
    by (simp_all add: example_plan_def FusionPlanDescriptor_def Let_def example_x_def TensorDescriptor_lens_eq)
  from example_advance [OF this] show ?thesis by simp
qed

theorem paths_are_walks_witness:
  "walk example_parse (conv_graph example_env 0)
     [(miopenFusionOpConvForward, plan_lookup example_plan example_conv_op example_x)] (Some (ocl_conv 3)) 10"
proof -
  have "(Some (ocl_conv 3), 10) \<in> (\<lambda>(v, m). (v, weight m)) ` set (cur_vertex example_lu)"
    by (simp add: example_lu_def Let_def)
  with paths_are_walks [OF example_steps] show ?thesis by simp
qed

theorem heaviest_supported_vertex_witness:
  "\<exists>w \<ge> 0. walk example_parse (conv_graph example_env 0)
     [(miopenFusionOpConvForward, plan_lookup example_plan example_conv_op example_x)] (Some (ocl_conv 0)) w"
proof -
  have "GetCurVertex ''gfx906'' None example_lu = Some (ocl_conv 0)"
    by (simp add: GetCurVertex_def example_lu_def Let_def)
  with heaviest_supported_vertex [OF example_steps, of "''gfx906''" None] show ?thesis by auto
qed

section \<open>Plans for batch normalization\<close>

definition bn_vertex :: "nat \<Rightarrow> fusion_op \<Rightarrow> bool \<Rightarrow> vertex" where
  "bn_vertex i kind spat = mk_vertex i kind ''MIOpenBatchNormActivInfer.cl''
     (if spat then ''MIOpenBatchNormActivInferSpatialEst'' else ''MIOpenBatchNormActivInferPerActEst'')
     (if spat then ''MIOpenBatchNormActivInferSpatialEst'' else ''MIOpenBatchNormActivInferPerActEst'')"

lemma bn_graph:
  "children (add_edges [] (InitBN_calls n)) None =
     [(bn_vertex n miopenFusionOpBatchNormInference False, [constraints [''bn_mode == miopenBNPerActivation'', ''weight === 0'']]),
      (bn_vertex (n + 2) miopenFusionOpBatchNormInference True, [constraints [''bn_mode == miopenBNSpatial'', ''weight === 0'']])]"
  "children (add_edges [] (InitBN_calls n)) (Some (bn_vertex n miopenFusionOpBatchNormInference False)) =
     [(bn_vertex (n + 1) miopenFusionOpActivForward False, [empty_map])]"
  "children (add_edges [] (InitBN_calls n)) (Some (bn_vertex (n + 2) miopenFusionOpBatchNormInference True)) =
     [(bn_vertex (n + 3) miopenFusionOpActivForward True, [empty_map])]"
  by (simp_all add: add_edges_def InitBN_calls_def Let_def AddEdge_def children_def bn_vertex_def mk_vertex_def)

text \<open>The constraints of the graph, read as the grammar does.\<close>

definition reads_bn :: "(string \<Rightarrow> utree option) \<Rightarrow> bool" where
  "reads_bn parse \<longleftrightarrow>
     parse ''weight === 0'' = Some (U_binary (U_symbol ''==='') (U_string ''weight'') (U_int 0))
     \<and> parse ''bn_mode == miopenBNPerActivation'' = Some (U_binary (U_symbol ''===='') (U_string ''bn_mode'') (U_string ''miopenBNPerActivation''))
     \<and> parse ''bn_mode == miopenBNSpatial'' = Some (U_binary (U_symbol ''===='') (U_string ''bn_mode'') (U_string ''miopenBNSpatial''))"


lemma bn_lookup:
  "plan_lookup p (BatchNormInferenceOp mode) inp ''bn_mode'' = Some mode"
  "plan_lookup p (BatchNormInferenceOp mode) inp ''miopenBNPerActivation'' = Some 0"
  "plan_lookup p (BatchNormInferenceOp mode) inp ''miopenBNSpatial'' = Some 1"
  "plan_lookup p (BatchNormInferenceOp mode) inp ''weight'' = None"
  "plan_lookup p (ActivFwdOp a) inp ''weight'' = None"
  by (simp_all add: plan_lookup_def GetTensorAttr_def Let_def GetEnumVal_def)

lemma bn_key:
  assumes "reads_bn parse"
  shows "\<exists>syms. CmpOpKey parse (constraints [''bn_mode == miopenBNPerActivation'', ''weight === 0''])
           (plan_lookup p (BatchNormInferenceOp mode) inp) = Inr (mode = 0, syms) \<and> (mode = 0 \<longrightarrow> syms = [''weight'' \<mapsto> 0])"
    "\<exists>syms. CmpOpKey parse (constraints [''bn_mode == miopenBNSpatial'', ''weight === 0''])
           (plan_lookup p (BatchNormInferenceOp mode) inp) = Inr (mode = 1, syms) \<and> (mode = 1 \<longrightarrow> syms = [''weight'' \<mapsto> 0])"
    "CmpOpKey parse empty_map (plan_lookup p (ActivFwdOp a) inp) = Inr (True, [''weight'' \<mapsto> 0])"
  using assms
  by (auto simp: reads_bn_def CmpOpKey_def constraints_def empty_map_def op_of_symbol_def apply_op_def of_int_res_def
      of_truth_def visit_default_def bn_lookup Let_def)

definition bn_lu :: "nat \<Rightarrow> fusion_op \<Rightarrow> bool \<Rightarrow> mdg" where
  "bn_lu i kind spat = \<lparr>cur_vertex = [(Some (bn_vertex i kind spat), \<lparr>weight = 0, algo = None, path_solver = None\<rparr>)],
     conv_algo_set = {}\<rparr>"

lemma bn_advance:
  assumes "reads_bn parse" "mode = 0 \<or> mode = 1"
  shows "Advance parse (add_edges [] (InitBN_calls n)) mdg_start miopenFusionOpBatchNormInference
      (plan_lookup p (BatchNormInferenceOp mode) inp)
    = Inr (bn_lu (if mode = 1 then n + 2 else n) miopenFusionOpBatchNormInference (mode = 1), True)"
  using assms(2) bn_key(1,2) [OF assms(1), of p mode inp]
  by (auto simp: Advance_def mdg_start_def mdg_Reset_def bn_graph Let_def bn_lu_def bn_vertex_def mk_vertex_def
      std_sort_def sort_insert_def linear_insert_def)

lemma bn_advance_activ:
  assumes "reads_bn parse"
  shows "Advance parse (add_edges [] (InitBN_calls n)) (bn_lu (if s then n + 2 else n) miopenFusionOpBatchNormInference s)
      miopenFusionOpActivForward (plan_lookup p (ActivFwdOp a) inp)
    = Inr (bn_lu (if s then n + 3 else n + 1) miopenFusionOpActivForward s, True)"
  using bn_key(3) [OF assms, of p a inp]
  by (cases s) (simp_all add: Advance_def bn_graph [simplified] Let_def bn_lu_def std_sort_def sort_insert_def linear_insert_def,
    simp_all add: bn_vertex_def mk_vertex_def)

text \<open>A plan of batch normalization for inference followed by an activation is accepted, on any device
  and for any input, and its kernel is the spatial one exactly when the mode is spatial; the three
  constraints of that graph are taken to be read as the grammar says.\<close>

theorem bn_plan_kernel:
  assumes "reads_bn parse" "mode = 0 \<or> mode = 1"
  shows "\<exists>p. AddOps env n parse (FusionPlanDescriptor dir t) [BatchNormInferenceOp mode, ActivFwdOp a] = Inr (p, [True, True])
    \<and> plan_GetKernelName arch xnack p = Inr (if mode = 1 then ''MIOpenBatchNormActivInferSpatialEst''
                                              else ''MIOpenBatchNormActivInferPerActEst'')"
  using bn_advance [OF assms] bn_advance_activ [OF assms(1), of n "mode = 1"]
  by (simp add: AddOp_def mdg_Init_def Init_calls_def FusionPlanDescriptor_def Let_def plan_GetKernelName_def plan_name_def
      mdg_GetKernelName_def vertex_data_def GetCurVertex_def bn_lu_def vertex_supported_def bn_vertex_def mk_vertex_def)

theorem bn_plan_kernel_witness:
  "\<exists>p. AddOps example_env 7 example_parse (FusionPlanDescriptor miopenVerticalFusion example_x)
       [BatchNormInferenceOp 1, ActivFwdOp 3] = Inr (p, [True, True])
     \<and> plan_GetKernelName ''gfx906'' None p = Inr ''MIOpenBatchNormActivInferSpatialEst''"
  using bn_plan_kernel [of example_parse 1 example_env 7 miopenVerticalFusion example_x 3 "''gfx906''" None]
  by (simp add: reads_bn_def example_parse_def example_eq_def)

end
