(* ===== verification/Spec2Isabelle.thy ===== *)
theory Spec2Isabelle
  imports Ram_Db Multi_File_Db Lock_File Tensor Runtime_Caches Controls Generic_Search Sequences
    Convolution Problem_Description Solver_Context Conv_Asm1x1u Conv_Asm3x3u Find_Solution Tuning Device_Numbers
    Find_Db Conv_Solvers Conv_Calls Conv_Choice Conv_Again Conv_Workspace Rnn_Params Fusion_Plan
begin

text \<open>
  Verification of the host side of MIOpen, the library that finds, tunes, caches and launches the
  GPU kernels of deep learning primitives.  Paths are under \<open>src/src/\<close>.

  \<^bold>\<open>The program.\<close>  A convolution is described by tensors and a convolution descriptor.  For a
  problem, the library asks a list of solvers which of them are applicable; a solver has a
  performance configuration, which is read from a database under the key of the problem, found
  by a search over all valid configurations, or made by a heuristic; from it the solver makes
  the kernels of its solution.  The databases are text files, cached in memory and guarded by
  lock files; compiled kernels and invokers are cached per process; environment variables
  control what is searched and what is written.

  \<^bold>\<open>Theories.\<close>
  \<^item> \<open>Prelude\<close>: exceptions as values, line and text scanning, C++ division, association lists.
  \<^item> \<open>Db_Record\<close> (\<open>db_record.cpp\<close>): a record of ID to VALUES mappings, its text form, merging.
  \<^item> \<open>Db_Interface\<close>: what a database promises, as the locales \<open>read_db\<close>, \<open>record_db\<close> and
    \<open>value_codec\<close>; the clients' lemmas are proved there once.
  \<^item> \<open>Plain_Text_Db\<close> (\<open>db.cpp\<close>): lookup and rewriting of the file over a model of the file system;
    interprets \<open>record_db\<close>.
  \<^item> \<open>Ram_Db\<close> (\<open>ramdb.cpp\<close>): the cache of a file with validation by modification time, as a step
    relation of processes that share the file; interprets \<open>record_db\<close>.
  \<^item> \<open>Multi_File_Db\<close> (\<open>db.hpp\<close>, \<open>readonlyramdb.cpp\<close>): the user's database before the installed one.
  \<^item> \<open>Lock_File\<close> (\<open>lock_file.hpp\<close>): the lock of processes and threads.
  \<^item> \<open>Serialize\<close>, \<open>Perf_Codec\<close> (\<open>serializable.hpp\<close>, \<open>performance_config.hpp\<close>): text forms of values.
  \<^item> \<open>Tensor\<close>, \<open>Convolution\<close> (\<open>tensor.cpp\<close>, \<open>tensor_layout.hpp\<close>, \<open>convolution.cpp\<close>): descriptors, sizes,
    layouts, output shapes.
  \<^item> \<open>Tensor_Copy\<close> (\<open>ocl/tensorocl.cpp\<close>, \<open>tensor_ops.hpp\<close>): copying a tensor between buffers, with the flattening of
    the descriptors and what the threads of the copy kernel do.
  \<^item> \<open>Problem_Description\<close>, \<open>Solver_Context\<close> (\<open>conv/problem_description.cpp\<close>,
    \<open>problem_description.cpp\<close>): a problem, its database key, and what solvers see of it.
  \<^item> \<open>Sequences\<close>, \<open>Generic_Search\<close> (\<open>sequences.hpp\<close>, \<open>generic_search.hpp\<close>): rule sets over the members of a
    configuration, and the search; the locales \<open>perf_space\<close> and \<open>rule_set\<close> state what a solver's
    \<open>SetNextValue\<close> must do for the search to try every configuration.
  \<^item> \<open>Solver_Grid\<close>, \<open>Perf_Fields\<close>, \<open>Conv_Asm3x3u\<close>, \<open>Conv_Asm1x1u\<close> (\<open>solver/conv_asm_3x3u.cpp\<close>,
    \<open>solver/conv_asm_1x1u.cpp\<close>): two tunable solvers; they interpret \<open>rule_set\<close>, and \<open>field_space\<close>
    and \<open>perf_space\<close>.
  \<^item> \<open>Find_Solution\<close> (\<open>find_solution.hpp\<close>): how a solution is found; the locale \<open>tuning_db\<close> states what it
    relies on, and the plain text database interprets it.
  \<^item> \<open>Controls\<close> (\<open>find_controls.cpp\<close>, \<open>env.hpp\<close>, \<open>conv_algo_name.cpp\<close>, \<open>target_properties.cpp\<close>,
    \<open>kernel_build_params.cpp\<close>): environment controls, names, build options.
  \<^item> \<open>Runtime_Caches\<close> (\<open>kernel_cache.cpp\<close>, \<open>invoker_cache.cpp\<close>): kernels and invokers per process.
  \<^item> \<open>Device_Numbers\<close> (\<open>magic_div.hpp\<close>, \<open>bfloat16.hpp\<close>): numbers prepared for the device: exact division by
    a multiplication, rounding to the 16-bit format.
  \<^item> \<open>Solver_Registry\<close> (\<open>solver.cpp\<close>, \<open>solver_id.hpp\<close>): the solvers with their numbers and names.
  \<^item> \<open>Find_Db\<close> (\<open>find_db.cpp\<close>): what a find has measured, kept and validated; the locale \<open>find_store\<close>
    states what it relies on, and the cached database interprets it.
  \<^item> \<open>Conv_Solvers\<close> (\<open>mlo_dir_conv.cpp\<close>, \<open>convolution.cpp\<close>): the solvers of each algorithm, the searches of a find, the
    workspace sizes of the algorithms.
  \<^item> \<open>Std_Sort\<close>: \<open>std::sort\<close> of short ranges, which is what the library does to lists of at most 16 elements
    also when the comparison is no order.
  \<^item> \<open>Conv_Host\<close> (\<open>solver.cpp\<close>, \<open>par_for.hpp\<close>, \<open>handle.hpp\<close>, \<open>hip/handlehip.cpp\<close>): the library \<open>lib\<close> and the handle
    \<open>host\<close> of the convolution calls, precompiling, preparing, registering and running invokers.
  \<^item> \<open>Conv_Immediate\<close> (\<open>ocl/convolutionocl.cpp\<close>): the immediate mode: listing, sizing, compiling and running solutions.
  \<^item> \<open>Conv_Find\<close> (\<open>ocl/convolutionocl.cpp\<close>): the find calls and the convolution calls of the three directions.
  \<^item> \<open>Conv_Calls\<close>: all calls as a step relation on the handle and its invariant.
  \<^item> \<open>Conv_Choice\<close>: which solution is chosen, and what listed solutions are good for.
  \<^item> \<open>Conv_Workspace\<close> (\<open>convolution.cpp\<close>): the workspace queries of the three directions, and that they are enough.
  \<^item> \<open>Conv_Again\<close>: a find that the find database answers.
  \<^item> \<open>Rnn_Params\<close> (\<open>rnn.cpp\<close>): recurrent networks: sizes, where each matrix and bias lies in the parameters, and
    the operations that get and set them.
  \<^item> \<open>Fusion_Graph\<close> (\<open>md_graph.cpp\<close>, \<open>mdg_expr.hpp\<close>): the metadata graph: constraints, edges and the paths of a plan.
  \<^item> \<open>Fusion_Init\<close> (\<open>md_graph.cpp\<close>): the graphs for convolutions and batch normalization, and the plans they have paths for.
  \<^item> \<open>Fusion_Plan\<close> (\<open>fusion.cpp\<close>): operators, their attributes, and plans.
  \<^item> \<open>Tuning\<close>: the solver, the search, the finder and the database together.

  \<^bold>\<open>How state and code correspond.\<close>  A class is a record of its members, a method a function from
  the state to the new state and the result; \<open>MIOPEN_THROW\<close> is \<open>Inl\<close> of an \<open>exn\<close>.
  \<open>std::size_t\<close> is a 64-bit word where it can wrap; \<open>int\<close> is an integer, reduced by \<open>as_int\<close> to 32
  bits where a product could leave the range.  Hash maps are association lists, whose iteration
  order is a parameter \<open>ord\<close> that permutes.  The file system is a map from names to contents
  with permissions; the clock, the environment, the device and the arithmetic of \<open>float\<close> are parameters.

  \<^bold>\<open>What is shown.\<close>  The databases refine a map from keys to records: what is stored is found,
  updates merge, other keys are untouched, and the cache answers like the file in every
  interleaving of processes; who has their lock exclusively is alone, except for readers whose process gave its file
  lock up with another reader.  The text forms are read back exactly and the keys of
  different problems differ.  The search tries every valid configuration once and returns the best one
  measured; the heuristics of the solvers are valid whenever the solver is applicable; the grids
  of the kernels cover the output exactly, and buffers and workspaces have the sizes used.  A
  tuned configuration is used by every later run.  A find call chooses the fastest solution
  measured, the convolution call after it runs a registered invoker, the next find call of the
  problem returns the same results without measuring, and the workspace that the size queries
  announce is enough for every solution that a find gets.  The matrices and biases of a recurrent network tile
  the buffer whose size is announced, and setting and getting them is writing and reading memory.  A fusion plan is at the ends of the walks through its graph that its
  operators allow, and its kernel is that of a heaviest one the device supports.  Where the code does not do what it means to,
  a theorem states what it does.

  \<^bold>\<open>Fuel and loops.\<close>  Loops over text and lists are recursive functions with termination proofs.
  The search loops are \<open>partial_function\<close>s: that they end is part of the enumeration theorems.

  \<^bold>\<open>Not modelled.\<close>  GPU kernels (but for the one that copies tensors) and the device runtimes, the SQLite databases (SQL for a library
  that is not in the repository), the parser of the constraints of fusion plans (a library), what compiles
  and runs a plan, the C API's argument forwarding, GEMM back ends, pure
  input and output, drivers and tests; of the solvers, those that are not listed.
\<close>

end
